(* ===== verification/Axiom_Prelude.thy ===== *)
theory Axiom_Prelude
  imports Main "HOL-Library.Word"
begin

text \<open>
  The shared vocabulary of the development: the machine integers of the Rust sources
  (\<open>u8\<close> \dots \<open>u64\<close>; a signed integer is kept as a word and read with \<open>sint\<close>, or as an
  \<open>int\<close> with the wrap-around written out), \<open>Result\<close> as a sum with its \<open>?\<close> operator, and the
  integer methods of the Rust standard library that the sources call. The second half is a
  library of facts about carries, borrows and bitwise bounds which the value domains share.
\<close>

unbundle bit_operations_syntax

named_theorems res_simps \<open>unfolding rules for the error plumbing\<close>
named_theorems rust_arith \<open>definitions of the Rust integer methods\<close>

section \<open>Machine integers\<close>

type_synonym u8 = "8 word"
type_synonym u16 = "16 word"
type_synonym u32 = "32 word"
type_synonym u64 = "64 word"
type_synonym i16 = "16 word"
type_synonym i32 = "32 word"

text \<open>\<open>i64\<close> values that the code compares and adds are \<open>int\<close>s in the range of \<open>i64\<close>.\<close>

type_synonym i64 = int

abbreviation u32_MAX :: u32 where "u32_MAX \<equiv> - 1"
abbreviation u64_MAX :: u64 where "u64_MAX \<equiv> - 1"

definition i64_MIN :: i64 where [rust_arith]: "i64_MIN = - 9223372036854775808"
definition i64_MAX :: i64 where [rust_arith]: "i64_MAX = 9223372036854775807"

definition wrap_i64 :: "int \<Rightarrow> i64" where
  [rust_arith]: "wrap_i64 x = (x + 9223372036854775808) mod 18446744073709551616 - 9223372036854775808"

definition checked_add_i64 :: "i64 \<Rightarrow> i64 \<Rightarrow> i64 option" where
  [rust_arith]: "checked_add_i64 a b = (if i64_MIN \<le> a + b \<and> a + b \<le> i64_MAX then Some (a + b) else None)"

definition overflowing_add :: "'a::len word \<Rightarrow> 'a word \<Rightarrow> 'a word \<times> bool" where
  [rust_arith]: "overflowing_add a b = (a + b, 2 ^ LENGTH('a) \<le> unat a + unat b)"

definition overflowing_sub :: "'a::len word \<Rightarrow> 'a word \<Rightarrow> 'a word \<times> bool" where
  [rust_arith]: "overflowing_sub a b = (a - b, a < b)"

definition overflowing_mul :: "'a::len word \<Rightarrow> 'a word \<Rightarrow> 'a word \<times> bool" where
  [rust_arith]: "overflowing_mul a b = (a * b, 2 ^ LENGTH('a) \<le> unat a * unat b)"

text \<open>
  \<open>overflowing_shl\<close> reports whether the shift \<^emph>\<open>count\<close> reached the width; bits shifted out are
  lost silently.
\<close>

definition overflowing_shl :: "'a::len word \<Rightarrow> nat \<Rightarrow> 'a word \<times> bool" where
  [rust_arith]: "overflowing_shl a s = (push_bit (s mod LENGTH('a)) a, LENGTH('a) \<le> s)"

definition saturating_sub :: "'a::len word \<Rightarrow> 'a word \<Rightarrow> 'a word" where
  [rust_arith]: "saturating_sub a b = (if a < b then 0 else a - b)"

definition saturating_add :: "'a::len word \<Rightarrow> 'a word \<Rightarrow> 'a word" where
  [rust_arith]: "saturating_add a b = (if 2 ^ LENGTH('a) \<le> unat a + unat b then - 1 else a + b)"

definition checked_sub :: "'a::len word \<Rightarrow> 'a word \<Rightarrow> 'a word option" where
  [rust_arith]: "checked_sub a b = (if a < b then None else Some (a - b))"

definition checked_div :: "'a::len word \<Rightarrow> 'a word \<Rightarrow> 'a word option" where
  [rust_arith]: "checked_div a b = (if b = 0 then None else Some (a div b))"

definition checked_rem :: "'a::len word \<Rightarrow> 'a word \<Rightarrow> 'a word option" where
  [rust_arith]: "checked_rem a b = (if b = 0 then None else Some (a mod b))"

text \<open>\<open>u64::checked_add_signed\<close>: \<open>None\<close> when the mathematical sum leaves \<open>u64\<close>.\<close>

definition checked_add_signed :: "u64 \<Rightarrow> i64 \<Rightarrow> u64 option" where
  [rust_arith]: "checked_add_signed a d =
     (if 0 \<le> uint a + d \<and> uint a + d < 18446744073709551616 then Some (a + of_int d) else None)"

section \<open>Results\<close>

text \<open>\<open>Result<T, E>\<close> is \<open>'e + 'a\<close> with \<open>Inl\<close> the error; \<open>res_bind\<close> is the \<open>?\<close> operator.\<close>

definition res_bind :: "'e + 'a \<Rightarrow> ('a \<Rightarrow> 'e + 'b) \<Rightarrow> 'e + 'b" where
  "res_bind m f = (case m of Inl e \<Rightarrow> Inl e | Inr x \<Rightarrow> f x)"

definition ok_or :: "'a option \<Rightarrow> 'e \<Rightarrow> 'e + 'a" where
  "ok_or m e = (case m of None \<Rightarrow> Inl e | Some x \<Rightarrow> Inr x)"

lemma res_bind_simps [simp, res_simps]:
  "res_bind (Inl e) f = Inl e"
  "res_bind (Inr x) f = f x"
  by (simp_all add: res_bind_def)

lemma ok_or_simps [simp, res_simps]:
  "ok_or None e = Inl e"
  "ok_or (Some x) e = Inr x"
  by (simp_all add: ok_or_def)

lemma res_bind_eq_Inr_iff: "res_bind m f = Inr y \<longleftrightarrow> (\<exists>x. m = Inr x \<and> f x = Inr y)"
  by (cases m) auto

lemma ok_or_eq_Inr_iff: "ok_or m e = Inr x \<longleftrightarrow> m = Some x"
  by (cases m) auto

lemma if_Inl_eq_Inr_iff: "(if b then Inl e else m) = Inr y \<longleftrightarrow> \<not> b \<and> m = Inr y"
  by simp

lemmas res_Inr_iffs = res_bind_eq_Inr_iff ok_or_eq_Inr_iff if_Inl_eq_Inr_iff

section \<open>Carries and borrows\<close>

lemma bit_u64D: "bit (w :: u64) n \<Longrightarrow> n < 64"
  using bit_imp_le_length [of w n] by simp


text \<open>
  Bit \<open>n\<close> of a sum is decided by the two operand bits and the carry out of the lower bits, and
  dually for a difference; the carry and the borrow are monotone in the set of operand bits.
\<close>

lemma div_lt_double:
  fixes a b :: int
  assumes "0 \<le> a" "a < 2 * b"
  shows "a div b = (if b \<le> a then 1 else 0)"
proof (cases "b \<le> a")
  case True
  then have "a div b = (a - b) div b + 1" using assms by (simp add: div_pos_geq)
  also have "(a - b) div b = 0" using assms True by simp
  finally show ?thesis using True by simp
next
  case False
  then show ?thesis using assms by simp
qed

lemma bit_add_carry_int:
  fixes x y :: int
  shows "bit (x + y) n \<longleftrightarrow> (bit x n \<noteq> (bit y n \<noteq> (2 ^ n \<le> take_bit n x + take_bit n y)))"
proof -
  let ?c = "(take_bit n x + take_bit n y) div 2 ^ n"
  have "take_bit n x + take_bit n y < 2 * 2 ^ n"
    using take_bit_int_less_exp [of n x] take_bit_int_less_exp [of n y] by linarith
  then have c: "?c = (if 2 ^ n \<le> take_bit n x + take_bit n y then 1 else 0)"
    by (intro div_lt_double) simp_all
  have "(x + y) div 2 ^ n = x div 2 ^ n + y div 2 ^ n + ?c"
    unfolding take_bit_eq_mod by (rule div_add1_eq)
  then show ?thesis
    by (auto simp: bit_iff_odd c)
qed

lemma bit_sub_borrow_int:
  fixes x y :: int
  shows "bit (x - y) n \<longleftrightarrow> (bit x n \<noteq> (bit y n \<noteq> (take_bit n x < take_bit n y)))"
proof -
  have d: "take_bit n (x - y) = (take_bit n x - take_bit n y) mod 2 ^ n"
    by (simp add: take_bit_eq_mod mod_diff_eq)
  have lt: "take_bit n x < 2 ^ n" "take_bit n y < 2 ^ n" "0 \<le> take_bit n x" "0 \<le> take_bit n y"
    by simp_all
  have m: "(take_bit n x - take_bit n y) mod 2 ^ n =
      (if take_bit n x < take_bit n y then take_bit n x - take_bit n y + 2 ^ n
       else take_bit n x - take_bit n y)"
  proof (cases "take_bit n x < take_bit n y")
    case True
    have "(take_bit n x - take_bit n y) mod 2 ^ n = (take_bit n x - take_bit n y + 2 ^ n) mod 2 ^ n"
      by (rule mod_add_self2 [symmetric])
    also have "\<dots> = take_bit n x - take_bit n y + 2 ^ n"
      using True lt by (intro mod_pos_pos_trivial) linarith+
    finally show ?thesis using True by simp
  next
    case False
    then have "(take_bit n x - take_bit n y) mod 2 ^ n = take_bit n x - take_bit n y"
      using lt by (intro mod_pos_pos_trivial) linarith+
    then show ?thesis using False by simp
  qed
  have "2 ^ n \<le> take_bit n (x - y) + take_bit n y \<longleftrightarrow> take_bit n x < take_bit n y"
  proof (cases "take_bit n x < take_bit n y")
    case True
    then have "take_bit n (x - y) = take_bit n x - take_bit n y + 2 ^ n" unfolding d m by simp
    with True lt show ?thesis by linarith
  next
    case False
    then have "take_bit n (x - y) = take_bit n x - take_bit n y" unfolding d m by simp
    with False lt show ?thesis by linarith
  qed
  then show ?thesis
    using bit_add_carry_int [of "x - y" y n] by auto
qed

lemma bit_word_add_carry:
  fixes x y :: "'a::len word"
  assumes "n < LENGTH('a)"
  shows "bit (x + y) n \<longleftrightarrow>
    (bit x n \<noteq> (bit y n \<noteq> (2 ^ n \<le> take_bit n (uint x) + take_bit n (uint y))))"
  using assms by transfer (simp add: bit_take_bit_iff bit_add_carry_int)

lemma bit_word_sub_borrow:
  fixes x y :: "'a::len word"
  assumes "n < LENGTH('a)"
  shows "bit (x - y) n \<longleftrightarrow>
    (bit x n \<noteq> (bit y n \<noteq> (take_bit n (uint x) < take_bit n (uint y))))"
  using assms by transfer (simp add: bit_take_bit_iff bit_sub_borrow_int)

lemma take_bit_uint_mono_subset:
  fixes x y :: "'a::len word"
  assumes "\<And>n. bit x n \<Longrightarrow> bit y n"
  shows "take_bit k (uint x) \<le> take_bit k (uint y)"
proof -
  have "take_bit k (uint y) = take_bit k (uint x) OR take_bit k (uint y)"
    using assms by (auto intro!: bit_eqI simp: bit_take_bit_iff bit_or_iff bit_uint_iff)
  then show ?thesis
    by (metis or_greater_eq take_bit_nonnegative)
qed

lemma take_bit_64_uint [simp]: "take_bit 64 (uint (w :: u64)) = uint w"
  using uint_lt2p [of w] by (simp add: take_bit_int_eq_self)

section \<open>Words read as natural numbers\<close>

lemma unat_u64_less: "unat (x :: u64) < 18446744073709551616"
  using unsigned_less [of x] by simp

lemma unat_u64_le_MAX: "unat (x :: u64) \<le> 18446744073709551615"
  using unat_u64_less [of x] by simp

lemma unat_u64_MAX [simp]: "unat u64_MAX = 18446744073709551615"
  by (simp add: unsigned_minus_1_eq_mask mask_eq_exp_minus_1)

lemma unat_push_bit_mod: "unat (push_bit s (x :: u64)) = (unat x * 2 ^ s) mod 18446744073709551616"
proof -
  have "push_bit s x = x * of_nat (2 ^ s)" by (simp add: push_bit_eq_mult)
  then have "unat (push_bit s x) = unat x * unat (of_nat (2 ^ s) :: u64) mod 2 ^ LENGTH(64)"
    by (simp only: unat_word_ariths)
  then show ?thesis unfolding unat_of_nat by (simp add: mod_mult_right_eq)
qed

lemma unat_drop_bit_div: "unat (drop_bit s (x :: u64)) = unat x div 2 ^ s"
  by (metis drop_bit_eq_div unat_drop_bit_eq)

lemma unat_take_bit_mod: "unat (take_bit s (x :: u64)) = unat x mod 2 ^ s"
  by (metis take_bit_eq_mod unsigned_take_bit_eq)

lemma unat_ucast_u32: "unat (ucast (x :: u64) :: u32) = unat x mod 4294967296"
  by (simp add: unsigned_ucast_eq take_bit_eq_mod)

end
