(* ===== verification/Tnum.thy ===== *)
theory Tnum
  imports Axiom_Prelude
begin

text \<open>
  Tracked numbers (\<open>TnumValue\<close> in \<open>verifier/state.rs\<close>): partial knowledge of a 64-bit value,
  bit by bit. Every operation of the source is here under its own name with the prefix
  \<open>tnum_\<close>; the second half proves that each one over-approximates the concrete operation.
\<close>

record tnum_value =
  tv_value :: u64
  tv_mask :: u64

definition mk_tnum :: "u64 \<Rightarrow> u64 \<Rightarrow> tnum_value" where
  "mk_tnum v m = \<lparr>tv_value = v, tv_mask = m\<rparr>"

section \<open>Operations\<close>

definition tnum_constant :: "u64 \<Rightarrow> tnum_value" where
  "tnum_constant v = mk_tnum v 0"

definition tnum_unknown :: tnum_value where
  "tnum_unknown = mk_tnum 0 u64_MAX"

definition tnum_is_constant :: "tnum_value \<Rightarrow> bool" where
  "tnum_is_constant t \<longleftrightarrow> tv_mask t = 0"

definition tnum_as_constant :: "tnum_value \<Rightarrow> u64 option" where
  "tnum_as_constant t = (if tv_mask t = 0 then Some (tv_value t) else None)"

definition tnum_contains :: "tnum_value \<Rightarrow> u64 \<Rightarrow> bool" where
  "tnum_contains t n \<longleftrightarrow> (tv_value t AND NOT (tv_mask t)) = (n AND NOT (tv_mask t))"

definition tnum_add :: "tnum_value \<Rightarrow> tnum_value \<Rightarrow> tnum_value" where
  "tnum_add a b =
     (let sm = tv_mask a + tv_mask b;
          sv = tv_value a + tv_value b;
          sigma = sm + sv;
          chi = sigma XOR sv;
          mu = chi OR tv_mask a OR tv_mask b
      in mk_tnum (sv AND NOT mu) mu)"

definition tnum_sub :: "tnum_value \<Rightarrow> tnum_value \<Rightarrow> tnum_value" where
  "tnum_sub a b =
     (let dv = tv_value a - tv_value b;
          alpha = dv + tv_mask a;
          beta = dv - tv_mask b;
          chi = alpha XOR beta;
          mu = chi OR tv_mask a OR tv_mask b
      in mk_tnum (dv AND NOT mu) mu)"

definition tnum_and :: "tnum_value \<Rightarrow> tnum_value \<Rightarrow> tnum_value" where
  "tnum_and a b =
     (let alpha = tv_value a OR tv_mask a;
          beta = tv_value b OR tv_mask b;
          v = tv_value a AND tv_value b
      in mk_tnum v (alpha AND beta AND NOT v))"

definition tnum_or :: "tnum_value \<Rightarrow> tnum_value \<Rightarrow> tnum_value" where
  "tnum_or a b =
     (let v = tv_value a OR tv_value b;
          mu = (tv_mask a OR tv_mask b) AND NOT v
      in mk_tnum v mu)"

definition tnum_xor :: "tnum_value \<Rightarrow> tnum_value \<Rightarrow> tnum_value" where
  "tnum_xor a b =
     (let v = tv_value a XOR tv_value b;
          mu = tv_mask a OR tv_mask b
      in mk_tnum (v AND NOT mu) mu)"

text \<open>The shift counts are \<open>u8\<close> in the source; here they are the natural number they denote.\<close>

definition tnum_lshift :: "tnum_value \<Rightarrow> nat \<Rightarrow> tnum_value" where
  "tnum_lshift t s =
     (if 64 \<le> s then mk_tnum 0 0
      else mk_tnum (push_bit s (tv_value t)) (push_bit s (tv_mask t)))"

definition tnum_rshift :: "tnum_value \<Rightarrow> nat \<Rightarrow> tnum_value" where
  "tnum_rshift t s =
     (if 64 \<le> s then mk_tnum 0 0
      else mk_tnum (drop_bit s (tv_value t)) (drop_bit s (tv_mask t)))"

definition tnum_arshift :: "tnum_value \<Rightarrow> nat \<Rightarrow> tnum_value" where
  "tnum_arshift t s =
     (if 64 \<le> s then
        (if drop_bit 63 (tv_mask t) AND 1 = 1 then tnum_unknown
         else let b = drop_bit 63 (tv_value t) AND 1
              in tnum_constant (if b = 1 then u64_MAX else 0))
      else mk_tnum (signed_drop_bit s (tv_value t)) (signed_drop_bit s (tv_mask t)))"

text \<open>One round of the 64-step loop in \<open>TnumValue::mul\<close>, on the loop variables \<open>acc, a, b\<close>.\<close>

definition tnum_mul_step ::
  "tnum_value \<times> tnum_value \<times> tnum_value \<Rightarrow> tnum_value \<times> tnum_value \<times> tnum_value" where
  "tnum_mul_step = (\<lambda>(acc, a, b).
     let b_known_one = (tv_value b AND 1 = 1 \<and> tv_mask b AND 1 = 0);
         b_unknown = (tv_mask b AND 1 = 1);
         acc' = (if b_known_one then tnum_add acc a
                 else if b_unknown then tnum_add acc (mk_tnum 0 (tv_value a OR tv_mask a))
                 else acc)
     in (acc', tnum_lshift a 1, tnum_rshift b 1))"

definition tnum_mul :: "tnum_value \<Rightarrow> tnum_value \<Rightarrow> tnum_value" where
  "tnum_mul a b = fst ((tnum_mul_step ^^ 64) (tnum_constant 0, a, b))"

definition tnum_intersect :: "tnum_value \<Rightarrow> tnum_value \<Rightarrow> tnum_value option" where
  "tnum_intersect a b =
     (let known_both = NOT (tv_mask a) AND NOT (tv_mask b)
      in if (tv_value a XOR tv_value b) AND known_both \<noteq> 0 then None
         else Some (mk_tnum (tv_value a OR tv_value b) (tv_mask a AND tv_mask b)))"

definition tnum_subsumes :: "tnum_value \<Rightarrow> tnum_value \<Rightarrow> bool" where
  "tnum_subsumes a b \<longleftrightarrow>
     (let bits_disagree = (tv_value a XOR tv_value b) AND NOT (tv_mask a) AND NOT (tv_mask b)
      in bits_disagree = 0 \<and> tv_mask a OR tv_mask b = tv_mask a)"

section \<open>Meaning and well-formedness\<close>

text \<open>
  A tracked number is well formed when no unknown bit carries a value, which is what every
  constructor and operation of the source maintains.
\<close>

definition tnum_wf :: "tnum_value \<Rightarrow> bool" where
  "tnum_wf t \<longleftrightarrow> tv_value t AND tv_mask t = 0"

named_theorems tnum_defs \<open>definitions of the tracked-number operations\<close>
lemmas [tnum_defs] =
  tnum_constant_def tnum_unknown_def tnum_add_def tnum_sub_def tnum_and_def tnum_or_def
  tnum_xor_def tnum_lshift_def tnum_rshift_def tnum_arshift_def tnum_intersect_def Let_def

lemma mk_tnum_sel [simp]:
  "tv_value (mk_tnum v m) = v" "tv_mask (mk_tnum v m) = m"
  by (simp_all add: mk_tnum_def)

lemma tnum_wf_bit: "tnum_wf t \<longleftrightarrow> (\<forall>n. bit (tv_value t) n \<longrightarrow> \<not> bit (tv_mask t) n)"
  unfolding tnum_wf_def bit_eq_iff bit_and_iff by (auto dest: bit_u64D)

lemma tnum_contains_bit:
  "tnum_contains t x \<longleftrightarrow>
     (\<forall>n. n < 64 \<longrightarrow> \<not> bit (tv_mask t) n \<longrightarrow> bit x n = bit (tv_value t) n)"
  by (auto simp: tnum_contains_def bit_eq_iff bit_and_iff bit_not_iff)

text \<open>
  The relation the soundness lemmas are about: \<open>x\<close> is one of the values a well-formed tracked
  number stands for. Bit by bit it says that the known ones are in \<open>x\<close> and that \<open>x\<close> has no one
  outside the known ones and the unknown bits.
\<close>

definition tnum_has :: "tnum_value \<Rightarrow> u64 \<Rightarrow> bool" where
  "tnum_has t x \<longleftrightarrow> tnum_wf t \<and> tnum_contains t x"

lemma tnum_has_bit:
  "tnum_has t x \<longleftrightarrow>
     (\<forall>n<64. (bit (tv_value t) n \<longrightarrow> bit x n \<and> \<not> bit (tv_mask t) n) \<and>
            (bit x n \<longrightarrow> bit (tv_value t) n \<or> bit (tv_mask t) n))"
  unfolding tnum_has_def tnum_wf_bit tnum_contains_bit
  by (auto dest: bit_u64D)

lemma tnum_hasD:
  assumes "tnum_has t x"
  shows "bit (tv_value t) n \<Longrightarrow> bit x n" "bit (tv_value t) n \<Longrightarrow> \<not> bit (tv_mask t) n"
    "bit x n \<Longrightarrow> \<not> bit (tv_mask t) n \<Longrightarrow> bit (tv_value t) n"
  using assms unfolding tnum_has_def tnum_wf_bit tnum_contains_bit
  by (auto dest: bit_u64D)

lemma tnum_has_at:
  "tnum_has t x \<Longrightarrow>
     (bit (tv_value t) n \<longrightarrow> bit x n \<and> \<not> bit (tv_mask t) n) \<and>
     (bit x n \<longrightarrow> bit (tv_value t) n \<or> bit (tv_mask t) n)"
  using tnum_hasD by blast

lemma tnum_hasI:
  assumes "\<And>n. n < 64 \<Longrightarrow> bit (tv_value t) n \<Longrightarrow> bit x n"
    and "\<And>n. n < 64 \<Longrightarrow> bit (tv_value t) n \<Longrightarrow> \<not> bit (tv_mask t) n"
    and "\<And>n. n < 64 \<Longrightarrow> bit x n \<Longrightarrow> \<not> bit (tv_mask t) n \<Longrightarrow> bit (tv_value t) n"
  shows "tnum_has t x"
  using assms unfolding tnum_has_bit by blast

subsection \<open>Constructors and bitwise operations\<close>

lemma tnum_constant_has [simp]: "tnum_has (tnum_constant v) x \<longleftrightarrow> x = v"
  by (auto simp: tnum_has_def tnum_wf_def tnum_contains_def tnum_constant_def)

lemma tnum_unknown_has [simp]: "tnum_has tnum_unknown x"
  by (rule tnum_hasI) (simp_all add: tnum_unknown_def)

lemmas tnum_bit_simps = bit_and_iff bit_or_iff bit_xor_iff bit_not_iff

lemma tnum_and_sound: "tnum_has a x \<Longrightarrow> tnum_has b y \<Longrightarrow> tnum_has (tnum_and a b) (x AND y)"
  by (rule tnum_hasI) (auto simp: tnum_has_bit tnum_defs tnum_bit_simps)

lemma tnum_or_sound: "tnum_has a x \<Longrightarrow> tnum_has b y \<Longrightarrow> tnum_has (tnum_or a b) (x OR y)"
  by (rule tnum_hasI) (auto simp: tnum_has_bit tnum_defs tnum_bit_simps)

lemma tnum_xor_sound: "tnum_has a x \<Longrightarrow> tnum_has b y \<Longrightarrow> tnum_has (tnum_xor a b) (x XOR y)"
  by (rule tnum_hasI) (auto simp: tnum_has_bit tnum_defs tnum_bit_simps)

lemma tnum_lshift_sound:
  assumes "tnum_has a x"
  shows "tnum_has (tnum_lshift a s) (push_bit s x)"
proof (rule tnum_hasI)
  fix n :: nat assume "n < 64"
  then show "bit (tv_value (tnum_lshift a s)) n \<Longrightarrow> bit (push_bit s x) n"
    "bit (tv_value (tnum_lshift a s)) n \<Longrightarrow> \<not> bit (tv_mask (tnum_lshift a s)) n"
    "bit (push_bit s x) n \<Longrightarrow> \<not> bit (tv_mask (tnum_lshift a s)) n \<Longrightarrow> bit (tv_value (tnum_lshift a s)) n"
    using tnum_hasD [OF assms, of "n - s"]
    by (auto simp: tnum_defs bit_push_bit_iff split: if_splits)
qed

lemma tnum_rshift_sound:
  assumes "tnum_has a x"
  shows "tnum_has (tnum_rshift a s) (drop_bit s x)"
proof (rule tnum_hasI)
  fix n :: nat assume "n < 64"
  then show "bit (tv_value (tnum_rshift a s)) n \<Longrightarrow> bit (drop_bit s x) n"
    "bit (tv_value (tnum_rshift a s)) n \<Longrightarrow> \<not> bit (tv_mask (tnum_rshift a s)) n"
    "bit (drop_bit s x) n \<Longrightarrow> \<not> bit (tv_mask (tnum_rshift a s)) n \<Longrightarrow> bit (tv_value (tnum_rshift a s)) n"
    using tnum_hasD [OF assms, of "s + n"]
    by (auto simp: tnum_defs bit_drop_bit_eq split: if_splits dest: bit_u64D)
qed

lemma tnum_arshift_sound:
  assumes "tnum_has a x" "s < 64"
  shows "tnum_has (tnum_arshift a s) (signed_drop_bit s x)"
proof (rule tnum_hasI)
  fix n :: nat assume "n < 64"
  then show "bit (tv_value (tnum_arshift a s)) n \<Longrightarrow> bit (signed_drop_bit s x) n"
    "bit (tv_value (tnum_arshift a s)) n \<Longrightarrow> \<not> bit (tv_mask (tnum_arshift a s)) n"
    "bit (signed_drop_bit s x) n \<Longrightarrow> \<not> bit (tv_mask (tnum_arshift a s)) n \<Longrightarrow> bit (tv_value (tnum_arshift a s)) n"
    using assms(2) tnum_hasD [OF assms(1), of "s + n"] tnum_hasD [OF assms(1), of 63]
    by (auto simp: tnum_defs bit_signed_drop_bit_iff split: if_splits)
qed


subsection \<open>Addition, subtraction and multiplication\<close>

text \<open>
  The value bits are the least and value or mask bits the greatest operand, so the carry into a
  bit lies between the two extreme carries. Where \<open>chi\<close> is clear these agree.
\<close>

lemma tnum_value_plus_mask: "tnum_wf t \<Longrightarrow> tv_value t + tv_mask t = tv_value t OR tv_mask t"
  by (simp add: tnum_wf_def disjunctive_add_eq_or)

lemma tnum_has_take_bit_bounds:
  assumes "tnum_has t x"
  shows "take_bit n (uint (tv_value t)) \<le> take_bit n (uint x)"
    and "take_bit n (uint x) \<le> take_bit n (uint (tv_value t OR tv_mask t))"
  using tnum_hasD [OF assms] by (auto intro!: take_bit_uint_mono_subset simp: bit_or_iff)

lemma tnum_add_sound:
  assumes a: "tnum_has a x" and b: "tnum_has b y"
  shows "tnum_has (tnum_add a b) (x + y)"
proof -
  let ?sv = "tv_value a + tv_value b"
  let ?lo = "\<lambda>n. take_bit n (uint (tv_value a)) + take_bit n (uint (tv_value b))"
  let ?hi = "\<lambda>n. take_bit n (uint (tv_value a OR tv_mask a)) + take_bit n (uint (tv_value b OR tv_mask b))"
  have sigma: "(tv_mask a + tv_mask b) + ?sv = (tv_value a OR tv_mask a) + (tv_value b OR tv_mask b)"
    using a b by (simp add: tnum_has_def tnum_value_plus_mask [symmetric])
  have bit_eq: "bit (x + y) n = bit ?sv n"
    if n: "n < 64" and m: "\<not> bit (tv_mask a) n" "\<not> bit (tv_mask b) n"
      and chi: "bit ((tv_mask a + tv_mask b) + ?sv) n = bit ?sv n" for n
  proof -
    have ops: "bit x n = bit (tv_value a) n" "bit y n = bit (tv_value b) n"
      using tnum_hasD [OF a, of n] tnum_hasD [OF b, of n] m by auto
    have "(2 ^ n \<le> ?hi n) = (2 ^ n \<le> ?lo n)"
      using chi m n unfolding sigma by (auto simp: bit_word_add_carry bit_or_iff)
    then have "(2 ^ n \<le> take_bit n (uint x) + take_bit n (uint y)) = (2 ^ n \<le> ?lo n)"
      using tnum_has_take_bit_bounds [OF a, of n] tnum_has_take_bit_bounds [OF b, of n] by linarith
    then show ?thesis
      using n ops by (simp add: bit_word_add_carry)
  qed
  show ?thesis
    by (rule tnum_hasI) (auto simp: tnum_add_def Let_def tnum_bit_simps bit_eq)
qed

lemma tnum_sub_sound:
  assumes a: "tnum_has a x" and b: "tnum_has b y"
  shows "tnum_has (tnum_sub a b) (x - y)"
proof -
  let ?dv = "tv_value a - tv_value b"
  have alpha: "?dv + tv_mask a = (tv_value a OR tv_mask a) - tv_value b"
    and beta: "?dv - tv_mask b = tv_value a - (tv_value b OR tv_mask b)"
    using a b by (simp_all add: tnum_has_def tnum_value_plus_mask [symmetric])
  have bit_eq: "bit (x - y) n = bit ?dv n"
    if n: "n < 64" and m: "\<not> bit (tv_mask a) n" "\<not> bit (tv_mask b) n"
      and chi: "bit (?dv + tv_mask a) n = bit (?dv - tv_mask b) n" for n
  proof -
    have ops: "bit x n = bit (tv_value a) n" "bit y n = bit (tv_value b) n"
      using tnum_hasD [OF a, of n] tnum_hasD [OF b, of n] m by auto
    have "(take_bit n (uint (tv_value a OR tv_mask a)) < take_bit n (uint (tv_value b))) =
          (take_bit n (uint (tv_value a)) < take_bit n (uint (tv_value b OR tv_mask b)))"
      using chi m n unfolding alpha beta by (auto simp: bit_word_sub_borrow bit_or_iff)
    then have "(take_bit n (uint x) < take_bit n (uint y)) =
          (take_bit n (uint (tv_value a)) < take_bit n (uint (tv_value b)))"
      using tnum_has_take_bit_bounds [OF a, of n] tnum_has_take_bit_bounds [OF b, of n]
        tnum_has_take_bit_bounds(2) [of a "tv_value a" n] tnum_has_take_bit_bounds(2) [of b "tv_value b" n]
        a b by (auto simp: tnum_has_def tnum_contains_def)
    then show ?thesis
      using n ops by (simp add: bit_word_sub_borrow)
  qed
  show ?thesis
    by (rule tnum_hasI) (auto simp: tnum_sub_def Let_def tnum_bit_simps bit_eq)
qed

lemma tnum_mul_step_inv:
  assumes "tnum_has acc z" "tnum_has a x" "tnum_has b y"
    and "tnum_mul_step (acc, a, b) = (acc', a', b')"
  shows "tnum_has acc' (z + (if odd y then x else 0))" "tnum_has a' (push_bit 1 x)" "tnum_has b' (drop_bit 1 y)"
proof -
  have low: "bit (tv_value b) 0 \<Longrightarrow> odd y" "\<not> bit (tv_mask b) 0 \<Longrightarrow> odd y = bit (tv_value b) 0"
    using tnum_hasD [OF assms(3), of 0] by (auto simp: bit_0)
  have maybe: "tnum_has (mk_tnum 0 (tv_value a OR tv_mask a)) (if odd y then x else 0)"
    by (rule tnum_hasI) (auto simp: bit_or_iff dest: tnum_hasD(3) [OF assms(2)] split: if_splits)
  have one: "w AND 1 = 1 \<longleftrightarrow> bit w 0" "w AND 1 = 0 \<longleftrightarrow> \<not> bit w 0" for w :: u64
    by (auto simp: bit_0 and_one_eq odd_iff_mod_2_eq_one even_iff_mod_2_eq_zero)
  show "tnum_has acc' (z + (if odd y then x else 0))"
    using assms(4) tnum_add_sound [OF assms(1) assms(2)] tnum_add_sound [OF assms(1) maybe] low assms(1)
    by (auto simp: tnum_mul_step_def Let_def one split: if_splits)
  show "tnum_has a' (push_bit 1 x)" "tnum_has b' (drop_bit 1 y)"
    using assms(4) tnum_lshift_sound [OF assms(2), of 1] tnum_rshift_sound [OF assms(3), of 1]
    by (auto simp: tnum_mul_step_def Let_def)
qed

lemma word_odd_split: "d = (if odd d then 1 else 0) + 2 * drop_bit 1 d" for d :: u64
proof -
  have "d mod 2 + 2 * (d div 2) = d" by (rule mod_mult_div_eq)
  then show ?thesis by (simp add: drop_bit_eq_div mod2_eq_if split: if_splits)
qed

lemma push_drop_mul_step:
  fixes x y :: u64
  shows "push_bit k x * drop_bit k y =
    (if odd (drop_bit k y) then push_bit k x else 0) + push_bit (Suc k) x * drop_bit (Suc k) y"
proof -
  let ?d = "drop_bit k y"
  have "push_bit k x * ?d = push_bit k x * ((if odd ?d then 1 else 0) + 2 * drop_bit 1 ?d)"
    by (rule arg_cong [OF word_odd_split])
  also have "\<dots> = (if odd ?d then push_bit k x else 0) + (2 * push_bit k x) * drop_bit 1 ?d"
    by (simp add: algebra_simps)
  also have "2 * push_bit k x = push_bit (Suc k) x"
    by (simp add: push_bit_double mult.commute)
  also have "drop_bit 1 ?d = drop_bit (Suc k) y"
    by (simp add: drop_bit_drop_bit)
  finally show ?thesis .
qed

lemma tnum_mul_loop:
  assumes "tnum_has a x" "tnum_has b y"
  shows "\<exists>acc a' b' z. (tnum_mul_step ^^ k) (tnum_constant 0, a, b) = (acc, a', b') \<and>
    tnum_has acc z \<and> tnum_has a' (push_bit k x) \<and> tnum_has b' (drop_bit k y) \<and>
    z + push_bit k x * drop_bit k y = x * y"
proof (induction k)
  case 0
  then show ?case using assms by simp
next
  case (Suc k)
  then obtain acc a' b' z where st: "(tnum_mul_step ^^ k) (tnum_constant 0, a, b) = (acc, a', b')"
    and h: "tnum_has acc z" "tnum_has a' (push_bit k x)" "tnum_has b' (drop_bit k y)"
    and eq: "z + push_bit k x * drop_bit k y = x * y"
    by blast
  obtain acc2 a2 b2 where st2: "tnum_mul_step (acc, a', b') = (acc2, a2, b2)"
    by (metis prod_cases3)
  note inv = tnum_mul_step_inv [OF h st2]
  have "push_bit 1 (push_bit k x) = push_bit (Suc k) x" "drop_bit 1 (drop_bit k y) = drop_bit (Suc k) y"
    by (simp_all add: push_bit_push_bit drop_bit_drop_bit)
  then show ?case
    using inv st st2 eq push_drop_mul_step [of k x y] by (auto simp: add.assoc)
qed

lemma tnum_mul_sound:
  assumes "tnum_has a x" "tnum_has b y"
  shows "tnum_has (tnum_mul a b) (x * y)"
proof -
  have "drop_bit 64 y = 0"
    by (rule bit_eqI) (auto simp: bit_drop_bit_eq dest: bit_u64D)
  then show ?thesis
    using tnum_mul_loop [OF assms, of 64] by (auto simp: tnum_mul_def)
qed

subsection \<open>Intersection and subsumption\<close>

lemma tnum_intersect_sound:
  assumes "tnum_has a x" "tnum_has b x"
  shows "\<exists>t. tnum_intersect a b = Some t \<and> tnum_has t x"
proof -
  have "(tv_value a XOR tv_value b) AND (NOT (tv_mask a) AND NOT (tv_mask b)) = 0"
  proof (rule bit_eqI)
    fix n
    show "bit ((tv_value a XOR tv_value b) AND (NOT (tv_mask a) AND NOT (tv_mask b))) n = bit 0 n"
      using tnum_has_at [OF assms(1), of n] tnum_has_at [OF assms(2), of n] by (auto simp: tnum_bit_simps)
  qed
  moreover have "tnum_has (mk_tnum (tv_value a OR tv_value b) (tv_mask a AND tv_mask b)) x"
    unfolding tnum_has_bit
  proof (intro allI impI)
    fix n :: nat
    show "(bit (tv_value (mk_tnum (tv_value a OR tv_value b) (tv_mask a AND tv_mask b))) n \<longrightarrow>
        bit x n \<and> \<not> bit (tv_mask (mk_tnum (tv_value a OR tv_value b) (tv_mask a AND tv_mask b))) n) \<and>
      (bit x n \<longrightarrow> bit (tv_value (mk_tnum (tv_value a OR tv_value b) (tv_mask a AND tv_mask b))) n \<or>
        bit (tv_mask (mk_tnum (tv_value a OR tv_value b) (tv_mask a AND tv_mask b))) n)"
      using tnum_has_at [OF assms(1), of n] tnum_has_at [OF assms(2), of n] by (auto simp: tnum_bit_simps)
  qed
  ultimately show ?thesis by (simp add: tnum_intersect_def Let_def)
qed

lemma tnum_subsumes_sound:
  assumes "tnum_subsumes a b" "tnum_has b x" "tnum_wf a"
  shows "tnum_has a x"
proof -
  have "bit x n = bit (tv_value a) n" if n: "n < 64" and m: "\<not> bit (tv_mask a) n" for n
  proof -
    have "\<not> bit (tv_mask b) n" "bit (tv_value a) n = bit (tv_value b) n"
      using assms(1) n m unfolding tnum_subsumes_def Let_def bit_eq_iff by (auto simp: tnum_bit_simps)
    then show ?thesis using tnum_hasD [OF assms(2), of n] by blast
  qed
  then show ?thesis
    using assms(3) by (simp add: tnum_has_def tnum_contains_bit)
qed

lemma tnum_has_bounds:
  assumes "tnum_has t x"
  shows "tv_value t \<le> x" "x \<le> tv_value t OR tv_mask t"
  using tnum_has_take_bit_bounds [OF assms, of 64]
  by (simp_all add: word_le_def)

end
