(* ===== verification/Bytecode.thy ===== *)
theory Bytecode
  imports Axiom_Prelude
begin

text \<open>
  The eBPF instruction format: the opcode fields of \<open>bytecode/opcode.rs\<close>, the registers of
  \<open>bytecode/registers.rs\<close> and the eight-byte instruction of \<open>bytecode/insn.rs\<close> with its
  accessors and constructors. The lemmas are the round trips between the packed fields and
  what the accessors read back, and how the opcode predicates used by the verifier relate to
  the decoded operation used by the interpreter.
\<close>

section \<open>Opcodes\<close>

datatype opcode_class = Ld | Ldx | St | Stx | Alu32 | Jmp | Jmp32 | Alu64

definition class_from_opcode :: "u8 \<Rightarrow> opcode_class option" where
  "class_from_opcode opc =
     (let c = opc AND 0x07 in
      if c = 0x00 then Some Ld
      else if c = 0x01 then Some Ldx
      else if c = 0x02 then Some St
      else if c = 0x03 then Some Stx
      else if c = 0x04 then Some Alu32
      else if c = 0x05 then Some Jmp
      else if c = 0x06 then Some Jmp32
      else if c = 0x07 then Some Alu64
      else None)"

datatype source_type = Src_Imm | Src_Reg

definition source_from_opcode :: "u8 \<Rightarrow> source_type" where
  "source_from_opcode opc = (if opc AND 0x08 \<noteq> 0 then Src_Reg else Src_Imm)"

datatype alu_op =
  Add | Sub | Mul | Div | Or | And | Lsh | Rsh | Neg | Mod | Xor | Mov | Arsh | End

definition alu_from_opcode :: "u8 \<Rightarrow> alu_op option" where
  "alu_from_opcode opc =
     (let c = opc AND 0xf0 in
      if c = 0x00 then Some Add
      else if c = 0x10 then Some Sub
      else if c = 0x20 then Some Mul
      else if c = 0x30 then Some Div
      else if c = 0x40 then Some Or
      else if c = 0x50 then Some And
      else if c = 0x60 then Some Lsh
      else if c = 0x70 then Some Rsh
      else if c = 0x80 then Some Neg
      else if c = 0x90 then Some Mod
      else if c = 0xa0 then Some Xor
      else if c = 0xb0 then Some Mov
      else if c = 0xc0 then Some Arsh
      else if c = 0xd0 then Some End
      else None)"

definition can_divide_by_zero :: "alu_op \<Rightarrow> bool" where
  "can_divide_by_zero op \<longleftrightarrow> op \<in> {Div, Mod}"

definition is_unary :: "alu_op \<Rightarrow> bool" where
  "is_unary op \<longleftrightarrow> op \<in> {Neg, End}"

datatype jmp_op =
  Ja | Jeq | Jgt | Jge | Jset | Jne | Jsgt | Jsge | Call | Exit | Jlt | Jle | Jslt | Jsle

definition jmp_from_opcode :: "u8 \<Rightarrow> jmp_op option" where
  "jmp_from_opcode opc =
     (let c = opc AND 0xf0 in
      if c = 0x00 then Some Ja
      else if c = 0x10 then Some Jeq
      else if c = 0x20 then Some Jgt
      else if c = 0x30 then Some Jge
      else if c = 0x40 then Some Jset
      else if c = 0x50 then Some Jne
      else if c = 0x60 then Some Jsgt
      else if c = 0x70 then Some Jsge
      else if c = 0x80 then Some Call
      else if c = 0x90 then Some Exit
      else if c = 0xa0 then Some Jlt
      else if c = 0xb0 then Some Jle
      else if c = 0xc0 then Some Jslt
      else if c = 0xd0 then Some Jsle
      else None)"

definition is_conditional :: "jmp_op \<Rightarrow> bool" where
  "is_conditional op \<longleftrightarrow> op \<notin> {Ja, Call, Exit}"

definition is_unconditional :: "jmp_op \<Rightarrow> bool" where
  "is_unconditional op \<longleftrightarrow> op = Ja"

datatype mem_size = MemWord | MemHalf | MemByte | MemDWord

definition size_from_opcode :: "u8 \<Rightarrow> mem_size option" where
  "size_from_opcode opc =
     (let c = opc AND 0x18 in
      if c = 0x00 then Some MemWord
      else if c = 0x08 then Some MemHalf
      else if c = 0x10 then Some MemByte
      else if c = 0x18 then Some MemDWord
      else None)"

fun size_bytes :: "mem_size \<Rightarrow> nat" where
  "size_bytes MemByte = 1"
| "size_bytes MemHalf = 2"
| "size_bytes MemWord = 4"
| "size_bytes MemDWord = 8"

section \<open>Registers\<close>

datatype register = R0 | R1 | R2 | R3 | R4 | R5 | R6 | R7 | R8 | R9 | R10

definition register_from_raw :: "u8 \<Rightarrow> register option" where
  "register_from_raw v =
     (if v = 0 then Some R0 else if v = 1 then Some R1 else if v = 2 then Some R2
      else if v = 3 then Some R3 else if v = 4 then Some R4 else if v = 5 then Some R5
      else if v = 6 then Some R6 else if v = 7 then Some R7 else if v = 8 then Some R8
      else if v = 9 then Some R9 else if v = 10 then Some R10 else None)"

primrec register_as_raw :: "register \<Rightarrow> nat" where
  "register_as_raw R0 = 0" | "register_as_raw R1 = 1" | "register_as_raw R2 = 2"
| "register_as_raw R3 = 3" | "register_as_raw R4 = 4" | "register_as_raw R5 = 5"
| "register_as_raw R6 = 6" | "register_as_raw R7 = 7" | "register_as_raw R8 = 8"
| "register_as_raw R9 = 9" | "register_as_raw R10 = 10"

definition is_writable :: "register \<Rightarrow> bool" where
  "is_writable r \<longleftrightarrow> r \<noteq> R10"

definition is_caller_saved :: "register \<Rightarrow> bool" where
  "is_caller_saved r \<longleftrightarrow> register_as_raw r \<le> 5"

definition is_callee_saved :: "register \<Rightarrow> bool" where
  "is_callee_saved r \<longleftrightarrow> 6 \<le> register_as_raw r \<and> register_as_raw r \<le> 9"

text \<open>The array \<open>[u64; 11]\<close> indexed by \<open>Register\<close> is a function on registers.\<close>

type_synonym register_file = "register \<Rightarrow> u64"

definition register_file_new :: register_file where
  "register_file_new = (\<lambda>_. 0)"

definition register_file_get :: "register_file \<Rightarrow> register \<Rightarrow> u64" where
  "register_file_get rf r = rf r"

definition register_file_set :: "register_file \<Rightarrow> register \<Rightarrow> u64 \<Rightarrow> register_file" where
  "register_file_set rf r v = rf(r := v)"

section \<open>Instructions\<close>

record bpf_insn =
  opcode :: u8
  insn_regs :: u8
  insn_offset :: i16
  insn_imm :: i32

definition insn_new :: "u8 \<Rightarrow> u8 \<Rightarrow> u8 \<Rightarrow> i16 \<Rightarrow> i32 \<Rightarrow> bpf_insn" where
  "insn_new opc d s off i =
     \<lparr>opcode = opc, insn_regs = push_bit 4 s OR (d AND 0x0f), insn_offset = off, insn_imm = i\<rparr>"

definition dst_reg :: "bpf_insn \<Rightarrow> u8" where
  "dst_reg insn = insn_regs insn AND 0x0f"

definition src_reg :: "bpf_insn \<Rightarrow> u8" where
  "src_reg insn = drop_bit 4 (insn_regs insn) AND 0x0f"

definition insn_dst :: "bpf_insn \<Rightarrow> register option" where
  "insn_dst insn = register_from_raw (dst_reg insn)"

definition insn_src :: "bpf_insn \<Rightarrow> register option" where
  "insn_src insn = register_from_raw (src_reg insn)"

definition insn_class :: "bpf_insn \<Rightarrow> opcode_class option" where
  "insn_class insn = class_from_opcode (opcode insn)"

definition insn_source_type :: "bpf_insn \<Rightarrow> source_type" where
  "insn_source_type insn = source_from_opcode (opcode insn)"

definition is_wide :: "bpf_insn \<Rightarrow> bool" where
  "is_wide insn \<longleftrightarrow> opcode insn = 0x18"

definition is_alu :: "bpf_insn \<Rightarrow> bool" where
  "is_alu insn \<longleftrightarrow> insn_class insn \<in> {Some Alu32, Some Alu64}"

definition is_alu64 :: "bpf_insn \<Rightarrow> bool" where
  "is_alu64 insn \<longleftrightarrow> insn_class insn = Some Alu64"

definition is_jump :: "bpf_insn \<Rightarrow> bool" where
  "is_jump insn \<longleftrightarrow> insn_class insn \<in> {Some Jmp, Some Jmp32}"

definition is_memory :: "bpf_insn \<Rightarrow> bool" where
  "is_memory insn \<longleftrightarrow> insn_class insn \<in> {Some Ld, Some Ldx, Some St, Some Stx}"

definition is_exit :: "bpf_insn \<Rightarrow> bool" where
  "is_exit insn \<longleftrightarrow> opcode insn = 0x95"

definition is_call :: "bpf_insn \<Rightarrow> bool" where
  "is_call insn \<longleftrightarrow> opcode insn = 0x85"

definition insn_alu_op :: "bpf_insn \<Rightarrow> alu_op option" where
  "insn_alu_op insn = (if is_alu insn then alu_from_opcode (opcode insn) else None)"

definition insn_jmp_op :: "bpf_insn \<Rightarrow> jmp_op option" where
  "insn_jmp_op insn = (if is_jump insn then jmp_from_opcode (opcode insn) else None)"

definition insn_mem_size :: "bpf_insn \<Rightarrow> mem_size option" where
  "insn_mem_size insn = (if is_memory insn then size_from_opcode (opcode insn) else None)"

subsection \<open>Constructors\<close>

definition insn_exit :: bpf_insn where "insn_exit = insn_new 0x95 0 0 0 0"
definition mov64_imm :: "u8 \<Rightarrow> i32 \<Rightarrow> bpf_insn" where "mov64_imm d i = insn_new 0xb7 d 0 0 i"
definition mov64_reg :: "u8 \<Rightarrow> u8 \<Rightarrow> bpf_insn" where "mov64_reg d s = insn_new 0xbf d s 0 0"
definition add64_imm :: "u8 \<Rightarrow> i32 \<Rightarrow> bpf_insn" where "add64_imm d i = insn_new 0x07 d 0 0 i"
definition add64_reg :: "u8 \<Rightarrow> u8 \<Rightarrow> bpf_insn" where "add64_reg d s = insn_new 0x0f d s 0 0"
definition insn_call :: "i32 \<Rightarrow> bpf_insn" where "insn_call h = insn_new 0x85 0 0 0 h"
definition jeq_imm :: "u8 \<Rightarrow> i32 \<Rightarrow> i16 \<Rightarrow> bpf_insn" where "jeq_imm d i off = insn_new 0x15 d 0 off i"
definition jne_imm :: "u8 \<Rightarrow> i32 \<Rightarrow> i16 \<Rightarrow> bpf_insn" where "jne_imm d i off = insn_new 0x55 d 0 off i"
definition insn_ja :: "i16 \<Rightarrow> bpf_insn" where "insn_ja off = insn_new 0x05 0 0 off 0"
definition lsh64_imm :: "u8 \<Rightarrow> i32 \<Rightarrow> bpf_insn" where "lsh64_imm d i = insn_new 0x67 d 0 0 i"
definition neg64 :: "u8 \<Rightarrow> bpf_insn" where "neg64 d = insn_new 0x87 d 0 0 0"

text \<open>A wide instruction: two slots, the upper half of the immediate in the second.\<close>

record wide_insn =
  wide_first :: bpf_insn
  wide_next :: bpf_insn

definition wide_imm64 :: "wide_insn \<Rightarrow> u64" where
  "wide_imm64 w =
     (let low = ucast (insn_imm (wide_first w)) :: u64;
          high = ucast (insn_imm (wide_next w)) :: u64
      in push_bit 32 high OR low)"

definition ld_dw_imm :: "u8 \<Rightarrow> u64 \<Rightarrow> wide_insn" where
  "ld_dw_imm d v =
     \<lparr>wide_first = insn_new 0x18 d 0 0 (ucast v),
      wide_next = insn_new 0x00 0 0 0 (ucast (drop_bit 32 v))\<rparr>"

section \<open>Facts about the format\<close>

named_theorems insn_defs \<open>definitions of the instruction accessors and constructors\<close>
lemmas [insn_defs] =
  insn_new_def dst_reg_def src_reg_def insn_dst_def insn_src_def insn_class_def
  insn_source_type_def is_wide_def is_alu_def is_alu64_def is_jump_def is_memory_def is_exit_def
  is_call_def insn_alu_op_def insn_jmp_op_def insn_mem_size_def class_from_opcode_def
  source_from_opcode_def alu_from_opcode_def jmp_from_opcode_def size_from_opcode_def
  register_from_raw_def insn_exit_def mov64_imm_def mov64_reg_def add64_imm_def add64_reg_def
  insn_call_def jeq_imm_def jne_imm_def insn_ja_def lsh64_imm_def neg64_def
  can_divide_by_zero_def is_unary_def is_conditional_def is_unconditional_def Let_def

lemma u8_and7_cases:
  "(x :: u8) AND 0x07 \<in> {0, 1, 2, 3, 4, 5, 6, 7}"
proof -
  have "x AND 0x07 \<le> 7" by (rule word_and_le1)
  then have "unat (x AND 0x07) \<le> 7" by (simp add: word_le_nat_alt)
  then have "unat (x AND 0x07) \<in> {0, 1, 2, 3, 4, 5, 6, 7}" by auto
  then show ?thesis
    by (auto dest!: arg_cong [of _ _ "of_nat :: nat \<Rightarrow> u8"])
qed

lemma class_from_opcode_total: "\<exists>c. class_from_opcode opc = Some c"
  using u8_and7_cases [of opc] by (auto simp: class_from_opcode_def Let_def)

lemma insn_class_cases:
  obtains "is_alu insn" | "is_jump insn" | "is_memory insn"
  using class_from_opcode_total [of "opcode insn"]
  by (auto simp: is_alu_def is_jump_def is_memory_def insn_class_def) (metis opcode_class.exhaust)

end
