(* ===== verification/Scalar.thy ===== *)
theory Scalar
  imports Tnum Bytecode
begin

text \<open>
  The scalar domain of the verifier: a known value, an unsigned interval and a tracked number
  (\<open>ScalarValue\<close> in \<open>verifier/state.rs\<close>), its transfer functions (\<open>verifier/alu.rs\<close>) and its
  refinement at conditional branches (\<open>verifier/refine.rs\<close>). The lemmas show which transfer
  functions over-approximate the concrete operation, and under which condition where one does
  not do so unconditionally.
\<close>

section \<open>Scalar values\<close>

record scalar_value =
  sc_value :: "u64 option"
  sc_min :: u64
  sc_max :: u64
  sc_tnum :: tnum_value

definition mk_scalar :: "u64 option \<Rightarrow> u64 \<Rightarrow> u64 \<Rightarrow> tnum_value \<Rightarrow> scalar_value" where
  "mk_scalar v lo hi t = \<lparr>sc_value = v, sc_min = lo, sc_max = hi, sc_tnum = t\<rparr>"

definition scalar_constant :: "u64 \<Rightarrow> scalar_value" where
  "scalar_constant v = mk_scalar (Some v) v v (tnum_constant v)"

definition scalar_unknown :: scalar_value where
  "scalar_unknown = mk_scalar None 0 u64_MAX tnum_unknown"

definition scalar_is_constant :: "scalar_value \<Rightarrow> bool" where
  "scalar_is_constant s \<longleftrightarrow> sc_value s \<noteq> None"

definition scalar_is_zero :: "scalar_value \<Rightarrow> bool" where
  "scalar_is_zero s \<longleftrightarrow> sc_value s = Some 0"

definition could_be_zero :: "scalar_value \<Rightarrow> bool" where
  "could_be_zero s \<longleftrightarrow> sc_min s = 0 \<or> sc_value s = Some 0"

section \<open>Transfer functions\<close>

definition zero_extend_32 :: "scalar_value \<Rightarrow> scalar_value" where
  "zero_extend_32 v =
     (let MASK = 0xFFFFFFFF;
          tnum = mk_tnum (tv_value (sc_tnum v) AND MASK) (tv_mask (sc_tnum v) AND MASK);
          value = map_option (\<lambda>x. x AND MASK) (sc_value v);
          (min0, max0) = (if drop_bit 32 (sc_min v) = drop_bit 32 (sc_max v)
                          then (sc_min v AND MASK, sc_max v AND MASK) else (0, MASK));
          tnum_min = tv_value tnum;
          tnum_max = tv_value tnum OR tv_mask tnum;
          (min1, max1) = (if tnum_min \<le> tnum_max \<and> min0 \<le> tnum_min \<and> tnum_max \<le> max0
                          then (tnum_min, tnum_max) else (min0, max0));
          (min2, max2) = (case value of Some c \<Rightarrow> (c, c) | None \<Rightarrow> (min1, max1))
      in mk_scalar value min2 max2 tnum)"

definition scalar_from_imm :: "i32 \<Rightarrow> scalar_value" where
  "scalar_from_imm i = (let v = scast i in mk_scalar (Some v) v v (tnum_constant v))"

definition scalar_mov :: "scalar_value \<Rightarrow> scalar_value" where
  "scalar_mov rhs = rhs"

text \<open>The \<open>match (a.value, b.value)\<close> every binary operation starts with.\<close>

definition both_known :: "(u64 \<Rightarrow> u64 \<Rightarrow> 'a option) \<Rightarrow> scalar_value \<Rightarrow> scalar_value \<Rightarrow> 'a option" where
  "both_known f a b =
     (case sc_value a of
        Some x \<Rightarrow> (case sc_value b of Some y \<Rightarrow> f x y | None \<Rightarrow> None)
      | None \<Rightarrow> None)"

definition scalar_add :: "scalar_value \<Rightarrow> scalar_value \<Rightarrow> scalar_value" where
  "scalar_add a b =
     (let (lo, min_overflow) = overflowing_add (sc_min a) (sc_min b);
          (hi, max_overflow) = overflowing_add (sc_max a) (sc_max b);
          interval_ok = (\<not> min_overflow \<and> \<not> max_overflow);
          tnum = tnum_add (sc_tnum a) (sc_tnum b);
          value = both_known (\<lambda>x y. Some (x + y)) a b
      in if interval_ok then mk_scalar value lo hi tnum
         else mk_scalar None 0 u64_MAX tnum)"

definition scalar_sub :: "scalar_value \<Rightarrow> scalar_value \<Rightarrow> scalar_value" where
  "scalar_sub a b =
     (let (lo, min_under) = overflowing_sub (sc_min a) (sc_max b);
          (hi, max_under) = overflowing_sub (sc_max a) (sc_min b);
          interval_ok = (\<not> min_under \<and> \<not> max_under);
          tnum = tnum_sub (sc_tnum a) (sc_tnum b);
          value = both_known (\<lambda>x y. Some (x - y)) a b
      in if interval_ok then mk_scalar value lo hi tnum
         else mk_scalar None 0 u64_MAX tnum)"

definition scalar_mul :: "scalar_value \<Rightarrow> scalar_value \<Rightarrow> scalar_value" where
  "scalar_mul a b =
     (let tnum = tnum_mul (sc_tnum a) (sc_tnum b);
          value = both_known (\<lambda>x y. Some (x * y)) a b;
          (lo, lo_ovf) = overflowing_mul (sc_min a) (sc_min b);
          (hi, hi_ovf) = overflowing_mul (sc_max a) (sc_max b)
      in if \<not> lo_ovf \<and> \<not> hi_ovf then mk_scalar value lo hi tnum
         else mk_scalar None 0 u64_MAX tnum)"

definition div_unsigned :: "scalar_value \<Rightarrow> scalar_value \<Rightarrow> scalar_value" where
  "div_unsigned a b =
     (let value = both_known checked_div a b;
          hi = (case checked_div (sc_max a) (sc_min b) of Some q \<Rightarrow> q | None \<Rightarrow> sc_max a);
          lo = (case checked_div (sc_min a) (sc_max b) of Some q \<Rightarrow> q | None \<Rightarrow> 0)
      in mk_scalar value lo hi tnum_unknown)"

definition mod_unsigned :: "scalar_value \<Rightarrow> scalar_value \<Rightarrow> scalar_value" where
  "mod_unsigned a b =
     (let value = both_known checked_rem a b;
          hi = (if sc_max b = 0 then 0 else min (saturating_sub (sc_max b) 1) (sc_max a))
      in mk_scalar value 0 hi tnum_unknown)"

definition bitwise_and :: "scalar_value \<Rightarrow> scalar_value \<Rightarrow> scalar_value" where
  "bitwise_and a b =
     (let tnum = tnum_and (sc_tnum a) (sc_tnum b);
          value = both_known (\<lambda>x y. Some (x AND y)) a b
      in mk_scalar value 0 (min (sc_max a) (sc_max b)) tnum)"

definition bitwise_or :: "scalar_value \<Rightarrow> scalar_value \<Rightarrow> scalar_value" where
  "bitwise_or a b =
     (let tnum = tnum_or (sc_tnum a) (sc_tnum b);
          value = both_known (\<lambda>x y. Some (x OR y)) a b
      in mk_scalar value (max (sc_min a) (sc_min b)) u64_MAX tnum)"

definition bitwise_xor :: "scalar_value \<Rightarrow> scalar_value \<Rightarrow> scalar_value" where
  "bitwise_xor a b =
     (let tnum = tnum_xor (sc_tnum a) (sc_tnum b);
          value = both_known (\<lambda>x y. Some (x XOR y)) a b
      in mk_scalar value 0 u64_MAX tnum)"

text \<open>\<open>(shift as u32 & 63) as u8\<close>, the shift count of the three shifts.\<close>

definition shift_count :: "u64 \<Rightarrow> nat" where
  "shift_count sh = unat ((ucast sh :: u32) AND 63)"

definition scalar_lshift :: "scalar_value \<Rightarrow> scalar_value \<Rightarrow> scalar_value" where
  "scalar_lshift a b =
     (case sc_value b of
        Some sh \<Rightarrow>
          let s = shift_count sh;
              tnum = tnum_lshift (sc_tnum a) s;
              value = map_option (push_bit s) (sc_value a);
              (lo, min_ovf) = overflowing_shl (sc_min a) s;
              (hi, max_ovf) = overflowing_shl (sc_max a) s
          in if \<not> min_ovf \<and> \<not> max_ovf then mk_scalar value lo hi tnum
             else mk_scalar None 0 u64_MAX tnum
      | None \<Rightarrow> mk_scalar None 0 u64_MAX tnum_unknown)"

definition scalar_rshift :: "scalar_value \<Rightarrow> scalar_value \<Rightarrow> scalar_value" where
  "scalar_rshift a b =
     (case sc_value b of
        Some sh \<Rightarrow>
          let s = shift_count sh
          in mk_scalar (map_option (drop_bit s) (sc_value a))
               (drop_bit s (sc_min a)) (drop_bit s (sc_max a)) (tnum_rshift (sc_tnum a) s)
      | None \<Rightarrow> mk_scalar None 0 u64_MAX tnum_unknown)"

definition scalar_arshift :: "scalar_value \<Rightarrow> scalar_value \<Rightarrow> scalar_value" where
  "scalar_arshift a b =
     (case sc_value b of
        Some sh \<Rightarrow>
          let s = shift_count sh
          in mk_scalar (map_option (signed_drop_bit s) (sc_value a)) 0 u64_MAX
               (tnum_arshift (sc_tnum a) s)
      | None \<Rightarrow> scalar_unknown)"

definition scalar_negate :: "scalar_value \<Rightarrow> scalar_value" where
  "scalar_negate a = mk_scalar (map_option uminus (sc_value a)) 0 u64_MAX tnum_unknown"

definition compute_alu_result_width ::
  "scalar_value \<Rightarrow> alu_op \<Rightarrow> scalar_value \<Rightarrow> bool \<Rightarrow> scalar_value" where
  "compute_alu_result_width dst0 op rhs0 is_64bit =
     (let (dst, rhs) = (if is_64bit then (dst0, rhs0)
                        else (zero_extend_32 dst0, zero_extend_32 rhs0));
          res = (case op of
              Mov \<Rightarrow> scalar_mov rhs
            | Add \<Rightarrow> scalar_add dst rhs
            | Sub \<Rightarrow> scalar_sub dst rhs
            | Mul \<Rightarrow> scalar_mul dst rhs
            | Div \<Rightarrow> div_unsigned dst rhs
            | Mod \<Rightarrow> mod_unsigned dst rhs
            | And \<Rightarrow> bitwise_and dst rhs
            | Or \<Rightarrow> bitwise_or dst rhs
            | Xor \<Rightarrow> bitwise_xor dst rhs
            | Lsh \<Rightarrow> scalar_lshift dst rhs
            | Rsh \<Rightarrow> scalar_rshift dst rhs
            | Arsh \<Rightarrow> if is_64bit then scalar_arshift dst rhs else zero_extend_32 scalar_unknown
            | Neg \<Rightarrow> scalar_negate dst
            | End \<Rightarrow> scalar_unknown)
      in if is_64bit then res else zero_extend_32 res)"

definition compute_alu_result :: "scalar_value \<Rightarrow> alu_op \<Rightarrow> scalar_value \<Rightarrow> scalar_value" where
  "compute_alu_result dst op rhs = compute_alu_result_width dst op rhs True"

section \<open>Refinement at branches\<close>

definition clamp_max :: "scalar_value \<Rightarrow> u64 \<Rightarrow> scalar_value" where
  "clamp_max v new_max =
     (let hi = min (sc_max v) new_max
      in if hi < sc_min v then scalar_unknown
         else mk_scalar (if sc_min v = hi then Some (sc_min v) else None) (sc_min v) hi (sc_tnum v))"

definition clamp_min :: "scalar_value \<Rightarrow> u64 \<Rightarrow> scalar_value" where
  "clamp_min v new_min =
     (let lo = max (sc_min v) new_min
      in if sc_max v < lo then scalar_unknown
         else mk_scalar (if sc_max v = lo then Some lo else None) lo (sc_max v) (sc_tnum v))"

definition refine_jeq :: "scalar_value \<Rightarrow> scalar_value \<Rightarrow> scalar_value \<times> scalar_value" where
  "refine_jeq dst rhs =
     (let new_min = max (sc_min dst) (sc_min rhs);
          new_max = min (sc_max dst) (sc_max rhs);
          interval_ok = (new_min \<le> new_max);
          true_branch =
            (case tnum_intersect (sc_tnum dst) (sc_tnum rhs) of
               Some tnum \<Rightarrow>
                 if interval_ok
                 then mk_scalar (case sc_value rhs of Some v \<Rightarrow> Some v | None \<Rightarrow> sc_value dst)
                        new_min new_max tnum
                 else scalar_unknown
             | None \<Rightarrow> scalar_unknown);
          false_branch =
            (case sc_value rhs of
               Some rhs_const \<Rightarrow>
                 let f = dst;
                     f = (if sc_min f = rhs_const \<and> sc_min f < u64_MAX
                          then f\<lparr>sc_min := sc_min f + 1\<rparr> else f);
                     f = (if sc_max f = rhs_const \<and> 0 < sc_max f
                          then f\<lparr>sc_max := sc_max f - 1\<rparr> else f)
                 in f\<lparr>sc_value := None\<rparr>
             | None \<Rightarrow> dst)
      in (true_branch, false_branch))"

definition refine_lt :: "scalar_value \<Rightarrow> scalar_value \<Rightarrow> scalar_value \<times> scalar_value" where
  "refine_lt dst rhs =
     ((if sc_max rhs = 0 then scalar_unknown else clamp_max dst (saturating_sub (sc_max rhs) 1)),
      clamp_min dst (sc_min rhs))"

definition refine_le :: "scalar_value \<Rightarrow> scalar_value \<Rightarrow> scalar_value \<times> scalar_value" where
  "refine_le dst rhs =
     (clamp_max dst (sc_max rhs),
      (if sc_min rhs = u64_MAX then scalar_unknown
       else clamp_min dst (saturating_add (sc_min rhs) 1)))"

definition refine_gt :: "scalar_value \<Rightarrow> scalar_value \<Rightarrow> scalar_value \<times> scalar_value" where
  "refine_gt dst rhs =
     ((if sc_min rhs = u64_MAX then scalar_unknown
       else clamp_min dst (saturating_add (sc_min rhs) 1)),
      clamp_max dst (sc_max rhs))"

definition refine_ge :: "scalar_value \<Rightarrow> scalar_value \<Rightarrow> scalar_value \<times> scalar_value" where
  "refine_ge dst rhs =
     (clamp_min dst (sc_min rhs),
      (if sc_max rhs = 0 then scalar_unknown else clamp_max dst (saturating_sub (sc_max rhs) 1)))"

definition refine_signed_placeholder :: "scalar_value \<Rightarrow> scalar_value \<times> scalar_value" where
  "refine_signed_placeholder reg = (reg, reg)"

definition refine_jset :: "scalar_value \<Rightarrow> scalar_value \<Rightarrow> scalar_value \<times> scalar_value" where
  "refine_jset a b = (a, a)"

definition refine_scalar ::
  "scalar_value \<Rightarrow> jmp_op \<Rightarrow> scalar_value \<Rightarrow> scalar_value \<times> scalar_value" where
  "refine_scalar reg op rhs =
     (case op of
        Jeq \<Rightarrow> refine_jeq reg rhs
      | Jne \<Rightarrow> (let (a, b) = refine_jeq reg rhs in (b, a))
      | Jlt \<Rightarrow> refine_lt reg rhs
      | Jle \<Rightarrow> refine_le reg rhs
      | Jgt \<Rightarrow> refine_gt reg rhs
      | Jge \<Rightarrow> refine_ge reg rhs
      | Jslt \<Rightarrow> refine_signed_placeholder reg
      | Jsle \<Rightarrow> refine_signed_placeholder reg
      | Jsgt \<Rightarrow> refine_signed_placeholder reg
      | Jsge \<Rightarrow> refine_signed_placeholder reg
      | Jset \<Rightarrow> refine_jset reg rhs
      | Ja \<Rightarrow> (reg, reg)
      | Call \<Rightarrow> (reg, reg)
      | Exit \<Rightarrow> (reg, reg))"

section \<open>Meaning\<close>

definition scalar_has :: "scalar_value \<Rightarrow> u64 \<Rightarrow> bool" where
  "scalar_has s x \<longleftrightarrow>
     (\<forall>v. sc_value s = Some v \<longrightarrow> x = v) \<and> sc_min s \<le> x \<and> x \<le> sc_max s \<and> tnum_has (sc_tnum s) x"

lemma mk_scalar_sel [simp]:
  "sc_value (mk_scalar v lo hi t) = v" "sc_min (mk_scalar v lo hi t) = lo"
  "sc_max (mk_scalar v lo hi t) = hi" "sc_tnum (mk_scalar v lo hi t) = t"
  by (simp_all add: mk_scalar_def)

lemma u64_le_MAX [simp]: "(x :: u64) \<le> u64_MAX"
  by simp

lemma scalar_unknown_has [simp]: "scalar_has scalar_unknown x"
  by (simp add: scalar_has_def scalar_unknown_def)

lemma scalar_constant_has [simp]: "scalar_has (scalar_constant v) x \<longleftrightarrow> x = v"
  by (auto simp: scalar_has_def scalar_constant_def)

lemma scalar_from_imm_has [simp]: "scalar_has (scalar_from_imm i) x \<longleftrightarrow> x = scast i"
  by (auto simp: scalar_has_def scalar_from_imm_def Let_def)

lemma scalar_hasI:
  assumes "\<And>v. sc_value s = Some v \<Longrightarrow> x = v" "sc_min s \<le> x" "x \<le> sc_max s" "tnum_has (sc_tnum s) x"
  shows "scalar_has s x"
  using assms by (simp add: scalar_has_def)

lemma scalar_hasE:
  assumes "scalar_has s x"
  obtains "sc_value s = None \<or> sc_value s = Some x" "sc_min s \<le> x" "x \<le> sc_max s" "tnum_has (sc_tnum s) x"
  using assms by (cases "sc_value s") (auto simp: scalar_has_def)

lemma both_known_sound:
  assumes "scalar_has a x" "scalar_has b y" "both_known f a b = Some v"
  shows "f x y = Some v"
  using assms by (auto simp: scalar_has_def both_known_def split: option.splits)

lemma both_known_SomeD:
  assumes "scalar_has a x" "scalar_has b y" "both_known (\<lambda>x y. Some (f x y)) a b = Some v"
  shows "f x y = v"
  using both_known_sound [OF assms] by simp

lemma could_be_zero_sound: "scalar_has s x \<Longrightarrow> \<not> could_be_zero s \<Longrightarrow> x \<noteq> 0"
  by (auto simp: scalar_has_def could_be_zero_def)

subsection \<open>The 64-bit operations\<close>

lemma scalar_add_sound:
  assumes a: "scalar_has a x" and b: "scalar_has b y"
  shows "scalar_has (scalar_add a b) (x + y)"
proof (rule scalar_hasI)
  show "tnum_has (sc_tnum (scalar_add a b)) (x + y)"
    using a b by (auto simp: scalar_add_def scalar_has_def rust_arith Let_def intro: tnum_add_sound)
  fix v assume "sc_value (scalar_add a b) = Some v"
  then show "x + y = v"
    using both_known_SomeD [OF a b] by (auto simp: scalar_add_def rust_arith Let_def split: if_splits)
qed (use a b unat_u64_le_MAX [of "x + y"] in
  \<open>auto simp: scalar_add_def scalar_has_def rust_arith Let_def word_le_nat_alt unat_plus_if'\<close>)

lemma scalar_sub_sound:
  assumes a: "scalar_has a x" and b: "scalar_has b y"
  shows "scalar_has (scalar_sub a b) (x - y)"
proof (rule scalar_hasI)
  show "tnum_has (sc_tnum (scalar_sub a b)) (x - y)"
    using a b by (auto simp: scalar_sub_def scalar_has_def rust_arith Let_def intro: tnum_sub_sound)
  fix v assume "sc_value (scalar_sub a b) = Some v"
  then show "x - y = v"
    using both_known_SomeD [OF a b] by (auto simp: scalar_sub_def rust_arith Let_def split: if_splits)
qed (use a b unat_u64_le_MAX [of "x - y"] in
  \<open>auto simp: scalar_sub_def scalar_has_def rust_arith Let_def word_le_nat_alt word_less_nat_alt
    unat_sub_if'\<close>)

lemma unat_mult_no_overflow:
  "unat (x :: 'a::len word) * unat y < 2 ^ LENGTH('a) \<Longrightarrow> unat (x * y) = unat x * unat y"
  using unat_mult_lem by blast

lemma scalar_mul_interval:
  fixes lo1 hi1 lo2 hi2 :: u64
  assumes "lo1 \<le> x" "x \<le> hi1" "lo2 \<le> y" "y \<le> hi2" "unat hi1 * unat hi2 < 2 ^ LENGTH(64)"
  shows "lo1 * lo2 \<le> x * y" "x * y \<le> hi1 * hi2"
proof -
  have le: "unat lo1 \<le> unat x" "unat x \<le> unat hi1" "unat lo2 \<le> unat y" "unat y \<le> unat hi2"
    using assms by (simp_all add: word_le_nat_alt)
  have m: "unat lo1 * unat lo2 \<le> unat x * unat y" "unat x * unat y \<le> unat hi1 * unat hi2"
    using le by (auto intro: mult_le_mono)
  then show "lo1 * lo2 \<le> x * y" "x * y \<le> hi1 * hi2"
    unfolding word_le_nat_alt using assms(5)
    by (simp_all only: unat_mult_no_overflow order.strict_trans1)
qed

lemma scalar_mul_sound:
  assumes a: "scalar_has a x" and b: "scalar_has b y"
  shows "scalar_has (scalar_mul a b) (x * y)"
proof (rule scalar_hasI)
  show "tnum_has (sc_tnum (scalar_mul a b)) (x * y)"
    using a b by (auto simp: scalar_mul_def scalar_has_def rust_arith Let_def intro: tnum_mul_sound)
  fix v assume "sc_value (scalar_mul a b) = Some v"
  then show "x * y = v"
    using both_known_SomeD [OF a b] by (auto simp: scalar_mul_def rust_arith Let_def split: if_splits)
qed (use a b in \<open>auto simp: scalar_mul_def scalar_has_def rust_arith Let_def not_le intro: scalar_mul_interval\<close>)

lemma div_unsigned_sound:
  assumes a: "scalar_has a x" and b: "scalar_has b y" and y: "y \<noteq> 0"
  shows "scalar_has (div_unsigned a b) (x div y)"
proof (rule scalar_hasI)
  fix v assume "sc_value (div_unsigned a b) = Some v"
  then show "x div y = v"
    using both_known_sound [OF a b, of checked_div] y by (auto simp: div_unsigned_def rust_arith)
next
  have le: "unat (sc_min a) \<le> unat x" "unat x \<le> unat (sc_max a)"
    "unat (sc_min b) \<le> unat y" "unat y \<le> unat (sc_max b)" "0 < unat y"
    using a b y by (simp_all add: scalar_has_def word_le_nat_alt unat_gt_0)
  have "unat (sc_min a) div unat (sc_max b) \<le> unat x div unat y"
    using le by (meson div_le_mono div_le_mono2 le_trans)
  then show "sc_min (div_unsigned a b) \<le> x div y"
    by (auto simp: div_unsigned_def rust_arith word_le_nat_alt unat_div)
  have "unat x div unat y \<le> unat (sc_max a) div unat (sc_min b)" if "0 < unat (sc_min b)"
    using le that by (meson div_le_mono div_le_mono2 le_trans)
  moreover have "unat x div unat y \<le> unat (sc_max a)"
    using le by (meson div_le_dividend le_trans)
  ultimately show "x div y \<le> sc_max (div_unsigned a b)"
    by (auto simp: div_unsigned_def rust_arith word_le_nat_alt unat_div unat_gt_0)
qed (simp add: div_unsigned_def)

lemma mod_unsigned_sound:
  assumes a: "scalar_has a x" and b: "scalar_has b y" and y: "y \<noteq> 0"
  shows "scalar_has (mod_unsigned a b) (x mod y)"
proof (rule scalar_hasI)
  fix v assume "sc_value (mod_unsigned a b) = Some v"
  then show "x mod y = v"
    using both_known_sound [OF a b, of checked_rem] y by (auto simp: mod_unsigned_def rust_arith)
next
  have le: "unat x \<le> unat (sc_max a)" "unat y \<le> unat (sc_max b)" "0 < unat y"
    using a b y by (simp_all add: scalar_has_def word_le_nat_alt unat_gt_0)
  have "unat x mod unat y \<le> unat (sc_max b) - 1"
    using le mod_less_divisor [of "unat y" "unat x"] by linarith
  moreover have "unat x mod unat y \<le> unat (sc_max a)"
    using le by (meson mod_less_eq_dividend le_trans)
  moreover have "sc_max b \<noteq> 0" "\<not> sc_max b < 1" "Suc 0 \<le> unat (sc_max b)"
    using le by (auto simp: word_less_nat_alt not_less)
  ultimately show "x mod y \<le> sc_max (mod_unsigned a b)"
    by (simp add: mod_unsigned_def rust_arith word_le_nat_alt unat_mod min_def unat_sub_if')
qed (simp_all add: mod_unsigned_def)

lemma bitwise_and_sound:
  assumes a: "scalar_has a x" and b: "scalar_has b y"
  shows "scalar_has (bitwise_and a b) (x AND y)"
proof (rule scalar_hasI)
  fix v assume "sc_value (bitwise_and a b) = Some v"
  then show "x AND y = v"
    using both_known_SomeD [OF a b] by (auto simp: bitwise_and_def)
next
  show "x AND y \<le> sc_max (bitwise_and a b)"
    using a b word_and_le1 [of x y] word_and_le2 [of x y]
    by (auto simp: bitwise_and_def scalar_has_def)
qed (use a b in \<open>auto simp: bitwise_and_def scalar_has_def intro: tnum_and_sound\<close>)

lemma bitwise_or_sound:
  assumes a: "scalar_has a x" and b: "scalar_has b y"
  shows "scalar_has (bitwise_or a b) (x OR y)"
proof (rule scalar_hasI)
  fix v assume "sc_value (bitwise_or a b) = Some v"
  then show "x OR y = v"
    using both_known_SomeD [OF a b] by (auto simp: bitwise_or_def)
next
  show "sc_min (bitwise_or a b) \<le> x OR y"
    using a b le_word_or1 [of y x] le_word_or2 [of x y]
    by (auto simp: bitwise_or_def scalar_has_def intro: order_trans)
qed (use a b in \<open>auto simp: bitwise_or_def scalar_has_def intro: tnum_or_sound\<close>)

lemma bitwise_xor_sound:
  assumes a: "scalar_has a x" and b: "scalar_has b y"
  shows "scalar_has (bitwise_xor a b) (x XOR y)"
proof (rule scalar_hasI)
  fix v assume "sc_value (bitwise_xor a b) = Some v"
  then show "x XOR y = v"
    using both_known_SomeD [OF a b] by (auto simp: bitwise_xor_def)
qed (use a b in \<open>auto simp: bitwise_xor_def scalar_has_def intro: tnum_xor_sound\<close>)

subsection \<open>Shifts\<close>

lemma shift_count_less [simp]: "shift_count sh < 64"
proof -
  have "(ucast sh :: u32) AND 63 \<le> 63" by (rule word_and_le1)
  then show ?thesis by (simp add: shift_count_def word_le_nat_alt)
qed

text \<open>The interpreter masks the 64-bit operand instead; the two counts are the same number.\<close>

lemma shift_count_eq: "shift_count sh = unat (sh AND 63)"
proof -
  have "(ucast sh :: u32) AND 63 = ucast (sh AND 63)"
    by (rule bit_word_eqI) (auto simp: bit_and_iff bit_ucast_iff)
  moreover have "unat (ucast (sh AND 63) :: u32) = unat (sh AND 63)"
  proof -
    have "sh AND 63 \<le> 63" by (rule word_and_le1)
    then show ?thesis by (simp add: unat_ucast_u32 word_le_nat_alt)
  qed
  ultimately show ?thesis by (simp add: shift_count_def)
qed

lemma unat_push_bit_no_loss:
  assumes "unat (x :: u64) * 2 ^ s < 2 ^ 64"
  shows "unat (push_bit s x) = unat x * 2 ^ s"
  using assms by (simp add: unat_push_bit_mod)

text \<open>
  \<open>lshift\<close> is sound when the upper end of the interval keeps all its bits. The code tests only
  the shift count (see \<open>overflowing_shl\<close>), so the condition is not checked at run time.
\<close>

definition shl_fits :: "scalar_value \<Rightarrow> scalar_value \<Rightarrow> bool" where
  "shl_fits a b \<longleftrightarrow>
     (case sc_value b of Some sh \<Rightarrow> unat (sc_max a) * 2 ^ shift_count sh < 2 ^ 64 | None \<Rightarrow> True)"

lemma scalar_lshift_sound:
  assumes a: "scalar_has a x" and b: "scalar_has b y" and fits: "shl_fits a b"
  shows "scalar_has (scalar_lshift a b) (push_bit (shift_count y) x)"
proof (cases "sc_value b")
  case None
  then show ?thesis by (simp add: scalar_lshift_def scalar_has_def)
next
  case (Some sh)
  then have sh: "sh = y" using b by (simp add: scalar_has_def)
  let ?s = "shift_count y"
  have hi: "unat (sc_max a) * 2 ^ ?s < 2 ^ 64" using fits Some sh by (simp add: shl_fits_def)
  have le: "unat (sc_min a) \<le> unat x" "unat x \<le> unat (sc_max a)"
    using a by (simp_all add: scalar_has_def word_le_nat_alt)
  then have le': "unat (sc_min a) * 2 ^ ?s \<le> unat x * 2 ^ ?s" "unat x * 2 ^ ?s \<le> unat (sc_max a) * 2 ^ ?s"
    by simp_all
  have "push_bit ?s (sc_min a) \<le> push_bit ?s x" "push_bit ?s x \<le> push_bit ?s (sc_max a)"
    unfolding word_le_nat_alt using le' order.strict_trans1 [OF _ hi]
    by (simp_all only: unat_push_bit_no_loss le_trans)
  then show ?thesis
    using a Some sh
    by (auto simp: scalar_lshift_def scalar_has_def rust_arith Let_def not_le
          intro: tnum_lshift_sound)
qed

lemma drop_bit_mono: "(x :: u64) \<le> y \<Longrightarrow> drop_bit s x \<le> drop_bit s y"
  by (simp add: word_le_nat_alt unat_drop_bit_div div_le_mono)

lemma scalar_rshift_sound:
  assumes a: "scalar_has a x" and b: "scalar_has b y"
  shows "scalar_has (scalar_rshift a b) (drop_bit (shift_count y) x)"
  using a b
  by (cases "sc_value b")
    (auto simp: scalar_rshift_def scalar_has_def Let_def intro: tnum_rshift_sound drop_bit_mono)

lemma scalar_arshift_sound:
  assumes a: "scalar_has a x" and b: "scalar_has b y"
  shows "scalar_has (scalar_arshift a b) (signed_drop_bit (shift_count y) x)"
  using a b
  by (cases "sc_value b")
    (auto simp: scalar_arshift_def scalar_has_def Let_def scalar_unknown_def intro: tnum_arshift_sound)

lemma scalar_negate_sound: "scalar_has a x \<Longrightarrow> scalar_has (scalar_negate a) (- x)"
  by (auto simp: scalar_negate_def scalar_has_def)

subsection \<open>Zero extension\<close>

lemma mask32_eq: "(0xFFFFFFFF :: u64) = mask 32"
  by (simp add: mask_eq_exp_minus_1)

lemma and_mask32: "(x :: u64) AND 0xFFFFFFFF = take_bit 32 x"
  by (simp add: mask32_eq take_bit_eq_mask)

lemma div_eq_mod_mono:
  fixes m x M k :: nat
  assumes "m \<le> x" "x \<le> M" "m div k = M div k"
  shows "m mod k \<le> x mod k \<and> x mod k \<le> M mod k"
proof -
  have "m div k \<le> x div k" "x div k \<le> M div k" using assms(1,2) by (auto intro: div_le_mono)
  then have "x div k = m div k" "x div k = M div k" using assms by auto
  moreover have "m = k * (m div k) + m mod k" "x = k * (x div k) + x mod k" "M = k * (M div k) + M mod k"
    by simp_all
  ultimately show ?thesis using assms(1,2) by (metis add_le_cancel_left)
qed

lemma take_bit_32_same_block:
  fixes lo x hi :: u64
  assumes "lo \<le> x" "x \<le> hi" "drop_bit 32 lo = drop_bit 32 hi"
  shows "take_bit 32 lo \<le> take_bit 32 x \<and> take_bit 32 x \<le> take_bit 32 hi"
proof -
  have "unat (drop_bit 32 lo) = unat (drop_bit 32 hi)" using assms(3) by simp
  then have "unat lo div 2 ^ 32 = unat hi div 2 ^ 32"
    by (simp add: unat_drop_bit_div)
  then show ?thesis
    using div_eq_mod_mono [of "unat lo" "unat x" "unat hi" "2 ^ 32"] assms(1,2)
    by (simp add: word_le_nat_alt unat_take_bit_mod)
qed

lemma tnum_take_bit_sound:
  assumes "tnum_has t x"
  shows "tnum_has (mk_tnum (tv_value t AND 0xFFFFFFFF) (tv_mask t AND 0xFFFFFFFF)) (x AND 0xFFFFFFFF)"
  using assms unfolding and_mask32 tnum_has_bit by (auto simp: bit_take_bit_iff)

lemma zero_extend_32_sound:
  assumes "scalar_has v x"
  shows "scalar_has (zero_extend_32 v) (x AND 0xFFFFFFFF)"
proof -
  let ?t = "mk_tnum (tv_value (sc_tnum v) AND 0xFFFFFFFF) (tv_mask (sc_tnum v) AND 0xFFFFFFFF)"
  let ?x = "x AND 0xFFFFFFFF"
  have t: "tnum_has ?t ?x" using assms by (intro tnum_take_bit_sound) (simp add: scalar_has_def)
  have tb: "tv_value ?t \<le> ?x" "?x \<le> tv_value ?t OR tv_mask ?t"
    using tnum_has_bounds [OF t] by auto
  have blk: "sc_min v AND 0xFFFFFFFF \<le> ?x \<and> ?x \<le> sc_max v AND 0xFFFFFFFF"
    if "drop_bit 32 (sc_min v) = drop_bit 32 (sc_max v)"
    using assms that unfolding and_mask32 by (intro take_bit_32_same_block) (simp_all add: scalar_has_def)
  have top: "?x \<le> 0xFFFFFFFF" by (rule word_and_le1)
  have val: "sc_value v = None \<or> sc_value v = Some x" using assms by (rule scalar_hasE)
  show ?thesis
    unfolding zero_extend_32_def scalar_has_def
    using t tb blk top val
    by (auto simp: Let_def split: option.splits if_splits)
qed

lemma zero_extend_32_le: "scalar_has (zero_extend_32 v) x \<Longrightarrow> x \<le> 0xFFFFFFFF"
proof -
  assume "scalar_has (zero_extend_32 v) x"
  then have "tnum_has (mk_tnum (tv_value (sc_tnum v) AND 0xFFFFFFFF) (tv_mask (sc_tnum v) AND 0xFFFFFFFF)) x"
    by (simp add: scalar_has_def zero_extend_32_def Let_def split_beta)
  then have "x = x AND 0xFFFFFFFF"
    unfolding and_mask32 tnum_has_bit
    by (auto intro!: bit_word_eqI simp: bit_take_bit_iff)
  then show "x \<le> 0xFFFFFFFF" by (metis word_and_le1)
qed

subsection \<open>Refinement\<close>

lemma clamp_max_sound: "scalar_has v x \<Longrightarrow> x \<le> m \<Longrightarrow> scalar_has (clamp_max v m) x"
  by (auto simp: clamp_max_def scalar_has_def Let_def scalar_unknown_def min_def)

lemma clamp_min_sound: "scalar_has v x \<Longrightarrow> m \<le> x \<Longrightarrow> scalar_has (clamp_min v m) x"
  by (auto simp: clamp_min_def scalar_has_def Let_def scalar_unknown_def max_def)

lemma u64_less_imp_le_pred: "(x :: u64) < y \<Longrightarrow> x \<le> y - 1"
  by (simp add: word_less_nat_alt word_le_nat_alt unat_sub_if' split: if_splits) 

lemma u64_less_imp_suc_le: "(x :: u64) < y \<Longrightarrow> x + 1 \<le> y"
  by (simp add: inc_le)

lemma saturating_sub_one: "y \<noteq> 0 \<Longrightarrow> saturating_sub (y :: u64) 1 = y - 1"
  by (metis saturating_sub_def word_gt_0 word_less_1 order_less_le)

lemma saturating_add_one: "y \<noteq> u64_MAX \<Longrightarrow> saturating_add (y :: u64) 1 = y + 1"
proof -
  assume "y \<noteq> u64_MAX"
  then have "unat y \<noteq> unat u64_MAX" by (metis word_unat_eq_iff)
  then show ?thesis using unat_u64_le_MAX [of y] by (simp add: saturating_add_def)
qed

lemma refine_jeq_sound:
  assumes a: "scalar_has a x" and b: "scalar_has b y"
  shows "x = y \<Longrightarrow> scalar_has (fst (refine_jeq a b)) x"
    and "x \<noteq> y \<Longrightarrow> scalar_has (snd (refine_jeq a b)) x"
proof -
  assume [simp]: "x = y"
  have "\<exists>t. tnum_intersect (sc_tnum a) (sc_tnum b) = Some t \<and> tnum_has t y"
    using a b tnum_intersect_sound [of "sc_tnum a" y "sc_tnum b"] by (auto simp: scalar_has_def)
  then show "scalar_has (fst (refine_jeq a b)) x"
    using a b by (auto simp: refine_jeq_def scalar_has_def Let_def split: option.splits)
next
  assume ne: "x \<noteq> y"
  have "x < y \<Longrightarrow> x \<le> y - 1" "y < x \<Longrightarrow> y + 1 \<le> x"
    by (auto intro: u64_less_imp_le_pred u64_less_imp_suc_le)
  then show "scalar_has (snd (refine_jeq a b)) x"
    using a b ne
    by (auto simp: refine_jeq_def scalar_has_def Let_def split: option.splits)
qed

end
