(* ===== verification/Verifier_State.thy ===== *)
theory Verifier_State
  imports Scalar
begin

text \<open>
  What the verifier tracks at a program point (\<open>verifier/state.rs\<close>): the type of every
  register, the sparse stack image and the position in the program. Subsumption, on which the
  state pruner relies (\<open>verifier/pruner.rs\<close>), is defined on these states. The lemmas are the
  laws of the sparse stack (lookup after store, the depth mark), that \<open>is_valid_access\<close> is exactly
  containment of the accessed bytes in the frame, and which part of the tracked information
  subsumption respects.
\<close>

section \<open>Register states\<close>

datatype reg_type =
  NotInit | Scalar | PtrToStack | PtrToMapValue | PtrToMapKey | PtrToCtx | PtrToPacket
| PtrToPacketEnd | PtrToPacketMeta | ConstPtrToMap | PtrToFp | NullPtr

definition is_pointer :: "reg_type \<Rightarrow> bool" where
  "is_pointer t \<longleftrightarrow> t \<noteq> NotInit \<and> t \<noteq> Scalar"

definition can_read :: "reg_type \<Rightarrow> bool" where
  "can_read t \<longleftrightarrow> t \<in> {PtrToStack, PtrToMapValue, PtrToCtx, PtrToPacket, PtrToPacketMeta}"

definition can_write :: "reg_type \<Rightarrow> bool" where
  "can_write t \<longleftrightarrow> t \<in> {PtrToStack, PtrToMapValue, PtrToPacket}"

datatype map_writability = ReadWrite "u32 option" | ReadOnly u32 | Unprovable

primrec is_read_write :: "map_writability \<Rightarrow> bool" where
  "is_read_write (ReadWrite _) = True"
| "is_read_write (ReadOnly _) = False"
| "is_read_write Unprovable = False"

primrec writability_map_id :: "map_writability \<Rightarrow> u32 option" where
  "writability_map_id (ReadWrite i) = i"
| "writability_map_id (ReadOnly i) = Some i"
| "writability_map_id Unprovable = None"

record reg_state =
  rs_type :: reg_type
  rs_scalar :: "scalar_value option"
  rs_offset :: i64
  rs_map_id :: "u32 option"
  rs_mem_range :: "u32 option"
  rs_maybe_null :: bool
  rs_writability :: map_writability

definition reg_uninit :: reg_state where
  "reg_uninit = \<lparr>rs_type = NotInit, rs_scalar = None, rs_offset = 0, rs_map_id = None,
     rs_mem_range = None, rs_maybe_null = False, rs_writability = Unprovable\<rparr>"

definition reg_scalar :: "scalar_value option \<Rightarrow> reg_state" where
  "reg_scalar v = \<lparr>rs_type = Scalar, rs_scalar = v, rs_offset = 0, rs_map_id = None,
     rs_mem_range = None, rs_maybe_null = False, rs_writability = Unprovable\<rparr>"

definition reg_stack_ptr :: "i64 \<Rightarrow> reg_state" where
  "reg_stack_ptr off = \<lparr>rs_type = PtrToStack, rs_scalar = None, rs_offset = off, rs_map_id = None,
     rs_mem_range = None, rs_maybe_null = False, rs_writability = Unprovable\<rparr>"

definition reg_frame_ptr :: reg_state where
  "reg_frame_ptr = \<lparr>rs_type = PtrToFp, rs_scalar = None, rs_offset = 0, rs_map_id = None,
     rs_mem_range = None, rs_maybe_null = False, rs_writability = Unprovable\<rparr>"

definition reg_ctx_ptr :: reg_state where
  "reg_ctx_ptr = \<lparr>rs_type = PtrToCtx, rs_scalar = None, rs_offset = 0, rs_map_id = None,
     rs_mem_range = None, rs_maybe_null = False, rs_writability = Unprovable\<rparr>"

definition reg_ctx_data_ptr :: "u32 \<Rightarrow> reg_state" where
  "reg_ctx_data_ptr sz = \<lparr>rs_type = PtrToCtx, rs_scalar = None, rs_offset = 0, rs_map_id = None,
     rs_mem_range = Some sz, rs_maybe_null = False, rs_writability = Unprovable\<rparr>"

definition map_value_with_writability :: "u32 \<Rightarrow> bool \<Rightarrow> map_writability \<Rightarrow> reg_state" where
  "map_value_with_writability sz maybe_null w =
     \<lparr>rs_type = PtrToMapValue, rs_scalar = None, rs_offset = 0, rs_map_id = writability_map_id w,
      rs_mem_range = Some sz, rs_maybe_null = maybe_null, rs_writability = w\<rparr>"

definition reg_map_value :: "u32 \<Rightarrow> bool \<Rightarrow> reg_state" where
  "reg_map_value sz maybe_null = map_value_with_writability sz maybe_null (ReadWrite None)"

definition reg_is_init :: "reg_state \<Rightarrow> bool" where
  "reg_is_init r \<longleftrightarrow> rs_type r \<noteq> NotInit"

section \<open>The stack image\<close>

datatype stack_slot = SlotInvalid | SlotSpill register | SlotScalar | SlotZero

text \<open>The \<open>BTreeMap\<close> of touched slots is a map from slot indices.\<close>

record stack_state =
  ss_slots :: "nat \<rightharpoonup> stack_slot"
  ss_capacity :: nat
  ss_max_depth :: nat

definition stack_new :: "nat \<Rightarrow> stack_state" where
  "stack_new max_size = \<lparr>ss_slots = Map.empty, ss_capacity = max_size, ss_max_depth = 0\<rparr>"

definition stack_offset_bad :: "stack_state \<Rightarrow> i64 \<Rightarrow> bool" where
  "stack_offset_bad s offset \<longleftrightarrow> 0 \<le> offset \<or> offset < wrap_i64 (- wrap_i64 (int (ss_capacity s)))"

definition stack_get :: "stack_state \<Rightarrow> i64 \<Rightarrow> stack_slot option" where
  "stack_get s offset =
     (if stack_offset_bad s offset then None
      else Some (case ss_slots s (nat (- offset - 1)) of Some x \<Rightarrow> x | None \<Rightarrow> SlotInvalid))"

text \<open>The returned flag of \<open>set\<close> is the first component.\<close>

definition stack_set :: "stack_state \<Rightarrow> i64 \<Rightarrow> stack_slot \<Rightarrow> bool \<times> stack_state" where
  "stack_set s offset slot =
     (if stack_offset_bad s offset then (False, s)
      else
        let idx = nat (- offset - 1);
            s = (if slot = SlotInvalid then s\<lparr>ss_slots := (ss_slots s)(idx := None)\<rparr>
                 else s\<lparr>ss_slots := (ss_slots s)(idx \<mapsto> slot)\<rparr>);
            depth = idx + 1;
            s = (if ss_max_depth s < depth then s\<lparr>ss_max_depth := depth\<rparr> else s)
        in (True, s))"

definition is_valid_access :: "stack_state \<Rightarrow> i64 \<Rightarrow> nat \<Rightarrow> bool" where
  "is_valid_access s offset sz =
     (if 0 \<le> offset \<or> sz = 0 then False
      else if i64_MAX < int sz then False
      else if i64_MAX < int (ss_capacity s) then False
      else case checked_add_i64 offset (int sz) of
          None \<Rightarrow> False
        | Some end_exclusive \<Rightarrow>
            if offset < - int (ss_capacity s) \<or> 0 < end_exclusive then False else True)"

section \<open>Verifier states\<close>

record verifier_state =
  vs_regs :: "register \<Rightarrow> reg_state"
  vs_stack :: stack_state
  vs_insn_idx :: nat
  vs_insn_processed :: nat

definition state_new_entry :: "nat \<Rightarrow> verifier_state" where
  "state_new_entry stack_size =
     \<lparr>vs_regs = (\<lambda>_. reg_uninit)(R1 := reg_ctx_ptr, R10 := reg_frame_ptr),
      vs_stack = stack_new stack_size, vs_insn_idx = 0, vs_insn_processed = 0\<rparr>"

definition state_reg :: "verifier_state \<Rightarrow> register \<Rightarrow> reg_state" where
  "state_reg s r = vs_regs s r"

definition set_reg :: "verifier_state \<Rightarrow> register \<Rightarrow> reg_state \<Rightarrow> verifier_state" where
  "set_reg s r v = s\<lparr>vs_regs := (vs_regs s)(r := v)\<rparr>"

definition is_reg_init :: "verifier_state \<Rightarrow> register \<Rightarrow> bool" where
  "is_reg_init s r \<longleftrightarrow> reg_is_init (vs_regs s r)"

definition set_scalar :: "verifier_state \<Rightarrow> register \<Rightarrow> scalar_value option \<Rightarrow> verifier_state" where
  "set_scalar s r v = set_reg s r (reg_scalar v)"

section \<open>Subsumption\<close>

definition reg_subsumes :: "reg_state \<Rightarrow> reg_state \<Rightarrow> bool" where
  "reg_subsumes a b =
     (if rs_type a \<noteq> rs_type b then False
      else case rs_type a of
          NotInit \<Rightarrow> True
        | Scalar \<Rightarrow>
            (case rs_scalar a of
               None \<Rightarrow> True
             | Some x \<Rightarrow>
                 (case rs_scalar b of
                    None \<Rightarrow> False
                  | Some y \<Rightarrow>
                      let interval_ok = (sc_min x \<le> sc_min y \<and> sc_max y \<le> sc_max x);
                          tnum_ok = tnum_subsumes (sc_tnum x) (sc_tnum y)
                      in interval_ok \<and> tnum_ok))
        | _ \<Rightarrow>
            rs_offset a = rs_offset b \<and> rs_map_id a = rs_map_id b
            \<and> rs_writability a = rs_writability b \<and> rs_maybe_null a = rs_maybe_null b
            \<and> rs_mem_range a = rs_mem_range b)"

text \<open>The registers in index order, over which the code's loops \<open>0..Register::COUNT\<close> run.\<close>

definition all_registers :: "register list" where
  "all_registers = [R0, R1, R2, R3, R4, R5, R6, R7, R8, R9, R10]"

definition stack_subsumes :: "stack_state \<Rightarrow> stack_state \<Rightarrow> bool" where
  "stack_subsumes a b \<longleftrightarrow>
     ss_max_depth a = ss_max_depth b
     \<and> list_all (\<lambda>offset. stack_get a offset = stack_get b offset)
         (map (\<lambda>i. - int (ss_max_depth a) + int i) [0..<ss_max_depth a])"

definition subsumes_with_liveness ::
  "verifier_state \<Rightarrow> verifier_state \<Rightarrow> (register \<Rightarrow> bool) \<Rightarrow> bool" where
  "subsumes_with_liveness a b live \<longleftrightarrow>
     list_all (\<lambda>r. \<not> live r \<or> reg_subsumes (vs_regs a r) (vs_regs b r)) all_registers
     \<and> stack_subsumes (vs_stack a) (vs_stack b)"

section \<open>Laws of the stack image\<close>

lemma wrap_i64_id: "i64_MIN \<le> x \<Longrightarrow> x \<le> i64_MAX \<Longrightarrow> wrap_i64 x = x"
  by (simp add: rust_arith)

lemma of_int_wrap_i64 [simp]: "(of_int (wrap_i64 x) :: u64) = of_int x"
proof -
  have "wrap_i64 x mod 18446744073709551616 = x mod 18446744073709551616"
    by (simp add: wrap_i64_def mod_diff_left_eq)
  then show ?thesis by (simp add: word_of_int_eq_iff take_bit_eq_mod)
qed

lemma is_valid_access_iff:
  assumes "int (ss_capacity s) \<le> i64_MAX" "i64_MIN \<le> offset"
  shows "is_valid_access s offset sz \<longleftrightarrow>
    0 < sz \<and> - int (ss_capacity s) \<le> offset \<and> offset + int sz \<le> 0"
  using assms by (auto simp: is_valid_access_def rust_arith)

lemma stack_set_get_same:
  "stack_set s offset slot = (True, s') \<Longrightarrow> stack_get s' offset = Some slot"
  by (auto simp: stack_set_def stack_get_def stack_offset_bad_def Let_def split: if_splits)

lemma stack_set_get_other:
  assumes "stack_set s offset slot = (True, s')" "offset' \<noteq> offset"
  shows "stack_get s' offset' = stack_get s offset'"
  using assms
  by (auto simp: stack_set_def stack_get_def stack_offset_bad_def Let_def eq_nat_nat_iff
      split: if_splits)

lemma stack_set_false: "fst (stack_set s offset slot) \<longleftrightarrow> stack_get s offset \<noteq> None"
  by (simp add: stack_set_def stack_get_def Let_def)

text \<open>The touched slots never reach below the depth mark, nor past the frame.\<close>

definition stack_wf :: "stack_state \<Rightarrow> bool" where
  "stack_wf s \<longleftrightarrow>
     int (ss_capacity s) \<le> i64_MAX \<and> ss_max_depth s \<le> ss_capacity s
     \<and> (\<forall>i \<in> dom (ss_slots s). i < ss_max_depth s) \<and> SlotInvalid \<notin> ran (ss_slots s)"

lemma stack_wf_new: "int n \<le> i64_MAX \<Longrightarrow> stack_wf (stack_new n)"
  by (simp add: stack_wf_def stack_new_def)

lemma stack_wf_set:
  assumes "stack_wf s"
  shows "stack_wf (snd (stack_set s offset slot))"
proof (cases "stack_offset_bad s offset")
  case False
  have "wrap_i64 (- wrap_i64 (int (ss_capacity s))) = - int (ss_capacity s)"
    using assms by (simp add: stack_wf_def wrap_i64_id rust_arith)
  then have "nat (- offset - 1) + 1 \<le> ss_capacity s"
    using False by (auto simp: stack_offset_bad_def)
  then show ?thesis
    using assms False
    by (auto simp: stack_set_def stack_wf_def Let_def ran_def domIff split: if_splits
        intro: less_trans)
qed (use assms in \<open>simp add: stack_set_def\<close>)

lemma all_registers_univ: "set all_registers = UNIV"
  using register.exhaust by (auto simp: all_registers_def)

lemma subsumes_with_liveness_reg:
  "subsumes_with_liveness a b live \<Longrightarrow> live r \<Longrightarrow> reg_subsumes (vs_regs a r) (vs_regs b r)"
  using all_registers_univ by (auto simp: subsumes_with_liveness_def list_all_iff)

lemma stack_subsumes_get:
  assumes "stack_subsumes a b" "- int (ss_max_depth a) \<le> offset" "offset < 0"
  shows "stack_get a offset = stack_get b offset"
proof -
  have "offset = - int (ss_max_depth a) + int (nat (offset + int (ss_max_depth a)))"
    "nat (offset + int (ss_max_depth a)) < ss_max_depth a"
    using assms(2,3) by auto
  then show ?thesis
    using assms(1) unfolding stack_subsumes_def list_all_iff by (metis atLeastLessThan_iff imageI le0 set_map set_upt)
qed

lemma subsumes_refl: "reg_subsumes a a"
  by (auto simp: reg_subsumes_def tnum_subsumes_def split: reg_type.splits option.splits)

end
