(* ===== verification/Profile.thy ===== *)
theory Profile
  imports Axiom_Prelude
begin

text \<open>
  The physical profiles of \<open>profile/mod.rs\<close>: the sealed trait \<open>PhysicalProfile\<close> is a record of its
  associated constants, with the Cargo feature that selects the profile-specific code paths as
  a further field. The contract the rest of the crate relies on is the locale
  \<open>physical_profile\<close>, interpreted on both profiles.
\<close>

record profile =
  MAX_STACK_SIZE :: nat
  MAX_INSN_COUNT :: nat
  JIT_ALLOWED :: bool
  MEMORY_BUDGET :: nat
  WCET_CYCLE_BUDGET :: u64
  CYCLE_UNIT_NS :: u64
  RT_PERIOD_NS :: u64
  UTILIZATION_BUDGET_NS_PER_S :: u64
  NAME :: string
  ACT_DUTY_MAX :: u32
  ACT_DUTY_MAX_STEP :: u32
  ACT_RATE_WINDOW_NS :: u64
  embedded_feature :: bool

definition CloudProfile :: profile where
  "CloudProfile = \<lparr>MAX_STACK_SIZE = 512 * 1024, MAX_INSN_COUNT = 1000000, JIT_ALLOWED = False,
     MEMORY_BUDGET = 0, WCET_CYCLE_BUDGET = u64_MAX, CYCLE_UNIT_NS = 1, RT_PERIOD_NS = u64_MAX,
     UTILIZATION_BUDGET_NS_PER_S = u64_MAX, NAME = ''cloud'', ACT_DUTY_MAX = u32_MAX, ACT_DUTY_MAX_STEP = u32_MAX,
     ACT_RATE_WINDOW_NS = 0, embedded_feature = False\<rparr>"

definition EmbeddedProfile :: profile where
  "EmbeddedProfile = \<lparr>MAX_STACK_SIZE = 8 * 1024, MAX_INSN_COUNT = 100000, JIT_ALLOWED = False,
     MEMORY_BUDGET = 64 * 1024, WCET_CYCLE_BUDGET = 1000000 div 6, CYCLE_UNIT_NS = 6,
     RT_PERIOD_NS = 1000000, UTILIZATION_BUDGET_NS_PER_S = 500000000,
     NAME = ''embedded'', ACT_DUTY_MAX = 90,
     ACT_DUTY_MAX_STEP = 20, ACT_RATE_WINDOW_NS = 1000000, embedded_feature = True\<rparr>"

text \<open>
  What the verifier, the interpreter and the admission control need of a profile: a stack that
  is addressable with \<open>i64\<close> offsets, room for at least one instruction, and a budget that fits
  one control period.
\<close>

locale physical_profile =
  fixes P :: profile
  assumes stack_positive: "0 < MAX_STACK_SIZE P"
    and stack_i64: "int (MAX_STACK_SIZE P) \<le> i64_MAX"
    and insn_positive: "0 < MAX_INSN_COUNT P"
    and insn_u32: "MAX_INSN_COUNT P < 2 ^ 31"
    and wcet_fits_period: "unat (WCET_CYCLE_BUDGET P) * unat (CYCLE_UNIT_NS P) \<le> unat (RT_PERIOD_NS P)"
begin

lemma stack_below_fp: "- int (MAX_STACK_SIZE P) < 0" "i64_MIN \<le> - int (MAX_STACK_SIZE P)"
  using stack_positive stack_i64 by (simp_all add: rust_arith)

lemma within_budget_fits_period:
  assumes "c \<le> WCET_CYCLE_BUDGET P"
  shows "unat c * unat (CYCLE_UNIT_NS P) \<le> unat (RT_PERIOD_NS P)"
  using assms wcet_fits_period by (meson le_trans mult_le_mono1 word_le_nat_alt)

end

interpretation cloud: physical_profile CloudProfile
  by unfold_locales (simp_all add: CloudProfile_def rust_arith)

interpretation embedded: physical_profile EmbeddedProfile
  by unfold_locales (simp_all add: EmbeddedProfile_def rust_arith unat_div)

end
