(* ===== verification/Helpers.thy ===== *)
theory Helpers
  imports Verifier_State Profile
begin

text \<open>
  The helper registry (\<open>verifier/helpers.rs\<close>), the map policy (\<open>verifier/map_policy.rs\<close>), the
  caller tiers (\<open>verifier/caller.rs\<close>), the verifier's configuration (\<open>VerifyConfig\<close> in
  \<open>verifier/core.rs\<close>) and its error type (\<open>verifier/error.rs\<close>). The lemmas relate the raw ids to
  the registry, and show what a validated call and a granted write permission guarantee.
\<close>

section \<open>Caller tiers, map permissions, configuration\<close>

datatype load_caller = Unprivileged | Privileged | Trusted

primrec tier :: "load_caller \<Rightarrow> nat" where
  "tier Unprivileged = 0"
| "tier Privileged = 1"
| "tier Trusted = 2"

text \<open>The derived \<open>Ord\<close> of \<open>LoadCaller\<close>: the order of the declarations.\<close>

instantiation load_caller :: linorder
begin

definition less_eq_load_caller :: "load_caller \<Rightarrow> load_caller \<Rightarrow> bool" where
  "less_eq_load_caller a b \<longleftrightarrow> tier a \<le> tier b"

definition less_load_caller :: "load_caller \<Rightarrow> load_caller \<Rightarrow> bool" where
  "less_load_caller a b \<longleftrightarrow> tier a < tier b"

instance
proof
  fix a b :: load_caller
  show "a \<le> b \<Longrightarrow> b \<le> a \<Longrightarrow> a = b"
    by (cases a; cases b) (simp_all add: less_eq_load_caller_def)
qed (auto simp: less_eq_load_caller_def less_load_caller_def)

end

datatype map_perm = MapUnavailable | MapReadOnly | MapWriteOnly | MapReadWrite

record verify_config =
  ctx_size :: u32
  ctx_data_size :: u32
  map_value_size :: u32
  map_value_sizes :: "u32 list"
  map_perms :: "map_perm list"
  map_generations :: "u32 list"
  map_handle_slot_bits :: u8
  caller :: load_caller
  allow_actuation :: bool
  forbid_logging_helpers :: bool

definition default_config :: verify_config where
  "default_config = \<lparr>ctx_size = 0, ctx_data_size = 0, map_value_size = 0, map_value_sizes = [],
     map_perms = [], map_generations = [], map_handle_slot_bits = 0, caller = Privileged,
     allow_actuation = False, forbid_logging_helpers = False\<rparr>"

section \<open>Errors\<close>

datatype verify_error =
  InvalidOpcode nat u8
| InvalidRegister nat u8
| UninitializedRegister nat register
| OutOfBoundsAccess nat i64 nat
| InvalidMemoryAccess nat string
| UnreachableInstruction nat
| InfiniteLoop nat
| StateLimitExceeded nat nat
| InvalidJump nat i32
| NoExit
| EmptyProgram
| InvalidHelper nat i32
| HelperRequiresPrivilege nat i32 load_caller
| ActuationCapabilityRequired nat i32
| LoggingHelperForbidden nat i32
| PointerLeakUnprivileged nat
| HelperNotAvailable nat string
| InvalidMapId nat u64
| WriteToReadOnlyMap nat u32
| WriteMapNotProvablyWritable nat
| HelperArgCount nat string nat nat
| HelperArgType nat string nat
| DivisionByZero nat
| StackExceeded nat nat
| InsnCountExceeded nat nat
| WriteToReadOnly nat
| MisalignedAccess nat i64 nat
| WcetExceeded u64 u64
| InterruptUnsafe nat string
| DynamicAllocationAttempted nat
| UnboundedLoop nat
| HelperForbiddenOnRtFragment nat i32

section \<open>The registry\<close>

datatype helper_id =
  KtimeGetNs | TracePrintk | GetPrandomU32 | GetSmpProcessorId | MapLookupElem | MapUpdateElem
| MapDeleteElem | RingbufOutput | TimeseriesPush | GetCurrentPidTgid | GetCurrentUidGid
| GetCurrentComm | GetInterruptLatencyNs | ProbeRead | GetBootTimeMs | GetKernelHeapKb
| GetKernelImageMb | RingbufReserve | RingbufSubmit | RingbufDiscard | SensorLastTimestamp
| GpioSet | GpioGet | PwmWrite | IioRead | CanSend | MotorPairV1

text \<open>The discriminants, which are the constants of \<open>kernel_abi/src/bpf.rs\<close>.\<close>

primrec helper_raw :: "helper_id \<Rightarrow> i32" where
  "helper_raw KtimeGetNs = 1"
| "helper_raw TracePrintk = 2"
| "helper_raw GetPrandomU32 = 3"
| "helper_raw GetSmpProcessorId = 4"
| "helper_raw MapLookupElem = 5"
| "helper_raw MapUpdateElem = 6"
| "helper_raw MapDeleteElem = 7"
| "helper_raw RingbufOutput = 8"
| "helper_raw TimeseriesPush = 9"
| "helper_raw GetCurrentPidTgid = 10"
| "helper_raw GetCurrentUidGid = 11"
| "helper_raw GetCurrentComm = 12"
| "helper_raw GetInterruptLatencyNs = 13"
| "helper_raw ProbeRead = 14"
| "helper_raw GetBootTimeMs = 15"
| "helper_raw GetKernelHeapKb = 16"
| "helper_raw GetKernelImageMb = 17"
| "helper_raw RingbufReserve = 40"
| "helper_raw RingbufSubmit = 41"
| "helper_raw RingbufDiscard = 42"
| "helper_raw SensorLastTimestamp = 1002"
| "helper_raw GpioSet = 1003"
| "helper_raw GpioGet = 1004"
| "helper_raw PwmWrite = 1005"
| "helper_raw IioRead = 1006"
| "helper_raw CanSend = 1007"
| "helper_raw MotorPairV1 = 1008"

definition helper_from_raw :: "i32 \<Rightarrow> helper_id option" where
  "helper_from_raw h =
     (if h = 1 then Some KtimeGetNs
      else if h = 2 then Some TracePrintk
      else if h = 3 then Some GetPrandomU32
      else if h = 4 then Some GetSmpProcessorId
      else if h = 5 then Some MapLookupElem
      else if h = 6 then Some MapUpdateElem
      else if h = 7 then Some MapDeleteElem
      else if h = 8 then Some RingbufOutput
      else if h = 9 then Some TimeseriesPush
      else if h = 10 then Some GetCurrentPidTgid
      else if h = 11 then Some GetCurrentUidGid
      else if h = 12 then Some GetCurrentComm
      else if h = 13 then Some GetInterruptLatencyNs
      else if h = 14 then Some ProbeRead
      else if h = 15 then Some GetBootTimeMs
      else if h = 16 then Some GetKernelHeapKb
      else if h = 17 then Some GetKernelImageMb
      else if h = 40 then Some RingbufReserve
      else if h = 41 then Some RingbufSubmit
      else if h = 42 then Some RingbufDiscard
      else if h = 1002 then Some SensorLastTimestamp
      else if h = 1003 then Some GpioSet
      else if h = 1004 then Some GpioGet
      else if h = 1005 then Some PwmWrite
      else if h = 1006 then Some IioRead
      else if h = 1007 then Some CanSend
      else if h = 1008 then Some MotorPairV1
      else None)"

primrec helper_name :: "helper_id \<Rightarrow> string" where
  "helper_name KtimeGetNs = ''bpf_ktime_get_ns''"
| "helper_name TracePrintk = ''bpf_trace_printk''"
| "helper_name GetPrandomU32 = ''bpf_get_prandom_u32''"
| "helper_name GetSmpProcessorId = ''bpf_get_smp_processor_id''"
| "helper_name MapLookupElem = ''bpf_map_lookup_elem''"
| "helper_name MapUpdateElem = ''bpf_map_update_elem''"
| "helper_name MapDeleteElem = ''bpf_map_delete_elem''"
| "helper_name ProbeRead = ''bpf_probe_read''"
| "helper_name GetCurrentPidTgid = ''bpf_get_current_pid_tgid''"
| "helper_name GetCurrentUidGid = ''bpf_get_current_uid_gid''"
| "helper_name GetCurrentComm = ''bpf_get_current_comm''"
| "helper_name GetInterruptLatencyNs = ''bpf_get_interrupt_latency_ns''"
| "helper_name GetBootTimeMs = ''bpf_get_boot_time_ms''"
| "helper_name GetKernelHeapKb = ''bpf_get_kernel_heap_kb''"
| "helper_name GetKernelImageMb = ''bpf_get_kernel_image_mb''"
| "helper_name RingbufReserve = ''bpf_ringbuf_reserve''"
| "helper_name RingbufSubmit = ''bpf_ringbuf_submit''"
| "helper_name RingbufDiscard = ''bpf_ringbuf_discard''"
| "helper_name RingbufOutput = ''bpf_ringbuf_output''"
| "helper_name TimeseriesPush = ''bpf_timeseries_push''"
| "helper_name SensorLastTimestamp = ''bpf_sensor_last_timestamp''"
| "helper_name GpioSet = ''bpf_gpio_set''"
| "helper_name GpioGet = ''bpf_gpio_get''"
| "helper_name PwmWrite = ''bpf_pwm_write''"
| "helper_name IioRead = ''bpf_iio_read''"
| "helper_name CanSend = ''bpf_can_send''"
| "helper_name MotorPairV1 = ''bpf_motor_pair_v1''"

definition available_in_embedded :: "helper_id \<Rightarrow> bool" where
  "available_in_embedded h \<longleftrightarrow> h \<notin> {TracePrintk, RingbufReserve}"

definition available_in_cloud :: "helper_id \<Rightarrow> bool" where
  "available_in_cloud h \<longleftrightarrow> True"

definition is_available :: "profile \<Rightarrow> helper_id \<Rightarrow> bool" where
  "is_available P h \<longleftrightarrow> (if embedded_feature P then available_in_embedded h else available_in_cloud h)"

datatype arg_type =
  ArgScalar | ArgPtrToMap | ArgPtrToMapKey | ArgPtrToMapValue | ArgPtrToStack | ArgPtrToMem
| ArgPtrToMemOrNull | ArgMemSize | ArgPtrToCtx | ArgAnyPtr | ArgConst | ArgPtrToRingbuf
| ArgPtrToRingbufSample

fun is_compatible :: "arg_type \<Rightarrow> reg_type \<Rightarrow> bool" where
  "is_compatible ArgScalar t \<longleftrightarrow> t = Scalar"
| "is_compatible ArgMemSize t \<longleftrightarrow> t = Scalar"
| "is_compatible ArgConst t \<longleftrightarrow> t = Scalar"
| "is_compatible ArgPtrToMap t \<longleftrightarrow> t = ConstPtrToMap"
| "is_compatible ArgPtrToMapKey t \<longleftrightarrow> t \<in> {PtrToMapKey, PtrToStack, PtrToFp}"
| "is_compatible ArgPtrToMapValue t \<longleftrightarrow> t \<in> {PtrToMapValue, PtrToStack, PtrToFp}"
| "is_compatible ArgPtrToStack t \<longleftrightarrow> t \<in> {PtrToStack, PtrToFp}"
| "is_compatible ArgPtrToMem t \<longleftrightarrow> t \<in> {PtrToStack, PtrToFp, PtrToMapValue, PtrToPacket, PtrToCtx}"
| "is_compatible ArgPtrToMemOrNull t \<longleftrightarrow>
     t \<in> {PtrToStack, PtrToFp, PtrToMapValue, PtrToPacket, PtrToCtx, NullPtr, Scalar}"
| "is_compatible ArgPtrToCtx t \<longleftrightarrow> t = PtrToCtx"
| "is_compatible ArgAnyPtr t \<longleftrightarrow> is_pointer t"
| "is_compatible ArgPtrToRingbuf t \<longleftrightarrow> t \<in> {ConstPtrToMap, PtrToMapValue}"
| "is_compatible ArgPtrToRingbufSample t \<longleftrightarrow> t = PtrToMapValue"

datatype return_type = RetInteger | RetPtrToMapValueOrNull | RetPtrToAllocMemOrNull | RetVoid

primrec to_reg_state :: "return_type \<Rightarrow> u32 \<Rightarrow> reg_state" where
  "to_reg_state RetInteger sz = reg_scalar (Some scalar_unknown)"
| "to_reg_state RetVoid sz = reg_scalar (Some scalar_unknown)"
| "to_reg_state RetPtrToMapValueOrNull sz = reg_map_value sz True"
| "to_reg_state RetPtrToAllocMemOrNull sz = reg_map_value sz True"

record helper_signature =
  sig_id :: helper_id
  sig_args :: "arg_type list"
  sig_ret :: return_type
  sig_min_tier :: load_caller
  sig_requires_actuation :: bool
  sig_may_log :: bool

definition signature_new :: "helper_id \<Rightarrow> arg_type list \<Rightarrow> return_type \<Rightarrow> helper_signature" where
  "signature_new h args ret = \<lparr>sig_id = h, sig_args = args, sig_ret = ret,
     sig_min_tier = Unprivileged, sig_requires_actuation = False, sig_may_log = False\<rparr>"

definition with_min_tier :: "load_caller \<Rightarrow> helper_signature \<Rightarrow> helper_signature" where
  "with_min_tier t s = s\<lparr>sig_min_tier := t\<rparr>"

definition requiring_actuation :: "helper_signature \<Rightarrow> helper_signature" where
  "requiring_actuation s = s\<lparr>sig_requires_actuation := True\<rparr>"

definition with_logging_effect :: "helper_signature \<Rightarrow> helper_signature" where
  "with_logging_effect s = s\<lparr>sig_may_log := True\<rparr>"

datatype runtime_helper =
  Rt_KtimeGetNs | Rt_TracePrintk | Rt_MapLookupElem | Rt_MapUpdateElem | Rt_MapDeleteElem
| Rt_GetInterruptLatencyNs | Rt_GetBootTimeMs | Rt_GetKernelHeapKb | Rt_GetKernelImageMb
| Rt_RingbufOutput | Rt_TimeseriesPush | Rt_GpioSet | Rt_GpioGet | Rt_PwmWrite | Rt_MotorPairV1

definition runtime_helper :: "helper_id \<Rightarrow> runtime_helper option" where
  "runtime_helper h =
     (case h of
        KtimeGetNs \<Rightarrow> Some Rt_KtimeGetNs
      | TracePrintk \<Rightarrow> Some Rt_TracePrintk
      | MapLookupElem \<Rightarrow> Some Rt_MapLookupElem
      | MapUpdateElem \<Rightarrow> Some Rt_MapUpdateElem
      | MapDeleteElem \<Rightarrow> Some Rt_MapDeleteElem
      | GetInterruptLatencyNs \<Rightarrow> Some Rt_GetInterruptLatencyNs
      | GetBootTimeMs \<Rightarrow> Some Rt_GetBootTimeMs
      | GetKernelHeapKb \<Rightarrow> Some Rt_GetKernelHeapKb
      | GetKernelImageMb \<Rightarrow> Some Rt_GetKernelImageMb
      | RingbufOutput \<Rightarrow> Some Rt_RingbufOutput
      | TimeseriesPush \<Rightarrow> Some Rt_TimeseriesPush
      | GpioSet \<Rightarrow> Some Rt_GpioSet
      | GpioGet \<Rightarrow> Some Rt_GpioGet
      | PwmWrite \<Rightarrow> Some Rt_PwmWrite
      | MotorPairV1 \<Rightarrow> Some Rt_MotorPairV1
      | _ \<Rightarrow> None)"

definition helper_signature :: "helper_id \<Rightarrow> helper_signature" where
  "helper_signature h =
     (case h of
        KtimeGetNs \<Rightarrow> signature_new h [] RetInteger
      | TracePrintk \<Rightarrow> with_logging_effect (signature_new h [ArgPtrToMem, ArgMemSize] RetInteger)
      | GetPrandomU32 \<Rightarrow> signature_new h [] RetInteger
      | GetSmpProcessorId \<Rightarrow> signature_new h [] RetInteger
      | MapLookupElem \<Rightarrow> signature_new h [ArgScalar, ArgPtrToMapKey] RetPtrToMapValueOrNull
      | MapUpdateElem \<Rightarrow>
          signature_new h [ArgScalar, ArgPtrToMapKey, ArgPtrToMapValue, ArgConst] RetInteger
      | MapDeleteElem \<Rightarrow> signature_new h [ArgScalar, ArgPtrToMapKey] RetInteger
      | ProbeRead \<Rightarrow>
          with_min_tier Privileged (signature_new h [ArgPtrToStack, ArgMemSize, ArgAnyPtr] RetInteger)
      | GetCurrentPidTgid \<Rightarrow> signature_new h [] RetInteger
      | GetCurrentUidGid \<Rightarrow> signature_new h [] RetInteger
      | GetCurrentComm \<Rightarrow> signature_new h [ArgPtrToStack, ArgMemSize] RetInteger
      | GetInterruptLatencyNs \<Rightarrow> signature_new h [] RetInteger
      | GetBootTimeMs \<Rightarrow> with_min_tier Privileged (signature_new h [] RetInteger)
      | GetKernelHeapKb \<Rightarrow> with_min_tier Privileged (signature_new h [] RetInteger)
      | GetKernelImageMb \<Rightarrow> with_min_tier Privileged (signature_new h [] RetInteger)
      | RingbufReserve \<Rightarrow> signature_new h [ArgPtrToRingbuf, ArgScalar, ArgConst] RetPtrToAllocMemOrNull
      | RingbufSubmit \<Rightarrow> signature_new h [ArgPtrToRingbufSample, ArgConst] RetVoid
      | RingbufDiscard \<Rightarrow> signature_new h [ArgPtrToRingbufSample, ArgConst] RetVoid
      | RingbufOutput \<Rightarrow> signature_new h [ArgScalar, ArgPtrToMem, ArgMemSize, ArgConst] RetInteger
      | TimeseriesPush \<Rightarrow> signature_new h [ArgScalar, ArgPtrToMapKey, ArgPtrToMapValue] RetInteger
      | SensorLastTimestamp \<Rightarrow> signature_new h [ArgScalar] RetInteger
      | GpioSet \<Rightarrow> requiring_actuation (signature_new h [ArgScalar, ArgScalar] RetInteger)
      | GpioGet \<Rightarrow> signature_new h [ArgScalar] RetInteger
      | PwmWrite \<Rightarrow> requiring_actuation (signature_new h [ArgScalar, ArgScalar, ArgScalar] RetInteger)
      | MotorPairV1 \<Rightarrow> requiring_actuation (signature_new h [ArgScalar, ArgScalar] RetInteger)
      | IioRead \<Rightarrow> signature_new h [ArgScalar, ArgPtrToStack, ArgMemSize] RetInteger
      | CanSend \<Rightarrow> requiring_actuation (signature_new h [ArgScalar, ArgPtrToMem, ArgMemSize] RetInteger))"

record helper_descriptor =
  desc_signature :: helper_signature
  desc_runtime :: "runtime_helper option"

definition get_helper_descriptor :: "helper_id \<Rightarrow> helper_descriptor" where
  "get_helper_descriptor h =
     \<lparr>desc_signature = helper_signature h, desc_runtime = runtime_helper h\<rparr>"

definition get_helper_signature :: "helper_id \<Rightarrow> helper_signature" where
  "get_helper_signature h = desc_signature (get_helper_descriptor h)"

datatype helper_validation =
  HV_Valid helper_signature
| HV_UnknownHelper i32
| HV_NotAvailable helper_id
| HV_WrongArgCount helper_id nat nat
| HV_ArgTypeMismatch helper_id nat arg_type reg_type

text \<open>The loop over the signature's arguments: the first mismatch, with its position.\<close>

fun first_mismatch :: "helper_id \<Rightarrow> nat \<Rightarrow> arg_type list \<Rightarrow> reg_type list \<Rightarrow> helper_validation option" where
  "first_mismatch h i (a # args) (t # ts) =
     (if \<not> is_compatible a t then Some (HV_ArgTypeMismatch h i a t)
      else first_mismatch h (i + 1) args ts)"
| "first_mismatch h i _ _ = None"

definition validate_helper_call :: "profile \<Rightarrow> i32 \<Rightarrow> reg_type list \<Rightarrow> helper_validation" where
  "validate_helper_call P raw arg_types =
     (case helper_from_raw raw of
        None \<Rightarrow> HV_UnknownHelper raw
      | Some h \<Rightarrow>
          if \<not> is_available P h then HV_NotAvailable h
          else
            let sig = get_helper_signature h
            in case first_mismatch h 0 (sig_args sig) arg_types of
                 Some e \<Rightarrow> e
               | None \<Rightarrow> HV_Valid sig)"

section \<open>Map policy\<close>

definition map_handle_slot :: "u64 \<Rightarrow> verify_config \<Rightarrow> nat option" where
  "map_handle_slot h cfg =
     (if map_generations cfg = [] then Some (unat h)
      else
        let bits = unat (map_handle_slot_bits cfg)
        in if bits = 0 \<or> 32 \<le> bits \<or> ucast u32_MAX < h then None
           else
             let i = ucast h :: u32;
                 slot = unat (i AND (push_bit bits 1 - 1));
                 generation = drop_bit bits i
             in if slot < length (map_generations cfg) \<and> map_generations cfg ! slot = generation
                then Some slot else None)"

text \<open>\<open>slice.get(i)\<close>\<close>

definition nth_opt :: "'a list \<Rightarrow> nat \<Rightarrow> 'a option" where
  "nth_opt xs i = (if i < length xs then Some (xs ! i) else None)"

definition known_value :: "reg_state \<Rightarrow> u64 option" where
  "known_value r = (case rs_scalar r of Some s \<Rightarrow> sc_value s | None \<Rightarrow> None)"

definition u32_try_from :: "u64 \<Rightarrow> u32 option" where
  "u32_try_from v = (if v \<le> ucast u32_MAX then Some (ucast v) else None)"

definition min_u32 :: "u32 list \<Rightarrow> u32 option" where
  "min_u32 xs = (case xs of [] \<Rightarrow> None | y # ys \<Rightarrow> Some (fold min ys y))"

definition map_lookup_value_size :: "reg_state \<Rightarrow> verify_config \<Rightarrow> u64 + u32" where
  "map_lookup_value_size map_id_reg cfg =
     (let table = map_value_sizes cfg
      in if table = [] then Inr (map_value_size cfg)
         else case known_value map_id_reg of
             Some h \<Rightarrow>
               res_bind (ok_or (map_handle_slot h cfg) h) (\<lambda>index.
                 if nth_opt (map_perms cfg) index \<in> {Some MapUnavailable, Some MapWriteOnly} then Inl h
                 else ok_or (nth_opt table index) h)
           | None \<Rightarrow>
               if map_generations cfg \<noteq> []
                  \<or> list_ex (\<lambda>p. p \<in> {MapUnavailable, MapWriteOnly}) (map_perms cfg)
               then Inl u64_MAX
               else Inr (case min_u32 table of Some m \<Rightarrow> m | None \<Rightarrow> 0))"

definition map_lookup_writability :: "reg_state \<Rightarrow> verify_config \<Rightarrow> map_writability" where
  "map_lookup_writability map_id_reg cfg =
     (let known_id = Option.bind (known_value map_id_reg) u32_try_from
      in if map_perms cfg = [] then ReadWrite known_id
         else case known_id of
             None \<Rightarrow> Unprovable
           | Some i \<Rightarrow>
               (case Option.bind (map_handle_slot (ucast i) cfg) (nth_opt (map_perms cfg)) of
                  None \<Rightarrow> Unprovable
                | Some perm \<Rightarrow>
                    (case perm of
                       MapUnavailable \<Rightarrow> Unprovable
                     | MapReadOnly \<Rightarrow> ReadOnly i
                     | MapWriteOnly \<Rightarrow> ReadWrite (Some i)
                     | MapReadWrite \<Rightarrow> ReadWrite (Some i))))"

definition check_map_write_writability :: "map_writability \<Rightarrow> nat \<Rightarrow> verify_error + unit" where
  "check_map_write_writability w idx =
     (case w of
        ReadWrite _ \<Rightarrow> Inr ()
      | ReadOnly map_id \<Rightarrow> Inl (WriteToReadOnlyMap idx map_id)
      | Unprovable \<Rightarrow> Inl (WriteMapNotProvablyWritable idx))"

definition mutating_helper_map_arg :: "helper_id \<Rightarrow> register option" where
  "mutating_helper_map_arg h =
     (if h \<in> {MapUpdateElem, MapDeleteElem, RingbufOutput, TimeseriesPush} then Some R1 else None)"

definition referenced_map_helper_arg :: "helper_id \<Rightarrow> register option" where
  "referenced_map_helper_arg h =
     (if h \<in> {MapLookupElem, MapUpdateElem, MapDeleteElem, RingbufOutput, TimeseriesPush}
      then Some R1 else None)"

section \<open>Facts about the registry and the policy\<close>

lemma helper_from_raw_raw [simp]: "helper_from_raw (helper_raw h) = Some h"
  by (cases h) (simp_all add: helper_from_raw_def)

lemma helper_from_raw_Some: "helper_from_raw r = Some h \<longleftrightarrow> r = helper_raw h"
proof
  show "helper_from_raw r = Some h \<Longrightarrow> r = helper_raw h"
    unfolding helper_from_raw_def by (auto split: if_splits)
qed simp

lemma helper_signature_id [simp]: "sig_id (helper_signature h) = h"
  by (cases h) (simp_all add: helper_signature_def signature_new_def with_min_tier_def
      requiring_actuation_def with_logging_effect_def)

lemma helper_signature_arity: "length (sig_args (helper_signature h)) \<le> 5"
  by (cases h) (simp_all add: helper_signature_def signature_new_def with_min_tier_def
      requiring_actuation_def with_logging_effect_def)

lemma get_helper_signature_eq [simp]: "get_helper_signature h = helper_signature h"
  by (simp add: get_helper_signature_def get_helper_descriptor_def)

lemma first_mismatch_None:
  assumes "first_mismatch h i args ts = None" "length args \<le> length ts" "k < length args"
  shows "is_compatible (args ! k) (ts ! k)"
  using assms
  by (induction h i args ts arbitrary: k rule: first_mismatch.induct)
    (auto simp: nth_Cons' split: if_splits)

lemma first_mismatch_not_Valid: "first_mismatch h i args ts \<noteq> Some (HV_Valid sig)"
  by (induction h i args ts rule: first_mismatch.induct) auto

lemma validate_helper_call_Valid:
  assumes "validate_helper_call P raw ts = HV_Valid sig" "length ts = 5"
  obtains h where "raw = helper_raw h" "sig = helper_signature h" "is_available P h"
    "\<And>k. k < length (sig_args sig) \<Longrightarrow> is_compatible (sig_args sig ! k) (ts ! k)"
proof -
  obtain h where h: "helper_from_raw raw = Some h" "is_available P h" "sig = helper_signature h"
    "first_mismatch h 0 (sig_args (helper_signature h)) ts = None"
    using assms(1) first_mismatch_not_Valid
    by (fastforce simp: validate_helper_call_def Let_def split: option.splits if_splits)
  show thesis
  proof (rule that)
    show "raw = helper_raw h" using h(1) by (simp add: helper_from_raw_Some)
    show "is_compatible (sig_args sig ! k) (ts ! k)" if "k < length (sig_args sig)" for k
      using first_mismatch_None [OF h(4)] helper_signature_arity [of h] that h(3) assms(2) by simp
  qed (use h in auto)
qed

text \<open>
  A write permission is granted only for a map whose permission entry allows writing, and only
  to the slot and generation named by the handle.
\<close>

lemma map_lookup_writability_ReadWrite:
  assumes "map_lookup_writability r cfg = ReadWrite i" "map_perms cfg \<noteq> []"
  shows "\<exists>v j slot. known_value r = Some v \<and> u32_try_from v = Some j \<and> i = Some j
    \<and> map_handle_slot (ucast j) cfg = Some slot \<and> slot < length (map_perms cfg)
    \<and> map_perms cfg ! slot \<in> {MapWriteOnly, MapReadWrite}"
  using assms
  by (auto simp: map_lookup_writability_def Let_def nth_opt_def bind_eq_Some_conv
      split: option.splits map_perm.splits if_splits)

lemma map_handle_slot_generation:
  assumes "map_handle_slot h cfg = Some slot" "map_generations cfg \<noteq> []"
  shows "slot < length (map_generations cfg)"
    "map_generations cfg ! slot = drop_bit (unat (map_handle_slot_bits cfg)) (ucast h)"
  using assms by (auto simp: map_handle_slot_def Let_def split: if_splits)

end
