(* ===== verification/Cfg.thy ===== *)
theory Cfg
  imports Bytecode
begin

text \<open>
  The control-flow graph (\<open>verifier/cfg.rs\<close>): leaders, edges, back edges and exit points of a
  program, the compressed successor table built from the edges, and the reachability search.
  The \<open>u32\<close> entries of the table are natural numbers here: they are at most the number of edges and
  the program length, which the profiles keep far below \<open>2 ^ 32\<close>. The lemmas show that the table lists exactly the edges, in order, and that the search computes
  reachability.
\<close>

record cfg =
  insn_count :: nat
  leaders :: "nat set"
  edges :: "(nat \<times> nat) list"
  succ_offsets :: "nat list"
  succ_targets :: "nat list"
  back_edges :: "(nat \<times> nat) list"
  exit_points :: "nat list"

definition compute_jump_target :: "nat \<Rightarrow> i16 \<Rightarrow> nat option" where
  "compute_jump_target idx off =
     (let target = int idx + 1 + sint off in if 0 \<le> target then Some (nat target) else None)"

definition push_edge :: "nat \<Rightarrow> nat \<Rightarrow> cfg \<Rightarrow> cfg" where
  "push_edge f t c = c\<lparr>edges := edges c @ [(f, t)]\<rparr>"

definition add_leader :: "nat \<Rightarrow> cfg \<Rightarrow> cfg" where
  "add_leader t c = c\<lparr>leaders := insert t (leaders c)\<rparr>"

text \<open>The body of the first pass, for the instruction at \<open>idx\<close> of a program of length \<open>n\<close>.\<close>

definition cfg_visit :: "nat \<Rightarrow> nat \<Rightarrow> bpf_insn \<Rightarrow> cfg \<Rightarrow> cfg" where
  "cfg_visit n idx insn c =
     (if is_exit insn then c\<lparr>exit_points := exit_points c @ [idx]\<rparr>
      else if is_call insn then (if idx + 1 < n then push_edge idx (idx + 1) c else c)
      else case insn_jmp_op insn of
          Some jmp_op \<Rightarrow>
            let target = compute_jump_target idx (insn_offset insn)
            in if is_unconditional jmp_op then
                 (case target of
                    Some t \<Rightarrow> if t < n then add_leader t (push_edge idx t c) else c
                  | None \<Rightarrow> c)
               else if is_conditional jmp_op then
                 let c = (if idx + 1 < n then add_leader (idx + 1) (push_edge idx (idx + 1) c) else c)
                 in (case target of
                       Some t \<Rightarrow> if t < n then add_leader t (push_edge idx t c) else c
                     | None \<Rightarrow> c)
               else c
        | None \<Rightarrow>
            if is_wide insn then (if idx + 2 < n then push_edge idx (idx + 2) c else c)
            else (if idx + 1 < n then push_edge idx (idx + 1) c else c))"

definition identify_back_edges :: "cfg \<Rightarrow> cfg" where
  "identify_back_edges c = c\<lparr>back_edges := back_edges c @ filter (\<lambda>(f, t). t \<le> f) (edges c)\<rparr>"

definition csr_degree :: "nat \<Rightarrow> (nat \<times> nat) list \<Rightarrow> nat list" where
  "csr_degree n es =
     fold (\<lambda>(f, _) d. if f < n then d[f := d ! f + 1] else d) es (replicate n 0)"

definition csr_offsets :: "nat \<Rightarrow> nat list \<Rightarrow> nat list" where
  "csr_offsets n degree =
     fold (\<lambda>i offs. offs[i + 1 := offs ! i + degree ! i]) [0..<n] (replicate (n + 1) 0)"

definition csr_scatter :: "nat \<Rightarrow> nat \<times> nat \<Rightarrow> nat list \<times> nat list \<Rightarrow> nat list \<times> nat list" where
  "csr_scatter n = (\<lambda>(f, t) (targets, cursor).
     if f < n then (targets[cursor ! f := t], cursor[f := cursor ! f + 1]) else (targets, cursor))"

definition build_adjacency :: "cfg \<Rightarrow> cfg" where
  "build_adjacency c =
     (let n = insn_count c;
          degree = csr_degree n (edges c);
          offsets = csr_offsets n degree;
          targets = replicate (length (edges c)) 0;
          (targets, _) = fold (csr_scatter n) (edges c) (targets, offsets)
      in c\<lparr>succ_offsets := offsets, succ_targets := targets\<rparr>)"

definition cfg_empty :: "nat \<Rightarrow> cfg" where
  "cfg_empty n = \<lparr>insn_count = n, leaders = {}, edges = [], succ_offsets = [], succ_targets = [],
     back_edges = [], exit_points = []\<rparr>"

definition cfg_build :: "bpf_insn list \<Rightarrow> cfg" where
  "cfg_build insns =
     (let c = cfg_empty (length insns)
      in if insns = [] then c
         else
           let c = add_leader 0 c;
               c = fold (\<lambda>(idx, insn). cfg_visit (length insns) idx insn) (enumerate 0 insns) c;
               c = identify_back_edges c
           in build_adjacency c)"

definition is_leader :: "cfg \<Rightarrow> nat \<Rightarrow> bool" where
  "is_leader c idx \<longleftrightarrow> idx \<in> leaders c"

definition successors :: "cfg \<Rightarrow> nat \<Rightarrow> nat list" where
  "successors c idx =
     (let (lo, hi) = (if idx + 1 < length (succ_offsets c)
                      then (succ_offsets c ! idx, succ_offsets c ! (idx + 1)) else (0, 0))
      in take (hi - lo) (drop lo (succ_targets c)))"

definition predecessors :: "cfg \<Rightarrow> nat \<Rightarrow> nat list" where
  "predecessors c idx = map fst (filter (\<lambda>(_, t). t = idx) (edges c))"

definition has_loops :: "cfg \<Rightarrow> bool" where
  "has_loops c \<longleftrightarrow> back_edges c \<noteq> []"

text \<open>The search of \<open>reachable_instructions\<close>: the visited set and the queue are the loop state.\<close>

function bfs :: "cfg \<Rightarrow> nat set \<Rightarrow> nat list \<Rightarrow> nat set" where
  "bfs c visited [] = visited"
| "bfs c visited (current # queue) =
     (if current \<in> visited then bfs c visited queue
      else
        let visited' = insert current visited
        in bfs c visited' (queue @ filter (\<lambda>s. s \<notin> visited') (successors c current)))"
  by pat_completeness auto

lemma successors_subset: "set (successors c i) \<subseteq> set (succ_targets c)"
  by (auto simp: successors_def Let_def dest!: in_set_takeD in_set_dropD)

termination bfs
proof (relation "measures [\<lambda>(c, visited, queue). card ((set queue \<union> set (succ_targets c)) - visited),
    \<lambda>(c, visited, queue). length queue]", goal_cases)
  case 1
  then show ?case by simp
next
  case (2 c visited current queue)
  let ?A = "set (current # queue) \<union> set (succ_targets c) - visited"
  let ?B = "set queue \<union> set (succ_targets c) - visited"
  have "card ?B \<le> card ?A" by (intro card_mono) auto
  then show ?case by auto
next
  case (3 c visited current queue visited')
  let ?q = "queue @ filter (\<lambda>s. s \<notin> visited') (successors c current)"
  have "set ?q \<union> set (succ_targets c) - visited' \<subset> set (current # queue) \<union> set (succ_targets c) - visited"
    using 3 successors_subset [of c current] by auto
  then have "card (set ?q \<union> set (succ_targets c) - visited')
      < card (set (current # queue) \<union> set (succ_targets c) - visited)"
    by (intro psubset_card_mono) auto
  then show ?case using 3 by simp
qed

definition reachable_instructions :: "cfg \<Rightarrow> nat set" where
  "reachable_instructions c = bfs c {} [0]"

section \<open>The successor table\<close>

text \<open>The reference: the targets of the edges that leave an instruction, in edge order.\<close>

definition edge_succs :: "(nat \<times> nat) list \<Rightarrow> nat \<Rightarrow> nat list" where
  "edge_succs es i = map snd (filter (\<lambda>(f, _). f = i) es)"

lemma edge_succs_simps [simp]:
  "edge_succs [] i = []"
  "edge_succs (e # es) i = (if fst e = i then snd e # edge_succs es i else edge_succs es i)"
  by (auto simp: edge_succs_def split: prod.splits)

lemma edge_succs_append [simp]: "edge_succs (xs @ ys) i = edge_succs xs i @ edge_succs ys i"
  by (simp add: edge_succs_def)

lemma in_edge_succs: "j \<in> set (edge_succs es i) \<longleftrightarrow> (i, j) \<in> set es"
  by (auto simp: edge_succs_def image_iff)

lemma csr_degree_fold:
  assumes "length d = n" "\<forall>(f, t) \<in> set es. f < n" "i < n"
  shows "fold (\<lambda>(f, _) d. if f < n then d[f := d ! f + 1] else d) es d ! i
    = d ! i + length (edge_succs es i)"
  using assms
proof (induction es arbitrary: d)
  case (Cons e es)
  then show ?case by (cases e) (auto simp: nth_list_update)
qed simp

lemma csr_degree_nth:
  assumes "\<forall>(f, t) \<in> set es. f < n" "i < n"
  shows "csr_degree n es ! i = length (edge_succs es i)"
  using csr_degree_fold [of "replicate n 0" n es i] assms by (simp add: csr_degree_def)

lemma csr_offsets_upto:
  assumes "m \<le> n"
  shows "length (fold (\<lambda>i offs. offs[i + 1 := offs ! i + degree ! i]) [0..<m] (replicate (n + 1) 0)) = n + 1
    \<and> (\<forall>i \<le> n. fold (\<lambda>i offs. offs[i + 1 := offs ! i + degree ! i]) [0..<m] (replicate (n + 1) 0) ! i
        = (if i \<le> m then (\<Sum>j<i. degree ! j) else 0))"
  using assms
proof (induction m)
  case (Suc m)
  let ?o = "fold (\<lambda>i offs. offs[i + 1 := offs ! i + degree ! i]) [0..<m] (replicate (n + 1) 0)"
  have "length ?o = n + 1" "\<forall>i \<le> n. ?o ! i = (if i \<le> m then (\<Sum>j<i. degree ! j) else 0)"
    using Suc by auto
  then show ?case using Suc.prems by (auto simp: nth_list_update le_Suc_eq)
qed (auto simp: nth_Cons' simp del: replicate.simps)

lemma csr_offsets_nth:
  "length (csr_offsets n degree) = n + 1"
  "i \<le> n \<Longrightarrow> csr_offsets n degree ! i = (\<Sum>j<i. degree ! j)"
  using csr_offsets_upto [of n n degree] by (auto simp: csr_offsets_def)

definition csr_base :: "(nat \<times> nat) list \<Rightarrow> nat \<Rightarrow> nat" where
  "csr_base es i = (\<Sum>j<i. length (edge_succs es j))"

lemma csr_base_Suc: "csr_base es (Suc i) = csr_base es i + length (edge_succs es i)"
  by (simp add: csr_base_def)

lemma csr_base_mono: "i \<le> j \<Longrightarrow> csr_base es i \<le> csr_base es j"
  unfolding csr_base_def by (intro sum_mono2) auto

lemma sum_edge_succs:
  "\<forall>(f, t) \<in> set es. f < n \<Longrightarrow> (\<Sum>j<n. length (edge_succs es j)) = length es"
proof (induction es)
  case (Cons e es)
  have "(\<Sum>j<n. length (edge_succs (e # es) j)) = (\<Sum>j<n. length (edge_succs es j) + (if j = fst e then 1 else 0))"
    by (intro sum.cong) auto
  also have "\<dots> = length es + 1" using Cons by (auto simp: sum.distrib)
  finally show ?case by simp
qed simp

lemma csr_base_total: "\<forall>(f, t) \<in> set es. f < n \<Longrightarrow> csr_base es n = length es"
  unfolding csr_base_def by (rule sum_edge_succs)

lemma csr_slot_disjoint:
  assumes "k < length (edge_succs es f)" "k' < length (edge_succs es f')" "f \<noteq> f'"
  shows "csr_base es f + k \<noteq> csr_base es f' + k'"
proof (cases "f < f'")
  case True
  then have "csr_base es (Suc f) \<le> csr_base es f'" by (intro csr_base_mono) simp
  then show ?thesis using assms by (simp add: csr_base_Suc)
next
  case False
  then have "csr_base es (Suc f') \<le> csr_base es f" using assms by (intro csr_base_mono) simp
  then show ?thesis using assms by (simp add: csr_base_Suc)
qed

text \<open>What the scatter loop maintains after the edges \<open>xs\<close> of \<open>es\<close> have been placed.\<close>

definition csr_inv :: "nat \<Rightarrow> (nat \<times> nat) list \<Rightarrow> (nat \<times> nat) list \<Rightarrow> nat list \<times> nat list \<Rightarrow> bool" where
  "csr_inv n es xs = (\<lambda>(targets, cursor).
     length targets = length es \<and> length cursor = n + 1
     \<and> (\<forall>f<n. cursor ! f = csr_base es f + length (edge_succs xs f)
          \<and> (\<forall>k<length (edge_succs xs f). targets ! (csr_base es f + k) = edge_succs xs f ! k)))"

lemma csr_inv_step:
  assumes inv: "csr_inv n es xs (targets, cursor)" and es: "es = xs @ (f, t) # ys"
    and bounds: "\<forall>(f, t) \<in> set es. f < n"
  shows "csr_inv n es (xs @ [(f, t)]) (csr_scatter n (f, t) (targets, cursor))"
proof -
  let ?m = "length (edge_succs xs f)"
  have f: "f < n" using bounds es by auto
  have m: "?m < length (edge_succs es f)" using es by simp
  have pos: "csr_base es f + ?m < length targets"
  proof -
    have "csr_base es f + ?m < csr_base es (Suc f)" using m by (simp add: csr_base_Suc)
    also have "\<dots> \<le> csr_base es n" using f by (intro csr_base_mono) simp
    also have "\<dots> = length targets" using csr_base_total [OF bounds] inv by (simp add: csr_inv_def)
    finally show ?thesis .
  qed
  have le: "length (edge_succs xs g) \<le> length (edge_succs es g)" for g using es by simp
  have other: "csr_base es f + ?m \<noteq> csr_base es g + k"
    if "k < length (edge_succs xs g)" for g k
    using that csr_slot_disjoint [OF m, of k g] le [of g] by (cases "g = f") auto
  show ?thesis
    using inv f pos other
    by (auto simp: csr_inv_def csr_scatter_def nth_append nth_list_update less_Suc_eq)
qed

lemma csr_inv_fold:
  assumes "csr_inv n es xs tc" "es = xs @ ys" "\<forall>(f, t) \<in> set es. f < n"
  shows "csr_inv n es es (fold (csr_scatter n) ys tc)"
  using assms
proof (induction ys arbitrary: xs tc)
  case (Cons e ys)
  obtain f t targets cursor where [simp]: "e = (f, t)" "tc = (targets, cursor)" by fastforce
  show ?case
    using Cons.IH [of "xs @ [(f, t)]" "csr_scatter n (f, t) (targets, cursor)"]
      csr_inv_step [of n es xs targets cursor f t ys] Cons.prems by simp
qed simp

lemma successors_build_adjacency:
  assumes bounds: "\<forall>(f, t) \<in> set (edges c). f < insn_count c"
  shows "successors (build_adjacency c) i = edge_succs (edges c) i"
proof -
  let ?es = "edges c" and ?n = "insn_count c"
  let ?offs = "csr_offsets ?n (csr_degree ?n ?es)"
  have offs: "?offs ! j = csr_base ?es j" if "j \<le> ?n" for j
    using that bounds by (simp add: csr_offsets_nth csr_base_def csr_degree_nth)
  have "csr_inv ?n ?es [] (replicate (length ?es) 0, ?offs)"
    using offs by (simp add: csr_inv_def csr_offsets_nth)
  then have inv: "csr_inv ?n ?es ?es (fold (csr_scatter ?n) ?es (replicate (length ?es) 0, ?offs))"
    using bounds by (intro csr_inv_fold) auto
  obtain targets cursor where
    tc: "fold (csr_scatter ?n) ?es (replicate (length ?es) 0, ?offs) = (targets, cursor)" by fastforce
  have b: "succ_offsets (build_adjacency c) = ?offs" "succ_targets (build_adjacency c) = targets"
    by (simp_all add: build_adjacency_def Let_def tc)
  show ?thesis
  proof (cases "i < ?n")
    case True
    have len: "csr_base ?es (Suc i) \<le> length targets"
      using inv True csr_base_mono [of "Suc i" ?n ?es] csr_base_total [OF bounds]
      by (simp add: csr_inv_def tc)
    have "take (length (edge_succs ?es i)) (drop (csr_base ?es i) targets) = edge_succs ?es i"
    proof (rule nth_equalityI)
      show "length (take (length (edge_succs ?es i)) (drop (csr_base ?es i) targets)) = length (edge_succs ?es i)"
        using len by (simp add: csr_base_Suc)
    qed (use inv True len in \<open>auto simp: csr_inv_def tc csr_base_Suc\<close>)
    then show ?thesis
      using True by (simp add: successors_def b csr_offsets_nth(1) offs csr_base_Suc)
  next
    case False
    then have "edge_succs ?es i = []"
      using bounds by (auto simp: edge_succs_def filter_empty_conv)
    then show ?thesis using False by (simp add: successors_def b csr_offsets_nth(1))
  qed
qed

section \<open>The edges of a program\<close>

text \<open>The edges one instruction contributes.\<close>

definition insn_succs :: "nat \<Rightarrow> nat \<Rightarrow> bpf_insn \<Rightarrow> nat list" where
  "insn_succs n idx insn =
     (if is_exit insn then []
      else if is_call insn then filter (\<lambda>t. t < n) [idx + 1]
      else case insn_jmp_op insn of
          Some jmp_op \<Rightarrow>
            let target = (case compute_jump_target idx (insn_offset insn) of Some t \<Rightarrow> [t] | None \<Rightarrow> [])
            in if is_unconditional jmp_op then filter (\<lambda>t. t < n) target
               else if is_conditional jmp_op then filter (\<lambda>t. t < n) ((idx + 1) # target)
               else []
        | None \<Rightarrow> filter (\<lambda>t. t < n) [if is_wide insn then idx + 2 else idx + 1])"

lemma cfg_visit_edges:
  "edges (cfg_visit n idx insn c) = edges c @ map (Pair idx) (insn_succs n idx insn)"
  by (auto simp: cfg_visit_def insn_succs_def push_edge_def add_leader_def Let_def split: option.splits)

lemma cfg_visit_insn_count [simp]: "insn_count (cfg_visit n idx insn c) = insn_count c"
  by (auto simp: cfg_visit_def push_edge_def add_leader_def Let_def split: option.splits)

lemma cfg_visit_back_edges [simp]: "back_edges (cfg_visit n idx insn c) = back_edges c"
  by (auto simp: cfg_visit_def push_edge_def add_leader_def Let_def split: option.splits)

lemma cfg_fold_edges:
  "edges (fold (\<lambda>(idx, insn). cfg_visit n idx insn) xs c)
     = edges c @ concat (map (\<lambda>(idx, insn). map (Pair idx) (insn_succs n idx insn)) xs)"
  "insn_count (fold (\<lambda>(idx, insn). cfg_visit n idx insn) xs c) = insn_count c"
  "back_edges (fold (\<lambda>(idx, insn). cfg_visit n idx insn) xs c) = back_edges c"
  by (induction xs arbitrary: c) (auto simp: cfg_visit_edges)

lemma build_adjacency_sel [simp]:
  "edges (build_adjacency c) = edges c" "back_edges (build_adjacency c) = back_edges c"
  "insn_count (build_adjacency c) = insn_count c" "exit_points (build_adjacency c) = exit_points c"
  "leaders (build_adjacency c) = leaders c"
  by (simp_all add: build_adjacency_def Let_def split_beta)

lemma cfg_build_edges:
  "edges (cfg_build insns) =
     concat (map (\<lambda>(idx, insn). map (Pair idx) (insn_succs (length insns) idx insn)) (enumerate 0 insns))"
  by (simp add: cfg_build_def Let_def identify_back_edges_def cfg_fold_edges add_leader_def cfg_empty_def)

lemma cfg_build_back_edges:
  "back_edges (cfg_build insns) = filter (\<lambda>(f, t). t \<le> f) (edges (cfg_build insns))"
  by (simp add: cfg_build_def Let_def identify_back_edges_def cfg_fold_edges add_leader_def cfg_empty_def)

lemma cfg_build_insn_count [simp]: "insn_count (cfg_build insns) = length insns"
  by (simp add: cfg_build_def Let_def identify_back_edges_def cfg_fold_edges add_leader_def cfg_empty_def)

lemma cfg_build_edge_iff:
  "(i, j) \<in> set (edges (cfg_build insns)) \<longleftrightarrow>
     i < length insns \<and> j \<in> set (insn_succs (length insns) i (insns ! i))"
  by (force simp: cfg_build_edges in_set_enumerate_eq)

lemma insn_succs_less: "j \<in> set (insn_succs n i insn) \<Longrightarrow> j < n"
  by (auto simp: insn_succs_def Let_def split: option.splits if_splits)

lemma cfg_build_edge_bounds: "(i, j) \<in> set (edges (cfg_build insns)) \<Longrightarrow> i < length insns \<and> j < length insns"
  using cfg_build_edge_iff insn_succs_less by blast

lemma concat_enumerate_succs:
  "edge_succs (concat (map (\<lambda>(idx, insn). map (Pair idx) (g idx insn)) (enumerate m xs))) i
     = (if m \<le> i \<and> i < m + length xs then g i (xs ! (i - m)) else [])"
proof (induction xs arbitrary: m)
  case (Cons x xs)
  have same: "edge_succs (map (Pair j) ts) i = (if j = i then ts else [])" for j ts
    by (induction ts) auto
  show ?case using Cons.IH [of "Suc m"] by (auto simp: same nth_Cons' Suc_diff_le split: if_splits)
qed auto

lemma edge_succs_build:
  "i < length insns \<Longrightarrow>
     edge_succs (edges (cfg_build insns)) i = insn_succs (length insns) i (insns ! i)"
  unfolding cfg_build_edges concat_enumerate_succs by simp

lemma successors_cfg_build:
  "successors (cfg_build insns) i =
     (if i < length insns then insn_succs (length insns) i (insns ! i) else [])"
proof (cases "insns = []")
  case True
  then show ?thesis by (simp add: cfg_build_def Let_def successors_def cfg_empty_def)
next
  case False
  let ?c = "identify_back_edges (fold (\<lambda>(idx, insn). cfg_visit (length insns) idx insn)
      (enumerate 0 insns) (add_leader 0 (cfg_empty (length insns))))"
  have c: "cfg_build insns = build_adjacency ?c"
    using False by (simp add: cfg_build_def Let_def)
  have e: "edges ?c = edges (cfg_build insns)" "insn_count ?c = length insns"
    unfolding c build_adjacency_sel
    by (simp_all add: identify_back_edges_def cfg_fold_edges add_leader_def cfg_empty_def)
  have "successors (cfg_build insns) i = edge_succs (edges (cfg_build insns)) i"
    unfolding c e(1) [symmetric, unfolded c] build_adjacency_sel
    using cfg_build_edge_bounds [of _ _ insns] e by (intro successors_build_adjacency) auto
  moreover have "edge_succs (edges (cfg_build insns)) i = []" if "\<not> i < length insns"
    using that cfg_build_edge_bounds [of i _ insns] in_edge_succs [of _ "edges (cfg_build insns)" i]
    by (metis last_in_set)
  ultimately show ?thesis using edge_succs_build [of i insns] by simp
qed

section \<open>Reachability\<close>

definition cfg_rel :: "cfg \<Rightarrow> (nat \<times> nat) set" where
  "cfg_rel c = {(i, j). j \<in> set (successors c i)}"

lemma bfs_sound:
  assumes "\<forall>v \<in> visited. (0, v) \<in> (cfg_rel c)\<^sup>*" "\<forall>v \<in> set queue. (0, v) \<in> (cfg_rel c)\<^sup>*"
  shows "\<forall>v \<in> bfs c visited queue. (0, v) \<in> (cfg_rel c)\<^sup>*"
  using assms
proof (induction c visited queue rule: bfs.induct)
  case (2 c visited current queue)
  show ?case
  proof (cases "current \<in> visited")
    case False
    have "(0, s) \<in> (cfg_rel c)\<^sup>*" if "s \<in> set (successors c current)" for s
      using that 2(4) by (auto simp: cfg_rel_def intro: rtrancl_into_rtrancl)
    then have q: "\<forall>v \<in> set (queue @ filter (\<lambda>s. s \<notin> insert current visited) (successors c current)).
        (0, v) \<in> (cfg_rel c)\<^sup>*"
      using 2(4) by auto
    have v: "\<forall>v \<in> insert current visited. (0, v) \<in> (cfg_rel c)\<^sup>*" using 2(3,4) by simp
    show ?thesis using 2(2) [OF False refl v q] False by (simp add: Let_def)
  next
    case True
    then show ?thesis using 2(1) [OF True 2(3)] 2(4) by simp
  qed
qed simp

lemma bfs_closed:
  assumes "\<forall>v \<in> visited. set (successors c v) \<subseteq> visited \<union> set queue"
  shows "visited \<union> set queue \<subseteq> bfs c visited queue
    \<and> (\<forall>v \<in> bfs c visited queue. set (successors c v) \<subseteq> bfs c visited queue)"
  using assms
proof (induction c visited queue rule: bfs.induct)
  case (2 c visited current queue)
  show ?case
  proof (cases "current \<in> visited")
    case True
    have "\<forall>v \<in> visited. set (successors c v) \<subseteq> visited \<union> set queue" using 2(3) True by auto
    from 2(1) [OF True this] show ?thesis using True by simp blast
  next
    case False
    have "\<forall>v \<in> insert current visited. set (successors c v) \<subseteq> insert current visited \<union>
        set (queue @ filter (\<lambda>s. s \<notin> insert current visited) (successors c current))"
      using 2(3) by auto
    note IH = 2(2) [OF False refl this]
    have "bfs c visited (current # queue) = bfs c (insert current visited)
        (queue @ filter (\<lambda>s. s \<notin> insert current visited) (successors c current))"
      using False by (simp add: Let_def)
    then show ?thesis using IH by (simp only:) auto
  qed
qed simp

lemma reachable_instructions_eq: "reachable_instructions c = {v. (0, v) \<in> (cfg_rel c)\<^sup>*}"
proof -
  have sound: "\<forall>v \<in> reachable_instructions c. (0, v) \<in> (cfg_rel c)\<^sup>*"
    unfolding reachable_instructions_def by (rule bfs_sound) auto
  have zero: "0 \<in> reachable_instructions c"
    and closed: "\<forall>v \<in> reachable_instructions c. set (successors c v) \<subseteq> reachable_instructions c"
    using bfs_closed [of "{}" c "[0]"] by (auto simp: reachable_instructions_def)
  have "v \<in> reachable_instructions c" if "(0, v) \<in> (cfg_rel c)\<^sup>*" for v
    using that by (induction rule: rtrancl_induct) (use zero closed in \<open>auto simp: cfg_rel_def\<close>)
  with sound show ?thesis by auto
qed

text \<open>A program whose control-flow graph has no back edge only moves forward.\<close>

lemma no_loops_forward:
  assumes "\<not> has_loops (cfg_build insns)" "j \<in> set (successors (cfg_build insns) i)"
  shows "i < j"
proof -
  have "(i, j) \<in> set (edges (cfg_build insns))"
    using assms(2) by (auto simp: successors_cfg_build cfg_build_edge_iff split: if_splits)
  then show ?thesis
    using assms(1) by (auto simp: has_loops_def cfg_build_back_edges filter_empty_conv not_le)
qed

end
