(* ===== verification/Liveness.thy ===== *)
theory Liveness
  imports Cfg "HOL-Library.While_Combinator"
begin

text \<open>
  Register liveness (\<open>verifier/liveness.rs\<close>): the \<open>u16\<close> bit sets \<open>RegSet\<close>, the use and definition
  sets of an instruction, and the backwards fixpoint. The lemmas show that the fixpoint loop ends
  on every program and that its result solves the dataflow equations, which is what the state
  pruner relies on when it ignores dead registers.
\<close>

section \<open>Register sets\<close>

type_synonym reg_set = "16 word"

definition regset_EMPTY :: reg_set where "regset_EMPTY = 0"

definition regset_ALL :: reg_set where "regset_ALL = push_bit 11 1 - 1"

definition regset_insert :: "register \<Rightarrow> reg_set \<Rightarrow> reg_set" where
  "regset_insert r s = s OR push_bit (register_as_raw r) 1"

definition regset_remove :: "register \<Rightarrow> reg_set \<Rightarrow> reg_set" where
  "regset_remove r s = s AND NOT (push_bit (register_as_raw r) 1)"

definition regset_contains :: "reg_set \<Rightarrow> register \<Rightarrow> bool" where
  "regset_contains s r \<longleftrightarrow> s AND push_bit (register_as_raw r) 1 \<noteq> 0"

definition regset_union :: "reg_set \<Rightarrow> reg_set \<Rightarrow> reg_set" where
  "regset_union a b = a OR b"

definition regset_difference :: "reg_set \<Rightarrow> reg_set \<Rightarrow> reg_set" where
  "regset_difference a b = a AND NOT b"

definition regset_intersection :: "reg_set \<Rightarrow> reg_set \<Rightarrow> reg_set" where
  "regset_intersection a b = a AND b"

definition regset_is_empty :: "reg_set \<Rightarrow> bool" where
  "regset_is_empty s \<longleftrightarrow> s = 0"

section \<open>Use and definition sets\<close>

record use_def =
  uses :: reg_set
  defs :: reg_set

definition use_reg :: "register \<Rightarrow> use_def \<Rightarrow> use_def" where
  "use_reg r ud = ud\<lparr>uses := regset_insert r (uses ud)\<rparr>"

definition def_reg :: "register \<Rightarrow> use_def \<Rightarrow> use_def" where
  "def_reg r ud = ud\<lparr>defs := regset_insert r (defs ud)\<rparr>"

definition if_some :: "'a option \<Rightarrow> ('a \<Rightarrow> 'b \<Rightarrow> 'b) \<Rightarrow> 'b \<Rightarrow> 'b" where
  "if_some m f x = (case m of Some a \<Rightarrow> f a x | None \<Rightarrow> x)"

definition use_def_of :: "bpf_insn \<Rightarrow> use_def" where
  "use_def_of insn =
     (let ud = \<lparr>uses = regset_EMPTY, defs = regset_EMPTY\<rparr>
      in if is_exit insn then use_reg R0 ud
         else if is_call insn then
           def_reg R0 (fold (\<lambda>r ud. def_reg r (use_reg r ud)) [R1, R2, R3, R4, R5] ud)
         else
           let dst = insn_dst insn;
               src = insn_src insn;
               reg_src = (if insn_source_type insn = Src_Reg then src else None)
           in case insn_class insn of
                Some c \<Rightarrow>
                  (case c of
                     Alu32 \<Rightarrow> if_some reg_src use_reg (if_some dst (\<lambda>d ud. use_reg d (def_reg d ud)) ud)
                   | Alu64 \<Rightarrow> if_some reg_src use_reg (if_some dst (\<lambda>d ud. use_reg d (def_reg d ud)) ud)
                   | Jmp \<Rightarrow> if_some reg_src use_reg (if_some dst use_reg ud)
                   | Jmp32 \<Rightarrow> if_some reg_src use_reg (if_some dst use_reg ud)
                   | Ld \<Rightarrow> if_some dst def_reg ud
                   | Ldx \<Rightarrow> if_some src use_reg (if_some dst def_reg ud)
                   | St \<Rightarrow> if_some dst use_reg ud
                   | Stx \<Rightarrow> if_some src use_reg (if_some dst use_reg ud))
              | None \<Rightarrow> ud\<lparr>uses := regset_ALL\<rparr>)"

section \<open>The fixpoint\<close>

record liveness =
  live_in_sets :: "reg_set list"
  live_out_sets :: "reg_set list"

text \<open>One visit of instruction \<open>i\<close>: the loop body of the backwards sweep, with the flag \<open>changed\<close>.\<close>

definition live_visit :: "use_def list \<Rightarrow> cfg \<Rightarrow> nat \<Rightarrow> bool \<times> liveness \<Rightarrow> bool \<times> liveness" where
  "live_visit ud c i = (\<lambda>(changed, l).
     let new_out = fold (\<lambda>s acc. regset_union acc (live_in_sets l ! s)) (successors c i) regset_EMPTY;
         new_in = regset_union (uses (ud ! i)) (regset_difference new_out (defs (ud ! i)));
         (changed, l) = (if new_out \<noteq> live_out_sets l ! i
                         then (True, l\<lparr>live_out_sets := (live_out_sets l)[i := new_out]\<rparr>)
                         else (changed, l));
         (changed, l) = (if new_in \<noteq> live_in_sets l ! i
                         then (True, l\<lparr>live_in_sets := (live_in_sets l)[i := new_in]\<rparr>)
                         else (changed, l))
     in (changed, l))"

definition live_round :: "use_def list \<Rightarrow> cfg \<Rightarrow> nat \<Rightarrow> liveness \<Rightarrow> bool \<times> liveness" where
  "live_round ud c n l = fold (live_visit ud c) (rev [0..<n]) (False, l)"

definition live_init :: "nat \<Rightarrow> bool \<times> liveness" where
  "live_init n =
     (True, \<lparr>live_in_sets = replicate n regset_EMPTY, live_out_sets = replicate n regset_EMPTY\<rparr>)"

definition liveness_analyze :: "bpf_insn list \<Rightarrow> cfg \<Rightarrow> liveness" where
  "liveness_analyze insns c =
     (let n = length insns
      in if n = 0 then snd (live_init 0)
         else
           let ud = map use_def_of insns
           in snd (while fst (\<lambda>(changed, l). live_round ud c n l) (live_init n)))"

definition live_in :: "liveness \<Rightarrow> nat \<Rightarrow> reg_set" where
  "live_in l pc = (if pc < length (live_in_sets l) then live_in_sets l ! pc else regset_EMPTY)"

definition live_out :: "liveness \<Rightarrow> nat \<Rightarrow> reg_set" where
  "live_out l pc = (if pc < length (live_out_sets l) then live_out_sets l ! pc else regset_EMPTY)"

section \<open>Facts about register sets\<close>

lemma register_as_raw_less: "register_as_raw r < 11"
  by (cases r) simp_all

lemma register_as_raw_inj [simp]: "register_as_raw r = register_as_raw r' \<longleftrightarrow> r = r'"
  by (cases r; cases r') simp_all

lemma regset_contains_bit: "regset_contains s r \<longleftrightarrow> bit s (register_as_raw r)"
proof -
  have "register_as_raw r < 16" using register_as_raw_less [of r] by simp
  then have "s AND push_bit (register_as_raw r) 1 \<noteq> 0 \<longleftrightarrow> bit s (register_as_raw r)"
    by (metis bit_iff_and_push_bit_not_eq_0)
  then show ?thesis by (simp add: regset_contains_def)
qed

lemma regset_contains_simps [simp]:
  "\<not> regset_contains regset_EMPTY r"
  "regset_contains (regset_union a b) r \<longleftrightarrow> regset_contains a r \<or> regset_contains b r"
  "regset_contains (regset_difference a b) r \<longleftrightarrow> regset_contains a r \<and> \<not> regset_contains b r"
  "regset_contains (regset_intersection a b) r \<longleftrightarrow> regset_contains a r \<and> regset_contains b r"
  using register_as_raw_less [of r]
  by (simp_all add: regset_contains_bit regset_EMPTY_def regset_union_def regset_difference_def
      regset_intersection_def bit_or_iff bit_and_iff bit_not_iff)

lemma regset_contains_insert [simp]:
  "regset_contains (regset_insert r' a) r \<longleftrightarrow> r = r' \<or> regset_contains a r"
  using register_as_raw_less [of r]
  by (auto simp: regset_contains_bit regset_insert_def bit_or_iff bit_exp_iff)

lemma regset_contains_remove [simp]:
  "regset_contains (regset_remove r' a) r \<longleftrightarrow> r \<noteq> r' \<and> regset_contains a r"
  using register_as_raw_less [of r]
  by (auto simp: regset_contains_bit regset_remove_def bit_and_iff bit_not_iff bit_exp_iff)

lemma regset_contains_ALL [simp]: "regset_contains regset_ALL r"
  by (cases r) (simp_all add: regset_contains_def regset_ALL_def)

definition regset_sub :: "reg_set \<Rightarrow> reg_set \<Rightarrow> bool" where
  "regset_sub a b \<longleftrightarrow> (\<forall>n. bit a n \<longrightarrow> bit b n)"

lemma regset_sub_refl [simp]: "regset_sub a a" and regset_sub_0 [simp]: "regset_sub regset_EMPTY a"
  by (simp_all add: regset_sub_def regset_EMPTY_def)

lemma regset_sub_trans: "regset_sub a b \<Longrightarrow> regset_sub b c \<Longrightarrow> regset_sub a c"
  by (simp add: regset_sub_def)

lemma regset_sub_unat:
  assumes "regset_sub a b"
  shows "unat a \<le> unat b" "a \<noteq> b \<Longrightarrow> unat a < unat b"
proof -
  have "b = a OR b" using assms by (auto intro!: bit_word_eqI simp: regset_sub_def bit_or_iff)
  then have "a \<le> b" by (metis le_word_or2)
  then show "unat a \<le> unat b" by (simp add: word_le_nat_alt)
  then show "a \<noteq> b \<Longrightarrow> unat a < unat b" by (metis le_neq_implies_less word_unat_eq_iff)
qed

lemma regset_sub_union: "regset_sub a a' \<Longrightarrow> regset_sub b b' \<Longrightarrow> regset_sub (regset_union a b) (regset_union a' b')"
  by (simp add: regset_sub_def regset_union_def bit_or_iff)

lemma regset_sub_difference: "regset_sub a a' \<Longrightarrow> regset_sub (regset_difference a b) (regset_difference a' b)"
  by (simp add: regset_sub_def regset_difference_def bit_and_iff)

section \<open>The loop ends, and its result solves the equations\<close>

definition out_eq :: "cfg \<Rightarrow> reg_set list \<Rightarrow> nat \<Rightarrow> reg_set" where
  "out_eq c lin i = fold (\<lambda>s acc. regset_union acc (lin ! s)) (successors c i) regset_EMPTY"

definition in_eq :: "use_def list \<Rightarrow> reg_set \<Rightarrow> nat \<Rightarrow> reg_set" where
  "in_eq ud out i = regset_union (uses (ud ! i)) (regset_difference out (defs (ud ! i)))"

lemma fold_union_mono:
  assumes "\<And>s. s \<in> set ss \<Longrightarrow> regset_sub (f s) (g s)" "regset_sub a b"
  shows "regset_sub (fold (\<lambda>s acc. regset_union acc (f s)) ss a) (fold (\<lambda>s acc. regset_union acc (g s)) ss b)"
  using assms by (induction ss arbitrary: a b) (auto simp: regset_sub_union)

lemma fold_union_contains:
  "regset_contains (fold (\<lambda>s acc. regset_union acc (f s)) ss a) r \<longleftrightarrow>
     regset_contains a r \<or> (\<exists>s \<in> set ss. regset_contains (f s) r)"
  by (induction ss arbitrary: a) auto

lemma live_visit_eq:
  assumes "i < length (live_in_sets l)" "i < length (live_out_sets l)"
  shows "snd (live_visit ud c i (ch, l)) =
      l\<lparr>live_in_sets := (live_in_sets l)[i := in_eq ud (out_eq c (live_in_sets l) i) i],
        live_out_sets := (live_out_sets l)[i := out_eq c (live_in_sets l) i]\<rparr>"
    and "fst (live_visit ud c i (ch, l)) \<longleftrightarrow>
      ch \<or> live_out_sets l ! i \<noteq> out_eq c (live_in_sets l) i
      \<or> live_in_sets l ! i \<noteq> in_eq ud (out_eq c (live_in_sets l) i) i"
  using assms
  by (auto simp: live_visit_def Let_def out_eq_def [symmetric] in_eq_def [symmetric])

text \<open>The sweep only grows the sets: each set is below the right-hand side of its equation.\<close>

definition live_inv :: "use_def list \<Rightarrow> cfg \<Rightarrow> nat \<Rightarrow> liveness \<Rightarrow> bool" where
  "live_inv ud c n l \<longleftrightarrow>
     length (live_in_sets l) = n \<and> length (live_out_sets l) = n
     \<and> (\<forall>i<n. regset_sub (live_out_sets l ! i) (out_eq c (live_in_sets l) i)
          \<and> regset_sub (live_in_sets l ! i) (in_eq ud (out_eq c (live_in_sets l) i) i))"

definition live_measure :: "liveness \<Rightarrow> nat" where
  "live_measure l =
     (\<Sum>i<length (live_in_sets l). 65536 - unat (live_in_sets l ! i))
     + (\<Sum>i<length (live_out_sets l). 65536 - unat (live_out_sets l ! i))"

lemma out_eq_mono:
  assumes "\<And>s. s \<in> set (successors c i) \<Longrightarrow> regset_sub (lin ! s) (lin' ! s)"
  shows "regset_sub (out_eq c lin i) (out_eq c lin' i)"
  unfolding out_eq_def using assms by (rule fold_union_mono) simp_all

lemma in_eq_mono: "regset_sub a b \<Longrightarrow> regset_sub (in_eq ud a i) (in_eq ud b i)"
  by (simp add: in_eq_def regset_sub_union regset_sub_difference)

lemma sum_update_le:
  fixes f :: "reg_set \<Rightarrow> nat"
  assumes "i < length xs" "f v \<le> f (xs ! i)"
  shows "(\<Sum>j<length xs. f (xs[i := v] ! j)) \<le> (\<Sum>j<length xs. f (xs ! j))"
    "f v < f (xs ! i) \<Longrightarrow> (\<Sum>j<length xs. f (xs[i := v] ! j)) < (\<Sum>j<length xs. f (xs ! j))"
proof -
  show "(\<Sum>j<length xs. f (xs[i := v] ! j)) \<le> (\<Sum>j<length xs. f (xs ! j))"
    using assms by (intro sum_mono) (auto simp: nth_list_update)
  show "(\<Sum>j<length xs. f (xs[i := v] ! j)) < (\<Sum>j<length xs. f (xs ! j))" if "f v < f (xs ! i)"
    using assms that by (intro sum_strict_mono_ex1) (auto simp: nth_list_update)
qed

lemma unat_u16_less: "unat (x :: reg_set) < 65536"
  using unsigned_less [of x] by simp

lemma live_visit_inv:
  assumes inv: "live_inv ud c n l" and i: "i < n" and succs: "\<forall>i s. s \<in> set (successors c i) \<longrightarrow> s < n"
  shows "live_inv ud c n (snd (live_visit ud c i (ch, l)))"
proof -
  let ?out = "out_eq c (live_in_sets l) i" and ?lin = "live_in_sets l"
  let ?lin' = "?lin[i := in_eq ud ?out i]"
  have len: "length ?lin = n" "length (live_out_sets l) = n" using inv by (simp_all add: live_inv_def)
  have grow: "regset_sub (?lin ! s) (?lin' ! s)" if "s < n" for s
    using inv that i len by (auto simp: live_inv_def nth_list_update)
  have out: "regset_sub (out_eq c ?lin j) (out_eq c ?lin' j)" for j
    using succs grow by (intro out_eq_mono) blast
  have inn: "regset_sub (in_eq ud (out_eq c ?lin j) j) (in_eq ud (out_eq c ?lin' j) j)" for j
    using out by (rule in_eq_mono)
  have "regset_sub ((live_out_sets l)[i := ?out] ! j) (out_eq c ?lin' j)" if "j < n" for j
  proof (cases "j = i")
    case False
    then show ?thesis using inv that out [of j] regset_sub_trans by (simp add: live_inv_def) blast
  qed (use out len i in simp)
  moreover have "regset_sub (?lin' ! j) (in_eq ud (out_eq c ?lin' j) j)" if "j < n" for j
  proof (cases "j = i")
    case False
    then show ?thesis using inv that inn [of j] regset_sub_trans by (simp add: live_inv_def) blast
  qed (use inn len i in simp)
  ultimately show ?thesis using len i by (simp add: live_inv_def live_visit_eq)
qed

lemma live_visit_measure:
  assumes inv: "live_inv ud c n l" and i: "i < n"
  shows "live_measure (snd (live_visit ud c i (ch, l))) \<le> live_measure l"
    "fst (live_visit ud c i (ch, l)) \<Longrightarrow> \<not> ch \<Longrightarrow>
       live_measure (snd (live_visit ud c i (ch, l))) < live_measure l"
proof -
  let ?out = "out_eq c (live_in_sets l) i"
  let ?in = "in_eq ud ?out i"
  let ?f = "\<lambda>w :: reg_set. 65536 - unat w"
  have len: "i < length (live_in_sets l)" "i < length (live_out_sets l)"
    using inv i by (simp_all add: live_inv_def)
  have sub: "regset_sub (live_out_sets l ! i) ?out" "regset_sub (live_in_sets l ! i) ?in"
    using inv i by (simp_all add: live_inv_def)
  have le: "?f ?out \<le> ?f (live_out_sets l ! i)" "?f ?in \<le> ?f (live_in_sets l ! i)"
    using regset_sub_unat(1) [OF sub(1)] regset_sub_unat(1) [OF sub(2)] by (simp_all add: diff_le_mono2)
  note a = sum_update_le [of i "live_in_sets l" ?f, OF len(1) le(2)]
    and b = sum_update_le [of i "live_out_sets l" ?f, OF len(2) le(1)]
  show "live_measure (snd (live_visit ud c i (ch, l))) \<le> live_measure l"
    using a(1) b(1) len by (simp add: live_measure_def live_visit_eq add_mono)
  assume "fst (live_visit ud c i (ch, l))" "\<not> ch"
  then consider "live_out_sets l ! i \<noteq> ?out" | "live_in_sets l ! i \<noteq> ?in"
    using len by (auto simp: live_visit_eq)
  then show "live_measure (snd (live_visit ud c i (ch, l))) < live_measure l"
  proof cases
    case 1
    then have "?f ?out < ?f (live_out_sets l ! i)"
      using regset_sub_unat(2) [OF sub(1)] unat_u16_less [of ?out] by (simp add: diff_less_mono2)
    then show ?thesis using a(1) b(2) len by (simp add: live_measure_def live_visit_eq add_le_less_mono)
  next
    case 2
    then have "?f ?in < ?f (live_in_sets l ! i)"
      using regset_sub_unat(2) [OF sub(2)] unat_u16_less [of ?in] by (simp add: diff_less_mono2)
    then show ?thesis using a(2) b(1) len by (simp add: live_measure_def live_visit_eq add_less_le_mono)
  qed
qed


lemma live_round_upto:
  assumes succs: "\<forall>i s. s \<in> set (successors c i) \<longrightarrow> s < n"
  shows "live_inv ud c n l \<Longrightarrow> set is \<subseteq> {..<n} \<Longrightarrow>
    (case fold (live_visit ud c) is (ch, l) of (ch', l') \<Rightarrow>
       live_inv ud c n l' \<and> live_measure l' \<le> live_measure l
       \<and> (ch' \<and> \<not> ch \<longrightarrow> live_measure l' < live_measure l)
       \<and> (\<not> ch' \<longrightarrow> \<not> ch \<and> l' = l
            \<and> (\<forall>i \<in> set is. live_out_sets l ! i = out_eq c (live_in_sets l) i
                 \<and> live_in_sets l ! i = in_eq ud (live_out_sets l ! i) i)))"
proof (induction "is" arbitrary: ch l)
  case (Cons i "is")
  obtain ch1 l1 where v: "live_visit ud c i (ch, l) = (ch1, l1)" by fastforce
  obtain ch' l' where f: "fold (live_visit ud c) is (ch1, l1) = (ch', l')" by fastforce
  have i: "i < n" "i < length (live_in_sets l)" "i < length (live_out_sets l)"
    using Cons.prems by (auto simp: live_inv_def)
  have inv1: "live_inv ud c n l1" using live_visit_inv [OF Cons.prems(1) i(1) succs, of ch] v by simp
  note IH = Cons.IH [OF inv1, of ch1, unfolded f prod.case]
  have m1: "live_measure l1 \<le> live_measure l" "ch1 \<Longrightarrow> \<not> ch \<Longrightarrow> live_measure l1 < live_measure l"
    using live_visit_measure [OF Cons.prems(1) i(1), of ch] v by auto
  have same: "\<not> ch1 \<Longrightarrow> \<not> ch \<and> l1 = l \<and> live_out_sets l ! i = out_eq c (live_in_sets l) i
      \<and> live_in_sets l ! i = in_eq ud (live_out_sets l ! i) i"
    using live_visit_eq [OF i(2,3), of ud c ch] v i by (cases l) (auto simp: list_update_same_conv)
  have "fold (live_visit ud c) (i # is) (ch, l) = (ch', l')" using v f by simp
  then show ?case
    unfolding prod.case using IH m1 same Cons.prems(2) by (cases ch1) auto
qed simp

lemma live_round_spec:
  assumes "live_inv ud c n l" "\<forall>i s. s \<in> set (successors c i) \<longrightarrow> s < n"
    "live_round ud c n l = (ch', l')"
  shows "live_inv ud c n l'" "ch' \<Longrightarrow> live_measure l' < live_measure l"
    "\<not> ch' \<Longrightarrow> i < n \<Longrightarrow> live_out_sets l' ! i = out_eq c (live_in_sets l') i
       \<and> live_in_sets l' ! i = in_eq ud (live_out_sets l' ! i) i"
  using live_round_upto [OF assms(2,1), of "rev [0..<n]" False] assms(3)
  by (auto simp: live_round_def atLeast0LessThan)

lemma live_init_inv: "live_inv ud c n (snd (live_init n))"
  by (simp add: live_inv_def live_init_def)

definition liveness_solution :: "use_def list \<Rightarrow> cfg \<Rightarrow> nat \<Rightarrow> liveness \<Rightarrow> bool" where
  "liveness_solution ud c n l \<longleftrightarrow>
     length (live_in_sets l) = n \<and> length (live_out_sets l) = n
     \<and> (\<forall>i<n. live_out_sets l ! i = out_eq c (live_in_sets l) i
          \<and> live_in_sets l ! i = in_eq ud (live_out_sets l ! i) i)"

lemma liveness_loop:
  assumes succs: "\<forall>i s. s \<in> set (successors c i) \<longrightarrow> s < n"
  shows "\<exists>l. while_option fst (\<lambda>(changed, l). live_round ud c n l) (live_init n) = Some (False, l)
    \<and> liveness_solution ud c n l"
proof -
  let ?P = "\<lambda>(ch, l). live_inv ud c n l \<and> (\<not> ch \<longrightarrow> liveness_solution ud c n l)"
  let ?r = "\<lambda>(changed :: bool, l). live_round ud c n l"
  have step: "?P (?r s) \<and> live_measure (snd (?r s)) * 2 + of_bool (fst (?r s)) < live_measure (snd s) * 2 + of_bool (fst s)"
    if "?P s" "fst s" for s
  proof -
    obtain ch l where s: "s = (ch, l)" by fastforce
    obtain ch' l' where r: "live_round ud c n l = (ch', l')" by fastforce
    have inv: "live_inv ud c n l" using that s by simp
    note spec = live_round_spec [OF inv succs r]
    have "live_measure l' \<le> live_measure l"
      using live_round_upto [OF succs inv, of "rev [0..<n]" False] r
      by (auto simp: live_round_def atLeast0LessThan)
    then show ?thesis
      using spec that by (auto simp: s r liveness_solution_def live_inv_def)
  qed
  have init: "?P (live_init n)" using live_init_inv [of ud c n] by (auto simp: live_init_def)
  have "\<exists>t. while_option fst ?r (live_init n) = Some t"
    using measure_while_option_Some [of ?P fst ?r "\<lambda>s. live_measure (snd s) * 2 + of_bool (fst s)", OF step init] by blast
  then obtain t where t: "while_option fst ?r (live_init n) = Some t" ..
  have "?P t"
    by (rule while_option_rule [where P = ?P, OF _ t init]) (rule conjunct1 [OF step])
  moreover have "\<not> fst t" using while_option_stop [OF t] .
  ultimately show ?thesis using t by (cases t) auto
qed

lemma liveness_analyze_solution:
  assumes "insns \<noteq> []"
  shows "liveness_solution (map use_def_of insns) (cfg_build insns) (length insns)
    (liveness_analyze insns (cfg_build insns))"
proof -
  have "\<forall>i s. s \<in> set (successors (cfg_build insns) i) \<longrightarrow> s < length insns"
    using insn_succs_less by (auto simp: successors_cfg_build split: if_splits)
  from liveness_loop [OF this, of "map use_def_of insns"] assms show ?thesis
    by (auto simp: liveness_analyze_def while_def Let_def)
qed

text \<open>What a client of the analysis uses.\<close>

lemma live_in_uses:
  assumes "i < length insns" "regset_contains (uses (use_def_of (insns ! i))) r"
  shows "regset_contains (live_in (liveness_analyze insns (cfg_build insns)) i) r"
proof -
  have "insns \<noteq> []" using assms by auto
  from liveness_analyze_solution [OF this] assms show ?thesis
    by (simp add: liveness_solution_def live_in_def in_eq_def)
qed

lemma live_in_flow:
  assumes "i < length insns" "j \<in> set (successors (cfg_build insns) i)"
    and "regset_contains (live_in (liveness_analyze insns (cfg_build insns)) j) r"
    and "\<not> regset_contains (defs (use_def_of (insns ! i))) r"
  shows "regset_contains (live_in (liveness_analyze insns (cfg_build insns)) i) r"
proof -
  have ne: "insns \<noteq> []" using assms by auto
  have j: "j < length insns" using assms(2) insn_succs_less by (auto simp: successors_cfg_build split: if_splits)
  let ?l = "liveness_analyze insns (cfg_build insns)"
  have eqs: "live_out_sets ?l ! i = out_eq (cfg_build insns) (live_in_sets ?l) i"
    "live_in_sets ?l ! i = in_eq (map use_def_of insns) (live_out_sets ?l ! i) i"
    "length (live_in_sets ?l) = length insns"
    using liveness_analyze_solution [OF ne] assms(1) by (simp_all add: liveness_solution_def)
  have "regset_contains (live_out_sets ?l ! i) r"
    using assms(2,3) j eqs(3) unfolding eqs(1) by (auto simp: out_eq_def fold_union_contains live_in_def)
  then have "regset_contains (live_in_sets ?l ! i) r"
    using assms(1,4) unfolding eqs(2) by (simp add: in_eq_def)
  then show ?thesis using assms(1) eqs(3) by (simp add: live_in_def)
qed

lemma liveness_fixpoint:
  assumes "insns \<noteq> []"
  shows "\<exists>l. while_option fst (\<lambda>(changed, l). live_round (map use_def_of insns) (cfg_build insns) (length insns) l)
      (live_init (length insns)) = Some (False, l) \<and> l = liveness_analyze insns (cfg_build insns)
    \<and> (\<forall>i < length insns. \<forall>r. regset_contains (live_in l i) r \<longleftrightarrow>
         regset_contains (uses (use_def_of (insns ! i))) r
         \<or> (\<exists>j \<in> set (successors (cfg_build insns) i). regset_contains (live_in l j) r)
            \<and> \<not> regset_contains (defs (use_def_of (insns ! i))) r)"
proof -
  let ?w = "while_option fst (\<lambda>(changed, l). live_round (map use_def_of insns) (cfg_build insns) (length insns) l) (live_init (length insns))"
  have succs: "\<forall>i s. s \<in> set (successors (cfg_build insns) i) \<longrightarrow> s < length insns"
    using insn_succs_less by (auto simp: successors_cfg_build split: if_splits)
  from liveness_loop [OF this, of "map use_def_of insns"] obtain l where l: "?w = Some (False, l)"
    and sol: "liveness_solution (map use_def_of insns) (cfg_build insns) (length insns) l" by blast
  have "l = liveness_analyze insns (cfg_build insns)"
    using l assms by (simp add: liveness_analyze_def while_def Let_def)
  moreover have "regset_contains (live_in l i) r \<longleftrightarrow> regset_contains (uses (use_def_of (insns ! i))) r
      \<or> (\<exists>j \<in> set (successors (cfg_build insns) i). regset_contains (live_in l j) r)
         \<and> \<not> regset_contains (defs (use_def_of (insns ! i))) r" if "i < length insns" for i r
    using sol that succs
    by (auto simp: liveness_solution_def live_in_def in_eq_def out_eq_def fold_union_contains)
  ultimately show ?thesis using l by blast
qed

end
