(* ===== verification/Pruner.thy ===== *)
theory Pruner
  imports Verifier_State Liveness
begin

text \<open>
  The state pruner (\<open>verifier/pruner.rs\<close>): the states recorded per program counter, the FIFO
  eviction that bounds their number, and the cumulative budget. The contract of the trait
  \<open>StateSubsumes\<close> is the locale \<open>state_subsumes\<close>; what a \<open>Prune\<close> decision justifies is proved
  once inside it.
\<close>

datatype prune_decision = PruneContinue | Prune

record state_pruner =
  by_pc :: "nat \<Rightarrow> verifier_state list"
  pr_count :: nat
  max_states :: nat
  max_states_per_pc :: nat

definition DEFAULT_MAX_STATES :: nat where "DEFAULT_MAX_STATES = 8192"

definition DEFAULT_MAX_STATES_PER_PC :: nat where "DEFAULT_MAX_STATES_PER_PC = 64"

definition pruner_new :: state_pruner where
  "pruner_new = \<lparr>by_pc = (\<lambda>_. []), pr_count = 0, max_states = DEFAULT_MAX_STATES,
     max_states_per_pc = DEFAULT_MAX_STATES_PER_PC\<rparr>"

definition at_capacity :: "state_pruner \<Rightarrow> bool" where
  "at_capacity p \<longleftrightarrow> max_states p \<le> pr_count p"

definition pruner_clear :: "state_pruner \<Rightarrow> state_pruner" where
  "pruner_clear p = p\<lparr>by_pc := (\<lambda>_. []), pr_count := 0\<rparr>"

definition check_or_record_with_liveness ::
  "state_pruner \<Rightarrow> nat \<Rightarrow> verifier_state \<Rightarrow> reg_set \<Rightarrow> prune_decision \<times> state_pruner" where
  "check_or_record_with_liveness p pc state live =
     (let cap = max_states_per_pc p;
          entries = by_pc p pc
      in if list_ex (\<lambda>prior. subsumes_with_liveness prior state (regset_contains live)) entries
         then (Prune, p)
         else
           let entries = (if cap \<le> length entries then tl entries else entries);
               entries = entries @ [state]
           in (PruneContinue, p\<lparr>by_pc := (by_pc p)(pc := entries), pr_count := pr_count p + 1\<rparr>))"

definition check_or_record ::
  "state_pruner \<Rightarrow> nat \<Rightarrow> verifier_state \<Rightarrow> prune_decision \<times> state_pruner" where
  "check_or_record p pc state = check_or_record_with_liveness p pc state regset_ALL"

section \<open>The contract of subsumption\<close>

locale state_subsumes =
  fixes subsumes :: "'s \<Rightarrow> 's \<Rightarrow> bool"
    and models :: "'s \<Rightarrow> 'c \<Rightarrow> bool"
  assumes subsumes_sound: "subsumes a b \<Longrightarrow> models b c \<Longrightarrow> models a c"
begin

lemma covered_by_prior:
  assumes "list_ex (\<lambda>prior. subsumes prior s) entries" "models s c"
  shows "\<exists>prior \<in> set entries. models prior c"
  using assms subsumes_sound by (auto simp: list_ex_iff)

end

section \<open>Facts about the pruner\<close>

definition recorded_states :: "state_pruner \<Rightarrow> (nat \<times> verifier_state) set" where
  "recorded_states p = {(pc, s). s \<in> set (by_pc p pc)}"

lemma check_or_record_Prune:
  assumes "check_or_record_with_liveness p pc s live = (Prune, p')"
  shows "p' = p" "\<exists>prior. (pc, prior) \<in> recorded_states p \<and> subsumes_with_liveness prior s (regset_contains live)"
  using assms
  by (auto simp: check_or_record_with_liveness_def Let_def recorded_states_def list_ex_iff split: if_splits)

lemma in_set_tl: "x \<in> set (tl xs) \<Longrightarrow> x \<in> set xs"
  by (cases xs) auto

lemma check_or_record_Continue:
  assumes "check_or_record_with_liveness p pc s live = (PruneContinue, p')"
  shows "pr_count p' = pr_count p + 1" "max_states p' = max_states p"
    "max_states_per_pc p' = max_states_per_pc p"
    "(pc, s) \<in> recorded_states p'" "recorded_states p' \<subseteq> insert (pc, s) (recorded_states p)"
  using assms
  by (auto simp: check_or_record_with_liveness_def Let_def recorded_states_def split: if_splits
      dest: in_set_tl)

text \<open>Eviction keeps the list of each program counter within the cap.\<close>

definition pruner_wf :: "state_pruner \<Rightarrow> bool" where
  "pruner_wf p \<longleftrightarrow> 0 < max_states_per_pc p \<and> (\<forall>pc. length (by_pc p pc) \<le> max_states_per_pc p)"

lemma pruner_wf_new: "pruner_wf pruner_new"
  by (simp add: pruner_wf_def pruner_new_def DEFAULT_MAX_STATES_PER_PC_def)

lemma pruner_wf_clear: "pruner_wf p \<Longrightarrow> pruner_wf (pruner_clear p)"
  by (simp add: pruner_wf_def pruner_clear_def)

lemma pruner_wf_check: "pruner_wf p \<Longrightarrow> pruner_wf (snd (check_or_record_with_liveness p pc s live))"
proof -
  assume wf: "pruner_wf p"
  then have "length (by_pc p pc) \<le> max_states_per_pc p" "0 < max_states_per_pc p"
    by (auto simp: pruner_wf_def)
  then have "Suc (length (by_pc p pc) - Suc 0) \<le> max_states_per_pc p" by linarith
  with wf show ?thesis
    by (auto simp: pruner_wf_def check_or_record_with_liveness_def Let_def not_le)
qed

lemma subsumes_with_liveness_refl: "subsumes_with_liveness s s live"
  by (simp add: subsumes_with_liveness_def stack_subsumes_def subsumes_refl list_all_iff)

interpretation tn: state_subsumes tnum_subsumes
    "\<lambda>t x. tnum_contains t x"
  by unfold_locales (auto simp: tnum_subsumes_def tnum_contains_bit Let_def bit_eq_iff tnum_bit_simps)

text \<open>Subsumption ignores the known value: the state after negating a constant, whose interval is
  unbounded, subsumes an unknown scalar, so a path may be pruned although it admits values the kept
  path excludes.\<close>

lemma pruning_forgets_known_value:
  "let a = reg_scalar (Some (scalar_negate (scalar_constant 1))); b = reg_scalar (Some scalar_unknown)
   in reg_subsumes a b \<and> scalar_has (the (rs_scalar b)) 5 \<and> \<not> scalar_has (the (rs_scalar a)) 5"
  by (simp add: reg_subsumes_def reg_scalar_def scalar_negate_def scalar_constant_def scalar_unknown_def scalar_has_def
      tnum_subsumes_def tnum_unknown_def tnum_unknown_has [unfolded tnum_unknown_def] Let_def)

end
