(* ===== verification/Cost.thy ===== *)
theory Cost
  imports Helpers Cfg
begin

text \<open>
  The static cost model (\<open>verifier/cost.rs\<close>): the cycle cost of an instruction and the longest
  path through the control-flow graph, computed in one backwards pass. The lemmas show that the
  pass computes the longest-path recurrence without wrap-around, and that on a loop-free graph it
  bounds the cost of every path.
\<close>

definition COST_CALL :: u32 where "COST_CALL = 8"
definition COST_MEMORY :: u32 where "COST_MEMORY = 2"
definition COST_ALU_EXPENSIVE :: u32 where "COST_ALU_EXPENSIVE = 2"
definition COST_DEFAULT :: u32 where "COST_DEFAULT = 1"
definition COST_INVOCATION_BASE :: u64 where "COST_INVOCATION_BASE = 95"
definition COST_HELPER_READ :: u32 where "COST_HELPER_READ = 4"
definition COST_HELPER_COPY :: u32 where "COST_HELPER_COPY = 10"
definition COST_HELPER_RINGBUF :: u32 where "COST_HELPER_RINGBUF = 12"
definition COST_HELPER_MAP :: u32 where "COST_HELPER_MAP = 16"
definition COST_HELPER_TRACE :: u32 where "COST_HELPER_TRACE = 20"

lemmas cost_consts = COST_CALL_def COST_MEMORY_def COST_ALU_EXPENSIVE_def COST_DEFAULT_def
  COST_INVOCATION_BASE_def COST_HELPER_READ_def COST_HELPER_COPY_def COST_HELPER_RINGBUF_def
  COST_HELPER_MAP_def COST_HELPER_TRACE_def

definition helper_cost :: "i32 \<Rightarrow> u32" where
  "helper_cost raw =
     (case helper_from_raw raw of
        None \<Rightarrow> COST_CALL
      | Some h \<Rightarrow>
          if h \<in> {KtimeGetNs, GetPrandomU32, GetSmpProcessorId, GetCurrentPidTgid, GetCurrentUidGid,
                  GetInterruptLatencyNs, GetBootTimeMs, GetKernelHeapKb, GetKernelImageMb,
                  SensorLastTimestamp} then COST_HELPER_READ
          else if h \<in> {ProbeRead, GetCurrentComm, GpioSet, GpioGet, PwmWrite, MotorPairV1, IioRead,
                       CanSend} then COST_HELPER_COPY
          else if h \<in> {RingbufOutput, RingbufReserve, RingbufSubmit, RingbufDiscard}
            then COST_HELPER_RINGBUF
          else if h \<in> {MapLookupElem, MapUpdateElem, MapDeleteElem, TimeseriesPush}
            then COST_HELPER_MAP
          else COST_HELPER_TRACE)"

definition insn_cycle_cost :: "bpf_insn \<Rightarrow> u32" where
  "insn_cycle_cost insn =
     (if is_call insn then helper_cost (insn_imm insn)
      else if is_memory insn then COST_MEMORY
      else if insn_alu_op insn \<in> {Some Div, Some Mod} then COST_ALU_EXPENSIVE
      else COST_DEFAULT)"

text \<open>One visit of the backwards pass over \<open>cost_from\<close>.\<close>

definition wcet_visit :: "bpf_insn list \<Rightarrow> cfg \<Rightarrow> nat \<Rightarrow> u64 list \<Rightarrow> u64 list" where
  "wcet_visit insns c i cost_from =
     (let n = length insns;
          best_succ = fold (\<lambda>s best. if i < s \<and> s < n then max best (cost_from ! s) else best)
                        (successors c i) 0
      in cost_from[i := ucast (insn_cycle_cost (insns ! i)) + best_succ])"

definition wcet_cycles :: "bpf_insn list \<Rightarrow> cfg \<Rightarrow> u64" where
  "wcet_cycles insns c =
     (let n = length insns
      in if n = 0 then 0
         else COST_INVOCATION_BASE
                + fold (wcet_visit insns c) (rev [0..<n]) (replicate n 0) ! 0)"

section \<open>The longest path\<close>

definition insn_cost :: "bpf_insn \<Rightarrow> nat" where
  "insn_cost insn = unat (insn_cycle_cost insn)"

lemma insn_cost_bounds: "1 \<le> insn_cost insn" "insn_cost insn \<le> 20"
  by (auto simp: insn_cost_def insn_cycle_cost_def helper_cost_def cost_consts split: option.splits)

text \<open>The reference recurrence, on unbounded numbers.\<close>

function longest_from :: "bpf_insn list \<Rightarrow> cfg \<Rightarrow> nat \<Rightarrow> nat" where
  "longest_from insns c i =
     insn_cost (insns ! i)
     + fold max (map (longest_from insns c) (filter (\<lambda>s. i < s \<and> s < length insns) (successors c i))) 0"
  by pat_completeness auto

termination
  by (relation "measure (\<lambda>(insns, c, i). length insns - i)") auto

declare longest_from.simps [simp del]

lemma fold_max_le: "(\<And>x. x \<in> set xs \<Longrightarrow> x \<le> b) \<Longrightarrow> a \<le> b \<Longrightarrow> fold max xs a \<le> (b :: nat)"
  by (induction xs arbitrary: a) auto

lemma fold_max_ge_init: "(a :: nat) \<le> fold max xs a"
  by (induction xs arbitrary: a) (auto intro: order_trans [OF max.cobounded2])

lemma fold_max_ge: "x \<in> set xs \<Longrightarrow> x \<le> fold max xs (a :: nat)"
proof (induction xs arbitrary: a)
  case (Cons y ys)
  then show ?case
    using fold_max_ge_init [of "max y a" ys] by auto
qed simp

lemma longest_from_bound: "i < length insns \<Longrightarrow> longest_from insns c i \<le> 20 * (length insns - i)"
proof (induction insns c i rule: longest_from.induct)
  case (1 insns c i)
  have "fold max (map (longest_from insns c) (filter (\<lambda>s. i < s \<and> s < length insns) (successors c i))) 0
      \<le> 20 * (length insns - Suc i)"
  proof (rule fold_max_le)
    fix x assume "x \<in> set (map (longest_from insns c) (filter (\<lambda>s. i < s \<and> s < length insns) (successors c i)))"
    then obtain s where s: "x = longest_from insns c s" "s \<in> set (successors c i)" "i < s" "s < length insns" by auto
    then have "x \<le> 20 * (length insns - s)" using 1 by auto
    also have "\<dots> \<le> 20 * (length insns - Suc i)" using s by simp
    finally show "x \<le> 20 * (length insns - Suc i)" .
  qed simp
  moreover have "insn_cost (insns ! i) + 20 * (length insns - Suc i) \<le> 20 * (length insns - i)"
    using insn_cost_bounds(2) [of "insns ! i"] "1.prems" by (simp add: Suc_diff_Suc [symmetric])
  ultimately show ?case unfolding longest_from.simps [of insns c i] by linarith
qed

lemma fold_max_unat:
  assumes "\<And>s. s \<in> set ss \<Longrightarrow> P s \<Longrightarrow> unat (f s) = g s"
  shows "unat (fold (\<lambda>s best. if P s then max best (f s) else best) ss (b :: u64))
    = fold max (map g (filter P ss)) (unat b)"
  using assms
proof (induction ss arbitrary: b)
  case (Cons s ss)
  have m: "unat (max b w) = max (unat w) (unat b)" for w :: u64
    by (simp add: max_def word_le_nat_alt)
  show ?case using Cons by (auto simp: m)
qed simp

lemma wcet_fold:
  assumes "k \<le> length insns" "20 * length insns < 2 ^ 63"
  shows "length (fold (wcet_visit insns c) (rev [k..<length insns]) (replicate (length insns) 0)) = length insns
    \<and> (\<forall>i. k \<le> i \<and> i < length insns \<longrightarrow>
        unat (fold (wcet_visit insns c) (rev [k..<length insns]) (replicate (length insns) 0) ! i)
          = longest_from insns c i)"
  using assms(1)
proof (induction "length insns - k" arbitrary: k)
  case (Suc d)
  let ?n = "length insns"
  let ?l = "fold (wcet_visit insns c) (rev [Suc k..<?n]) (replicate ?n 0)"
  have k: "k < ?n" using Suc by simp
  have IH: "length ?l = ?n" "\<forall>i. Suc k \<le> i \<and> i < ?n \<longrightarrow> unat (?l ! i) = longest_from insns c i"
    using Suc(1) [of "Suc k"] Suc(2) k by auto
  have step: "fold (wcet_visit insns c) (rev [k..<?n]) (replicate ?n 0) = wcet_visit insns c k ?l"
    using k by (simp add: upt_conv_Cons)
  let ?best = "fold (\<lambda>s best. if k < s \<and> s < ?n then max best (?l ! s) else best) (successors c k) 0"
  have best: "unat ?best = fold max (map (longest_from insns c) (filter (\<lambda>s. k < s \<and> s < ?n) (successors c k))) 0"
    using fold_max_unat [of "successors c k" "\<lambda>s. k < s \<and> s < ?n" "\<lambda>s. ?l ! s" "longest_from insns c" 0] IH(2)
    by simp
  have cost: "unat (ucast (insn_cycle_cost (insns ! k)) :: u64) = insn_cost (insns ! k)"
    using insn_cost_bounds(2) [of "insns ! k"] by (simp add: insn_cost_def unsigned_ucast_eq take_bit_nat_eq_self)
  have total: "insn_cost (insns ! k) + unat ?best = longest_from insns c k"
    unfolding best by (simp add: longest_from.simps [of insns c k])
  have "longest_from insns c k < 2 ^ 64"
    using longest_from_bound [OF k, of c] assms(2) by simp
  then have "unat (ucast (insn_cycle_cost (insns ! k)) + ?best) = longest_from insns c k"
    using cost total by (simp add: unat_plus_if')
  then show ?case
    unfolding step using IH k by (auto simp: wcet_visit_def Let_def nth_list_update less_Suc_eq_le)
qed simp

lemma wcet_cycles_longest:
  assumes "insns \<noteq> []" "20 * length insns < 2 ^ 63"
  shows "unat (wcet_cycles insns c) = 95 + longest_from insns c 0"
proof -
  have n: "0 < length insns" using assms by simp
  have l: "unat (fold (wcet_visit insns c) (rev [0..<length insns]) (replicate (length insns) 0) ! 0) = longest_from insns c 0"
    using wcet_fold [of 0 insns c] assms n by auto
  moreover have "longest_from insns c 0 < 2 ^ 63" using longest_from_bound [OF n, of c] assms(2) by simp
  ultimately show ?thesis
    using assms(1) by (simp add: wcet_cycles_def Let_def cost_consts unat_plus_if')
qed

section \<open>Paths\<close>

text \<open>A path of the graph from \<open>i\<close>, and what it costs to run it.\<close>

fun cfg_path :: "cfg \<Rightarrow> nat \<Rightarrow> nat list \<Rightarrow> bool" where
  "cfg_path c i [] \<longleftrightarrow> False"
| "cfg_path c i [j] \<longleftrightarrow> i = j"
| "cfg_path c i (j # k # ks) \<longleftrightarrow> i = j \<and> k \<in> set (successors c i) \<and> cfg_path c k (k # ks)"

definition path_cost :: "bpf_insn list \<Rightarrow> nat list \<Rightarrow> nat" where
  "path_cost insns p = sum_list (map (\<lambda>i. insn_cost (insns ! i)) p)"

lemma path_cost_le_longest:
  assumes "\<And>i j. j \<in> set (successors c i) \<Longrightarrow> i < j \<and> j < length insns"
  shows "cfg_path c i p \<Longrightarrow> path_cost insns p \<le> longest_from insns c i"
proof (induction p arbitrary: i)
  case (Cons j ks)
  show ?case
  proof (cases ks)
    case Nil
    then show ?thesis using Cons.prems by (simp add: path_cost_def longest_from.simps [of insns c j])
  next
    case [simp]: (Cons k ks')
    have k: "i = j" "k \<in> set (successors c i)" "cfg_path c k ks" using Cons.prems by auto
    have "path_cost insns ks \<le> longest_from insns c k" using k by (intro Cons.IH)
    also have "\<dots> \<le> fold max (map (longest_from insns c) (filter (\<lambda>s. i < s \<and> s < length insns) (successors c i))) 0"
      using k assms by (intro fold_max_ge) auto
    finally show ?thesis using k by (simp add: path_cost_def longest_from.simps [of insns c j])
  qed
qed simp

lemma forward_path_length:
  assumes "\<And>i j. j \<in> set (successors c i) \<Longrightarrow> i < j \<and> j < n"
  shows "cfg_path c i p \<Longrightarrow> i < n \<Longrightarrow> length p \<le> n - i"
proof (induction p arbitrary: i)
  case (Cons j ks)
  show ?case
  proof (cases ks)
    case [simp]: (Cons k ks')
    have "k \<in> set (successors c i)" "cfg_path c k ks" using Cons.prems by auto
    moreover from this have "i < k" "k < n" using assms by auto
    ultimately show ?thesis using Cons.IH [of k] by simp
  qed (use Cons.prems in simp)
qed simp

end
