(* ===== verification/Verifier.thy ===== *)
theory Verifier
  imports Helpers Pruner Cost
begin

text \<open>
  The verifier (\<open>verifier/core.rs\<close>): structural checks, profile constraints, the checks of one
  instruction, and the exploration of all paths with the worklist and the pruner. A check returns
  an error or the updated state; the loop ends because every round either records a state, of
  which the pruner accepts a bounded number, or shortens the work.
\<close>

section \<open>Branch results\<close>

record branch_refinement =
  br_dst :: register
  br_true :: scalar_value
  br_false :: scalar_value

record ptr_null_refine =
  nr_reg :: register
  nr_nonnull_on_true :: bool

datatype vresult =
  VContinue
| VJump nat
| VBranch nat nat "branch_refinement option" "ptr_null_refine option"
| VExit

definition apply_null_refine :: "verifier_state \<Rightarrow> ptr_null_refine \<Rightarrow> bool \<Rightarrow> verifier_state" where
  "apply_null_refine state nr is_true_arm =
     (let nonnull = (is_true_arm = nr_nonnull_on_true nr);
          reg = vs_regs state (nr_reg nr)
      in if nonnull then set_reg state (nr_reg nr) (reg\<lparr>rs_maybe_null := False\<rparr>)
         else set_reg state (nr_reg nr) (reg\<lparr>rs_type := NullPtr, rs_maybe_null := False\<rparr>))"

section \<open>Memory checks\<close>

definition check_ranged_deref :: "reg_state \<Rightarrow> i64 \<Rightarrow> nat \<Rightarrow> nat \<Rightarrow> verify_error + unit" where
  "check_ranged_deref rs insn_off access_size idx =
     (if rs_maybe_null rs then
        Inl (InvalidMemoryAccess idx ''dereference of possibly-null pointer (missing null check)'')
      else
        let off = wrap_i64 (rs_offset rs + insn_off)
        in case rs_mem_range rs of
             Some rng \<Rightarrow>
               let out_of_range = (case checked_add_i64 off (wrap_i64 (int access_size)) of
                     Some e \<Rightarrow> off < 0 \<or> uint rng < e
                   | None \<Rightarrow> True)
               in if out_of_range then Inl (OutOfBoundsAccess idx off access_size) else Inr ()
           | None \<Rightarrow>
               Inl (InvalidMemoryAccess idx ''dereference through pointer with unknown region size''))"

text \<open>The \<open>unreachable!\<close> arm never runs: signatures have at most five arguments.\<close>

definition helper_arg_register :: "nat \<Rightarrow> register" where
  "helper_arg_register i =
     (if i = 0 then R1 else if i = 1 then R2 else if i = 2 then R3 else if i = 3 then R4 else R5)"

definition helper_mem_size :: "verifier_state \<Rightarrow> register \<Rightarrow> nat \<Rightarrow> verify_error + nat" where
  "helper_mem_size state reg idx =
     (case rs_scalar (vs_regs state reg) of
        None \<Rightarrow> Inl (InvalidMemoryAccess idx ''helper memory size is not bounded'')
      | Some s \<Rightarrow>
          if i64_MAX < uint (sc_max s) then Inl (OutOfBoundsAccess idx 0 18446744073709551615)
          else Inr (unat (sc_max s)))"

text \<open>The loop over the arguments, from position \<open>i\<close> on.\<close>

fun check_helper_mem_bounds_from ::
  "nat \<Rightarrow> arg_type list \<Rightarrow> verifier_state \<Rightarrow> nat \<Rightarrow> verify_error + unit" where
  "check_helper_mem_bounds_from i (a # next_arg # args) state idx =
     (let continue = check_helper_mem_bounds_from (i + 1) (next_arg # args) state idx
      in if next_arg \<noteq> ArgMemSize then continue
         else if a \<notin> {ArgPtrToMem, ArgPtrToMapValue, ArgPtrToStack} then continue
         else
           let ptr_reg = helper_arg_register i;
               size_reg = helper_arg_register (i + 1)
           in res_bind (helper_mem_size state size_reg idx) (\<lambda>sz.
                if sz = 0 then continue
                else
                  let ptr_state = vs_regs state ptr_reg
                  in if rs_type ptr_state = PtrToStack \<or> rs_type ptr_state = PtrToFp then
                       (let offset = rs_offset ptr_state
                        in if \<not> is_valid_access (vs_stack state) offset sz
                           then Inl (OutOfBoundsAccess idx offset sz) else continue)
                     else res_bind (check_ranged_deref ptr_state 0 sz idx) (\<lambda>_. continue)))"
| "check_helper_mem_bounds_from i _ state idx = Inr ()"

definition check_helper_mem_bounds :: "arg_type list \<Rightarrow> verifier_state \<Rightarrow> nat \<Rightarrow> verify_error + unit" where
  "check_helper_mem_bounds args state idx = check_helper_mem_bounds_from 0 args state idx"

section \<open>One instruction\<close>

definition init_or :: "verifier_state \<Rightarrow> register \<Rightarrow> nat \<Rightarrow> verify_error + unit" where
  "init_or state r idx =
     (if \<not> is_reg_init state r then Inl (UninitializedRegister idx r) else Inr ())"

definition unknown_if_none :: "scalar_value option \<Rightarrow> scalar_value" where
  "unknown_if_none s = (case s of Some x \<Rightarrow> x | None \<Rightarrow> scalar_unknown)"

text \<open>The checks on the source operand, up to the division-by-zero test.\<close>

definition verify_alu_source :: "bpf_insn \<Rightarrow> alu_op \<Rightarrow> verifier_state \<Rightarrow> nat \<Rightarrow> verify_error + unit" where
  "verify_alu_source insn op state idx =
     (if insn_source_type insn = Src_Reg then
        res_bind (ok_or (insn_src insn) (InvalidRegister idx (src_reg insn))) (\<lambda>src.
          if \<not> is_reg_init state src \<and> \<not> is_unary op then Inl (UninitializedRegister idx src)
          else if can_divide_by_zero op then
            let src_state = vs_regs state src
            in case rs_scalar src_state of
                 Some scalar \<Rightarrow>
                   let divisor = (if is_alu64 insn then scalar else zero_extend_32 scalar)
                   in if could_be_zero divisor then Inl (DivisionByZero idx) else Inr ()
               | None \<Rightarrow>
                   if rs_type src_state = Scalar then Inl (DivisionByZero idx) else Inr ()
          else Inr ())
      else if can_divide_by_zero op \<and> insn_imm insn = 0 then Inl (DivisionByZero idx)
      else Inr ())"

definition verify_alu :: "bpf_insn \<Rightarrow> verifier_state \<Rightarrow> nat \<Rightarrow> verify_error + verifier_state" where
  "verify_alu insn state idx =
     res_bind (ok_or (insn_dst insn) (InvalidRegister idx (dst_reg insn))) (\<lambda>dst.
     if dst = R10 then Inl (WriteToReadOnly idx)
     else
     res_bind (ok_or (insn_alu_op insn) (InvalidOpcode idx (opcode insn))) (\<lambda>op.
     res_bind (verify_alu_source insn op state idx) (\<lambda>_.
     if op \<noteq> Mov \<and> \<not> is_reg_init state dst then Inl (UninitializedRegister idx dst)
     else
       let reg_mode = (insn_source_type insn = Src_Reg);
           src = (case insn_src insn of Some r \<Rightarrow> r | None \<Rightarrow> R0);
           scalar_result =
             (let rhs = (if reg_mode then unknown_if_none (rs_scalar (vs_regs state src))
                         else scalar_from_imm (insn_imm insn));
                  dst_scalar = unknown_if_none (rs_scalar (vs_regs state dst));
                  result = compute_alu_result_width dst_scalar op rhs (is_alu64 insn)
              in set_scalar state dst (Some result))
       in Inr (if is_alu64 insn \<and> op = Mov \<and> reg_mode \<and> is_pointer (rs_type (vs_regs state src))
               then set_reg state dst (vs_regs state src)
               else if is_alu64 insn \<and> op \<in> {Add, Sub} \<and> \<not> reg_mode
                       \<and> is_pointer (rs_type (vs_regs state dst)) then
                 (let delta = sint (insn_imm insn);
                      signed = (if op = Add then delta else wrap_i64 (- delta));
                      dst_state = vs_regs state dst
                  in set_reg state dst (dst_state\<lparr>rs_offset := wrap_i64 (rs_offset dst_state + signed)\<rparr>))
               else scalar_result))))"

definition verify_jump :: "bpf_insn \<Rightarrow> verifier_state \<Rightarrow> nat \<Rightarrow> verify_error + vresult" where
  "verify_jump insn state idx =
     res_bind (ok_or (insn_jmp_op insn) (InvalidOpcode idx (opcode insn))) (\<lambda>op.
       let target = int idx + 1 + sint (insn_offset insn)
       in if target < 0 then Inl (InvalidJump idx (of_int target))
          else
            let target = nat target
            in if is_unconditional op then Inr (VJump target)
               else
     res_bind (ok_or (insn_dst insn) (InvalidRegister idx (dst_reg insn))) (\<lambda>dst.
     res_bind (init_or state dst idx) (\<lambda>_.
     res_bind (if insn_source_type insn = Src_Reg then
                 res_bind (ok_or (insn_src insn) (InvalidRegister idx (src_reg insn))) (\<lambda>src.
                 res_bind (init_or state src idx) (\<lambda>_.
                   Inr (rs_scalar (vs_regs state src))))
               else
                 let v = scast (insn_imm insn)
                 in Inr (Some (mk_scalar (Some v) v v (tnum_constant v)))) (\<lambda>rhs.
       let is_jmp64 = (insn_class insn = Some Jmp);
           refinement =
             (case (rs_scalar (vs_regs state dst), rhs) of
                (Some dst_sv, Some rhs_sv) \<Rightarrow>
                  if is_jmp64 then
                    (let (t, f) = refine_scalar dst_sv op rhs_sv
                     in Some \<lparr>br_dst = dst, br_true = t, br_false = f\<rparr>)
                  else None
              | _ \<Rightarrow> None);
           rhs_is_zero = (Option.bind rhs sc_value = Some 0);
           dst_rs = vs_regs state dst;
           null_refine =
             (if rhs_is_zero \<and> rs_maybe_null dst_rs \<and> is_pointer (rs_type dst_rs) \<and> op \<in> {Jeq, Jne}
              then Some \<lparr>nr_reg = dst, nr_nonnull_on_true = (op = Jne)\<rparr> else None)
       in Inr (VBranch (idx + 1) target refinement null_refine)))))"

text \<open>
  A validated call: the authorisation checks, the bounds of memory arguments, the result in R0 and
  the clobbered registers. The second component is the handle pushed onto
  \<open>referenced_map_handles\<close>, if any.
\<close>

definition verify_call_authorised ::
  "verify_config \<Rightarrow> bpf_insn \<Rightarrow> helper_signature \<Rightarrow> verifier_state \<Rightarrow> nat \<Rightarrow> verify_error + unit" where
  "verify_call_authorised cfg insn sig state idx =
     (if caller cfg < sig_min_tier sig then
        Inl (HelperRequiresPrivilege idx (insn_imm insn) (sig_min_tier sig))
      else if sig_requires_actuation sig \<and> \<not> allow_actuation cfg then
        Inl (ActuationCapabilityRequired idx (insn_imm insn))
      else if sig_may_log sig \<and> forbid_logging_helpers cfg then
        Inl (LoggingHelperForbidden idx (insn_imm insn))
      else
        res_bind (case mutating_helper_map_arg (sig_id sig) of
                    Some map_arg \<Rightarrow>
                      check_map_write_writability (map_lookup_writability (vs_regs state map_arg) cfg) idx
                  | None \<Rightarrow> Inr ()) (\<lambda>_.
          check_helper_mem_bounds (sig_args sig) state idx))"

definition call_return_state ::
  "verify_config \<Rightarrow> helper_signature \<Rightarrow> verifier_state \<Rightarrow> nat \<Rightarrow> verify_error + reg_state" where
  "call_return_state cfg sig state idx =
     (case sig_ret sig of
        RetPtrToMapValueOrNull \<Rightarrow>
          (case map_lookup_value_size (vs_regs state R1) cfg of
             Inl map_id \<Rightarrow> Inl (InvalidMapId idx map_id)
           | Inr sz \<Rightarrow>
               Inr (map_value_with_writability sz True (map_lookup_writability (vs_regs state R1) cfg)))
      | other \<Rightarrow> Inr (to_reg_state other (map_value_size cfg)))"

definition clobber_caller_saved :: "verifier_state \<Rightarrow> verifier_state" where
  "clobber_caller_saved state = fold (\<lambda>r s. set_reg s r reg_uninit) [R0, R1, R2, R3, R4, R5] state"

definition verify_call ::
  "profile \<Rightarrow> verify_config \<Rightarrow> bpf_insn \<Rightarrow> verifier_state \<Rightarrow> nat \<Rightarrow> verify_error + verifier_state \<times> u32 list" where
  "verify_call P cfg insn state idx =
     (let arg_types = map (\<lambda>r. rs_type (vs_regs state r)) [R1, R2, R3, R4, R5]
      in case validate_helper_call P (insn_imm insn) arg_types of
           HV_Valid sig \<Rightarrow>
             res_bind (verify_call_authorised cfg insn sig state idx) (\<lambda>_.
             let handles =
               (case referenced_map_helper_arg (sig_id sig) of
                  Some map_arg \<Rightarrow>
                    (case Option.bind (known_value (vs_regs state map_arg)) u32_try_from of
                       Some h \<Rightarrow> [h] | None \<Rightarrow> [])
                | None \<Rightarrow> [])
             in res_bind (call_return_state cfg sig state idx) (\<lambda>ret_state.
                  Inr (set_reg (clobber_caller_saved state) R0 ret_state, handles)))
         | HV_UnknownHelper h \<Rightarrow> Inl (InvalidHelper idx h)
         | HV_NotAvailable h \<Rightarrow> Inl (HelperNotAvailable idx (helper_name h))
         | HV_WrongArgCount h e g \<Rightarrow> Inl (HelperArgCount idx (helper_name h) e g)
         | HV_ArgTypeMismatch h i _ _ \<Rightarrow> Inl (HelperArgType idx (helper_name h) i))"

definition ctx_load_result :: "verify_config \<Rightarrow> reg_state \<Rightarrow> i64 \<Rightarrow> nat \<Rightarrow> reg_state option" where
  "ctx_load_result cfg src_state insn_off access_size =
     (if rs_type src_state \<noteq> PtrToCtx \<or> access_size \<noteq> 8 then None
      else Option.bind (checked_add_i64 (rs_offset src_state) insn_off) (\<lambda>effective_offset.
             if effective_offset = 0 then Some (reg_ctx_data_ptr (ctx_data_size cfg)) else None))"

definition is_stack_ptr :: "reg_state \<Rightarrow> bool" where
  "is_stack_ptr r \<longleftrightarrow> rs_type r = PtrToStack \<or> rs_type r = PtrToFp"

definition mark_stack_written :: "verifier_state \<Rightarrow> i64 \<Rightarrow> nat \<Rightarrow> verifier_state" where
  "mark_stack_written state offset n =
     state\<lparr>vs_stack := fold (\<lambda>i s. snd (stack_set s (offset + int i) SlotScalar)) [0..<n] (vs_stack state)\<rparr>"

definition verify_load ::
  "verify_config \<Rightarrow> bpf_insn \<Rightarrow> nat \<Rightarrow> verifier_state \<Rightarrow> nat \<Rightarrow> verify_error + verifier_state" where
  "verify_load cfg insn sz state idx =
     res_bind (ok_or (insn_dst insn) (InvalidRegister idx (dst_reg insn))) (\<lambda>dst.
     res_bind (ok_or (insn_src insn) (InvalidRegister idx (src_reg insn))) (\<lambda>src.
     if dst = R10 then Inl (WriteToReadOnly idx)
     else
     res_bind (init_or state src idx) (\<lambda>_.
       let src_state = vs_regs state src;
           off = sint (insn_offset insn)
       in if \<not> can_read (rs_type src_state) \<and> rs_type src_state \<noteq> PtrToFp then
            Inl (InvalidMemoryAccess idx ''cannot read from this pointer type'')
          else
            res_bind (if is_stack_ptr src_state then
                        (let offset = wrap_i64 (rs_offset src_state + off)
                         in if \<not> is_valid_access (vs_stack state) offset sz
                            then Inl (OutOfBoundsAccess idx offset sz) else Inr ())
                      else check_ranged_deref src_state off sz idx) (\<lambda>_.
              case ctx_load_result cfg src_state off sz of
                Some loaded \<Rightarrow> Inr (set_reg state dst loaded)
              | None \<Rightarrow> Inr (set_scalar state dst (Some scalar_unknown))))))"

text \<open>The common part of \<open>Stx\<close> and \<open>St\<close>, once the registers are known to be initialised.\<close>

definition verify_store_at ::
  "bpf_insn \<Rightarrow> register \<Rightarrow> nat \<Rightarrow> verifier_state \<Rightarrow> nat \<Rightarrow> verify_error + verifier_state" where
  "verify_store_at insn dst sz state idx =
     (let dst_state = vs_regs state dst;
          off = sint (insn_offset insn)
      in if \<not> can_write (rs_type dst_state) \<and> rs_type dst_state \<noteq> PtrToFp then
           Inl (InvalidMemoryAccess idx ''cannot write to this pointer type'')
         else
           res_bind (if rs_type dst_state = PtrToMapValue
                     then check_map_write_writability (rs_writability dst_state) idx else Inr ()) (\<lambda>_.
             if is_stack_ptr dst_state then
               (let offset = wrap_i64 (rs_offset dst_state + off)
                in if \<not> is_valid_access (vs_stack state) offset sz
                   then Inl (OutOfBoundsAccess idx offset sz)
                   else Inr (mark_stack_written state offset sz))
             else res_bind (check_ranged_deref dst_state off sz idx) (\<lambda>_. Inr state)))"

definition verify_memory ::
  "verify_config \<Rightarrow> bpf_insn \<Rightarrow> verifier_state \<Rightarrow> nat \<Rightarrow> verify_error + verifier_state" where
  "verify_memory cfg insn state idx =
     res_bind (ok_or (insn_class insn) (InvalidOpcode idx (opcode insn))) (\<lambda>cls.
     res_bind (ok_or (insn_mem_size insn) (InvalidOpcode idx (opcode insn))) (\<lambda>sz.
       if cls = Ldx then verify_load cfg insn (size_bytes sz) state idx
       else if cls = Stx then
         res_bind (ok_or (insn_dst insn) (InvalidRegister idx (dst_reg insn))) (\<lambda>dst.
         res_bind (ok_or (insn_src insn) (InvalidRegister idx (src_reg insn))) (\<lambda>src.
         res_bind (init_or state dst idx) (\<lambda>_.
         res_bind (init_or state src idx) (\<lambda>_.
           verify_store_at insn dst (size_bytes sz) state idx))))
       else if cls = St then
         res_bind (ok_or (insn_dst insn) (InvalidRegister idx (dst_reg insn))) (\<lambda>dst.
         res_bind (init_or state dst idx) (\<lambda>_.
           verify_store_at insn dst (size_bytes sz) state idx))
       else Inr state))"

definition verify_wide_load :: "bpf_insn \<Rightarrow> verifier_state \<Rightarrow> nat \<Rightarrow> verify_error + verifier_state" where
  "verify_wide_load insn state idx =
     res_bind (ok_or (insn_dst insn) (InvalidRegister idx (dst_reg insn))) (\<lambda>dst.
       if dst = R10 then Inl (WriteToReadOnly idx)
       else Inr (set_scalar state dst (Some scalar_unknown)))"

definition verify_insn ::
  "profile \<Rightarrow> verify_config \<Rightarrow> bpf_insn \<Rightarrow> verifier_state \<Rightarrow> nat
     \<Rightarrow> verify_error + vresult \<times> verifier_state \<times> u32 list" where
  "verify_insn P cfg insn state idx =
     (if is_exit insn then
        (if \<not> is_reg_init state R0 then Inl (UninitializedRegister idx R0)
         else if caller cfg = Unprivileged \<and> is_pointer (rs_type (vs_regs state R0))
           then Inl (PointerLeakUnprivileged idx)
         else Inr (VExit, state, []))
      else if is_call insn then
        res_bind (verify_call P cfg insn state idx) (\<lambda>(s, hs). Inr (VContinue, s, hs))
      else if is_alu insn then
        res_bind (verify_alu insn state idx) (\<lambda>s. Inr (VContinue, s, []))
      else if is_jump insn then
        res_bind (verify_jump insn state idx) (\<lambda>r. Inr (r, state, []))
      else if is_wide insn then
        res_bind (verify_wide_load insn state idx) (\<lambda>s. Inr (VContinue, s, []))
      else if is_memory insn then
        res_bind (verify_memory cfg insn state idx) (\<lambda>s. Inr (VContinue, s, []))
      else Inl (InvalidOpcode idx (opcode insn)))"

section \<open>Exploration\<close>

record verifier =
  v_states :: "verifier_state option list"
  v_pruner :: state_pruner
  v_handles :: "u32 list"

definition with_scalar :: "verifier_state \<Rightarrow> register \<Rightarrow> scalar_value \<Rightarrow> verifier_state" where
  "with_scalar state r v = set_reg state r ((vs_regs state r)\<lparr>rs_scalar := Some v\<rparr>)"

definition branch_arm ::
  "verifier_state \<Rightarrow> nat \<Rightarrow> branch_refinement option \<Rightarrow> ptr_null_refine option \<Rightarrow> bool \<Rightarrow> verifier_state" where
  "branch_arm state pc refinement null_refine taken =
     (let s = (case refinement of
                 Some r \<Rightarrow> with_scalar state (br_dst r) (if taken then br_true r else br_false r)
               | None \<Rightarrow> state);
          s = (case null_refine of Some nr \<Rightarrow> apply_null_refine s nr taken | None \<Rightarrow> s)
      in s\<lparr>vs_insn_idx := pc, vs_insn_processed := vs_insn_processed s + 1\<rparr>)"

text \<open>
  The states that follow a checked instruction: the one the inner loop goes on with, and the one
  pushed onto the work stack.
\<close>

definition next_states ::
  "bpf_insn \<Rightarrow> vresult \<Rightarrow> verifier_state \<Rightarrow> verifier_state option \<times> verifier_state list" where
  "next_states insn r state =
     (case r of
        VContinue \<Rightarrow>
          (Some (state\<lparr>vs_insn_idx := vs_insn_idx state + (if is_wide insn then 2 else 1),
                       vs_insn_processed := vs_insn_processed state + 1\<rparr>), [])
      | VJump target \<Rightarrow>
          (Some (state\<lparr>vs_insn_idx := target, vs_insn_processed := vs_insn_processed state + 1\<rparr>), [])
      | VBranch fallthrough target refinement null_refine \<Rightarrow>
          (Some (branch_arm state target refinement null_refine True),
           [branch_arm state fallthrough refinement null_refine False])
      | VExit \<Rightarrow> (None, []))"

text \<open>
  One round of the inner loop on the current state: an error, the end of this path (\<open>break\<close>), or
  the state to go on with, the state to push and the updated verifier.
\<close>

datatype round =
  RoundBreak verifier
| RoundNext "verifier_state option" "verifier_state list" verifier

definition explore_round ::
  "profile \<Rightarrow> verify_config \<Rightarrow> liveness \<Rightarrow> bpf_insn list \<Rightarrow> verifier_state \<Rightarrow> verifier \<Rightarrow> verify_error + round" where
  "explore_round P cfg live insns state v =
     (let idx = vs_insn_idx state
      in if length insns \<le> idx then Inl (InvalidJump (idx - 1) (of_nat idx))
         else if MAX_INSN_COUNT P < vs_insn_processed state then Inl (InfiniteLoop idx)
         else
           case check_or_record_with_liveness (v_pruner v) idx state (live_in live idx) of
             (Prune, p) \<Rightarrow> Inr (RoundBreak (v\<lparr>v_pruner := p\<rparr>))
           | (PruneContinue, p) \<Rightarrow>
               if at_capacity p then Inl (StateLimitExceeded idx (max_states p))
               else
                 let insn = insns ! idx
                 in res_bind (verify_insn P cfg insn state idx) (\<lambda>(r, state', hs).
                      let v' = v\<lparr>v_states := (v_states v)[idx := Some state], v_pruner := p,
                                 v_handles := v_handles v @ hs\<rparr>;
                          (cur, push) = next_states insn r state'
                      in Inr (RoundNext cur push v')))"

text \<open>
  The two nested loops: the current state of the inner loop, if it is running, and the work stack
  with its top first.
\<close>

function explore ::
  "profile \<Rightarrow> verify_config \<Rightarrow> liveness \<Rightarrow> bpf_insn list \<Rightarrow> verifier_state option
     \<Rightarrow> verifier_state list \<Rightarrow> verifier \<Rightarrow> verify_error + verifier" where
  "explore P cfg live insns None [] v = Inr v"
| "explore P cfg live insns None (s # work) v = explore P cfg live insns (Some s) work v"
| "explore P cfg live insns (Some s) work v =
     (case explore_round P cfg live insns s v of
        Inl e \<Rightarrow> Inl e
      | Inr (RoundBreak v') \<Rightarrow> explore P cfg live insns None work v'
      | Inr (RoundNext cur push v') \<Rightarrow> explore P cfg live insns cur (push @ work) v')"
  by pat_completeness auto

lemma explore_round_break:
  "explore_round P cfg live insns s v = Inr (RoundBreak v') \<Longrightarrow> v' = v"
  by (auto simp: explore_round_def Let_def res_bind_eq_Inr_iff check_or_record_Prune(1)
      split: if_splits prune_decision.splits prod.splits)

lemma explore_round_next:
  assumes "explore_round P cfg live insns s v = Inr (RoundNext cur push v')"
  obtains p r s' hs where
    "vs_insn_idx s < length insns" "vs_insn_processed s \<le> MAX_INSN_COUNT P"
    "check_or_record_with_liveness (v_pruner v) (vs_insn_idx s) s (live_in live (vs_insn_idx s)) = (PruneContinue, p)"
    "\<not> at_capacity p"
    "verify_insn P cfg (insns ! vs_insn_idx s) s (vs_insn_idx s) = Inr (r, s', hs)"
    "next_states (insns ! vs_insn_idx s) r s' = (cur, push)"
    "v' = v\<lparr>v_states := (v_states v)[vs_insn_idx s := Some s], v_pruner := p, v_handles := v_handles v @ hs\<rparr>"
  using assms
  by (auto simp: explore_round_def Let_def res_bind_eq_Inr_iff
      split: if_splits prune_decision.splits prod.splits) (metis surj_pair)

termination explore
proof (relation "measures [\<lambda>(P, cfg, live, insns, cur, work, v). max_states (v_pruner v) - pr_count (v_pruner v),
    \<lambda>(P, cfg, live, insns, cur, work, v). 2 * length work + (case cur of None \<Rightarrow> 0 | Some _ \<Rightarrow> 1)]",
    goal_cases)
  case 1
  then show ?case by simp
next
  case (2 P cfg live insns s work v)
  then show ?case by simp
next
  case (3 P cfg live insns s work v r v')
  then show ?case using explore_round_break by fastforce
next
  case (4 P cfg live insns s work v r cur push v')
  from 4 have "explore_round P cfg live insns s v = Inr (RoundNext cur push v')" by simp
  then show ?case
  proof (rule explore_round_next)
    fix p r s' hs
    assume c: "check_or_record_with_liveness (v_pruner v) (vs_insn_idx s) s (live_in live (vs_insn_idx s)) = (PruneContinue, p)"
      and cap: "\<not> at_capacity p"
      and v': "v' = v\<lparr>v_states := (v_states v)[vs_insn_idx s := Some s], v_pruner := p, v_handles := v_handles v @ hs\<rparr>"
    show ?case
      using check_or_record_Continue(1,2) [OF c] cap v' by (simp add: at_capacity_def diff_less_mono2)
  qed
qed

section \<open>The phases\<close>

definition check_basic :: "profile \<Rightarrow> bpf_insn list \<Rightarrow> verify_error + unit" where
  "check_basic P insns =
     (if insns = [] then Inl EmptyProgram
      else if MAX_INSN_COUNT P < length insns then
        Inl (InsnCountExceeded (length insns) (MAX_INSN_COUNT P))
      else if \<not> list_ex is_exit insns then Inl NoExit
      else
        fold (\<lambda>(idx, insn) r. res_bind r (\<lambda>_.
            if insn_class insn = None then Inl (InvalidOpcode idx (opcode insn))
            else if 10 < dst_reg insn then Inl (InvalidRegister idx (dst_reg insn))
            else if 10 < src_reg insn then Inl (InvalidRegister idx (src_reg insn))
            else Inr ()))
          (enumerate 0 insns) (Inr ()))"

text \<open>The loop over the instructions in the embedded constraints; \<open>ALLOC_HELPERS\<close> is empty.\<close>

definition check_rt_helpers :: "bpf_insn list \<Rightarrow> verify_error + unit" where
  "check_rt_helpers insns =
     fold (\<lambda>(idx, insn) r. res_bind r (\<lambda>_.
         if is_call insn \<and> insn_imm insn = helper_raw TracePrintk
         then Inl (HelperForbiddenOnRtFragment idx (insn_imm insn))
         else Inr ()))
       (enumerate 0 insns) (Inr ())"

definition verify_embedded_constraints :: "profile \<Rightarrow> cfg \<Rightarrow> bpf_insn list \<Rightarrow> verify_error + unit" where
  "verify_embedded_constraints P c insns =
     (if has_loops c \<and> back_edges c \<noteq> [] then Inl (UnboundedLoop (fst (hd (back_edges c))))
      else
        res_bind (check_rt_helpers insns) (\<lambda>_.
          let cycles = wcet_cycles insns c
          in if WCET_CYCLE_BUDGET P < cycles then Inl (WcetExceeded cycles (WCET_CYCLE_BUDGET P))
             else Inr ()))"

definition verify_profile_constraints :: "profile \<Rightarrow> cfg \<Rightarrow> bpf_insn list \<Rightarrow> verify_error + unit" where
  "verify_profile_constraints P c insns =
     (if embedded_feature P then verify_embedded_constraints P c insns else Inr ())"

definition check_reachability :: "cfg \<Rightarrow> bpf_insn list \<Rightarrow> verify_error + unit" where
  "check_reachability c insns =
     (let reachable = reachable_instructions c
      in fold (\<lambda>idx r. res_bind r (\<lambda>_.
             if 0 < idx \<and> is_wide (insns ! (idx - 1)) then Inr ()
             else if idx \<notin> reachable \<and> \<not> is_exit (insns ! idx) then Inl (UnreachableInstruction idx)
             else Inr ()))
           [0..<length insns] (Inr ()))"

definition initial_state :: "profile \<Rightarrow> verify_config \<Rightarrow> verifier_state" where
  "initial_state P cfg =
     (let s = state_new_entry (MAX_STACK_SIZE P)
      in set_reg s R1 ((vs_regs s R1)\<lparr>rs_mem_range := Some (ctx_size cfg)\<rparr>))"

definition max_stack_depth :: "verifier_state option list \<Rightarrow> nat" where
  "max_stack_depth states =
     fold max (map (\<lambda>s. ss_max_depth (vs_stack s)) (List.map_filter id states)) 0"

definition verify_safety ::
  "profile \<Rightarrow> verify_config \<Rightarrow> cfg \<Rightarrow> bpf_insn list \<Rightarrow> verify_error + nat \<times> verifier" where
  "verify_safety P cfg c insns =
     res_bind (check_reachability c insns) (\<lambda>_.
       let v = \<lparr>v_states = replicate (length insns) None, v_pruner = pruner_clear pruner_new, v_handles = []\<rparr>;
           live = liveness_analyze insns c
       in res_bind (explore P cfg live insns None [initial_state P cfg] v) (\<lambda>v'.
            Inr (max_stack_depth (v_states v'), v')))"

record verify_stats =
  states_explored :: nat
  stat_wcet_cycles :: u64
  referenced_map_handles :: "u32 list"

record verified_program =
  vp_insns :: "bpf_insn list"
  vp_stack_size :: nat

text \<open>
  \<open>from_verified_parts\<close>: every program type the enumeration has in a profile is allowed there, so
  the program type plays no role.
\<close>

definition from_verified_parts :: "profile \<Rightarrow> bpf_insn list \<Rightarrow> nat \<Rightarrow> verify_error + verified_program" where
  "from_verified_parts P insns stack_size =
     (if MAX_STACK_SIZE P < stack_size then Inl (StackExceeded stack_size (MAX_STACK_SIZE P))
      else if MAX_INSN_COUNT P < length insns then
        Inl (InsnCountExceeded (length insns) (MAX_INSN_COUNT P))
      else Inr \<lparr>vp_insns = insns, vp_stack_size = stack_size\<rparr>)"

definition verify_with_stats ::
  "profile \<Rightarrow> bpf_insn list \<Rightarrow> verify_config \<Rightarrow> verify_error + verified_program \<times> verify_stats" where
  "verify_with_stats P insns cfg =
     res_bind (check_basic P insns) (\<lambda>_.
       let c = cfg_build insns
       in res_bind (verify_profile_constraints P c insns) (\<lambda>_.
          res_bind (verify_safety P cfg c insns) (\<lambda>(stack_size, v).
            let stats = \<lparr>states_explored = pr_count (v_pruner v), stat_wcet_cycles = wcet_cycles insns c,
                         referenced_map_handles = remdups_adj (sort (v_handles v))\<rparr>
            in res_bind (from_verified_parts P insns stack_size) (\<lambda>prog. Inr (prog, stats)))))"

definition verify_with_config :: "profile \<Rightarrow> bpf_insn list \<Rightarrow> verify_config \<Rightarrow> verify_error + verified_program" where
  "verify_with_config P insns cfg =
     res_bind (verify_with_stats P insns cfg) (\<lambda>(prog, _). Inr prog)"

end
