(* ===== verification/Exploration.thy ===== *)
theory Exploration
  imports Verifier
begin

text \<open>
  What the exploration of \<open>verifier/core.rs\<close> establishes. Ignoring pruning, the verifier states form
  a transition system: \<open>verifier_succs\<close> lists the states that follow a checked one and
  \<open>verifier_reaches\<close> is reachability from the entry state. An accepted program has a certificate: a
  set of explored states that covers the entry state, all of whose members pass the instruction
  checks, and whose successors are covered again. Covering is the pruner's subsumption on the live
  registers, so the certificate is exactly what pruning leaves behind.
\<close>

section \<open>The transition system\<close>

definition verifier_succs :: "profile \<Rightarrow> verify_config \<Rightarrow> bpf_insn list \<Rightarrow> verifier_state \<Rightarrow> verifier_state list" where
  "verifier_succs P cfg insns s =
     (case verify_insn P cfg (insns ! vs_insn_idx s) s (vs_insn_idx s) of
        Inl _ \<Rightarrow> []
      | Inr (r, s', _) \<Rightarrow>
          (case next_states (insns ! vs_insn_idx s) r s' of (cur, push) \<Rightarrow>
             (case cur of None \<Rightarrow> [] | Some t \<Rightarrow> [t]) @ push))"

inductive verifier_reaches :: "profile \<Rightarrow> verify_config \<Rightarrow> bpf_insn list \<Rightarrow> verifier_state \<Rightarrow> bool"
  for P cfg insns where
  reaches_init: "verifier_reaches P cfg insns (initial_state P cfg)"
| reaches_step: "verifier_reaches P cfg insns s \<Longrightarrow> vs_insn_idx s < length insns
    \<Longrightarrow> t \<in> set (verifier_succs P cfg insns s) \<Longrightarrow> verifier_reaches P cfg insns t"

text \<open>
  An executable form: the states reachable in at most \<open>n\<close> rounds, and whether all of them satisfy a
  predicate and the frontier is empty after that.
\<close>

fun all_reachable ::
  "(verifier_state \<Rightarrow> bool) \<Rightarrow> profile \<Rightarrow> verify_config \<Rightarrow> bpf_insn list \<Rightarrow> nat \<Rightarrow> verifier_state list \<Rightarrow> bool" where
  "all_reachable Q P cfg insns 0 frontier = (frontier = [])"
| "all_reachable Q P cfg insns (Suc n) frontier =
     (list_all Q frontier
      \<and> all_reachable Q P cfg insns n
          (concat (map (\<lambda>s. if vs_insn_idx s < length insns then verifier_succs P cfg insns s else []) frontier)))"

definition covered :: "liveness \<Rightarrow> verifier_state set \<Rightarrow> verifier_state \<Rightarrow> bool" where
  "covered live S s \<longleftrightarrow>
     (\<exists>t \<in> S. vs_insn_idx t = vs_insn_idx s
        \<and> subsumes_with_liveness t s (regset_contains (live_in live (vs_insn_idx s))))"

definition checked ::
  "profile \<Rightarrow> verify_config \<Rightarrow> liveness \<Rightarrow> bpf_insn list \<Rightarrow> verifier_state set \<Rightarrow> verifier_state \<Rightarrow> bool" where
  "checked P cfg live insns S t \<longleftrightarrow>
     vs_insn_idx t < length insns
     \<and> (\<exists>x. verify_insn P cfg (insns ! vs_insn_idx t) t (vs_insn_idx t) = Inr x)
     \<and> (\<forall>u \<in> set (verifier_succs P cfg insns t). covered live S u)"

definition certificate ::
  "profile \<Rightarrow> verify_config \<Rightarrow> liveness \<Rightarrow> bpf_insn list \<Rightarrow> verifier_state set \<Rightarrow> bool" where
  "certificate P cfg live insns S \<longleftrightarrow>
     covered live S (initial_state P cfg)
     \<and> (\<forall>t \<in> S. checked P cfg live insns S t \<and> verifier_reaches P cfg insns t)"

section \<open>Reachability by enumeration\<close>

lemma all_reachable_sound:
  assumes all: "all_reachable Q P cfg insns n frontier"
    and start: "s \<in> set frontier"
    and steps: "(s, t) \<in> {(s, t). vs_insn_idx s < length insns \<and> t \<in> set (verifier_succs P cfg insns s)}\<^sup>*"
  shows "Q t"
  using steps all start
proof (induction arbitrary: n frontier rule: converse_rtrancl_induct)
  case base
  then show ?case by (cases n) (auto simp: list_all_iff)
next
  case (step s u)
  then obtain m where m: "n = Suc m" by (cases n) auto
  have "u \<in> set (concat (map (\<lambda>s. if vs_insn_idx s < length insns then verifier_succs P cfg insns s else []) frontier))"
    using step.hyps(1) step.prems(2) by (auto intro!: bexI [of _ s])
  from step.IH [OF _ this, of m] step.prems(1) m show ?case by simp
qed

lemma verifier_reaches_rtrancl:
  assumes "verifier_reaches P cfg insns t"
  shows "(initial_state P cfg, t)
    \<in> {(s, t). vs_insn_idx s < length insns \<and> t \<in> set (verifier_succs P cfg insns s)}\<^sup>*"
  using assms
proof induction
  case (reaches_step s t)
  then show ?case by (blast intro: rtrancl_into_rtrancl)
qed simp

lemma all_reachable_reaches:
  assumes "all_reachable Q P cfg insns n [initial_state P cfg]" "verifier_reaches P cfg insns t"
  shows "Q t"
  using all_reachable_sound [OF assms(1) _ verifier_reaches_rtrancl [OF assms(2)]] by simp

section \<open>The certificate of an accepted program\<close>

lemma covered_mono: "covered live S s \<Longrightarrow> S \<subseteq> T \<Longrightarrow> covered live T s"
  by (auto simp: covered_def)

lemma covered_self: "s \<in> S \<Longrightarrow> covered live S s"
  using subsumes_with_liveness_refl by (auto simp: covered_def)

lemma explore_round_prune:
  assumes "explore_round P cfg live insns s v = Inr (RoundBreak v')"
    and "recorded_states (v_pruner v) \<subseteq> (\<lambda>t. (vs_insn_idx t, t)) ` R"
  shows "covered live R s"
proof -
  have "\<exists>p. check_or_record_with_liveness (v_pruner v) (vs_insn_idx s) s (live_in live (vs_insn_idx s)) = (Prune, p)"
    using assms(1)
    by (auto simp: explore_round_def Let_def res_bind_eq_Inr_iff split: if_splits prune_decision.splits prod.splits)
  from this check_or_record_Prune(2) obtain t where
    "(vs_insn_idx s, t) \<in> recorded_states (v_pruner v)"
    "subsumes_with_liveness t s (regset_contains (live_in live (vs_insn_idx s)))" by blast
  moreover from this(1) assms(2) have "t \<in> R" "vs_insn_idx t = vs_insn_idx s" by (blast, fastforce)
  ultimately show ?thesis by (auto simp: covered_def)
qed

lemma explore_round_succs:
  assumes "explore_round P cfg live insns s v = Inr (RoundNext cur push v')"
  shows "vs_insn_idx s < length insns"
    "\<exists>x. verify_insn P cfg (insns ! vs_insn_idx s) s (vs_insn_idx s) = Inr x"
    "set (verifier_succs P cfg insns s) = set_option cur \<union> set push"
    "recorded_states (v_pruner v') \<subseteq> insert (vs_insn_idx s, s) (recorded_states (v_pruner v))"
  using assms
  by (rule explore_round_next,
      auto simp: verifier_succs_def dest: check_or_record_Continue(5) split: option.splits)+

lemma explore_certifies:
  assumes "explore P cfg live insns cur work v = Inr v'"
    and "recorded_states (v_pruner v) \<subseteq> (\<lambda>t. (vs_insn_idx t, t)) ` R"
    and "\<forall>s \<in> set_option cur \<union> set work. verifier_reaches P cfg insns s"
  shows "\<exists>S. R \<subseteq> S \<and> (\<forall>s \<in> set_option cur \<union> set work. covered live S s)
    \<and> (\<forall>t \<in> S - R. checked P cfg live insns S t \<and> verifier_reaches P cfg insns t)"
  using assms
proof (induction P cfg live insns cur work v arbitrary: R rule: explore.induct)
  case (1 P cfg live insns v)
  then show ?case by (intro exI [of _ R]) auto
next
  case (2 P cfg live insns s work v)
  from 2 show ?case by simp
next
  case (3 P cfg live insns s work v)
  show ?case
  proof (cases "explore_round P cfg live insns s v")
    case (Inl e)
    with "3.prems"(1) show ?thesis by simp
  next
    case r: (Inr round)
    show ?thesis
    proof (cases round)
      case [simp]: (RoundBreak v1)
      have v1: "v1 = v" using r explore_round_break by simp
      have "explore P cfg live insns None work v1 = Inr v'" using "3.prems"(1) r by simp
      from "3.IH"(1) [OF r RoundBreak this, of R] "3.prems"(2,3) v1 obtain S where
        S: "R \<subseteq> S" "\<forall>s \<in> set work. covered live S s"
          "\<forall>t \<in> S - R. checked P cfg live insns S t \<and> verifier_reaches P cfg insns t" by auto
      have "covered live S s"
        using explore_round_prune [of P cfg live insns s v v1 R] r "3.prems"(2) S(1) covered_mono by auto
      with S show ?thesis by auto
    next
      case [simp]: (RoundNext cur push v1)
      note n = explore_round_succs [OF r [unfolded RoundNext]]
      let ?R = "insert s R"
      have e: "explore P cfg live insns cur (push @ work) v1 = Inr v'" using "3.prems"(1) r by simp
      have reach: "verifier_reaches P cfg insns s" using "3.prems"(3) by simp
      have rec: "recorded_states (v_pruner v1) \<subseteq> (\<lambda>t. (vs_insn_idx t, t)) ` ?R"
        using n(4) "3.prems"(2) by auto
      have nxt: "\<forall>s \<in> set_option cur \<union> set (push @ work). verifier_reaches P cfg insns s"
        using n(1,3) "3.prems"(3) reaches_step [OF reach] by auto
      from "3.IH"(2) [OF r RoundNext e rec nxt] obtain S where
        S: "?R \<subseteq> S" "\<forall>s \<in> set_option cur \<union> set (push @ work). covered live S s"
          "\<forall>t \<in> S - ?R. checked P cfg live insns S t \<and> verifier_reaches P cfg insns t" by blast
      have "checked P cfg live insns S s" using n S(2) by (auto simp: checked_def)
      with S reach covered_self [of s S live] show ?thesis by (intro exI [of _ S]) auto
    qed
  qed
qed

lemma recorded_states_clear: "recorded_states (pruner_clear p) = {}"
  by (simp add: recorded_states_def pruner_clear_def)

lemma verify_with_config_explored:
  assumes "verify_with_config P insns cfg = Inr prog"
  obtains v' where "check_basic P insns = Inr ()"
    "verify_profile_constraints P (cfg_build insns) insns = Inr ()"
    "check_reachability (cfg_build insns) insns = Inr ()"
    "explore P cfg (liveness_analyze insns (cfg_build insns)) insns None [initial_state P cfg]
       \<lparr>v_states = replicate (length insns) None, v_pruner = pruner_clear pruner_new, v_handles = []\<rparr> = Inr v'"
    "from_verified_parts P insns (max_stack_depth (v_states v')) = Inr prog"
  using assms
  by (auto simp: verify_with_config_def verify_with_stats_def verify_safety_def Let_def res_bind_eq_Inr_iff
      simp del: explore.simps)

lemma accepted_certificate:
  assumes "verify_with_config P insns cfg = Inr prog"
  shows "\<exists>S. certificate P cfg (liveness_analyze insns (cfg_build insns)) insns S"
  using assms
proof (rule verify_with_config_explored)
  fix v'
  assume e: "explore P cfg (liveness_analyze insns (cfg_build insns)) insns None [initial_state P cfg]
       \<lparr>v_states = replicate (length insns) None, v_pruner = pruner_clear pruner_new, v_handles = []\<rparr> = Inr v'"
  have "\<exists>S. {} \<subseteq> S \<and> (\<forall>s \<in> set_option None \<union> set [initial_state P cfg].
      covered (liveness_analyze insns (cfg_build insns)) S s)
    \<and> (\<forall>t \<in> S - {}. checked P cfg (liveness_analyze insns (cfg_build insns)) insns S t
         \<and> verifier_reaches P cfg insns t)"
    by (rule explore_certifies [OF e]) (simp_all add: recorded_states_clear reaches_init)
  then show ?thesis by (simp add: certificate_def)
qed

end
