(* ===== verification/Interpreter.thy ===== *)
theory Interpreter
  imports Helpers
begin

text \<open>
  The interpreter (\<open>execution/interpreter.rs\<close>) with its context and error types
  (\<open>execution/mod.rs\<close>). The BPF stack is the byte slice the code uses; memory reached through
  raw pointers is a byte map with the sets of addresses that may be read and written, and an
  access outside them is undefined behaviour, a separate outcome next to the errors the code
  returns. The kernel functions behind \<open>extern "C"\<close> are an argument of the model.
  Words are little-endian, as on both targets (x86-64 and AArch64), and \<open>+\<close> on \<open>u64\<close> wraps, as in
  the release builds that ship.
\<close>

section \<open>Context, memory, errors\<close>

datatype bpf_error =
  BpfDivisionByZero | BpfOutOfBounds | BpfStackOverflow | BpfInvalidHelper i32 | BpfTimeout
| BpfInvalidInstruction | BpfNotLoaded | BpfOutOfMemory | BpfResourceLimit | BpfObjectBusy
| BpfPermissionDenied | BpfReentrantExecution | BpfVerificationFailed | BpfSignatureRejected
| BpfAdmissionRejected | BpfGpioFanoutExceeded | BpfReadOnlyMap

text \<open>How a step can fail: with an error value, or by a raw access to memory that is not there.\<close>

datatype fault = Err bpf_error | Undefined

record raw_context =
  ctx_data :: u64
  ctx_data_end :: u64
  ctx_data_meta :: u64
  ctx_interrupt_latency_ns :: u64
  ctx_boot_time_ms :: u64
  ctx_kernel_heap_kb :: u64
  ctx_kernel_image_mb :: u64

definition context_empty :: raw_context where
  "context_empty = \<lparr>ctx_data = 0, ctx_data_end = 0, ctx_data_meta = 0, ctx_interrupt_latency_ns = 0,
     ctx_boot_time_ms = 0, ctx_kernel_heap_kb = 0, ctx_kernel_image_mb = 0\<rparr>"

definition context_from_slice :: "u64 \<Rightarrow> nat \<Rightarrow> raw_context" where
  "context_from_slice ptr len = context_empty\<lparr>ctx_data := ptr, ctx_data_end := ptr + of_nat len\<rparr>"

text \<open>\<open>size_of::<BpfContext>()\<close>: seven eight-byte fields, \<open>repr(C)\<close>.\<close>

definition context_struct_size :: nat where
  "context_struct_size = 56"

record raw_memory =
  rm_bytes :: "u64 \<Rightarrow> u8"
  rm_readable :: "u64 \<Rightarrow> bool"
  rm_writable :: "u64 \<Rightarrow> bool"

text \<open>Where the caller of the interpreter has put the context and the stack buffer.\<close>

record exec_env =
  env_ctx :: raw_context
  env_ctx_addr :: u64
  env_stack_addr :: u64

subsection \<open>Little-endian bytes\<close>

definition le_value :: "u8 list \<Rightarrow> u64" where
  "le_value bs = foldr (\<lambda>b acc. push_bit 8 acc OR ucast b) bs 0"

definition le_bytes :: "nat \<Rightarrow> u64 \<Rightarrow> u8 list" where
  "le_bytes n v = map (\<lambda>i. ucast (drop_bit (8 * i) v)) [0..<n]"

definition swap_bytes :: "nat \<Rightarrow> u64 \<Rightarrow> u64" where
  "swap_bytes n v = le_value (rev (le_bytes n v))"

subsection \<open>Raw accesses\<close>

definition range_all :: "(u64 \<Rightarrow> bool) \<Rightarrow> u64 \<Rightarrow> nat \<Rightarrow> bool" where
  "range_all p addr n \<longleftrightarrow> list_all (\<lambda>i. p (addr + of_nat i)) [0..<n]"

definition read_unaligned :: "raw_memory \<Rightarrow> u64 \<Rightarrow> nat \<Rightarrow> fault + u64" where
  "read_unaligned m addr n =
     (if range_all (rm_readable m) addr n
      then Inr (le_value (map (\<lambda>i. rm_bytes m (addr + of_nat i)) [0..<n]))
      else Inl Undefined)"

definition write_bytes :: "(u64 \<Rightarrow> u8) \<Rightarrow> u64 \<Rightarrow> u8 list \<Rightarrow> u64 \<Rightarrow> u8" where
  "write_bytes f addr bs = fold (\<lambda>(i, b) g. g(addr + of_nat i := b)) (enumerate 0 bs) f"

definition write_unaligned :: "raw_memory \<Rightarrow> u64 \<Rightarrow> nat \<Rightarrow> u64 \<Rightarrow> fault + raw_memory" where
  "write_unaligned m addr n v =
     (if range_all (rm_writable m) addr n
      then Inr (m\<lparr>rm_bytes := write_bytes (rm_bytes m) addr (le_bytes n v)\<rparr>)
      else Inl Undefined)"

section \<open>The kernel functions the helpers call\<close>

text \<open>
  One field per function of the \<open>extern "C"\<close> block, on the raw memory and the rest \<open>'w\<close> of the
  kernel state. A pointer argument is its address.
\<close>

type_synonym 'w kernel = "raw_memory \<times> 'w"

record 'w extern_helpers =
  bpf_ktime_get_ns :: "'w kernel \<Rightarrow> u64 \<times> 'w kernel"
  bpf_get_interrupt_latency_ns :: "u64 \<Rightarrow> 'w kernel \<Rightarrow> u64 \<times> 'w kernel"
  bpf_get_boot_time_ms :: "u64 \<Rightarrow> 'w kernel \<Rightarrow> u64 \<times> 'w kernel"
  bpf_get_kernel_heap_kb :: "u64 \<Rightarrow> 'w kernel \<Rightarrow> u64 \<times> 'w kernel"
  bpf_get_kernel_image_mb :: "u64 \<Rightarrow> 'w kernel \<Rightarrow> u64 \<times> 'w kernel"
  bpf_trace_printk :: "u64 \<Rightarrow> u32 \<Rightarrow> 'w kernel \<Rightarrow> i32 \<times> 'w kernel"
  bpf_map_lookup_elem :: "u32 \<Rightarrow> u64 \<Rightarrow> 'w kernel \<Rightarrow> u64 \<times> 'w kernel"
  bpf_map_update_elem :: "u32 \<Rightarrow> u64 \<Rightarrow> u64 \<Rightarrow> u64 \<Rightarrow> 'w kernel \<Rightarrow> i32 \<times> 'w kernel"
  bpf_map_delete_elem :: "u32 \<Rightarrow> u64 \<Rightarrow> 'w kernel \<Rightarrow> i32 \<times> 'w kernel"
  bpf_ringbuf_output :: "u32 \<Rightarrow> u64 \<Rightarrow> u64 \<Rightarrow> u64 \<Rightarrow> 'w kernel \<Rightarrow> u64 \<times> 'w kernel"
  bpf_timeseries_push :: "u32 \<Rightarrow> u64 \<Rightarrow> u64 \<Rightarrow> 'w kernel \<Rightarrow> u64 \<times> 'w kernel"
  bpf_gpio_read :: "u32 \<Rightarrow> 'w kernel \<Rightarrow> u64 \<times> 'w kernel"
  bpf_gpio_write :: "u32 \<Rightarrow> u32 \<Rightarrow> 'w kernel \<Rightarrow> u64 \<times> 'w kernel"
  bpf_pwm_write :: "u32 \<Rightarrow> u32 \<Rightarrow> u32 \<Rightarrow> 'w kernel \<Rightarrow> u64 \<times> 'w kernel"
  bpf_motor_pair_v1 :: "u32 \<Rightarrow> u32 \<Rightarrow> 'w kernel \<Rightarrow> u64 \<times> 'w kernel"

section \<open>One instruction\<close>

record 'w machine =
  mc_regs :: register_file
  mc_stack :: "u8 list"
  mc_kernel :: "'w kernel"

datatype insn_result = IContinue | IJump i16 | IExit | IWideLoad

definition imm_u64 :: "i32 \<Rightarrow> u64" where
  "imm_u64 i = scast i"

text \<open>The \<open>match alu_op\<close> of \<open>execute_alu\<close>.\<close>

definition alu_value :: "alu_op \<Rightarrow> i32 \<Rightarrow> u64 \<Rightarrow> u64 \<Rightarrow> fault + u64" where
  "alu_value op i dst_val src_val =
     (case op of
        Add \<Rightarrow> Inr (dst_val + src_val)
      | Sub \<Rightarrow> Inr (dst_val - src_val)
      | Mul \<Rightarrow> Inr (dst_val * src_val)
      | Div \<Rightarrow> if src_val = 0 then Inl (Err BpfDivisionByZero) else Inr (dst_val div src_val)
      | Or \<Rightarrow> Inr (dst_val OR src_val)
      | And \<Rightarrow> Inr (dst_val AND src_val)
      | Lsh \<Rightarrow> Inr (push_bit (unat (src_val AND 0x3f)) dst_val)
      | Rsh \<Rightarrow> Inr (drop_bit (unat (src_val AND 0x3f)) dst_val)
      | Neg \<Rightarrow> Inr (- dst_val)
      | Mod \<Rightarrow> if src_val = 0 then Inl (Err BpfDivisionByZero) else Inr (dst_val mod src_val)
      | Xor \<Rightarrow> Inr (dst_val XOR src_val)
      | Mov \<Rightarrow> Inr src_val
      | Arsh \<Rightarrow> Inr (signed_drop_bit (unat (src_val AND 0x3f)) dst_val)
      | End \<Rightarrow>
          if i = 16 then Inr (swap_bytes 2 dst_val)
          else if i = 32 then Inr (swap_bytes 4 dst_val)
          else if i = 64 then Inr (swap_bytes 8 dst_val)
          else Inl (Err BpfInvalidInstruction))"

definition source_value :: "bpf_insn \<Rightarrow> register_file \<Rightarrow> fault + u64" where
  "source_value insn rf =
     (if source_from_opcode (opcode insn) = Src_Reg
      then res_bind (ok_or (register_from_raw (src_reg insn)) (Err BpfInvalidInstruction))
             (\<lambda>src. Inr (register_file_get rf src))
      else Inr (imm_u64 (insn_imm insn)))"

definition execute_alu :: "bpf_insn \<Rightarrow> register_file \<Rightarrow> bool \<Rightarrow> fault + register_file" where
  "execute_alu insn rf is_64bit =
     res_bind (ok_or (register_from_raw (dst_reg insn)) (Err BpfInvalidInstruction)) (\<lambda>dst.
     res_bind (source_value insn rf) (\<lambda>src_val.
     res_bind (ok_or (alu_from_opcode (opcode insn)) (Err BpfInvalidInstruction)) (\<lambda>op.
     res_bind (alu_value op (insn_imm insn) (register_file_get rf dst) src_val) (\<lambda>result.
       let result = (if is_64bit then result else ucast (ucast result :: u32))
       in Inr (register_file_set rf dst result)))))"

text \<open>The \<open>match jmp_op\<close> of \<open>execute_jmp\<close>.\<close>

definition jmp_condition :: "jmp_op \<Rightarrow> u64 \<Rightarrow> u64 \<Rightarrow> bool option" where
  "jmp_condition op d s =
     (case op of
        Jeq \<Rightarrow> Some (d = s)
      | Jgt \<Rightarrow> Some (s < d)
      | Jge \<Rightarrow> Some (s \<le> d)
      | Jlt \<Rightarrow> Some (d < s)
      | Jle \<Rightarrow> Some (d \<le> s)
      | Jset \<Rightarrow> Some (d AND s \<noteq> 0)
      | Jne \<Rightarrow> Some (d \<noteq> s)
      | Jsgt \<Rightarrow> Some (sint s < sint d)
      | Jsge \<Rightarrow> Some (sint s \<le> sint d)
      | Jslt \<Rightarrow> Some (sint d < sint s)
      | Jsle \<Rightarrow> Some (sint d \<le> sint s)
      | Ja \<Rightarrow> None
      | Call \<Rightarrow> None
      | Exit \<Rightarrow> None)"

text \<open>
  \<open>call_helper\<close>: the reconstruction of stack pointers (\<open>input_ptr\<close>) restores provenance and
  leaves the address unchanged.
\<close>

definition call_helper ::
  "'w extern_helpers \<Rightarrow> exec_env \<Rightarrow> i32 \<Rightarrow> (nat \<Rightarrow> u64) \<Rightarrow> 'w kernel \<Rightarrow> fault + u64 \<times> 'w kernel" where
  "call_helper ext env raw args k =
     res_bind (ok_or (helper_from_raw raw) (Err (BpfInvalidHelper raw))) (\<lambda>h.
     res_bind (ok_or (desc_runtime (get_helper_descriptor h)) (Err (BpfInvalidHelper raw))) (\<lambda>rt.
       let ctx = env_ctx_addr env;
           i32_ret = (\<lambda>(r :: i32, k). (scast r :: u64, k))
       in Inr (case rt of
          Rt_KtimeGetNs \<Rightarrow> bpf_ktime_get_ns ext k
        | Rt_GetInterruptLatencyNs \<Rightarrow> bpf_get_interrupt_latency_ns ext ctx k
        | Rt_GetBootTimeMs \<Rightarrow> bpf_get_boot_time_ms ext ctx k
        | Rt_GetKernelHeapKb \<Rightarrow> bpf_get_kernel_heap_kb ext ctx k
        | Rt_GetKernelImageMb \<Rightarrow> bpf_get_kernel_image_mb ext ctx k
        | Rt_TracePrintk \<Rightarrow> i32_ret (bpf_trace_printk ext (args 0) (ucast (args 1)) k)
        | Rt_MapLookupElem \<Rightarrow> bpf_map_lookup_elem ext (ucast (args 0)) (args 1) k
        | Rt_MapUpdateElem \<Rightarrow>
            i32_ret (bpf_map_update_elem ext (ucast (args 0)) (args 1) (args 2) (args 3) k)
        | Rt_MapDeleteElem \<Rightarrow> i32_ret (bpf_map_delete_elem ext (ucast (args 0)) (args 1) k)
        | Rt_RingbufOutput \<Rightarrow> bpf_ringbuf_output ext (ucast (args 0)) (args 1) (args 2) (args 3) k
        | Rt_TimeseriesPush \<Rightarrow> bpf_timeseries_push ext (ucast (args 0)) (args 1) (args 2) k
        | Rt_GpioSet \<Rightarrow> bpf_gpio_write ext (ucast (args 0)) (ucast (args 1)) k
        | Rt_GpioGet \<Rightarrow> bpf_gpio_read ext (ucast (args 0)) k
        | Rt_PwmWrite \<Rightarrow> bpf_pwm_write ext (ucast (args 0)) (ucast (args 1)) (ucast (args 2)) k
        | Rt_MotorPairV1 \<Rightarrow> bpf_motor_pair_v1 ext (ucast (args 0)) (ucast (args 1)) k)))"

definition execute_call ::
  "'w extern_helpers \<Rightarrow> exec_env \<Rightarrow> bpf_insn \<Rightarrow> 'w machine \<Rightarrow> fault + insn_result \<times> 'w machine" where
  "execute_call ext env insn m =
     (let rf = mc_regs m;
          args = (\<lambda>i :: nat. register_file_get rf
                    (if i = 0 then R1 else if i = 1 then R2 else if i = 2 then R3
                     else if i = 3 then R4 else R5))
      in res_bind (call_helper ext env (insn_imm insn) args (mc_kernel m)) (\<lambda>(result, k).
           Inr (IContinue, m\<lparr>mc_regs := register_file_set rf R0 result, mc_kernel := k\<rparr>)))"

definition execute_jmp ::
  "'w extern_helpers \<Rightarrow> exec_env \<Rightarrow> bpf_insn \<Rightarrow> bool \<Rightarrow> 'w machine \<Rightarrow> fault + insn_result \<times> 'w machine" where
  "execute_jmp ext env insn is_64bit m =
     res_bind (ok_or (jmp_from_opcode (opcode insn)) (Err BpfInvalidInstruction)) (\<lambda>op.
       if op = Call then execute_call ext env insn m
       else if op = Exit then Inr (IExit, m)
       else if op = Ja then Inr (IJump (insn_offset insn), m)
       else
         res_bind (ok_or (register_from_raw (dst_reg insn)) (Err BpfInvalidInstruction)) (\<lambda>dst.
         res_bind (source_value insn (mc_regs m)) (\<lambda>src_val0.
           let dst_val0 = register_file_get (mc_regs m) dst;
               (dst_val, src_val) = (if is_64bit then (dst_val0, src_val0)
                 else (ucast (ucast dst_val0 :: u32), ucast (ucast src_val0 :: u32)))
           in res_bind (ok_or (jmp_condition op dst_val src_val) (Err BpfInvalidInstruction)) (\<lambda>condition.
                if condition then Inr (IJump (insn_offset insn), m) else Inr (IContinue, m)))))"

definition stack_access_offset ::
  "u64 \<Rightarrow> nat \<Rightarrow> u64 \<Rightarrow> u64 \<Rightarrow> nat \<Rightarrow> bool \<Rightarrow> fault + nat option" where
  "stack_access_offset start len base addr sz frame_pointer =
     (let end_addr = start + of_nat len
      in if \<not> frame_pointer \<and> \<not> (start \<le> base \<and> base < end_addr) \<and> \<not> (start \<le> addr \<and> addr < end_addr)
         then Inr None
         else
           res_bind (ok_or (checked_sub addr start) (Err BpfOutOfBounds)) (\<lambda>offset.
             if len < unat offset \<or> len - unat offset < sz then Inl (Err BpfOutOfBounds)
             else Inr (Some (unat offset))))"

definition execute_load ::
  "exec_env \<Rightarrow> bpf_insn \<Rightarrow> 'w machine \<Rightarrow> fault + 'w machine" where
  "execute_load env insn m =
     res_bind (ok_or (register_from_raw (dst_reg insn)) (Err BpfInvalidInstruction)) (\<lambda>dst.
     res_bind (ok_or (register_from_raw (src_reg insn)) (Err BpfInvalidInstruction)) (\<lambda>src.
     res_bind (ok_or (size_from_opcode (opcode insn)) (Err BpfInvalidInstruction)) (\<lambda>sz.
       let base = register_file_get (mc_regs m) src;
           n = size_bytes sz;
           put = (\<lambda>v. m\<lparr>mc_regs := register_file_set (mc_regs m) dst v\<rparr>);
           raw = fst (mc_kernel m)
       in
       res_bind (ok_or (checked_add_signed base (sint (insn_offset insn))) (Err BpfOutOfBounds)) (\<lambda>addr.
       res_bind (stack_access_offset (env_stack_addr env) (length (mc_stack m)) base addr n (src = R10)) (\<lambda>so.
         case so of
           Some idx \<Rightarrow> Inr (put (le_value (take n (drop idx (mc_stack m)))))
         | None \<Rightarrow>
             let ctx_addr = env_ctx_addr env;
                 data_start = ctx_data (env_ctx env);
                 data_end = ctx_data_end (env_ctx env)
             in if ctx_addr \<le> addr \<and> addr + of_nat n \<le> ctx_addr + of_nat context_struct_size then
                  res_bind (read_unaligned raw addr n) (\<lambda>v. Inr (put v))
                else if data_start \<noteq> 0 \<and> data_start \<le> addr \<and> addr + of_nat n \<le> data_end then
                  res_bind (read_unaligned raw addr n) (\<lambda>v. Inr (put v))
                else if addr \<noteq> 0 then
                  res_bind (read_unaligned raw addr n) (\<lambda>v. Inr (put v))
                else Inl (Err BpfOutOfBounds))))))"

definition stack_store :: "u8 list \<Rightarrow> nat \<Rightarrow> u8 list \<Rightarrow> u8 list" where
  "stack_store st idx bs = take idx st @ bs @ drop (idx + length bs) st"

definition execute_store ::
  "exec_env \<Rightarrow> bpf_insn \<Rightarrow> 'w machine \<Rightarrow> fault + 'w machine" where
  "execute_store env insn m =
     res_bind (ok_or (register_from_raw (dst_reg insn)) (Err BpfInvalidInstruction)) (\<lambda>dst.
     res_bind (ok_or (class_from_opcode (opcode insn)) (Err BpfInvalidInstruction)) (\<lambda>cls.
     res_bind (if cls = St then Inr (imm_u64 (insn_imm insn))
               else res_bind (ok_or (register_from_raw (src_reg insn)) (Err BpfInvalidInstruction))
                      (\<lambda>src. Inr (register_file_get (mc_regs m) src))) (\<lambda>value.
     res_bind (ok_or (size_from_opcode (opcode insn)) (Err BpfInvalidInstruction)) (\<lambda>sz.
       let base = register_file_get (mc_regs m) dst;
           n = size_bytes sz
       in
       res_bind (ok_or (checked_add_signed base (sint (insn_offset insn))) (Err BpfOutOfBounds)) (\<lambda>addr.
       res_bind (stack_access_offset (env_stack_addr env) (length (mc_stack m)) base addr n (dst = R10)) (\<lambda>so.
         case so of
           Some idx \<Rightarrow> Inr (m\<lparr>mc_stack := stack_store (mc_stack m) idx (le_bytes n value)\<rparr>)
         | None \<Rightarrow>
             if addr \<noteq> 0 then
               res_bind (write_unaligned (fst (mc_kernel m)) addr n value) (\<lambda>raw.
                 Inr (m\<lparr>mc_kernel := (raw, snd (mc_kernel m))\<rparr>))
             else Inl (Err BpfOutOfBounds)))))))"

definition execute_insn ::
  "'w extern_helpers \<Rightarrow> exec_env \<Rightarrow> bpf_insn \<Rightarrow> 'w machine \<Rightarrow> fault + insn_result \<times> 'w machine" where
  "execute_insn ext env insn m =
     (if is_exit insn then Inr (IExit, m)
      else
        res_bind (ok_or (insn_class insn) (Err BpfInvalidInstruction)) (\<lambda>c.
          case c of
            Alu64 \<Rightarrow> res_bind (execute_alu insn (mc_regs m) True) (\<lambda>rf. Inr (IContinue, m\<lparr>mc_regs := rf\<rparr>))
          | Alu32 \<Rightarrow> res_bind (execute_alu insn (mc_regs m) False) (\<lambda>rf. Inr (IContinue, m\<lparr>mc_regs := rf\<rparr>))
          | Jmp \<Rightarrow> execute_jmp ext env insn True m
          | Jmp32 \<Rightarrow> execute_jmp ext env insn False m
          | Ldx \<Rightarrow> res_bind (execute_load env insn m) (\<lambda>m. Inr (IContinue, m))
          | Stx \<Rightarrow> res_bind (execute_store env insn m) (\<lambda>m. Inr (IContinue, m))
          | St \<Rightarrow> res_bind (execute_store env insn m) (\<lambda>m. Inr (IContinue, m))
          | Ld \<Rightarrow> Inr (IWideLoad, m)))"

section \<open>The loop\<close>

text \<open>
  One round of the loop in \<open>execute_with_stack\<close>, after the bounds and the instruction-count
  checks: either the program returns, or it goes on at a new position.
\<close>

datatype 'w round_result = RReturn u64 "'w kernel" | RNext nat "'w machine"

definition wide_value :: "bpf_insn \<Rightarrow> bpf_insn \<Rightarrow> u64" where
  "wide_value insn next_insn =
     ucast (insn_imm insn) OR push_bit 32 (ucast (insn_imm next_insn))"

definition exec_round ::
  "'w extern_helpers \<Rightarrow> exec_env \<Rightarrow> bpf_insn list \<Rightarrow> nat \<Rightarrow> 'w machine \<Rightarrow> fault + 'w round_result" where
  "exec_round ext env insns pc m =
     (let insn = insns ! pc
      in if is_wide insn then
           (if length insns \<le> pc + 1 then Inl (Err BpfInvalidInstruction)
            else
              res_bind (ok_or (register_from_raw (dst_reg insn)) (Err BpfInvalidInstruction)) (\<lambda>dst.
                Inr (RNext (pc + 2)
                  (m\<lparr>mc_regs := register_file_set (mc_regs m) dst (wide_value insn (insns ! (pc + 1)))\<rparr>))))
         else
           res_bind (execute_insn ext env insn m) (\<lambda>(r, m).
             case r of
               IContinue \<Rightarrow> Inr (RNext (pc + 1) m)
             | IJump off \<Rightarrow> Inr (RNext (nat ((int pc + 1 + sint off) mod 18446744073709551616)) m)
             | IExit \<Rightarrow> Inr (RReturn (register_file_get (mc_regs m) R0) (mc_kernel m))
             | IWideLoad \<Rightarrow> Inl (Err BpfInvalidInstruction)))"

function exec_loop ::
  "'w extern_helpers \<Rightarrow> exec_env \<Rightarrow> bpf_insn list \<Rightarrow> nat \<Rightarrow> nat \<Rightarrow> nat \<Rightarrow> 'w machine \<Rightarrow> fault + u64 \<times> 'w kernel" where
  "exec_loop ext env insns insn_limit insn_count pc m =
     (if length insns \<le> pc then Inl (Err BpfOutOfBounds)
      else if insn_limit < insn_count + 1 then Inl (Err BpfTimeout)
      else
        case exec_round ext env insns pc m of
          Inl e \<Rightarrow> Inl e
        | Inr (RReturn v k) \<Rightarrow> Inr (v, k)
        | Inr (RNext pc' m') \<Rightarrow> exec_loop ext env insns insn_limit (insn_count + 1) pc' m')"
  by pat_completeness auto

termination
  by (relation "measure (\<lambda>(_, _, _, insn_limit, insn_count, _, _). insn_limit - insn_count)") auto

declare exec_loop.simps [simp del]

definition initial_regs :: "exec_env \<Rightarrow> nat \<Rightarrow> register_file" where
  "initial_regs env max_stack =
     (register_file_set (register_file_set register_file_new R1 (env_ctx_addr env)) R10
        (env_stack_addr env + of_nat max_stack))"

text \<open>
  \<open>execute_with_stack\<close> on a program given by its instructions and its computed stack size; the
  caller's buffer is \<open>buf\<close>, of which the first \<open>MAX_STACK_SIZE\<close> bytes are used. A computed size
  above the limit would make the slice bounds underflow and panic; \<open>from_verified_parts\<close> excludes
  it.
\<close>

definition execute_with_stack ::
  "profile \<Rightarrow> 'w extern_helpers \<Rightarrow> exec_env \<Rightarrow> bpf_insn list \<Rightarrow> nat \<Rightarrow> u8 list \<Rightarrow> 'w kernel
     \<Rightarrow> fault + u64 \<times> 'w kernel" where
  "execute_with_stack P ext env insns stack_size buf k =
     (if insns = [] then Inl (Err BpfNotLoaded)
      else if length buf < MAX_STACK_SIZE P then Inl (Err BpfOutOfBounds)
      else
        let stack = take (MAX_STACK_SIZE P) buf;
            used_stack_start = MAX_STACK_SIZE P - stack_size;
            stack = take used_stack_start stack @ replicate (MAX_STACK_SIZE P - used_stack_start) 0
        in exec_loop ext env insns (MAX_INSN_COUNT P) 0 0
             \<lparr>mc_regs = initial_regs env (MAX_STACK_SIZE P), mc_stack = stack, mc_kernel = k\<rparr>)"

section \<open>Facts about the interpreter\<close>

lemma le_bytes_length [simp]: "length (le_bytes n v) = n"
  by (simp add: le_bytes_def)

lemma bit_le_value:
  "bit (le_value bs) n \<longleftrightarrow> n < 64 \<and> n div 8 < length bs \<and> bit (bs ! (n div 8)) (n mod 8)"
proof (induction bs arbitrary: n)
  case (Cons b bs)
  show ?case
  proof (cases "n < 8")
    case True
    then show ?thesis by (simp add: le_value_def bit_or_iff bit_push_bit_iff bit_ucast_iff)
  next
    case False
    then have "n div 8 = Suc ((n - 8) div 8)" "n mod 8 = (n - 8) mod 8"
      by (simp_all add: le_div_geq le_mod_geq)
    moreover have "\<not> bit b n" using False bit_imp_le_length [of b n] by auto
    ultimately show ?thesis
      using False Cons.IH [of "n - 8"]
      by (auto simp: le_value_def bit_or_iff bit_push_bit_iff bit_ucast_iff)
  qed
qed (simp add: le_value_def)

lemma le_value_le_bytes: "n \<le> 8 \<Longrightarrow> le_value (le_bytes n v) = take_bit (8 * n) v"
proof (rule bit_word_eqI)
  fix k assume "n \<le> 8" and k: "k < LENGTH(64)"
  have eq: "8 * (k div 8) + k mod 8 = k" by simp
  show "bit (le_value (le_bytes n v)) k \<longleftrightarrow> bit (take_bit (8 * n) v) k"
  proof (cases "k div 8 < n")
    case True
    then have "k < 8 * n" by linarith
    then show ?thesis
      using True k eq
      by (auto simp: bit_le_value le_bytes_def bit_ucast_iff bit_drop_bit_eq bit_take_bit_iff
          intro: less_mult_imp_div_less)
  next
    case False
    then have "\<not> k < 8 * n" by linarith
    then show ?thesis using False by (simp add: bit_le_value bit_take_bit_iff)
  qed
qed

text \<open>A wide instruction loads the immediate it was built from.\<close>

lemma wide_value_ld_dw_imm:
  "wide_value (wide_first (ld_dw_imm d v)) (wide_next (ld_dw_imm d v)) = v"
  by (rule bit_word_eqI)
    (auto simp: wide_value_def ld_dw_imm_def insn_new_def bit_or_iff bit_push_bit_iff bit_ucast_iff
      bit_drop_bit_eq)

end
