(* ===== verification/Conformance.thy ===== *)
theory Conformance
  imports Exploration Interpreter
begin

text \<open>
  When a running machine conforms to a verifier state: each register holds a value its tracked type
  allows. Scalars matter where the verifier turns the known value of a register into a map, that is,
  when the configuration has per-map tables; their bounds are treated in \<open>Value_Soundness\<close>. The
  lemmas turn the verifier's access checks into facts about the addresses the interpreter computes.
\<close>

section \<open>Memory the program may reach\<close>

definition frame_top :: "profile \<Rightarrow> exec_env \<Rightarrow> u64" where
  "frame_top P env = env_stack_addr env + of_nat (MAX_STACK_SIZE P)"

text \<open>A place where a map value lives: readable for its size, and writable where writing is granted.\<close>

definition valid_value :: "raw_memory \<Rightarrow> u64 \<Rightarrow> u32 \<Rightarrow> bool \<Rightarrow> bool" where
  "valid_value mem base sz writable \<longleftrightarrow>
     range_all (rm_readable mem) base (unat sz)
     \<and> (writable \<longrightarrow> range_all (rm_writable mem) base (unat sz))"

text \<open>
  The size and the permission of the map that a handle names at run time: those of the tables the
  loader passes to the verifier, or the uniform ones where a table is empty.
\<close>

definition handle_size :: "verify_config \<Rightarrow> u32 \<Rightarrow> u32 option" where
  "handle_size cfg h =
     (if map_value_sizes cfg = [] then Some (map_value_size cfg)
      else Option.bind (map_handle_slot (ucast h) cfg) (nth_opt (map_value_sizes cfg)))"

definition handle_writable :: "verify_config \<Rightarrow> u32 \<Rightarrow> bool" where
  "handle_writable cfg h \<longleftrightarrow>
     map_perms cfg = []
     \<or> Option.bind (map_handle_slot (ucast h) cfg) (nth_opt (map_perms cfg)) \<in> {Some MapWriteOnly, Some MapReadWrite}"

definition tracks_handles :: "verify_config \<Rightarrow> bool" where
  "tracks_handles cfg \<longleftrightarrow> map_value_sizes cfg \<noteq> [] \<or> map_perms cfg \<noteq> []"

definition writable_value :: "map_writability \<Rightarrow> bool" where
  "writable_value w = (case w of ReadWrite _ \<Rightarrow> True | _ \<Rightarrow> False)"

text \<open>
  The context structure and the payload are readable for the sizes the loader configured, and the
  first field of the context holds the address of the payload and cannot be overwritten.
\<close>

definition mem_ok :: "verify_config \<Rightarrow> exec_env \<Rightarrow> raw_memory \<Rightarrow> bool" where
  "mem_ok cfg env mem \<longleftrightarrow>
     range_all (rm_readable mem) (env_ctx_addr env) (unat (ctx_size cfg))
     \<and> range_all (rm_readable mem) (ctx_data (env_ctx env)) (unat (ctx_data_size cfg))
     \<and> le_value (map (\<lambda>i. rm_bytes mem (env_ctx_addr env + of_nat i)) [0..<8]) = ctx_data (env_ctx env)
     \<and> list_all (\<lambda>i. \<not> rm_writable mem (env_ctx_addr env + of_nat i)) [0..<8]"

text \<open>The stack buffer does not wrap around the address space and does not hold the context.\<close>

definition env_ok :: "profile \<Rightarrow> exec_env \<Rightarrow> bool" where
  "env_ok P env \<longleftrightarrow>
     unat (env_stack_addr env) + MAX_STACK_SIZE P < 2 ^ 64
     \<and> \<not> (env_stack_addr env \<le> env_ctx_addr env \<and> env_ctx_addr env < frame_top P env)"

text \<open>
  What the kernel functions behind the helpers promise: memory handed to the program stays valid, the
  context keeps its payload pointer, and a pointer result is null or a value of the size of the map
  its handle names, writable where the program may write the map.
\<close>

definition helper_contract :: "'w extern_helpers \<Rightarrow> exec_env \<Rightarrow> verify_config \<Rightarrow> bool" where
  "helper_contract ext env cfg \<longleftrightarrow>
     (\<forall>raw args k v k'. call_helper ext env raw args k = Inr (v, k') \<longrightarrow> mem_ok cfg env (fst k) \<longrightarrow>
        mem_ok cfg env (fst k')
        \<and> (\<forall>base sz w. valid_value (fst k) base sz w \<longrightarrow> valid_value (fst k') base sz w)
        \<and> (\<forall>h. helper_from_raw raw = Some h \<longrightarrow>
             (sig_ret (helper_signature h) = RetPtrToMapValueOrNull \<longrightarrow>
                v = 0 \<or> (\<exists>sz. handle_size cfg (ucast (args 0)) = Some sz
                           \<and> valid_value (fst k') v sz (handle_writable cfg (ucast (args 0)))))
             \<and> (sig_ret (helper_signature h) = RetPtrToAllocMemOrNull \<longrightarrow>
                  v = 0 \<or> valid_value (fst k') v (map_value_size cfg) True)))"

section \<open>Conforming registers and machines\<close>

definition reg_conforms :: "profile \<Rightarrow> verify_config \<Rightarrow> exec_env \<Rightarrow> raw_memory \<Rightarrow> reg_state \<Rightarrow> u64 \<Rightarrow> bool" where
  "reg_conforms P cfg env mem rs v \<longleftrightarrow>
     (case rs_type rs of
        NotInit \<Rightarrow> True
      | Scalar \<Rightarrow> True
      | NullPtr \<Rightarrow> True
      | PtrToStack \<Rightarrow> v = frame_top P env + of_int (rs_offset rs)
      | PtrToFp \<Rightarrow> v = frame_top P env + of_int (rs_offset rs)
      | PtrToCtx \<Rightarrow>
          v = env_ctx_addr env + of_int (rs_offset rs) \<and> rs_mem_range rs = Some (ctx_size cfg)
          \<or> v = ctx_data (env_ctx env) + of_int (rs_offset rs) \<and> rs_mem_range rs = Some (ctx_data_size cfg)
      | PtrToMapValue \<Rightarrow>
          rs_maybe_null rs \<and> rs_offset rs = 0 \<and> v = 0
          \<or> (\<exists>rng. rs_mem_range rs = Some rng
               \<and> valid_value mem (v - of_int (rs_offset rs)) rng (writable_value (rs_writability rs)))
      | _ \<Rightarrow> False)
     \<and> (tracks_handles cfg \<longrightarrow> (case rs_scalar rs of None \<Rightarrow> True | Some sv \<Rightarrow> scalar_has sv v))"

definition conforms :: "profile \<Rightarrow> verify_config \<Rightarrow> exec_env \<Rightarrow> verifier_state \<Rightarrow> 'w machine \<Rightarrow> register \<Rightarrow> bool" where
  "conforms P cfg env s m r \<longleftrightarrow> reg_conforms P cfg env (fst (mc_kernel m)) (vs_regs s r) (mc_regs m r)"

definition machine_ok :: "profile \<Rightarrow> verify_config \<Rightarrow> exec_env \<Rightarrow> 'w machine \<Rightarrow> bool" where
  "machine_ok P cfg env m \<longleftrightarrow>
     length (mc_stack m) = MAX_STACK_SIZE P \<and> mc_regs m R10 = frame_top P env \<and> mem_ok cfg env (fst (mc_kernel m))"

definition state_ok :: "profile \<Rightarrow> verifier_state \<Rightarrow> bool" where
  "state_ok P s \<longleftrightarrow> vs_regs s R10 = reg_frame_ptr \<and> ss_capacity (vs_stack s) = MAX_STACK_SIZE P"

text \<open>Only scalars carry a scalar description, with well-formed known bits.\<close>

definition typed_reg :: "reg_state \<Rightarrow> bool" where
  "typed_reg rs \<longleftrightarrow> (case rs_scalar rs of None \<Rightarrow> True | Some sv \<Rightarrow> rs_type rs = Scalar \<and> tnum_wf (sc_tnum sv))"

section \<open>Addresses\<close>

lemma checked_add_signed_SomeD: "checked_add_signed a d = Some b \<Longrightarrow> b = a + of_int d"
  by (auto simp: rust_arith split: if_splits)

lemma wrap_i64_range: "i64_MIN \<le> wrap_i64 x" "wrap_i64 x \<le> i64_MAX"
proof -
  have "0 \<le> (x + 9223372036854775808) mod 18446744073709551616"
    "(x + 9223372036854775808) mod 18446744073709551616 < 18446744073709551616" by simp_all
  then show "i64_MIN \<le> wrap_i64 x" "wrap_i64 x \<le> i64_MAX" unfolding rust_arith by linarith+
qed

lemma range_all_iff: "range_all p addr n \<longleftrightarrow> (\<forall>i < n. p (addr + of_nat i))"
  by (auto simp: range_all_def list_all_iff)

lemma range_all_sub:
  assumes "range_all p base n" "0 \<le> off" "off + int sz \<le> int n"
  shows "range_all p (base + of_int off) sz"
  unfolding range_all_iff
proof (intro allI impI)
  fix i assume "i < sz"
  then have "nat off + i < n" using assms(2,3) by linarith
  moreover have "base + of_int off + of_nat i = base + of_nat (nat off + i)"
    using assms(2) by (simp add: add.assoc)
  ultimately show "p (base + of_int off + of_nat i)" using assms(1) by (simp only: range_all_iff)
qed

lemma mem_ok_readable:
  assumes "mem_ok cfg env mem"
  shows "range_all (rm_readable mem) (env_ctx_addr env) (unat (ctx_size cfg))"
    "range_all (rm_readable mem) (ctx_data (env_ctx env)) (unat (ctx_data_size cfg))"
  using assms unfolding mem_ok_def by blast+

text \<open>A valid stack access lands inside the buffer, at the slot the verifier computed.\<close>

lemma stack_access_inside:
  assumes env: "env_ok P env" and len: "len = MAX_STACK_SIZE P"
    and v: "v = frame_top P env + of_int off0"
    and valid: "is_valid_access st (wrap_i64 (off0 + off)) sz" "ss_capacity st = MAX_STACK_SIZE P"
    and addr: "checked_add_signed v off = Some addr"
  shows "\<exists>i. stack_access_offset (env_stack_addr env) len base addr sz fp = Inr (Some i) \<and> i + sz \<le> len"
proof -
  let ?start = "env_stack_addr env" and ?o = "wrap_i64 (off0 + off)" and ?N = "MAX_STACK_SIZE P"
  have cap: "int ?N \<le> i64_MAX" using valid by (auto simp: is_valid_access_def split: if_splits)
  have o: "0 < sz" "- int ?N \<le> ?o" "?o + int sz \<le> 0"
    using valid cap is_valid_access_iff [of st ?o sz] wrap_i64_range(1) by auto
  have "addr = ?start + (of_nat ?N + of_int (off0 + off))"
    using checked_add_signed_SomeD [OF addr] v by (simp add: frame_top_def)
  also have "(of_nat ?N :: u64) + of_int (off0 + off) = of_int (int ?N + ?o)"
    by (simp only: of_int_add of_int_of_nat_eq of_int_wrap_i64)
  also have "int ?N + ?o = int (nat (int ?N + ?o))" using o by simp
  finally have a: "addr = ?start + of_nat (nat (int ?N + ?o))" by (simp only: of_int_of_nat_eq)
  have b: "nat (int ?N + ?o) + sz \<le> ?N" using o by linarith
  then have u: "unat addr = unat ?start + nat (int ?N + ?o)"
    using env o(1) unfolding a env_ok_def by (subst unat_add_lem [THEN iffD1]) (simp_all add: unat_of_nat take_bit_nat_eq_self)
  have e: "unat (?start + of_nat ?N) = unat ?start + ?N"
    using env unfolding env_ok_def by (subst unat_add_lem [THEN iffD1]) (simp_all add: unat_of_nat take_bit_nat_eq_self)
  have "?start \<le> addr" "addr < ?start + of_nat ?N"
    using u e b o(1) by (simp_all add: word_le_nat_alt word_less_nat_alt)
  moreover have "unat (addr - ?start) = nat (int ?N + ?o)"
    using \<open>?start \<le> addr\<close> u by (simp add: unat_sub)
  ultimately show ?thesis
    using b len o(1) by (auto simp: stack_access_offset_def checked_sub_def not_less Let_def)
qed

lemma check_ranged_deref_okD:
  assumes "check_ranged_deref rs off sz idx = Inr ()" "sz \<le> 8"
  obtains rng where "\<not> rs_maybe_null rs" "rs_mem_range rs = Some rng"
    "0 \<le> wrap_i64 (rs_offset rs + off)" "wrap_i64 (rs_offset rs + off) + int sz \<le> uint rng"
proof -
  have "wrap_i64 (int sz) = int sz" using assms(2) by (simp add: rust_arith)
  with assms(1) that show ?thesis
    by (auto simp: check_ranged_deref_def checked_add_i64_def Let_def split: if_splits option.splits)
qed

text \<open>A checked access through a context or map pointer stays inside readable memory.\<close>

lemma ranged_access_inside:
  assumes conf: "reg_conforms P cfg env mem rs v" and mem: "mem_ok cfg env mem"
    and ok: "check_ranged_deref rs off sz idx = Inr ()" "sz \<le> 8"
    and ty: "can_read (rs_type rs)" "\<not> is_stack_ptr rs"
  shows "range_all (rm_readable mem) (v + of_int off) sz"
    "rs_type rs = PtrToMapValue \<Longrightarrow> writable_value (rs_writability rs) \<Longrightarrow> range_all (rm_writable mem) (v + of_int off) sz"
proof -
  from ok obtain rng where rng: "\<not> rs_maybe_null rs" "rs_mem_range rs = Some rng"
    "0 \<le> wrap_i64 (rs_offset rs + off)" "wrap_i64 (rs_offset rs + off) + int sz \<le> uint rng"
    by (rule check_ranged_deref_okD)
  have sub: "range_all p (v + of_int off) sz" if "range_all p (v - of_int (rs_offset rs)) (unat rng)" for p
    using range_all_sub [OF that rng(3) rng(4) [unfolded uint_nat]] by simp
  show "range_all (rm_writable mem) (v + of_int off) sz" if "rs_type rs = PtrToMapValue" "writable_value (rs_writability rs)"
    using conf rng(1,2) that by (intro sub) (simp add: reg_conforms_def valid_value_def)
  consider "rs_type rs = PtrToMapValue" | "rs_type rs = PtrToCtx" | "rs_type rs \<in> {PtrToPacket, PtrToPacketMeta}"
    using ty by (auto simp: can_read_def is_stack_ptr_def)
  then show "range_all (rm_readable mem) (v + of_int off) sz"
  proof cases
    case 1
    then show ?thesis using conf rng(1,2) by (intro sub) (simp add: reg_conforms_def valid_value_def)
  next
    case 2
    then have "v - of_int (rs_offset rs) = env_ctx_addr env \<and> rng = ctx_size cfg
        \<or> v - of_int (rs_offset rs) = ctx_data (env_ctx env) \<and> rng = ctx_data_size cfg"
      using conf rng(2) by (auto simp: reg_conforms_def)
    then show ?thesis using mem_ok_readable [OF mem] by (intro sub) auto
  qed (use conf in \<open>auto simp: reg_conforms_def\<close>)
qed

end
