(* ===== verification/Value_Soundness.thy ===== *)
theory Value_Soundness
  imports Interpreter
begin

text \<open>
  The verifier's scalar arithmetic against the interpreter: \<open>compute_alu_result_width\<close>
  (\<open>verifier/alu.rs\<close>) contains the value \<open>execute_alu\<close> writes, and \<open>refine_scalar\<close>
  (\<open>verifier/refine.rs\<close>) keeps every value that can take the branch. The two conditions under
  which the arithmetic is not contained are stated as hypotheses and shown to be needed.
\<close>

section \<open>Truncation to 32 bits\<close>

lemma ucast_ucast_u32: "(ucast (ucast (x :: u64) :: u32) :: u64) = x AND 0xFFFFFFFF"
  unfolding and_mask32 by (rule bit_word_eqI) (auto simp: bit_ucast_iff bit_take_bit_iff)

lemma take_bit_32_ops:
  fixes x y :: u64
  shows "take_bit 32 (take_bit 32 x + take_bit 32 y) = take_bit 32 (x + y)"
    "take_bit 32 (take_bit 32 x - take_bit 32 y) = take_bit 32 (x - y)"
    "take_bit 32 (take_bit 32 x * take_bit 32 y) = take_bit 32 (x * y)"
    "take_bit 32 (- take_bit 32 x) = take_bit 32 (- x)"
  by (transfer; simp add: take_bit_add take_bit_diff take_bit_mult take_bit_minus)+

lemma shift_count_mask32: "shift_count (y AND 0xFFFFFFFF) = shift_count y"
proof -
  have "(ucast (y AND 0xFFFFFFFF) :: u32) = ucast y"
    unfolding and_mask32 by (rule bit_word_eqI) (auto simp: bit_ucast_iff bit_take_bit_iff)
  then show ?thesis by (simp add: shift_count_def)
qed

lemma take_bit_32_push_bit:
  "take_bit 32 (push_bit s (take_bit 32 (x :: u64))) = take_bit 32 (push_bit s x)"
  by (rule bit_word_eqI) (auto simp: bit_take_bit_iff bit_push_bit_iff)

lemma mask32_small: "(x :: u64) \<le> 0xFFFFFFFF \<Longrightarrow> x AND 0xFFFFFFFF = x"
proof -
  assume "x \<le> 0xFFFFFFFF"
  then have "unat x < 2 ^ 32" by (simp add: word_le_nat_alt)
  then have "unat (take_bit 32 x) = unat x" by (simp add: unat_take_bit_mod)
  then show ?thesis unfolding and_mask32 by (simp add: word_unat_eq_iff)
qed

lemma zero_extend_32_max: "sc_max (zero_extend_32 v) \<le> 0xFFFFFFFF"
proof -
  have or: "(a AND 0xFFFFFFFF) OR (b AND 0xFFFFFFFF) = (a OR b) AND 0xFFFFFFFF" for a b :: u64
    unfolding and_mask32 by (rule bit_word_eqI) (auto simp: bit_take_bit_iff bit_or_iff)
  show ?thesis
    by (auto simp: zero_extend_32_def Let_def or word_and_le1 split: option.splits)
qed

text \<open>
  Shifted left by at least 32, the low half is zero, whatever the interval says; shifted by less,
  a zero-extended value keeps its bits.
\<close>

lemma zero_extend_lshift_sound:
  assumes a: "scalar_has a x" and b: "scalar_has b y" and x: "sc_max a \<le> 0xFFFFFFFF"
  shows "scalar_has (zero_extend_32 (scalar_lshift a b)) (push_bit (shift_count y) x AND 0xFFFFFFFF)"
proof (cases "shift_count y \<le> 32")
  case True
  have "unat (sc_max a) < 2 ^ 32" using x by (simp add: word_le_nat_alt)
  then have "unat (sc_max a) * 2 ^ shift_count y < 2 ^ 32 * 2 ^ shift_count y" by simp
  also have "\<dots> \<le> 2 ^ 32 * 2 ^ 32" using True by (intro mult_le_mono2 power_increasing) simp_all
  finally have "shl_fits a b" using b by (auto simp: shl_fits_def scalar_has_def split: option.splits)
  then show ?thesis using a b by (intro zero_extend_32_sound scalar_lshift_sound)
next
  case False
  have low: "push_bit (shift_count y) z AND 0xFFFFFFFF = 0" for z :: u64
    unfolding and_mask32 using False
    by (intro bit_word_eqI) (auto simp: bit_take_bit_iff bit_push_bit_iff)
  show ?thesis
  proof (cases "sc_value b")
    case None
    then show ?thesis
      using zero_extend_32_sound [OF scalar_unknown_has]
      by (simp add: scalar_lshift_def scalar_unknown_def [symmetric])
  next
    case (Some sh)
    then have "sh = y" using b by (simp add: scalar_has_def)
    then show ?thesis
      using Some a low
      by (auto simp: scalar_lshift_def zero_extend_32_def scalar_has_def rust_arith Let_def
          tnum_lshift_def tnum_has_def tnum_wf_def tnum_contains_def not_le split: option.splits)
  qed
qed

section \<open>ALU\<close>

lemma alu64_value_sound:
  assumes a: "scalar_has a x" and b: "scalar_has b y"
    and fits: "op = Lsh \<Longrightarrow> shl_fits a b"
    and v: "alu_value op i x y = Inr v"
  shows "scalar_has (compute_alu_result_width a op b True) v"
proof -
  note sound = scalar_add_sound scalar_sub_sound scalar_mul_sound div_unsigned_sound
    mod_unsigned_sound bitwise_and_sound bitwise_or_sound bitwise_xor_sound scalar_lshift_sound
    scalar_rshift_sound scalar_arshift_sound scalar_negate_sound
  show ?thesis
    using a b fits v
    by (cases op) (auto simp: alu_value_def compute_alu_result_width_def scalar_mov_def
        shift_count_eq [symmetric] intro: sound split: if_splits)
qed

lemma alu32_value_sound:
  assumes a: "scalar_has a x" and b: "scalar_has b y"
    and narrow: "op \<in> {Div, Mod, Rsh} \<Longrightarrow> x \<le> 0xFFFFFFFF \<and> y \<le> 0xFFFFFFFF"
    and v: "alu_value op i x y = Inr v"
  shows "scalar_has (compute_alu_result_width a op b False) (ucast (ucast v :: u32))"
proof -
  let ?a = "zero_extend_32 a" and ?b = "zero_extend_32 b"
  let ?x = "x AND 0xFFFFFFFF" and ?y = "y AND 0xFFFFFFFF"
  have za: "scalar_has ?a ?x" and zb: "scalar_has ?b ?y"
    using a b by (auto intro: zero_extend_32_sound)
  note z = zero_extend_32_sound
  have small: "x AND 0xFFFFFFFF = x" "y AND 0xFFFFFFFF = y" if "op \<in> {Div, Mod, Rsh}"
    using narrow [OF that] mask32_small by auto
  have unk: "scalar_has (zero_extend_32 scalar_unknown) (w AND 0xFFFFFFFF)"
    "scalar_has (zero_extend_32 (zero_extend_32 scalar_unknown)) (w AND 0xFFFFFFFF)" for w
    using z [of scalar_unknown w] z [OF z [of scalar_unknown w]] by (simp_all add: and.assoc)
  show ?thesis
  proof (cases op)
    case Add
    then show ?thesis using v z [OF scalar_add_sound [OF za zb]]
      by (auto simp: alu_value_def compute_alu_result_width_def ucast_ucast_u32 and_mask32 take_bit_32_ops)
  next
    case Sub
    then show ?thesis using v z [OF scalar_sub_sound [OF za zb]]
      by (auto simp: alu_value_def compute_alu_result_width_def ucast_ucast_u32 and_mask32 take_bit_32_ops)
  next
    case Mul
    then show ?thesis using v z [OF scalar_mul_sound [OF za zb]]
      by (auto simp: alu_value_def compute_alu_result_width_def ucast_ucast_u32 and_mask32 take_bit_32_ops)
  next
    case Neg
    then show ?thesis using v z [OF scalar_negate_sound [OF za]]
      by (auto simp: alu_value_def compute_alu_result_width_def ucast_ucast_u32 and_mask32 take_bit_32_ops)
  next
    case Or
    then show ?thesis using v z [OF bitwise_or_sound [OF za zb]]
      by (auto simp: alu_value_def compute_alu_result_width_def ucast_ucast_u32 and_mask32)
  next
    case And
    then show ?thesis using v z [OF bitwise_and_sound [OF za zb]]
      by (auto simp: alu_value_def compute_alu_result_width_def ucast_ucast_u32 and_mask32)
  next
    case Xor
    then show ?thesis using v z [OF bitwise_xor_sound [OF za zb]]
      by (auto simp: alu_value_def compute_alu_result_width_def ucast_ucast_u32 and_mask32)
  next
    case Mov
    then show ?thesis using v z [OF zb]
      by (auto simp: alu_value_def compute_alu_result_width_def scalar_mov_def ucast_ucast_u32 and.assoc)
  next
    case Lsh
    show ?thesis using Lsh v zero_extend_lshift_sound [OF za zb zero_extend_32_max]
      by (auto simp: alu_value_def compute_alu_result_width_def ucast_ucast_u32 shift_count_mask32 [unfolded and_mask32]
          shift_count_eq [symmetric] and_mask32 take_bit_32_push_bit)
  next
    case Div
    then show ?thesis using v z [OF div_unsigned_sound [OF za zb]] small
      by (auto simp: alu_value_def compute_alu_result_width_def ucast_ucast_u32 split: if_splits)
  next
    case Mod
    then show ?thesis using v z [OF mod_unsigned_sound [OF za zb]] small
      by (auto simp: alu_value_def compute_alu_result_width_def ucast_ucast_u32 split: if_splits)
  next
    case Rsh
    then show ?thesis using v z [OF scalar_rshift_sound [OF za zb]] small
      by (auto simp: alu_value_def compute_alu_result_width_def ucast_ucast_u32 shift_count_mask32
          shift_count_eq [symmetric])
  next
    case Arsh
    then show ?thesis using v unk(2)
      by (auto simp: alu_value_def compute_alu_result_width_def ucast_ucast_u32)
  next
    case End
    then show ?thesis using v unk(1)
      by (auto simp: alu_value_def compute_alu_result_width_def ucast_ucast_u32 split: if_splits)
  qed
qed

text \<open>The interval of a left shift is wrong when a bit is shifted out: \<open>overflowing_shl\<close> reports only
  shift counts beyond the width, and the bound of the result excludes a value the program computes.\<close>

lemma left_shift_interval_unsound:
  "let a = mk_scalar None 0 0x8000000000000000 tnum_unknown; b = scalar_constant 1
   in scalar_has a 0x4000000000000000 \<and> scalar_has b 1
      \<and> alu_value Lsh 0 0x4000000000000000 1 = Inr 0x8000000000000000
      \<and> \<not> scalar_has (compute_alu_result_width a Lsh b True) 0x8000000000000000"
  by (simp add: scalar_has_def alu_value_def compute_alu_result_width_def scalar_lshift_def scalar_constant_def
      overflowing_shl_def both_known_def shift_count_def push_bit_eq_mult Let_def)

section \<open>Branch refinement\<close>

lemma refine_scalar_value_sound:
  assumes a: "scalar_has a x" and b: "scalar_has b y" and c: "jmp_condition op x y = Some taken"
  shows "scalar_has (if taken then fst (refine_scalar a op b) else snd (refine_scalar a op b)) x"
proof -
  have bounds: "sc_min b \<le> y" "y \<le> sc_max b" using b by (simp_all add: scalar_has_def)
  have lt: "x < y \<Longrightarrow> scalar_has (if sc_max b = 0 then scalar_unknown else clamp_max a (saturating_sub (sc_max b) 1)) x"
    using a bounds u64_less_imp_le_pred [of x "sc_max b"]
    by (auto intro!: clamp_max_sound simp: saturating_sub_one)
  have gt: "y < x \<Longrightarrow> scalar_has (if sc_min b = u64_MAX then scalar_unknown else clamp_min a (saturating_add (sc_min b) 1)) x"
    using a bounds u64_less_imp_suc_le [of "sc_min b" x]
    by (auto intro!: clamp_min_sound simp: saturating_add_one)
  have le: "x \<le> y \<Longrightarrow> scalar_has (clamp_max a (sc_max b)) x"
    and ge: "y \<le> x \<Longrightarrow> scalar_has (clamp_min a (sc_min b)) x"
    using a bounds by (auto intro: clamp_max_sound clamp_min_sound)
  show ?thesis
    using a c lt gt le ge refine_jeq_sound [OF a b]
    by (cases op) (auto simp: refine_scalar_def refine_lt_def refine_le_def refine_gt_def refine_ge_def
        refine_signed_placeholder_def refine_jset_def jmp_condition_def not_less not_le split_beta
        split: if_splits)
qed

section \<open>Well-formed known bits\<close>

text \<open>Every transfer function and refinement yields known bits without overlap of value and mask.\<close>

lemma tnum_wf_has: "tnum_wf t \<longleftrightarrow> tnum_has t (tv_value t)"
  by (auto simp: tnum_has_def tnum_contains_bit)

lemma tnum_ops_wf:
  assumes "tnum_wf a" "tnum_wf b"
  shows "tnum_wf (tnum_add a b)" "tnum_wf (tnum_sub a b)" "tnum_wf (tnum_mul a b)"
    "tnum_wf (tnum_and a b)" "tnum_wf (tnum_or a b)" "tnum_wf (tnum_xor a b)"
  using assms unfolding tnum_wf_has
  by (meson tnum_has_def tnum_wf_has tnum_add_sound tnum_sub_sound tnum_mul_sound tnum_and_sound tnum_or_sound tnum_xor_sound)+

lemma tnum_shifts_wf:
  assumes "tnum_wf a"
  shows "tnum_wf (tnum_lshift a s)" "tnum_wf (tnum_rshift a s)" "s < 64 \<Longrightarrow> tnum_wf (tnum_arshift a s)"
  using assms by (auto simp: tnum_lshift_def tnum_rshift_def tnum_arshift_def tnum_wf_bit tnum_bit_simps bit_simps mk_tnum_def)

lemma tnum_intersect_wf:
  "tnum_intersect a b = Some t \<Longrightarrow> tnum_wf a \<Longrightarrow> tnum_wf b \<Longrightarrow> tnum_wf t"
  by (auto simp: tnum_intersect_def Let_def tnum_wf_bit tnum_bit_simps mk_tnum_def bit_simps split: if_splits)

abbreviation scalar_wf :: "scalar_value \<Rightarrow> bool" where "scalar_wf sv \<equiv> tnum_wf (sc_tnum sv)"

lemma scalar_wf_basic:
  "tnum_wf tnum_unknown" "tnum_wf (tnum_constant v)"
  "scalar_wf scalar_unknown" "scalar_wf (scalar_from_imm i)"
  by (auto simp: tnum_wf_def tnum_unknown_def tnum_constant_def mk_tnum_def scalar_unknown_def scalar_from_imm_def Let_def)

lemma zero_extend_32_wf: "scalar_wf a \<Longrightarrow> scalar_wf (zero_extend_32 a)"
proof -
  assume "scalar_wf a"
  moreover have "sc_tnum (zero_extend_32 a) = mk_tnum (tv_value (sc_tnum a) AND 0xFFFFFFFF) (tv_mask (sc_tnum a) AND 0xFFFFFFFF)"
    by (simp add: zero_extend_32_def Let_def split_beta)
  ultimately show ?thesis by (simp add: tnum_wf_bit tnum_bit_simps)
qed

lemma shift_count_64: "shift_count y < 64"
proof -
  have "(ucast y :: u32) AND 63 \<le> 63" by (rule word_and_le1)
  then show ?thesis by (simp add: shift_count_def word_le_nat_alt)
qed

lemma scalar_ops_wf:
  assumes "scalar_wf a" "scalar_wf b"
  shows "scalar_wf (scalar_add a b)" "scalar_wf (scalar_sub a b)" "scalar_wf (scalar_mul a b)"
    "scalar_wf (div_unsigned a b)" "scalar_wf (mod_unsigned a b)" "scalar_wf (bitwise_and a b)"
    "scalar_wf (bitwise_or a b)" "scalar_wf (bitwise_xor a b)" "scalar_wf (scalar_lshift a b)"
    "scalar_wf (scalar_rshift a b)" "scalar_wf (scalar_arshift a b)" "scalar_wf (scalar_negate a)"
  using assms tnum_ops_wf tnum_shifts_wf shift_count_64 scalar_wf_basic
  by (auto simp: scalar_add_def scalar_sub_def scalar_mul_def div_unsigned_def mod_unsigned_def bitwise_and_def
      bitwise_or_def bitwise_xor_def scalar_lshift_def scalar_rshift_def scalar_arshift_def scalar_negate_def
      Let_def split: option.splits prod.splits)

lemma compute_alu_result_wf:
  "scalar_wf a \<Longrightarrow> scalar_wf b \<Longrightarrow> scalar_wf (compute_alu_result_width a op b w)"
  by (cases op) (auto simp: compute_alu_result_width_def scalar_mov_def scalar_wf_basic scalar_ops_wf zero_extend_32_wf)

lemma refine_scalar_wf:
  assumes "scalar_wf a" "scalar_wf b"
  shows "scalar_wf (fst (refine_scalar a op b))" "scalar_wf (snd (refine_scalar a op b))"
  using assms scalar_wf_basic tnum_intersect_wf
  by (cases op; auto simp: refine_scalar_def refine_jeq_def refine_lt_def refine_le_def refine_gt_def refine_ge_def
      refine_signed_placeholder_def refine_jset_def clamp_max_def clamp_min_def Let_def split: option.splits)+

end
