(* ===== verification/Steps.thy ===== *)
theory Steps
  imports Conformance Value_Soundness
begin

text \<open>
  One instruction, seen by the verifier and by the interpreter: if the registers the instruction uses
  conform to the verifier state and the check succeeds, the interpreter does not touch memory outside
  the regions, and the machine it leaves conforms to the state the verifier goes on with.
\<close>

section \<open>Programs the exploration speaks about\<close>

text \<open>
  The interpreter decodes a call or an exit from the operation bits, the verifier from the whole
  opcode; on canonical instructions the two agree.
\<close>

definition canonical :: "bpf_insn \<Rightarrow> bool" where
  "canonical insn \<longleftrightarrow>
     (insn_jmp_op insn = Some Call \<longrightarrow> is_call insn) \<and> (insn_jmp_op insn = Some Exit \<longrightarrow> is_exit insn)"

text \<open>
  The discipline the checks do not enforce. On pointers: no arithmetic on a pointer that may be null,
  null checks compare with an immediate, and the payload pointer is read from the context structure
  only, which the verifier can tell from the payload only if their sizes differ. On scalars, where
  the verifier identifies maps by known register values: a known value has a one-point interval,
  since pruning compares intervals and not known values, a left shift drops no set bit, and the
  32-bit division, remainder and right shift work on 32-bit operands.
\<close>

definition settled_scalar :: "scalar_value \<Rightarrow> bool" where
  "settled_scalar sv \<longleftrightarrow>
     (case sc_value sv of None \<Rightarrow> True | Some k \<Rightarrow> sc_min sv = k \<and> sc_max sv = k)"

definition settled_reg :: "reg_state \<Rightarrow> bool" where
  "settled_reg rs \<longleftrightarrow> (case rs_scalar rs of None \<Rightarrow> True | Some sv \<Rightarrow> settled_scalar sv)"

definition alu_operand :: "bpf_insn \<Rightarrow> verifier_state \<Rightarrow> scalar_value" where
  "alu_operand insn s =
     (if insn_source_type insn = Src_Reg
      then unknown_if_none (rs_scalar (vs_regs s (case insn_src insn of Some r \<Rightarrow> r | None \<Rightarrow> R0)))
      else scalar_from_imm (insn_imm insn))"

definition exact_alu :: "bpf_insn \<Rightarrow> verifier_state \<Rightarrow> bool" where
  "exact_alu insn s \<longleftrightarrow>
     (case (insn_dst insn, insn_alu_op insn) of
        (Some dst, Some op) \<Rightarrow>
          let a = unknown_if_none (rs_scalar (vs_regs s dst)); b = alu_operand insn s
          in if is_alu64 insn then op = Lsh \<longrightarrow> shl_fits a b
             else op \<in> {Div, Mod, Rsh} \<longrightarrow> sc_max a \<le> 0xFFFFFFFF \<and> sc_max b \<le> 0xFFFFFFFF
      | _ \<Rightarrow> True)"

definition disciplined :: "verify_config \<Rightarrow> bpf_insn \<Rightarrow> verifier_state \<Rightarrow> bool" where
  "disciplined cfg insn s \<longleftrightarrow>
     (case insn_dst insn of
        Some dst \<Rightarrow>
          rs_maybe_null (vs_regs s dst)
          \<longrightarrow> \<not> (is_alu64 insn \<and> insn_alu_op insn \<in> {Some Add, Some Sub} \<and> insn_source_type insn = Src_Imm)
            \<and> \<not> (is_jump insn \<and> insn_source_type insn = Src_Reg)
      | None \<Rightarrow> True)
     \<and> (case insn_src insn of
          Some src \<Rightarrow>
            insn_class insn = Some Ldx \<and> rs_type (vs_regs s src) = PtrToCtx
              \<and> rs_offset (vs_regs s src) + sint (insn_offset insn) = 0
            \<longrightarrow> insn_mem_size insn = Some MemDWord
            \<longrightarrow> rs_mem_range (vs_regs s src) = Some (ctx_size cfg) \<and> ctx_size cfg \<noteq> ctx_data_size cfg
        | None \<Rightarrow> True)
     \<and> (tracks_handles cfg \<longrightarrow> list_all (\<lambda>r. settled_reg (vs_regs s r)) all_registers \<and> exact_alu insn s)"

section \<open>What the checks leave alone\<close>

definition keeps :: "verifier_state \<Rightarrow> verifier_state \<Rightarrow> bool" where
  "keeps s s' \<longleftrightarrow>
     vs_regs s' R10 = vs_regs s R10 \<and> ss_capacity (vs_stack s') = ss_capacity (vs_stack s)
     \<and> vs_insn_idx s' = vs_insn_idx s"

lemma keeps_refl [simp]: "keeps s s"
  by (simp add: keeps_def)

lemma keeps_set_reg [simp]: "r \<noteq> R10 \<Longrightarrow> keeps s (set_reg s r v)"
  by (simp add: keeps_def set_reg_def)

lemma keeps_set_scalar [simp]: "r \<noteq> R10 \<Longrightarrow> keeps s (set_scalar s r v)"
  by (simp add: set_scalar_def)

lemma stack_set_capacity [simp]: "ss_capacity (snd (stack_set st off slot)) = ss_capacity st"
  by (simp add: stack_set_def Let_def)

lemma fold_stack_set_capacity:
  "ss_capacity (fold (\<lambda>i s. snd (stack_set s (f i) slot)) xs st) = ss_capacity st"
  by (induction xs arbitrary: st) simp_all

lemma mark_stack_written_keeps: "keeps s (mark_stack_written s off n)"
  by (simp add: keeps_def mark_stack_written_def fold_stack_set_capacity)

lemma mark_stack_written_regs [simp]: "vs_regs (mark_stack_written s off n) = vs_regs s"
  by (simp add: mark_stack_written_def)

lemma clobber_caller_saved_regs:
  "vs_regs (clobber_caller_saved s) = (vs_regs s)(R0 := reg_uninit, R1 := reg_uninit, R2 := reg_uninit,
     R3 := reg_uninit, R4 := reg_uninit, R5 := reg_uninit)"
  "vs_stack (clobber_caller_saved s) = vs_stack s" "vs_insn_idx (clobber_caller_saved s) = vs_insn_idx s"
  by (simp_all add: clobber_caller_saved_def set_reg_def)

lemma verify_alu_keeps: "verify_alu insn s idx = Inr s' \<Longrightarrow> keeps s s'"
  by (auto simp: verify_alu_def Let_def res_Inr_iffs split: if_splits)

lemma verify_call_keeps: "verify_call P cfg insn s idx = Inr (s', hs) \<Longrightarrow> keeps s s'"
  by (auto simp: verify_call_def Let_def res_Inr_iffs keeps_def set_reg_def clobber_caller_saved_regs
      split: helper_validation.splits)

lemma verify_store_at_keeps: "verify_store_at insn dst sz s idx = Inr s' \<Longrightarrow> keeps s s' \<and> vs_regs s' = vs_regs s"
  by (auto simp: verify_store_at_def Let_def res_Inr_iffs mark_stack_written_keeps split: if_splits)

lemma verify_load_keeps: "verify_load cfg insn sz s idx = Inr s' \<Longrightarrow> keeps s s'"
  by (auto simp: verify_load_def Let_def res_Inr_iffs split: if_splits option.splits)

lemma verify_memory_keeps: "verify_memory cfg insn s idx = Inr s' \<Longrightarrow> keeps s s'"
  by (auto simp: verify_memory_def res_Inr_iffs dest: verify_load_keeps verify_store_at_keeps split: if_splits)

lemma verify_insn_keeps:
  assumes "verify_insn P cfg insn s idx = Inr (r, s', hs)"
  shows "keeps s s'"
  using assms
  by (auto simp: verify_insn_def verify_wide_load_def res_Inr_iffs
      dest: verify_alu_keeps verify_call_keeps verify_memory_keeps split: if_splits)

section \<open>Uses and definitions\<close>

lemma regset_contains_use_def [simp]:
  "regset_contains (uses (use_reg r ud)) x \<longleftrightarrow> x = r \<or> regset_contains (uses ud) x"
  "regset_contains (defs (use_reg r ud)) x \<longleftrightarrow> regset_contains (defs ud) x"
  "regset_contains (uses (def_reg r ud)) x \<longleftrightarrow> regset_contains (uses ud) x"
  "regset_contains (defs (def_reg r ud)) x \<longleftrightarrow> x = r \<or> regset_contains (defs ud) x"
  by (auto simp: use_reg_def def_reg_def regset_contains_insert)

lemma class_of_jump_opcodes:
  "is_exit insn \<Longrightarrow> insn_class insn = Some Jmp" "is_call insn \<Longrightarrow> insn_class insn = Some Jmp"
  "is_wide insn \<Longrightarrow> insn_class insn = Some Ld"
  by (simp_all add: is_exit_def is_call_def is_wide_def insn_class_def class_from_opcode_def)

lemma uses_alu:
  assumes "is_alu insn"
  shows "regset_contains (uses (use_def_of insn)) r
      \<longleftrightarrow> insn_dst insn = Some r \<or> insn_source_type insn = Src_Reg \<and> insn_src insn = Some r"
    "regset_contains (defs (use_def_of insn)) r \<longleftrightarrow> insn_dst insn = Some r"
proof -
  have "\<not> is_exit insn" "\<not> is_call insn" using assms class_of_jump_opcodes by (auto simp: is_alu_def)
  with assms show "regset_contains (uses (use_def_of insn)) r
      \<longleftrightarrow> insn_dst insn = Some r \<or> insn_source_type insn = Src_Reg \<and> insn_src insn = Some r"
    "regset_contains (defs (use_def_of insn)) r \<longleftrightarrow> insn_dst insn = Some r"
    by (auto simp: use_def_of_def is_alu_def if_some_def Let_def split: option.splits)
qed

lemma uses_jump:
  assumes "is_jump insn" "\<not> is_exit insn" "\<not> is_call insn"
  shows "regset_contains (uses (use_def_of insn)) r
      \<longleftrightarrow> insn_dst insn = Some r \<or> insn_source_type insn = Src_Reg \<and> insn_src insn = Some r"
    "\<not> regset_contains (defs (use_def_of insn)) r"
  using assms by (auto simp: use_def_of_def is_jump_def if_some_def Let_def split: option.splits)

lemma uses_call:
  assumes "is_call insn"
  shows "regset_contains (defs (use_def_of insn)) r \<longleftrightarrow> r \<in> {R0, R1, R2, R3, R4, R5}"
    "regset_contains (uses (use_def_of insn)) R1"
proof -
  have "\<not> is_exit insn" using assms by (simp add: is_call_def is_exit_def)
  with assms show "regset_contains (defs (use_def_of insn)) r \<longleftrightarrow> r \<in> {R0, R1, R2, R3, R4, R5}"
    "regset_contains (uses (use_def_of insn)) R1" by (auto simp: use_def_of_def Let_def)
qed

lemma uses_memory:
  "insn_class insn = Some Ldx \<Longrightarrow> insn_src insn = Some r \<Longrightarrow> regset_contains (uses (use_def_of insn)) r"
  "insn_class insn = Some Ldx \<Longrightarrow> regset_contains (defs (use_def_of insn)) r \<longleftrightarrow> insn_dst insn = Some r"
  "insn_class insn = Some Stx \<Longrightarrow> insn_dst insn = Some r \<Longrightarrow> regset_contains (uses (use_def_of insn)) r"
  "insn_class insn = Some St \<Longrightarrow> insn_dst insn = Some r \<Longrightarrow> regset_contains (uses (use_def_of insn)) r"
  "insn_class insn = Some Stx \<Longrightarrow> \<not> regset_contains (defs (use_def_of insn)) r"
  "insn_class insn = Some St \<Longrightarrow> \<not> regset_contains (defs (use_def_of insn)) r"
  "insn_class insn = Some Ld \<Longrightarrow> regset_contains (defs (use_def_of insn)) r \<longleftrightarrow> insn_dst insn = Some r"
  using class_of_jump_opcodes [of insn]
  by (auto simp: use_def_of_def if_some_def Let_def split: option.splits)

section \<open>Arithmetic\<close>

lemma reg_conforms_scalar [simp]:
  "reg_conforms P cfg env mem (reg_scalar x) v \<longleftrightarrow>
     (tracks_handles cfg \<longrightarrow> (case x of None \<Rightarrow> True | Some sv \<Rightarrow> scalar_has sv v))"
  by (simp add: reg_conforms_def reg_scalar_def)

lemma reg_conforms_scalarD:
  "reg_conforms P cfg env mem rs v \<Longrightarrow> tracks_handles cfg \<Longrightarrow> scalar_has (unknown_if_none (rs_scalar rs)) v"
  by (auto simp: reg_conforms_def unknown_if_none_def split: option.splits)

lemma reg_conforms_uninit [simp]: "reg_conforms P cfg env mem reg_uninit v"
  by (simp add: reg_conforms_def reg_uninit_def)

lemma reg_conforms_shift:
  assumes "reg_conforms P cfg env mem rs v" "\<not> rs_maybe_null rs" "tracks_handles cfg \<longrightarrow> rs_scalar rs = None"
  shows "reg_conforms P cfg env mem (rs\<lparr>rs_offset := wrap_i64 (rs_offset rs + d)\<rparr>) (v + of_int d)"
  using assms by (auto simp: reg_conforms_def algebra_simps split: reg_type.splits)

lemma conforms_set_reg:
  "conforms P cfg env (set_reg s r rs) m x \<longleftrightarrow>
     (if x = r then reg_conforms P cfg env (fst (mc_kernel m)) rs (mc_regs m x) else conforms P cfg env s m x)"
  by (simp add: conforms_def set_reg_def)

lemma conforms_put:
  "conforms P cfg env s (m\<lparr>mc_regs := register_file_set (mc_regs m) r v\<rparr>) x \<longleftrightarrow>
     (if x = r then reg_conforms P cfg env (fst (mc_kernel m)) (vs_regs s x) v else conforms P cfg env s m x)"
  by (simp add: conforms_def register_file_set_def)

lemma machine_ok_put:
  "r \<noteq> R10 \<Longrightarrow> machine_ok P cfg env (m\<lparr>mc_regs := register_file_set (mc_regs m) r v\<rparr>) \<longleftrightarrow> machine_ok P cfg env m"
  by (simp add: machine_ok_def register_file_set_def)

lemma execute_alu_defined: "execute_alu insn rf w \<noteq> Inl Undefined"
proof
  assume "execute_alu insn rf w = Inl Undefined"
  then obtain op i x y where "alu_value op i x y = Inl Undefined"
    by (auto simp: execute_alu_def source_value_def res_bind_def ok_or_def Let_def
        split: option.splits sum.splits if_splits)
  then show False by (cases op) (auto simp: alu_value_def split: if_splits)
qed

lemma execute_alu_InrD:
  assumes "execute_alu insn rf w = Inr rf'"
  obtains dst op x y where "insn_dst insn = Some dst" "alu_from_opcode (opcode insn) = Some op"
    "source_value insn rf = Inr y" "alu_value op (insn_imm insn) (rf dst) y = Inr x"
    "rf' = register_file_set rf dst (if w then x else ucast (ucast x :: u32))"
  using assms
  by (auto simp: execute_alu_def res_bind_eq_Inr_iff ok_or_eq_Inr_iff insn_dst_def register_file_get_def Let_def)

lemma of_int_sint_scast: "(of_int (sint (w :: i32)) :: u64) = scast w"
  by simp

lemma settled_regD: "disciplined cfg insn s \<Longrightarrow> tracks_handles cfg \<Longrightarrow> settled_reg (vs_regs s r)"
  using all_registers_univ by (auto simp: disciplined_def list_all_iff)

lemma typed_pointer:
  "typed_reg rs \<Longrightarrow> is_pointer (rs_type rs) \<Longrightarrow> rs_scalar rs = None"
  by (auto simp: typed_reg_def is_pointer_def split: option.splits)

text \<open>The operand the verifier computes with contains the one the interpreter reads.\<close>

lemma alu_operand_sound:
  assumes y: "source_value insn (mc_regs m) = Inr y" and tr: "tracks_handles cfg"
    and src: "\<And>r. insn_source_type insn = Src_Reg \<Longrightarrow> insn_src insn = Some r \<Longrightarrow> conforms P cfg env s m r"
  shows "scalar_has (alu_operand insn s) y"
proof (cases "insn_source_type insn = Src_Reg")
  case True
  then obtain r where r: "insn_src insn = Some r" "y = mc_regs m r"
    using y by (auto simp: source_value_def insn_source_type_def insn_src_def register_file_get_def res_Inr_iffs split: if_splits)
  then show ?thesis
    using reg_conforms_scalarD [OF _ tr] src [OF True r(1)] True by (simp add: alu_operand_def conforms_def)
next
  case False
  then show ?thesis using y by (auto simp: alu_operand_def source_value_def insn_source_type_def imm_u64_def split: if_splits)
qed

lemma exact_alu_sound:
  assumes ex: "exact_alu insn s" and dst: "insn_dst insn = Some dst" and op: "insn_alu_op insn = Some op"
    and a: "scalar_has (unknown_if_none (rs_scalar (vs_regs s dst))) v" and b: "scalar_has (alu_operand insn s) y"
    and x: "alu_value op i v y = Inr x"
  shows "scalar_has (compute_alu_result_width (unknown_if_none (rs_scalar (vs_regs s dst))) op (alu_operand insn s) (is_alu64 insn))
    (if is_alu64 insn then x else ucast (ucast x :: u32))"
proof (cases "is_alu64 insn")
  case True
  then show ?thesis using alu64_value_sound [OF a b _ x] ex dst op by (simp add: exact_alu_def Let_def)
next
  case False
  have "v \<le> 0xFFFFFFFF \<and> y \<le> 0xFFFFFFFF" if "op \<in> {Div, Mod, Rsh}"
    using ex dst op False that a b by (auto simp: exact_alu_def Let_def scalar_has_def)
  then show ?thesis using alu32_value_sound [OF a b _ x] False by simp
qed

lemma alu_step:
  assumes alu: "is_alu insn" and ver: "verify_alu insn s idx = Inr s'"
    and uses: "\<And>r. regset_contains (uses (use_def_of insn)) r \<Longrightarrow> conforms P cfg env s m r"
    and disc: "disciplined cfg insn s" and typed: "\<And>x. typed_reg (vs_regs s x)"
    and run: "execute_alu insn (mc_regs m) (is_alu64 insn) = Inr rf"
    and r: "insn_dst insn = Some r \<or> conforms P cfg env s m r"
  shows "conforms P cfg env s' (m\<lparr>mc_regs := rf\<rparr>) r"
  using run
proof (rule execute_alu_InrD)
  fix dst op x y
  assume dst: "insn_dst insn = Some dst" and op: "alu_from_opcode (opcode insn) = Some op"
    and y: "source_value insn (mc_regs m) = Inr y"
    and x: "alu_value op (insn_imm insn) (mc_regs m dst) y = Inr x"
    and rf: "rf = register_file_set (mc_regs m) dst (if is_alu64 insn then x else ucast (ucast x :: u32))"
  have iop: "insn_alu_op insn = Some op" using op alu by (simp add: insn_alu_op_def)
  have cd: "conforms P cfg env s m dst" using uses uses_alu(1) [OF alu] dst by simp
  consider (mov) src where "is_alu64 insn" "op = Mov" "insn_source_type insn = Src_Reg" "insn_src insn = Some src"
      "s' = set_reg s dst (vs_regs s src)"
    | (arith) d where "is_alu64 insn" "op \<in> {Add, Sub}" "insn_source_type insn = Src_Imm"
      "d = (if op = Add then sint (insn_imm insn) else wrap_i64 (- sint (insn_imm insn)))"
      "s' = set_reg s dst ((vs_regs s dst)\<lparr>rs_offset := wrap_i64 (rs_offset (vs_regs s dst) + d)\<rparr>)"
      "is_pointer (rs_type (vs_regs s dst))"
    | (scalar) "s' = set_scalar s dst (Some (compute_alu_result_width (unknown_if_none (rs_scalar (vs_regs s dst))) op
        (alu_operand insn s) (is_alu64 insn)))"
    using ver dst iop source_type.exhaust [of "insn_source_type insn"]
    by (auto simp: verify_alu_def verify_alu_source_def alu_operand_def Let_def res_Inr_iffs split: if_splits)
  then show ?thesis
  proof cases
    case mov
    then have "conforms P cfg env s m src" using uses uses_alu(1) [OF alu] by simp
    moreover have "x = mc_regs m src"
      using mov x y by (auto simp: alu_value_def source_value_def insn_source_type_def insn_src_def register_file_get_def)
    ultimately show ?thesis using r dst mov rf by (auto simp: conforms_def set_reg_def register_file_set_def)
  next
    case arith
    have "\<not> rs_maybe_null (vs_regs s dst)"
      using disc arith dst iop by (auto simp: disciplined_def)
    moreover have "y = of_int (sint (insn_imm insn))"
      using arith y by (auto simp: source_value_def insn_source_type_def imm_u64_def)
    then have "x = mc_regs m dst + of_int d" using arith x by (auto simp: alu_value_def)
    moreover have "tracks_handles cfg \<longrightarrow> rs_scalar (vs_regs s dst) = None"
      using typed_pointer [OF typed] arith(6) by simp
    ultimately have "reg_conforms P cfg env (fst (mc_kernel m))
        ((vs_regs s dst)\<lparr>rs_offset := wrap_i64 (rs_offset (vs_regs s dst) + d)\<rparr>) x"
      using reg_conforms_shift cd by (simp add: conforms_def)
    then show ?thesis
      using r dst arith rf by (auto simp: conforms_def set_reg_def register_file_set_def)
  next
    case scalar
    have "scalar_has (compute_alu_result_width (unknown_if_none (rs_scalar (vs_regs s dst))) op (alu_operand insn s) (is_alu64 insn))
        (if is_alu64 insn then x else ucast (ucast x :: u32))" if tr: "tracks_handles cfg"
    proof (rule exact_alu_sound [OF _ dst iop _ _ x])
      show "exact_alu insn s" using disc tr by (simp add: disciplined_def)
      show "scalar_has (unknown_if_none (rs_scalar (vs_regs s dst))) (mc_regs m dst)"
        using reg_conforms_scalarD [OF _ tr] cd by (simp add: conforms_def)
      show "scalar_has (alu_operand insn s) y"
        by (rule alu_operand_sound [OF y tr, of P env]) (use uses uses_alu(1) [OF alu] in simp)
    qed
    then show ?thesis using r dst rf scalar by (auto simp: conforms_def set_scalar_def set_reg_def register_file_set_def)
  qed
qed


section \<open>Jumps\<close>

lemma verify_jump_InrD:
  assumes "verify_jump insn s idx = Inr r"
  obtains (jump) "insn_jmp_op insn = Some Ja" "0 \<le> int idx + 1 + sint (insn_offset insn)"
      "r = VJump (nat (int idx + 1 + sint (insn_offset insn)))"
  | (branch) op dst ref nr where "insn_jmp_op insn = Some op" "op \<noteq> Ja" "insn_dst insn = Some dst"
      "0 \<le> int idx + 1 + sint (insn_offset insn)"
      "r = VBranch (idx + 1) (nat (int idx + 1 + sint (insn_offset insn))) ref nr"
      "case nr of None \<Rightarrow> True | Some n \<Rightarrow>
         nr_reg n = dst \<and> rs_maybe_null (vs_regs s dst) \<and> is_pointer (rs_type (vs_regs s dst)) \<and> op \<in> {Jeq, Jne} \<and> nr_nonnull_on_true n = (op = Jne)
         \<and> (insn_source_type insn \<noteq> Src_Reg \<longrightarrow> imm_u64 (insn_imm insn) = 0)"
      "case ref of None \<Rightarrow> True | Some b \<Rightarrow> br_dst b = dst \<and> rs_scalar (vs_regs s dst) \<noteq> None
         \<and> insn_class insn = Some Jmp
         \<and> (br_true b, br_false b) = refine_scalar (unknown_if_none (rs_scalar (vs_regs s dst))) op (alu_operand insn s)"
proof -
  from assms obtain op where op: "insn_jmp_op insn = Some op" "0 \<le> int idx + 1 + sint (insn_offset insn)"
    by (auto simp: verify_jump_def Let_def res_Inr_iffs split: if_splits)
  show ?thesis
  proof (cases "op = Ja")
    case True
    with op assms show ?thesis
      by (intro jump) (auto simp: verify_jump_def Let_def is_unconditional_def split: if_splits)
  next
    case False
    with op assms show ?thesis
      by (auto simp: verify_jump_def Let_def is_unconditional_def res_Inr_iffs not_less imm_u64_def
          alu_operand_def unknown_if_none_def scalar_from_imm_def
          split: if_splits option.splits prod.splits intro: branch)
  qed
qed

text \<open>The interpreter compares the low halves only in the 32-bit class.\<close>

definition jmp_operand :: "bool \<Rightarrow> u64 \<Rightarrow> u64" where
  "jmp_operand is_64bit v = (if is_64bit then v else ucast (ucast v :: u32))"

lemma execute_jmp_InrD:
  assumes "execute_jmp ext env insn w m = Inr (res, m')" "is_jump insn"
    "canonical insn" "\<not> is_exit insn" "\<not> is_call insn"
  obtains (jump) "insn_jmp_op insn = Some Ja" "m' = m" "res = IJump (insn_offset insn)"
  | (branch) op dst y cond where "insn_jmp_op insn = Some op" "op \<noteq> Ja" "insn_dst insn = Some dst"
      "source_value insn (mc_regs m) = Inr y"
      "jmp_condition op (jmp_operand w (mc_regs m dst)) (jmp_operand w y) = Some cond"
      "m' = m" "res = (if cond then IJump (insn_offset insn) else IContinue)"
proof -
  obtain op where op: "jmp_from_opcode (opcode insn) = Some op"
    using assms(1) by (auto simp: execute_jmp_def res_bind_eq_Inr_iff ok_or_eq_Inr_iff)
  then have jop: "insn_jmp_op insn = Some op" using assms(2) by (simp add: insn_jmp_op_def)
  then have ne: "op \<noteq> Call" "op \<noteq> Exit" using assms(3-5) by (auto simp: canonical_def)
  show ?thesis
  proof (cases "op = Ja")
    case True
    then show ?thesis using assms(1) op jop by (intro jump) (simp_all add: execute_jmp_def)
  next
    case False
    obtain dst y cond where dst: "insn_dst insn = Some dst"
      and y: "source_value insn (mc_regs m) = Inr y"
      and cond: "jmp_condition op (jmp_operand w (mc_regs m dst)) (jmp_operand w y) = Some cond"
      and res: "(if cond then Inr (IJump (insn_offset insn), m) else Inr (IContinue, m)) = (Inr (res, m') :: fault + _)"
      using assms(1) op ne False
      by (cases w)
        (auto simp: execute_jmp_def res_bind_eq_Inr_iff ok_or_eq_Inr_iff insn_dst_def Let_def jmp_operand_def register_file_get_def)
    show ?thesis by (rule branch [OF jop False dst y cond]) (use res in \<open>auto split: if_splits\<close>)
  qed
qed

lemma source_value_defined: "source_value insn rf \<noteq> Inl Undefined"
  by (auto simp: source_value_def res_bind_def ok_or_def split: option.splits)

lemma execute_jmp_defined:
  assumes "is_jump insn" "canonical insn" "\<not> is_exit insn" "\<not> is_call insn"
  shows "execute_jmp ext env insn w m \<noteq> Inl Undefined"
  using assms source_value_defined [of insn "mc_regs m"]
  by (auto simp: execute_jmp_def res_bind_def ok_or_def canonical_def insn_jmp_op_def Let_def
      split: option.splits sum.splits prod.splits if_splits)

lemma reg_conforms_rs_scalar:
  assumes "reg_conforms P cfg env mem rs v" "tracks_handles cfg \<Longrightarrow> scalar_has sv v"
  shows "reg_conforms P cfg env mem (rs\<lparr>rs_scalar := Some sv\<rparr>) v"
  using assms by (cases "rs_type rs") (simp_all add: reg_conforms_def)

lemma reg_conforms_nonnull:
  "reg_conforms P cfg env mem rs v \<Longrightarrow> v \<noteq> 0 \<Longrightarrow> reg_conforms P cfg env mem (rs\<lparr>rs_maybe_null := False\<rparr>) v"
  by (auto simp: reg_conforms_def split: reg_type.splits)

lemma reg_conforms_null:
  "reg_conforms P cfg env mem rs v \<Longrightarrow> reg_conforms P cfg env mem (rs\<lparr>rs_type := NullPtr, rs_maybe_null := False\<rparr>) v"
  by (simp add: reg_conforms_def)

lemma branch_arm_conforms:
  assumes "conforms P cfg env s m x"
    and "case nr of None \<Rightarrow> True | Some n \<Rightarrow> nr_reg n = x \<longrightarrow> taken = nr_nonnull_on_true n \<longrightarrow> mc_regs m x \<noteq> 0"
    and "case ref of None \<Rightarrow> True | Some b \<Rightarrow> br_dst b = x \<longrightarrow> tracks_handles cfg
           \<longrightarrow> scalar_has (if taken then br_true b else br_false b) (mc_regs m x)"
  shows "conforms P cfg env (branch_arm s pc ref nr taken) m x"
proof -
  define s1 where "s1 = (case ref of Some r \<Rightarrow> with_scalar s (br_dst r) (if taken then br_true r else br_false r) | None \<Rightarrow> s)"
  have s1: "conforms P cfg env s1 m x"
    using assms(1,3)
    by (auto simp: s1_def conforms_def with_scalar_def set_reg_def intro!: reg_conforms_rs_scalar split: option.splits)
  have "conforms P cfg env (case nr of Some n \<Rightarrow> apply_null_refine s1 n taken | None \<Rightarrow> s1) m x"
    using s1 assms(2) reg_conforms_nonnull reg_conforms_null
    by (auto simp: conforms_def apply_null_refine_def set_reg_def Let_def split: option.splits)
  then show ?thesis by (simp add: branch_arm_def s1_def [symmetric] Let_def conforms_def)
qed

lemma branch_arm_idx [simp]: "vs_insn_idx (branch_arm s pc ref nr taken) = pc"
  by (simp add: branch_arm_def Let_def)

lemma jmp_operand_zero [simp]: "jmp_operand w 0 = 0"
  by (simp add: jmp_operand_def)

lemma jump_step:
  assumes jump: "is_jump insn" "canonical insn" "\<not> is_exit insn" "\<not> is_call insn"
    and ver: "verify_jump insn s idx = Inr r" and disc: "disciplined cfg insn s"
    and uses: "\<And>r. regset_contains (uses (use_def_of insn)) r \<Longrightarrow> conforms P cfg env s m r"
    and run: "execute_jmp ext env insn (insn_class insn = Some Jmp) m = Inr (res, m')"
  shows "m' = m \<and> (\<exists>u. u \<in> set_option (fst (next_states insn r s)) \<union> set (snd (next_states insn r s))
    \<and> (\<forall>x. conforms P cfg env s m x \<longrightarrow> conforms P cfg env u m x)
    \<and> (res = IContinue \<and> vs_insn_idx u = idx + 1
       \<or> res = IJump (insn_offset insn) \<and> int (vs_insn_idx u) = int idx + 1 + sint (insn_offset insn)))"
  using ver
proof (cases rule: verify_jump_InrD)
  case jump
  from run assms(1-4) show ?thesis
  proof (cases rule: execute_jmp_InrD)
    case 1: jump
    let ?u = "s\<lparr>vs_insn_idx := nat (int idx + 1 + sint (insn_offset insn)), vs_insn_processed := vs_insn_processed s + 1\<rparr>"
    have "?u \<in> set_option (fst (next_states insn r s))" using jump by (simp add: next_states_def)
    then show ?thesis using 1 jump by (intro conjI exI [of _ ?u]) (auto simp: conforms_def)
  qed (use jump in simp)
next
  case v: (branch op dst ref nr)
  from run assms(1-4) show ?thesis
  proof (cases rule: execute_jmp_InrD)
    case e: (branch op' dst' y cond)
    let ?u = "branch_arm s (if cond then nat (int idx + 1 + sint (insn_offset insn)) else idx + 1) ref nr cond"
    have eq: "op' = op" "dst' = dst" using e v by auto
    have in_next: "?u \<in> set_option (fst (next_states insn r s)) \<union> set (snd (next_states insn r s))"
      using v by (auto simp: next_states_def)
    have null: "case nr of None \<Rightarrow> True | Some n \<Rightarrow> nr_reg n = x \<longrightarrow> cond = nr_nonnull_on_true n \<longrightarrow> mc_regs m x \<noteq> 0" for x
    proof (cases nr)
      case (Some n)
      then have "insn_source_type insn \<noteq> Src_Reg"
        using v disc jump(1) by (auto simp: disciplined_def)
      then have "y = 0" using e v Some by (auto simp: source_value_def insn_source_type_def)
      then show ?thesis using e v Some eq by (auto simp: jmp_condition_def)
    qed simp
    have "scalar_has (if cond then br_true b else br_false b) (mc_regs m dst)"
      if b: "ref = Some b" and tr: "tracks_handles cfg" for b
    proof -
      have rb: "insn_class insn = Some Jmp"
        "br_true b = fst (refine_scalar (unknown_if_none (rs_scalar (vs_regs s dst))) op (alu_operand insn s))"
        "br_false b = snd (refine_scalar (unknown_if_none (rs_scalar (vs_regs s dst))) op (alu_operand insn s))"
        using v(7) b by (auto simp: prod_eq_iff)
      have "scalar_has (unknown_if_none (rs_scalar (vs_regs s dst))) (mc_regs m dst)"
        using reg_conforms_scalarD [OF _ tr] uses [of dst] uses_jump(1) [OF jump(1,3,4), of dst] v(3)
        by (auto simp: conforms_def)
      moreover have "scalar_has (alu_operand insn s) y"
        by (rule alu_operand_sound [OF e(4) tr, of P env]) (use uses uses_jump(1) [OF jump(1,3,4)] in simp)
      moreover have "jmp_condition op (mc_regs m dst) y = Some cond" using e(5) eq rb(1) by (simp add: jmp_operand_def)
      ultimately show ?thesis unfolding rb(2,3) by (rule refine_scalar_value_sound)
    qed
    then have scal: "case ref of None \<Rightarrow> True | Some b \<Rightarrow> br_dst b = x \<longrightarrow> tracks_handles cfg
        \<longrightarrow> scalar_has (if cond then br_true b else br_false b) (mc_regs m x)" for x
      using v(7) by (auto split: option.splits)
    show ?thesis
      using e v in_next branch_arm_conforms [OF _ null scal] by (intro conjI exI [of _ ?u]) auto
  qed (use v in simp)
qed

end
