(* ===== verification/Steps_Memory.thy ===== *)
theory Steps_Memory
  imports Steps
begin

text \<open>
  Helper calls, loads and stores: under the contract of the kernel functions a call leaves a machine
  that conforms to the state after the call, and a checked load or store stays inside the stack, the
  context, the payload or a map value.
\<close>

section \<open>Calls\<close>

lemma reg_conforms_mem:
  assumes "reg_conforms P cfg env mem rs v" "\<And>base sz w. valid_value mem base sz w \<Longrightarrow> valid_value mem' base sz w"
  shows "reg_conforms P cfg env mem' rs v"
  using assms by (cases "rs_type rs") (auto simp: reg_conforms_def)

lemma execute_call_defined: "execute_call ext env insn m \<noteq> Inl Undefined"
  by (auto simp: execute_call_def call_helper_def res_bind_def ok_or_def Let_def
      split: option.splits sum.splits prod.splits)

lemma valid_value_le:
  "valid_value mem base sz w \<Longrightarrow> sz' \<le> sz \<Longrightarrow> (w' \<Longrightarrow> w) \<Longrightarrow> valid_value mem base sz' w'"
  by (auto simp: valid_value_def range_all_iff word_le_nat_alt)

text \<open>
  The map the verifier finds from the known value of the handle register is the one the helper is
  called with: a handle of a generation table has 32 bits, and a plain index is below the length of
  the size table.
\<close>

lemma map_handle_slot_ucast:
  assumes "map_handle_slot h cfg = Some i" "i < 2 ^ 32"
  shows "map_handle_slot (ucast (ucast h :: u32)) cfg = Some i"
proof -
  have "(ucast u32_MAX :: u64) = 0xFFFFFFFF" by transfer (simp add: take_bit_eq_mod)
  then have "h \<le> 0xFFFFFFFF"
    using assms by (auto simp: map_handle_slot_def Let_def word_le_nat_alt not_less split: if_splits)
  then have "ucast (ucast h :: u32) = h" by (simp add: ucast_ucast_u32 mask32_small)
  then show ?thesis using assms(1) by simp
qed

lemma known_value_conforms:
  assumes "reg_conforms P cfg env mem rs v" "tracks_handles cfg" "known_value rs = Some h"
  shows "v = h"
  using assms by (auto simp: reg_conforms_def known_value_def scalar_has_def split: option.splits)

lemma min_u32_le: "min_u32 xs = Some m \<Longrightarrow> n \<in> set xs \<Longrightarrow> m \<le> n"
proof -
  have "n \<in> set (y # ys) \<Longrightarrow> fold min ys y \<le> n" for y and ys :: "u32 list"
    using Min.set_eq_fold [of y ys] by (metis List.finite_set Min_le)
  then show "min_u32 xs = Some m \<Longrightarrow> n \<in> set xs \<Longrightarrow> m \<le> n"
    by (cases xs) (auto simp: min_u32_def)
qed

lemma lookup_size_sound:
  assumes sz: "map_lookup_value_size rs cfg = Inr sz" and len: "length (map_value_sizes cfg) < 2 ^ 32"
    and conf: "reg_conforms P cfg env mem rs v" and n: "handle_size cfg (ucast v) = Some n"
  shows "sz \<le> n"
proof (cases "map_value_sizes cfg = []")
  case True
  then show ?thesis using sz n by (simp add: map_lookup_value_size_def handle_size_def)
next
  case tbl: False
  then have tr: "tracks_handles cfg" by (simp add: tracks_handles_def)
  show ?thesis
  proof (cases "known_value rs")
    case (Some h)
    then obtain i where i: "map_handle_slot h cfg = Some i" "nth_opt (map_value_sizes cfg) i = Some sz"
      using sz tbl by (auto simp: map_lookup_value_size_def res_Inr_iffs)
    then have "map_handle_slot (ucast (ucast h :: u32)) cfg = Some i"
      using len by (intro map_handle_slot_ucast) (auto simp: nth_opt_def split: if_splits)
    then show ?thesis
      using n tbl i known_value_conforms [OF conf tr Some] by (simp add: handle_size_def)
  next
    case None
    then have "min_u32 (map_value_sizes cfg) = Some sz"
      using sz tbl by (cases "map_value_sizes cfg") (auto simp: map_lookup_value_size_def min_u32_def split: if_splits)
    moreover have "n \<in> set (map_value_sizes cfg)"
      using n tbl by (auto simp: handle_size_def bind_eq_Some_conv nth_opt_def split: if_splits)
    ultimately show ?thesis using min_u32_le by blast
  qed
qed

lemma lookup_writability_sound:
  assumes w: "writable_value (map_lookup_writability rs cfg)" and conf: "reg_conforms P cfg env mem rs v"
  shows "handle_writable cfg (ucast v)"
proof (cases "map_perms cfg = []")
  case False
  then have tr: "tracks_handles cfg" by (simp add: tracks_handles_def)
  obtain i where "map_lookup_writability rs cfg = ReadWrite i"
    using w by (auto simp: writable_value_def split: map_writability.splits)
  from map_lookup_writability_ReadWrite [OF this False] obtain h j slot where
    h: "known_value rs = Some h" "u32_try_from h = Some j" "map_handle_slot (ucast j) cfg = Some slot"
      "slot < length (map_perms cfg)" "map_perms cfg ! slot \<in> {MapWriteOnly, MapReadWrite}" by blast
  have "v = h" by (rule known_value_conforms [OF conf tr h(1)])
  then have "ucast v = j" using h(2) by (auto simp: u32_try_from_def split: if_splits)
  then show ?thesis using h by (auto simp: handle_writable_def nth_opt_def)
qed (simp add: handle_writable_def)

lemma call_return_conforms:
  assumes ret: "call_return_state cfg sig s idx = Inr rs" and len: "length (map_value_sizes cfg) < 2 ^ 32"
    and r1: "reg_conforms P cfg env mem0 (vs_regs s R1) h"
    and look: "sig_ret sig = RetPtrToMapValueOrNull \<Longrightarrow>
      v = 0 \<or> (\<exists>sz. handle_size cfg (ucast h) = Some sz \<and> valid_value mem v sz (handle_writable cfg (ucast h)))"
    and alloc: "sig_ret sig = RetPtrToAllocMemOrNull \<Longrightarrow> v = 0 \<or> valid_value mem v (map_value_size cfg) True"
  shows "reg_conforms P cfg env mem rs v"
proof (cases "sig_ret sig")
  case RetPtrToMapValueOrNull
  then obtain sz where sz: "map_lookup_value_size (vs_regs s R1) cfg = Inr sz"
    and rs: "rs = map_value_with_writability sz True (map_lookup_writability (vs_regs s R1) cfg)"
    using ret by (auto simp: call_return_state_def split: sum.splits)
  have "valid_value mem v sz (writable_value (map_lookup_writability (vs_regs s R1) cfg))" if "v \<noteq> 0"
    using look [OF RetPtrToMapValueOrNull] that lookup_size_sound [OF sz len r1] lookup_writability_sound [OF _ r1]
    by (auto intro: valid_value_le)
  then show ?thesis unfolding rs by (auto simp: reg_conforms_def map_value_with_writability_def)
next
  case RetPtrToAllocMemOrNull
  then show ?thesis
    using ret alloc
    by (auto simp: call_return_state_def reg_conforms_def reg_map_value_def map_value_with_writability_def
        intro: valid_value_le)
qed (use ret in \<open>auto simp: call_return_state_def\<close>)

lemma call_step:
  assumes ver: "verify_call P cfg insn s idx = Inr (s', hs)" and call: "is_call insn"
    and len: "length (map_value_sizes cfg) < 2 ^ 32" and ext: "helper_contract ext env cfg"
    and ok: "machine_ok P cfg env m" and r1: "conforms P cfg env s m R1"
    and run: "execute_call ext env insn m = Inr (res, m')"
  shows "res = IContinue" "machine_ok P cfg env m'"
    "regset_contains (defs (use_def_of insn)) r \<or> conforms P cfg env s m r \<Longrightarrow> conforms P cfg env s' m' r"
proof -
  obtain args v k where h: "call_helper ext env (insn_imm insn) args (mc_kernel m) = Inr (v, k)"
    and args: "args 0 = mc_regs m R1"
    and res: "res = IContinue" "m' = m\<lparr>mc_regs := register_file_set (mc_regs m) R0 v, mc_kernel := k\<rparr>"
    using run by (auto simp: execute_call_def Let_def res_bind_eq_Inr_iff register_file_get_def)
  show "res = IContinue" by (fact res)
  have mem: "mem_ok cfg env (fst (mc_kernel m))" using ok by (simp add: machine_ok_def)
  note c = ext [unfolded helper_contract_def, rule_format, OF h mem]
  have keep: "valid_value (fst (mc_kernel m)) base sz w \<Longrightarrow> valid_value (fst k) base sz w" for base sz w
    using c by blast
  show "machine_ok P cfg env m'" using ok c res by (simp add: machine_ok_def register_file_set_def)
  obtain sig where sig: "validate_helper_call P (insn_imm insn) (map (\<lambda>r. rs_type (vs_regs s r)) [R1, R2, R3, R4, R5]) = HV_Valid sig"
    using ver by (auto simp: verify_call_def Let_def split: helper_validation.splits)
  then obtain hid where hid: "insn_imm insn = helper_raw hid" "sig = helper_signature hid"
    by (rule validate_helper_call_Valid) simp
  obtain rs where rs: "call_return_state cfg sig s idx = Inr rs" "s' = set_reg (clobber_caller_saved s) R0 rs"
    using ver sig by (auto simp: verify_call_def Let_def res_bind_eq_Inr_iff)
  have "helper_from_raw (insn_imm insn) = Some hid" using hid(1) helper_from_raw_raw by simp
  then have r0: "reg_conforms P cfg env (fst k) rs v"
    using c unfolding args by (intro call_return_conforms [OF rs(1) len r1 [unfolded conforms_def]]) (simp_all add: hid(2))
  assume "regset_contains (defs (use_def_of insn)) r \<or> conforms P cfg env s m r"
  then have "r \<in> {R0, R1, R2, R3, R4, R5} \<or> conforms P cfg env s m r" by (simp add: uses_call [OF call])
  then show "conforms P cfg env s' m' r"
    using r0 rs(2) res(2) reg_conforms_mem [OF _ keep]
    by (auto simp: conforms_def set_reg_def clobber_caller_saved_regs register_file_set_def)
qed

section \<open>Loads\<close>

lemma size_bytes_bounds: "0 < size_bytes sz" "size_bytes sz \<le> 8"
  by (cases sz; simp)+

lemma stack_access_offset_SomeD:
  assumes "stack_access_offset start len base addr sz fp = Inr (Some i)"
  shows "start \<le> addr" "unat addr + sz \<le> unat start + len"
proof -
  have "\<not> addr < start" "sz \<le> len - unat (addr - start)" "unat (addr - start) \<le> len"
    using assms by (auto simp: stack_access_offset_def checked_sub_def Let_def res_bind_def ok_or_def split: if_splits option.splits)
  moreover from this show "start \<le> addr" by (simp add: not_less)
  ultimately show "unat addr + sz \<le> unat start + len" by (auto simp: unat_sub word_le_nat_alt)
qed

lemma stack_access_offset_defined: "stack_access_offset start len base addr sz fp \<noteq> Inl Undefined"
  by (auto simp: stack_access_offset_def Let_def res_bind_def ok_or_def split: option.splits)

text \<open>The outcomes of a load, with the address and where the value comes from.\<close>

lemma execute_load_cases:
  assumes "insn_mem_size insn = Some msz"
  obtains e where "execute_load env insn m = Inl (Err e)"
  | dst src addr so where "insn_dst insn = Some dst" "insn_src insn = Some src"
      "checked_add_signed (mc_regs m src) (sint (insn_offset insn)) = Some addr"
      "stack_access_offset (env_stack_addr env) (length (mc_stack m)) (mc_regs m src) addr (size_bytes msz) (src = R10) = Inr so"
      "execute_load env insn m =
         res_bind (case so of Some i \<Rightarrow> Inr (le_value (take (size_bytes msz) (drop i (mc_stack m))))
                   | None \<Rightarrow> read_unaligned (fst (mc_kernel m)) addr (size_bytes msz))
           (\<lambda>v. Inr (m\<lparr>mc_regs := register_file_set (mc_regs m) dst v\<rparr>))"
proof -
  have sz: "size_from_opcode (opcode insn) = Some msz"
    using assms by (simp add: insn_mem_size_def split: if_splits)
  show ?thesis
  proof (cases "insn_dst insn = None \<or> insn_src insn = None")
    case True
    then show ?thesis
      using that(1) [of BpfInvalidInstruction]
      by (cases "register_from_raw (dst_reg insn)"; cases "register_from_raw (src_reg insn)")
        (simp_all add: execute_load_def insn_dst_def insn_src_def)
  next
    case False
    then obtain dst src where r: "insn_dst insn = Some dst" "insn_src insn = Some src" by auto
    show ?thesis
    proof (cases "checked_add_signed (mc_regs m src) (sint (insn_offset insn))")
      case None
      then show ?thesis
        using that(1) r sz by (auto simp: execute_load_def insn_dst_def insn_src_def register_file_get_def Let_def)
    next
      case (Some addr)
      let ?so = "stack_access_offset (env_stack_addr env) (length (mc_stack m)) (mc_regs m src) addr (size_bytes msz) (src = R10)"
      have eq: "execute_load env insn m = res_bind ?so (\<lambda>so. case so of
          Some i \<Rightarrow> Inr (m\<lparr>mc_regs := register_file_set (mc_regs m) dst (le_value (take (size_bytes msz) (drop i (mc_stack m))))\<rparr>)
        | None \<Rightarrow> if addr \<noteq> 0 \<or> env_ctx_addr env \<le> addr \<and> addr + of_nat (size_bytes msz) \<le> env_ctx_addr env + of_nat context_struct_size
            then res_bind (read_unaligned (fst (mc_kernel m)) addr (size_bytes msz)) (\<lambda>v. Inr (m\<lparr>mc_regs := register_file_set (mc_regs m) dst v\<rparr>))
            else Inl (Err BpfOutOfBounds))"
        using r sz Some
        by (simp add: execute_load_def insn_dst_def insn_src_def register_file_get_def Let_def) (auto intro!: arg_cong2 [where f = res_bind] split: option.splits)
      show ?thesis
      proof (cases ?so)
        case (Inl e)
        then show ?thesis using eq that(1) stack_access_offset_defined by (cases e) auto
      next
        case (Inr so)
        then show ?thesis
        proof (cases "execute_load env insn m = Inl (Err BpfOutOfBounds)")
          case False
          with eq Inr have "execute_load env insn m =
            res_bind (case so of Some i \<Rightarrow> Inr (le_value (take (size_bytes msz) (drop i (mc_stack m))))
                   | None \<Rightarrow> read_unaligned (fst (mc_kernel m)) addr (size_bytes msz))
             (\<lambda>v. Inr (m\<lparr>mc_regs := register_file_set (mc_regs m) dst v\<rparr>))"
            by (auto split: option.splits if_splits)
          then show ?thesis by (rule that(2) [OF r Some Inr])
        qed (rule that(1))
      qed
    qed
  qed
qed

lemma verify_load_InrD:
  assumes "verify_load cfg insn sz s idx = Inr s'" "insn_dst insn = Some dst" "insn_src insn = Some src"
  shows "dst \<noteq> R10"
    "if is_stack_ptr (vs_regs s src)
     then is_valid_access (vs_stack s) (wrap_i64 (rs_offset (vs_regs s src) + sint (insn_offset insn))) sz
     else can_read (rs_type (vs_regs s src))
          \<and> check_ranged_deref (vs_regs s src) (sint (insn_offset insn)) sz idx = Inr ()"
    "s' = (case ctx_load_result cfg (vs_regs s src) (sint (insn_offset insn)) sz of
             Some loaded \<Rightarrow> set_reg s dst loaded
           | None \<Rightarrow> set_scalar s dst (Some scalar_unknown))"
  using assms
  by (auto simp: verify_load_def Let_def res_Inr_iffs is_stack_ptr_def split: if_splits option.splits)

lemma load_address:
  assumes conf: "conforms P cfg env s m src" and st: "state_ok P s" and ok: "machine_ok P cfg env m" and env: "env_ok P env"
    and check: "if is_stack_ptr (vs_regs s src)
     then is_valid_access (vs_stack s) (wrap_i64 (rs_offset (vs_regs s src) + off)) sz
     else can_read (rs_type (vs_regs s src)) \<and> check_ranged_deref (vs_regs s src) off sz idx = Inr ()"
    and sz: "sz \<le> 8"
    and addr: "checked_add_signed (mc_regs m src) off = Some addr"
    and so: "stack_access_offset (env_stack_addr env) (length (mc_stack m)) (mc_regs m src) addr sz fp = Inr None"
  shows "range_all (rm_readable (fst (mc_kernel m))) addr sz"
    "rs_type (vs_regs s src) = PtrToMapValue \<Longrightarrow> writable_value (rs_writability (vs_regs s src))
      \<Longrightarrow> range_all (rm_writable (fst (mc_kernel m))) addr sz"
    "\<not> is_stack_ptr (vs_regs s src)"
proof -
  have c: "reg_conforms P cfg env (fst (mc_kernel m)) (vs_regs s src) (mc_regs m src)"
    using conf by (simp add: conforms_def)
  show ns: "\<not> is_stack_ptr (vs_regs s src)"
  proof
    assume sp: "is_stack_ptr (vs_regs s src)"
    then have "mc_regs m src = frame_top P env + of_int (rs_offset (vs_regs s src))"
      using c by (auto simp: is_stack_ptr_def reg_conforms_def)
    from stack_access_inside [OF env _ this _ _ addr, of "length (mc_stack m)" "vs_stack s" sz "mc_regs m src" fp]
    show False using sp check st ok so by (auto simp: state_ok_def machine_ok_def)
  qed
  have mem: "mem_ok cfg env (fst (mc_kernel m))" using ok by (simp add: machine_ok_def)
  have ck: "check_ranged_deref (vs_regs s src) off sz idx = Inr ()" "can_read (rs_type (vs_regs s src))"
    using check ns by simp_all
  note inside = ranged_access_inside [OF c mem ck(1) sz ck(2) ns]
  show "range_all (rm_readable (fst (mc_kernel m))) addr sz"
    "rs_type (vs_regs s src) = PtrToMapValue \<Longrightarrow> writable_value (rs_writability (vs_regs s src))
      \<Longrightarrow> range_all (rm_writable (fst (mc_kernel m))) addr sz"
    using inside checked_add_signed_SomeD [OF addr] by simp_all
qed

text \<open>An eight-byte load at offset zero of the context yields the payload pointer.\<close>

lemma ctx_load_value:
  assumes ok: "machine_ok P cfg env m" and env: "env_ok P env"
    and so: "stack_access_offset (env_stack_addr env) (length (mc_stack m)) base (env_ctx_addr env) 8 fp = Inr so"
    and v: "(case so of Some i \<Rightarrow> Inr (le_value (take 8 (drop i (mc_stack m))))
             | None \<Rightarrow> read_unaligned (fst (mc_kernel m)) (env_ctx_addr env) 8) = Inr v"
  shows "v = ctx_data (env_ctx env)"
proof -
  have len: "length (mc_stack m) = MAX_STACK_SIZE P" using ok by (simp add: machine_ok_def)
  have top: "unat (frame_top P env) = unat (env_stack_addr env) + MAX_STACK_SIZE P"
    using env unfolding env_ok_def frame_top_def
    by (subst unat_add_lem [THEN iffD1]) (simp_all add: unat_of_nat take_bit_nat_eq_self)
  have "so = None"
  proof (cases so)
    case (Some i)
    from stack_access_offset_SomeD [OF so [unfolded Some]] len top env show ?thesis
      by (auto simp: env_ok_def word_less_nat_alt)
  qed
  moreover have "le_value (map (\<lambda>i. rm_bytes (fst (mc_kernel m)) (env_ctx_addr env + of_nat i)) [0..<8]) = ctx_data (env_ctx env)"
    using ok unfolding machine_ok_def mem_ok_def by blast
  ultimately show ?thesis using v by (auto simp: read_unaligned_def simp del: upt_rec_numeral split: if_splits)
qed

lemma ctx_load_resultD:
  assumes "ctx_load_result cfg rs off sz = Some loaded"
  shows "rs_type rs = PtrToCtx" "sz = 8" "rs_offset rs + off = 0" "loaded = reg_ctx_data_ptr (ctx_data_size cfg)"
  using assms
  by (auto simp: ctx_load_result_def checked_add_i64_def split: if_splits Option.bind_splits)

lemma load_step:
  assumes cls: "insn_class insn = Some Ldx" "insn_mem_size insn = Some msz"
    and ver: "verify_load cfg insn (size_bytes msz) s idx = Inr s'"
    and st: "state_ok P s" and ok: "machine_ok P cfg env m" and env: "env_ok P env"
    and conf: "\<And>r. insn_src insn = Some r \<Longrightarrow> conforms P cfg env s m r"
    and disc: "disciplined cfg insn s"
  shows "execute_load env insn m \<noteq> Inl Undefined"
    "execute_load env insn m = Inr m' \<Longrightarrow>
       machine_ok P cfg env m' \<and> (\<forall>r. insn_dst insn = Some r \<or> conforms P cfg env s m r \<longrightarrow> conforms P cfg env s' m' r)"
proof (atomize (full), cases rule: execute_load_cases [OF cls(2), of env m])
  case (2 dst src addr so)
  note ld = verify_load_InrD [OF ver 2(1,2)]
  let ?v = "case so of Some i \<Rightarrow> Inr (le_value (take (size_bytes msz) (drop i (mc_stack m))))
    | None \<Rightarrow> read_unaligned (fst (mc_kernel m)) addr (size_bytes msz)"
  have defined: "?v \<noteq> Inl Undefined"
    using load_address(1) [OF conf [OF 2(2)] st ok env ld(2) size_bytes_bounds(2) 2(3), of "src = R10"] 2(4)
    by (cases so) (auto simp: read_unaligned_def)
  have step: "machine_ok P cfg env (m\<lparr>mc_regs := register_file_set (mc_regs m) dst v\<rparr>)
      \<and> (\<forall>r. insn_dst insn = Some r \<or> conforms P cfg env s m r
         \<longrightarrow> conforms P cfg env s' (m\<lparr>mc_regs := register_file_set (mc_regs m) dst v\<rparr>) r)" if v: "?v = Inr v" for v
  proof -
    have "reg_conforms P cfg env (fst (mc_kernel m)) loaded v"
      if l: "ctx_load_result cfg (vs_regs s src) (sint (insn_offset insn)) (size_bytes msz) = Some loaded" for loaded
    proof -
      note l = ctx_load_resultD [OF l]
      have "msz = MemDWord" using l(2) by (cases msz) simp_all
      then have sizes: "rs_mem_range (vs_regs s src) = Some (ctx_size cfg)" "ctx_size cfg \<noteq> ctx_data_size cfg"
        using disc 2(2) cls l(1,3) by (simp_all add: disciplined_def)
      then have "mc_regs m src = env_ctx_addr env + of_int (rs_offset (vs_regs s src))"
        using conf [OF 2(2)] l(1) sizes by (auto simp: conforms_def reg_conforms_def)
      then have "addr = env_ctx_addr env + of_int (rs_offset (vs_regs s src) + sint (insn_offset insn))"
        using checked_add_signed_SomeD [OF 2(3)] by simp
      then have a: "addr = env_ctx_addr env" using l(3) by simp
      have "v = ctx_data (env_ctx env)"
        by (rule ctx_load_value [OF ok env 2(4) [unfolded a l(2)] v [unfolded a l(2)]])
      then show ?thesis using l(4) by (simp add: reg_conforms_def reg_ctx_data_ptr_def)
    qed
    then have "conforms P cfg env s' (m\<lparr>mc_regs := register_file_set (mc_regs m) dst v\<rparr>) r"
      if "insn_dst insn = Some r \<or> conforms P cfg env s m r" for r
      using ld(3) 2(1) that
      by (auto simp: set_scalar_def set_reg_def conforms_def register_file_set_def split: option.splits)
    then show ?thesis using ok ld(1) by (simp add: machine_ok_put)
  qed
  show "execute_load env insn m \<noteq> Inl Undefined \<and> (execute_load env insn m = Inr m' \<longrightarrow>
       machine_ok P cfg env m' \<and> (\<forall>r. insn_dst insn = Some r \<or> conforms P cfg env s m r \<longrightarrow> conforms P cfg env s' m' r))"
    using defined step unfolding 2(5) by (cases ?v) auto
qed simp

section \<open>Stores\<close>

lemma execute_store_cases:
  assumes "insn_mem_size insn = Some msz" "insn_class insn = Some cls"
  obtains e where "execute_store env insn m = Inl (Err e)"
  | dst addr so val where "insn_dst insn = Some dst"
      "checked_add_signed (mc_regs m dst) (sint (insn_offset insn)) = Some addr"
      "stack_access_offset (env_stack_addr env) (length (mc_stack m)) (mc_regs m dst) addr (size_bytes msz) (dst = R10) = Inr so"
      "execute_store env insn m =
         (case so of Some i \<Rightarrow> Inr (m\<lparr>mc_stack := stack_store (mc_stack m) i (le_bytes (size_bytes msz) val)\<rparr>)
          | None \<Rightarrow> res_bind (write_unaligned (fst (mc_kernel m)) addr (size_bytes msz) val)
              (\<lambda>raw. Inr (m\<lparr>mc_kernel := (raw, snd (mc_kernel m))\<rparr>)))"
proof -
  have sz: "size_from_opcode (opcode insn) = Some msz" "class_from_opcode (opcode insn) = Some cls"
    using assms by (simp_all add: insn_mem_size_def insn_class_def split: if_splits)
  let ?val = "if cls = St then Inr (imm_u64 (insn_imm insn))
    else res_bind (ok_or (insn_src insn) (Err BpfInvalidInstruction)) (\<lambda>src. Inr (mc_regs m src))"
  show ?thesis
  proof (cases "insn_dst insn")
    case None
    then show ?thesis using that(1) [of BpfInvalidInstruction] by (simp add: execute_store_def insn_dst_def)
  next
    case dst: (Some dst)
    have eq: "execute_store env insn m = res_bind ?val (\<lambda>val.
       res_bind (ok_or (checked_add_signed (mc_regs m dst) (sint (insn_offset insn))) (Err BpfOutOfBounds)) (\<lambda>addr.
       res_bind (stack_access_offset (env_stack_addr env) (length (mc_stack m)) (mc_regs m dst) addr (size_bytes msz) (dst = R10)) (\<lambda>so.
         case so of Some i \<Rightarrow> Inr (m\<lparr>mc_stack := stack_store (mc_stack m) i (le_bytes (size_bytes msz) val)\<rparr>)
          | None \<Rightarrow> if addr \<noteq> 0 then res_bind (write_unaligned (fst (mc_kernel m)) addr (size_bytes msz) val)
              (\<lambda>raw. Inr (m\<lparr>mc_kernel := (raw, snd (mc_kernel m))\<rparr>)) else Inl (Err BpfOutOfBounds))))"
      using dst sz by (simp add: execute_store_def insn_dst_def insn_src_def register_file_get_def Let_def cong: option.case_cong)
    have val: "?val \<noteq> Inl Undefined" by (cases "insn_src insn") auto
    show ?thesis
    proof (cases ?val)
      case (Inl e)
      then show ?thesis using eq val that(1) by (cases e) auto
    next
      case val: (Inr val)
      show ?thesis
      proof (cases "checked_add_signed (mc_regs m dst) (sint (insn_offset insn))")
        case None
        then show ?thesis using eq val that(1) [of BpfOutOfBounds] by simp
      next
        case addr: (Some addr)
        show ?thesis
        proof (cases "stack_access_offset (env_stack_addr env) (length (mc_stack m)) (mc_regs m dst) addr (size_bytes msz) (dst = R10)")
          case (Inl e)
          then show ?thesis using eq val addr that(1) stack_access_offset_defined by (cases e) auto
        next
          case so: (Inr so)
          show ?thesis
          proof (cases "execute_store env insn m = Inl (Err BpfOutOfBounds)")
            case False
            then show ?thesis using eq val addr so by (intro that(2) [OF dst addr so, of val]) (auto split: option.splits if_splits)
          qed (rule that(1))
        qed
      qed
    qed
  qed
qed

lemma write_bytes_other:
  assumes "\<And>i. i < length bs \<Longrightarrow> a \<noteq> addr + of_nat i"
  shows "write_bytes f addr bs a = f a"
proof -
  have "fold (\<lambda>(i, b) g. g(addr + of_nat i := b)) (enumerate k bs) f a = f a"
    if "\<forall>i \<in> {k..<k + length bs}. a \<noteq> addr + of_nat i" for k
    using that
  proof (induction bs arbitrary: k f)
    case (Cons b bs)
    have "a \<noteq> addr + of_nat k" using Cons.prems by auto
    then show ?case using Cons.IH [of "Suc k"] Cons.prems by simp
  qed simp
  from this [of 0] assms show ?thesis by (simp add: write_bytes_def)
qed

lemma mem_ok_write:
  assumes mem: "mem_ok cfg env mem" and w: "write_unaligned mem addr n v = Inr mem'"
  shows "mem_ok cfg env mem'"
proof -
  have mem': "mem' = mem\<lparr>rm_bytes := write_bytes (rm_bytes mem) addr (le_bytes n v)\<rparr>"
    and wr: "range_all (rm_writable mem) addr n"
    using w by (auto simp: write_unaligned_def split: if_splits)
  have "rm_bytes mem' (env_ctx_addr env + of_nat i) = rm_bytes mem (env_ctx_addr env + of_nat i)" if "i < 8" for i
  proof -
    have "\<not> rm_writable mem (env_ctx_addr env + of_nat i)" using mem that unfolding mem_ok_def list_all_iff by auto
    then have "env_ctx_addr env + of_nat i \<noteq> addr + of_nat j" if "j < n" for j
      using wr that by (auto simp: range_all_iff)
    then have "write_bytes (rm_bytes mem) addr (le_bytes n v) (env_ctx_addr env + of_nat i) = rm_bytes mem (env_ctx_addr env + of_nat i)"
      by (intro write_bytes_other) simp
    then show ?thesis by (simp add: mem')
  qed
  then have "map (\<lambda>i. rm_bytes mem' (env_ctx_addr env + of_nat i)) [0..<8] = map (\<lambda>i. rm_bytes mem (env_ctx_addr env + of_nat i)) [0..<8]"
    by (intro map_cong) auto
  moreover have "rm_readable mem' = rm_readable mem" "rm_writable mem' = rm_writable mem" by (simp_all add: mem')
  ultimately show ?thesis using mem unfolding mem_ok_def by (simp only:)
qed

lemma write_unaligned_regions:
  "write_unaligned mem addr n v = Inr mem' \<Longrightarrow> valid_value mem' base sz w \<longleftrightarrow> valid_value mem base sz w"
  by (auto simp: write_unaligned_def valid_value_def split: if_splits)

lemma verify_store_at_InrD:
  assumes "verify_store_at insn dst sz s idx = Inr s'"
  shows "if is_stack_ptr (vs_regs s dst)
     then is_valid_access (vs_stack s) (wrap_i64 (rs_offset (vs_regs s dst) + sint (insn_offset insn))) sz
     else can_read (rs_type (vs_regs s dst))
          \<and> check_ranged_deref (vs_regs s dst) (sint (insn_offset insn)) sz idx = Inr ()"
    "can_write (rs_type (vs_regs s dst)) \<or> rs_type (vs_regs s dst) = PtrToFp"
    "rs_type (vs_regs s dst) = PtrToMapValue \<Longrightarrow> writable_value (rs_writability (vs_regs s dst))"
  using assms
  by (auto simp: verify_store_at_def Let_def res_Inr_iffs is_stack_ptr_def can_write_def can_read_def
      check_map_write_writability_def writable_value_def split: if_splits map_writability.splits)

lemma store_step:
  assumes cls: "insn_class insn = Some cls" "insn_mem_size insn = Some msz"
    and dst: "insn_dst insn = Some dst"
    and ver: "verify_store_at insn dst (size_bytes msz) s idx = Inr s'"
    and st: "state_ok P s" and ok: "machine_ok P cfg env m" and env: "env_ok P env"
    and conf: "conforms P cfg env s m dst"
  shows "execute_store env insn m \<noteq> Inl Undefined"
    "execute_store env insn m = Inr m' \<Longrightarrow>
       machine_ok P cfg env m' \<and> (\<forall>r. conforms P cfg env s m r \<longrightarrow> conforms P cfg env s' m' r)"
proof (atomize (full), cases rule: execute_store_cases [OF cls(2,1), of env m])
  case (2 dst' addr so val)
  then have d: "dst' = dst" using dst by simp
  note sd = verify_store_at_InrD [OF ver]
  have regs: "vs_regs s' = vs_regs s" using verify_store_at_keeps [OF ver] by simp
  have sz: "length (le_bytes (size_bytes msz) val) = size_bytes msz" by simp
  show "execute_store env insn m \<noteq> Inl Undefined \<and> (execute_store env insn m = Inr m' \<longrightarrow>
       machine_ok P cfg env m' \<and> (\<forall>r. conforms P cfg env s m r \<longrightarrow> conforms P cfg env s' m' r))"
  proof (cases so)
    case None
    note a = load_address [OF conf st ok env sd(1) size_bytes_bounds(2) 2(2) [unfolded d] 2(3) [unfolded d None]]
    have "rs_type (vs_regs s dst) = PtrToMapValue"
      using sd(2) a(3) conf by (auto simp: is_stack_ptr_def can_write_def conforms_def reg_conforms_def)
    then obtain raw where w: "write_unaligned (fst (mc_kernel m)) addr (size_bytes msz) val = Inr raw"
      using a(2) sd(3) by (simp add: write_unaligned_def)
    then have e: "execute_store env insn m = Inr (m\<lparr>mc_kernel := (raw, snd (mc_kernel m))\<rparr>)" using 2(4) None by simp
    then show ?thesis
      using mem_ok_write [OF _ w] ok reg_conforms_mem [of P cfg env "fst (mc_kernel m)" _ _ raw] write_unaligned_regions [OF w]
      by (auto simp: machine_ok_def conforms_def regs)
  next
    case (Some i)
    have "stack_access_offset (env_stack_addr env) (length (mc_stack m)) (mc_regs m dst) addr (size_bytes msz) (dst = R10) = Inr (Some i)"
      using 2(3) d Some by simp
    then have "i + size_bytes msz \<le> length (mc_stack m)"
      by (auto simp: stack_access_offset_def checked_sub_def Let_def res_bind_def ok_or_def split: if_splits option.splits)
    then have "length (stack_store (mc_stack m) i (le_bytes (size_bytes msz) val)) = length (mc_stack m)"
      by (simp add: stack_store_def)
    then show ?thesis using 2(4) Some ok by (auto simp: machine_ok_def conforms_def regs)
  qed
qed simp

end
