(* ===== verification/Run_Edges.thy ===== *)
theory Run_Edges
  imports Steps_Memory
begin

text \<open>
  A run follows the control-flow graph: every step the interpreter takes inside the program is an
  edge of the graph the verifier built.
\<close>

lemma execute_insn_jump_or_continue:
  assumes "execute_insn ext env insn m = Inr (r, m')" "\<not> is_jump insn"
  shows "r \<in> {IContinue, IWideLoad}"
proof -
  have "\<not> is_exit insn" using assms(2) class_of_jump_opcodes(1) [of insn] by (auto simp: is_jump_def)
  with assms(1) obtain c where c: "insn_class insn = Some c"
    by (auto simp: execute_insn_def res_bind_eq_Inr_iff ok_or_eq_Inr_iff)
  with assms \<open>\<not> is_exit insn\<close> show ?thesis
    by (cases c) (auto simp: execute_insn_def is_jump_def res_bind_eq_Inr_iff)
qed

lemma execute_insn_jmp:
  assumes "is_jump insn" "\<not> is_exit insn"
  shows "execute_insn ext env insn m = execute_jmp ext env insn (insn_class insn = Some Jmp) m"
  using assms by (auto simp: execute_insn_def is_jump_def)

lemma execute_jmp_call: "is_call insn \<Longrightarrow> execute_jmp ext env insn w m = execute_call ext env insn m"
  by (simp add: execute_jmp_def is_call_def jmp_from_opcode_def)

lemma execute_call_continue: "execute_call ext env insn m = Inr (r, m') \<Longrightarrow> r = IContinue"
  by (auto simp: execute_call_def Let_def res_bind_eq_Inr_iff)

lemma jump_offset_bounds: "- 32768 \<le> sint (off :: i16)" "sint (off :: i16) < 32768"
  using sint_greater_eq [of off] sint_less [of off] by simp_all

lemma jump_target:
  assumes "pc < length insns" "length insns < 2 ^ 63"
    and "pc' = nat ((int pc + 1 + sint (off :: i16)) mod 18446744073709551616)" "pc' < length insns"
  shows "int pc' = int pc + 1 + sint off" "compute_jump_target pc off = Some pc'"
proof -
  show eq: "int pc' = int pc + 1 + sint off"
  proof (cases "0 \<le> int pc + 1 + sint off")
    case True
    then show ?thesis using assms jump_offset_bounds [of off] by simp
  next
    case False
    then have "(int pc + 1 + sint off) mod 18446744073709551616 = int pc + 1 + sint off + 18446744073709551616"
      using jump_offset_bounds [of off] by (intro mod_pos_pos_trivial [THEN trans [OF mod_add_self2 [symmetric]]]) auto
    then show ?thesis using False assms jump_offset_bounds [of off] by simp
  qed
  then show "compute_jump_target pc off = Some pc'" by (auto simp: compute_jump_target_def Let_def)
qed

lemma exec_round_nextD:
  assumes "exec_round ext env insns pc m = Inr (RNext pc' m')" "\<not> is_wide (insns ! pc)"
  obtains (continue) "execute_insn ext env (insns ! pc) m = Inr (IContinue, m')" "pc' = pc + 1"
  | (jump) off where "execute_insn ext env (insns ! pc) m = Inr (IJump off, m')"
      "pc' = nat ((int pc + 1 + sint off) mod 18446744073709551616)"
proof -
  obtain r m1 where e: "execute_insn ext env (insns ! pc) m = Inr (r, m1)"
    and r: "(case r of IContinue \<Rightarrow> Inr (RNext (pc + 1) m1)
         | IJump off \<Rightarrow> Inr (RNext (nat ((int pc + 1 + sint off) mod 18446744073709551616)) m1)
         | IExit \<Rightarrow> Inr (RReturn (register_file_get (mc_regs m1) R0) (mc_kernel m1))
         | IWideLoad \<Rightarrow> Inl (Err BpfInvalidInstruction)) = Inr (RNext pc' m')"
    using assms by (auto simp: exec_round_def res_bind_eq_Inr_iff)
  from e r that show ?thesis by (cases r) auto
qed

lemma exec_round_edge:
  assumes run: "exec_round ext env insns pc m = Inr (RNext pc' m')"
    and pc: "pc < length insns" "length insns < 2 ^ 63" "pc' < length insns"
    and can: "canonical (insns ! pc)"
  shows "pc' \<in> set (successors (cfg_build insns) pc)"
proof -
  let ?insn = "insns ! pc"
  have "pc' \<in> set (insn_succs (length insns) pc ?insn)"
  proof (cases "is_jump ?insn")
    case False
    then have "insn_jmp_op ?insn = None" "\<not> is_exit ?insn" "\<not> is_call ?insn"
      using class_of_jump_opcodes [of ?insn] by (auto simp: insn_jmp_op_def is_jump_def)
    moreover have "pc' = (if is_wide ?insn then pc + 2 else pc + 1)"
    proof (cases "is_wide ?insn")
      case True
      then show ?thesis using run by (auto simp: exec_round_def res_bind_eq_Inr_iff Let_def split: if_splits)
    next
      case nw: False
      show ?thesis
        using run nw
      proof (cases rule: exec_round_nextD)
        case (jump off)
        with execute_insn_jump_or_continue [OF jump(1) False] show ?thesis by simp
      qed (use nw in simp)
    qed
    ultimately show ?thesis using pc by (simp add: insn_succs_def)
  next
    case True
    then have nw: "\<not> is_wide ?insn" using class_of_jump_opcodes(3) [of ?insn] by (auto simp: is_jump_def)
    have "\<exists>r. execute_insn ext env ?insn m = Inr (r, m') \<and> (r = IContinue \<and> pc' = pc + 1
        \<or> (\<exists>off. r = IJump off \<and> pc' = nat ((int pc + 1 + sint off) mod 18446744073709551616)))"
      using run nw by (rule exec_round_nextD) auto
    then obtain r where r: "execute_insn ext env ?insn m = Inr (r, m')"
      and next_pc: "r = IContinue \<and> pc' = pc + 1
        \<or> (\<exists>off. r = IJump off \<and> pc' = nat ((int pc + 1 + sint off) mod 18446744073709551616))" by blast
    have ne: "\<not> is_exit ?insn" using r next_pc by (auto simp: execute_insn_def)
    show ?thesis
    proof (cases "is_call ?insn")
      case call: True
      have "r = IContinue" using r execute_call_continue by (simp add: execute_insn_jmp [OF True ne] execute_jmp_call [OF call])
      then show ?thesis using next_pc pc ne call by (auto simp: insn_succs_def)
    next
      case nc: False
      have "execute_jmp ext env ?insn (insn_class ?insn = Some Jmp) m = Inr (r, m')"
        using r by (simp add: execute_insn_jmp [OF True ne])
      from this True can ne nc show ?thesis
      proof (cases rule: execute_jmp_InrD)
        case jump
        then show ?thesis using next_pc jump_target(2) [OF pc(1,2) _ pc(3)] pc ne nc
          by (auto simp: insn_succs_def Let_def is_unconditional_def)
      next
        case (branch op dst y cond)
        have "is_conditional op"
          using branch(1,2) can ne nc by (cases op) (auto simp: is_conditional_def canonical_def)
        then show ?thesis using branch next_pc jump_target(2) [OF pc(1,2) _ pc(3)] pc ne nc
          by (auto simp: insn_succs_def Let_def is_unconditional_def split: if_splits)
      qed
    qed
  qed
  then show ?thesis using pc by (simp add: successors_cfg_build)
qed

end
