(* ===== verification/Scalar_Typing.thy ===== *)
theory Scalar_Typing
  imports Steps_Memory
begin

text \<open>
  An invariant of the explored states: only registers of scalar type carry a scalar description, and
  its known bits are well formed. Subsumption and pointer arithmetic rely on it.
\<close>

section \<open>Instructions\<close>

lemma typed_reg_simps [simp]:
  "typed_reg reg_uninit" "typed_reg (reg_scalar (Some sv)) \<longleftrightarrow> scalar_wf sv" "typed_reg (reg_scalar None)"
  "typed_reg (reg_ctx_data_ptr n)" "typed_reg reg_ctx_ptr" "typed_reg reg_frame_ptr"
  "typed_reg (reg_map_value sz mn)" "typed_reg (map_value_with_writability sz mn w)" "typed_reg (to_reg_state ret n)"
  "typed_reg (rs\<lparr>rs_offset := d\<rparr>) \<longleftrightarrow> typed_reg rs" "typed_reg (rs\<lparr>rs_mem_range := d'\<rparr>) \<longleftrightarrow> typed_reg rs"
  by (simp_all add: typed_reg_def reg_uninit_def reg_scalar_def reg_ctx_data_ptr_def reg_ctx_ptr_def reg_frame_ptr_def reg_map_value_def
     map_value_with_writability_def scalar_wf_basic cong: option.case_cong)
    (cases ret; simp add: reg_map_value_def map_value_with_writability_def reg_scalar_def scalar_wf_basic reg_uninit_def)

lemma unknown_if_none_wf: "typed_reg rs \<Longrightarrow> scalar_wf (unknown_if_none (rs_scalar rs))"
  by (auto simp: typed_reg_def unknown_if_none_def scalar_wf_basic split: option.splits)

lemma alu_operand_wf: "(\<And>r. typed_reg (vs_regs s r)) \<Longrightarrow> scalar_wf (alu_operand insn s)"
  by (simp add: alu_operand_def unknown_if_none_wf scalar_wf_basic)

lemma verify_alu_typed:
  assumes "verify_alu insn s idx = Inr s'" "\<And>r. typed_reg (vs_regs s r)"
  shows "typed_reg (vs_regs s' r)"
  using assms
  by (auto simp: verify_alu_def Let_def res_Inr_iffs set_reg_def set_scalar_def alu_operand_def [symmetric]
     intro!: compute_alu_result_wf unknown_if_none_wf scalar_wf_basic split: if_splits)

lemma verify_call_typed:
  assumes "verify_call P cfg insn s idx = Inr (s', hs)" "\<And>r. typed_reg (vs_regs s r)"
  shows "typed_reg (vs_regs s' r)"
proof -
  obtain sig rs where rs: "call_return_state cfg sig s idx = Inr rs" "s' = set_reg (clobber_caller_saved s) R0 rs"
    using assms(1) by (auto simp: verify_call_def Let_def res_Inr_iffs split: helper_validation.splits)
  then have "typed_reg rs" by (auto simp: call_return_state_def scalar_wf_basic split: return_type.splits sum.splits)
  then show ?thesis using rs(2) assms(2) by (auto simp: set_reg_def clobber_caller_saved_regs)
qed

lemma verify_load_typed:
  assumes "verify_load cfg insn sz s idx = Inr s'" "\<And>r. typed_reg (vs_regs s r)"
  shows "typed_reg (vs_regs s' r)"
proof -
  obtain dst src where r: "insn_dst insn = Some dst" "insn_src insn = Some src"
    using assms(1) by (auto simp: verify_load_def Let_def res_Inr_iffs)
  note ld = verify_load_InrD(3) [OF assms(1) r]
  have "typed_reg loaded" if "ctx_load_result cfg rs off n = Some loaded" for rs off n loaded
    using ctx_load_resultD(4) [OF that] by simp
  then show ?thesis
    using ld assms(2) by (auto simp: set_scalar_def set_reg_def scalar_wf_basic split: option.splits)
qed

lemma verify_insn_typed:
  assumes v: "verify_insn P cfg insn s idx = Inr (r, s', hs)" and t: "\<And>x. typed_reg (vs_regs s x)"
  shows "typed_reg (vs_regs s' x)"
proof -
  have "typed_reg (vs_regs s1 x)" if "verify_memory cfg insn s idx = Inr s1" for s1
    using that verify_load_typed [OF _ t] verify_store_at_keeps t
    by (fastforce simp: verify_memory_def res_Inr_iffs split: if_splits)
  moreover have "typed_reg (vs_regs s1 x)" if "verify_wide_load insn s idx = Inr s1" for s1
    using that t by (auto simp: verify_wide_load_def res_Inr_iffs set_scalar_def set_reg_def scalar_wf_basic split: if_splits)
  ultimately show ?thesis
    using v t verify_alu_typed [OF _ t] verify_call_typed [OF _ t]
    by (auto simp: verify_insn_def res_Inr_iffs split: if_splits)
qed

lemma branch_arm_typed:
  assumes "\<And>x. typed_reg (vs_regs s x)"
    and "case ref of None \<Rightarrow> True | Some b \<Rightarrow> rs_scalar (vs_regs s (br_dst b)) \<noteq> None \<and> scalar_wf (br_true b) \<and> scalar_wf (br_false b)"
    and "case nr of None \<Rightarrow> True | Some n \<Rightarrow> is_pointer (rs_type (vs_regs s (nr_reg n)))"
  shows "typed_reg (vs_regs (branch_arm s pc ref nr taken) x)"
proof -
  define s1 where "s1 = (case ref of Some r \<Rightarrow> with_scalar s (br_dst r) (if taken then br_true r else br_false r) | None \<Rightarrow> s)"
  have s1: "typed_reg (vs_regs s1 x)" "rs_type (vs_regs s1 x) = rs_type (vs_regs s x)" for x
    using assms(1) [of x] assms(2)
    by (auto simp: s1_def typed_reg_def with_scalar_def set_reg_def split: option.splits)
  have "typed_reg (vs_regs (case nr of Some n \<Rightarrow> apply_null_refine s1 n taken | None \<Rightarrow> s1) x)"
    using s1 [of x] assms(3)
    by (auto simp: typed_reg_def apply_null_refine_def set_reg_def Let_def is_pointer_def split: option.splits)
  then show ?thesis by (simp add: branch_arm_def s1_def [symmetric] Let_def)
qed

section \<open>Explored states\<close>

lemma verifier_succs_iff:
  assumes "verify_insn P cfg (insns ! vs_insn_idx s) s (vs_insn_idx s) = Inr (r, s', hs)"
  shows "set (verifier_succs P cfg insns s) =
    set_option (fst (next_states (insns ! vs_insn_idx s) r s')) \<union> set (snd (next_states (insns ! vs_insn_idx s) r s'))"
proof -
  obtain cur push where "next_states (insns ! vs_insn_idx s) r s' = (cur, push)" by fastforce
  then show ?thesis using assms by (cases cur) (simp_all add: verifier_succs_def)
qed

lemma verify_insn_branch:
  assumes "verify_insn P cfg insn s idx = Inr (VBranch a b ref nr, s', hs)"
  obtains op where "s' = s"
    "case ref of None \<Rightarrow> True | Some x \<Rightarrow> rs_scalar (vs_regs s (br_dst x)) \<noteq> None
       \<and> (br_true x, br_false x) = refine_scalar (unknown_if_none (rs_scalar (vs_regs s (br_dst x)))) op (alu_operand insn s)"
    "case nr of None \<Rightarrow> True | Some n \<Rightarrow> rs_maybe_null (vs_regs s (nr_reg n)) \<and> is_pointer (rs_type (vs_regs s (nr_reg n)))"
proof -
  have j: "verify_jump insn s idx = Inr (VBranch a b ref nr)" and s': "s' = s"
    using assms by (auto simp: verify_insn_def res_Inr_iffs split: if_splits)
  from j show ?thesis
  proof (cases rule: verify_jump_InrD)
    case (branch op dst ref' nr')
    then show ?thesis by (intro that [OF s', of op]) (auto split: option.splits)
  qed simp
qed

lemma typed_reaches: "verifier_reaches P cfg insns s \<Longrightarrow> typed_reg (vs_regs s x)"
proof (induction arbitrary: x rule: verifier_reaches.induct)
  case reaches_init
  then show ?case by (simp add: initial_state_def state_new_entry_def set_reg_def Let_def)
next
  case (reaches_step s t)
  let ?insn = "insns ! vs_insn_idx s"
  obtain r s' hs where v: "verify_insn P cfg ?insn s (vs_insn_idx s) = Inr (r, s', hs)"
    using reaches_step.hyps(3)
    by (cases "verify_insn P cfg ?insn s (vs_insn_idx s)") (auto simp: verifier_succs_def)
  have ty: "typed_reg (vs_regs s' x)" for x using verify_insn_typed [OF v reaches_step.IH] .
  have t: "t \<in> set_option (fst (next_states ?insn r s')) \<union> set (snd (next_states ?insn r s'))"
    using reaches_step.hyps(3) verifier_succs_iff [OF v] by simp
  show ?case
  proof (cases r)
    case (VBranch a b ref nr)
    from v [unfolded VBranch] show ?thesis
    proof (rule verify_insn_branch)
      fix op assume s': "s' = s"
        and ref: "case ref of None \<Rightarrow> True | Some x \<Rightarrow> rs_scalar (vs_regs s (br_dst x)) \<noteq> None
          \<and> (br_true x, br_false x) = refine_scalar (unknown_if_none (rs_scalar (vs_regs s (br_dst x)))) op (alu_operand ?insn s)"
        and nr: "case nr of None \<Rightarrow> True | Some n \<Rightarrow> rs_maybe_null (vs_regs s (nr_reg n)) \<and> is_pointer (rs_type (vs_regs s (nr_reg n)))"
      have "scalar_wf (br_true y) \<and> scalar_wf (br_false y)" if "ref = Some y" for y
      proof -
        have "br_true y = fst (refine_scalar (unknown_if_none (rs_scalar (vs_regs s (br_dst y)))) op (alu_operand ?insn s))"
          "br_false y = snd (refine_scalar (unknown_if_none (rs_scalar (vs_regs s (br_dst y)))) op (alu_operand ?insn s))"
          using ref unfolding that by (simp_all add: prod_eq_iff)
        then show ?thesis
          by (simp only: refine_scalar_wf [OF unknown_if_none_wf [OF reaches_step.IH] alu_operand_wf [OF reaches_step.IH]] simp_thms)
      qed
      then have "case ref of None \<Rightarrow> True | Some b \<Rightarrow> rs_scalar (vs_regs s (br_dst b)) \<noteq> None \<and> scalar_wf (br_true b) \<and> scalar_wf (br_false b)"
        using ref by (simp split: option.splits)
      moreover have "case nr of None \<Rightarrow> True | Some n \<Rightarrow> is_pointer (rs_type (vs_regs s (nr_reg n)))"
        using nr by (simp split: option.splits)
      ultimately have "typed_reg (vs_regs (branch_arm s pc ref nr taken) x)" for pc taken
        by (rule branch_arm_typed [OF reaches_step.IH])
      then show ?thesis using t VBranch s' by (auto simp: next_states_def)
    qed
  qed (use t ty in \<open>auto simp: next_states_def\<close>)
qed

end
