(* ===== verification/Memory_Safety.thy ===== *)
theory Memory_Safety
  imports Run_Edges Scalar_Typing
begin

text \<open>
  Memory safety of accepted programs: the interpreter, run on a program the verifier accepts, never
  accesses memory outside its stack, the context, the payload and the map values. The proof follows
  a run along the certificate of the exploration; at every point the live registers conform to an
  explored state.
\<close>

section \<open>Invariants of the explored states\<close>

lemma branch_arm_state_ok:
  assumes "state_ok P s" "case ref of None \<Rightarrow> True | Some x \<Rightarrow> rs_scalar (vs_regs s (br_dst x)) \<noteq> None"
    "case nr of None \<Rightarrow> True | Some n \<Rightarrow> rs_maybe_null (vs_regs s (nr_reg n))"
  shows "state_ok P (branch_arm s pc ref nr taken)"
proof -
  have "br_dst x \<noteq> R10" if "ref = Some x" for x using assms that by (auto simp: state_ok_def reg_frame_ptr_def)
  moreover have "nr_reg n \<noteq> R10" if "nr = Some n" for n using assms that by (auto simp: state_ok_def reg_frame_ptr_def)
  ultimately show ?thesis
    using assms(1)
    by (auto simp: branch_arm_def state_ok_def with_scalar_def apply_null_refine_def set_reg_def Let_def split: option.splits)
qed

lemma state_ok_reaches: "verifier_reaches P cfg insns s \<Longrightarrow> state_ok P s"
proof (induction rule: verifier_reaches.induct)
  case reaches_init
  then show ?case by (simp add: initial_state_def state_ok_def state_new_entry_def set_reg_def stack_new_def Let_def)
next
  case (reaches_step s t)
  let ?insn = "insns ! vs_insn_idx s"
  obtain r s' hs where v: "verify_insn P cfg ?insn s (vs_insn_idx s) = Inr (r, s', hs)"
    using reaches_step.hyps(3)
    by (cases "verify_insn P cfg ?insn s (vs_insn_idx s)") (auto simp: verifier_succs_def)
  have ok: "state_ok P s'" using verify_insn_keeps [OF v] reaches_step.IH by (simp add: keeps_def state_ok_def)
  have t: "t \<in> set_option (fst (next_states ?insn r s')) \<union> set (snd (next_states ?insn r s'))"
    using reaches_step.hyps(3) verifier_succs_iff [OF v] by simp
  show ?case
  proof (cases r)
    case (VBranch a b ref nr)
    from v [unfolded VBranch] show ?thesis
    proof (rule verify_insn_branch)
      fix op assume s': "s' = s"
        and "case ref of None \<Rightarrow> True | Some x \<Rightarrow> rs_scalar (vs_regs s (br_dst x)) \<noteq> None
          \<and> (br_true x, br_false x) = refine_scalar (unknown_if_none (rs_scalar (vs_regs s (br_dst x)))) op (alu_operand ?insn s)"
        and "case nr of None \<Rightarrow> True | Some n \<Rightarrow> rs_maybe_null (vs_regs s (nr_reg n)) \<and> is_pointer (rs_type (vs_regs s (nr_reg n)))"
      then have "state_ok P (branch_arm s pc ref nr taken)" for pc taken
        by (intro branch_arm_state_ok [OF reaches_step.IH]) (simp_all split: option.splits)
      then show ?thesis using t VBranch s' by (auto simp: next_states_def)
    qed
  qed (use t ok in \<open>auto simp: next_states_def state_ok_def\<close>)
qed

section \<open>One round\<close>

text \<open>What a round has to show: no undefined access, and the next point is a verifier successor.\<close>

definition round_ok ::
  "profile \<Rightarrow> verify_config \<Rightarrow> exec_env \<Rightarrow> bpf_insn list \<Rightarrow> verifier_state \<Rightarrow> 'w machine \<Rightarrow> fault + 'w round_result \<Rightarrow> bool" where
  "round_ok P cfg env insns s m res \<longleftrightarrow>
     res \<noteq> Inl Undefined
     \<and> (\<forall>pc' m'. res = Inr (RNext pc' m') \<longrightarrow>
          machine_ok P cfg env m'
          \<and> (\<exists>u \<in> set (verifier_succs P cfg insns s). vs_insn_idx u = pc'
               \<and> (\<forall>r. regset_contains (defs (use_def_of (insns ! vs_insn_idx s))) r \<or> conforms P cfg env s m r
                    \<longrightarrow> conforms P cfg env u m' r)))"

lemma continue_round:
  assumes ver: "verify_insn P cfg (insns ! vs_insn_idx s) s (vs_insn_idx s) = Inr (VContinue, s', hs)"
    and ok: "machine_ok P cfg env m'"
    and conf: "\<And>r. regset_contains (defs (use_def_of (insns ! vs_insn_idx s))) r \<or> conforms P cfg env s m r
      \<Longrightarrow> conforms P cfg env s' m' r"
  shows "round_ok P cfg env insns s m (Inr (RNext (vs_insn_idx s + (if is_wide (insns ! vs_insn_idx s) then 2 else 1)) m'))"
proof -
  let ?insn = "insns ! vs_insn_idx s"
  let ?u = "s'\<lparr>vs_insn_idx := vs_insn_idx s' + (if is_wide ?insn then 2 else 1), vs_insn_processed := vs_insn_processed s' + 1\<rparr>"
  have "?u \<in> set (verifier_succs P cfg insns s)" using verifier_succs_iff [OF ver] by (simp add: next_states_def)
  moreover have "vs_insn_idx s' = vs_insn_idx s" using verify_insn_keeps [OF ver] by (simp add: keeps_def)
  moreover have "conforms P cfg env ?u m' r = conforms P cfg env s' m' r" for r by (simp add: conforms_def)
  ultimately have "\<exists>u \<in> set (verifier_succs P cfg insns s).
      vs_insn_idx u = vs_insn_idx s + (if is_wide ?insn then 2 else 1)
      \<and> (\<forall>r. regset_contains (defs (use_def_of ?insn)) r \<or> conforms P cfg env s m r \<longrightarrow> conforms P cfg env u m' r)"
    using conf by (intro bexI [of _ ?u]) simp_all
  with ok show ?thesis unfolding round_ok_def by blast
qed

text \<open>
  The hypotheses on a run: where the stack lies, what the kernel functions promise, and that the maps
  of the configuration can be numbered with 32 bits.
\<close>

definition run_hypotheses :: "profile \<Rightarrow> verify_config \<Rightarrow> 'w extern_helpers \<Rightarrow> exec_env \<Rightarrow> bool" where
  "run_hypotheses P cfg ext env \<longleftrightarrow>
     env_ok P env \<and> helper_contract ext env cfg \<and> length (map_value_sizes cfg) < 2 ^ 32"

lemma exec_round_insn:
  assumes "\<not> is_wide (insns ! pc)"
  shows "execute_insn ext env (insns ! pc) m = Inr (IContinue, m') \<Longrightarrow> exec_round ext env insns pc m = Inr (RNext (pc + 1) m')"
    "execute_insn ext env (insns ! pc) m = Inl e \<Longrightarrow> exec_round ext env insns pc m = Inl e"
  using assms by (simp_all add: exec_round_def)

text \<open>The shape shared by all instructions that go on with the next one.\<close>

lemma insn_round:
  assumes nw: "\<not> is_wide (insns ! vs_insn_idx s)"
    and ver: "verify_insn P cfg (insns ! vs_insn_idx s) s (vs_insn_idx s) = Inr (VContinue, s', hs)"
    and run: "execute_insn ext env (insns ! vs_insn_idx s) m = res_bind res (\<lambda>m'. Inr (IContinue, m'))"
    and defined: "res \<noteq> Inl Undefined"
    and step: "\<And>m'. res = Inr m' \<Longrightarrow> machine_ok P cfg env m' \<and>
      (\<forall>r. regset_contains (defs (use_def_of (insns ! vs_insn_idx s))) r \<or> conforms P cfg env s m r \<longrightarrow> conforms P cfg env s' m' r)"
  shows "round_ok P cfg env insns s m (exec_round ext env insns (vs_insn_idx s) m)"
proof (cases res)
  case (Inl e)
  then show ?thesis using exec_round_insn(2) [OF nw, of ext env m e] run defined by (simp add: round_ok_def)
next
  case (Inr m')
  then have "exec_round ext env insns (vs_insn_idx s) m = Inr (RNext (vs_insn_idx s + 1) m')"
    using exec_round_insn(1) [OF nw] run by simp
  then show ?thesis using continue_round [OF ver, of env m' m] step [OF Inr] nw by auto
qed

lemma call_round:
  assumes hyp: "run_hypotheses P cfg ext env" and call: "is_call (insns ! vs_insn_idx s)"
    and ver: "verify_insn P cfg (insns ! vs_insn_idx s) s (vs_insn_idx s) = Inr (r, s', hs)"
    and ok: "machine_ok P cfg env m"
    and uses: "\<And>x. regset_contains (uses (use_def_of (insns ! vs_insn_idx s))) x \<Longrightarrow> conforms P cfg env s m x"
  shows "round_ok P cfg env insns s m (exec_round ext env insns (vs_insn_idx s) m)"
proof -
  let ?insn = "insns ! vs_insn_idx s"
  have ne: "\<not> is_exit ?insn" "\<not> is_wide ?insn" using call by (simp_all add: is_call_def is_exit_def is_wide_def)
  have j: "is_jump ?insn" using call class_of_jump_opcodes by (auto simp: is_jump_def)
  have r: "r = VContinue" and v: "verify_call P cfg ?insn s (vs_insn_idx s) = Inr (s', hs)"
    using ver call ne by (auto simp: verify_insn_def res_bind_eq_Inr_iff)
  have hy: "length (map_value_sizes cfg) < 2 ^ 32" "helper_contract ext env cfg"
    using hyp by (simp_all add: run_hypotheses_def)
  note cs = call_step [OF v call hy ok uses [OF uses_call(2) [OF call]]]
  let ?res = "res_bind (execute_call ext env ?insn m) (\<lambda>(_, m'). Inr m')"
  have run: "execute_insn ext env ?insn m = res_bind ?res (\<lambda>m'. Inr (IContinue, m'))"
    using execute_call_continue [of ext env ?insn m]
    by (cases "execute_call ext env ?insn m") (auto simp: execute_insn_jmp [OF j ne(1)] execute_jmp_call [OF call])
  show ?thesis
  proof (rule insn_round [OF ne(2) ver [unfolded r] run])
    show "?res \<noteq> Inl Undefined"
      using execute_call_defined [of ext env ?insn m] by (cases "execute_call ext env ?insn m") auto
  next
    fix m' assume "?res = Inr m'"
    then obtain c where c: "execute_call ext env ?insn m = Inr (c, m')" by (auto simp: res_bind_eq_Inr_iff)
    show "machine_ok P cfg env m' \<and> (\<forall>r. regset_contains (defs (use_def_of ?insn)) r \<or> conforms P cfg env s m r
        \<longrightarrow> conforms P cfg env s' m' r)"
      using cs(2,3) [OF c] by blast
  qed
qed

lemma alu_round:
  assumes alu: "is_alu (insns ! vs_insn_idx s)"
    and ver: "verify_insn P cfg (insns ! vs_insn_idx s) s (vs_insn_idx s) = Inr (r, s', hs)"
    and disc: "disciplined cfg (insns ! vs_insn_idx s) s" and ok: "machine_ok P cfg env m"
    and typed: "\<And>x. typed_reg (vs_regs s x)"
    and uses: "\<And>x. regset_contains (uses (use_def_of (insns ! vs_insn_idx s))) x \<Longrightarrow> conforms P cfg env s m x"
  shows "round_ok P cfg env insns s m (exec_round ext env insns (vs_insn_idx s) m)"
proof -
  let ?insn = "insns ! vs_insn_idx s"
  have ne: "\<not> is_exit ?insn" "\<not> is_call ?insn" "\<not> is_wide ?insn"
    using alu class_of_jump_opcodes [of ?insn] by (auto simp: is_alu_def)
  have r: "r = VContinue" and v: "verify_alu ?insn s (vs_insn_idx s) = Inr s'"
    using ver alu ne by (auto simp: verify_insn_def res_bind_eq_Inr_iff)
  let ?res = "res_bind (execute_alu ?insn (mc_regs m) (is_alu64 ?insn)) (\<lambda>rf. Inr (m\<lparr>mc_regs := rf\<rparr>))"
  have run: "execute_insn ext env ?insn m = res_bind ?res (\<lambda>m'. Inr (IContinue, m'))"
    using alu ne by (cases "execute_alu ?insn (mc_regs m) (is_alu64 ?insn)") (auto simp: execute_insn_def is_alu_def is_alu64_def)
  show ?thesis
  proof (rule insn_round [OF ne(3) ver [unfolded r] run])
    show "?res \<noteq> Inl Undefined"
      using execute_alu_defined [of ?insn "mc_regs m" "is_alu64 ?insn"]
      by (cases "execute_alu ?insn (mc_regs m) (is_alu64 ?insn)") auto
  next
    fix m' assume "?res = Inr m'"
    then obtain rf where rf: "execute_alu ?insn (mc_regs m) (is_alu64 ?insn) = Inr rf" "m' = m\<lparr>mc_regs := rf\<rparr>"
      by (auto simp: res_bind_eq_Inr_iff)
    obtain dst x where dst: "insn_dst ?insn = Some dst" "rf = register_file_set (mc_regs m) dst x"
      using rf(1) by (rule execute_alu_InrD) auto
    have "dst \<noteq> R10" using v dst(1) by (auto simp: verify_alu_def res_Inr_iffs)
    then have "machine_ok P cfg env m'" using ok rf dst by (simp add: machine_ok_put)
    then show "machine_ok P cfg env m' \<and> (\<forall>r. regset_contains (defs (use_def_of ?insn)) r \<or> conforms P cfg env s m r
        \<longrightarrow> conforms P cfg env s' m' r)"
      using alu_step [OF alu v uses disc typed rf(1)] rf(2) uses_alu(2) [OF alu] by blast
  qed
qed

lemma wide_round:
  assumes wide: "is_wide (insns ! vs_insn_idx s)"
    and ver: "verify_insn P cfg (insns ! vs_insn_idx s) s (vs_insn_idx s) = Inr (r, s', hs)"
    and ok: "machine_ok P cfg env m"
  shows "round_ok P cfg env insns s m (exec_round ext env insns (vs_insn_idx s) m)"
proof -
  let ?insn = "insns ! vs_insn_idx s"
  have cls: "insn_class ?insn = Some Ld" using wide class_of_jump_opcodes by simp
  then have ne: "\<not> is_exit ?insn" "\<not> is_call ?insn" "\<not> is_alu ?insn" "\<not> is_jump ?insn"
    using class_of_jump_opcodes [of ?insn] by (auto simp: is_alu_def is_jump_def)
  have r: "r = VContinue" and v: "verify_wide_load ?insn s (vs_insn_idx s) = Inr s'"
    using ver wide ne by (auto simp: verify_insn_def res_bind_eq_Inr_iff)
  obtain dst where dst: "insn_dst ?insn = Some dst" "dst \<noteq> R10" "s' = set_scalar s dst (Some scalar_unknown)"
    using v by (auto simp: verify_wide_load_def res_bind_eq_Inr_iff ok_or_eq_Inr_iff split: if_splits)
  let ?m = "\<lambda>v. m\<lparr>mc_regs := register_file_set (mc_regs m) dst v\<rparr>"
  have "round_ok P cfg env insns s m (Inr (RNext (vs_insn_idx s + (if is_wide ?insn then 2 else 1)) (?m v)))" for v
  proof (rule continue_round [OF ver [unfolded r]])
    show "machine_ok P cfg env (?m v)" using ok dst(2) by (simp add: machine_ok_put)
    fix x assume "regset_contains (defs (use_def_of ?insn)) x \<or> conforms P cfg env s m x"
    then have "x = dst \<or> conforms P cfg env s m x" using dst(1) by (simp add: uses_memory(7) [OF cls]) blast
    then show "conforms P cfg env s' (?m v) x"
      unfolding dst(3) by (auto simp: set_scalar_def set_reg_def conforms_def register_file_set_def)
  qed
  moreover have "exec_round ext env insns (vs_insn_idx s) m = Inl (Err BpfInvalidInstruction)
      \<or> (\<exists>v. exec_round ext env insns (vs_insn_idx s) m = Inr (RNext (vs_insn_idx s + (if is_wide ?insn then 2 else 1)) (?m v)))"
    using wide dst(1) by (auto simp: exec_round_def insn_dst_def Let_def)
  moreover have "round_ok P cfg env insns s m (Inl (Err BpfInvalidInstruction))" by (simp add: round_ok_def)
  ultimately show ?thesis by metis
qed

lemma jump_round:
  assumes jump: "is_jump (insns ! vs_insn_idx s)" "\<not> is_exit (insns ! vs_insn_idx s)" "\<not> is_call (insns ! vs_insn_idx s)"
    and ver: "verify_insn P cfg (insns ! vs_insn_idx s) s (vs_insn_idx s) = Inr (r, s', hs)"
    and pc: "vs_insn_idx s < length insns" "length insns < 2 ^ 63"
    and can: "canonical (insns ! vs_insn_idx s)" and disc: "disciplined cfg (insns ! vs_insn_idx s) s"
    and ok: "machine_ok P cfg env m"
    and uses: "\<And>x. regset_contains (uses (use_def_of (insns ! vs_insn_idx s))) x \<Longrightarrow> conforms P cfg env s m x"
  shows "round_ok P cfg env insns s m (exec_round ext env insns (vs_insn_idx s) m)"
proof -
  let ?pc = "vs_insn_idx s"
  let ?insn = "insns ! ?pc"
  have na: "\<not> is_alu ?insn" and nw: "\<not> is_wide ?insn"
    using jump(1) class_of_jump_opcodes(3) [of ?insn] by (auto simp: is_jump_def is_alu_def)
  have v: "verify_jump ?insn s ?pc = Inr r" and s': "s' = s"
    using ver jump na by (auto simp: verify_insn_def res_bind_eq_Inr_iff)
  have e: "execute_insn ext env ?insn m = execute_jmp ext env ?insn (insn_class ?insn = Some Jmp) m"
    by (rule execute_insn_jmp [OF jump(1,2)])
  note d = execute_jmp_defined [OF jump(1) can jump(2,3), of ext env "insn_class ?insn = Some Jmp" m]
  have "exec_round ext env insns ?pc m \<noteq> Inl Undefined"
    using d nw e by (auto simp: exec_round_def res_bind_def Let_def split: sum.splits insn_result.splits prod.splits)
  moreover have "machine_ok P cfg env m' \<and> (\<exists>u \<in> set (verifier_succs P cfg insns s). vs_insn_idx u = pc'
      \<and> (\<forall>x. regset_contains (defs (use_def_of ?insn)) x \<or> conforms P cfg env s m x \<longrightarrow> conforms P cfg env u m' x))"
    if run: "exec_round ext env insns ?pc m = Inr (RNext pc' m')" for pc' m'
  proof -
    obtain res where res: "execute_jmp ext env ?insn (insn_class ?insn = Some Jmp) m = Inr (res, m')"
      and pc': "res = IContinue \<and> pc' = ?pc + 1
        \<or> (\<exists>off. res = IJump off \<and> pc' = nat ((int ?pc + 1 + sint off) mod 18446744073709551616))"
      using run nw by (cases rule: exec_round_nextD) (use e in auto)
    from jump_step [OF jump(1) can jump(2,3) v disc uses res] obtain u where m': "m' = m"
      and u: "u \<in> set (verifier_succs P cfg insns s)"
      and conf: "\<forall>x. conforms P cfg env s m x \<longrightarrow> conforms P cfg env u m x"
      and idx: "res = IContinue \<and> vs_insn_idx u = ?pc + 1
        \<or> res = IJump (insn_offset ?insn) \<and> int (vs_insn_idx u) = int ?pc + 1 + sint (insn_offset ?insn)"
      using verifier_succs_iff [OF ver] s' by auto
    have "vs_insn_idx u = pc'"
      using idx
    proof
      assume j: "res = IJump (insn_offset ?insn) \<and> int (vs_insn_idx u) = int ?pc + 1 + sint (insn_offset ?insn)"
      then have "int ?pc + 1 + sint (insn_offset ?insn) < 18446744073709551616"
        using pc jump_offset_bounds(2) [of "insn_offset ?insn"] by simp
      then have "(int ?pc + 1 + sint (insn_offset ?insn)) mod 18446744073709551616 = int (vs_insn_idx u)" using j by simp
      moreover have "pc' = nat ((int ?pc + 1 + sint (insn_offset ?insn)) mod 18446744073709551616)" using pc' j by simp
      ultimately show ?thesis by (simp only: nat_int)
    qed (use pc' in auto)
    then show ?thesis using m' u conf ok uses_jump(2) [OF jump] by auto
  qed
  ultimately show ?thesis unfolding round_ok_def by blast
qed

lemma memory_round:
  assumes hyp: "run_hypotheses P cfg ext env"
    and mem: "is_memory (insns ! vs_insn_idx s)" "\<not> is_wide (insns ! vs_insn_idx s)"
    and ver: "verify_insn P cfg (insns ! vs_insn_idx s) s (vs_insn_idx s) = Inr (r, s', hs)"
    and disc: "disciplined cfg (insns ! vs_insn_idx s) s"
    and st: "state_ok P s" and ok: "machine_ok P cfg env m"
    and uses: "\<And>x. regset_contains (uses (use_def_of (insns ! vs_insn_idx s))) x \<Longrightarrow> conforms P cfg env s m x"
  shows "round_ok P cfg env insns s m (exec_round ext env insns (vs_insn_idx s) m)"
proof -
  let ?insn = "insns ! vs_insn_idx s"
  have env: "env_ok P env" using hyp by (simp add: run_hypotheses_def)
  have ne: "\<not> is_exit ?insn" "\<not> is_call ?insn" "\<not> is_alu ?insn" "\<not> is_jump ?insn"
    using mem(1) class_of_jump_opcodes [of ?insn] by (auto simp: is_memory_def is_alu_def is_jump_def)
  have r: "r = VContinue" and v: "verify_memory cfg ?insn s (vs_insn_idx s) = Inr s'"
    using ver mem ne by (auto simp: verify_insn_def res_bind_eq_Inr_iff)
  obtain msz where msz: "insn_mem_size ?insn = Some msz"
    using v by (auto simp: verify_memory_def res_bind_eq_Inr_iff ok_or_eq_Inr_iff)
  consider (ld) "insn_class ?insn = Some Ld" | (ldx) "insn_class ?insn = Some Ldx"
    | (store) "insn_class ?insn = Some Stx \<or> insn_class ?insn = Some St"
    using mem(1) by (auto simp: is_memory_def)
  then show ?thesis
  proof cases
    case ld
    then show ?thesis using mem(2) ne(1) by (simp add: exec_round_def execute_insn_def round_ok_def)
  next
    case ldx
    have l: "verify_load cfg ?insn (size_bytes msz) s (vs_insn_idx s) = Inr s'"
      using v ldx msz by (simp add: verify_memory_def)
    note step = load_step [OF ldx msz l st ok env uses disc]
    have run: "execute_insn ext env ?insn m = res_bind (execute_load env ?insn m) (\<lambda>m'. Inr (IContinue, m'))"
      using ldx ne(1) by (simp add: execute_insn_def)
    show ?thesis
      by (rule insn_round [OF mem(2) ver [unfolded r] run])
        (use step uses_memory(1,2) [OF ldx] in \<open>simp_all\<close>)
  next
    case store
    then obtain cls where cls: "insn_class ?insn = Some cls" "cls \<in> {Stx, St}" by auto
    obtain dst where dst: "insn_dst ?insn = Some dst"
      and l: "verify_store_at ?insn dst (size_bytes msz) s (vs_insn_idx s) = Inr s'"
      using v cls msz by (auto simp: verify_memory_def res_bind_eq_Inr_iff ok_or_eq_Inr_iff)
    have conf: "conforms P cfg env s m dst" using uses uses_memory(3,4) [of ?insn dst] store dst by blast
    note step = store_step [OF cls(1) msz dst l st ok env conf]
    have run: "execute_insn ext env ?insn m = res_bind (execute_store env ?insn m) (\<lambda>m'. Inr (IContinue, m'))"
      using cls ne(1) by (auto simp: execute_insn_def)
    have nodefs: "\<not> regset_contains (defs (use_def_of ?insn)) x" for x using uses_memory(5,6) [of ?insn x] store by blast
    show ?thesis
      by (rule insn_round [OF mem(2) ver [unfolded r] run]) (use step nodefs in \<open>simp_all\<close>)
  qed
qed

lemma round_step:
  assumes hyp: "run_hypotheses P cfg ext env"
    and ver: "verify_insn P cfg (insns ! vs_insn_idx s) s (vs_insn_idx s) = Inr (r, s', hs)"
    and pc: "vs_insn_idx s < length insns" "length insns < 2 ^ 63"
    and can: "canonical (insns ! vs_insn_idx s)" and disc: "disciplined cfg (insns ! vs_insn_idx s) s"
    and st: "state_ok P s" and typed: "\<And>x. typed_reg (vs_regs s x)" and ok: "machine_ok P cfg env m"
    and uses: "\<And>x. regset_contains (uses (use_def_of (insns ! vs_insn_idx s))) x \<Longrightarrow> conforms P cfg env s m x"
  shows "round_ok P cfg env insns s m (exec_round ext env insns (vs_insn_idx s) m)"
proof -
  let ?insn = "insns ! vs_insn_idx s"
  consider (exit) "is_exit ?insn" | (call) "is_call ?insn"
    | (alu) "is_alu ?insn" | (jump) "\<not> is_exit ?insn" "\<not> is_call ?insn" "is_jump ?insn"
    | (wide) "is_wide ?insn" | (mem) "is_memory ?insn" "\<not> is_wide ?insn"
    using ver by (auto simp: verify_insn_def split: if_splits)
  then show ?thesis
  proof cases
    case exit
    then have "\<not> is_wide ?insn" by (simp add: is_exit_def is_wide_def)
    then show ?thesis using exit by (simp add: exec_round_def execute_insn_def round_ok_def)
  next
    case call
    then show ?thesis using call_round [OF hyp _ ver ok uses] by simp
  next
    case alu
    then show ?thesis using alu_round [OF _ ver disc ok typed uses] by simp
  next
    case jump
    then show ?thesis using jump_round [OF _ _ _ ver pc can disc ok uses] by simp
  next
    case wide
    then show ?thesis using wide_round [OF _ ver ok] by simp
  next
    case mem
    then show ?thesis using memory_round [OF hyp _ _ ver disc st ok uses] by simp
  qed
qed

section \<open>Whole runs\<close>

text \<open>
  Values that conform to a subsumed register conform to the register that subsumes it: pointers are
  compared field by field, and the interval of a settled scalar bounds its known value.
\<close>

lemma settled_scalar_sound:
  assumes "settled_scalar x" "scalar_wf x" "sc_min x \<le> sc_min y" "sc_max y \<le> sc_max x" "tnum_subsumes (sc_tnum x) (sc_tnum y)"
    and "scalar_has y v"
  shows "scalar_has x v"
  using assms tnum_subsumes_sound [of "sc_tnum x" "sc_tnum y" v]
  by (auto simp: settled_scalar_def scalar_has_def split: option.splits)

lemma reg_subsumes_conforms:
  assumes "reg_subsumes a b" "tracks_handles cfg \<longrightarrow> settled_reg a \<and> typed_reg a" "reg_conforms P cfg env mem b v"
  shows "reg_conforms P cfg env mem a v"
proof -
  have "scalar_has x v" if "rs_scalar a = Some x" "tracks_handles cfg" for x
  proof -
    have "settled_scalar x" "scalar_wf x" "rs_type a = Scalar"
      using assms(2) that by (simp_all add: settled_reg_def typed_reg_def)
    then show ?thesis
      using assms(1,3) that
      by (auto simp: reg_subsumes_def reg_conforms_def Let_def intro: settled_scalar_sound split: if_splits option.splits)
  qed
  then show ?thesis
    using assms(1,3)
    by (cases "rs_type b") (auto simp: reg_subsumes_def reg_conforms_def split: if_splits option.splits)
qed

interpretation rc: state_subsumes "\<lambda>a b. reg_subsumes a b \<and> (tracks_handles cfg \<longrightarrow> settled_reg a \<and> typed_reg a)"
    "\<lambda>rs v. reg_conforms P cfg env mem rs v" for P cfg env mem
  by unfold_locales (blast intro: reg_subsumes_conforms)

text \<open>The invariant of a run: some explored state at the current position has conforming live registers.\<close>

definition follows ::
  "profile \<Rightarrow> verify_config \<Rightarrow> exec_env \<Rightarrow> liveness \<Rightarrow> verifier_state set \<Rightarrow> nat \<Rightarrow> 'w machine \<Rightarrow> bool" where
  "follows P cfg env live S pc m \<longleftrightarrow>
     machine_ok P cfg env m
     \<and> (\<exists>t \<in> S. vs_insn_idx t = pc \<and> (\<forall>r. regset_contains (live_in live pc) r \<longrightarrow> conforms P cfg env t m r))"

lemma covered_follows:
  assumes "covered live S u" "machine_ok P cfg env m"
    and settled: "\<And>t r. t \<in> S \<Longrightarrow> tracks_handles cfg \<Longrightarrow> settled_reg (vs_regs t r) \<and> typed_reg (vs_regs t r)"
    and conf: "\<forall>r. regset_contains (live_in live (vs_insn_idx u)) r \<longrightarrow> conforms P cfg env u m r"
  shows "follows P cfg env live S (vs_insn_idx u) m"
proof -
  from assms(1) obtain t where t: "t \<in> S" "vs_insn_idx t = vs_insn_idx u"
    "subsumes_with_liveness t u (regset_contains (live_in live (vs_insn_idx u)))" by (auto simp: covered_def)
  have "conforms P cfg env t m r" if "regset_contains (live_in live (vs_insn_idx u)) r" for r
    using rc.subsumes_sound [of "vs_regs t r" "vs_regs u r"] subsumes_with_liveness_reg [OF t(3) that] settled [OF t(1)] conf that
    by (auto simp: conforms_def)
  with t assms(2) show ?thesis by (auto simp: follows_def)
qed

lemma follows_round:
  assumes hyp: "run_hypotheses P cfg ext env"
    and cert: "certificate P cfg (liveness_analyze insns (cfg_build insns)) insns S"
    and len: "length insns < 2 ^ 63"
    and can: "list_all canonical insns"
    and disc: "\<And>s. verifier_reaches P cfg insns s \<Longrightarrow> disciplined cfg (insns ! vs_insn_idx s) s"
    and fol: "follows P cfg env (liveness_analyze insns (cfg_build insns)) S pc m"
  shows "pc < length insns" "exec_round ext env insns pc m \<noteq> Inl Undefined"
    "exec_round ext env insns pc m = Inr (RNext pc' m') \<Longrightarrow>
       follows P cfg env (liveness_analyze insns (cfg_build insns)) S pc' m'"
proof -
  let ?live = "liveness_analyze insns (cfg_build insns)"
  obtain t where t: "t \<in> S" "vs_insn_idx t = pc" and ok: "machine_ok P cfg env m"
    and conf: "\<And>r. regset_contains (live_in ?live pc) r \<Longrightarrow> conforms P cfg env t m r"
    using fol by (auto simp: follows_def)
  have ck: "checked P cfg ?live insns S t" and reach: "verifier_reaches P cfg insns t"
    using cert t by (auto simp: certificate_def)
  show pc: "pc < length insns" using ck t by (simp add: checked_def)
  obtain r s' hs where ver: "verify_insn P cfg (insns ! vs_insn_idx t) t (vs_insn_idx t) = Inr (r, s', hs)"
    using ck by (auto simp: checked_def)
  have "round_ok P cfg env insns t m (exec_round ext env insns (vs_insn_idx t) m)"
  proof (rule round_step [OF hyp ver _ len])
    show "canonical (insns ! vs_insn_idx t)" using can pc t by (simp add: list_all_length)
    show "conforms P cfg env t m x" if "regset_contains (uses (use_def_of (insns ! vs_insn_idx t))) x" for x
      using live_in_uses [of "vs_insn_idx t" insns x] that t pc conf by simp
  qed (use t pc ok disc [OF reach] state_ok_reaches [OF reach] typed_reaches [OF reach] in simp_all)
  then have rok: "round_ok P cfg env insns t m (exec_round ext env insns pc m)" using t by simp
  then show "exec_round ext env insns pc m \<noteq> Inl Undefined" by (simp add: round_ok_def)
  assume run: "exec_round ext env insns pc m = Inr (RNext pc' m')"
  then obtain u where ok': "machine_ok P cfg env m'" and u: "u \<in> set (verifier_succs P cfg insns t)" "vs_insn_idx u = pc'"
    and next_conf: "\<And>r. regset_contains (defs (use_def_of (insns ! pc))) r \<or> conforms P cfg env t m r \<Longrightarrow> conforms P cfg env u m' r"
    using rok t by (auto simp: round_ok_def)
  have cov: "covered ?live S u" using ck u by (auto simp: checked_def)
  then obtain w where w: "w \<in> S" "vs_insn_idx w = pc'" using u(2) by (auto simp: covered_def)
  then have pc': "pc' < length insns" using cert by (auto simp: certificate_def checked_def)
  have edge: "pc' \<in> set (successors (cfg_build insns) pc)"
    using exec_round_edge [OF run pc len pc'] can pc by (simp add: list_all_length)
  have "conforms P cfg env u m' r" if "regset_contains (live_in ?live (vs_insn_idx u)) r" for r
    using next_conf conf live_in_flow [OF pc edge] that u(2) by blast
  moreover have "settled_reg (vs_regs t r) \<and> typed_reg (vs_regs t r)" if "t \<in> S" "tracks_handles cfg" for t r
    using settled_regD [OF disc] typed_reaches cert that by (auto simp: certificate_def)
  ultimately show "follows P cfg env ?live S pc' m'" using covered_follows [OF cov ok'] u(2) by simp
qed

lemma follows_loop:
  assumes "run_hypotheses P cfg ext env"
    and "certificate P cfg (liveness_analyze insns (cfg_build insns)) insns S"
    and "length insns < 2 ^ 63" "list_all canonical insns"
    and "\<And>s. verifier_reaches P cfg insns s \<Longrightarrow> disciplined cfg (insns ! vs_insn_idx s) s"
    and "follows P cfg env (liveness_analyze insns (cfg_build insns)) S pc m"
  shows "exec_loop ext env insns limit count pc m \<noteq> Inl Undefined"
  using assms(6)
proof (induction "limit - count" arbitrary: count pc m rule: less_induct)
  case less
  note round = follows_round [OF assms(1-5) less.prems]
  show ?case
  proof (cases "limit < count + 1")
    case True
    then show ?thesis using round(1) by (simp add: exec_loop.simps [of ext env insns limit count pc m])
  next
    case False
    show ?thesis
    proof (cases "exec_round ext env insns pc m")
      case (Inl e)
      then show ?thesis using round(1,2) False by (simp add: exec_loop.simps [of ext env insns limit count pc m])
    next
      case (Inr res)
      then show ?thesis
        using round(1) round(3) less.hyps [of "count + 1"] False
        by (cases res) (simp_all add: exec_loop.simps [of ext env insns limit count pc m])
    qed
  qed
qed

lemma follows_start:
  assumes ok: "mem_ok cfg env (fst k)" and len: "length st = MAX_STACK_SIZE P"
    and disc: "\<And>s. verifier_reaches P cfg insns s \<Longrightarrow> disciplined cfg (insns ! vs_insn_idx s) s"
    and cert: "certificate P cfg live insns S"
  shows "follows P cfg env live S 0 \<lparr>mc_regs = initial_regs env (MAX_STACK_SIZE P), mc_stack = st, mc_kernel = k\<rparr>"
proof -
  let ?m = "\<lparr>mc_regs = initial_regs env (MAX_STACK_SIZE P), mc_stack = st, mc_kernel = k\<rparr>"
  have "machine_ok P cfg env ?m"
    using ok len by (simp add: machine_ok_def initial_regs_def register_file_set_def frame_top_def)
  moreover have "conforms P cfg env (initial_state P cfg) ?m r" for r
    by (simp add: conforms_def initial_state_def state_new_entry_def set_reg_def initial_regs_def register_file_set_def
        reg_conforms_def reg_ctx_ptr_def reg_frame_ptr_def frame_top_def reg_uninit_def Let_def)
  moreover have "covered live S (initial_state P cfg)" using cert by (simp add: certificate_def)
  moreover have "vs_insn_idx (initial_state P cfg) = 0" by (simp add: initial_state_def state_new_entry_def set_reg_def Let_def)
  moreover have "settled_reg (vs_regs t r) \<and> typed_reg (vs_regs t r)" if "t \<in> S" "tracks_handles cfg" for t r
    using settled_regD [OF disc] typed_reaches cert that by (auto simp: certificate_def)
  ultimately show ?thesis using covered_follows [of live S "initial_state P cfg" P cfg env ?m] by simp
qed

lemma verified_stack_size:
  assumes "verify_with_config P insns cfg = Inr prog"
  shows "vp_stack_size prog \<le> MAX_STACK_SIZE P" "length insns \<le> MAX_INSN_COUNT P" "insns \<noteq> []"
  using assms
  by (rule verify_with_config_explored, auto simp: from_verified_parts_def check_basic_def split: if_splits)+

lemma accepted_memory_safe:
  assumes acc: "verify_with_config P insns cfg = Inr prog"
    and hyp: "run_hypotheses P cfg ext env" and mem: "mem_ok cfg env (fst k)"
    and size: "MAX_INSN_COUNT P < 2 ^ 63" and can: "list_all canonical insns"
    and disc: "\<And>s. verifier_reaches P cfg insns s \<Longrightarrow> disciplined cfg (insns ! vs_insn_idx s) s"
  shows "execute_with_stack P ext env insns (vp_stack_size prog) buf k \<noteq> Inl Undefined"
proof -
  from accepted_certificate [OF acc] obtain S where
    cert: "certificate P cfg (liveness_analyze insns (cfg_build insns)) insns S" by blast
  have len: "length insns < 2 ^ 63" using verified_stack_size(2) [OF acc] size by simp
  show ?thesis
    using follows_loop [OF hyp cert len can disc follows_start [OF mem _ disc cert]] verified_stack_size(1) [OF acc]
    by (simp add: execute_with_stack_def Let_def)
qed

end
