(* ===== verification/Run_Cost.thy ===== *)
theory Run_Cost
  imports Run_Edges
begin

text \<open>
  Execution time under the embedded profile: a run of an accepted program never jumps backwards, so it
  executes every instruction at most once, never reaches the instruction limit, and the cycles the
  cost model charges for it stay within the verified bound.
\<close>

section \<open>The instructions a run executes\<close>

function run_trace ::
  "'w extern_helpers \<Rightarrow> exec_env \<Rightarrow> bpf_insn list \<Rightarrow> nat \<Rightarrow> nat \<Rightarrow> nat \<Rightarrow> 'w machine \<Rightarrow> nat list" where
  "run_trace ext env insns insn_limit n pc m =
     (if length insns \<le> pc then []
      else if insn_limit < n + 1 then []
      else
        case exec_round ext env insns pc m of
          Inr (RNext pc' m') \<Rightarrow> pc # run_trace ext env insns insn_limit (n + 1) pc' m'
        | _ \<Rightarrow> [pc])"
  by pat_completeness auto

termination run_trace
  by (relation "measure (\<lambda>(_, _, _, insn_limit, n, _, _). insn_limit - n)") auto

declare run_trace.simps [simp del]

section \<open>Forward runs\<close>

lemma forward_step:
  assumes "\<not> has_loops (cfg_build insns)" "list_all canonical insns" "length insns < 2 ^ 63"
    and "exec_round ext env insns pc m = Inr (RNext pc' m')" "pc < length insns" "pc' < length insns"
  shows "pc < pc'" "pc' \<in> set (successors (cfg_build insns) pc)"
proof -
  show e: "pc' \<in> set (successors (cfg_build insns) pc)"
    using assms exec_round_edge [OF assms(4,5,3,6)] by (simp add: list_all_length)
  show "pc < pc'" by (rule no_loops_forward [OF assms(1) e])
qed

lemma run_trace_path:
  assumes nl: "\<not> has_loops (cfg_build insns)" and can: "list_all canonical insns" and len: "length insns < 2 ^ 63"
  shows "pc < length insns \<Longrightarrow> count < limit \<Longrightarrow> cfg_path (cfg_build insns) pc (run_trace ext env insns limit count pc m)"
proof (induction "limit - count" arbitrary: count pc m rule: less_induct)
  case less
  show ?case
  proof (cases "\<exists>pc' m'. exec_round ext env insns pc m = Inr (RNext pc' m')")
    case True
    then obtain pc' m' where r: "exec_round ext env insns pc m = Inr (RNext pc' m')" by blast
    let ?rest = "run_trace ext env insns limit (count + 1) pc' m'"
    have t: "run_trace ext env insns limit count pc m = pc # ?rest"
      using less.prems r by (simp add: run_trace.simps [of ext env insns limit count pc m])
    show ?thesis
    proof (cases "pc' < length insns \<and> count + 1 < limit")
      case True
      then have "cfg_path (cfg_build insns) pc' ?rest" using less.prems by (intro less.hyps) auto
      moreover have "\<exists>ks. ?rest = pc' # ks"
        using True by (auto simp: run_trace.simps [of ext env insns limit "Suc count" pc' m'] split: sum.splits round_result.splits)
      ultimately show ?thesis
        using t forward_step(2) [OF nl can len r less.prems(1)] True by auto
    next
      case False
      then have "?rest = []" by (auto simp: run_trace.simps [of ext env insns limit "Suc count" pc' m'])
      then show ?thesis using t by simp
    qed
  next
    case False
    then have "run_trace ext env insns limit count pc m = [pc]"
      using less.prems
      by (auto simp: run_trace.simps [of ext env insns limit count pc m] split: sum.splits round_result.splits)
    then show ?thesis by simp
  qed
qed

text \<open>No instruction reports a timeout by itself.\<close>

lemma source_value_error: "source_value insn rf = Inl e \<Longrightarrow> e = Err BpfInvalidInstruction"
  by (cases "register_from_raw (src_reg insn)") (auto simp: source_value_def split: if_splits)

lemma execute_alu_no_timeout: "execute_alu insn rf w \<noteq> Inl (Err BpfTimeout)"
proof
  assume "execute_alu insn rf w = Inl (Err BpfTimeout)"
  then have "\<exists>op i x y. alu_value op i x y = Inl (Err BpfTimeout)"
    using source_value_error [of insn rf]
    by (auto simp: execute_alu_def res_bind_def ok_or_def Let_def split: option.splits sum.splits if_splits)
  then obtain op i x y where "alu_value op i x y = Inl (Err BpfTimeout)" by blast
  then show False by (cases op) (auto simp: alu_value_def split: if_splits)
qed

lemma execute_jmp_no_timeout: "execute_jmp ext env insn w m \<noteq> Inl (Err BpfTimeout)"
  using source_value_error [of insn "mc_regs m"]
  by (auto simp: execute_jmp_def execute_call_def call_helper_def res_bind_def ok_or_def Let_def
      split: option.splits sum.splits prod.splits if_splits)

lemma stack_access_no_timeout: "stack_access_offset a b c d e f \<noteq> Inl (Err BpfTimeout)"
  by (auto simp: stack_access_offset_def Let_def res_bind_def ok_or_def split: option.splits)

lemma execute_load_no_timeout: "execute_load env insn m \<noteq> Inl (Err BpfTimeout)"
  using stack_access_no_timeout
  by (auto simp: execute_load_def read_unaligned_def res_bind_def ok_or_def Let_def
      split: option.splits sum.splits if_splits)

lemma execute_store_no_timeout: "execute_store env insn m \<noteq> Inl (Err BpfTimeout)"
  using stack_access_no_timeout
  by (auto simp: execute_store_def write_unaligned_def res_bind_def ok_or_def Let_def
      split: option.splits sum.splits if_splits)

lemma exec_round_no_timeout: "exec_round ext env insns pc m \<noteq> Inl (Err BpfTimeout)"
proof -
  let ?insn = "insns ! pc"
  have "execute_insn ext env ?insn m \<noteq> Inl (Err BpfTimeout)"
    using execute_alu_no_timeout [of ?insn "mc_regs m"] execute_jmp_no_timeout [of ext env ?insn _ m]
      execute_load_no_timeout [of env ?insn m] execute_store_no_timeout [of env ?insn m]
    by (auto simp: execute_insn_def res_bind_def ok_or_def split: option.splits sum.splits opcode_class.splits)
  then show ?thesis
    by (auto simp: exec_round_def res_bind_def ok_or_def Let_def
        split: option.splits sum.splits prod.splits insn_result.splits)
qed

lemma forward_no_timeout:
  assumes nl: "\<not> has_loops (cfg_build insns)" and can: "list_all canonical insns" and len: "length insns < 2 ^ 63"
    and limit: "length insns \<le> limit"
  shows "count \<le> pc \<Longrightarrow> exec_loop ext env insns limit count pc m = Inl (Err BpfTimeout) \<Longrightarrow> False"
proof (induction "limit - count" arbitrary: count pc m rule: less_induct)
  case less
  have pc: "pc < length insns" using less.prems by (auto simp: exec_loop.simps [of ext env insns limit count pc m] split: if_splits)
  then have count: "count < limit" using less.prems(1) limit by simp
  have no_to: "exec_round ext env insns pc m \<noteq> Inl (Err BpfTimeout)"
    by (rule exec_round_no_timeout)
  then obtain pc' m' where r: "exec_round ext env insns pc m = Inr (RNext pc' m')"
    "exec_loop ext env insns limit (count + 1) pc' m' = Inl (Err BpfTimeout)"
    using less.prems(2) pc count
    by (auto simp: exec_loop.simps [of ext env insns limit count pc m] split: sum.splits round_result.splits)
  have "pc' < length insns"
    using r(2) by (cases "pc' < length insns") (simp_all add: exec_loop.simps [of ext env insns limit "Suc count" pc' m'])
  then have "count + 1 \<le> pc'" using forward_step(1) [OF nl can len r(1) pc] less.prems(1) by simp
  moreover have "limit - (count + 1) < limit - count" using count by simp
  ultimately show False using less.hyps r(2) by blast
qed

section \<open>Accepted programs of the embedded profile\<close>

lemma embedded_constraintsD:
  assumes "verify_with_config P insns cfg = Inr prog" "embedded_feature P"
  shows "\<not> has_loops (cfg_build insns)" "wcet_cycles insns (cfg_build insns) \<le> WCET_CYCLE_BUDGET P"
    "length insns \<le> MAX_INSN_COUNT P" "insns \<noteq> []"
proof -
  have "verify_profile_constraints P (cfg_build insns) insns = Inr ()" "check_basic P insns = Inr ()"
    using assms(1) by (rule verify_with_config_explored, simp)+
  then show "\<not> has_loops (cfg_build insns)" "wcet_cycles insns (cfg_build insns) \<le> WCET_CYCLE_BUDGET P"
    "length insns \<le> MAX_INSN_COUNT P" "insns \<noteq> []"
    using assms(2)
    by (auto simp: verify_profile_constraints_def verify_embedded_constraints_def check_basic_def has_loops_def Let_def
        res_bind_eq_Inr_iff not_less split: if_splits)
qed

lemma accepted_cost_bound:
  assumes acc: "verify_with_config P insns cfg = Inr prog" "embedded_feature P"
    and can: "list_all canonical insns" and small: "20 * MAX_INSN_COUNT P < 2 ^ 63"
  shows "95 + path_cost insns (run_trace ext env insns (MAX_INSN_COUNT P) 0 0 m) \<le> unat (WCET_CYCLE_BUDGET P)"
    "length (run_trace ext env insns (MAX_INSN_COUNT P) 0 0 m) \<le> length insns"
proof -
  note e = embedded_constraintsD [OF acc]
  have len: "length insns < 2 ^ 63" "20 * length insns < 2 ^ 63" using e(3) small by simp_all
  have path: "cfg_path (cfg_build insns) 0 (run_trace ext env insns (MAX_INSN_COUNT P) 0 0 m)"
    by (rule run_trace_path [OF e(1) can len(1)]) (use e(3,4) in \<open>auto intro: less_le_trans [of 0 "length insns"]\<close>)
  have succ: "i < j \<and> j < length insns" if "j \<in> set (successors (cfg_build insns) i)" for i j
    using no_loops_forward [OF e(1) that] that insn_succs_less by (auto simp: successors_cfg_build split: if_splits)
  have "unat (wcet_cycles insns (cfg_build insns)) = 95 + longest_from insns (cfg_build insns) 0"
    using wcet_cycles_longest [OF e(4) len(2)] .
  moreover have "unat (wcet_cycles insns (cfg_build insns)) \<le> unat (WCET_CYCLE_BUDGET P)"
    using e(2) by (simp add: word_le_nat_alt)
  ultimately show "95 + path_cost insns (run_trace ext env insns (MAX_INSN_COUNT P) 0 0 m) \<le> unat (WCET_CYCLE_BUDGET P)"
    using path_cost_le_longest [of "cfg_build insns" insns 0, OF succ path] by simp
  show "length (run_trace ext env insns (MAX_INSN_COUNT P) 0 0 m) \<le> length insns"
    using forward_path_length [of "cfg_build insns" "length insns" 0, OF succ path] e(4) by simp
qed

lemma accepted_no_timeout:
  assumes acc: "verify_with_config P insns cfg = Inr prog" "embedded_feature P"
    and can: "list_all canonical insns" and small: "MAX_INSN_COUNT P < 2 ^ 63"
  shows "execute_with_stack P ext env insns sz buf k \<noteq> Inl (Err BpfTimeout)"
proof -
  note e = embedded_constraintsD [OF acc]
  show ?thesis
    using forward_no_timeout [OF e(1) can _ e(3), of 0 0] e(3) small
    by (auto simp: execute_with_stack_def Let_def)
qed

end
