(* ===== verification/Examples.thy ===== *)
theory Examples
  imports Memory_Safety Run_Cost Value_Soundness
begin

text \<open>
  Concrete programs, configurations and kernels on which the properties are evaluated, and the
  collection of defining equations that evaluates verification and execution on them.
\<close>

section \<open>A kernel and an environment\<close>

text \<open>A kernel without maps: every function returns zero and changes nothing.\<close>

definition null_helpers :: "'w extern_helpers" where
  "null_helpers =
     \<lparr>bpf_ktime_get_ns = \<lambda>k. (0, k), bpf_get_interrupt_latency_ns = \<lambda>_ k. (0, k),
      bpf_get_boot_time_ms = \<lambda>_ k. (0, k), bpf_get_kernel_heap_kb = \<lambda>_ k. (0, k),
      bpf_get_kernel_image_mb = \<lambda>_ k. (0, k), bpf_trace_printk = \<lambda>_ _ k. (0, k),
      bpf_map_lookup_elem = \<lambda>_ _ k. (0, k), bpf_map_update_elem = \<lambda>_ _ _ _ k. (0, k),
      bpf_map_delete_elem = \<lambda>_ _ k. (0, k), bpf_ringbuf_output = \<lambda>_ _ _ _ k. (0, k),
      bpf_timeseries_push = \<lambda>_ _ _ k. (0, k), bpf_gpio_read = \<lambda>_ k. (0, k),
      bpf_gpio_write = \<lambda>_ _ k. (0, k), bpf_pwm_write = \<lambda>_ _ _ k. (0, k),
      bpf_motor_pair_v1 = \<lambda>_ _ k. (0, k)\<rparr>"

text \<open>A kernel that records the GPIO writes it performs.\<close>

definition gpio_helpers :: "(u32 \<times> u32) list extern_helpers" where
  "gpio_helpers = null_helpers\<lparr>bpf_gpio_write := \<lambda>pin v (mem, log). (0, (mem, (pin, v) # log))\<rparr>"

definition sample_env :: exec_env where
  "sample_env = \<lparr>env_ctx = context_empty, env_ctx_addr = 0x1000, env_stack_addr = 0x100000\<rparr>"

text \<open>Only the context structure is mapped, and it is all zero.\<close>

definition sample_memory :: raw_memory where
  "sample_memory = \<lparr>rm_bytes = \<lambda>_. 0, rm_readable = \<lambda>a. 0x1000 \<le> a \<and> a < 0x1038, rm_writable = \<lambda>_. False\<rparr>"

text \<open>A context whose payload is one page up, with a payload that looks like a further address.\<close>

definition payload_env :: exec_env where
  "payload_env = sample_env\<lparr>env_ctx := context_from_slice 0x2000 56\<rparr>"

definition payload_memory :: raw_memory where
  "payload_memory = \<lparr>rm_bytes = (\<lambda>_. 0)(0x1001 := 0x20, 0x2001 := 0x30),
     rm_readable = \<lambda>a. 0x1000 \<le> a \<and> a < 0x1038 \<or> 0x2000 \<le> a \<and> a < 0x2038, rm_writable = \<lambda>_. False\<rparr>"

definition sample_config :: verify_config where
  "sample_config = default_config\<lparr>ctx_size := 56, map_value_size := 64\<rparr>"

text \<open>
  Two maps with values of 8 and 16 bytes; the handle 1025 names slot 1 in generation 1. The kernel
  answers a lookup in that map with the address \<open>0x3000\<close> while it is mapped.
\<close>

definition map_config :: verify_config where
  "map_config = default_config\<lparr>ctx_size := 56, map_value_sizes := [8, 16], map_perms := [MapReadOnly, MapReadWrite],
     map_generations := [0, 1], map_handle_slot_bits := 10\<rparr>"

definition map_helpers :: "'w extern_helpers" where
  "map_helpers = null_helpers\<lparr>bpf_map_lookup_elem :=
     \<lambda>h key k. (if h = 1025 \<and> valid_value (fst k) 0x3000 16 True then 0x3000 else 0, k)\<rparr>"

definition map_memory :: raw_memory where
  "map_memory = \<lparr>rm_bytes = \<lambda>_. 0, rm_readable = \<lambda>a. 0x1000 \<le> a \<and> a < 0x1038 \<or> 0x3000 \<le> a \<and> a < 0x3010,
     rm_writable = \<lambda>a. 0x3000 \<le> a \<and> a < 0x3010\<rparr>"

section \<open>Programs\<close>

definition insn_ldx64 :: "u8 \<Rightarrow> u8 \<Rightarrow> i16 \<Rightarrow> bpf_insn" where "insn_ldx64 d s off = insn_new 0x79 d s off 0"
definition insn_st64 :: "u8 \<Rightarrow> i16 \<Rightarrow> i32 \<Rightarrow> bpf_insn" where "insn_st64 d off i = insn_new 0x7a d 0 off i"

text \<open>Stores a key on the stack, looks it up, and returns a field of the context.\<close>

definition lookup_prog :: "bpf_insn list" where
  "lookup_prog = [mov64_reg 6 1, insn_st64 10 (- 8) 0, mov64_imm 1 1, mov64_reg 2 10, add64_imm 2 (- 8),
     insn_call 5, insn_ldx64 0 6 8, insn_exit]"

text \<open>A branch with two exits.\<close>

definition branch_prog :: "bpf_insn list" where
  "branch_prog = [mov64_imm 0 1, jeq_imm 0 0 1, insn_exit, insn_exit]"

text \<open>Follows the payload pointer three times.\<close>

definition ctx_chain_prog :: "bpf_insn list" where
  "ctx_chain_prog = [insn_ldx64 2 1 0, insn_ldx64 3 2 0, insn_ldx64 0 3 0, insn_exit]"

text \<open>Looks a key up in the map with handle 1025, and writes and reads the second word of the value.\<close>

definition map_word_prog :: "bpf_insn list" where
  "map_word_prog = [insn_st64 10 (- 8) 0, mov64_imm 1 1025, mov64_reg 2 10, add64_imm 2 (- 8), insn_call 5,
     jne_imm 0 0 2, mov64_imm 0 0, insn_exit, insn_st64 0 8 7, insn_ldx64 0 0 8, insn_exit]"

text \<open>Moves a lookup result before the null check.\<close>

definition null_arith_prog :: "bpf_insn list" where
  "null_arith_prog = [insn_st64 10 (- 8) 0, mov64_imm 1 1, mov64_reg 2 10, add64_imm 2 (- 8), insn_call 5,
     add64_imm 0 8, jne_imm 0 0 2, mov64_imm 0 0, insn_exit, insn_ldx64 0 0 0, insn_exit]"

text \<open>A GPIO write through the opcode \<open>0x8d\<close>, whose operation bits are those of a call.\<close>

definition call_alias_prog :: "bpf_insn list" where
  "call_alias_prog = [mov64_imm 1 17, mov64_imm 2 1, mov64_imm 0 0, insn_new 0x8d 0 0 1 1003, insn_exit, insn_exit]"

section \<open>Evaluation\<close>

lemmas verify_eval = verify_with_config_def verify_with_stats_def check_basic_def insn_defs verify_profile_constraints_def
  CloudProfile_def EmbeddedProfile_def verify_safety_def check_reachability_def reachable_instructions_def
  successors_cfg_build insn_succs_def compute_jump_target_def
  initial_state_def state_new_entry_def set_reg_def reg_ctx_ptr_def reg_uninit_def reg_frame_ptr_def stack_new_def
  pruner_new_def pruner_clear_def DEFAULT_MAX_STATES_def DEFAULT_MAX_STATES_PER_PC_def
  explore_round_def check_or_record_with_liveness_def at_capacity_def verify_insn_def verify_alu_def verify_alu_source_def
  is_reg_init_def reg_is_init_def next_states_def set_scalar_def default_config_def max_stack_depth_def from_verified_parts_def
  is_pointer_def reg_scalar_def map_filter_def verify_memory_def verify_load_def verify_store_at_def init_or_def can_read_def can_write_def
  check_ranged_deref_def wrap_i64_def checked_add_i64_def i64_MIN_def i64_MAX_def is_stack_ptr_def ctx_load_result_def reg_ctx_data_ptr_def
  is_valid_access_def mark_stack_written_def insn_ldx64_def insn_st64_def

lemmas call_eval = verify_call_def validate_helper_call_def helper_from_raw_def is_available_def available_in_cloud_def
  available_in_embedded_def get_helper_signature_def get_helper_descriptor_def helper_signature_def signature_new_def
  with_min_tier_def requiring_actuation_def with_logging_effect_def verify_call_authorised_def
  mutating_helper_map_arg_def check_helper_mem_bounds_def referenced_map_helper_arg_def known_value_def u32_try_from_def
  call_return_state_def map_lookup_value_size_def map_lookup_writability_def map_value_with_writability_def
  clobber_caller_saved_def to_reg_state_def sample_config_def verify_jump_def branch_arm_def apply_null_refine_def
  less_load_caller_def with_scalar_def scalar_from_imm_def unknown_if_none_def compute_alu_result_width_def scalar_mov_def

text \<open>Marking the slots of an eight-byte store in a fresh stack.\<close>

lemma stack_set_fresh:
  assumes "int cap \<le> i64_MAX" "off = - int (Suc i)" "i < cap"
  shows "stack_set \<lparr>ss_slots = f, ss_capacity = cap, ss_max_depth = d\<rparr> off SlotScalar
    = (True, \<lparr>ss_slots = f(i \<mapsto> SlotScalar), ss_capacity = cap, ss_max_depth = max d (Suc i)\<rparr>)"
proof -
  have "wrap_i64 (- wrap_i64 (int cap)) = - int cap" using assms(1) by (simp add: wrap_i64_id rust_arith)
  then show ?thesis using assms by (auto simp: stack_set_def stack_offset_bad_def Let_def nat_add_distrib)
qed

lemma mark_first_word:
  assumes "int cap \<le> i64_MAX" "8 \<le> cap"
  shows "fold (\<lambda>i s. snd (stack_set s (int i - 8) SlotScalar)) [0..<8]
      \<lparr>ss_slots = f, ss_capacity = cap, ss_max_depth = 0\<rparr>
    = \<lparr>ss_slots = f(7 \<mapsto> SlotScalar, 6 \<mapsto> SlotScalar, 5 \<mapsto> SlotScalar, 4 \<mapsto> SlotScalar, 3 \<mapsto> SlotScalar,
         2 \<mapsto> SlotScalar, 1 \<mapsto> SlotScalar, 0 \<mapsto> SlotScalar), ss_capacity = cap, ss_max_depth = 8\<rparr>"
proof -
  have u: "[0..<8] = [0, 1, 2, 3, 4, 5, 6, 7]" by (simp add: upt_rec)
  show ?thesis unfolding u using assms by (simp add: stack_set_fresh [OF assms(1)])
qed

lemma lookup_prog_accepted:
  "verify_with_config CloudProfile lookup_prog sample_config = Inr \<lparr>vp_insns = lookup_prog, vp_stack_size = 8\<rparr>"
  by (simp add: lookup_prog_def verify_eval call_eval mark_first_word)

lemma u32_MAX_u64: "(ucast u32_MAX :: u64) = 0xFFFFFFFF"
  by transfer (simp add: take_bit_eq_mod)

lemma map_config_sel:
  "ctx_size map_config = 56" "ctx_data_size map_config = 0" "map_value_size map_config = 0" "map_value_sizes map_config = [8, 16]"
  "map_perms map_config = [MapReadOnly, MapReadWrite]" "map_generations map_config = [0, 1]"
  "map_handle_slot_bits map_config = 10" "caller map_config = Privileged" "\<not> forbid_logging_helpers map_config"
  by (simp_all add: map_config_def default_config_def)

lemma map_slot_1025: "map_handle_slot 1025 map_config = Some 1"
proof -
  have "(1025 :: u32) AND (push_bit 10 1 - 1) = 1" "drop_bit 10 (1025 :: u32) = 1" by code_simp+
  then show ?thesis by (simp add: map_handle_slot_def map_config_sel u32_MAX_u64)
qed

lemma map_word_prog_accepted:
  "verify_with_config CloudProfile map_word_prog map_config = Inr \<lparr>vp_insns = map_word_prog, vp_stack_size = 8\<rparr>"
  by (simp add: map_word_prog_def verify_eval call_eval mark_first_word map_slot_1025 map_config_sel u32_MAX_u64
      nth_opt_def check_map_write_writability_def refine_scalar_def refine_jeq_def)

lemma branch_prog_accepted:
  "verify_with_config EmbeddedProfile branch_prog default_config = Inr \<lparr>vp_insns = branch_prog, vp_stack_size = 0\<rparr>"
  by (simp add: branch_prog_def verify_eval call_eval verify_embedded_constraints_def has_loops_def cfg_build_back_edges
      cfg_build_edges check_rt_helpers_def wcet_cycles_def wcet_visit_def insn_cycle_cost_def cost_consts
      refine_scalar_def refine_jeq_def)

lemma ctx_chain_prog_accepted:
  "verify_with_config CloudProfile ctx_chain_prog (sample_config\<lparr>ctx_data_size := 56\<rparr>)
     = Inr \<lparr>vp_insns = ctx_chain_prog, vp_stack_size = 0\<rparr>"
  by (simp add: ctx_chain_prog_def verify_eval call_eval)

lemma null_arith_prog_accepted:
  "verify_with_config CloudProfile null_arith_prog sample_config
     = Inr \<lparr>vp_insns = null_arith_prog, vp_stack_size = 8\<rparr>"
  by (simp add: null_arith_prog_def verify_eval call_eval mark_first_word)

lemma call_alias_prog_accepted:
  "verify_with_config CloudProfile call_alias_prog sample_config
     = Inr \<lparr>vp_insns = call_alias_prog, vp_stack_size = 0\<rparr>"
  by (simp add: call_alias_prog_def verify_eval call_eval refine_scalar_def)


section \<open>Execution\<close>

lemma upt_8: "[0..<8] = [0, 1, 2, 3, 4, 5, 6, 7]"
  by (simp add: upt_rec)

lemmas exec_eval = execute_with_stack_def initial_regs_def register_file_set_def register_file_new_def register_file_get_def
  exec_loop.simps exec_round_def execute_insn_def execute_alu_def alu_value_def source_value_def imm_u64_def
  execute_jmp_def jmp_condition_def execute_call_def call_helper_def runtime_helper_def execute_load_def execute_store_def
  stack_access_offset_def checked_add_signed_def checked_sub_def read_unaligned_def range_all_def
  sample_env_def sample_memory_def null_helpers_def context_empty_def context_struct_size_def upt_8

lemma null_arith_prog_runs:
  "execute_with_stack CloudProfile null_helpers sample_env null_arith_prog 8 (replicate (512 * 1024) 0) (sample_memory, ())
     = Inl Undefined"
  by (simp add: null_arith_prog_def exec_eval verify_eval call_eval)

lemma ctx_chain_prog_runs:
  "execute_with_stack CloudProfile null_helpers payload_env ctx_chain_prog 0 (replicate (512 * 1024) 0) (payload_memory, ())
     = Inl Undefined"
  by (simp add: ctx_chain_prog_def exec_eval verify_eval call_eval payload_env_def payload_memory_def context_from_slice_def le_value_def)

lemma call_alias_prog_runs:
  "execute_with_stack CloudProfile gpio_helpers sample_env call_alias_prog 0 (replicate (512 * 1024) 0) (sample_memory, [])
     = Inr (0, (sample_memory, [(17, 1)]))"
  by (simp add: call_alias_prog_def exec_eval verify_eval call_eval gpio_helpers_def)

text \<open>The environments satisfy the hypotheses on runs.\<close>

lemma null_helpers_contract: "helper_contract null_helpers env cfg"
proof -
  have "v = 0 \<and> k' = k" if c: "call_helper null_helpers env raw args k = Inr (v, k')" for raw args v k k'
  proof -
    obtain h rt where "helper_from_raw raw = Some h" "desc_runtime (get_helper_descriptor h) = Some rt"
      using c by (auto simp: call_helper_def res_bind_eq_Inr_iff ok_or_eq_Inr_iff)
    with c show ?thesis by (cases rt) (simp_all add: call_helper_def null_helpers_def Let_def)
  qed
  then show ?thesis unfolding helper_contract_def by blast
qed

lemma sample_hypotheses:
  "run_hypotheses CloudProfile sample_config null_helpers sample_env"
  "mem_ok sample_config sample_env sample_memory"
proof -
  show "run_hypotheses CloudProfile sample_config null_helpers sample_env"
    by (simp add: run_hypotheses_def null_helpers_contract env_ok_def frame_top_def CloudProfile_def sample_env_def
        sample_config_def default_config_def)
  have "0x1000 \<le> (0x1000 :: u64) + of_nat i \<and> (0x1000 :: u64) + of_nat i < 0x1038" if "i < 56" for i
    using that by (simp add: word_le_nat_alt word_less_nat_alt unat_word_ariths unat_of_nat take_bit_nat_eq_self)
  then have "range_all (rm_readable sample_memory) 0x1000 56" by (simp add: range_all_iff sample_memory_def)
  then show "mem_ok sample_config sample_env sample_memory"
    by (simp add: mem_ok_def sample_config_def default_config_def sample_env_def range_all_def [of _ _ 0])
      (simp add: sample_memory_def context_empty_def le_value_def upt_8)
qed

lemma map_helpers_contract: "helper_contract map_helpers env map_config"
proof -
  have sz: "handle_size map_config 1025 = Some 16" "handle_writable map_config 1025"
    using map_slot_1025 by (simp_all add: handle_size_def handle_writable_def map_config_sel nth_opt_def)
  have call: "k' = k \<and> (v = 0 \<or> helper_from_raw raw = Some MapLookupElem \<and> ucast (args 0) = (1025 :: u32) \<and> valid_value (fst k) v 16 True)"
    if c: "call_helper map_helpers env raw args k = Inr (v, k')" for raw args v k k'
  proof -
    obtain h rt where h: "helper_from_raw raw = Some h" "desc_runtime (get_helper_descriptor h) = Some rt"
      using c by (auto simp: call_helper_def res_bind_eq_Inr_iff ok_or_eq_Inr_iff)
    have "rt = Rt_MapLookupElem \<longrightarrow> h = MapLookupElem"
      using h(2) by (cases h) (simp_all add: get_helper_descriptor_def runtime_helper_def)
    with c h show ?thesis by (cases rt) (auto simp: call_helper_def map_helpers_def null_helpers_def Let_def split: if_splits)
  qed
  have sig: "sig_ret (helper_signature MapLookupElem) = RetPtrToMapValueOrNull"
    by (simp add: helper_signature_def signature_new_def)
  have ret: "\<forall>h. helper_from_raw raw = Some h \<longrightarrow>
      (sig_ret (helper_signature h) = RetPtrToMapValueOrNull \<longrightarrow>
        v = 0 \<or> (\<exists>n. handle_size map_config (ucast (args 0)) = Some n
          \<and> valid_value (fst k') v n (handle_writable map_config (ucast (args 0)))))
      \<and> (sig_ret (helper_signature h) = RetPtrToAllocMemOrNull \<longrightarrow>
        v = 0 \<or> valid_value (fst k') v (map_value_size map_config) True)"
    if c: "call_helper map_helpers env raw args k = Inr (v, k')" for raw args v k k'
    using call [OF c] sig sz by auto
  show ?thesis unfolding helper_contract_def using call ret by blast
qed

lemma map_hypotheses:
  "run_hypotheses CloudProfile map_config map_helpers sample_env"
  "mem_ok map_config sample_env map_memory"
proof -
  show "run_hypotheses CloudProfile map_config map_helpers sample_env"
    by (simp add: run_hypotheses_def map_helpers_contract env_ok_def frame_top_def CloudProfile_def sample_env_def map_config_sel)
  have "0x1000 \<le> (0x1000 :: u64) + of_nat i \<and> (0x1000 :: u64) + of_nat i < 0x1038" if "i < 56" for i
    using that by (simp add: word_le_nat_alt word_less_nat_alt unat_word_ariths unat_of_nat take_bit_nat_eq_self)
  then have "range_all (rm_readable map_memory) 0x1000 56" by (simp add: range_all_iff map_memory_def)
  then show "mem_ok map_config sample_env map_memory"
    by (simp add: mem_ok_def map_config_sel sample_env_def range_all_def [of _ _ 0])
      (simp add: map_memory_def context_empty_def le_value_def upt_8)
qed

lemma map_word_prog_disciplined:
  assumes "verifier_reaches CloudProfile map_config map_word_prog s"
  shows "disciplined map_config (map_word_prog ! vs_insn_idx s) s"
proof (rule all_reachable_reaches [OF _ assms])
  show "all_reachable (\<lambda>s. disciplined map_config (map_word_prog ! vs_insn_idx s) s) CloudProfile map_config map_word_prog
      (Suc (Suc (Suc (Suc (Suc (Suc (Suc (Suc (Suc (Suc (Suc (Suc 0))))))))))))
      [initial_state CloudProfile map_config]"
    by (simp add: map_word_prog_def verify_eval call_eval mark_first_word disciplined_def verifier_succs_def
        map_slot_1025 map_config_sel u32_MAX_u64 nth_opt_def check_map_write_writability_def refine_scalar_def refine_jeq_def
        tracks_handles_def settled_reg_def settled_scalar_def exact_alu_def alu_operand_def all_registers_def scalar_unknown_def)
qed

end
