(* ===== verification/Policy.thy ===== *)
theory Policy
  imports Examples
begin

text \<open>
  What single checks of the verifier guarantee: authorisation of helper calls and map writes, absence
  of division by zero for scalar divisors, the bound on explored states, and the instruction format.
\<close>

section \<open>Authorisation\<close>

lemma check_map_write_writability_ok: "check_map_write_writability w idx = Inr () \<longleftrightarrow> is_read_write w"
  by (cases w) (simp_all add: check_map_write_writability_def)

lemma verify_call_authorisedD:
  assumes "verify_call_authorised cfg insn sig s idx = Inr ()"
  shows "sig_min_tier sig \<le> caller cfg" "sig_requires_actuation sig \<longrightarrow> allow_actuation cfg"
    "sig_may_log sig \<longrightarrow> \<not> forbid_logging_helpers cfg"
    "mutating_helper_map_arg (sig_id sig) = Some r \<Longrightarrow> is_read_write (map_lookup_writability (vs_regs s r) cfg)"
    "check_helper_mem_bounds (sig_args sig) s idx = Inr ()"
  using assms
  by (auto simp: verify_call_authorised_def res_bind_eq_Inr_iff check_map_write_writability_ok not_less
      split: if_splits option.splits)

lemma arg_registers: "k < 5 \<Longrightarrow> map f [R1, R2, R3, R4, R5] ! k = f (helper_arg_register k)"
  by (auto simp: helper_arg_register_def less_Suc_eq numeral_eq_Suc)

lemma verify_call_authorises:
  assumes "verify_call P cfg insn s idx = Inr (s', hs)"
  shows "\<exists>h. insn_imm insn = helper_raw h \<and> is_available P h
    \<and> sig_min_tier (helper_signature h) \<le> caller cfg
    \<and> (sig_requires_actuation (helper_signature h) \<longrightarrow> allow_actuation cfg)
    \<and> (sig_may_log (helper_signature h) \<longrightarrow> \<not> forbid_logging_helpers cfg)
    \<and> (\<forall>r. mutating_helper_map_arg h = Some r \<longrightarrow> is_read_write (map_lookup_writability (vs_regs s r) cfg))
    \<and> (\<forall>k < length (sig_args (helper_signature h)).
         is_compatible (sig_args (helper_signature h) ! k) (rs_type (vs_regs s (helper_arg_register k))))"
proof -
  let ?ts = "map (\<lambda>r. rs_type (vs_regs s r)) [R1, R2, R3, R4, R5]"
  obtain sig where v: "validate_helper_call P (insn_imm insn) ?ts = HV_Valid sig"
    and a: "verify_call_authorised cfg insn sig s idx = Inr ()"
    using assms by (auto simp: verify_call_def Let_def res_bind_eq_Inr_iff split: helper_validation.splits)
  obtain h where h: "insn_imm insn = helper_raw h" "sig = helper_signature h" "is_available P h"
    "\<And>k. k < length (sig_args sig) \<Longrightarrow> is_compatible (sig_args sig ! k) (?ts ! k)"
    by (rule validate_helper_call_Valid [OF v]) (simp, blast)
  have "is_compatible (sig_args sig ! k) (rs_type (vs_regs s (helper_arg_register k)))" if "k < length (sig_args sig)" for k
  proof -
    have "k < 5" using that helper_signature_arity [of h] h(2) by simp
    then show ?thesis using h(4) [OF that] arg_registers [of k "\<lambda>r. rs_type (vs_regs s r)"] by simp
  qed
  then show ?thesis
    using h verify_call_authorisedD [OF a] helper_signature_id [of h] by (intro exI [of _ h]) auto
qed

section \<open>Division\<close>

lemma scast_i32_zero: "(scast (i :: i32) :: u64) = 0 \<longleftrightarrow> i = 0"
proof
  have "ucast (scast i :: u64) = i" by (rule bit_word_eqI) (auto simp: bit_simps)
  moreover assume "(scast i :: u64) = 0"
  ultimately show "i = 0" by simp
qed simp

lemma alu_value_division: "alu_value op i x y = Inl (Err BpfDivisionByZero) \<longleftrightarrow> can_divide_by_zero op \<and> y = 0"
  by (cases op) (auto simp: alu_value_def can_divide_by_zero_def)

lemma checked_division:
  assumes ver: "verify_alu insn s idx = Inr s'"
    and sound: "\<And>src. insn_source_type insn = Src_Reg \<Longrightarrow> insn_src insn = Some src \<Longrightarrow>
      rs_type (vs_regs s src) = Scalar \<and> (\<forall>sv. rs_scalar (vs_regs s src) = Some sv \<longrightarrow> scalar_has sv (rf src))"
  shows "execute_alu insn rf (is_alu64 insn) \<noteq> Inl (Err BpfDivisionByZero)"
proof
  assume run: "execute_alu insn rf (is_alu64 insn) = Inl (Err BpfDivisionByZero)"
  obtain op where op: "insn_alu_op insn = Some op" and src: "verify_alu_source insn op s idx = Inr ()"
    using ver by (auto simp: verify_alu_def res_bind_eq_Inr_iff ok_or_eq_Inr_iff split: if_splits)
  have "alu_from_opcode (opcode insn) = Some op" using op by (simp add: insn_alu_op_def split: if_splits)
  with run obtain y x where y: "source_value insn rf = Inr y" and x: "alu_value op (insn_imm insn) x y = Inl (Err BpfDivisionByZero)"
    using source_value_error [of insn rf]
    by (auto simp: execute_alu_def res_bind_def ok_or_def Let_def split: option.splits sum.splits)
  then have div: "can_divide_by_zero op" "y = 0" by (simp_all add: alu_value_division)
  show False
  proof (cases "insn_source_type insn = Src_Reg")
    case True
    then obtain r where r: "insn_src insn = Some r" "y = rf r"
      using y by (auto simp: source_value_def insn_source_type_def insn_src_def res_bind_eq_Inr_iff ok_or_eq_Inr_iff register_file_get_def)
    note sd = sound [OF True r(1)]
    obtain sv where sv: "rs_scalar (vs_regs s r) = Some sv"
      "\<not> could_be_zero (if is_alu64 insn then sv else zero_extend_32 sv)"
      using src True r(1) div(1) sd by (auto simp: verify_alu_source_def Let_def split: if_splits option.splits)
    have "scalar_has sv 0" using sd sv(1) r(2) div(2) by simp
    then show False
      using sv(2) could_be_zero_sound [of sv 0] could_be_zero_sound [of "zero_extend_32 sv" 0] zero_extend_32_sound [of sv 0]
      by (auto split: if_splits)
  next
    case False
    then have "insn_imm insn \<noteq> 0" using src div(1) by (auto simp: verify_alu_source_def split: if_splits)
    moreover have "y = scast (insn_imm insn)" using False y by (simp add: source_value_def insn_source_type_def imm_u64_def)
    ultimately show False using div(2) scast_i32_zero [of "insn_imm insn"] by simp
  qed
qed

section \<open>The number of explored states\<close>

lemma explore_count:
  assumes "explore P cfg live insns cur work v = Inr v'" "pr_count (v_pruner v) \<le> max_states (v_pruner v)"
  shows "max_states (v_pruner v') = max_states (v_pruner v) \<and> pr_count (v_pruner v') \<le> max_states (v_pruner v')"
  using assms
proof (induction P cfg live insns cur work v rule: explore.induct)
  case (3 P cfg live insns s work v)
  show ?case
  proof (cases "explore_round P cfg live insns s v")
    case (Inl e)
    with "3.prems" show ?thesis by simp
  next
    case r: (Inr round)
    show ?thesis
    proof (cases round)
      case [simp]: (RoundBreak v1)
      have v1: "v1 = v" using r explore_round_break by simp
      show ?thesis using "3.IH"(1) [OF r RoundBreak] "3.prems" r v1 by simp
    next
      case [simp]: (RoundNext cur push v1)
      have "max_states (v_pruner v1) = max_states (v_pruner v) \<and> pr_count (v_pruner v1) \<le> max_states (v_pruner v1)"
        using r [unfolded RoundNext]
        by (rule explore_round_next) (auto simp: at_capacity_def dest: check_or_record_Continue(2))
      then show ?thesis using "3.IH"(2) [OF r RoundNext] "3.prems" r by simp
    qed
  qed
qed simp_all

lemma verify_with_stats_states:
  assumes "verify_with_stats P insns cfg = Inr (prog, stats)"
  shows "states_explored stats \<le> DEFAULT_MAX_STATES"
proof -
  obtain v' where e: "explore P cfg (liveness_analyze insns (cfg_build insns)) insns None [initial_state P cfg]
       \<lparr>v_states = replicate (length insns) None, v_pruner = pruner_clear pruner_new, v_handles = []\<rparr> = Inr v'"
    and s: "states_explored stats = pr_count (v_pruner v')"
    using assms
    by (auto simp: verify_with_stats_def verify_safety_def Let_def res_bind_eq_Inr_iff simp del: explore.simps)
  show ?thesis using explore_count [OF e] s by (simp add: pruner_clear_def pruner_new_def)
qed

section \<open>The instruction format\<close>

lemma insn_new_fields:
  assumes "d < 16" "s < 16"
  shows "dst_reg (insn_new opc d s off i) = d" "src_reg (insn_new opc d s off i) = s"
proof -
  have m: "(15 :: u8) = mask 4" by (simp add: mask_eq_decr_exp)
  have "take_bit 4 d = d" "take_bit 4 s = s" using assms by (simp_all add: take_bit_eq_mod word_mod_less_divisor mod_word_less)
  then have b: "bit d n \<Longrightarrow> n < 4" "bit s n \<Longrightarrow> n < 4" for n by (metis bit_take_bit_iff)+
  show "dst_reg (insn_new opc d s off i) = d"
    by (rule bit_word_eqI) (use b in \<open>auto simp: dst_reg_def insn_new_def m bit_and_iff bit_or_iff bit_push_bit_iff bit_mask_iff\<close>)
  show "src_reg (insn_new opc d s off i) = s"
    by (rule bit_word_eqI)
      (use b in \<open>auto simp: src_reg_def insn_new_def m bit_and_iff bit_or_iff bit_push_bit_iff bit_mask_iff bit_drop_bit_eq\<close>)
qed

end
