(* ===== verification/Rust_Std.thy ===== *)
theory Rust_Std
  imports Axiom_Prelude
begin

text \<open>
  Further methods of the Rust standard library which the components outside the verifier use:
  saturating and checked arithmetic on words, \<open>Ord::clamp\<close> with its panic, and the casts of signed
  integers that are kept as \<open>int\<close>, and slices with their bounds checks. A panic is \<open>None\<close>.
\<close>

section \<open>Words\<close>

definition saturating_mul :: "'a::len word \<Rightarrow> 'a word \<Rightarrow> 'a word" where
  [rust_arith]: "saturating_mul a b = (if 2 ^ LENGTH('a) \<le> unat a * unat b then - 1 else a * b)"

definition checked_add :: "'a::len word \<Rightarrow> 'a word \<Rightarrow> 'a word option" where
  [rust_arith]: "checked_add a b = (if 2 ^ LENGTH('a) \<le> unat a + unat b then None else Some (a + b))"

definition checked_mul :: "'a::len word \<Rightarrow> 'a word \<Rightarrow> 'a word option" where
  [rust_arith]: "checked_mul a b = (if 2 ^ LENGTH('a) \<le> unat a * unat b then None else Some (a * b))"

text \<open>\<open>div_ceil\<close> panics for a zero divisor, which its callers exclude.\<close>

definition div_ceil :: "'a::len word \<Rightarrow> 'a word \<Rightarrow> 'a word" where
  [rust_arith]: "div_ceil a b = (if a mod b = 0 then a div b else a div b + 1)"

text \<open>\<open>usize\<close> sizes are natural numbers; the targets have 64-bit addresses.\<close>

definition usize_MAX :: nat where [rust_arith]: "usize_MAX = 18446744073709551615"

definition checked_add_usize :: "nat \<Rightarrow> nat \<Rightarrow> nat option" where
  [rust_arith]: "checked_add_usize a b = (if a + b \<le> usize_MAX then Some (a + b) else None)"

definition checked_mul_usize :: "nat \<Rightarrow> nat \<Rightarrow> nat option" where
  [rust_arith]: "checked_mul_usize a b = (if a * b \<le> usize_MAX then Some (a * b) else None)"

lemma unat_saturating_add: "unat (saturating_add a b :: 'a::len word) = min (2 ^ LENGTH('a) - 1) (unat a + unat b)"
proof (cases "2 ^ LENGTH('a) \<le> unat a + unat b")
  case True
  then show ?thesis by (simp add: saturating_add_def unsigned_minus_1_eq_mask mask_eq_exp_minus_1)
next
  case False
  then show ?thesis by (auto simp: saturating_add_def unat_word_ariths min_def)
qed

lemma unat_saturating_sub: "unat (saturating_sub a b :: 'a::len word) = unat a - unat b"
  by (auto simp: saturating_sub_def word_less_nat_alt unat_sub_if')

lemma unat_saturating_mul: "unat (saturating_mul a b :: 'a::len word) = min (2 ^ LENGTH('a) - 1) (unat a * unat b)"
proof (cases "2 ^ LENGTH('a) \<le> unat a * unat b")
  case True
  then show ?thesis by (simp add: saturating_mul_def unsigned_minus_1_eq_mask mask_eq_exp_minus_1)
next
  case False
  then show ?thesis by (auto simp: saturating_mul_def unat_word_ariths min_def)
qed

lemma unat_div_ceil:
  assumes "b \<noteq> 0"
  shows "unat (div_ceil a b :: 'a::len word) = (unat a + unat b - 1) div unat b"
proof -
  have b: "0 < unat b" using assms by (simp add: unat_gt_0)
  have d: "unat a = unat b * (unat a div unat b) + unat a mod unat b" by simp
  show ?thesis
  proof (cases "a mod b = 0")
    case True
    then have "unat a mod unat b = 0" by (metis unat_mod unat_0)
    then obtain k where "unat a = unat b * k" by fastforce
    moreover have "unat b * k + unat b - 1 = unat b * k + (unat b - 1)" using b by simp
    moreover have "(unat b * k + (unat b - 1)) div unat b = k" using b by (subst div_mult_self4) simp_all
    ultimately show ?thesis using True b by (simp add: div_ceil_def unat_div)
  next
    case False
    then have m: "0 < unat a mod unat b" by (metis unat_mod unat_0_iff gr0I)
    have "unat a div unat b < 2 ^ LENGTH('a) - 1"
    proof (cases "unat b = 1")
      case False
      then have "unat a div unat b * 2 \<le> unat a" using b
        by (metis (no_types, lifting) One_nat_def Suc_leI div_times_less_eq_dividend le_neq_implies_less
            less_eq_Suc_le mult_le_mono2 numeral_2_eq_2 le_trans)
      moreover have "(1::nat) < 2 ^ LENGTH('a)" using one_less_power [of "2::nat" "LENGTH('a)"] by simp
      moreover have "unat a < 2 ^ LENGTH('a)" by (rule unsigned_less)
      ultimately show ?thesis by linarith
    qed (use m in simp)
    then have "unat (a div b + 1) = unat a div unat b + 1"
      by (simp add: unat_word_ariths unat_div)
    moreover have "(unat a + unat b - 1) div unat b = unat a div unat b + 1"
    proof -
      have "unat a + unat b - 1 = unat b * (unat a div unat b + 1) + (unat a mod unat b - 1)"
        using m d by (simp only: distrib_left mult_1_right)
      moreover have "(unat a mod unat b - 1) div unat b = 0" using b m by (simp add: less_imp_diff_less)
      ultimately show ?thesis using b by (metis add_0_right div_mult_self4 not_gr0)
    qed
    ultimately show ?thesis using False by (simp add: div_ceil_def)
  qed
qed

section \<open>Clamping and signed integers\<close>

definition clamp :: "'a::linorder \<Rightarrow> 'a \<Rightarrow> 'a \<Rightarrow> 'a option" where
  "clamp v lo hi = (if lo \<le> hi then Some (if v < lo then lo else if hi < v then hi else v) else None)"

lemma clamp_Some: "lo \<le> hi \<Longrightarrow> \<exists>w. clamp v lo hi = Some w \<and> lo \<le> w \<and> w \<le> hi \<and> (lo \<le> v \<and> v \<le> hi \<longrightarrow> w = v)"
  by (auto simp: clamp_def)

lemma clamp_SomeD: "clamp v lo hi = Some w \<Longrightarrow> lo \<le> hi \<and> lo \<le> w \<and> w \<le> hi"
  by (auto simp: clamp_def split: if_splits)

definition sat_i32 :: "int \<Rightarrow> int" where
  [rust_arith]: "sat_i32 x = max (- 2147483648) (min 2147483647 x)"

definition wrap_i32 :: "int \<Rightarrow> int" where
  [rust_arith]: "wrap_i32 x = (x + 2147483648) mod 4294967296 - 2147483648"

definition wrap_i16 :: "int \<Rightarrow> int" where
  [rust_arith]: "wrap_i16 x = (x + 32768) mod 65536 - 32768"

lemma wrap_i16_id: "- 32768 \<le> x \<Longrightarrow> x < 32768 \<Longrightarrow> wrap_i16 x = x"
  by (simp add: wrap_i16_def)

lemma wrap_i32_id: "- 2147483648 \<le> x \<Longrightarrow> x < 2147483648 \<Longrightarrow> wrap_i32 x = x"
  by (simp add: wrap_i32_def)

section \<open>Windows of a ring\<close>

text \<open>Positions that are less than a ring apart fall on different cells.\<close>

lemma mod_window_inj:
  fixes i j N :: nat
  assumes "i mod N = j mod N" "i < j" "j - i < N"
  shows False
proof -
  have "(j - i) mod N = 0" using assms(1,2) by (metis mod_eq_dvd_iff_nat less_imp_le mod_eq_0_iff_dvd)
  with assms(2,3) show False by simp
qed

section \<open>Slices\<close>

named_theorems buffer_simps \<open>evaluation of slices within bounds\<close>

text \<open>\<open>&xs[a..b]\<close>, \<open>xs[a..b].copy_from_slice(ys)\<close>, \<open>xs[i]\<close> and \<open>xs[i] = v\<close>.\<close>

definition get_slice :: "'a list \<Rightarrow> nat \<Rightarrow> nat \<Rightarrow> 'a list option" where
  "get_slice xs a b = (if a \<le> b \<and> b \<le> length xs then Some (take (b - a) (drop a xs)) else None)"

definition overwrite :: "'a list \<Rightarrow> nat \<Rightarrow> 'a list \<Rightarrow> 'a list" where
  "overwrite xs a ys = take a xs @ ys @ drop (a + length ys) xs"

definition copy_slice :: "'a list \<Rightarrow> nat \<Rightarrow> nat \<Rightarrow> 'a list \<Rightarrow> 'a list option" where
  "copy_slice xs a b ys = (if a \<le> b \<and> b \<le> length xs \<and> length ys = b - a then Some (overwrite xs a ys) else None)"

definition get_at :: "'a list \<Rightarrow> nat \<Rightarrow> 'a option" where
  "get_at xs i = (if i < length xs then Some (xs ! i) else None)"

definition put_at :: "'a list \<Rightarrow> nat \<Rightarrow> 'a \<Rightarrow> 'a list option" where
  "put_at xs i v = (if i < length xs then Some (xs[i := v]) else None)"

text \<open>\<open>Vec::resize(n, v)\<close>.\<close>

definition vec_resize :: "'a list \<Rightarrow> nat \<Rightarrow> 'a \<Rightarrow> 'a list" where
  "vec_resize xs n v = take n xs @ replicate (n - length xs) v"

lemma length_overwrite [simp]: "a + length ys \<le> length xs \<Longrightarrow> length (overwrite xs a ys) = length xs"
  by (simp add: overwrite_def)

lemma nth_overwrite:
  assumes "a + length ys \<le> length xs" "i < length xs"
  shows "overwrite xs a ys ! i = (if a \<le> i \<and> i < a + length ys then ys ! (i - a) else xs ! i)"
  using assms by (auto simp: overwrite_def nth_append min_def)

lemma slice_overwrite_same:
  assumes "a + length ys \<le> length xs"
  shows "take (length ys) (drop a (overwrite xs a ys)) = ys"
  using assms by (simp add: overwrite_def)

lemma slice_overwrite_other:
  assumes "a + length ys \<le> length xs" "c + n \<le> length xs" "c + n \<le> a \<or> a + length ys \<le> c"
  shows "take n (drop c (overwrite xs a ys)) = take n (drop c xs)"
  using assms by (intro nth_equalityI) (auto simp: nth_overwrite)

lemma get_slice_in [buffer_simps]:
  "a \<le> b \<Longrightarrow> b \<le> length xs \<Longrightarrow> get_slice xs a b = Some (take (b - a) (drop a xs))"
  by (simp add: get_slice_def)

lemma copy_slice_in [buffer_simps]:
  "a \<le> b \<Longrightarrow> b \<le> length xs \<Longrightarrow> length ys = b - a \<Longrightarrow> copy_slice xs a b ys = Some (overwrite xs a ys)"
  by (simp add: copy_slice_def)

lemma get_at_in [buffer_simps]: "i < length xs \<Longrightarrow> get_at xs i = Some (xs ! i)"
  by (simp add: get_at_def)

lemma put_at_in [buffer_simps]: "i < length xs \<Longrightarrow> put_at xs i v = Some (xs[i := v])"
  by (simp add: put_at_def)

lemma length_vec_resize [simp]: "length (vec_resize xs n v) = n"
  by (simp add: vec_resize_def)

lemma slice_vec_resize:
  assumes "c + k \<le> n"
  shows "c + k \<le> length xs \<Longrightarrow> take k (drop c (vec_resize xs n v)) = take k (drop c xs)"
    "length xs \<le> c \<Longrightarrow> take k (drop c (vec_resize xs n v)) = replicate k v"
  using assms by (auto intro!: nth_equalityI simp: vec_resize_def nth_append)

text \<open>\<open>iter().position\<close>.\<close>

definition position :: "('a \<Rightarrow> bool) \<Rightarrow> 'a list \<Rightarrow> nat option" where
  "position P xs = (if \<exists>x\<in>set xs. P x then Some (length (takeWhile (\<lambda>x. \<not> P x) xs)) else None)"

lemma position_None: "position P xs = None \<longleftrightarrow> (\<forall>x\<in>set xs. \<not> P x)"
  by (simp add: position_def)

lemma position_Some:
  assumes "position P xs = Some i"
  shows "i < length xs \<and> P (xs ! i) \<and> (\<forall>j<i. \<not> P (xs ! j))"
proof -
  have ex: "\<exists>x\<in>set xs. P x" and i: "i = length (takeWhile (\<lambda>x. \<not> P x) xs)"
    using assms by (auto simp: position_def split: if_splits)
  have lt: "i < length xs"
  proof (rule ccontr)
    assume "\<not> i < length xs"
    then have "takeWhile (\<lambda>x. \<not> P x) xs = xs"
      using i length_takeWhile_le [of "\<lambda>x. \<not> P x" xs] by (metis le_antisym not_le takeWhile_eq_take take_all)
    then show False using ex set_takeWhileD by metis
  qed
  moreover have "P (xs ! i)" using nth_length_takeWhile [of "\<lambda>x. \<not> P x" xs] lt i by simp
  moreover have "\<not> P (xs ! j)" if "j < i" for j
    using that i set_takeWhileD [of "xs ! j" "\<lambda>x. \<not> P x" xs] takeWhile_nth [of j "\<lambda>x. \<not> P x" xs]
    by (metis nth_mem)
  ultimately show ?thesis by blast
qed

end
