(* ===== verification/Admission.thy ===== *)
theory Admission
  imports Profile Rust_Std
begin

text \<open>
  Schedulability admission (\<open>verifier/admission.rs\<close>): the ledger of committed processor
  utilisation, the table of attachments and the transaction that updates both. The invariant is
  that the committed figure is the sum of the recorded contributions and stays within the budget;
  the lemmas show it is kept by every operation, that a release returns exactly what the admit
  took, and that a failed commit leaves both structures unchanged.
\<close>

section \<open>The ledger\<close>

record admission_error =
  ae_hook :: u32
  ae_committed :: u64
  ae_requested :: u64
  ae_budget :: u64

record ledger =
  budget_ns_per_s :: u64
  cycle_unit_ns :: u64
  committed_ns_per_s :: u64
  per_attachment :: "u32 \<times> u32 \<rightharpoonup> u64"

definition ledger_new :: "u64 \<Rightarrow> u64 \<Rightarrow> ledger" where
  "ledger_new budget unit_ns = \<lparr>budget_ns_per_s = budget, cycle_unit_ns = unit_ns,
     committed_ns_per_s = 0, per_attachment = Map.empty\<rparr>"

definition contribution :: "ledger \<Rightarrow> u64 \<Rightarrow> u64 \<Rightarrow> u64" where
  "contribution l wcet freq_hz = saturating_mul (saturating_mul wcet (cycle_unit_ns l)) freq_hz"

definition admit :: "ledger \<Rightarrow> u32 \<Rightarrow> u32 \<Rightarrow> u64 \<Rightarrow> u64 \<Rightarrow> admission_error + ledger" where
  "admit l hook prog wcet freq_hz =
     (if per_attachment l (hook, prog) \<noteq> None then Inr l
      else
        let requested = contribution l wcet freq_hz
        in if budget_ns_per_s l < saturating_add (committed_ns_per_s l) requested
           then Inl \<lparr>ae_hook = hook, ae_committed = committed_ns_per_s l, ae_requested = requested,
                     ae_budget = budget_ns_per_s l\<rparr>
           else Inr (l\<lparr>committed_ns_per_s := committed_ns_per_s l + requested,
                       per_attachment := (per_attachment l)((hook, prog) \<mapsto> requested)\<rparr>))"

definition release :: "ledger \<Rightarrow> u32 \<Rightarrow> u32 \<Rightarrow> ledger" where
  "release l hook prog =
     (case per_attachment l (hook, prog) of
        Some c \<Rightarrow> l\<lparr>per_attachment := (per_attachment l)((hook, prog) := None),
                    committed_ns_per_s := saturating_sub (committed_ns_per_s l) c\<rparr>
      | None \<Rightarrow> l)"

definition ledger_contains :: "ledger \<Rightarrow> u32 \<Rightarrow> u32 \<Rightarrow> bool" where
  "ledger_contains l hook prog \<longleftrightarrow> per_attachment l (hook, prog) \<noteq> None"

section \<open>Attachments\<close>

type_synonym attachment_table = "u32 \<rightharpoonup> u32 list"

definition table_contains :: "attachment_table \<Rightarrow> u32 \<Rightarrow> u32 \<Rightarrow> bool" where
  "table_contains t hook prog = (case t hook of Some ps \<Rightarrow> prog \<in> set ps | None \<Rightarrow> False)"

text \<open>\<open>reserve\<close> stands for \<open>Vec::try_reserve\<close>: whether the allocator can grow the vector.\<close>

definition try_insert_with ::
  "attachment_table \<Rightarrow> u32 \<Rightarrow> u32 \<Rightarrow> (u32 list \<Rightarrow> bool) \<Rightarrow> unit + attachment_table" where
  "try_insert_with t hook prog reserve =
     (case t hook of
        Some ps \<Rightarrow> if reserve ps then Inr (t(hook \<mapsto> ps @ [prog])) else Inl ()
      | None \<Rightarrow> if reserve [] then Inr (t(hook \<mapsto> [prog])) else Inl ())"

datatype commit_error = CommitAdmission admission_error | CommitReservation

text \<open>The transaction, with the state it leaves behind on either outcome.\<close>

definition commit_attachment ::
  "(u32 list \<Rightarrow> bool) \<Rightarrow> attachment_table \<Rightarrow> ledger \<Rightarrow> u32 \<Rightarrow> u32 \<Rightarrow> u64 \<Rightarrow> u64
     \<Rightarrow> (commit_error + unit) \<times> attachment_table \<times> ledger" where
  "commit_attachment reserve t l hook prog wcet freq_hz =
     (if table_contains t hook prog then
        (case admit l hook prog wcet freq_hz of
           Inl e \<Rightarrow> (Inl (CommitAdmission e), t, l)
         | Inr l' \<Rightarrow> (Inr (), t, l'))
      else
        (case admit l hook prog wcet freq_hz of
           Inl e \<Rightarrow> (Inl (CommitAdmission e), t, l)
         | Inr l' \<Rightarrow>
             (case try_insert_with t hook prog reserve of
                Inl _ \<Rightarrow> (Inl CommitReservation, t, release l' hook prog)
              | Inr t' \<Rightarrow> (Inr (), t', l'))))"

section \<open>The invariant\<close>

definition total_committed :: "ledger \<Rightarrow> nat" where
  "total_committed l = (\<Sum>k \<in> dom (per_attachment l). unat (the (per_attachment l k)))"

definition ledger_wf :: "ledger \<Rightarrow> bool" where
  "ledger_wf l \<longleftrightarrow> finite (dom (per_attachment l))
     \<and> unat (committed_ns_per_s l) = total_committed l
     \<and> committed_ns_per_s l \<le> budget_ns_per_s l"

lemma ledger_wf_new: "ledger_wf (ledger_new budget unit_ns)"
  by (simp add: ledger_wf_def ledger_new_def total_committed_def)

lemma total_committed_insert:
  assumes "finite (dom m)" "m k = None"
  shows "(\<Sum>j \<in> dom (m(k \<mapsto> v)). unat (the ((m(k \<mapsto> v)) j))) = unat v + (\<Sum>j \<in> dom m. unat (the (m j)))"
proof -
  have "(\<Sum>j \<in> dom m. unat (the ((m(k \<mapsto> v)) j))) = (\<Sum>j \<in> dom m. unat (the (m j)))"
    using assms(2) by (intro sum.cong) auto
  then show ?thesis using assms by (simp add: domIff)
qed

lemma total_committed_remove:
  assumes "finite (dom m)" "m k = Some v"
  shows "(\<Sum>j \<in> dom m. unat (the (m j))) = unat v + (\<Sum>j \<in> dom (m(k := None)). unat (the ((m(k := None)) j)))"
proof -
  have k: "k \<in> dom m" using assms by auto
  have "(\<Sum>j \<in> dom m - {k}. unat (the ((m(k := None)) j))) = (\<Sum>j \<in> dom m - {k}. unat (the (m j)))"
    by (intro sum.cong) auto
  then show ?thesis using assms sum.remove [OF assms(1) k, of "\<lambda>j. unat (the (m j))"] by simp
qed

text \<open>
  Admission keeps the invariant when the sum does not wrap around. A budget below the maximal \<open>u64\<close>
  ensures this, because the test then excludes that the sum saturates; and so does a frequency of zero,
  which is what the kernel passes for the unbounded budget of the cloud profile.
\<close>

definition sum_fits :: "ledger \<Rightarrow> u64 \<Rightarrow> u64 \<Rightarrow> bool" where
  "sum_fits l wcet freq_hz \<longleftrightarrow>
     budget_ns_per_s l < u64_MAX \<or> unat (committed_ns_per_s l) + unat (contribution l wcet freq_hz) < 2 ^ 64"

lemma sum_fits_zero: "sum_fits l wcet 0"
  using unsigned_less [where 'a = nat, of "committed_ns_per_s l"] by (simp add: sum_fits_def contribution_def saturating_mul_def)

lemma admit_wf:
  assumes wf: "ledger_wf l" and budget: "sum_fits l wcet freq_hz"
    and ok: "admit l hook prog wcet freq_hz = Inr l'"
  shows "ledger_wf l'"
proof (cases "per_attachment l (hook, prog)")
  case None
  let ?r = "contribution l wcet freq_hz"
  have le: "saturating_add (committed_ns_per_s l) ?r \<le> budget_ns_per_s l"
    and l': "l' = l\<lparr>committed_ns_per_s := committed_ns_per_s l + ?r,
                 per_attachment := (per_attachment l)((hook, prog) \<mapsto> ?r)\<rparr>"
    using ok None by (auto simp: admit_def Let_def split: if_splits)
  have fits: "unat (committed_ns_per_s l) + unat ?r < 18446744073709551616"
    using le budget by (auto simp: sum_fits_def saturating_add_def not_le [symmetric] split: if_splits)
  then have "saturating_add (committed_ns_per_s l) ?r = committed_ns_per_s l + ?r"
    "unat (committed_ns_per_s l + ?r) = unat (committed_ns_per_s l) + unat ?r"
    by (simp_all add: saturating_add_def unat_plus_if')
  then show ?thesis
    using wf le None total_committed_insert [of "per_attachment l" "(hook, prog)" ?r]
    unfolding l' by (simp add: ledger_wf_def total_committed_def)
qed (use wf ok in \<open>simp add: admit_def\<close>)

lemma release_wf:
  assumes "ledger_wf l"
  shows "ledger_wf (release l hook prog)"
proof (cases "per_attachment l (hook, prog)")
  case (Some c)
  have tot: "total_committed l = unat c + (\<Sum>j \<in> dom ((per_attachment l)((hook, prog) := None)).
      unat (the (((per_attachment l)((hook, prog) := None)) j)))"
    using assms Some unfolding total_committed_def by (intro total_committed_remove) (auto simp: ledger_wf_def)
  then have "unat c \<le> unat (committed_ns_per_s l)" using assms by (simp add: ledger_wf_def)
  then have "saturating_sub (committed_ns_per_s l) c = committed_ns_per_s l - c"
    "unat (committed_ns_per_s l - c) = unat (committed_ns_per_s l) - unat c"
    by (simp_all add: saturating_sub_def word_less_nat_alt unat_sub_if')
  moreover from this have "committed_ns_per_s l - c \<le> budget_ns_per_s l"
    using assms by (auto simp: ledger_wf_def word_le_nat_alt)
  ultimately show ?thesis
    using assms Some tot by (simp add: release_def ledger_wf_def total_committed_def)
qed (use assms in \<open>simp add: release_def\<close>)

lemma admit_release:
  assumes wf: "ledger_wf l" and budget: "sum_fits l wcet freq_hz"
    and new: "per_attachment l (hook, prog) = None"
    and ok: "admit l hook prog wcet freq_hz = Inr l'"
  shows "release l' hook prog = l"
proof -
  let ?r = "contribution l wcet freq_hz"
  have le: "saturating_add (committed_ns_per_s l) ?r \<le> budget_ns_per_s l"
    and l': "l' = l\<lparr>committed_ns_per_s := committed_ns_per_s l + ?r,
                 per_attachment := (per_attachment l)((hook, prog) \<mapsto> ?r)\<rparr>"
    using ok new by (auto simp: admit_def Let_def split: if_splits)
  have fits: "unat (committed_ns_per_s l) + unat ?r < 18446744073709551616"
    using le budget by (auto simp: sum_fits_def saturating_add_def not_le [symmetric] split: if_splits)
  then have "\<not> committed_ns_per_s l + ?r < ?r"
    by (simp add: word_less_nat_alt unat_plus_if')
  moreover have "(per_attachment l)((hook, prog) := None) = per_attachment l"
    using new by auto
  ultimately show ?thesis
    unfolding l' release_def by (simp add: saturating_sub_def)
qed

lemma commit_attachment_failure:
  assumes "ledger_wf l" "sum_fits l wcet freq_hz"
    and sync: "table_contains t hook prog \<longleftrightarrow> ledger_contains l hook prog"
    and "commit_attachment reserve t l hook prog wcet freq_hz = (Inl e, t', l')"
  shows "t' = t" "l' = l"
proof -
  consider "t' = t" "l' = l" | l1 where "\<not> table_contains t hook prog" "t' = t"
    "admit l hook prog wcet freq_hz = Inr l1" "l' = release l1 hook prog"
    using assms(4) by (auto simp: commit_attachment_def split: if_splits sum.splits)
  then show "t' = t" "l' = l"
    using admit_release [OF assms(1,2)] sync by (cases; auto simp: ledger_contains_def)+
qed

text \<open>Table and ledger agree on which programs are attached where.\<close>

definition in_sync :: "attachment_table \<Rightarrow> ledger \<Rightarrow> bool" where
  "in_sync t l \<longleftrightarrow> (\<forall>hook prog. table_contains t hook prog \<longleftrightarrow> ledger_contains l hook prog)"

lemma table_contains_insert:
  assumes "try_insert_with t hook prog reserve = Inr t'"
  shows "table_contains t' h p \<longleftrightarrow> table_contains t h p \<or> (h = hook \<and> p = prog)"
  using assms by (auto simp: try_insert_with_def table_contains_def split: option.splits if_splits)

lemma admit_contains:
  "admit l hook prog wcet freq_hz = Inr l' \<Longrightarrow>
     ledger_contains l' h p \<longleftrightarrow> ledger_contains l h p \<or> (h = hook \<and> p = prog)"
  by (auto simp: admit_def ledger_contains_def Let_def split: if_splits)

lemma commit_attachment_sync:
  assumes wf: "ledger_wf l" "sum_fits l wcet freq_hz" and sync: "in_sync t l"
    and r: "commit_attachment reserve t l hook prog wcet freq_hz = (res, t', l')"
  shows "in_sync t' l'" "ledger_wf l'" "res = Inr () \<Longrightarrow> table_contains t' hook prog"
proof -
  have "in_sync t' l' \<and> ledger_wf l' \<and> (res = Inr () \<longrightarrow> table_contains t' hook prog)"
  proof (cases res)
    case (Inl e)
    then show ?thesis
      using commit_attachment_failure [OF wf, of t hook prog reserve e t' l'] sync r wf
      by (auto simp: in_sync_def)
  next
    case (Inr u)
    then show ?thesis
      using r sync admit_wf [OF wf, of hook prog]
      by (auto simp: commit_attachment_def in_sync_def admit_contains table_contains_insert
          split: if_splits sum.splits)
  qed
  then show "in_sync t' l'" "ledger_wf l'" "res = Inr () \<Longrightarrow> table_contains t' hook prog" by auto
qed

end
