(* ===== verification/Audit_Ring.thy ===== *)
theory Audit_Ring
  imports Rust_Std
begin

text \<open>
  The audit trail of the actuation monitor (\<open>actuation/audit.rs\<close>): the record types, and the
  overwrite-oldest ring \<open>AuditRing<N>\<close> with its sequence-stamped slots. The ring is shown to refine
  the log of all records ever emitted: a snapshot is the newest part of that log, and
  \<open>dropped_since\<close> counts what has been overwritten.
\<close>

section \<open>Record types\<close>

datatype actuation_kind = PwmDuty | GpioLevel

record channel_id =
  ch_kind :: actuation_kind
  ch_chip :: u8
  ch_channel :: u8

datatype authority = Learned | Mission | Operator | Safety

text \<open>The derived \<open>Ord\<close> of \<open>Authority\<close> is the order of the variants.\<close>

primrec authority_rank :: "authority \<Rightarrow> nat" where
  "authority_rank Learned = 0"
| "authority_rank Mission = 1"
| "authority_rank Operator = 2"
| "authority_rank Safety = 3"

lemma authority_rank_inject: "authority_rank a = authority_rank b \<longleftrightarrow> a = b"
  by (cases a; cases b) simp_all

instantiation authority :: linorder
begin

definition less_eq_authority :: "authority \<Rightarrow> authority \<Rightarrow> bool" where
  "less_eq_authority a b \<longleftrightarrow> authority_rank a \<le> authority_rank b"

definition less_authority :: "authority \<Rightarrow> authority \<Rightarrow> bool" where
  "less_authority a b \<longleftrightarrow> authority_rank a < authority_rank b"

instance
  by standard (auto simp: less_eq_authority_def less_authority_def authority_rank_inject)

end

datatype audit_source = SrcOperator | SrcWatchdog | SrcGpioHook | SrcLearnedBehavior | SrcMission | SrcSyscallPwm

datatype reject_reason = UnknownChannel

datatype reason_code = ReasonNone | ReasonUnknownChannel | ReasonGovernance

primrec reason_from_reject :: "reject_reason \<Rightarrow> reason_code" where
  "reason_from_reject UnknownChannel = ReasonUnknownChannel"

datatype decision_tag = TagAllow | TagClamp | TagSafe | TagReject | TagEstopTrigger | TagEstopRelease
  | TagReleaseDenied

definition EMPTY_CHANNEL :: channel_id where
  "EMPTY_CHANNEL = \<lparr>ch_kind = PwmDuty, ch_chip = 0, ch_channel = 0\<rparr>"

record audit_record =
  ar_seq :: u64
  ar_t_ns :: u64
  ar_source :: audit_source
  ar_channel :: channel_id
  ar_authority :: authority
  ar_req_value :: u32
  ar_decision :: decision_tag
  ar_reason :: reason_code

definition AUDIT_EMPTY :: audit_record where
  "AUDIT_EMPTY = \<lparr>ar_seq = 0, ar_t_ns = 0, ar_source = SrcLearnedBehavior, ar_channel = EMPTY_CHANNEL,
     ar_authority = Learned, ar_req_value = 0, ar_decision = TagAllow, ar_reason = ReasonNone\<rparr>"

section \<open>The ring\<close>

text \<open>
  The ring takes \<open>&mut self\<close> to write, so the atomics are plain cells here. The const parameter \<open>N\<close>
  is the length of the buffer; \<open>seq as usize\<close> is exact on the 64-bit targets.
\<close>

record audit_slot =
  slot_seq :: u64
  slot_body :: audit_record

record audit_ring =
  ring_buf :: "audit_slot list"
  ring_head :: u64

definition audit_slot_new :: audit_slot where
  "audit_slot_new = \<lparr>slot_seq = u64_MAX, slot_body = AUDIT_EMPTY\<rparr>"

definition audit_ring_new :: "nat \<Rightarrow> audit_ring" where
  "audit_ring_new N = \<lparr>ring_buf = replicate N audit_slot_new, ring_head = 0\<rparr>"

definition emit :: "audit_ring \<Rightarrow> audit_record \<Rightarrow> audit_ring" where
  "emit r record0 =
     (let N = length (ring_buf r);
          sq = ring_head r;
          rec = record0\<lparr>ar_seq := sq\<rparr>;
          buf' = (if N > 0 then (ring_buf r)[unat sq mod N := \<lparr>slot_seq = sq, slot_body = rec\<rparr>]
                  else ring_buf r)
      in r\<lparr>ring_buf := buf', ring_head := sq + 1\<rparr>)"

text \<open>The loop body of \<open>snapshot\<close> over the sequence numbers of the live window, with its early exit.\<close>

fun snapshot_loop :: "audit_ring \<Rightarrow> nat list \<Rightarrow> audit_record list \<Rightarrow> nat \<Rightarrow> audit_record list \<times> nat" where
  "snapshot_loop r [] out copied = (out, copied)"
| "snapshot_loop r (sq # sqs) out copied =
     (if copied = length out then (out, copied)
      else let slot = ring_buf r ! (sq mod length (ring_buf r)) in
        if slot_seq slot \<noteq> of_nat sq then snapshot_loop r sqs out copied
        else if ar_seq (slot_body slot) = of_nat sq
          then snapshot_loop r sqs (out[copied := slot_body slot]) (copied + 1)
          else snapshot_loop r sqs out copied)"

definition ring_snapshot :: "audit_ring \<Rightarrow> audit_record list \<Rightarrow> audit_record list \<times> nat" where
  "ring_snapshot r out =
     (if length (ring_buf r) = 0 \<or> out = [] then (out, 0)
      else let head = ring_head r; start = saturating_sub head (of_nat (length (ring_buf r)))
           in snapshot_loop r [unat start..<unat head] out 0)"

definition dropped_since :: "audit_ring \<Rightarrow> u64 \<Rightarrow> u64" where
  "dropped_since r last_seq =
     saturating_sub (saturating_sub (ring_head r) (of_nat (length (ring_buf r)))) last_seq"

section \<open>The log it refines\<close>

text \<open>
  The specification keeps every record, stamped with its position. \<open>ring_of\<close> is the state of the
  code after emitting a log, and \<open>live_log\<close> the part of the log that a ring of \<open>N\<close> slots retains.
\<close>

definition stamp :: "audit_record list \<Rightarrow> audit_record list" where
  "stamp log = map (\<lambda>(i, rec). rec\<lparr>ar_seq := of_nat i\<rparr>) (enumerate 0 log)"

definition live_log :: "nat \<Rightarrow> audit_record list \<Rightarrow> audit_record list" where
  "live_log N log = drop (length log - N) (stamp log)"

definition ring_of :: "nat \<Rightarrow> audit_record list \<Rightarrow> audit_ring" where
  "ring_of N log = foldl emit (audit_ring_new N) log"

lemma length_stamp [simp]: "length (stamp log) = length log"
  by (simp add: stamp_def)

lemma nth_stamp: "i < length log \<Longrightarrow> stamp log ! i = (log ! i)\<lparr>ar_seq := of_nat i\<rparr>"
  by (simp add: stamp_def nth_enumerate_eq)

text \<open>The refinement relation: each of the newest \<open>N\<close> sequence numbers is in its slot.\<close>

definition ring_refines :: "audit_ring \<Rightarrow> nat \<Rightarrow> audit_record list \<Rightarrow> bool" where
  "ring_refines r N log \<longleftrightarrow> length (ring_buf r) = N \<and> ring_head r = of_nat (length log) \<and>
     (\<forall>i. length log - N \<le> i \<and> i < length log \<longrightarrow>
        ring_buf r ! (i mod N) = \<lparr>slot_seq = of_nat i, slot_body = stamp log ! i\<rparr>)"

lemma ring_refines_new: "ring_refines (audit_ring_new N) N []"
  by (simp add: ring_refines_def audit_ring_new_def)

lemma ring_refines_emit:
  assumes R: "ring_refines r N log" and len: "length log < 2 ^ 64"
  shows "ring_refines (emit r rec) N (log @ [rec])"
proof -
  have head: "unat (ring_head r) = length log"
    using R len by (simp add: ring_refines_def unat_of_nat)
  have new: "stamp (log @ [rec]) ! i = (if i < length log then stamp log ! i else rec\<lparr>ar_seq := of_nat i\<rparr>)"
    if "i < Suc (length log)" for i
    using that by (auto simp: nth_stamp nth_append)
  have "ring_buf (emit r rec) ! (i mod N) = \<lparr>slot_seq = of_nat i, slot_body = stamp (log @ [rec]) ! i\<rparr>"
    if i: "Suc (length log) - N \<le> i" "i < Suc (length log)" for i
  proof (cases "i = length log")
    case True
    then show ?thesis using R i head new [of i]
      by (simp add: ring_refines_def emit_def Let_def)
  next
    case False
    then have "i < length log" "length log - N \<le> i" and "length log - i < N" using i by auto
    then have "i mod N \<noteq> length log mod N" using mod_window_inj [of i N "length log"] by blast
    with \<open>i < length log\<close> \<open>length log - N \<le> i\<close> show ?thesis
      using R i head new [of i] by (simp add: ring_refines_def emit_def Let_def)
  qed
  moreover have "length (ring_buf (emit r rec)) = N" "ring_head (emit r rec) = of_nat (length (log @ [rec]))"
    using R by (simp_all add: ring_refines_def emit_def Let_def add.commute)
  ultimately show ?thesis by (simp add: ring_refines_def)
qed

lemma ring_refines_emits:
  assumes "ring_refines r N log" "length log + length newer \<le> 2 ^ 64"
  shows "ring_refines (foldl emit r newer) N (log @ newer)"
  using assms
proof (induction newer arbitrary: r log)
  case (Cons rec newer)
  have "ring_refines (emit r rec) N (log @ [rec])" using Cons.prems by (intro ring_refines_emit) auto
  from Cons.IH [OF this] Cons.prems show ?case by simp
qed simp

lemma ring_of_refines: "length log \<le> 2 ^ 64 \<Longrightarrow> ring_refines (ring_of N log) N log"
  unfolding ring_of_def using ring_refines_emits [OF ring_refines_new, of log N] by simp

section \<open>Snapshots\<close>

lemma snapshot_loop_live:
  assumes R: "ring_refines r N log" and len: "length log < 2 ^ 64"
    and "length log - N \<le> a" "a \<le> length log" "copied \<le> length out"
  shows "snapshot_loop r [a..<length log] out copied =
     (take copied out @ take (length out - copied) (drop a (stamp log))
        @ drop (copied + length (drop a (stamp log))) out,
      min (length out) (copied + length (drop a (stamp log))))"
  using assms(3-)
proof (induction "length log - a" arbitrary: a out copied)
  case 0
  then show ?case by simp
next
  case (Suc k)
  then have a: "a < length log" and upt: "[a..<length log] = a # [Suc a..<length log]"
    by (simp_all add: upt_conv_Cons)
  have slot: "ring_buf r ! (a mod length (ring_buf r)) = \<lparr>slot_seq = of_nat a, slot_body = stamp log ! a\<rparr>"
    using R Suc.prems(1) a by (simp add: ring_refines_def)
  have sq: "ar_seq (stamp log ! a) = of_nat a" using a by (simp add: nth_stamp)
  have dr: "drop a (stamp log) = stamp log ! a # drop (Suc a) (stamp log)"
    using a by (simp add: Cons_nth_drop_Suc)
  show ?case
  proof (cases "copied = length out")
    case True
    then show ?thesis by (simp add: upt)
  next
    case False
    then have c: "copied < length out" using Suc.prems by simp
    have "snapshot_loop r [a..<length log] out copied
        = snapshot_loop r [Suc a..<length log] (out[copied := stamp log ! a]) (copied + 1)"
      using False by (simp add: upt slot sq Let_def)
    also have "\<dots> = (take (copied + 1) (out[copied := stamp log ! a])
          @ take (length out - (copied + 1)) (drop (Suc a) (stamp log))
          @ drop (copied + 1 + length (drop (Suc a) (stamp log))) (out[copied := stamp log ! a]),
        min (length out) (copied + 1 + length (drop (Suc a) (stamp log))))"
      using Suc c by (subst Suc.hyps(1)) auto
    also have "take (copied + 1) (out[copied := stamp log ! a]) = take copied out @ [stamp log ! a]"
      using c by (simp add: take_Suc_conv_app_nth)
    finally show ?thesis
      using c by (simp add: dr take_Cons' Suc_diff_Suc)
  qed
qed

text \<open>
  A snapshot copies the oldest retained records that fit, in order, and leaves the rest of the
  output buffer alone.
\<close>

lemma snapshot_live_log:
  assumes "length log < 2 ^ 64" "N < 2 ^ 64" "0 < N"
  shows "ring_snapshot (ring_of N log) out =
     (take (length out) (live_log N log) @ drop (length (live_log N log)) out,
      min (length out) (length (live_log N log)))"
proof (cases "out = []")
  case False
  have R: "ring_refines (ring_of N log) N log" using assms(1) by (intro ring_of_refines) simp
  then have N: "length (ring_buf (ring_of N log)) = N" and h: "unat (ring_head (ring_of N log)) = length log"
    using assms(1) by (simp_all add: ring_refines_def unat_of_nat)
  have st: "unat (saturating_sub (ring_head (ring_of N log)) (of_nat N)) = length log - N"
    using h assms(2) by (auto simp: saturating_sub_def word_less_nat_alt unat_of_nat unat_sub_if' )
  show ?thesis
    using False assms(3) snapshot_loop_live [OF R assms(1), of "length log - N" 0 out]
    by (simp add: ring_snapshot_def N h st Let_def live_log_def)
qed (simp add: ring_snapshot_def)

text \<open>The number of records lost to a reader that has seen everything below \<open>last_seq\<close>.\<close>

lemma dropped_since_count:
  assumes "length log < 2 ^ 64" "N < 2 ^ 64"
  shows "unat (dropped_since (ring_of N log) last_seq) = length log - N - unat last_seq"
proof -
  have R: "ring_refines (ring_of N log) N log" using assms(1) by (intro ring_of_refines) simp
  then have N: "length (ring_buf (ring_of N log)) = N" and h: "unat (ring_head (ring_of N log)) = length log"
    using assms(1) by (simp_all add: ring_refines_def unat_of_nat)
  have st: "unat (saturating_sub (ring_head (ring_of N log)) (of_nat N)) = length log - N"
    using h assms(2) by (auto simp: saturating_sub_def word_less_nat_alt unat_of_nat unat_sub_if')
  show ?thesis unfolding dropped_since_def N
    using st by (auto simp: saturating_sub_def [of "saturating_sub _ _"] word_less_nat_alt unat_sub_if')
qed

end
