(* ===== verification/Actuation.thy ===== *)
theory Actuation
  imports Rust_Std Audit_Ring Profile
begin

text \<open>
  The actuation reference monitor (\<open>actuation/mod.rs\<close>): safety envelopes, the read-only envelope
  map, the per-channel state, the decision procedures for single channels and for motor pairs, and
  the emergency-stop latch. A panic of the code (\<open>expect\<close>, \<open>clamp\<close> with crossed bounds) is
  \<open>None\<close>. Signed motor values are \<open>int\<close>s with the casts written out.
\<close>

named_theorems monitor_defs \<open>definitions of the small monitor operations\<close>

section \<open>Envelopes\<close>

record actuation_request =
  req_ch :: channel_id
  req_value :: u32

primrec envelope_code :: "authority \<Rightarrow> u32" where
  "envelope_code Learned = 0"
| "envelope_code Mission = 1"
| "envelope_code Operator = 2"
| "envelope_code Safety = 3"

definition from_envelope_code :: "u32 \<Rightarrow> authority" where
  "from_envelope_code code = (if code = 1 then Mission else if code = 2 then Operator
     else if code = 3 then Safety else Learned)"

record envelope =
  env_min :: u32
  env_max :: u32
  env_max_step :: u32
  env_window_ns :: u64

primrec envelope_from_profile :: "profile \<Rightarrow> actuation_kind \<Rightarrow> envelope" where
  "envelope_from_profile P PwmDuty = \<lparr>env_min = 0, env_max = ACT_DUTY_MAX P,
     env_max_step = ACT_DUTY_MAX_STEP P, env_window_ns = ACT_RATE_WINDOW_NS P\<rparr>"
| "envelope_from_profile P GpioLevel = \<lparr>env_min = 0, env_max = 1, env_max_step = 1, env_window_ns = 0\<rparr>"

definition ENVELOPE_VERSION :: u32 where "ENVELOPE_VERSION = 0"

record envelope_entry =
  ee_min :: u32
  ee_max :: u32
  ee_max_step :: u32
  ee_reserved :: u32
  ee_window_ns :: u64

definition ENVELOPE_ZERO :: envelope_entry where
  "ENVELOPE_ZERO = \<lparr>ee_min = 0, ee_max = 0, ee_max_step = 0, ee_reserved = 0, ee_window_ns = 0\<rparr>"

definition from_envelope :: "envelope \<Rightarrow> envelope_entry" where
  "from_envelope e = \<lparr>ee_min = env_min e, ee_max = env_max e, ee_max_step = env_max_step e,
     ee_reserved = 0, ee_window_ns = env_window_ns e\<rparr>"

definition with_required_authority :: "envelope_entry \<Rightarrow> authority \<Rightarrow> envelope_entry" where
  "with_required_authority e a = e\<lparr>ee_reserved := envelope_code a\<rparr>"

definition required_authority :: "envelope_entry \<Rightarrow> authority" where
  "required_authority e = from_envelope_code (ee_reserved e)"

definition to_envelope :: "envelope_entry \<Rightarrow> envelope" where
  "to_envelope e = \<lparr>env_min = ee_min e, env_max = ee_max e, env_max_step = ee_max_step e,
     env_window_ns = ee_window_ns e\<rparr>"

section \<open>Decisions\<close>

datatype decision = Allow u32 | Clamp u32 | Safe u32 | Reject reject_reason

primrec decision_tag_of :: "decision \<Rightarrow> decision_tag" where
  "decision_tag_of (Allow _) = TagAllow"
| "decision_tag_of (Clamp _) = TagClamp"
| "decision_tag_of (Safe _) = TagSafe"
| "decision_tag_of (Reject _) = TagReject"

primrec decision_reason :: "decision \<Rightarrow> reason_code" where
  "decision_reason (Reject reason) = reason_from_reject reason"
| "decision_reason (Safe _) = ReasonGovernance"
| "decision_reason (Allow _) = ReasonNone"
| "decision_reason (Clamp _) = ReasonNone"

primrec decision_apply :: "decision \<Rightarrow> u32 \<times> i64" where
  "decision_apply (Allow v) = (v, 0)"
| "decision_apply (Clamp v) = (v, 0)"
| "decision_apply (Safe v) = (v, - 1)"
| "decision_apply (Reject _) = (0, - 1)"

datatype motor_pair_decision = PairAllow int int | PairClamp int int | PairSafe int int

primrec pair_apply :: "motor_pair_decision \<Rightarrow> int \<times> int \<times> i64" where
  "pair_apply (PairAllow l r) = (l, r, 0)"
| "pair_apply (PairClamp l r) = (l, r, 0)"
| "pair_apply (PairSafe l r) = (l, r, - 1)"

record motor_pair_state =
  mp_left :: int
  mp_right :: int
  mp_last_update_ns :: u64

definition MOTOR_STOPPED :: motor_pair_state where
  "MOTOR_STOPPED = \<lparr>mp_left = 0, mp_right = 0, mp_last_update_ns = 0\<rparr>"

section \<open>Channels\<close>

definition GPIO_PINS :: nat where [simp]: "GPIO_PINS = 28"
definition PWM_CHIPS :: nat where [simp]: "PWM_CHIPS = 2"
definition PWM_CHANNELS :: nat where [simp]: "PWM_CHANNELS = 2"
definition MAX_KNOWN_CHANNELS :: nat where [simp]: "MAX_KNOWN_CHANNELS = PWM_CHIPS * PWM_CHANNELS + GPIO_PINS"
definition AUDIT_CAPACITY :: nat where [simp]: "AUDIT_CAPACITY = 128"

text \<open>
  \<open>SafeDriveSet\<close> is a fixed array with a length; the list holds \<open>entries[..len]\<close>, and a push beyond
  the capacity is dropped as in the code.
\<close>

record safe_drive =
  sd_channel :: channel_id
  sd_safe_value :: u32

type_synonym safe_drive_set = "safe_drive list"

definition drive_push :: "safe_drive_set \<Rightarrow> channel_id \<Rightarrow> u32 \<Rightarrow> safe_drive_set" where
  "drive_push s ch v = (if length s < MAX_KNOWN_CHANNELS then s @ [\<lparr>sd_channel = ch, sd_safe_value = v\<rparr>] else s)"

definition drive_contains :: "safe_drive_set \<Rightarrow> channel_id \<Rightarrow> u32 \<Rightarrow> bool" where
  "drive_contains s ch v \<longleftrightarrow> list_ex (\<lambda>e. sd_channel e = ch \<and> sd_safe_value e = v) s"

record channel_state =
  cs_last_output :: u32
  cs_last_update_ns :: u64
  cs_safe_hold :: bool

definition CHANNEL_DEFAULT :: channel_state where
  "CHANNEL_DEFAULT = \<lparr>cs_last_output = 0, cs_last_update_ns = 0, cs_safe_hold = False\<rparr>"

definition envelope_channel_index :: "channel_id \<Rightarrow> nat option" where
  "envelope_channel_index ch =
     (case ch_kind ch of
        PwmDuty \<Rightarrow> if unat (ch_chip ch) < PWM_CHIPS \<and> 1 \<le> unat (ch_channel ch) \<and> unat (ch_channel ch) \<le> PWM_CHANNELS
                   then Some (unat (ch_chip ch) * PWM_CHANNELS + (unat (ch_channel ch) - 1)) else None
      | GpioLevel \<Rightarrow> if ch_chip ch = 0 \<and> unat (ch_channel ch) < GPIO_PINS
                   then Some (PWM_CHIPS * PWM_CHANNELS + unat (ch_channel ch)) else None)"

text \<open>\<open>EnvelopeMapLayout\<close> and \<open>EnvelopeCache\<close> have the same two fields.\<close>

record envelope_cache =
  ec_version :: u32
  ec_entries :: "envelope_entry list"

definition cache_from_profile :: "profile \<Rightarrow> envelope_cache" where
  "cache_from_profile P =
     (let pwm = from_envelope (envelope_from_profile P PwmDuty);
          gpio = from_envelope (envelope_from_profile P GpioLevel)
      in \<lparr>ec_version = ENVELOPE_VERSION,
          ec_entries = replicate (PWM_CHIPS * PWM_CHANNELS) pwm
            @ replicate (MAX_KNOWN_CHANNELS - PWM_CHIPS * PWM_CHANNELS) gpio\<rparr>)"

definition cache_get :: "envelope_cache \<Rightarrow> channel_id \<Rightarrow> envelope_entry option" where
  "cache_get c ch = (case envelope_channel_index ch of None \<Rightarrow> None
     | Some i \<Rightarrow> if i < length (ec_entries c) then Some (ec_entries c ! i) else None)"

text \<open>\<open>EnvelopeMap::set_required_authority\<close>: only the authority of an entry can change.\<close>

definition set_required_authority :: "envelope_cache \<Rightarrow> channel_id \<Rightarrow> authority \<Rightarrow> envelope_cache \<times> bool" where
  "set_required_authority c ch a = (case envelope_channel_index ch of None \<Rightarrow> (c, False)
     | Some i \<Rightarrow> if i < length (ec_entries c)
         then (c\<lparr>ec_entries := (ec_entries c)[i := with_required_authority (ec_entries c ! i) a]\<rparr>, True)
         else (c, False))"

section \<open>The monitor\<close>

record monitor =
  pwm :: "channel_state list list"
  gpio :: "channel_state list"
  motor_pair :: motor_pair_state
  known_pwm :: "bool list list"
  pwm_safe :: "u32 list list"
  known_gpio :: "bool list"
  gpio_safe :: "u32 list"
  mon_envelope_cache :: envelope_cache
  latched :: bool
  latch_epoch :: u64
  audit :: audit_ring

definition monitor_new :: "profile \<Rightarrow> monitor" where
  "monitor_new P = \<lparr>pwm = replicate 2 (replicate 2 CHANNEL_DEFAULT), gpio = replicate GPIO_PINS CHANNEL_DEFAULT,
     motor_pair = MOTOR_STOPPED,
     known_pwm = replicate PWM_CHIPS (replicate PWM_CHANNELS False),
     pwm_safe = replicate PWM_CHIPS (replicate PWM_CHANNELS 0),
     known_gpio = replicate GPIO_PINS False, gpio_safe = replicate GPIO_PINS 0,
     mon_envelope_cache = cache_from_profile P, latched = False, latch_epoch = 0,
     audit = audit_ring_new AUDIT_CAPACITY\<rparr>"

definition slot_index :: "channel_id \<Rightarrow> (bool \<times> nat \<times> nat) option" where
  "slot_index ch =
     (case ch_kind ch of
        PwmDuty \<Rightarrow> if unat (ch_chip ch) < 2 \<and> 1 \<le> unat (ch_channel ch) \<and> unat (ch_channel ch) \<le> 2
                   then Some (True, unat (ch_chip ch), unat (ch_channel ch) - 1) else None
      | GpioLevel \<Rightarrow> if ch_chip ch = 0 \<and> unat (ch_channel ch) < GPIO_PINS
                   then Some (False, unat (ch_channel ch), 0) else None)"

definition mon_envelope_entry :: "monitor \<Rightarrow> channel_id \<Rightarrow> envelope_entry option" where
  "mon_envelope_entry m ch = (if slot_index ch \<noteq> None then cache_get (mon_envelope_cache m) ch else None)"

definition init_envelope_cache :: "monitor \<Rightarrow> envelope_cache \<Rightarrow> monitor" where
  "init_envelope_cache m layout = m\<lparr>mon_envelope_cache := layout\<rparr>"

definition cached_envelope :: "monitor \<Rightarrow> channel_id \<Rightarrow> envelope option" where
  "cached_envelope m ch =
     (if slot_index ch \<noteq> None then map_option to_envelope (cache_get (mon_envelope_cache m) ch) else None)"

text \<open>Reading and writing through \<open>slot_mut\<close>.\<close>

definition get_slot :: "monitor \<Rightarrow> channel_id \<Rightarrow> channel_state option" where
  "get_slot m ch = (case slot_index ch of None \<Rightarrow> None
     | Some (is_pwm, i, j) \<Rightarrow> Some (if is_pwm then pwm m ! i ! j else gpio m ! i))"

definition set_slot :: "monitor \<Rightarrow> channel_id \<Rightarrow> channel_state \<Rightarrow> monitor" where
  "set_slot m ch st = (case slot_index ch of None \<Rightarrow> m
     | Some (is_pwm, i, j) \<Rightarrow> if is_pwm then m\<lparr>pwm := (pwm m)[i := (pwm m ! i)[j := st]]\<rparr>
         else m\<lparr>gpio := (gpio m)[i := st]\<rparr>)"

definition snapshot_channel_state :: "monitor \<Rightarrow> channel_id \<Rightarrow> channel_state option" where
  [monitor_defs]: "snapshot_channel_state m ch = get_slot m ch"

definition restore_channel_state :: "monitor \<Rightarrow> channel_id \<Rightarrow> channel_state \<Rightarrow> monitor \<times> bool" where
  "restore_channel_state m ch st = (if slot_index ch = None then (m, False) else (set_slot m ch st, True))"

definition restore_motor_pair_state :: "monitor \<Rightarrow> motor_pair_state \<Rightarrow> monitor" where
  [monitor_defs]: "restore_motor_pair_state m st = m\<lparr>motor_pair := st\<rparr>"

definition audit_decision ::
  "monitor \<Rightarrow> actuation_request \<Rightarrow> authority \<Rightarrow> audit_source \<Rightarrow> u64 \<Rightarrow> decision \<Rightarrow> monitor" where
  "audit_decision m req a src now d =
     m\<lparr>audit := emit (audit m) \<lparr>ar_seq = 0, ar_t_ns = now, ar_source = src, ar_channel = req_ch req,
        ar_authority = a, ar_req_value = req_value req, ar_decision = decision_tag_of d,
        ar_reason = decision_reason d\<rparr>\<rparr>"

definition register_channel :: "monitor \<Rightarrow> channel_id \<Rightarrow> u32 \<Rightarrow> monitor" where
  "register_channel m ch v = (case slot_index ch of None \<Rightarrow> m
     | Some (is_pwm, i, j) \<Rightarrow>
        if is_pwm then m\<lparr>known_pwm := (known_pwm m)[i := (known_pwm m ! i)[j := True]],
                         pwm_safe := (pwm_safe m)[i := (pwm_safe m ! i)[j := v]]\<rparr>
        else m\<lparr>known_gpio := (known_gpio m)[i := True], gpio_safe := (gpio_safe m)[i := v]\<rparr>)"

definition registered_safe_value :: "monitor \<Rightarrow> channel_id \<Rightarrow> u32 \<Rightarrow> u32" where
  "registered_safe_value m ch fallback = (case slot_index ch of None \<Rightarrow> fallback
     | Some (is_pwm, i, j) \<Rightarrow>
        if is_pwm \<and> known_pwm m ! i ! j then pwm_safe m ! i ! j
        else if \<not> is_pwm \<and> known_gpio m ! i then gpio_safe m ! i
        else fallback)"

text \<open>The three \<open>Safe\<close> returns of \<open>decide\<close> write the slot and the audit record in the same way.\<close>

definition safe_return ::
  "monitor \<Rightarrow> actuation_request \<Rightarrow> authority \<Rightarrow> audit_source \<Rightarrow> u64 \<Rightarrow> u32 \<Rightarrow> decision \<times> monitor" where
  "safe_return m req a src now v =
     (let m1 = (case get_slot m (req_ch req) of None \<Rightarrow> m
          | Some st \<Rightarrow> set_slot m (req_ch req) (st\<lparr>cs_last_output := v, cs_last_update_ns := now\<rparr>))
      in (Safe v, audit_decision m1 req a src now (Safe v)))"

definition slew_limit :: "envelope \<Rightarrow> channel_state \<Rightarrow> u64 \<Rightarrow> u32 \<Rightarrow> u32 option" where
  "slew_limit e st now v =
     (if env_window_ns e > 0 \<and> saturating_sub now (cs_last_update_ns st) < env_window_ns e
      then clamp v (max (saturating_sub (cs_last_output st) (env_max_step e)) (env_min e))
             (min (saturating_add (cs_last_output st) (env_max_step e)) (env_max e))
      else Some v)"

definition decide ::
  "monitor \<Rightarrow> actuation_request \<Rightarrow> authority \<Rightarrow> audit_source \<Rightarrow> u64 \<Rightarrow> (decision \<times> monitor) option" where
  "decide m req a src now =
     (case mon_envelope_entry m (req_ch req) of
        None \<Rightarrow> Some (Reject UnknownChannel, audit_decision m req a src now (Reject UnknownChannel))
      | Some entry \<Rightarrow>
          let e = to_envelope entry;
              m1 = register_channel m (req_ch req) (env_min e);
              safe = registered_safe_value m1 (req_ch req) (env_min e)
          in if a < required_authority entry then Some (safe_return m1 req a src now safe)
             else if latched m1 then Some (safe_return m1 req a src now safe)
             else case get_slot m1 (req_ch req) of
               None \<Rightarrow> None
             | Some st \<Rightarrow>
                 if cs_safe_hold st then Some (safe_return m1 req a src now (env_min e))
                 else case clamp (req_value req) (env_min e) (env_max e) of
                   None \<Rightarrow> None
                 | Some v0 \<Rightarrow> case slew_limit e st now v0 of
                     None \<Rightarrow> None
                   | Some v \<Rightarrow>
                       let d = (if v0 \<noteq> req_value req \<or> v \<noteq> v0 then Clamp v else Allow v);
                           m2 = set_slot m1 (req_ch req) (st\<lparr>cs_last_output := v, cs_last_update_ns := now\<rparr>)
                       in Some (d, audit_decision m2 req a src now d))"

section \<open>Motor pairs\<close>

definition LEFT_CH :: channel_id where "LEFT_CH = \<lparr>ch_kind = PwmDuty, ch_chip = 0, ch_channel = 1\<rparr>"
definition RIGHT_CH :: channel_id where "RIGHT_CH = \<lparr>ch_kind = PwmDuty, ch_chip = 0, ch_channel = 2\<rparr>"

text \<open>The closure \<open>limit\<close> of \<open>decide_motor_pair\<close>: the setpoint moves toward the target by at most
  \<open>step\<close>, and a reversal targets zero first.\<close>

definition motor_limit :: "int \<Rightarrow> int \<Rightarrow> int \<Rightarrow> int option" where
  "motor_limit step current requested =
     (let target = (if current \<noteq> 0 \<and> requested \<noteq> 0 \<and> sgn current \<noteq> sgn requested then 0 else requested)
      in map_option wrap_i16 (clamp target (sat_i32 (current - step)) (sat_i32 (current + step))))"

definition pair_envelope :: "envelope_entry \<Rightarrow> envelope_entry \<Rightarrow> envelope" where
  "pair_envelope l r = \<lparr>env_min = 0, env_max = min (ee_max l) (ee_max r),
     env_max_step = min (ee_max_step l) (ee_max_step r), env_window_ns = max (ee_window_ns l) (ee_window_ns r)\<rparr>"

definition motor_max :: "envelope \<Rightarrow> int" where
  "motor_max e = wrap_i32 (uint (min (saturating_mul (env_max e) 10) 800))"

definition credited_elapsed :: "envelope \<Rightarrow> u64 \<Rightarrow> u64 \<Rightarrow> u64" where
  "credited_elapsed e effective_now last_ns = min (saturating_sub effective_now last_ns) (env_window_ns e)"

definition step_per_window :: "envelope \<Rightarrow> u64" where
  "step_per_window e = ucast (saturating_mul (env_max_step e) 10)"

definition motor_step :: "envelope \<Rightarrow> u64 \<Rightarrow> int" where
  "motor_step e credited = wrap_i32 (uint (min
     (case checked_div (saturating_mul (step_per_window e) credited) (env_window_ns e) of
        None \<Rightarrow> 2147483647 | Some q \<Rightarrow> q) 2147483647))"

definition motor_credit_origin :: "envelope \<Rightarrow> u64 \<Rightarrow> u64 \<Rightarrow> nat \<Rightarrow> u64" where
  "motor_credit_origin e effective_now credited movement =
     (if env_window_ns e = 0 \<or> env_max_step e = 0 then effective_now
      else let consumed = div_ceil (saturating_mul (of_nat movement) (env_window_ns e)) (step_per_window e)
           in saturating_add (saturating_sub effective_now credited) (min consumed credited))"

definition motor_audit :: "monitor \<Rightarrow> int \<Rightarrow> int \<Rightarrow> authority \<Rightarrow> audit_source \<Rightarrow> u64 \<Rightarrow> decision \<Rightarrow> decision \<Rightarrow> monitor" where
  "motor_audit m left right a src now dl dr =
     audit_decision (audit_decision m \<lparr>req_ch = LEFT_CH, req_value = of_int \<bar>left\<bar>\<rparr> a src now dl)
       \<lparr>req_ch = RIGHT_CH, req_value = of_int \<bar>right\<bar>\<rparr> a src now dr"

definition held :: "monitor \<Rightarrow> channel_id \<Rightarrow> bool" where
  "held m ch = (case snapshot_channel_state m ch of None \<Rightarrow> False | Some st \<Rightarrow> cs_safe_hold st)"

definition decide_motor_pair ::
  "monitor \<Rightarrow> int \<Rightarrow> int \<Rightarrow> authority \<Rightarrow> audit_source \<Rightarrow> u64 \<Rightarrow> (motor_pair_decision \<times> monitor) option" where
  "decide_motor_pair m left right a src now =
     (case (mon_envelope_entry m LEFT_CH, mon_envelope_entry m RIGHT_CH) of
        (Some le, Some re) \<Rightarrow>
          let e = pair_envelope le re in
          if latched m \<or> held m LEFT_CH \<or> held m RIGHT_CH
             \<or> a < max (required_authority le) (required_authority re)
          then Some (PairSafe 0 0, motor_audit (m\<lparr>motor_pair := MOTOR_STOPPED\<lparr>mp_last_update_ns := now\<rparr>\<rparr>)
                       left right a src now (Safe 0) (Safe 0))
          else let mx = motor_max e;
                   st = motor_pair m;
                   effective_now = max now (mp_last_update_ns st);
                   credited = credited_elapsed e effective_now (mp_last_update_ns st);
                   step = motor_step e credited
               in case (clamp left (- mx) mx, clamp right (- mx) mx) of
                 (Some requested_left, Some requested_right) \<Rightarrow>
                   (case (motor_limit step (mp_left st) requested_left, motor_limit step (mp_right st) requested_right) of
                      (Some nl, Some nr) \<Rightarrow>
                        let movement = max (nat \<bar>nl - mp_left st\<bar>) (nat \<bar>nr - mp_right st\<bar>);
                            st' = \<lparr>mp_left = nl, mp_right = nr,
                                   mp_last_update_ns = motor_credit_origin e effective_now credited movement\<rparr>;
                            ok = (nl = left \<and> nr = right);
                            audited = (\<lambda>v. if ok then Allow (of_int \<bar>v\<bar>) else Clamp (of_int \<bar>v\<bar>))
                        in Some (if ok then PairAllow nl nr else PairClamp nl nr,
                             motor_audit (m\<lparr>motor_pair := st'\<rparr>) left right a src now (audited nl) (audited nr))
                    | _ \<Rightarrow> None)
               | _ \<Rightarrow> None
      | _ \<Rightarrow> None)"

section \<open>Emergency stop\<close>

datatype release_result = Released | Denied
datatype estop_action = Trigger | Release
datatype estop_command_result = EstopTriggered safe_drive_set | EstopReleased | EstopDenied

definition known_channels :: "monitor \<Rightarrow> safe_drive_set" where
  "known_channels m =
     (let s1 = fold (\<lambda>chip s0. fold (\<lambda>channel s. if known_pwm m ! chip ! channel
              then drive_push s \<lparr>ch_kind = PwmDuty, ch_chip = of_nat chip, ch_channel = of_nat (channel + 1)\<rparr>
                     (pwm_safe m ! chip ! channel)
              else s) [0..<PWM_CHANNELS] s0) [0..<PWM_CHIPS] []
      in fold (\<lambda>pin s. if known_gpio m ! pin
              then drive_push s \<lparr>ch_kind = GpioLevel, ch_chip = 0, ch_channel = of_nat pin\<rparr> (gpio_safe m ! pin)
              else s) [0..<GPIO_PINS] s1)"

definition estop_trigger :: "monitor \<Rightarrow> audit_source \<Rightarrow> u64 \<Rightarrow> safe_drive_set \<times> monitor" where
  "estop_trigger m src now =
     (let m1 = m\<lparr>latched := True, motor_pair := MOTOR_STOPPED\<lparr>mp_last_update_ns := now\<rparr>,
                latch_epoch := latch_epoch m + 1\<rparr>;
          drive = known_channels m1
      in (drive, m1\<lparr>audit := emit (audit m1) \<lparr>ar_seq = 0, ar_t_ns = now, ar_source = src,
            ar_channel = EMPTY_CHANNEL, ar_authority = Safety, ar_req_value = 0,
            ar_decision = TagEstopTrigger, ar_reason = ReasonGovernance\<rparr>\<rparr>))"

definition estop_release :: "monitor \<Rightarrow> authority \<Rightarrow> audit_source \<Rightarrow> u64 \<Rightarrow> release_result \<times> monitor" where
  "estop_release m a src now =
     (let (d, reason, result, m1) = (if a = Operator then (TagEstopRelease, ReasonNone, Released, m\<lparr>latched := False\<rparr>)
            else (TagReleaseDenied, ReasonGovernance, Denied, m))
      in (result, m1\<lparr>audit := emit (audit m1) \<lparr>ar_seq = 0, ar_t_ns = now, ar_source = src,
            ar_channel = EMPTY_CHANNEL, ar_authority = a, ar_req_value = 0, ar_decision = d, ar_reason = reason\<rparr>\<rparr>))"

definition operator_estop :: "monitor \<Rightarrow> estop_action \<Rightarrow> u64 \<Rightarrow> estop_command_result \<times> monitor" where
  "operator_estop m action now =
     (case action of
        Trigger \<Rightarrow> (case estop_trigger m SrcOperator now of (s, m') \<Rightarrow> (EstopTriggered s, m'))
      | Release \<Rightarrow> (case estop_release m Operator SrcOperator now of
           (Released, m') \<Rightarrow> (EstopReleased, m') | (Denied, m') \<Rightarrow> (EstopDenied, m')))"

definition watchdog_estop_trigger :: "monitor \<Rightarrow> u64 \<Rightarrow> safe_drive_set \<times> monitor" where
  [monitor_defs]: "watchdog_estop_trigger m now = estop_trigger m SrcWatchdog now"

definition hold_safe :: "monitor \<Rightarrow> channel_id \<Rightarrow> monitor" where
  "hold_safe m ch = (case get_slot m ch of None \<Rightarrow> m | Some st \<Rightarrow> set_slot m ch (st\<lparr>cs_safe_hold := True\<rparr>))"

definition release_hold :: "monitor \<Rightarrow> channel_id \<Rightarrow> monitor" where
  "release_hold m ch = (case get_slot m ch of None \<Rightarrow> m | Some st \<Rightarrow> set_slot m ch (st\<lparr>cs_safe_hold := False\<rparr>))"

end
