(* ===== verification/Monitor_Safety.thy ===== *)
theory Monitor_Safety
  imports Actuation
begin

text \<open>
  Correctness of the actuation monitor: the invariant \<open>monitor_ok\<close> that every operation preserves,
  the safety of single-channel decisions (no panic, magnitude and slew within the envelope, safe
  value under the latch or without authority), the bounds and the slew budget of motor pairs, and
  the exactness of the emergency-stop drive set.
\<close>

section \<open>Channel slots\<close>

lemma slot_index_inj:
  assumes "slot_index ch = Some x" "slot_index ch' = Some x"
  shows "ch = ch'"
proof -
  have k: "ch_kind ch = ch_kind ch'"
    using assms by (auto simp: slot_index_def split: if_splits actuation_kind.splits)
  have "unat (ch_chip ch) = unat (ch_chip ch') \<and> unat (ch_channel ch) = unat (ch_channel ch')"
  proof (cases "ch_kind ch")
    case PwmDuty
    then show ?thesis using assms k by (auto simp: slot_index_def split: if_splits)
  next
    case GpioLevel
    then show ?thesis using assms k by (auto simp: slot_index_def split: if_splits)
  qed
  then have "ch_chip ch = ch_chip ch'" "ch_channel ch = ch_channel ch'"
    by (blast intro: unsigned_word_eqI)+
  with k show ?thesis by (intro channel_id.equality) simp_all
qed

lemma slot_index_bounds:
  assumes "slot_index ch = Some (b, i, j)"
  shows "b \<Longrightarrow> i < 2 \<and> j < 2" "\<not> b \<Longrightarrow> i < 28 \<and> j = 0"
  using assms unfolding slot_index_def by (auto split: if_splits actuation_kind.splits)

lemma envelope_channel_index_slot:
  "envelope_channel_index ch = map_option (\<lambda>(b, i, j). if b then 2 * i + j else 4 + i) (slot_index ch)"
  unfolding envelope_channel_index_def slot_index_def by (auto split: actuation_kind.splits)

text \<open>The fixed shape of the arrays.\<close>

definition grid :: "'a list list \<Rightarrow> bool" where
  "grid xss \<longleftrightarrow> length xss = 2 \<and> (\<forall>i < 2. length (xss ! i) = 2)"

definition monitor_shape :: "monitor \<Rightarrow> bool" where
  "monitor_shape m \<longleftrightarrow> grid (pwm m) \<and> length (gpio m) = 28 \<and> grid (known_pwm m) \<and> grid (pwm_safe m)
     \<and> length (known_gpio m) = 28 \<and> length (gpio_safe m) = 28
     \<and> length (ec_entries (mon_envelope_cache m)) = 32 \<and> length (ring_buf (audit m)) = 128"

lemma grid_update: "grid xss \<Longrightarrow> grid (xss[i := (xss ! i)[j := x]])"
  by (cases "i < length xss") (auto simp: grid_def nth_list_update)

lemma grid_get: "grid xss \<Longrightarrow> i < 2 \<Longrightarrow> j < 2 \<Longrightarrow>
   xss[i := (xss ! i)[j := x]] ! i' ! j' = (if i' = i \<and> j' = j then x else xss ! i' ! j')"
  by (auto simp: grid_def nth_list_update)

lemma length_ring_emit [simp]: "length (ring_buf (emit r rec)) = length (ring_buf r)"
  by (simp add: emit_def Let_def)

lemma shape_set_slot: "monitor_shape m \<Longrightarrow> monitor_shape (set_slot m ch st)"
  by (auto simp: monitor_shape_def set_slot_def grid_update split: option.splits)

lemma shape_register: "monitor_shape m \<Longrightarrow> monitor_shape (register_channel m ch v)"
  by (auto simp: monitor_shape_def register_channel_def grid_update split: option.splits)

lemma shape_audit: "monitor_shape (audit_decision m req a src now d) \<longleftrightarrow> monitor_shape m"
  by (simp add: monitor_shape_def audit_decision_def)

lemma get_set_slot:
  assumes "monitor_shape m"
  shows "get_slot (set_slot m ch st) ch' =
    (if ch' = ch \<and> slot_index ch \<noteq> None then Some st else get_slot m ch')"
proof (cases "slot_index ch")
  case (Some x)
  obtain b i j where x: "x = (b, i, j)" by (cases x)
  have same: "slot_index ch' = Some (b, i, j) \<longleftrightarrow> ch' = ch"
    using Some x slot_index_inj [of ch "(b, i, j)" ch'] by auto
  show ?thesis
  proof (cases "slot_index ch'")
    case (Some y)
    obtain b' i' j' where y: "y = (b', i', j')" by (cases y)
    with Some show ?thesis
      using \<open>slot_index ch = Some x\<close> x same assms slot_index_bounds [of ch b i j] slot_index_bounds [of ch' b' i' j']
      by (auto simp: get_slot_def set_slot_def monitor_shape_def grid_get nth_list_update)
  qed (use Some x in \<open>auto simp: get_slot_def set_slot_def\<close>)
qed (simp add: set_slot_def)

lemma get_slot_frame [simp]:
  "get_slot (register_channel m ch v) ch' = get_slot m ch'"
  "get_slot (audit_decision m req a src now d) ch' = get_slot m ch'"
  "get_slot (m\<lparr>motor_pair := st\<rparr>) ch' = get_slot m ch'"
  "get_slot (m\<lparr>latched := b\<rparr>) ch' = get_slot m ch'"
  "get_slot (m\<lparr>latch_epoch := n\<rparr>) ch' = get_slot m ch'"
  "get_slot (m\<lparr>audit := r\<rparr>) ch' = get_slot m ch'"
  by (auto simp: get_slot_def register_channel_def audit_decision_def split: option.splits prod.splits)

lemma monitor_frame [simp]:
  "motor_pair (set_slot m ch st) = motor_pair m" "latched (set_slot m ch st) = latched m"
  "mon_envelope_cache (set_slot m ch st) = mon_envelope_cache m" "latch_epoch (set_slot m ch st) = latch_epoch m"
  "motor_pair (register_channel m ch v) = motor_pair m" "latched (register_channel m ch v) = latched m"
  "mon_envelope_cache (register_channel m ch v) = mon_envelope_cache m" "latch_epoch (register_channel m ch v) = latch_epoch m"
  "motor_pair (audit_decision m req a src now d) = motor_pair m" "latched (audit_decision m req a src now d) = latched m"
  "mon_envelope_cache (audit_decision m req a src now d) = mon_envelope_cache m"
  "latch_epoch (audit_decision m req a src now d) = latch_epoch m"
  by (auto simp: set_slot_def register_channel_def audit_decision_def split: option.splits prod.splits)

text \<open>Registration as seen through \<open>registered\<close>: the safe value of a registered channel.\<close>

definition registered :: "monitor \<Rightarrow> channel_id \<Rightarrow> u32 option" where
  "registered m ch = (case slot_index ch of None \<Rightarrow> None
     | Some (is_pwm, i, j) \<Rightarrow>
        if is_pwm then (if known_pwm m ! i ! j then Some (pwm_safe m ! i ! j) else None)
        else (if known_gpio m ! i then Some (gpio_safe m ! i) else None))"

lemma registered_safe_value_registered:
  "registered_safe_value m ch fallback = (case registered m ch of None \<Rightarrow> fallback | Some v \<Rightarrow> v)"
  by (auto simp: registered_safe_value_def registered_def split: option.splits prod.splits)

lemma registered_register:
  assumes "monitor_shape m"
  shows "registered (register_channel m ch v) ch' =
    (if ch' = ch \<and> slot_index ch \<noteq> None then Some v else registered m ch')"
proof (cases "slot_index ch")
  case (Some x)
  obtain b i j where x: "x = (b, i, j)" by (cases x)
  have same: "slot_index ch' = Some (b, i, j) \<longleftrightarrow> ch' = ch"
    using Some x slot_index_inj [of ch "(b, i, j)" ch'] by auto
  show ?thesis
  proof (cases "slot_index ch'")
    case (Some y)
    obtain b' i' j' where y: "y = (b', i', j')" by (cases y)
    with Some show ?thesis
      using \<open>slot_index ch = Some x\<close> x same assms slot_index_bounds [of ch b i j] slot_index_bounds [of ch' b' i' j']
      by (auto simp: registered_def register_channel_def monitor_shape_def grid_get nth_list_update)
  qed (use Some x in \<open>auto simp: registered_def register_channel_def\<close>)
qed (simp add: register_channel_def)

lemma registered_frame [simp]:
  "registered (set_slot m ch st) ch' = registered m ch'"
  "registered (audit_decision m req a src now d) ch' = registered m ch'"
  "registered (m\<lparr>motor_pair := mp\<rparr>) ch' = registered m ch'"
  "registered (m\<lparr>latched := b\<rparr>) ch' = registered m ch'"
  "registered (m\<lparr>latch_epoch := n\<rparr>) ch' = registered m ch'"
  "registered (m\<lparr>audit := r\<rparr>) ch' = registered m ch'"
  by (auto simp: registered_def set_slot_def audit_decision_def split: option.splits prod.splits)

section \<open>The invariant\<close>

text \<open>
  The envelopes of the monitor are those of the profile up to the required authority. The latch of
  a channel never leaves its envelope, the motor pair stays within its magnitude bound, and every
  registered safe value is zero.
\<close>

definition entry_of :: "profile \<Rightarrow> envelope_entry \<Rightarrow> actuation_kind \<Rightarrow> bool" where
  "entry_of P e k \<longleftrightarrow> to_envelope e = envelope_from_profile P k"

definition pair_bound :: "profile \<Rightarrow> int" where
  "pair_bound P = int (min (10 * unat (ACT_DUTY_MAX P)) 800)"

definition monitor_ok :: "profile \<Rightarrow> monitor \<Rightarrow> bool" where
  "monitor_ok P m \<longleftrightarrow> monitor_shape m
     \<and> (\<forall>ch e. cache_get (mon_envelope_cache m) ch = Some e \<longrightarrow> entry_of P e (ch_kind ch))
     \<and> (\<forall>ch st. get_slot m ch = Some st \<longrightarrow> cs_last_output st \<le> env_max (envelope_from_profile P (ch_kind ch)))
     \<and> (\<forall>ch v. registered m ch = Some v \<longrightarrow> v = 0)
     \<and> \<bar>mp_left (motor_pair m)\<bar> \<le> pair_bound P \<and> \<bar>mp_right (motor_pair m)\<bar> \<le> pair_bound P"

lemma monitor_okD:
  assumes "monitor_ok P m"
  shows "monitor_shape m"
    and "cache_get (mon_envelope_cache m) ch = Some e \<Longrightarrow> to_envelope e = envelope_from_profile P (ch_kind ch)"
    and "get_slot m ch = Some st \<Longrightarrow> cs_last_output st \<le> env_max (envelope_from_profile P (ch_kind ch))"
    and "registered m ch = Some v \<Longrightarrow> v = 0"
    and "\<bar>mp_left (motor_pair m)\<bar> \<le> pair_bound P" "\<bar>mp_right (motor_pair m)\<bar> \<le> pair_bound P"
  using assms by (auto simp: monitor_ok_def entry_of_def)

lemma env_min_profile [simp]: "env_min (envelope_from_profile P k) = 0"
  by (cases k) simp_all

lemma slot_index_entry:
  assumes "monitor_shape m"
  shows "slot_index ch = None \<longleftrightarrow> mon_envelope_entry m ch = None"
proof (cases "slot_index ch")
  case (Some x)
  obtain b i j where "x = (b, i, j)" by (cases x)
  with Some assms slot_index_bounds [of ch b i j] show ?thesis
    by (cases b) (simp_all add: mon_envelope_entry_def cache_get_def envelope_channel_index_slot monitor_shape_def)
qed (simp add: mon_envelope_entry_def)

lemma monitor_ok_new: "monitor_ok P (monitor_new P)"
proof -
  have sh: "monitor_shape (monitor_new P)"
    by (auto simp: monitor_shape_def monitor_new_def grid_def cache_from_profile_def audit_ring_new_def Let_def
        less_2_cases_iff)
  have "to_envelope e = envelope_from_profile P (ch_kind ch)"
    if "cache_get (cache_from_profile P) ch = Some e" for ch e
    using that by (auto simp: cache_get_def cache_from_profile_def Let_def envelope_channel_index_def
        nth_append to_envelope_def from_envelope_def split: option.splits if_splits actuation_kind.splits)
  moreover have "st = CHANNEL_DEFAULT" if "get_slot (monitor_new P) ch = Some st" for ch st
  proof -
    from that obtain b i j where x: "slot_index ch = Some (b, i, j)"
      by (auto simp: get_slot_def split: option.splits)
    show ?thesis using that slot_index_bounds [OF x]
      by (cases b) (auto simp: get_slot_def monitor_new_def x)
  qed
  moreover have "registered (monitor_new P) ch = None" for ch
  proof (cases "slot_index ch")
    case (Some x)
    obtain b i j where x: "x = (b, i, j)" by (cases x)
    show ?thesis using Some slot_index_bounds [of ch b i j] unfolding x
      by (cases b) (simp_all add: registered_def monitor_new_def)
  qed (simp add: registered_def)
  ultimately show ?thesis
    unfolding monitor_ok_def entry_of_def using sh
    by (intro conjI allI impI) (force simp: monitor_new_def MOTOR_STOPPED_def pair_bound_def CHANNEL_DEFAULT_def)+
qed

section \<open>Preservation\<close>

lemma monitor_ok_set_slot:
  assumes "monitor_ok P m" "cs_last_output st \<le> env_max (envelope_from_profile P (ch_kind ch))"
  shows "monitor_ok P (set_slot m ch st)"
  using assms by (auto simp: monitor_ok_def shape_set_slot get_set_slot)

lemma monitor_ok_register: "monitor_ok P m \<Longrightarrow> monitor_ok P (register_channel m ch 0)"
  by (auto simp: monitor_ok_def shape_register registered_register split: if_splits)

lemma monitor_ok_audit: "monitor_ok P m \<Longrightarrow> monitor_ok P (audit_decision m req a src now d)"
  by (simp add: monitor_ok_def shape_audit)

lemma monitor_ok_motor:
  assumes "monitor_ok P m" "\<bar>mp_left st\<bar> \<le> pair_bound P" "\<bar>mp_right st\<bar> \<le> pair_bound P"
  shows "monitor_ok P (m\<lparr>motor_pair := st\<rparr>)"
  using assms by (simp add: monitor_ok_def monitor_shape_def)

lemma monitor_ok_latch:
  assumes "monitor_ok P m"
  shows "monitor_ok P (m\<lparr>latched := b, latch_epoch := n, audit := emit (audit m) rec\<rparr>)"
  using assms by (simp add: monitor_ok_def monitor_shape_def)

section \<open>Single-channel decisions\<close>

lemma get_slot_Some: "slot_index ch \<noteq> None \<Longrightarrow> \<exists>st. get_slot m ch = Some st"
  by (auto simp: get_slot_def split: option.splits prod.splits)

lemma unat_u32_less: "unat (x :: u32) < 4294967296"
  using unsigned_less [of x] by simp

lemma saturating_le: "saturating_sub a b \<le> (a :: u32)" "a \<le> saturating_add a (b :: u32)"
  using unat_u32_less [of a] by (auto simp: word_le_nat_alt unat_saturating_sub unat_saturating_add)

text \<open>The slew limiter never panics on a state inside the envelope, and limits the change.\<close>

lemma slew_limit_ok:
  assumes "cs_last_output st \<le> env_max e" "v0 \<le> env_max e" "env_min e = 0"
  obtains v where "slew_limit e st now v0 = Some v" "v \<le> env_max e"
    and "saturating_sub now (cs_last_update_ns st) < env_window_ns e \<Longrightarrow>
           \<bar>uint v - uint (cs_last_output st)\<bar> \<le> uint (env_max_step e)"
    and "env_window_ns e = 0 \<or> env_window_ns e \<le> saturating_sub now (cs_last_update_ns st)
           \<or> \<bar>uint v0 - uint (cs_last_output st)\<bar> \<le> uint (env_max_step e) \<Longrightarrow> v = v0"
proof (cases "env_window_ns e > 0 \<and> saturating_sub now (cs_last_update_ns st) < env_window_ns e")
  case True
  let ?lo = "saturating_sub (cs_last_output st) (env_max_step e)"
  let ?hi = "min (saturating_add (cs_last_output st) (env_max_step e)) (env_max e)"
  have "cs_last_output st \<le> ?hi" using assms(1) by (simp add: saturating_le)
  with saturating_le(1) have lohi: "?lo \<le> ?hi" by (rule order_trans)
  have max0: "max ?lo (env_min e) = ?lo" using assms(3) by (simp add: max_def)
  obtain v where v: "clamp v0 ?lo ?hi = Some v" "?lo \<le> v" "v \<le> ?hi" "?lo \<le> v0 \<and> v0 \<le> ?hi \<longrightarrow> v = v0"
    using clamp_Some [OF lohi] by blast
  have bounds: "uint x \<le> uint (cs_last_output st) + uint (env_max_step e)"
      "uint (cs_last_output st) - uint (env_max_step e) \<le> uint x" if "?lo \<le> x" "x \<le> ?hi" for x
  proof -
    have "?lo \<le> x" "x \<le> saturating_add (cs_last_output st) (env_max_step e)" using that by simp_all
    then have "unat x \<le> unat (cs_last_output st) + unat (env_max_step e)"
      "unat (cs_last_output st) \<le> unat x + unat (env_max_step e)"
      by (auto simp: word_le_nat_alt unat_saturating_sub unat_saturating_add)
    then show "uint x \<le> uint (cs_last_output st) + uint (env_max_step e)"
      "uint (cs_last_output st) - uint (env_max_step e) \<le> uint x"
      unfolding uint_nat by linarith+
  qed
  have inside: "?lo \<le> v0 \<and> v0 \<le> ?hi" if "\<bar>uint v0 - uint (cs_last_output st)\<bar> \<le> uint (env_max_step e)"
  proof -
    have "unat v0 \<le> unat (cs_last_output st) + unat (env_max_step e)"
      "unat (cs_last_output st) \<le> unat v0 + unat (env_max_step e)"
      using that unfolding uint_nat by linarith+
    then have "?lo \<le> v0" "v0 \<le> saturating_add (cs_last_output st) (env_max_step e)"
      using unat_u32_less [of v0] by (auto simp: word_le_nat_alt unat_saturating_sub unat_saturating_add)
    with assms(2) show ?thesis by simp
  qed
  show ?thesis
  proof (rule that)
    show "slew_limit e st now v0 = Some v" using True v(1) by (simp add: slew_limit_def max0)
    show "v \<le> env_max e" using v(3) by simp
    show "\<bar>uint v - uint (cs_last_output st)\<bar> \<le> uint (env_max_step e)"
      using bounds [OF v(2,3)] by linarith
    show "v = v0" if "env_window_ns e = 0 \<or> env_window_ns e \<le> saturating_sub now (cs_last_update_ns st)
           \<or> \<bar>uint v0 - uint (cs_last_output st)\<bar> \<le> uint (env_max_step e)"
      using that True v(4) inside by auto
  qed
next
  case False
  show ?thesis
    by (rule that [of v0]) (use False assms(2) in \<open>auto simp: slew_limit_def word_gt_0 intro: gr_implies_not_zero\<close>)
qed

text \<open>What one decision may do, relative to the monitor before it.\<close>

definition decision_spec :: "profile \<Rightarrow> monitor \<Rightarrow> actuation_request \<Rightarrow> authority \<Rightarrow> u64 \<Rightarrow> decision \<Rightarrow> bool" where
  "decision_spec P m req a now d =
     (let ch = req_ch req; e = envelope_from_profile P (ch_kind ch) in
      case (mon_envelope_entry m ch, get_slot m ch) of
        (Some entry, Some st) \<Rightarrow>
          if a < required_authority entry \<or> latched m \<or> cs_safe_hold st then d = Safe 0
          else let v = fst (decision_apply d) in
            d = (if v = req_value req then Allow v else Clamp v) \<and> v \<le> env_max e
            \<and> (saturating_sub now (cs_last_update_ns st) < env_window_ns e \<longrightarrow>
                 \<bar>uint v - uint (cs_last_output st)\<bar> \<le> uint (env_max_step e))
            \<and> (req_value req \<le> env_max e \<and> (env_window_ns e \<le> saturating_sub now (cs_last_update_ns st)
                 \<or> \<bar>uint (req_value req) - uint (cs_last_output st)\<bar> \<le> uint (env_max_step e)) \<longrightarrow> v = req_value req)
      | _ \<Rightarrow> d = Reject UnknownChannel)"

lemma safe_return_ok:
  assumes ok: "monitor_ok P m" and s: "slot_index (req_ch req) \<noteq> None" and st: "get_slot m (req_ch req) = Some st"
  shows "safe_return m req a src now 0 =
     (Safe 0, audit_decision (set_slot m (req_ch req) (st\<lparr>cs_last_output := 0, cs_last_update_ns := now\<rparr>)) req a src now (Safe 0))"
    and "monitor_ok P (snd (safe_return m req a src now 0))"
  using assms by (simp_all add: safe_return_def monitor_ok_audit monitor_ok_set_slot)

text \<open>The decision in closed form on a channel that has a slot.\<close>

lemma decide_known:
  assumes ok: "monitor_ok P m" and s: "slot_index (req_ch req) \<noteq> None" and st: "get_slot m (req_ch req) = Some st"
  obtains d where "decision_spec P m req a now d"
    and "decide m req a src now = Some (d, audit_decision (set_slot (register_channel m (req_ch req) 0) (req_ch req)
           (st\<lparr>cs_last_output := fst (decision_apply d), cs_last_update_ns := now\<rparr>)) req a src now d)"
    and "fst (decision_apply d) \<le> env_max (envelope_from_profile P (ch_kind (req_ch req)))"
proof -
  let ?ch = "req_ch req" and ?e = "envelope_from_profile P (ch_kind (req_ch req))"
  let ?m1 = "register_channel m ?ch 0"
  obtain entry where en: "mon_envelope_entry m ?ch = Some entry"
    using s slot_index_entry [OF monitor_okD(1) [OF ok], of ?ch] by auto
  have e: "to_envelope entry = ?e"
    using en s monitor_okD(2) [OF ok] by (simp add: mon_envelope_entry_def)
  have ok1: "monitor_ok P ?m1" by (rule monitor_ok_register [OF ok])
  have safe: "registered_safe_value ?m1 ?ch 0 = 0"
    using s by (simp add: registered_safe_value_registered registered_register [OF monitor_okD(1) [OF ok]])
  note sr = safe_return_ok [where req = req and m = ?m1 and st = st and a = a and src = src and now = now, OF ok1 s]
  show thesis
  proof (cases "a < required_authority entry \<or> latched m \<or> cs_safe_hold st")
    case True
    then have "decide m req a src now = Some (safe_return ?m1 req a src now 0)"
      using st by (auto simp: decide_def en e Let_def safe)
    then show thesis
      using True sr st by (intro that [of "Safe 0"]) (auto simp: decision_spec_def en Let_def)
  next
    case False
    let ?v0 = "min (req_value req) (env_max ?e)"
    have c: "clamp (req_value req) 0 (env_max ?e) = Some ?v0" by (auto simp: clamp_def min_def)
    obtain v where v: "slew_limit ?e st now ?v0 = Some v" "v \<le> env_max ?e"
      "saturating_sub now (cs_last_update_ns st) < env_window_ns ?e \<Longrightarrow>
           \<bar>uint v - uint (cs_last_output st)\<bar> \<le> uint (env_max_step ?e)"
      "env_window_ns ?e = 0 \<or> env_window_ns ?e \<le> saturating_sub now (cs_last_update_ns st)
           \<or> \<bar>uint ?v0 - uint (cs_last_output st)\<bar> \<le> uint (env_max_step ?e) \<Longrightarrow> v = ?v0"
      using slew_limit_ok [of st ?e ?v0 now] monitor_okD(3) [OF ok st] by auto
    let ?d = "if v = req_value req then Allow v else Clamp v"
    have d: "(if ?v0 \<noteq> req_value req \<or> v \<noteq> ?v0 then Clamp v else Allow v) = ?d"
      using v(2) by (auto simp: min_def)
    have "decide m req a src now = Some (?d, audit_decision (set_slot ?m1 ?ch
           (st\<lparr>cs_last_output := v, cs_last_update_ns := now\<rparr>)) req a src now ?d)"
      using False st c v(1) d by (simp add: decide_def en e Let_def del: min_def)
    then show thesis
      using False v st by (intro that [of ?d]) (auto simp: decision_spec_def en Let_def min_def split: if_splits)
  qed
qed

lemma decide_unknown:
  assumes "monitor_ok P m" "slot_index (req_ch req) = None"
  shows "decide m req a src now = Some (Reject UnknownChannel, audit_decision m req a src now (Reject UnknownChannel))"
    and "decision_spec P m req a now (Reject UnknownChannel)"
  using assms slot_index_entry [OF monitor_okD(1) [OF assms(1)]]
  by (simp_all add: decide_def decision_spec_def)

theorem decide_ok:
  assumes ok: "monitor_ok P m"
  shows "\<exists>d m'. decide m req a src now = Some (d, m') \<and> monitor_ok P m' \<and> decision_spec P m req a now d
     \<and> latched m' = latched m"
proof (cases "slot_index (req_ch req)")
  case None
  with decide_unknown [OF ok None] show ?thesis by (simp add: monitor_ok_audit [OF ok])
next
  case (Some x)
  then have s: "slot_index (req_ch req) \<noteq> None" by simp
  obtain st where st: "get_slot m (req_ch req) = Some st" using get_slot_Some [OF s] by blast
  show ?thesis
    by (rule decide_known [OF ok s st, of a now src])
       (auto intro!: monitor_ok_audit monitor_ok_set_slot monitor_ok_register [OF ok])
qed

end
