(* ===== verification/Motor_Pair.thy ===== *)
theory Motor_Pair
  imports Monitor_Safety
begin

text \<open>
  The signed motor pair of the actuation monitor: magnitude, no reversal without passing zero, and
  the slew budget, which bounds the total movement of a wheel over any burst of commands by the
  real time that passed.
\<close>

section \<open>One wheel\<close>

lemma motor_limit_ok:
  assumes "\<bar>current\<bar> \<le> B" "\<bar>requested\<bar> \<le> B" "B \<le> 800" "0 \<le> step" "step \<le> 2147483647"
  obtains w where "motor_limit step current requested = Some w" "\<bar>w\<bar> \<le> B" "\<bar>w - current\<bar> \<le> step"
    and "0 \<le> current * w"
    and "0 \<le> current * requested \<Longrightarrow> \<bar>requested - current\<bar> \<le> step \<Longrightarrow> w = requested"
proof -
  let ?t = "if current \<noteq> 0 \<and> requested \<noteq> 0 \<and> sgn current \<noteq> sgn requested then 0 else requested"
  let ?lo = "sat_i32 (current - step)" and ?hi = "sat_i32 (current + step)"
  let ?w = "if ?t < ?lo then ?lo else if ?hi < ?t then ?hi else ?t"
  have lo: "?lo \<le> current" "current - step \<le> ?lo" and hi: "current \<le> ?hi" "?hi \<le> current + step"
    using assms by (auto simp: sat_i32_def)
  have t: "\<bar>?t\<bar> \<le> B" "0 \<le> current * ?t" using assms
    by (auto simp: sgn_if mult_nonneg_nonneg mult_nonpos_nonpos zero_le_mult_iff split: if_splits)
  have w: "\<bar>?w\<bar> \<le> B" "\<bar>?w - current\<bar> \<le> step" using lo hi t(1) assms(1,4) by auto
  have between: "(current \<le> ?w \<and> ?w \<le> ?t) \<or> (?t \<le> ?w \<and> ?w \<le> current)" using lo hi by auto
  have "0 \<le> current * ?w"
    using t(2) between by (auto simp: zero_le_mult_iff)
  moreover have "?w = requested" if "0 \<le> current * requested" "\<bar>requested - current\<bar> \<le> step"
  proof -
    have "?t = requested" using that(1) by (auto simp: zero_le_mult_iff sgn_if)
    moreover have "?lo \<le> requested" "requested \<le> ?hi" using that(2) assms by (auto simp: sat_i32_def)
    ultimately show ?thesis by simp
  qed
  moreover have "motor_limit step current requested = Some (wrap_i16 ?w)"
    using lo(1) hi(1) by (simp add: motor_limit_def clamp_def)
  moreover have "wrap_i16 ?w = ?w" using w(1) assms(3) by (intro wrap_i16_id) auto
  ultimately show thesis using w by (intro that [of ?w]) simp_all
qed

section \<open>Limits of the pair envelope\<close>

abbreviation pwm_envelope :: "profile \<Rightarrow> envelope" where
  "pwm_envelope P \<equiv> envelope_from_profile P PwmDuty"

lemma pair_envelope_profile:
  assumes "monitor_ok P m" "mon_envelope_entry m LEFT_CH = Some le" "mon_envelope_entry m RIGHT_CH = Some re"
  shows "pair_envelope le re = pwm_envelope P"
proof -
  have "to_envelope le = pwm_envelope P" "to_envelope re = pwm_envelope P"
    using assms monitor_okD(2) [OF assms(1), of LEFT_CH le] monitor_okD(2) [OF assms(1), of RIGHT_CH re]
    by (auto simp: mon_envelope_entry_def LEFT_CH_def RIGHT_CH_def split: if_splits)
  then show ?thesis by (auto simp: pair_envelope_def to_envelope_def)
qed

lemma motor_max_bound: "motor_max (pwm_envelope P) = pair_bound P"
proof -
  have "unat (min (saturating_mul (ACT_DUTY_MAX P) 10) 800) = min (10 * unat (ACT_DUTY_MAX P)) 800"
    by (auto simp: min_def word_le_nat_alt unat_saturating_mul)
  then have "uint (min (saturating_mul (ACT_DUTY_MAX P) 10) 800) = int (min (10 * unat (ACT_DUTY_MAX P)) 800)"
    unfolding uint_nat by (rule arg_cong)
  then show ?thesis
    by (simp add: motor_max_def pair_bound_def wrap_i32_id)
qed

lemma u64_min_i32_max: "uint (min q 2147483647 :: u64) \<le> 2147483647"
proof -
  have "unat (min q 2147483647) \<le> 2147483647" by (simp add: min_def word_le_nat_alt)
  then show ?thesis unfolding uint_nat by linarith
qed

lemma wrap_min_i32_max [simp]: "wrap_i32 (uint (min q 2147483647 :: u64)) = uint (min q 2147483647)"
  using u64_min_i32_max [of q] by (intro wrap_i32_id) (simp_all add: order_trans [of _ 0])

lemma motor_step_bounds: "0 \<le> motor_step e credited" "motor_step e credited \<le> 2147483647"
  unfolding motor_step_def wrap_min_i32_max by (simp, rule u64_min_i32_max)

lemma motor_step_credit:
  assumes "env_window_ns e \<noteq> 0"
  shows "nat (motor_step e credited) * unat (env_window_ns e) \<le> unat (step_per_window e) * unat credited"
proof -
  let ?q = "saturating_mul (step_per_window e) credited div env_window_ns e"
  have "motor_step e credited = uint (min ?q 2147483647)"
    using assms by (simp add: motor_step_def checked_div_def)
  then have "nat (motor_step e credited) \<le> unat ?q"
    by (simp add: word_le_nat_alt min_def nat_uint_eq)
  also have "\<dots> = unat (saturating_mul (step_per_window e) credited) div unat (env_window_ns e)"
    by (rule unat_div)
  finally have "nat (motor_step e credited) * unat (env_window_ns e)
      \<le> unat (saturating_mul (step_per_window e) credited)"
    by (meson div_times_less_eq_dividend le_trans mult_le_mono1)
  also have "\<dots> \<le> unat (step_per_window e) * unat credited" by (simp add: unat_saturating_mul)
  finally show ?thesis .
qed

text \<open>
  The credit origin advances by at least the time that the movement costs, counted from the later
  of the old origin and one window before the command, and it never passes the command.
\<close>

lemma ceil_div_bounds:
  fixes a b c :: nat
  assumes "0 < b" "a \<le> b * c"
  shows "(a + b - 1) div b \<le> c" "a \<le> b * ((a + b - 1) div b)"
proof -
  have "(a + b - 1) div b < Suc c"
    using assms by (subst div_less_iff_less_mult) (simp_all add: algebra_simps)
  then show "(a + b - 1) div b \<le> c" by simp
  have "b * ((a + b - 1) div b) + (a + b - 1) mod b = a + b - 1" by simp
  moreover have "(a + b - 1) mod b \<le> b - 1" using assms(1) by (metis Suc_pred less_Suc_eq_le mod_less_divisor One_nat_def)
  ultimately show "a \<le> b * ((a + b - 1) div b)" using assms(1) by linarith
qed

lemma step_per_window_0: "step_per_window e = 0 \<longleftrightarrow> env_max_step e = 0"
proof -
  have "unat (step_per_window e) = min 4294967295 (unat (env_max_step e) * 10)"
    by (simp add: step_per_window_def unsigned_ucast_eq unat_saturating_mul take_bit_nat_eq_self)
  then have "unat (step_per_window e) = 0 \<longleftrightarrow> unat (env_max_step e) = 0" by auto
  then show ?thesis by (simp only: unsigned_eq_0_iff)
qed

lemma motor_credit_origin_budget:
  assumes W: "env_window_ns e \<noteq> 0" and fit: "movement * unat (env_window_ns e) < 2 ^ 64" "movement < 2 ^ 64"
    and "origin \<le> eff" and mv: "movement \<le> nat (motor_step e (credited_elapsed e eff origin))"
  defines "origin' \<equiv> motor_credit_origin e eff (credited_elapsed e eff origin) movement"
  shows "movement * unat (env_window_ns e) + unat (step_per_window e) * max (unat origin) (unat eff - unat (env_window_ns e))
      \<le> unat (step_per_window e) * unat origin'"
    and "origin \<le> origin'" "origin' \<le> eff"
proof -
  let ?W = "unat (env_window_ns e)" and ?s = "unat (step_per_window e)"
  let ?cr = "credited_elapsed e eff origin"
  have le: "unat origin \<le> unat eff" using assms(4) by (simp add: word_le_nat_alt)
  have c: "unat ?cr = min (unat eff - unat origin) ?W"
    by (simp add: credited_elapsed_def min_def word_le_nat_alt unat_saturating_sub)
  have base: "unat eff - unat ?cr = max (unat origin) (unat eff - ?W)" "unat ?cr \<le> unat eff"
    using le unfolding c by (auto simp: min_def max_def)
  have pay: "movement * ?W \<le> ?s * unat ?cr"
    using mv motor_step_credit [OF W, of ?cr] by (meson le_trans mult_le_mono1)
  show "movement * ?W + ?s * max (unat origin) (unat eff - ?W) \<le> ?s * unat origin'"
    and "origin \<le> origin'" "origin' \<le> eff"
  proof (atomize (full), cases "env_max_step e = 0")
    case True
    then have "?s = 0" by (simp add: unsigned_eq_0_iff step_per_window_0)
    moreover from this pay have "movement * ?W = 0" by simp
    moreover have "origin' = eff" using True by (simp add: origin'_def motor_credit_origin_def)
    ultimately show "movement * ?W + ?s * max (unat origin) (unat eff - ?W) \<le> ?s * unat origin'
      \<and> origin \<le> origin' \<and> origin' \<le> eff" using assms(4) by simp
  next
    case False
    then have s0: "step_per_window e \<noteq> 0" "0 < ?s" using step_per_window_0 [of e] by (auto simp: unat_gt_0)
    let ?k = "(movement * ?W + ?s - 1) div ?s"
    have k: "unat (div_ceil (saturating_mul (of_nat movement) (env_window_ns e)) (step_per_window e)) = ?k"
      using fit by (simp add: unat_div_ceil [OF s0(1)] unat_saturating_mul unat_of_nat)
    have kb: "?k \<le> unat ?cr" "movement * ?W \<le> ?s * ?k" using ceil_div_bounds [OF s0(2) pay] by blast+
    have o: "unat origin' = unat eff - unat ?cr + ?k"
    proof -
      have "unat (min (div_ceil (saturating_mul (of_nat movement) (env_window_ns e)) (step_per_window e)) ?cr) = ?k"
        using k kb(1) by (simp add: min_def word_le_nat_alt)
      moreover have "unat eff - unat ?cr + ?k \<le> 2 ^ 64 - 1"
        using kb(1) base(2) unat_u64_le_MAX [of eff] by simp
      ultimately show ?thesis
        using W False by (simp add: origin'_def motor_credit_origin_def unat_saturating_add unat_saturating_sub Let_def)
    qed
    have "movement * ?W + ?s * max (unat origin) (unat eff - ?W) \<le> ?s * unat origin'"
      using kb(2) unfolding o base(1) distrib_left by linarith
    moreover have "unat origin \<le> unat origin'" unfolding o base(1) by linarith
    moreover have "unat origin' \<le> unat eff" unfolding o using kb(1) base(2) by linarith
    ultimately show "movement * ?W + ?s * max (unat origin) (unat eff - ?W) \<le> ?s * unat origin'
      \<and> origin \<le> origin' \<and> origin' \<le> eff" by (simp add: word_le_nat_alt)
  qed
qed

section \<open>The pair decision\<close>

definition pair_refused :: "monitor \<Rightarrow> authority \<Rightarrow> bool" where
  "pair_refused m a \<longleftrightarrow> latched m \<or> held m LEFT_CH \<or> held m RIGHT_CH
     \<or> (\<exists>ch \<in> {LEFT_CH, RIGHT_CH}. \<exists>e. mon_envelope_entry m ch = Some e \<and> a < required_authority e)"

definition moves :: "motor_pair_decision \<Rightarrow> bool" where
  "moves d \<longleftrightarrow> (\<exists>l r. d \<in> {PairAllow l r, PairClamp l r})"

lemma motor_channels_known: "slot_index LEFT_CH \<noteq> None" "slot_index RIGHT_CH \<noteq> None"
  by (simp_all add: slot_index_def LEFT_CH_def RIGHT_CH_def)

lemma clamp_symmetric: "0 \<le> B \<Longrightarrow> \<exists>w. clamp v (- B) B = Some w \<and> \<bar>w\<bar> \<le> B" for B v :: int
  by (auto simp: clamp_def)

lemma motor_audit_frame [simp]:
  "motor_pair (motor_audit m l r a src now dl dr) = motor_pair m"
  "latched (motor_audit m l r a src now dl dr) = latched m"
  "mon_envelope_cache (motor_audit m l r a src now dl dr) = mon_envelope_cache m"
  "get_slot (motor_audit m l r a src now dl dr) ch = get_slot m ch"
  "registered (motor_audit m l r a src now dl dr) ch = registered m ch"
  by (simp_all add: motor_audit_def)

lemma monitor_ok_motor_audit: "monitor_ok P m \<Longrightarrow> monitor_ok P (motor_audit m l r a src now dl dr)"
  by (simp add: motor_audit_def monitor_ok_audit)

text \<open>What a pair decision does to the motor state.\<close>

definition pair_spec ::
  "profile \<Rightarrow> monitor \<Rightarrow> int \<Rightarrow> int \<Rightarrow> authority \<Rightarrow> u64 \<Rightarrow> motor_pair_decision \<Rightarrow> motor_pair_state \<Rightarrow> bool" where
  "pair_spec P m left right a now d st' =
     (let st = motor_pair m; e = pwm_envelope P;
          eff = max now (mp_last_update_ns st); step = motor_step e (credited_elapsed e eff (mp_last_update_ns st))
      in if pair_refused m a then d = PairSafe 0 0 \<and> mp_left st' = 0 \<and> mp_right st' = 0
         else d = (if mp_left st' = left \<and> mp_right st' = right then PairAllow left right
                   else PairClamp (mp_left st') (mp_right st'))
           \<and> \<bar>mp_left st'\<bar> \<le> pair_bound P \<and> \<bar>mp_right st'\<bar> \<le> pair_bound P
           \<and> \<bar>mp_left st' - mp_left st\<bar> \<le> step \<and> \<bar>mp_right st' - mp_right st\<bar> \<le> step
           \<and> 0 \<le> mp_left st * mp_left st' \<and> 0 \<le> mp_right st * mp_right st'
           \<and> mp_last_update_ns st' = motor_credit_origin e eff (credited_elapsed e eff (mp_last_update_ns st))
               (max (nat \<bar>mp_left st' - mp_left st\<bar>) (nat \<bar>mp_right st' - mp_right st\<bar>)))"

theorem decide_motor_pair_ok:
  assumes ok: "monitor_ok P m"
  shows "\<exists>d m'. decide_motor_pair m left right a src now = Some (d, m') \<and> monitor_ok P m'
     \<and> pair_spec P m left right a now d (motor_pair m') \<and> latched m' = latched m
     \<and> mon_envelope_cache m' = mon_envelope_cache m \<and> (\<forall>ch. get_slot m' ch = get_slot m ch)
     \<and> (\<forall>ch. registered m' ch = registered m ch)"
proof -
  obtain le re where en: "mon_envelope_entry m LEFT_CH = Some le" "mon_envelope_entry m RIGHT_CH = Some re"
    using motor_channels_known slot_index_entry [OF monitor_okD(1) [OF ok]] by (metis option.exhaust)
  have e: "pair_envelope le re = pwm_envelope P" by (rule pair_envelope_profile [OF ok en])
  have refuse: "pair_refused m a \<longleftrightarrow> latched m \<or> held m LEFT_CH \<or> held m RIGHT_CH
      \<or> a < max (required_authority le) (required_authority re)"
    by (auto simp: pair_refused_def en less_max_iff_disj)
  have B: "0 \<le> pair_bound P" "pair_bound P \<le> 800" by (simp_all add: pair_bound_def)
  show ?thesis
  proof (cases "pair_refused m a")
    case True
    have "monitor_ok P (m\<lparr>motor_pair := MOTOR_STOPPED\<lparr>mp_last_update_ns := now\<rparr>\<rparr>)"
      using ok B by (intro monitor_ok_motor) (simp_all add: MOTOR_STOPPED_def)
    then show ?thesis using True
      by (simp add: decide_motor_pair_def en e refuse [symmetric] pair_spec_def MOTOR_STOPPED_def monitor_ok_motor_audit)
  next
    case False
    let ?st = "motor_pair m" and ?e = "pwm_envelope P"
    let ?eff = "max now (mp_last_update_ns ?st)"
    let ?step = "motor_step ?e (credited_elapsed ?e ?eff (mp_last_update_ns ?st))"
    obtain rl where rl: "clamp left (- pair_bound P) (pair_bound P) = Some rl" "\<bar>rl\<bar> \<le> pair_bound P"
      using clamp_symmetric [OF B(1)] by blast
    obtain rr where rr: "clamp right (- pair_bound P) (pair_bound P) = Some rr" "\<bar>rr\<bar> \<le> pair_bound P"
      using clamp_symmetric [OF B(1)] by blast
    obtain nl where nl: "motor_limit ?step (mp_left ?st) rl = Some nl" "\<bar>nl\<bar> \<le> pair_bound P"
        "\<bar>nl - mp_left ?st\<bar> \<le> ?step" "0 \<le> mp_left ?st * nl"
      using motor_limit_ok [OF monitor_okD(5) [OF ok] rl(2) B(2) motor_step_bounds] by blast
    obtain nr where nr: "motor_limit ?step (mp_right ?st) rr = Some nr" "\<bar>nr\<bar> \<le> pair_bound P"
        "\<bar>nr - mp_right ?st\<bar> \<le> ?step" "0 \<le> mp_right ?st * nr"
      using motor_limit_ok [OF monitor_okD(6) [OF ok] rr(2) B(2) motor_step_bounds] by blast
    let ?st' = "\<lparr>mp_left = nl, mp_right = nr, mp_last_update_ns = motor_credit_origin ?e ?eff
        (credited_elapsed ?e ?eff (mp_last_update_ns ?st)) (max (nat \<bar>nl - mp_left ?st\<bar>) (nat \<bar>nr - mp_right ?st\<bar>))\<rparr>"
    have ok': "monitor_ok P (m\<lparr>motor_pair := ?st'\<rparr>)" using ok nl(2) nr(2) by (intro monitor_ok_motor) simp_all
    let ?au = "\<lambda>v. if nl = left \<and> nr = right then Allow (of_int \<bar>v\<bar>) else Clamp (of_int \<bar>v\<bar>)"
    have "decide_motor_pair m left right a src now =
        Some (if nl = left \<and> nr = right then PairAllow nl nr else PairClamp nl nr,
          motor_audit (m\<lparr>motor_pair := ?st'\<rparr>) left right a src now (?au nl) (?au nr))"
      using False rl(1) rr(1) nl(1) nr(1)
      by (simp add: decide_motor_pair_def en e refuse [symmetric] motor_max_bound Let_def
          del: envelope_from_profile.simps)
    moreover have "pair_spec P m left right a now (if nl = left \<and> nr = right then PairAllow nl nr else PairClamp nl nr) ?st'"
      unfolding pair_spec_def Let_def using False nl(2-) nr(2-) by simp
    ultimately show ?thesis using monitor_ok_motor_audit [OF ok'] by auto
  qed
qed

section \<open>Bursts of commands\<close>

type_synonym motor_command = "int \<times> int \<times> authority \<times> audit_source \<times> u64"

fun command_time :: "motor_command \<Rightarrow> u64" where
  "command_time (l, r, a, src, now) = now"

fun motor_run :: "monitor \<Rightarrow> motor_command list \<Rightarrow> (motor_pair_decision list \<times> monitor) option" where
  "motor_run m [] = Some ([], m)"
| "motor_run m ((l, r, a, src, now) # cs) =
     (case decide_motor_pair m l r a src now of None \<Rightarrow> None
      | Some (d, m1) \<Rightarrow> (case motor_run m1 cs of None \<Rightarrow> None | Some (ds, m2) \<Rightarrow> Some (d # ds, m2)))"

primrec travel :: "int \<Rightarrow> int list \<Rightarrow> nat" where
  "travel x [] = 0"
| "travel x (y # ys) = nat \<bar>y - x\<bar> + travel y ys"

definition lefts :: "motor_pair_decision list \<Rightarrow> int list" where
  "lefts ds = map (\<lambda>d. fst (pair_apply d)) ds"

definition rights :: "motor_pair_decision list \<Rightarrow> int list" where
  "rights ds = map (\<lambda>d. fst (snd (pair_apply d))) ds"

lemma motor_run_total: "monitor_ok P m \<Longrightarrow> \<exists>ds m'. motor_run m cs = Some (ds, m') \<and> monitor_ok P m' \<and> length ds = length cs"
proof (induction cs arbitrary: m)
  case (Cons c cs)
  obtain l r a src now where c: "c = (l, r, a, src, now)" by (cases c)
  obtain d m1 where 1: "decide_motor_pair m l r a src now = Some (d, m1)" "monitor_ok P m1"
    using decide_motor_pair_ok [OF Cons.prems] by blast
  with Cons.IH [OF 1(2)] show ?case by (auto simp: c)
qed simp

text \<open>A moving decision pays for its movement; the outputs are the new setpoints.\<close>

lemma moving_step:
  assumes ok: "monitor_ok P m" and d: "decide_motor_pair m l r a src now = Some (d, m1)" "moves d"
    and W: "ACT_RATE_WINDOW_NS P \<noteq> 0" "1600 * unat (ACT_RATE_WINDOW_NS P) < 2 ^ 64"
    and T: "T1 \<le> now" "now \<le> T2" "mp_last_update_ns (motor_pair m) \<le> T2"
  shows "monitor_ok P m1" "fst (pair_apply d) = mp_left (motor_pair m1)" "fst (snd (pair_apply d)) = mp_right (motor_pair m1)"
    and "max (nat \<bar>mp_left (motor_pair m1) - mp_left (motor_pair m)\<bar>) (nat \<bar>mp_right (motor_pair m1) - mp_right (motor_pair m)\<bar>)
           * unat (ACT_RATE_WINDOW_NS P)
         + unat (step_per_window (pwm_envelope P)) * max (unat (mp_last_update_ns (motor_pair m))) (unat T1 - unat (ACT_RATE_WINDOW_NS P))
       \<le> unat (step_per_window (pwm_envelope P)) * unat (mp_last_update_ns (motor_pair m1))"
    and "mp_last_update_ns (motor_pair m1) \<le> T2"
proof -
  let ?st = "motor_pair m" and ?st' = "motor_pair m1" and ?e = "pwm_envelope P"
  let ?eff = "max now (mp_last_update_ns ?st)"
  let ?mv = "max (nat \<bar>mp_left ?st' - mp_left ?st\<bar>) (nat \<bar>mp_right ?st' - mp_right ?st\<bar>)"
  let ?s = "unat (step_per_window ?e)" and ?W = "unat (ACT_RATE_WINDOW_NS P)"
  from decide_motor_pair_ok [OF ok, of l r a src now] d(1)
  have ok1: "monitor_ok P m1" and spec: "pair_spec P m l r a now d ?st'" by auto
  show "monitor_ok P m1" by (rule ok1)
  have go: "\<not> pair_refused m a" using spec d(2) by (auto simp: pair_spec_def moves_def Let_def)
  have dd: "d = (if mp_left ?st' = l \<and> mp_right ?st' = r then PairAllow l r else PairClamp (mp_left ?st') (mp_right ?st'))"
    and step: "\<bar>mp_left ?st' - mp_left ?st\<bar> \<le> motor_step ?e (credited_elapsed ?e ?eff (mp_last_update_ns ?st))"
      "\<bar>mp_right ?st' - mp_right ?st\<bar> \<le> motor_step ?e (credited_elapsed ?e ?eff (mp_last_update_ns ?st))"
    and org: "mp_last_update_ns ?st' = motor_credit_origin ?e ?eff (credited_elapsed ?e ?eff (mp_last_update_ns ?st)) ?mv"
    using spec unfolding pair_spec_def Let_def if_not_P [OF go] by blast+
  show "fst (pair_apply d) = mp_left ?st'" "fst (snd (pair_apply d)) = mp_right ?st'" by (simp_all add: dd)
  have mv1600: "?mv \<le> 1600"
  proof -
    have "pair_bound P \<le> 800" by (simp add: pair_bound_def)
    then have "\<bar>mp_left ?st' - mp_left ?st\<bar> \<le> 1600" "\<bar>mp_right ?st' - mp_right ?st\<bar> \<le> 1600"
      using monitor_okD(5,6) [OF ok] monitor_okD(5,6) [OF ok1] by linarith+
    then show ?thesis by (simp add: nat_le_iff)
  qed
  have "?mv * ?W < 2 ^ 64" using mult_le_mono1 [OF mv1600, of ?W] W(2) by (rule le_less_trans)
  moreover have "?mv < 2 ^ 64" by (rule le_less_trans [OF mv1600]) simp
  ultimately have fit: "?mv * unat (env_window_ns ?e) < 2 ^ 64" "?mv < 2 ^ 64" by simp_all
  have mv: "?mv \<le> nat (motor_step ?e (credited_elapsed ?e ?eff (mp_last_update_ns ?st)))"
    by (rule max.boundedI; rule nat_mono; rule step)
  have We: "env_window_ns ?e = ACT_RATE_WINDOW_NS P" by simp
  have W': "env_window_ns ?e \<noteq> 0" using W(1) by simp
  note budget = motor_credit_origin_budget [OF W' fit max.cobounded2 mv, folded org]
  have "unat T1 - ?W \<le> unat ?eff - ?W" using T(1) by (intro diff_le_mono) (simp add: word_le_nat_alt max_def)
  then have "?s * max (unat (mp_last_update_ns ?st)) (unat T1 - ?W) \<le> ?s * max (unat (mp_last_update_ns ?st)) (unat ?eff - ?W)"
    by (intro mult_le_mono2 max.mono order_refl)
  with budget(1) [unfolded We] show "?mv * ?W + ?s * max (unat (mp_last_update_ns ?st)) (unat T1 - ?W) \<le> ?s * unat (mp_last_update_ns ?st')"
    by linarith
  show "mp_last_update_ns ?st' \<le> T2" using T(2,3) by (intro order_trans [OF budget(3)] max.boundedI)
qed

lemma budget_chain: "a \<le> b + c \<Longrightarrow> d \<le> e \<Longrightarrow> c + e \<le> f \<Longrightarrow> b + g \<le> d \<Longrightarrow> a + g \<le> f" for a b c d e f g :: nat
  by linarith

lemma travel_budget:
  assumes "monitor_ok P m" "motor_run m cs = Some (ds, m')" "list_all moves ds"
    and W: "ACT_RATE_WINDOW_NS P \<noteq> 0" "1600 * unat (ACT_RATE_WINDOW_NS P) < 2 ^ 64"
    and "\<forall>c \<in> set cs. T1 \<le> command_time c \<and> command_time c \<le> T2"
    and "mp_last_update_ns (motor_pair m) \<le> T2"
  shows "max (travel (mp_left (motor_pair m)) (lefts ds)) (travel (mp_right (motor_pair m)) (rights ds))
           * unat (ACT_RATE_WINDOW_NS P)
         + unat (step_per_window (pwm_envelope P)) * max (unat (mp_last_update_ns (motor_pair m))) (unat T1 - unat (ACT_RATE_WINDOW_NS P))
       \<le> unat (step_per_window (pwm_envelope P)) * max (unat (mp_last_update_ns (motor_pair m'))) (unat T1 - unat (ACT_RATE_WINDOW_NS P))
     \<and> mp_last_update_ns (motor_pair m') \<le> T2"
  using assms(1-3,6-)
proof (induction cs arbitrary: m ds)
  case Nil
  then show ?case by (simp add: lefts_def rights_def)
next
  case (Cons c cs)
  obtain l r a src now where c: "c = (l, r, a, src, now)" by (cases c)
  from Cons.prems(2) obtain d m1 ds' where d: "decide_motor_pair m l r a src now = Some (d, m1)"
    and run: "motor_run m1 cs = Some (ds', m')" and ds: "ds = d # ds'"
    by (auto simp: c split: option.splits prod.splits)
  have T: "T1 \<le> now" "now \<le> T2" using Cons.prems(4) by (simp_all add: c)
  have mv: "moves d" "list_all moves ds'" using Cons.prems(3) by (simp_all add: ds)
  note st = moving_step [OF Cons.prems(1) d mv(1) W T Cons.prems(5)]
  have T': "\<forall>c \<in> set cs. T1 \<le> command_time c \<and> command_time c \<le> T2" using Cons.prems(4) by simp
  let ?s = "unat (step_per_window (pwm_envelope P))" and ?W = "unat (ACT_RATE_WINDOW_NS P)"
  let ?dl = "nat \<bar>mp_left (motor_pair m1) - mp_left (motor_pair m)\<bar>" and ?dr = "nat \<bar>mp_right (motor_pair m1) - mp_right (motor_pair m)\<bar>"
  let ?tl = "travel (mp_left (motor_pair m1)) (lefts ds')" and ?tr = "travel (mp_right (motor_pair m1)) (rights ds')"
  have ih: "max ?tl ?tr * ?W + ?s * max (unat (mp_last_update_ns (motor_pair m1))) (unat T1 - ?W)
       \<le> ?s * max (unat (mp_last_update_ns (motor_pair m'))) (unat T1 - ?W)" "mp_last_update_ns (motor_pair m') \<le> T2"
    using Cons.IH [OF st(1) run mv(2) T' st(5)] by auto
  have split: "travel (mp_left (motor_pair m)) (lefts ds) = ?dl + ?tl" "travel (mp_right (motor_pair m)) (rights ds) = ?dr + ?tr"
    using st(2,3) by (simp_all add: ds lefts_def rights_def)
  have "max (?dl + ?tl) (?dr + ?tr) * ?W \<le> max ?dl ?dr * ?W + max ?tl ?tr * ?W"
    unfolding distrib_right [symmetric]
    by (intro mult_le_mono1 max.boundedI add_mono max.cobounded1 max.cobounded2)
  moreover have "?s * unat (mp_last_update_ns (motor_pair m1)) \<le> ?s * max (unat (mp_last_update_ns (motor_pair m1))) (unat T1 - ?W)"
    by (intro mult_le_mono2) simp
  ultimately show ?case unfolding split by (intro conjI ih(2) budget_chain [OF _ _ ih(1) st(4)])
qed

text \<open>Under the embedded profile a wheel moves at most 200 per mille in each millisecond window.\<close>

lemma window_arith:
  fixes a T1 T2 x y z :: nat
  assumes "T1 \<le> T2" "z \<le> T2" "y \<le> T2" "T1 - w \<le> x" "a + 200 * x \<le> 200 * y"
  shows "a \<le> 200 * (T2 - T1 + w)"
proof -
  have "y \<le> (T2 - T1 + w) + x" using assms(1,3,4) by linarith
  then have "200 * y \<le> 200 * (T2 - T1 + w) + 200 * x" by (simp only: distrib_left [symmetric] mult_le_mono2)
  with assms(5) show ?thesis by linarith
qed

lemma embedded_travel:
  assumes ok: "monitor_ok EmbeddedProfile m" and run: "motor_run m cs = Some (ds, m')" "list_all moves ds"
    and T: "\<forall>c \<in> set cs. T1 \<le> command_time c \<and> command_time c \<le> T2"
    and "mp_last_update_ns (motor_pair m) \<le> T2" "T1 \<le> T2"
  shows "max (travel (mp_left (motor_pair m)) (lefts ds)) (travel (mp_right (motor_pair m)) (rights ds)) * 1000000
     \<le> 200 * (unat T2 - unat T1 + 1000000)"
proof -
  have s: "unat (step_per_window (pwm_envelope EmbeddedProfile)) = 200"
    by (simp add: step_per_window_def EmbeddedProfile_def saturating_mul_def)
  have W: "unat (ACT_RATE_WINDOW_NS EmbeddedProfile) = 1000000" by (simp add: EmbeddedProfile_def)
  have W0: "ACT_RATE_WINDOW_NS EmbeddedProfile \<noteq> 0" by (simp add: EmbeddedProfile_def)
  have W1: "1600 * unat (ACT_RATE_WINDOW_NS EmbeddedProfile) < 2 ^ 64" by (simp add: W)
  let ?o = "unat (mp_last_update_ns (motor_pair m))" and ?o' = "unat (mp_last_update_ns (motor_pair m'))"
  note b = travel_budget [OF ok run W0 W1 T assms(5), unfolded s W]
  have "unat T1 \<le> unat T2" using assms(6) by (simp add: word_le_nat_alt)
  moreover have "?o' \<le> unat T2" using b by (simp add: word_le_nat_alt)
  moreover have "max ?o' (unat T1 - 1000000) \<le> unat T2" using calculation by simp
  moreover have "unat T1 - 1000000 \<le> max ?o (unat T1 - 1000000)" by simp
  moreover have "max (travel (mp_left (motor_pair m)) (lefts ds)) (travel (mp_right (motor_pair m)) (rights ds)) * 1000000
      + 200 * max ?o (unat T1 - 1000000) \<le> 200 * max ?o' (unat T1 - 1000000)" using b by (rule conjunct1)
  ultimately show ?thesis by (rule window_arith)
qed

end
