(* ===== verification/Shrike_Codec.thy ===== *)
theory Shrike_Codec
  imports Rust_Std
begin

text \<open>
  The frame codec of the control link (\<open>shrike_link/src/lib.rs\<close>): messages, the CRC, the encoder
  and the byte-driven decoder. The lemmas show that the decoder inverts the encoder on any stream of
  frames, that a corruption confined to one byte is detected, and that the decoder never
  indexes its payload buffer out of range.
\<close>

section \<open>Messages and checksum\<close>

definition SYNC :: u8 where "SYNC = 0x7E"
definition VERSION :: u8 where "VERSION = 0x01"
definition MAX_PAYLOAD :: nat where [simp]: "MAX_PAYLOAD = 16"
definition MAX_FRAME :: nat where [simp]: "MAX_FRAME = 4 + MAX_PAYLOAD + 2"

definition T_MOTOR :: u8 where "T_MOTOR = 0x01"
definition T_ESTOP :: u8 where "T_ESTOP = 0x02"
definition T_HB_TO_SHRIKE :: u8 where "T_HB_TO_SHRIKE = 0x03"
definition T_SENSOR :: u8 where "T_SENSOR = 0x81"
definition T_HB_TO_PI :: u8 where "T_HB_TO_PI = 0x82"

lemmas frame_types = T_MOTOR_def T_ESTOP_def T_HB_TO_SHRIKE_def T_SENSOR_def T_HB_TO_PI_def

datatype msg =
    MotorSetpoint (motor_seq_of: u8) i16 i16
  | Estop bool
  | HeartbeatToShrike u16
  | Sensor u16 bool u8
  | HeartbeatToPi u16

datatype link_error = BufTooSmall | BadLen | BadCrc | BadVersion | UnknownType

definition crc_shift :: "u16 \<Rightarrow> u16" where
  "crc_shift crc = (if crc AND 0x8000 \<noteq> 0 then push_bit 1 crc XOR 0x1021 else push_bit 1 crc)"

definition crc_step :: "u16 \<Rightarrow> u8 \<Rightarrow> u16" where
  "crc_step crc b = (crc_shift ^^ 8) (crc XOR push_bit 8 (ucast b))"

definition crc16 :: "u8 list \<Rightarrow> u16" where
  "crc16 data = foldl crc_step 0xFFFF data"

definition crc16_split :: "u8 list \<Rightarrow> u8 list \<Rightarrow> u16" where
  "crc16_split head tail = foldl crc_step (foldl crc_step 0xFFFF head) tail"

definition le16 :: "u16 \<Rightarrow> u8 list" where
  "le16 w = [ucast w, ucast (drop_bit 8 w)]"

definition from_le16 :: "u8 \<Rightarrow> u8 \<Rightarrow> u16" where
  "from_le16 a b = ucast a OR push_bit 8 (ucast b)"

section \<open>Encoder\<close>

text \<open>The payload bytes and type of a message: the \<open>match\<close> of \<open>encode\<close>.\<close>

primrec frame_payload :: "msg \<Rightarrow> u8 \<times> u8 list" where
  "frame_payload (MotorSetpoint sq left right) = (T_MOTOR, sq # le16 left @ le16 right)"
| "frame_payload (Estop assert) = (T_ESTOP, [if assert then 1 else 0])"
| "frame_payload (HeartbeatToShrike sq) = (T_HB_TO_SHRIKE, le16 sq)"
| "frame_payload (Sensor echo line flags) = (T_SENSOR, le16 echo @ [if line then 1 else 0, flags])"
| "frame_payload (HeartbeatToPi sq) = (T_HB_TO_PI, le16 sq)"

definition frame_bytes :: "u8 \<Rightarrow> u8 list \<Rightarrow> u8 list" where
  "frame_bytes ty p =
     (let hdr = [VERSION, ty, of_nat (length p)]; crc = crc16 (hdr @ p)
      in SYNC # hdr @ p @ [ucast (crc AND 0xFF), ucast (drop_bit 8 crc)])"

definition encode :: "msg \<Rightarrow> u8 list \<Rightarrow> link_error + (u8 list \<times> nat)" where
  "encode m out =
     (let (ty, p) = frame_payload m; total = 4 + length p + 2
      in if length out < total then Inl BufTooSmall
         else Inr (frame_bytes ty p @ drop total out, total))"

section \<open>Decoder\<close>

datatype dec_phase = DIdle | DVer | DType | DLen | DPayload | DCrcLo | DCrcHi

record decoder =
  d_state :: dec_phase
  d_ty :: u8
  d_len :: nat
  d_idx :: nat
  d_payload :: "u8 list"
  d_crc_lo :: u8

definition decoder_new :: decoder where
  "decoder_new = \<lparr>d_state = DIdle, d_ty = 0, d_len = 0, d_idx = 0, d_payload = replicate MAX_PAYLOAD 0, d_crc_lo = 0\<rparr>"

definition dec_reset :: "decoder \<Rightarrow> decoder" where
  "dec_reset d = d\<lparr>d_state := DIdle, d_idx := 0\<rparr>"

definition need :: "nat \<Rightarrow> nat \<Rightarrow> 'a \<Rightarrow> link_error + 'a" where
  "need len n x = (if len = n then Inr x else Inl BadLen)"

definition decode_msg :: "u8 \<Rightarrow> nat \<Rightarrow> u8 list \<Rightarrow> link_error + msg" where
  "decode_msg ty len p =
     (if ty = T_MOTOR then need len 5 (MotorSetpoint (p ! 0) (from_le16 (p ! 1) (p ! 2)) (from_le16 (p ! 3) (p ! 4)))
      else if ty = T_ESTOP then need len 1 (Estop (p ! 0 \<noteq> 0))
      else if ty = T_HB_TO_SHRIKE then need len 2 (HeartbeatToShrike (from_le16 (p ! 0) (p ! 1)))
      else if ty = T_SENSOR then need len 4 (Sensor (from_le16 (p ! 0) (p ! 1)) (p ! 2 \<noteq> 0) (p ! 3))
      else if ty = T_HB_TO_PI then need len 2 (HeartbeatToPi (from_le16 (p ! 0) (p ! 1)))
      else Inl UnknownType)"

definition dec_push :: "decoder \<Rightarrow> u8 \<Rightarrow> (link_error + msg) option \<times> decoder" where
  "dec_push d b =
     (case d_state d of
        DIdle \<Rightarrow> (None, if b = SYNC then d\<lparr>d_state := DVer\<rparr> else d)
      | DVer \<Rightarrow> if b = VERSION then (None, d\<lparr>d_state := DType\<rparr>) else (Some (Inl BadVersion), dec_reset d)
      | DType \<Rightarrow> (None, d\<lparr>d_ty := b, d_state := DLen\<rparr>)
      | DLen \<Rightarrow> if unat b > MAX_PAYLOAD then (Some (Inl BadLen), dec_reset d)
                else (None, d\<lparr>d_len := unat b, d_idx := 0, d_state := (if unat b = 0 then DCrcLo else DPayload)\<rparr>)
      | DPayload \<Rightarrow>
          let d1 = d\<lparr>d_payload := (d_payload d)[d_idx d := b], d_idx := d_idx d + 1\<rparr>
          in (None, if d_idx d1 = d_len d1 then d1\<lparr>d_state := DCrcLo\<rparr> else d1)
      | DCrcLo \<Rightarrow> (None, d\<lparr>d_crc_lo := b, d_state := DCrcHi\<rparr>)
      | DCrcHi \<Rightarrow>
          let got = from_le16 (d_crc_lo d) b;
              p = take (d_len d) (d_payload d);
              want = crc16_split [VERSION, d_ty d, of_nat (d_len d)] p;
              result = (if got \<noteq> want then Inl BadCrc else decode_msg (d_ty d) (d_len d) p)
          in (Some result, dec_reset d))"

text \<open>Feeding bytes one after the other, as the receive loops of both ends do.\<close>

primrec drain :: "decoder \<Rightarrow> u8 list \<Rightarrow> (link_error + msg) list \<times> decoder" where
  "drain d [] = ([], d)"
| "drain d (b # bs) =
     (let (r, d1) = dec_push d b; (rs, d2) = drain d1 bs
      in (case r of None \<Rightarrow> rs | Some x \<Rightarrow> x # rs, d2))"

lemma drain_append:
  "drain d (xs @ ys) = (let (rs, d1) = drain d xs; (ss, d2) = drain d1 ys in (rs @ ss, d2))"
  by (induction xs arbitrary: d) (auto simp: Let_def split: prod.splits option.splits)

section \<open>Checksum facts\<close>

lemma crc16_split_append: "crc16_split head tail = crc16 (head @ tail)"
  by (simp add: crc16_split_def crc16_def)

lemma from_le16_le16: "from_le16 (ucast w) (ucast (drop_bit 8 w)) = w"
  by (rule bit_word_eqI) (auto simp: from_le16_def bit_simps)

lemma u8_high_bit: "\<not> bit (a :: u8) (n + 8)"
  using bit_imp_le_length [of a "n + 8"] by auto

lemma ucast_low_byte: "(ucast (w AND 0xFF) :: u8) = ucast (w :: u16)"
proof -
  have m: "(0xFF :: u16) = mask 8" by (simp add: mask_eq_exp_minus_1)
  show ?thesis unfolding m by (intro bit_word_eqI) (auto simp: bit_simps)
qed

lemma from_le16_inject: "from_le16 a b = from_le16 a' b' \<longleftrightarrow> a = a' \<and> b = b'"
proof
  assume eq: "from_le16 a b = from_le16 a' b'"
  have "bit a n = bit a' n" if "n < 8" for n
    using that arg_cong [OF eq, of "\<lambda>w. bit w n"] by (simp add: from_le16_def bit_simps)
  moreover have "bit b n = bit b' n" if "n < 8" for n
    using that arg_cong [OF eq, of "\<lambda>w. bit w (n + 8)"] by (simp add: from_le16_def bit_simps u8_high_bit)
  ultimately show "a = a' \<and> b = b'" by (auto intro!: bit_word_eqI)
qed simp

lemma xor_right_cancel: "a XOR c = b XOR c \<longleftrightarrow> a = b" for a b c :: "'a::len word"
  by (metis xor.assoc xor_self_eq xor.right_neutral)

lemma xor_left_cancel: "c XOR a = c XOR b \<longleftrightarrow> a = b" for a b c :: "'a::len word"
  by (simp add: xor.commute [of c] xor_right_cancel)

text \<open>One shift is injective, because the polynomial is odd: the bit shifted out reappears as bit 0.\<close>

lemma crc_shift_inj: "crc_shift x = crc_shift y \<Longrightarrow> x = y"
proof -
  assume eq: "crc_shift x = crc_shift y"
  have msb: "w AND 0x8000 \<noteq> 0 \<longleftrightarrow> bit w 15" for w :: u16
    using bit_iff_and_push_bit_not_eq_0 [of w 15] by simp
  have b0: "bit (crc_shift w) 0 = bit w 15" for w
    unfolding crc_shift_def msb by (simp add: bit_0 even_xor_iff)
  have same: "bit x 15 = bit y 15" using b0 [of x] b0 [of y] eq by simp
  then have "push_bit 1 x = push_bit 1 y" using eq unfolding crc_shift_def msb
    by (cases "bit x 15") (simp_all add: xor_right_cancel)
  then have "bit (push_bit 1 x) (Suc n) = bit (push_bit 1 y) (Suc n)" for n by simp
  moreover have "bit (push_bit 1 w) (Suc n) = bit w n" if "n < 15" for n and w :: u16
    unfolding bit_push_bit_iff using that by simp
  ultimately have low: "bit x n = bit y n" if "n < 15" for n using that by metis
  show "x = y"
  proof (rule bit_word_eqI)
    fix n
    assume "n < LENGTH(16)"
    then have "n < 15 \<or> n = 15" by auto
    then show "bit x n = bit y n" using low same by blast
  qed
qed

lemma crc_step_inj: "crc_step c b = crc_step c' b' \<Longrightarrow> c XOR push_bit 8 (ucast b) = c' XOR push_bit 8 (ucast b')"
proof -
  have "inj crc_shift" by (rule injI) (rule crc_shift_inj)
  then have "inj (crc_shift ^^ 8)" by (rule inj_fn)
  then show "crc_step c b = crc_step c' b' \<Longrightarrow> c XOR push_bit 8 (ucast b) = c' XOR push_bit 8 (ucast b')"
    unfolding crc_step_def by (rule injD)
qed

lemma crc_step_state: "crc_step c b = crc_step c' b \<Longrightarrow> c = c'"
  using crc_step_inj [of c b c' b] by (simp add: xor_right_cancel)

lemma crc_step_byte: "crc_step c b = crc_step c b' \<Longrightarrow> b = b'"
proof -
  assume "crc_step c b = crc_step c b'"
  then have eq: "push_bit 8 (ucast b) = (push_bit 8 (ucast b') :: u16)"
    using crc_step_inj [of c b c b'] by (simp add: xor_left_cancel)
  have "bit b n = bit b' n" if "n < 8" for n
    using that arg_cong [OF eq, of "\<lambda>w. bit w (n + 8)"] by (simp add: bit_simps)
  then show ?thesis by (auto intro!: bit_word_eqI)
qed

lemma crc_fold_state: "foldl crc_step c ys = foldl crc_step c' ys \<Longrightarrow> c = c'"
  by (induction ys arbitrary: c c') (auto dest: crc_step_state)

text \<open>Data that differ in exactly one byte have different checksums.\<close>

theorem crc16_single_byte: "crc16 (xs @ b # ys) = crc16 (xs @ b' # ys) \<Longrightarrow> b = b'"
  unfolding crc16_def by (auto dest!: crc_fold_state crc_step_byte)

section \<open>The decoder on frames\<close>

text \<open>
  The invariant of the decoder: the payload buffer has its fixed length and the write index stays
  below the announced length while the payload is read.
\<close>

definition dec_ok :: "decoder \<Rightarrow> bool" where
  "dec_ok d \<longleftrightarrow> length (d_payload d) = MAX_PAYLOAD \<and> d_len d \<le> MAX_PAYLOAD \<and> (d_state d = DPayload \<longrightarrow> d_idx d < d_len d)"

lemma dec_ok_new: "dec_ok decoder_new"
  by (simp add: dec_ok_def decoder_new_def)

lemma dec_ok_push: "dec_ok d \<Longrightarrow> dec_ok (snd (dec_push d b))"
  by (cases "d_state d") (auto simp: dec_ok_def dec_push_def dec_reset_def Let_def)

lemma dec_ok_drain: "dec_ok d \<Longrightarrow> dec_ok (snd (drain d bs))"
proof (induction bs arbitrary: d)
  case (Cons b bs)
  then show ?case using Cons.IH [OF dec_ok_push [OF Cons.prems, of b]]
    by (simp add: Let_def case_prod_unfold)
qed simp

lemma drain_payload:
  assumes "d_state d = DPayload" "d_idx d + length p = d_len d" "d_len d \<le> length (d_payload d)" "p \<noteq> []"
  shows "drain d p = ([], d\<lparr>d_payload := take (d_idx d) (d_payload d) @ p @ drop (d_len d) (d_payload d),
     d_idx := d_len d, d_state := DCrcLo\<rparr>)"
  using assms
proof (induction p arbitrary: d)
  case (Cons b p)
  let ?d1 = "d\<lparr>d_payload := (d_payload d)[d_idx d := b], d_idx := d_idx d + 1\<rparr>"
  have i: "d_idx d < length (d_payload d)" using Cons.prems by simp
  have tk: "take (Suc (d_idx d)) ((d_payload d)[d_idx d := b]) = take (d_idx d) (d_payload d) @ [b]"
    using i by (simp add: take_Suc_conv_app_nth)
  have dr: "drop (d_len d) ((d_payload d)[d_idx d := b]) = drop (d_len d) (d_payload d)"
    using Cons.prems by simp
  show ?case
  proof (cases "p = []")
    case True
    then have "d_len d = Suc (d_idx d)" using Cons.prems by simp
    then show ?thesis using True Cons.prems i
      by (simp add: dec_push_def Let_def upd_conv_take_nth_drop)
  next
    case False
    then have "drain ?d1 p = ([], ?d1\<lparr>d_payload := take (d_idx ?d1) (d_payload ?d1) @ p @ drop (d_len ?d1) (d_payload ?d1),
     d_idx := d_len ?d1, d_state := DCrcLo\<rparr>)"
      using Cons.prems by (intro Cons.IH) simp_all
    moreover have "Suc (d_idx d) \<noteq> d_len d" using Cons.prems(2) False by (cases p) auto
    then have "dec_push d b = (None, ?d1)"
      using Cons.prems(1) by (simp add: dec_push_def Let_def)
    ultimately show ?thesis using tk dr by simp
  qed
qed simp

lemma drain_frame_aux:
  assumes d: "d_state d = DIdle" "dec_ok d" and p: "length p \<le> MAX_PAYLOAD"
  shows "\<exists>d'. drain d (SYNC # VERSION # ty # of_nat (length p) # p @ [lo, hi]) =
     ([if from_le16 lo hi \<noteq> crc16 ([VERSION, ty, of_nat (length p)] @ p) then Inl BadCrc
       else decode_msg ty (length p) p], d') \<and> d_state d' = DIdle \<and> dec_ok d'"
proof -
  have len: "unat (of_nat (length p) :: u8) = length p" using p by (simp add: unat_of_nat)
  have lp: "length (d_payload d) = 16" using d(2) by (simp add: dec_ok_def)
  let ?d3 = "d\<lparr>d_ty := ty, d_len := length p, d_idx := 0, d_state := (if p = [] then DCrcLo else DPayload)\<rparr>"
  have hdr: "drain d (SYNC # VERSION # ty # of_nat (length p) # bs) = drain ?d3 bs" for bs
    using d(1) p len by (simp add: dec_push_def Let_def split: prod.splits)
  let ?d4 = "?d3\<lparr>d_payload := p @ drop (length p) (d_payload d), d_idx := length p, d_state := DCrcLo\<rparr>"
  have pay: "drain ?d3 p = ([], if p = [] then ?d3 else ?d4)"
    using drain_payload [of ?d3 p] p lp by auto
  have pl: "take (length p) (d_payload (if p = [] then ?d3 else ?d4)) = p" by simp
  show ?thesis
    unfolding hdr drain_append pay using pl d(2) p
    by (auto simp: dec_push_def Let_def dec_reset_def crc16_split_append dec_ok_def)
qed

lemma frame_payload_length: "frame_payload m = (ty, p) \<Longrightarrow> 1 \<le> length p \<and> length p \<le> 5"
  by (cases m) (auto simp: le16_def)

lemma decode_frame_payload: "frame_payload m = (ty, p) \<Longrightarrow> decode_msg ty (length p) p = Inr m"
  by (cases m) (auto simp: decode_msg_def need_def le16_def from_le16_le16 frame_types split: if_splits)

definition frame_of :: "msg \<Rightarrow> u8 list" where
  "frame_of m = (let (ty, p) = frame_payload m in frame_bytes ty p)"

lemma length_frame_bytes [simp]: "length (frame_bytes ty p) = 6 + length p"
  by (simp add: frame_bytes_def Let_def)

lemma encode_frame_of: "length (frame_of m) \<le> length out \<Longrightarrow>
   encode m out = Inr (frame_of m @ drop (length (frame_of m)) out, length (frame_of m))"
  by (auto simp: encode_def frame_of_def Let_def split: prod.splits)

lemma frame_of_length: "7 \<le> length (frame_of m)" "length (frame_of m) \<le> MAX_FRAME"
  using frame_payload_length [of m] by (auto simp: frame_of_def split: prod.splits)

lemma drain_frame_of:
  assumes "d_state d = DIdle" "dec_ok d"
  shows "\<exists>d'. drain d (frame_of m) = ([Inr m], d') \<and> d_state d' = DIdle \<and> dec_ok d'"
proof -
  obtain ty p where f: "frame_payload m = (ty, p)" by (cases "frame_payload m")
  let ?crc = "crc16 ([VERSION, ty, of_nat (length p)] @ p)"
  have "length p \<le> MAX_PAYLOAD" using frame_payload_length [OF f] by simp
  moreover have "frame_of m = SYNC # VERSION # ty # of_nat (length p) # p @ [ucast (?crc AND 0xFF), ucast (drop_bit 8 ?crc)]"
    by (simp add: frame_of_def f frame_bytes_def Let_def)
  ultimately show ?thesis
    using drain_frame_aux [OF assms, of p ty "ucast (?crc AND 0xFF)" "ucast (drop_bit 8 ?crc)"]
    by (simp add: ucast_low_byte from_le16_le16 decode_frame_payload [OF f])
qed

text \<open>Any sequence of frames decodes to the messages, from any idle decoder.\<close>

theorem drain_frames:
  assumes "d_state d = DIdle" "dec_ok d"
  shows "\<exists>d'. drain d (concat (map frame_of ms)) = (map Inr ms, d') \<and> d_state d' = DIdle \<and> dec_ok d'"
  using assms
proof (induction ms arbitrary: d)
  case (Cons m ms)
  from drain_frame_of [OF Cons.prems] obtain d1
    where d1: "drain d (frame_of m) = ([Inr m], d1)" "d_state d1 = DIdle" "dec_ok d1" by blast
  from Cons.IH [OF d1(2,3)] show ?case by (auto simp: drain_append d1(1))
qed simp

text \<open>
  A frame whose type, payload or checksum bytes are corrupted in one place is reported as \<open>BadCrc\<close>,
  and the decoder is aligned on the next frame.
\<close>

theorem corrupt_frame_detected:
  assumes d: "d_state d = DIdle" "dec_ok d"
    and i: "i < length (frame_of m)" "i = 2 \<or> 4 \<le> i" and b: "b \<noteq> frame_of m ! i"
  shows "\<exists>d'. drain d ((frame_of m)[i := b]) = ([Inl BadCrc], d') \<and> d_state d' = DIdle \<and> dec_ok d'"
proof -
  obtain ty p where f: "frame_payload m = (ty, p)" by (cases "frame_payload m")
  let ?n = "of_nat (length p) :: u8"
  let ?crc = "\<lambda>ty p. crc16 ([VERSION, ty, ?n] @ p)"
  let ?lo = "ucast (?crc ty p AND 0xFF) :: u8" and ?hi = "ucast (drop_bit 8 (?crc ty p)) :: u8"
  have p: "length p \<le> MAX_PAYLOAD" using frame_payload_length [OF f] by simp
  have fr: "frame_of m = SYNC # VERSION # ty # ?n # p @ [?lo, ?hi]"
    by (simp add: frame_of_def f frame_bytes_def Let_def)
  have crc: "from_le16 ?lo ?hi = ?crc ty p" by (simp only: ucast_low_byte from_le16_le16)
  have bad: ?thesis if eq: "(frame_of m)[i := b] = SYNC # VERSION # ty' # ?n # p' @ [lo', hi']"
    and l: "length p' = length p" and ne: "from_le16 lo' hi' \<noteq> ?crc ty' p'" for ty' p' lo' hi'
    using drain_frame_aux [OF d, of p' ty' lo' hi'] p ne by (simp add: eq l)
  have "length (frame_of m) = 6 + length p" by (simp add: fr)
  with i have "i = 2 \<or> (i = 4 + (i - 4) \<and> i - 4 < length p) \<or> i = 4 + length p \<or> i = 5 + length p" by linarith
  then consider (ty) "i = 2" | (pay) j where "i = 4 + j" "j < length p" | (lo) "i = 4 + length p" | (hi) "i = 5 + length p"
    by blast
  then show ?thesis
  proof cases
    case ty
    have "?crc b p \<noteq> ?crc ty p" using b ty crc16_single_byte [of "[VERSION]" b "?n # p" ty] by (auto simp: fr)
    then show ?thesis using ty crc by (intro bad [of b p ?lo ?hi]) (auto simp: fr)
  next
    case (pay j)
    have "?crc ty (p[j := b]) \<noteq> ?crc ty p"
    proof
      assume eq: "?crc ty (p[j := b]) = ?crc ty p"
      have "crc16 (([VERSION, ty, ?n] @ take j p) @ b # drop (Suc j) p)
          = crc16 (([VERSION, ty, ?n] @ take j p) @ p ! j # drop (Suc j) p)"
        using eq pay(2) by (simp add: upd_conv_take_nth_drop id_take_nth_drop [of j p, symmetric])
      then have "b = p ! j" by (rule crc16_single_byte)
      with b pay show False by (simp add: fr nth_append)
    qed
    then show ?thesis using pay crc by (intro bad [of ty "p[j := b]" ?lo ?hi]) (auto simp: fr list_update_append)
  next
    case lo
    have "from_le16 b ?hi \<noteq> ?crc ty p" using b lo crc from_le16_inject [of b ?hi ?lo ?hi] by (auto simp: fr nth_append)
    then show ?thesis using lo by (intro bad [of ty p b ?hi]) (auto simp: fr list_update_append)
  next
    case hi
    have "from_le16 ?lo b \<noteq> ?crc ty p" using b hi crc from_le16_inject [of ?lo b ?lo ?hi] by (auto simp: fr nth_append)
    then show ?thesis using hi by (intro bad [of ty p ?lo b]) (auto simp: fr list_update_append)
  qed
qed

end
