(* ===== verification/Shrike_Link.thy ===== *)
theory Shrike_Link
  imports Shrike_Codec
begin

text \<open>
  The state machines of the control link (\<open>shrike_link\<close>): the byte ring, the transmit state, the
  kernel-side session with its liveness timer, the duty arithmetic, and the watchdog of the motor
  controller.
\<close>

section \<open>Byte ring\<close>

record ring_buf =
  rb_buf :: "u8 list"
  rb_head :: nat
  rb_tail :: nat
  rb_len :: nat

definition ring_buf_new :: "nat \<Rightarrow> ring_buf" where
  "ring_buf_new N = \<lparr>rb_buf = replicate N 0, rb_head = 0, rb_tail = 0, rb_len = 0\<rparr>"

definition ring_is_full :: "ring_buf \<Rightarrow> bool" where
  "ring_is_full r \<longleftrightarrow> rb_len r = length (rb_buf r)"

definition ring_push :: "ring_buf \<Rightarrow> u8 \<Rightarrow> bool \<times> ring_buf" where
  "ring_push r b =
     (let N = length (rb_buf r) in
      if rb_len r = N then (False, r)
      else (True, r\<lparr>rb_buf := (rb_buf r)[rb_tail r := b], rb_tail := (rb_tail r + 1) mod N, rb_len := rb_len r + 1\<rparr>))"

definition ring_pop :: "ring_buf \<Rightarrow> u8 option \<times> ring_buf" where
  "ring_pop r =
     (if rb_len r = 0 then (None, r)
      else (Some (rb_buf r ! rb_head r),
            r\<lparr>rb_head := (rb_head r + 1) mod length (rb_buf r), rb_len := rb_len r - 1\<rparr>))"

section \<open>Transmit state\<close>

record tx_frame =
  f_bytes :: "u8 list"
  f_len :: nat
  f_sent :: nat
  f_motor_pair :: "(i16 \<times> i16) option"
  f_estop_assert :: bool
  f_queued_at :: u64

record tx_state =
  tx_active :: "tx_frame option"
  tx_pending_motor :: "(i16 \<times> i16 \<times> u64) option"
  tx_last_motor_on_wire :: "i16 \<times> i16"

definition tx_new :: tx_state where
  "tx_new = \<lparr>tx_active = None, tx_pending_motor = None, tx_last_motor_on_wire = (0, 0)\<rparr>"

definition msg_motor_pair :: "msg \<Rightarrow> (i16 \<times> i16) option" where
  "msg_motor_pair m = (case m of MotorSetpoint _ l r \<Rightarrow> Some (l, r) | _ \<Rightarrow> None)"

definition tx_start :: "tx_state \<Rightarrow> msg \<Rightarrow> u64 \<Rightarrow> bool \<times> tx_state" where
  "tx_start t m now =
     (if tx_active t \<noteq> None then (False, t)
      else case encode m (replicate MAX_FRAME 0) of
        Inl _ \<Rightarrow> (False, t)
      | Inr (bytes, len) \<Rightarrow>
          (True, t\<lparr>tx_active := Some \<lparr>f_bytes = bytes, f_len = len, f_sent = 0,
             f_motor_pair = msg_motor_pair m, f_estop_assert = (m = Estop True), f_queued_at = now\<rparr>\<rparr>))"

definition tx_next_byte :: "tx_state \<Rightarrow> u8 option \<times> tx_state" where
  "tx_next_byte t =
     (case tx_active t of None \<Rightarrow> (None, t)
      | Some f \<Rightarrow>
          let byte = f_bytes f ! f_sent f; f1 = f\<lparr>f_sent := f_sent f + 1\<rparr>
          in (Some byte,
              if f_sent f1 = f_len f1
              then t\<lparr>tx_active := None, tx_last_motor_on_wire :=
                     (case f_motor_pair f1 of Some pair \<Rightarrow> pair
                      | None \<Rightarrow> if f_estop_assert f1 then (0, 0) else tx_last_motor_on_wire t)\<rparr>
              else t\<lparr>tx_active := Some f1\<rparr>))"

definition unsent :: "tx_frame option \<Rightarrow> bool" where
  "unsent fo = (case fo of None \<Rightarrow> False | Some f \<Rightarrow> f_sent f = 0)"

definition tx_cancel_unsent :: "tx_state \<Rightarrow> tx_state" where
  "tx_cancel_unsent t = (if unsent (tx_active t) then t\<lparr>tx_active := None\<rparr> else t)"

definition tx_is_idle :: "tx_state \<Rightarrow> bool" where
  "tx_is_idle t \<longleftrightarrow> tx_active t = None"

definition tx_replace_motor :: "tx_state \<Rightarrow> i16 \<Rightarrow> i16 \<Rightarrow> u64 \<Rightarrow> tx_state" where
  "tx_replace_motor t l r now = t\<lparr>tx_pending_motor := Some (l, r, now)\<rparr>"

definition unsent_motor :: "tx_frame option \<Rightarrow> bool" where
  "unsent_motor fo = (case fo of None \<Rightarrow> False | Some f \<Rightarrow> f_motor_pair f \<noteq> None \<and> f_sent f = 0)"

definition tx_prioritize_motor :: "tx_state \<Rightarrow> i16 \<Rightarrow> i16 \<Rightarrow> u64 \<Rightarrow> tx_state" where
  "tx_prioritize_motor t l r now =
     (let t1 = (if unsent_motor (tx_active t) then t\<lparr>tx_active := None\<rparr> else t)
      in t1\<lparr>tx_pending_motor := Some (l, r, now)\<rparr>)"

definition tx_clear_motor :: "tx_state \<Rightarrow> tx_state" where
  "tx_clear_motor t = t\<lparr>tx_pending_motor := None\<rparr>"

definition reverses :: "i16 \<Rightarrow> i16 \<Rightarrow> bool" where
  "reverses current target \<longleftrightarrow> current \<noteq> 0 \<and> target \<noteq> 0 \<and> sgn (sint current) \<noteq> sgn (sint target)"

definition tx_take_motor :: "tx_state \<Rightarrow> (i16 \<times> i16 \<times> u64) option \<times> tx_state" where
  "tx_take_motor t =
     (case tx_pending_motor t of None \<Rightarrow> (None, t)
      | Some (l, r, at) \<Rightarrow>
          if reverses (fst (tx_last_motor_on_wire t)) l \<or> reverses (snd (tx_last_motor_on_wire t)) r
          then (Some (0, 0, at), t)
          else (Some (l, r, at), t\<lparr>tx_pending_motor := None\<rparr>))"

definition tx_discard_expired_motor :: "tx_state \<Rightarrow> u64 \<Rightarrow> u64 \<Rightarrow> tx_state" where
  "tx_discard_expired_motor t now timeout =
     (let t1 = (case tx_pending_motor t of
            Some (_, _, at) \<Rightarrow> if saturating_sub now at \<ge> timeout then t\<lparr>tx_pending_motor := None\<rparr> else t
          | None \<Rightarrow> t)
      in case tx_active t1 of
           Some f \<Rightarrow> if f_motor_pair f \<noteq> None \<and> f_sent f = 0 \<and> saturating_sub now (f_queued_at f) \<ge> timeout
                     then t1\<lparr>tx_active := None\<rparr> else t1
         | None \<Rightarrow> t1)"

section \<open>Liveness and session\<close>

record link_liveness =
  ll_timeout :: u64
  ll_deadline :: u64
  ll_seen :: bool

definition liveness_new :: "u64 \<Rightarrow> link_liveness" where
  "liveness_new timeout = \<lparr>ll_timeout = timeout, ll_deadline = 0, ll_seen = False\<rparr>"

definition liveness_on_inbound :: "link_liveness \<Rightarrow> u64 \<Rightarrow> link_liveness" where
  "liveness_on_inbound v now = v\<lparr>ll_seen := True, ll_deadline := saturating_add now (ll_timeout v)\<rparr>"

definition liveness_alive :: "link_liveness \<Rightarrow> u64 \<Rightarrow> bool" where
  "liveness_alive v now \<longleftrightarrow> ll_seen v \<and> now < ll_deadline v"

datatype link_action = LinkIdle | Heartbeat u16 | LinkSafeStop

record link_session =
  ls_live :: link_liveness
  ls_hb_period :: u64
  ls_hb_seq :: u16
  ls_last_hb :: u64
  ls_alive_prev :: bool
  ls_estop_done :: bool

definition session_new :: "u64 \<Rightarrow> u64 \<Rightarrow> link_session" where
  "session_new timeout hb_period = \<lparr>ls_live = liveness_new timeout, ls_hb_period = hb_period, ls_hb_seq = 0,
     ls_last_hb = 0, ls_alive_prev = False, ls_estop_done = False\<rparr>"

definition session_on_inbound :: "link_session \<Rightarrow> u64 \<Rightarrow> link_session" where
  "session_on_inbound s now = s\<lparr>ls_live := liveness_on_inbound (ls_live s) now\<rparr>"

definition session_alive :: "link_session \<Rightarrow> u64 \<Rightarrow> bool" where
  "session_alive s now = liveness_alive (ls_live s) now"

definition session_tick :: "link_session \<Rightarrow> u64 \<Rightarrow> link_action \<times> link_session" where
  "session_tick s now =
     (if liveness_alive (ls_live s) now then
        let s1 = s\<lparr>ls_alive_prev := True, ls_estop_done := False\<rparr>
        in if now - ls_last_hb s1 \<ge> ls_hb_period s1
           then (Heartbeat (ls_hb_seq s1), s1\<lparr>ls_last_hb := now, ls_hb_seq := ls_hb_seq s1 + 1\<rparr>)
           else (LinkIdle, s1)
      else
        let s1 = (if ls_alive_prev s then s\<lparr>ls_alive_prev := False, ls_estop_done := False\<rparr> else s)
        in if \<not> ls_estop_done s1 then (LinkSafeStop, s1) else (LinkIdle, s1))"

definition session_estop_sent :: "link_session \<Rightarrow> link_session" where
  "session_estop_sent s = s\<lparr>ls_estop_done := True\<rparr>"

section \<open>Motor duty\<close>

datatype direction = Forward | Reverse | Coast
datatype motor_side = MotorLeft | MotorRight

definition DUTY_FULL_SCALE :: int where [simp]: "DUTY_FULL_SCALE = 1000"

definition duty_to_permille :: "u32 \<Rightarrow> u32 \<Rightarrow> int" where
  "duty_to_permille value duty_max =
     (if duty_max = 0 then 0
      else wrap_i16 (uint (ucast (min value duty_max) * 1000 div ucast duty_max :: u64)))"

definition signed_duty_to_permille :: "int \<Rightarrow> u32 \<Rightarrow> int" where
  "signed_duty_to_permille value duty_max =
     (let magnitude = min (of_int \<bar>value\<bar>) duty_max; permille = duty_to_permille magnitude duty_max
      in if value < 0 then - permille else permille)"

definition split_duty :: "int \<Rightarrow> u16 \<Rightarrow> (direction \<times> u16) option" where
  "split_duty duty pwm_max =
     (case clamp duty (- DUTY_FULL_SCALE) DUTY_FULL_SCALE of None \<Rightarrow> None
      | Some clamped \<Rightarrow>
          if clamped = 0 then Some (Coast, 0)
          else let mag = ucast (of_int \<bar>clamped\<bar> * (ucast pwm_max :: u32) div 1000)
               in Some (if clamped > 0 then Forward else Reverse, mag))"

section \<open>Watchdog of the motor controller\<close>

datatype wd_output = Drive i16 i16 | SafeStop

record watchdog =
  wd_timeout :: u64
  wd_deadline :: u64
  wd_command_deadline_active :: bool
  wd_seq_valid :: bool
  wd_last_seq :: u8
  wd_left :: i16
  wd_right :: i16
  wd_setpoint_armed :: bool
  wd_estop_latched :: bool
  wd_hardware_estop :: bool

definition watchdog_new :: "u64 \<Rightarrow> watchdog" where
  "watchdog_new timeout = \<lparr>wd_timeout = timeout, wd_deadline = 0, wd_command_deadline_active = False,
     wd_seq_valid = False, wd_last_seq = 0, wd_left = 0, wd_right = 0, wd_setpoint_armed = False,
     wd_estop_latched = False, wd_hardware_estop = False\<rparr>"

definition seq_newer :: "u8 \<Rightarrow> u8 \<Rightarrow> bool" where
  "seq_newer new last_sq \<longleftrightarrow> new - last_sq \<noteq> 0 \<and> new - last_sq < 128"

definition wd_expired :: "watchdog \<Rightarrow> u64 \<Rightarrow> bool" where
  "wd_expired w now \<longleftrightarrow> wd_deadline w \<le> now"

definition wd_refresh :: "watchdog \<Rightarrow> u64 \<Rightarrow> watchdog" where
  "wd_refresh w now = w\<lparr>wd_deadline := saturating_add now (wd_timeout w)\<rparr>"

definition wd_on_msg :: "watchdog \<Rightarrow> msg \<Rightarrow> u64 \<Rightarrow> bool \<times> watchdog" where
  "wd_on_msg w m now =
     (let w1 = (if wd_command_deadline_active w \<and> wd_expired w now
                then w\<lparr>wd_command_deadline_active := False, wd_setpoint_armed := False, wd_estop_latched := True\<rparr> else w)
      in case m of
           MotorSetpoint sq l r \<Rightarrow>
             if wd_seq_valid w1 \<and> \<not> seq_newer sq (wd_last_seq w1) then (False, w1)
             else let w2 = w1\<lparr>wd_seq_valid := True, wd_last_seq := sq, wd_left := l, wd_right := r,
                             wd_setpoint_armed := (\<not> wd_estop_latched w1 \<and> \<not> wd_hardware_estop w1)\<rparr>
                  in (True, if wd_setpoint_armed w2 then (wd_refresh w2 now)\<lparr>wd_command_deadline_active := True\<rparr> else w2)
         | Estop assert \<Rightarrow> (True, w1\<lparr>wd_estop_latched := assert, wd_setpoint_armed := False, wd_command_deadline_active := False\<rparr>)
         | HeartbeatToShrike _ \<Rightarrow> (True, w1)
         | Sensor _ _ _ \<Rightarrow> (False, w1)
         | HeartbeatToPi _ \<Rightarrow> (False, w1))"

definition wd_set_hardware_estop :: "watchdog \<Rightarrow> bool \<Rightarrow> watchdog" where
  "wd_set_hardware_estop w asserted =
     (let w1 = (if asserted \<noteq> wd_hardware_estop w \<or> asserted then w\<lparr>wd_setpoint_armed := False\<rparr> else w)
      in w1\<lparr>wd_hardware_estop := asserted\<rparr>)"

definition wd_output_at :: "watchdog \<Rightarrow> u64 \<Rightarrow> wd_output" where
  "wd_output_at w now =
     (if wd_estop_latched w \<or> wd_hardware_estop w \<or> \<not> wd_setpoint_armed w \<or> wd_expired w now then SafeStop
      else Drive (wd_left w) (wd_right w))"

end
