(* ===== verification/Link_Correctness.thy ===== *)
theory Link_Correctness
  imports Shrike_Link
begin

text \<open>
  Correctness of the link state machines. The byte ring implements a bounded queue (the locale
  \<open>bounded_fifo\<close>); whatever the order of the transmit operations, the bytes on the wire are whole
  frames followed by a part of the active one; the watchdog drives the motors only on a fresh,
  accepted setpoint.
\<close>

section \<open>Bounded queues\<close>

locale bounded_fifo =
  fixes inv :: "'s \<Rightarrow> bool" and contents :: "'s \<Rightarrow> 'a list" and capacity :: "'s \<Rightarrow> nat"
    and push :: "'s \<Rightarrow> 'a \<Rightarrow> bool \<times> 's" and pop :: "'s \<Rightarrow> 'a option \<times> 's"
  assumes push_accepts: "inv s \<Longrightarrow> length (contents s) < capacity s \<Longrightarrow>
      \<exists>s'. push s x = (True, s') \<and> inv s' \<and> capacity s' = capacity s \<and> contents s' = contents s @ [x]"
    and push_refuses: "inv s \<Longrightarrow> capacity s \<le> length (contents s) \<Longrightarrow> push s x = (False, s)"
    and pop_empty: "inv s \<Longrightarrow> contents s = [] \<Longrightarrow> pop s = (None, s)"
    and pop_first: "inv s \<Longrightarrow> contents s = x # xs \<Longrightarrow>
      \<exists>s'. pop s = (Some x, s') \<and> inv s' \<and> capacity s' = capacity s \<and> contents s' = xs"
begin

text \<open>A burst that fits is stored completely, and popping returns it in order.\<close>

lemma push_burst:
  assumes "inv s" "length (contents s) + length xs \<le> capacity s"
  shows "\<exists>s'. foldl (\<lambda>(ok, s) x. case push s x of (b, s1) \<Rightarrow> (ok \<and> b, s1)) (True, s) xs = (True, s') \<and> inv s'
     \<and> capacity s' = capacity s \<and> contents s' = contents s @ xs"
  using assms
proof (induction xs arbitrary: s)
  case (Cons x xs)
  obtain s1 where s1: "push s x = (True, s1)" "inv s1" "capacity s1 = capacity s" "contents s1 = contents s @ [x]"
    using push_accepts [OF Cons.prems(1), of x] Cons.prems(2) by auto
  show ?case using Cons.IH [OF s1(2)] Cons.prems(2) s1 by auto
qed simp

lemma pop_all_induct:
  assumes "inv s" "\<And>s. inv s \<Longrightarrow> pop s = (None, s) \<Longrightarrow> contents s = [] \<Longrightarrow> Q s []"
    and "\<And>s x s' xs. inv s \<Longrightarrow> pop s = (Some x, s') \<Longrightarrow> inv s' \<Longrightarrow> contents s' = xs \<Longrightarrow> Q s' xs \<Longrightarrow> Q s (x # xs)"
  shows "Q s (contents s)"
  using assms(1)
proof (induction "contents s" arbitrary: s)
  case Nil
  then show ?case using assms(2) pop_empty by metis
next
  case (Cons x xs)
  obtain s' where "pop s = (Some x, s')" "inv s'" "contents s' = xs" using pop_first [OF Cons.prems] Cons.hyps(2) by metis
  then show ?case using assms(3) Cons by metis
qed

end

definition ring_inv :: "ring_buf \<Rightarrow> bool" where
  "ring_inv r \<longleftrightarrow> 0 < length (rb_buf r) \<and> rb_head r < length (rb_buf r) \<and> rb_len r \<le> length (rb_buf r)
     \<and> rb_tail r = (rb_head r + rb_len r) mod length (rb_buf r)"

definition ring_contents :: "ring_buf \<Rightarrow> u8 list" where
  "ring_contents r = map (\<lambda>i. rb_buf r ! ((rb_head r + i) mod length (rb_buf r))) [0..<rb_len r]"

definition ring_capacity :: "ring_buf \<Rightarrow> nat" where
  "ring_capacity r = length (rb_buf r)"

lemma ring_push_contents:
  assumes "ring_inv r" "rb_len r < length (rb_buf r)"
  shows "\<exists>r'. ring_push r b = (True, r') \<and> ring_inv r' \<and> ring_capacity r' = ring_capacity r
     \<and> ring_contents r' = ring_contents r @ [b]"
proof -
  let ?N = "length (rb_buf r)"
  have ne: "rb_tail r \<noteq> (rb_head r + i) mod ?N" if "i < rb_len r" for i
  proof
    assume eq: "rb_tail r = (rb_head r + i) mod ?N"
    then have "(rb_head r + i) mod ?N = (rb_head r + rb_len r) mod ?N" using assms by (simp add: ring_inv_def)
    then have "?N dvd (rb_head r + rb_len r) - (rb_head r + i)" using that by (metis mod_eq_dvd_iff_nat add_le_cancel_left less_imp_le)
    then show False using that assms(2) by (auto dest: dvd_imp_le)
  qed
  have tail: "rb_tail r < ?N" using assms by (auto simp: ring_inv_def)
  have upd: "map (\<lambda>i. (rb_buf r)[rb_tail r := b] ! ((rb_head r + i) mod ?N)) [0..<rb_len r] = ring_contents r"
    using ne by (auto simp: ring_contents_def)
  have last: "(rb_buf r)[rb_tail r := b] ! ((rb_head r + rb_len r) mod ?N) = b"
    using assms(1) tail by (simp add: ring_inv_def)
  let ?r' = "r\<lparr>rb_buf := (rb_buf r)[rb_tail r := b], rb_tail := (rb_tail r + 1) mod ?N, rb_len := rb_len r + 1\<rparr>"
  have "ring_push r b = (True, ?r')" using assms(2) by (simp add: ring_push_def Let_def)
  moreover have "ring_inv ?r'" using assms by (auto simp: ring_inv_def mod_Suc_eq)
  moreover have "ring_contents ?r' = ring_contents r @ [b]"
    using upd last by (simp add: ring_contents_def)
  ultimately show ?thesis by (simp add: ring_capacity_def)
qed

lemma ring_pop_contents:
  assumes "ring_inv r" "ring_contents r = x # xs"
  shows "\<exists>r'. ring_pop r = (Some x, r') \<and> ring_inv r' \<and> ring_capacity r' = ring_capacity r \<and> ring_contents r' = xs"
proof -
  let ?N = "length (rb_buf r)"
  let ?r' = "r\<lparr>rb_head := (rb_head r + 1) mod ?N, rb_len := rb_len r - 1\<rparr>"
  have len: "rb_len r = Suc (length xs)" using arg_cong [OF assms(2), of length] by (simp add: ring_contents_def)
  have nth: "(x # xs) ! i = rb_buf r ! ((rb_head r + i) mod ?N)" if "i < rb_len r" for i
    using that unfolding assms(2) [symmetric] by (simp add: ring_contents_def)
  have "ring_pop r = (Some x, ?r')" using nth [of 0] len assms(1) by (simp add: ring_pop_def ring_inv_def)
  moreover have "ring_inv ?r'" using assms(1) len by (auto simp: ring_inv_def mod_add_left_eq)
  moreover have "ring_contents ?r' = xs"
  proof (rule nth_equalityI)
    show "length (ring_contents ?r') = length xs" by (simp add: ring_contents_def len)
    fix i
    assume "i < length (ring_contents ?r')"
    then have i: "i < length xs" by (simp add: ring_contents_def len)
    have "((rb_head r + 1) mod ?N + i) mod ?N = (rb_head r + Suc i) mod ?N" by (simp add: mod_add_left_eq)
    then show "ring_contents ?r' ! i = xs ! i" using nth [of "Suc i"] i len by (simp add: ring_contents_def)
  qed
  ultimately show ?thesis by (simp add: ring_capacity_def)
qed

interpretation rb: bounded_fifo ring_inv ring_contents ring_capacity ring_push ring_pop
proof
  fix r :: ring_buf and x :: u8 and xs :: "u8 list"
  have len: "length (ring_contents r) = rb_len r" by (simp add: ring_contents_def)
  show "\<exists>r'. ring_push r x = (True, r') \<and> ring_inv r' \<and> ring_capacity r' = ring_capacity r \<and> ring_contents r' = ring_contents r @ [x]"
    if "ring_inv r" "length (ring_contents r) < ring_capacity r"
    using that len ring_push_contents by (simp add: ring_capacity_def)
  show "ring_push r x = (False, r)" if "ring_inv r" "ring_capacity r \<le> length (ring_contents r)"
    using that len by (auto simp: ring_push_def ring_inv_def ring_capacity_def Let_def)
  show "ring_pop r = (None, r)" if "ring_inv r" "ring_contents r = []"
    using that len by (simp add: ring_pop_def)
  show "\<exists>r'. ring_pop r = (Some x, r') \<and> ring_inv r' \<and> ring_capacity r' = ring_capacity r \<and> ring_contents r' = xs"
    if "ring_inv r" "ring_contents r = x # xs"
    using that by (rule ring_pop_contents)
qed

lemma ring_new_ok: "0 < N \<Longrightarrow> ring_inv (ring_buf_new N)" "ring_contents (ring_buf_new N) = []" "ring_capacity (ring_buf_new N) = N"
  by (simp_all add: ring_inv_def ring_contents_def ring_buf_new_def ring_capacity_def)

section \<open>The wire\<close>

text \<open>
  Any interleaving of the transmit operations: \<open>tx_reach t w\<close> holds when the state \<open>t\<close> is
  reached and \<open>w\<close> are the bytes handed to the UART so far.
\<close>

inductive tx_reach :: "tx_state \<Rightarrow> u8 list \<Rightarrow> bool" where
  tx_init: "tx_reach tx_new []"
| tx_start: "tx_reach t w \<Longrightarrow> tx_reach (snd (tx_start t m now)) w"
| tx_byte: "tx_reach t w \<Longrightarrow> tx_next_byte t = (Some b, t') \<Longrightarrow> tx_reach t' (w @ [b])"
| tx_cancel: "tx_reach t w \<Longrightarrow> tx_reach (tx_cancel_unsent t) w"
| tx_replace: "tx_reach t w \<Longrightarrow> tx_reach (tx_replace_motor t l r now) w"
| tx_prioritize: "tx_reach t w \<Longrightarrow> tx_reach (tx_prioritize_motor t l r now) w"
| tx_clear: "tx_reach t w \<Longrightarrow> tx_reach (tx_clear_motor t) w"
| tx_take: "tx_reach t w \<Longrightarrow> tx_reach (snd (tx_take_motor t)) w"
| tx_discard: "tx_reach t w \<Longrightarrow> tx_reach (tx_discard_expired_motor t now timeout) w"

definition frame_for :: "msg \<Rightarrow> nat \<Rightarrow> u64 \<Rightarrow> tx_frame" where
  "frame_for m k at = \<lparr>f_bytes = frame_of m @ drop (length (frame_of m)) (replicate MAX_FRAME 0), f_len = length (frame_of m),
     f_sent = k, f_motor_pair = msg_motor_pair m, f_estop_assert = (m = Estop True), f_queued_at = at\<rparr>"

text \<open>The motor pair in force after a sequence of messages has been sent.\<close>

definition pair_after :: "i16 \<times> i16 \<Rightarrow> msg \<Rightarrow> i16 \<times> i16" where
  "pair_after p m = (case m of MotorSetpoint _ l r \<Rightarrow> (l, r) | Estop True \<Rightarrow> (0, 0) | _ \<Rightarrow> p)"

definition wire_inv :: "tx_state \<Rightarrow> u8 list \<Rightarrow> msg list \<Rightarrow> bool" where
  "wire_inv t w ms \<longleftrightarrow> tx_last_motor_on_wire t = foldl pair_after (0, 0) ms
     \<and> (case tx_active t of None \<Rightarrow> w = concat (map frame_of ms)
        | Some f \<Rightarrow> \<exists>m k at. f = frame_for m k at \<and> k < length (frame_of m) \<and> w = concat (map frame_of ms) @ take k (frame_of m))"

lemma tx_start_active: "tx_active t = None \<Longrightarrow> tx_start t m now = (True, t\<lparr>tx_active := Some (frame_for m 0 now)\<rparr>)"
  using frame_of_length(2) [of m] by (simp add: tx_start_def encode_frame_of frame_for_def)

lemma wire_inv_start: "wire_inv t w ms \<Longrightarrow> wire_inv (snd (tx_start t m now)) w ms"
proof (cases "tx_active t")
  case None
  moreover assume "wire_inv t w ms"
  moreover have "0 < length (frame_of m)" using frame_of_length(1) [of m] by linarith
  ultimately show ?thesis by (auto simp: wire_inv_def tx_start_active intro!: exI [of _ m])
qed (simp add: tx_start_def)

lemma wire_inv_drop_unsent:
  assumes "wire_inv t w ms" "tx_active t = Some f" "f_sent f = 0"
  shows "wire_inv (t\<lparr>tx_active := None\<rparr>) w ms"
  using assms by (auto simp: wire_inv_def frame_for_def)

lemma wire_inv_pending: "wire_inv t w ms \<Longrightarrow> wire_inv (t\<lparr>tx_pending_motor := p\<rparr>) w ms"
  by (simp add: wire_inv_def)

lemma wire_inv_byte:
  assumes inv: "wire_inv t w ms" and b: "tx_next_byte t = (Some b, t')"
  shows "\<exists>ms'. wire_inv t' (w @ [b]) ms'"
proof -
  obtain f where f: "tx_active t = Some f" using b by (auto simp: tx_next_byte_def split: option.splits)
  obtain m k at where m: "f = frame_for m k at" "k < length (frame_of m)" "w = concat (map frame_of ms) @ take k (frame_of m)"
    using inv f by (auto simp: wire_inv_def)
  have last: "tx_last_motor_on_wire t = foldl pair_after (0, 0) ms" using inv by (simp add: wire_inv_def)
  have bb: "b = frame_of m ! k" using b f m(1,2) by (auto simp: tx_next_byte_def Let_def frame_for_def nth_append)
  have tk: "take k (frame_of m) @ [b] = take (Suc k) (frame_of m)" using m(2) by (simp add: bb take_Suc_conv_app_nth)
  show ?thesis
  proof (cases "Suc k = length (frame_of m)")
    case True
    have pa: "(case msg_motor_pair m of Some pair \<Rightarrow> pair | None \<Rightarrow> if m = Estop True then (0, 0) else p) = pair_after p m" for p
      by (auto simp: msg_motor_pair_def pair_after_def split: msg.splits bool.splits)
    have "t' = t\<lparr>tx_active := None, tx_last_motor_on_wire := pair_after (tx_last_motor_on_wire t) m\<rparr>"
      using True b f m(1) pa [of "tx_last_motor_on_wire t"]
      by (cases "msg_motor_pair m") (auto simp: tx_next_byte_def Let_def frame_for_def)
    then have "wire_inv t' (w @ [b]) (ms @ [m])"
      using True last m(3) tk by (simp add: wire_inv_def)
    then show ?thesis ..
  next
    case False
    then have "t' = t\<lparr>tx_active := Some (frame_for m (Suc k) at)\<rparr>"
      using b f m(1) by (auto simp: tx_next_byte_def Let_def frame_for_def)
    then have "wire_inv t' (w @ [b]) ms"
      using False last m tk by (auto simp: wire_inv_def intro!: exI [of _ m] exI [of _ "Suc k"])
    then show ?thesis ..
  qed
qed

theorem tx_reach_wire: "tx_reach t w \<Longrightarrow> \<exists>ms. wire_inv t w ms"
proof (induction rule: tx_reach.induct)
  case tx_init
  then show ?case by (intro exI [of _ "[]"]) (simp add: wire_inv_def tx_new_def)
next
  case (tx_start t w m now)
  then show ?case using wire_inv_start by blast
next
  case (tx_byte t w b t')
  then show ?case using wire_inv_byte by blast
next
  case (tx_cancel t w)
  then show ?case by (auto simp: tx_cancel_unsent_def unsent_def intro: wire_inv_drop_unsent split: option.splits)
next
  case (tx_replace t w l r now)
  then show ?case by (auto simp: tx_replace_motor_def intro: wire_inv_pending)
next
  case (tx_prioritize t w l r now)
  then show ?case
    by (auto simp: tx_prioritize_motor_def Let_def unsent_motor_def intro!: wire_inv_pending
        intro: wire_inv_drop_unsent split: option.splits)
next
  case (tx_clear t w)
  then show ?case by (auto simp: tx_clear_motor_def intro: wire_inv_pending)
next
  case (tx_take t w)
  then show ?case by (auto simp: tx_take_motor_def intro: wire_inv_pending split: option.splits)
next
  case (tx_discard t w now timeout)
  then obtain ms where inv: "wire_inv t w ms" by blast
  define t1 where "t1 = (case tx_pending_motor t of
      Some (_, _, at) \<Rightarrow> if saturating_sub now at \<ge> timeout then t\<lparr>tx_pending_motor := None\<rparr> else t | None \<Rightarrow> t)"
  have "wire_inv t1 w ms" using inv by (auto simp: t1_def intro: wire_inv_pending split: option.splits)
  then show ?case unfolding tx_discard_expired_motor_def Let_def t1_def [symmetric]
    by (auto intro: wire_inv_drop_unsent split: option.splits)
qed

text \<open>When the transmitter is idle, the peer's decoder has received exactly the messages sent.\<close>

theorem idle_wire_decodes:
  assumes "tx_reach t w" "tx_is_idle t"
  shows "\<exists>ms. fst (drain decoder_new w) = map Inr ms \<and> tx_last_motor_on_wire t = foldl pair_after (0, 0) ms"
proof -
  obtain ms where inv: "wire_inv t w ms" using tx_reach_wire [OF assms(1)] by blast
  then have w: "w = concat (map frame_of ms)" and last: "tx_last_motor_on_wire t = foldl pair_after (0, 0) ms"
    using assms(2) by (simp_all add: wire_inv_def tx_is_idle_def)
  have "d_state decoder_new = DIdle" by (simp add: decoder_new_def)
  from drain_frames [OF this dec_ok_new, of ms] show ?thesis unfolding w using last by auto
qed

section \<open>Session\<close>

text \<open>Ticks with no inbound traffic and no confirmation in between.\<close>

primrec session_ticks :: "link_session \<Rightarrow> u64 list \<Rightarrow> link_action list \<times> link_session" where
  "session_ticks s [] = ([], s)"
| "session_ticks s (now # nows) =
     (let (a, s1) = session_tick s now; (as, s2) = session_ticks s1 nows in (a # as, s2))"

lemma session_tick_live [simp]: "ls_live (snd (session_tick s now)) = ls_live s"
  by (simp add: session_tick_def Let_def)

lemma dead_tick:
  assumes "\<not> session_alive s now" "ls_alive_prev s \<or> \<not> ls_estop_done s"
  shows "fst (session_tick s now) = LinkSafeStop" "\<not> ls_estop_done (snd (session_tick s now))"
    "\<not> ls_alive_prev (snd (session_tick s now))"
  using assms by (auto simp: session_tick_def session_alive_def Let_def)

text \<open>
  A session that has been alive demands the safe stop on every tick after the deadline, until the
  caller confirms that the stop was sent; it never sends a heartbeat to a silent peer.
\<close>

lemma dead_ticks:
  assumes "ls_alive_prev s \<or> \<not> ls_estop_done s" "\<forall>now \<in> set nows. \<not> session_alive s now"
  shows "set (fst (session_ticks s nows)) \<subseteq> {LinkSafeStop}"
  using assms
proof (induction nows arbitrary: s)
  case (Cons now nows)
  have d: "\<not> session_alive s now" using Cons.prems(2) by simp
  note st = dead_tick [OF d Cons.prems(1)]
  have "set (fst (session_ticks (snd (session_tick s now)) nows)) \<subseteq> {LinkSafeStop}"
    using Cons.prems(2) st(2) by (intro Cons.IH) (auto simp: session_alive_def)
  then show ?case using st(1) by (auto simp: Let_def case_prod_unfold)
qed simp

lemma no_heartbeat_when_dead: "\<not> session_alive s now \<Longrightarrow> fst (session_tick s now) \<noteq> Heartbeat q"
  by (auto simp: session_tick_def session_alive_def Let_def)

section \<open>Watchdog\<close>

datatype wd_event = WdMsg msg u64 | WdHardware bool

primrec wd_step :: "watchdog \<Rightarrow> wd_event \<Rightarrow> watchdog" where
  "wd_step w (WdMsg m now) = snd (wd_on_msg w m now)"
| "wd_step w (WdHardware a) = wd_set_hardware_estop w a"

definition wd_run :: "u64 \<Rightarrow> wd_event list \<Rightarrow> watchdog" where
  "wd_run timeout evs = foldl wd_step (watchdog_new timeout) evs"

definition is_estop :: "wd_event \<Rightarrow> bool" where
  "is_estop e \<longleftrightarrow> (\<exists>a now. e = WdMsg (Estop a) now)"

text \<open>
  \<open>drive_authority evs l r d\<close>: the last accepted setpoint of the history \<open>evs\<close> is \<open>(l, r)\<close>, its
  deadline is \<open>d\<close>, no stop was latched when it arrived, and neither a stop command nor an asserted
  stop line came after it.
\<close>

definition drive_authority :: "u64 \<Rightarrow> wd_event list \<Rightarrow> i16 \<Rightarrow> i16 \<Rightarrow> u64 \<Rightarrow> bool" where
  "drive_authority timeout evs l r d \<longleftrightarrow> (\<exists>pre sq t post.
     evs = pre @ WdMsg (MotorSetpoint sq l r) t # post \<and> d = saturating_add t timeout
     \<and> fst (wd_on_msg (wd_run timeout pre) (MotorSetpoint sq l r) t)
     \<and> \<not> wd_estop_latched (wd_run timeout pre) \<and> \<not> wd_hardware_estop (wd_run timeout pre)
     \<and> (\<forall>e \<in> set post. \<not> is_estop e \<and> e \<noteq> WdHardware True))"

lemma wd_run_snoc: "wd_run timeout (evs @ [e]) = wd_step (wd_run timeout evs) e"
  by (simp add: wd_run_def)

lemma wd_timeout_run [simp]: "wd_timeout (wd_run timeout evs) = timeout"
proof (induction evs rule: rev_induct)
  case (snoc e evs)
  have "wd_timeout (wd_step w e) = wd_timeout w" for w
    by (cases e) (auto simp: wd_on_msg_def wd_set_hardware_estop_def wd_refresh_def Let_def split: msg.splits)
  then show ?case using snoc by (simp add: wd_run_snoc)
qed (simp add: wd_run_def watchdog_new_def)

lemma drive_authority_extend:
  assumes "drive_authority timeout evs l r d" "\<not> is_estop e" "e \<noteq> WdHardware True"
  shows "drive_authority timeout (evs @ [e]) l r d"
proof -
  from assms(1) obtain pre sq t post where h: "evs = pre @ WdMsg (MotorSetpoint sq l r) t # post" "d = saturating_add t timeout"
     "fst (wd_on_msg (wd_run timeout pre) (MotorSetpoint sq l r) t)"
     "\<not> wd_estop_latched (wd_run timeout pre)" "\<not> wd_hardware_estop (wd_run timeout pre)"
     "\<forall>e \<in> set post. \<not> is_estop e \<and> e \<noteq> WdHardware True"
    unfolding drive_authority_def by blast
  show ?thesis unfolding drive_authority_def using h assms(2,3)
    by (intro exI [of _ pre] exI [of _ sq] exI [of _ t] exI [of _ "post @ [e]"]) simp
qed

lemma armed_authority:
  "wd_setpoint_armed (wd_run timeout evs) \<Longrightarrow>
     drive_authority timeout evs (wd_left (wd_run timeout evs)) (wd_right (wd_run timeout evs)) (wd_deadline (wd_run timeout evs))"
proof (induction evs rule: rev_induct)
  case Nil
  then show ?case by (simp add: wd_run_def watchdog_new_def)
next
  case (snoc e evs)
  let ?w = "wd_run timeout evs"
  have same: ?case if "wd_setpoint_armed ?w" "wd_left (wd_step ?w e) = wd_left ?w" "wd_right (wd_step ?w e) = wd_right ?w"
      "wd_deadline (wd_step ?w e) = wd_deadline ?w" "\<not> is_estop e" "e \<noteq> WdHardware True"
    using drive_authority_extend [OF snoc.IH [OF that(1)] that(5,6)] that by (simp add: wd_run_snoc)
  have armed: "wd_setpoint_armed (wd_step ?w e)" using snoc.prems by (simp add: wd_run_snoc)
  show ?case
  proof (cases e)
    case (WdHardware a)
    then show ?thesis using armed by (intro same) (auto simp: wd_set_hardware_estop_def is_estop_def Let_def split: if_splits)
  next
    case (WdMsg m now)
    show ?thesis
    proof (cases "\<exists>sq l r. m = MotorSetpoint sq l r \<and> fst (wd_on_msg ?w m now)")
      case False
      then show ?thesis using armed WdMsg
        by (intro same) (auto simp: wd_on_msg_def Let_def is_estop_def split: msg.splits if_splits)
    next
      case True
      then obtain sq l r where m: "m = MotorSetpoint sq l r" and acc: "fst (wd_on_msg ?w m now)" by blast
      let ?w' = "wd_step ?w e"
      have new: "wd_left ?w' = l" "wd_right ?w' = r" "wd_deadline ?w' = saturating_add now timeout"
        "\<not> wd_estop_latched ?w" "\<not> wd_hardware_estop ?w"
        using armed acc unfolding WdMsg m
        by (auto simp: wd_on_msg_def Let_def wd_refresh_def split: if_splits)
      have "drive_authority timeout (evs @ [e]) l r (saturating_add now timeout)"
        unfolding drive_authority_def WdMsg m using acc new(4,5)
        by (intro exI [of _ evs] exI [of _ sq] exI [of _ now] exI [of _ "[]"]) (simp add: m)
      then show ?thesis using new by (simp add: wd_run_snoc)
    qed
  qed
qed

text \<open>The motors are driven only under a fresh authority.\<close>

theorem drive_only_with_authority:
  assumes "wd_output_at (wd_run timeout evs) now = Drive l r"
  shows "\<exists>d. drive_authority timeout evs l r d \<and> now < d"
proof -
  let ?w = "wd_run timeout evs"
  have "wd_setpoint_armed ?w" "l = wd_left ?w" "r = wd_right ?w" "now < wd_deadline ?w"
    using assms by (auto simp: wd_output_at_def wd_expired_def not_le split: if_splits)
  with armed_authority show ?thesis by blast
qed

text \<open>A latched stop survives everything but an explicit release, and an expired command latches it.\<close>

lemma latched_step:
  assumes "wd_estop_latched w" "\<forall>now. e \<noteq> WdMsg (Estop False) now"
  shows "wd_estop_latched (wd_step w e)"
  using assms by (cases e) (auto simp: wd_on_msg_def wd_set_hardware_estop_def wd_refresh_def Let_def split: msg.splits)

lemma latched_until_release:
  assumes "wd_estop_latched w" "\<forall>now. WdMsg (Estop False) now \<notin> set evs"
  shows "wd_estop_latched (foldl wd_step w evs)"
  using assms
proof (induction evs arbitrary: w)
  case (Cons e evs)
  then have "wd_estop_latched (wd_step w e)" by (intro latched_step) auto
  then show ?case using Cons.IH Cons.prems(2) by simp
qed simp

lemma expired_command_latches:
  assumes "wd_command_deadline_active w" "wd_expired w now" "m \<noteq> Estop False"
  shows "wd_estop_latched (wd_step w (WdMsg m now))"
  using assms by (auto simp: wd_on_msg_def Let_def wd_refresh_def split: msg.splits)

theorem expired_command_stays_stopped:
  assumes "wd_command_deadline_active w" "wd_expired w now" "m \<noteq> Estop False"
    and "\<forall>t. WdMsg (Estop False) t \<notin> set evs"
  shows "wd_output_at (foldl wd_step w (WdMsg m now # evs)) later = SafeStop"
  using latched_until_release [OF expired_command_latches [OF assms(1-3)] assms(4)]
  by (simp add: wd_output_at_def)

end
