(* ===== verification/Control_Link.thy ===== *)
theory Control_Link
  imports Link_Correctness
begin

text \<open>
  The kernel end of the control link (\<open>arch/aarch64/platform/rpi5/control_link.rs\<close> and the data
  path of \<open>pl011.rs\<close>): one poll of the transport with its receive, decode, session and transmit
  phases, and the command entry points. The UART is its receive FIFO of data-register words, the
  free room of its transmit FIFO and the bytes written so far; the shared sample counter is part of
  the state.
\<close>

section \<open>UART\<close>

record pl011 =
  u_rx :: "u32 list"
  u_room :: nat
  u_wire :: "u8 list"

definition DR_ERR_MASK :: u32 where "DR_ERR_MASK = 0xF00"

definition read_byte :: "pl011 \<Rightarrow> u8 option \<times> pl011" where
  "read_byte u = (case u_rx u of [] \<Rightarrow> (None, u)
     | dr # rest \<Rightarrow> (if dr AND DR_ERR_MASK \<noteq> 0 then None else Some (ucast (dr AND 0xFF)), u\<lparr>u_rx := rest\<rparr>))"

definition tx_full :: "pl011 \<Rightarrow> bool" where
  "tx_full u \<longleftrightarrow> u_room u = 0"

text \<open>\<open>write_byte\<close> spins while the FIFO is full; its only caller checks \<open>tx_full\<close> first.\<close>

definition write_byte :: "pl011 \<Rightarrow> u8 \<Rightarrow> pl011" where
  "write_byte u b = u\<lparr>u_room := u_room u - 1, u_wire := u_wire u @ [b]\<rparr>"

section \<open>Link state\<close>

definition RING_BYTES :: nat where "RING_BYTES = 256"
definition RX_PER_POLL :: nat where "RX_PER_POLL = 64"
definition TX_PER_POLL :: nat where "TX_PER_POLL = 64"
definition LINK_TIMEOUT_NS :: u64 where "LINK_TIMEOUT_NS = 80000000"
definition HEARTBEAT_PERIOD_NS :: u64 where "HEARTBEAT_PERIOD_NS = 20000000"

definition motor_side :: "u8 \<Rightarrow> u8 \<Rightarrow> motor_side option" where
  "motor_side chip channel =
     (if chip \<noteq> 0 then None
      else if channel = 1 then Some MotorLeft else if channel = 2 then Some MotorRight else None)"

record poll_outcome =
  po_estop :: bool
  po_sensors :: "(u64 \<times> u16) list"
  po_heartbeats :: "u16 list"
  po_overflow_count :: nat
  po_link_loss :: bool

definition outcome_default :: poll_outcome where
  "outcome_default = \<lparr>po_estop = False, po_sensors = [], po_heartbeats = [], po_overflow_count = 0, po_link_loss = False\<rparr>"

datatype pending_estop = PAssert | PRelease | PAssertThenRelease

record control_link =
  cl_uart :: pl011
  cl_rx :: ring_buf
  cl_tx :: tx_state
  cl_dec :: decoder
  cl_rx_overflows :: u32
  cl_session :: link_session
  cl_motor_seq :: u8
  cl_pending_estop :: "pending_estop option"
  cl_link_loss_reported :: bool
  cl_next_sample_id :: u64

definition control_link_new :: "pl011 \<Rightarrow> u64 \<Rightarrow> control_link" where
  "control_link_new u next_id = \<lparr>cl_uart = u, cl_rx = ring_buf_new RING_BYTES, cl_tx = tx_new, cl_dec = decoder_new,
     cl_rx_overflows = 0, cl_session = session_new LINK_TIMEOUT_NS HEARTBEAT_PERIOD_NS, cl_motor_seq = 0,
     cl_pending_estop = None, cl_link_loss_reported = False, cl_next_sample_id = next_id\<rparr>"

section \<open>Stop queue and motor queue\<close>

definition has_pending_estop_assert :: "control_link \<Rightarrow> bool" where
  "has_pending_estop_assert l \<longleftrightarrow> cl_pending_estop l \<in> {Some PAssert, Some PAssertThenRelease}"

definition enqueue :: "control_link \<Rightarrow> msg \<Rightarrow> u64 \<Rightarrow> bool \<times> control_link" where
  "enqueue l m now = (case tx_start (cl_tx l) m now of (ok, t) \<Rightarrow> (ok, l\<lparr>cl_tx := t\<rparr>))"

definition queue_estop :: "control_link \<Rightarrow> bool \<Rightarrow> control_link" where
  "queue_estop l assert =
     (let l1 = (if assert then l\<lparr>cl_tx := tx_clear_motor (cl_tx l)\<rparr> else l)
      in l1\<lparr>cl_pending_estop := Some (if assert then PAssert
           else case cl_pending_estop l1 of Some PAssert \<Rightarrow> PAssertThenRelease
                | Some PAssertThenRelease \<Rightarrow> PAssertThenRelease | _ \<Rightarrow> PRelease)\<rparr>)"

definition cancel_unsent_for_stop :: "control_link \<Rightarrow> control_link" where
  "cancel_unsent_for_stop l = (if has_pending_estop_assert l then l\<lparr>cl_tx := tx_cancel_unsent (cl_tx l)\<rparr> else l)"

definition flush_pending_estop :: "control_link \<Rightarrow> u64 \<Rightarrow> bool \<times> control_link" where
  "flush_pending_estop l now =
     (case cl_pending_estop l of None \<Rightarrow> (True, l)
      | Some pending \<Rightarrow>
          let (ok, l1) = enqueue l (Estop (pending \<noteq> PRelease)) now
          in if \<not> ok then (False, l1)
             else (True, l1\<lparr>cl_pending_estop := (if pending = PAssertThenRelease then Some PRelease else None)\<rparr>))"

definition request_estop :: "control_link \<Rightarrow> bool \<Rightarrow> u64 \<Rightarrow> bool \<times> control_link" where
  "request_estop l assert now = flush_pending_estop (cancel_unsent_for_stop (queue_estop l assert)) now"

definition set_motor_pair :: "control_link \<Rightarrow> i16 \<Rightarrow> i16 \<Rightarrow> u64 \<Rightarrow> bool \<times> control_link" where
  "set_motor_pair l left right now =
     (if has_pending_estop_assert l \<and> (left \<noteq> 0 \<or> right \<noteq> 0) then (False, l)
      else (True, l\<lparr>cl_tx := tx_replace_motor (cl_tx l) left right now\<rparr>))"

definition set_safe_motor_pair :: "control_link \<Rightarrow> u64 \<Rightarrow> bool \<times> control_link" where
  "set_safe_motor_pair l now = (True, l\<lparr>cl_tx := tx_prioritize_motor (cl_tx l) 0 0 now\<rparr>)"

definition flush_pending_motor :: "control_link \<Rightarrow> bool \<times> control_link" where
  "flush_pending_motor l =
     (case tx_take_motor (cl_tx l) of
        (None, t) \<Rightarrow> (True, l\<lparr>cl_tx := t\<rparr>)
      | (Some (left, right, queued_at), t) \<Rightarrow>
          let l1 = l\<lparr>cl_tx := t\<rparr>; sq = cl_motor_seq l1 + 1; (ok, l2) = enqueue l1 (MotorSetpoint sq left right) queued_at
          in if \<not> ok then (False, l2\<lparr>cl_tx := tx_replace_motor (cl_tx l2) left right queued_at\<rparr>)
             else (True, l2\<lparr>cl_motor_seq := sq\<rparr>))"

section \<open>One poll\<close>

fun rx_pull :: "nat \<Rightarrow> control_link \<Rightarrow> control_link" where
  "rx_pull 0 l = l"
| "rx_pull (Suc n) l =
     (case read_byte (cl_uart l) of
        (None, u) \<Rightarrow> l\<lparr>cl_uart := u\<rparr>
      | (Some b, u) \<Rightarrow>
          (case ring_push (cl_rx l) b of (ok, r) \<Rightarrow>
             rx_pull n (l\<lparr>cl_uart := u, cl_rx := r,
               cl_rx_overflows := (if ok then cl_rx_overflows l else cl_rx_overflows l + 1)\<rparr>)))"

definition on_frame :: "control_link \<Rightarrow> poll_outcome \<Rightarrow> u64 \<Rightarrow> msg \<Rightarrow> control_link \<times> poll_outcome" where
  "on_frame l out now m =
     (let l1 = l\<lparr>cl_session := session_on_inbound (cl_session l) now, cl_link_loss_reported := False\<rparr>
      in case m of
           Sensor echo line _ \<Rightarrow>
             let (l2, out2) = (if length (po_sensors out) = RX_PER_POLL
                   then (l1, out\<lparr>po_overflow_count := po_overflow_count out + 1\<rparr>)
                   else (l1\<lparr>cl_next_sample_id := cl_next_sample_id l1 + 1\<rparr>,
                         out\<lparr>po_sensors := po_sensors out @ [(cl_next_sample_id l1, echo)]\<rparr>))
             in (l2, out2\<lparr>po_estop := (po_estop out2 \<or> line)\<rparr>)
         | HeartbeatToPi sq \<Rightarrow>
             (l1, if length (po_heartbeats out) = RX_PER_POLL
                  then out\<lparr>po_overflow_count := po_overflow_count out + 1\<rparr>
                  else out\<lparr>po_heartbeats := po_heartbeats out @ [sq]\<rparr>)
         | _ \<Rightarrow> (l1, out))"

definition on_byte :: "control_link \<Rightarrow> poll_outcome \<Rightarrow> u64 \<Rightarrow> u8 \<Rightarrow> control_link \<times> poll_outcome" where
  "on_byte l out now b =
     (case dec_push (cl_dec l) b of
        (Some (Inr m), d) \<Rightarrow> on_frame (l\<lparr>cl_dec := d\<rparr>) out now m
      | (_, d) \<Rightarrow> (l\<lparr>cl_dec := d\<rparr>, out))"

lemma on_byte_rx: "cl_rx (fst (on_byte l out now b)) = cl_rx l"
  by (auto simp: on_byte_def on_frame_def Let_def split: prod.splits option.splits sum.splits msg.splits)

lemma ring_pop_decreases: "ring_pop r = (Some b, r') \<Longrightarrow> rb_len r' < rb_len r"
  by (auto simp: ring_pop_def split: if_splits)

function rx_decode :: "control_link \<Rightarrow> poll_outcome \<Rightarrow> u64 \<Rightarrow> control_link \<times> poll_outcome" where
  "rx_decode l out now =
     (case ring_pop (cl_rx l) of
        (None, r) \<Rightarrow> (l\<lparr>cl_rx := r\<rparr>, out)
      | (Some b, r) \<Rightarrow> (case on_byte (l\<lparr>cl_rx := r\<rparr>) out now b of (l1, out1) \<Rightarrow> rx_decode l1 out1 now))"
  by pat_completeness auto
termination rx_decode
proof (relation "measure (\<lambda>(l, _, _). rb_len (cl_rx l))", goal_cases)
  case (2 l out now x r b l1 out1)
  then have "rb_len r < rb_len (cl_rx l)" by (intro ring_pop_decreases [of _ b]) simp
  moreover from 2 have "l1 = fst (on_byte (l\<lparr>cl_rx := r\<rparr>) out now b)" by (metis fst_conv)
  ultimately show ?case by (simp add: on_byte_rx)
qed simp

fun tx_drain :: "nat \<Rightarrow> control_link \<Rightarrow> control_link" where
  "tx_drain 0 l = l"
| "tx_drain (Suc n) l =
     (if tx_full (cl_uart l) then l
      else case tx_next_byte (cl_tx l) of
        (None, t) \<Rightarrow> l\<lparr>cl_tx := t\<rparr>
      | (Some b, t) \<Rightarrow> tx_drain n (l\<lparr>cl_tx := t, cl_uart := write_byte (cl_uart l) b\<rparr>))"

text \<open>The phases of \<open>poll_decode\<close> between the decoder and the transmit drain.\<close>

definition session_phase :: "control_link \<Rightarrow> poll_outcome \<Rightarrow> u64 \<Rightarrow> control_link \<times> poll_outcome \<times> link_action" where
  "session_phase l out now =
     (let (action, s) = session_tick (cl_session l) now; l1 = l\<lparr>cl_session := s\<rparr>
      in if action = LinkSafeStop
         then let (l2, out2) = (if cl_link_loss_reported l1 then (l1, out)
                     else (l1\<lparr>cl_link_loss_reported := True\<rparr>, out\<lparr>po_link_loss := True\<rparr>))
              in (queue_estop l2 True, out2, action)
         else (l1, out, action))"

definition queue_phase :: "control_link \<Rightarrow> link_action \<Rightarrow> u64 \<Rightarrow> control_link" where
  "queue_phase l action now =
     (let l1 = l\<lparr>cl_tx := tx_discard_expired_motor (cl_tx l) now LINK_TIMEOUT_NS\<rparr>;
          (estop_queue_empty, l2) = flush_pending_estop (cancel_unsent_for_stop l1) now;
          l3 = (if action = LinkSafeStop \<and> \<not> has_pending_estop_assert l2
                then l2\<lparr>cl_session := session_estop_sent (cl_session l2)\<rparr> else l2);
          l4 = (if estop_queue_empty \<and> tx_is_idle (cl_tx l3) then snd (flush_pending_motor l3) else l3)
      in if estop_queue_empty \<and> tx_is_idle (cl_tx l4)
         then (case action of Heartbeat sq \<Rightarrow> snd (enqueue l4 (HeartbeatToShrike sq) now) | _ \<Rightarrow> l4)
         else l4)"

definition poll_decode :: "control_link \<Rightarrow> u64 \<Rightarrow> control_link \<times> poll_outcome" where
  "poll_decode l now =
     (let (l1, out1) = rx_decode (rx_pull RX_PER_POLL l) outcome_default now;
          (l2, out2, action) = session_phase l1 out1 now
      in (tx_drain TX_PER_POLL (queue_phase l2 action now), out2))"

section \<open>Entry points\<close>

text \<open>\<open>with_link\<close> runs them on the initialised link.\<close>

definition send_motor_pair :: "control_link \<Rightarrow> i16 \<Rightarrow> i16 \<Rightarrow> u64 \<Rightarrow> bool \<times> control_link" where
  "send_motor_pair l left right now =
     (if session_alive (cl_session l) now then set_motor_pair l left right now else (False, l))"

definition send_safe_motor_pair :: "control_link \<Rightarrow> u64 \<Rightarrow> bool \<times> control_link" where
  "send_safe_motor_pair l now =
     (if session_alive (cl_session l) now then set_safe_motor_pair l now else (False, l))"

definition command_estop :: "control_link \<Rightarrow> bool \<Rightarrow> u64 \<Rightarrow> bool \<times> control_link" where
  "command_estop l assert now = request_estop l assert now"

definition link_send :: "control_link \<Rightarrow> msg \<Rightarrow> u64 \<Rightarrow> bool \<times> control_link" where
  "link_send l m now =
     (case flush_pending_estop l now of (ok, l1) \<Rightarrow> if ok then enqueue l1 m now else (False, l1))"

end
