(* ===== verification/Link_Safety.thy ===== *)
theory Link_Safety
  imports Control_Link
begin

text \<open>
  Safety of the kernel end of the control link, for every interleaving of polls, commands and
  hardware activity: the receive ring never overflows, the wire carries whole frames, two
  successive motor setpoints never reverse a wheel without a stop between them, and a stop
  command overtakes every frame that has not begun.
\<close>

section \<open>Setpoints on the wire\<close>

definition pair_ok :: "i16 \<times> i16 \<Rightarrow> (i16 \<times> i16) option \<Rightarrow> bool" where
  "pair_ok p q = (case q of None \<Rightarrow> True | Some (l, r) \<Rightarrow> \<not> reverses (fst p) l \<and> \<not> reverses (snd p) r)"

primrec no_reversal :: "i16 \<times> i16 \<Rightarrow> msg list \<Rightarrow> bool" where
  "no_reversal p [] \<longleftrightarrow> True"
| "no_reversal p (m # ms) \<longleftrightarrow> pair_ok p (msg_motor_pair m) \<and> no_reversal (pair_after p m) ms"

lemma no_reversal_snoc:
  "no_reversal p (ms @ [m]) \<longleftrightarrow> no_reversal p ms \<and> pair_ok (foldl pair_after p ms) (msg_motor_pair m)"
  by (induction ms arbitrary: p) auto

lemma reverses_0 [simp]: "\<not> reverses x 0" "\<not> reverses 0 x"
  by (simp_all add: reverses_def)

text \<open>
  \<open>tx_good t w ms\<close>: the wire \<open>w\<close> carries the messages \<open>ms\<close> and a part of the active frame, without a
  direct reversal, and the active frame does not introduce one.
\<close>

definition tx_good :: "tx_state \<Rightarrow> u8 list \<Rightarrow> msg list \<Rightarrow> bool" where
  "tx_good t w ms \<longleftrightarrow> wire_inv t w ms \<and> no_reversal (0, 0) ms
     \<and> (case tx_active t of None \<Rightarrow> True | Some f \<Rightarrow> pair_ok (tx_last_motor_on_wire t) (f_motor_pair f))"

lemma tx_good_new: "tx_good tx_new [] []"
  by (simp add: tx_good_def wire_inv_def tx_new_def)

lemma tx_good_pending: "tx_good t w ms \<Longrightarrow> tx_good (t\<lparr>tx_pending_motor := p\<rparr>) w ms"
  by (auto simp: tx_good_def wire_inv_def split: option.splits)

lemma tx_good_drop: "tx_good t w ms \<Longrightarrow> tx_active t = Some f \<Longrightarrow> f_sent f = 0 \<Longrightarrow> tx_good (t\<lparr>tx_active := None\<rparr>) w ms"
  using wire_inv_drop_unsent by (simp add: tx_good_def)

lemma tx_good_start:
  assumes "tx_good t w ms" "tx_active t = None \<Longrightarrow> pair_ok (tx_last_motor_on_wire t) (msg_motor_pair m)"
  shows "tx_good (snd (tx_start t m now)) w ms"
proof (cases "tx_active t")
  case None
  then show ?thesis using assms wire_inv_start [of t w ms m now]
    by (simp add: tx_good_def tx_start_active frame_for_def)
qed (use assms in \<open>simp add: tx_start_def\<close>)

text \<open>The effect of handing one byte to the UART.\<close>

lemma tx_good_byte:
  assumes good: "tx_good t w ms" and b: "tx_next_byte t = (Some b, t')"
  obtains m k at where "tx_active t = Some (frame_for m k at)" "k < length (frame_of m)"
    and "tx_active t' = Some (frame_for m (Suc k) at) \<and> tx_good t' (w @ [b]) ms
       \<or> tx_active t' = None \<and> tx_good t' (w @ [b]) (ms @ [m])"
    and "tx_pending_motor t' = tx_pending_motor t"
proof -
  have inv: "wire_inv t w ms" using good by (simp add: tx_good_def)
  obtain f where f: "tx_active t = Some f" using b by (auto simp: tx_next_byte_def split: option.splits)
  obtain m k at where m: "f = frame_for m k at" "k < length (frame_of m)" "w = concat (map frame_of ms) @ take k (frame_of m)"
    using inv f by (auto simp: wire_inv_def)
  have last: "tx_last_motor_on_wire t = foldl pair_after (0, 0) ms" using inv by (simp add: wire_inv_def)
  have pk: "pair_ok (tx_last_motor_on_wire t) (msg_motor_pair m)"
    using good f m(1) by (simp add: tx_good_def frame_for_def)
  have bb: "b = frame_of m ! k" using b f m(1,2) by (auto simp: tx_next_byte_def Let_def frame_for_def nth_append)
  have tk: "take k (frame_of m) @ [b] = take (Suc k) (frame_of m)" using m(2) by (simp add: bb take_Suc_conv_app_nth)
  have pend: "tx_pending_motor t' = tx_pending_motor t" using b f by (auto simp: tx_next_byte_def Let_def)
  show thesis
  proof (cases "Suc k = length (frame_of m)")
    case True
    have pa: "(case msg_motor_pair m of Some pair \<Rightarrow> pair | None \<Rightarrow> if m = Estop True then (0, 0) else p) = pair_after p m" for p
      by (auto simp: msg_motor_pair_def pair_after_def split: msg.splits bool.splits)
    have "t' = t\<lparr>tx_active := None, tx_last_motor_on_wire := pair_after (tx_last_motor_on_wire t) m\<rparr>"
      using True b f m(1) pa [of "tx_last_motor_on_wire t"]
      by (cases "msg_motor_pair m") (auto simp: tx_next_byte_def Let_def frame_for_def)
    then have "tx_active t' = None" "tx_good t' (w @ [b]) (ms @ [m])"
      using True last m(3) tk good pk by (simp_all add: tx_good_def wire_inv_def no_reversal_snoc)
    with f m pend show thesis by (intro that) auto
  next
    case False
    then have t': "t' = t\<lparr>tx_active := Some (frame_for m (Suc k) at)\<rparr>"
      using b f m(1) by (auto simp: tx_next_byte_def Let_def frame_for_def)
    then have "wire_inv t' (w @ [b]) ms"
      using False last m tk by (auto simp: wire_inv_def intro!: exI [of _ m] exI [of _ "Suc k"])
    with t' have "tx_good t' (w @ [b]) ms"
      using good pk by (simp add: tx_good_def frame_for_def)
    with t' f m pend show thesis by (intro that) auto
  qed
qed

lemma tx_good_take:
  assumes "tx_good t w ms"
  shows "tx_good (snd (tx_take_motor t)) w ms"
    and "fst (tx_take_motor t) = Some (l, r, at) \<Longrightarrow> pair_ok (tx_last_motor_on_wire t) (Some (l, r))"
    and "tx_active (snd (tx_take_motor t)) = tx_active t" "tx_last_motor_on_wire (snd (tx_take_motor t)) = tx_last_motor_on_wire t"
  using assms by (auto simp: tx_take_motor_def pair_ok_def intro: tx_good_pending split: option.splits if_splits)

lemma tx_good_discard:
  assumes "tx_good t w ms"
  shows "tx_good (tx_discard_expired_motor t now timeout) w ms"
proof -
  define t1 where "t1 = (case tx_pending_motor t of
      Some (_, _, at) \<Rightarrow> if saturating_sub now at \<ge> timeout then t\<lparr>tx_pending_motor := None\<rparr> else t | None \<Rightarrow> t)"
  have "tx_good t1 w ms" using assms by (auto simp: t1_def intro: tx_good_pending split: option.splits)
  then show ?thesis unfolding tx_discard_expired_motor_def Let_def t1_def [symmetric]
    by (auto intro: tx_good_drop split: option.splits)
qed

lemma tx_discard_active:
  "tx_active (tx_discard_expired_motor t now timeout) = tx_active t \<or>
   (\<exists>f. tx_active t = Some f \<and> f_sent f = 0 \<and> f_motor_pair f \<noteq> None \<and> tx_active (tx_discard_expired_motor t now timeout) = None)"
  by (auto simp: tx_discard_expired_motor_def Let_def split: option.splits)

section \<open>A stop request goes first\<close>

text \<open>
  \<open>stop_first base c t pa ms\<close>: of the messages \<open>ms\<close> on the wire, \<open>base\<close> had been sent before the stop
  request and \<open>c\<close> is the frame that was then in the middle of its transmission, if any. Nothing else
  is sent before the stop.
\<close>

definition stop_first :: "msg list \<Rightarrow> msg list \<Rightarrow> tx_frame option \<Rightarrow> bool \<Rightarrow> msg list \<Rightarrow> bool" where
  "stop_first base c active pa ms \<longleftrightarrow>
     (pa \<and> active = None \<and> ms \<in> {base, base @ c})
   \<or> (pa \<and> (\<exists>m k at. active = Some (frame_for m k at) \<and> 0 < k \<and> c = [m] \<and> ms = base))
   \<or> ((\<exists>k at. active = Some (frame_for (Estop True) k at)) \<and> ms \<in> {base, base @ c})
   \<or> (\<exists>pre rest. pre \<in> {[], c} \<and> ms = base @ pre @ Estop True # rest)"

lemma stop_first_done: "stop_first base c active pa (base @ pre @ Estop True # rest)" if "pre \<in> {[], c}"
  using that by (auto simp: stop_first_def)

lemma frame_of_inj:
  assumes "frame_of m = frame_of m'"
  shows "m = m'"
proof -
  have idle: "d_state decoder_new = DIdle" by (simp add: decoder_new_def)
  obtain d where "drain decoder_new (frame_of m) = ([Inr m], d)" using drain_frame_of [OF idle dec_ok_new] by blast
  moreover obtain d' where "drain decoder_new (frame_of m') = ([Inr m'], d')" using drain_frame_of [OF idle dec_ok_new] by blast
  ultimately have "([Inr m :: link_error + msg], d) = ([Inr m'], d')" unfolding assms by (rule trans [OF sym])
  then show ?thesis by simp
qed

lemma frame_for_inj: "frame_for m k at = frame_for m' k' at' \<longleftrightarrow> m = m' \<and> k = k' \<and> at = at'"
proof
  assume eq: "frame_for m k at = frame_for m' k' at'"
  then have "length (frame_of m) = length (frame_of m')" "k = k'" "at = at'" by (simp_all add: frame_for_def)
  moreover from this have "frame_of m = frame_of m'" using arg_cong [OF eq, of f_bytes] by (simp add: frame_for_def)
  ultimately show "m = m' \<and> k = k' \<and> at = at'" by (simp add: frame_of_inj)
qed simp

lemma stop_first_byte:
  assumes "stop_first base c (Some (frame_for m k at)) pa ms"
  shows "stop_first base c (Some (frame_for m (Suc k) at)) pa ms" "stop_first base c None pa (ms @ [m])"
  using assms unfolding stop_first_def by (auto simp: frame_for_inj)

section \<open>Link operations\<close>

text \<open>
  The wire invariant of the link; with \<open>R\<close> it carries the promise about a stop request as well.
\<close>

definition link_good :: "bool \<Rightarrow> msg list \<Rightarrow> msg list \<Rightarrow> control_link \<Rightarrow> msg list \<Rightarrow> bool" where
  "link_good R base c l ms \<longleftrightarrow> tx_good (cl_tx l) (u_wire (cl_uart l)) ms
     \<and> (R \<longrightarrow> stop_first base c (tx_active (cl_tx l)) (has_pending_estop_assert l) ms)"

lemma link_good_cong:
  assumes "cl_tx l' = cl_tx l" "u_wire (cl_uart l') = u_wire (cl_uart l)" "cl_pending_estop l' = cl_pending_estop l"
  shows "link_good R base c l' ms \<longleftrightarrow> link_good R base c l ms"
  using assms by (simp add: link_good_def has_pending_estop_assert_def)

lemma read_byte_wire: "u_wire (snd (read_byte u)) = u_wire u"
  by (auto simp: read_byte_def split: list.splits)

lemma rx_pull_frame:
  "cl_tx (rx_pull n l) = cl_tx l" "u_wire (cl_uart (rx_pull n l)) = u_wire (cl_uart l)"
  "cl_pending_estop (rx_pull n l) = cl_pending_estop l" "cl_session (rx_pull n l) = cl_session l"
proof (induction n l rule: rx_pull.induct)
  case (2 n l)
  {
    case 1
    show ?case using 2 by (auto split: prod.splits option.splits)
  next
    case 2
    show ?case using "2.IH" read_byte_wire [of "cl_uart l"] by (auto split: prod.splits option.splits)
  next
    case 3
    show ?case using 2 by (auto split: prod.splits option.splits)
  next
    case 4
    show ?case using 2 by (auto split: prod.splits option.splits)
  }
qed simp_all

lemma on_byte_frame:
  assumes "on_byte l out now b = (l', out')"
  shows "cl_tx l' = cl_tx l" "cl_uart l' = cl_uart l" "cl_pending_estop l' = cl_pending_estop l"
  using assms by (auto simp: on_byte_def on_frame_def Let_def split: prod.splits option.splits sum.splits msg.splits if_splits)

declare rx_decode.simps [simp del]

lemma rx_decode_frame:
  assumes "rx_decode l out now = (l', out')"
  shows "cl_tx l' = cl_tx l \<and> cl_uart l' = cl_uart l \<and> cl_pending_estop l' = cl_pending_estop l"
  using assms
proof (induction l out now rule: rx_decode.induct)
  case (1 l out now)
  show ?case
  proof (cases "ring_pop (cl_rx l)")
    case (Pair x r)
    show ?thesis
    proof (cases x)
      case None
      then show ?thesis using 1(2) Pair by (auto simp: rx_decode.simps [of l])
    next
      case (Some b)
      obtain l1 out1 where ob: "on_byte (l\<lparr>cl_rx := r\<rparr>) out now b = (l1, out1)" by (cases "on_byte (l\<lparr>cl_rx := r\<rparr>) out now b")
      have "rx_decode l1 out1 now = (l', out')" using 1(2) Pair Some ob by (simp add: rx_decode.simps [of l])
      from 1(1) [OF Pair [symmetric] Some ob [symmetric] this] on_byte_frame [OF ob] show ?thesis by simp
    qed
  qed
qed

lemma stop_first_mono: "stop_first base c active pa ms \<Longrightarrow> (pa \<Longrightarrow> pa') \<Longrightarrow> stop_first base c active pa' ms"
  unfolding stop_first_def by blast

lemma link_good_queue_estop:
  assumes "link_good R base c l ms"
  shows "link_good R base c (queue_estop l a) ms"
proof -
  have "has_pending_estop_assert l \<Longrightarrow> has_pending_estop_assert (queue_estop l a)"
    by (auto simp: has_pending_estop_assert_def queue_estop_def Let_def)
  moreover have "tx_active (cl_tx (queue_estop l a)) = tx_active (cl_tx l)"
    "cl_uart (queue_estop l a) = cl_uart l"
    by (simp_all add: queue_estop_def Let_def tx_clear_motor_def)
  moreover have "tx_good (cl_tx (queue_estop l a)) (u_wire (cl_uart l)) ms"
    using assms by (simp add: link_good_def queue_estop_def Let_def tx_clear_motor_def tx_good_pending)
  ultimately show ?thesis using assms unfolding link_good_def by (auto intro: stop_first_mono)
qed

lemma link_good_cancel:
  assumes "link_good R base c l ms"
  shows "link_good R base c (cancel_unsent_for_stop l) ms"
proof (cases "has_pending_estop_assert l \<and> unsent (tx_active (cl_tx l))")
  case True
  then obtain f where f: "tx_active (cl_tx l) = Some f" "f_sent f = 0" by (auto simp: unsent_def split: option.splits)
  have l': "cancel_unsent_for_stop l = l\<lparr>cl_tx := (cl_tx l)\<lparr>tx_active := None\<rparr>\<rparr>"
    using True by (simp add: cancel_unsent_for_stop_def tx_cancel_unsent_def)
  have "stop_first base c None True ms" if "stop_first base c (Some f) True ms"
    using that f(2) by (auto simp: stop_first_def frame_for_def)
  then show ?thesis using assms True f tx_good_drop [OF _ f]
    by (auto simp: link_good_def l' has_pending_estop_assert_def)
qed (use assms in \<open>auto simp: cancel_unsent_for_stop_def tx_cancel_unsent_def\<close>)

lemma enqueue_idle: "tx_active (cl_tx l) = None \<Longrightarrow>
   enqueue l m now = (True, l\<lparr>cl_tx := (cl_tx l)\<lparr>tx_active := Some (frame_for m 0 now)\<rparr>\<rparr>)"
  by (simp add: enqueue_def tx_start_active)

lemma enqueue_busy: "tx_active (cl_tx l) \<noteq> None \<Longrightarrow> enqueue l m now = (False, l)"
  by (simp add: enqueue_def tx_start_def)

lemma pair_ok_None [simp]: "pair_ok p None"
  by (simp add: pair_ok_def)

text \<open>Starting a frame on an idle transmitter, either the stop itself or after the stop.\<close>

lemma link_good_enqueue:
  assumes good: "link_good R base c l ms" and idle: "tx_active (cl_tx l) = None"
    and ok: "pair_ok (tx_last_motor_on_wire (cl_tx l)) (msg_motor_pair m)"
    and next_is: "m = Estop True \<or> \<not> has_pending_estop_assert l"
    and pe: "l' = (snd (enqueue l m now))\<lparr>cl_pending_estop := p\<rparr>"
  shows "link_good R base c l' ms"
proof -
  have tx: "cl_tx l' = (cl_tx l)\<lparr>tx_active := Some (frame_for m 0 now)\<rparr>" "cl_uart l' = cl_uart l"
    by (simp_all add: pe enqueue_idle [OF idle])
  have "tx_good (cl_tx l') (u_wire (cl_uart l)) ms"
    using good ok tx_good_start [of "cl_tx l" _ ms m now] idle by (simp add: link_good_def tx tx_start_active)
  moreover have "stop_first base c (Some (frame_for m 0 now)) (has_pending_estop_assert l') ms"
    if "stop_first base c None (has_pending_estop_assert l) ms"
    using that next_is unfolding stop_first_def by auto
  ultimately show ?thesis using good idle by (auto simp: link_good_def tx)
qed

lemma link_good_flush_estop:
  assumes good: "link_good R base c l ms"
  shows "link_good R base c (snd (flush_pending_estop l now)) ms"
    and "fst (flush_pending_estop l now) \<Longrightarrow> tx_active (cl_tx (snd (flush_pending_estop l now))) = None \<Longrightarrow>
      \<not> has_pending_estop_assert (snd (flush_pending_estop l now))"
proof -
  show "link_good R base c (snd (flush_pending_estop l now)) ms"
  proof (cases "cl_pending_estop l")
    case None
    then show ?thesis using good by (simp add: flush_pending_estop_def)
  next
    case (Some pending)
    show ?thesis
    proof (cases "tx_active (cl_tx l)")
      case None
      let ?m = "Estop (pending \<noteq> PRelease)"
      have "?m = Estop True \<or> \<not> has_pending_estop_assert l"
        using Some by (cases pending) (auto simp: has_pending_estop_assert_def)
      moreover have "snd (flush_pending_estop l now) = (snd (enqueue l ?m now))\<lparr>cl_pending_estop :=
          (if pending = PAssertThenRelease then Some PRelease else None)\<rparr>"
        using Some by (simp add: flush_pending_estop_def enqueue_idle [OF None])
      ultimately show ?thesis
        by (intro link_good_enqueue [OF good None _ _]) (simp_all add: msg_motor_pair_def)
    next
      case (Some f)
      then show ?thesis using \<open>cl_pending_estop l = Some pending\<close> good
        by (simp add: flush_pending_estop_def enqueue_busy)
    qed
  qed
  show "\<not> has_pending_estop_assert (snd (flush_pending_estop l now))"
    if "fst (flush_pending_estop l now)" "tx_active (cl_tx (snd (flush_pending_estop l now))) = None"
  proof (cases "cl_pending_estop l")
    case None
    then show ?thesis by (simp add: flush_pending_estop_def has_pending_estop_assert_def)
  next
    case (Some pending)
    show ?thesis
    proof (cases "tx_active (cl_tx l)")
      case None
      then show ?thesis using that Some by (simp add: flush_pending_estop_def enqueue_idle)
    next
      case (Some f)
      then show ?thesis using that \<open>cl_pending_estop l = Some pending\<close> by (simp add: flush_pending_estop_def enqueue_busy)
    qed
  qed
qed

lemma link_good_flush_motor:
  assumes good: "link_good R base c l ms" and idle: "tx_active (cl_tx l) = None" and pa: "\<not> has_pending_estop_assert l"
  shows "link_good R base c (snd (flush_pending_motor l)) ms"
    and "cl_pending_estop (snd (flush_pending_motor l)) = cl_pending_estop l"
proof -
  let ?t = "snd (tx_take_motor (cl_tx l))"
  have tg: "tx_good (cl_tx l) (u_wire (cl_uart l)) ms" using good by (simp add: link_good_def)
  note tk = tx_good_take [OF tg]
  have g1: "link_good R base c (l\<lparr>cl_tx := ?t\<rparr>) ms"
    using good tk(1,3) by (simp add: link_good_def has_pending_estop_assert_def)
  have idle1: "tx_active (cl_tx (l\<lparr>cl_tx := ?t\<rparr>)) = None" using idle tk(3) by simp
  show "link_good R base c (snd (flush_pending_motor l)) ms"
  proof (cases "fst (tx_take_motor (cl_tx l))")
    case None
    then show ?thesis using g1 by (simp add: flush_pending_motor_def case_prod_unfold)
  next
    case (Some x)
    obtain left right at where x: "x = (left, right, at)" by (cases x)
    let ?m = "MotorSetpoint (cl_motor_seq l + 1) left right"
    have ok: "pair_ok (tx_last_motor_on_wire (cl_tx (l\<lparr>cl_tx := ?t\<rparr>))) (msg_motor_pair ?m)"
      using tk(2,4) Some x by (simp add: msg_motor_pair_def)
    have "link_good R base c ((snd (enqueue (l\<lparr>cl_tx := ?t\<rparr>) ?m at))\<lparr>cl_pending_estop := cl_pending_estop l\<rparr>) ms"
      using pa by (intro link_good_enqueue [OF g1 idle1 ok _ refl]) (simp add: has_pending_estop_assert_def)
    then show ?thesis using Some x
      by (simp add: flush_pending_motor_def case_prod_unfold Let_def enqueue_idle [OF idle1] link_good_def has_pending_estop_assert_def)
  qed
  show "cl_pending_estop (snd (flush_pending_motor l)) = cl_pending_estop l"
    by (auto simp: flush_pending_motor_def case_prod_unfold Let_def enqueue_def split: option.splits)
qed

lemma link_good_pending_motor: "link_good R base c l ms \<Longrightarrow> link_good R base c (l\<lparr>cl_tx := (cl_tx l)\<lparr>tx_pending_motor := p\<rparr>\<rparr>) ms"
  by (simp add: link_good_def tx_good_pending has_pending_estop_assert_def)

lemma link_good_motor_pair: "link_good R base c l ms \<Longrightarrow> link_good R base c (snd (set_motor_pair l left right now)) ms"
  using link_good_pending_motor by (simp add: set_motor_pair_def tx_replace_motor_def)

lemma link_good_drop_motor:
  assumes "link_good R base c l ms" "tx_active (cl_tx l) = Some f" "f_sent f = 0" "f_motor_pair f \<noteq> None"
  shows "link_good R base c (l\<lparr>cl_tx := (cl_tx l)\<lparr>tx_active := None\<rparr>\<rparr>) ms"
proof -
  have "stop_first base c None pa ms" if "stop_first base c (Some f) pa ms" for pa
    using that assms(3,4) by (auto simp: stop_first_def frame_for_def msg_motor_pair_def)
  then show ?thesis using assms tx_good_drop [of "cl_tx l" _ ms f] by (auto simp: link_good_def has_pending_estop_assert_def)
qed

lemma link_good_safe_pair:
  assumes "link_good R base c l ms"
  shows "link_good R base c (snd (set_safe_motor_pair l now)) ms"
proof (cases "unsent_motor (tx_active (cl_tx l))")
  case True
  then obtain f where "tx_active (cl_tx l) = Some f" "f_sent f = 0" "f_motor_pair f \<noteq> None"
    by (auto simp: unsent_motor_def split: option.splits)
  from link_good_pending_motor [OF link_good_drop_motor [OF assms this]] True show ?thesis
    by (simp add: set_safe_motor_pair_def tx_prioritize_motor_def Let_def)
next
  case False
  then show ?thesis using link_good_pending_motor [OF assms] by (simp add: set_safe_motor_pair_def tx_prioritize_motor_def Let_def)
qed

lemma link_good_discard:
  assumes "link_good R base c l ms"
  shows "link_good R base c (l\<lparr>cl_tx := tx_discard_expired_motor (cl_tx l) now timeout\<rparr>) ms"
proof -
  let ?t = "tx_discard_expired_motor (cl_tx l) now timeout"
  have "tx_good ?t (u_wire (cl_uart l)) ms" using assms tx_good_discard by (simp add: link_good_def)
  moreover have "stop_first base c (tx_active ?t) pa ms" if "stop_first base c (tx_active (cl_tx l)) pa ms" for pa
    using tx_discard_active [of "cl_tx l" now timeout] that
    by (auto simp: stop_first_def frame_for_def msg_motor_pair_def)
  ultimately show ?thesis using assms by (simp add: link_good_def has_pending_estop_assert_def)
qed

lemma link_good_queue_phase_cancelled:
  assumes g0: "link_good R base c (cancel_unsent_for_stop (l\<lparr>cl_tx := tx_discard_expired_motor (cl_tx l) now LINK_TIMEOUT_NS\<rparr>)) ms"
  shows "link_good R base c (queue_phase l action now) ms"
proof -
  define l1 where "l1 = l\<lparr>cl_tx := tx_discard_expired_motor (cl_tx l) now LINK_TIMEOUT_NS\<rparr>"
  obtain e l2 where fl: "flush_pending_estop (cancel_unsent_for_stop l1) now = (e, l2)"
    by (cases "flush_pending_estop (cancel_unsent_for_stop l1) now")
  define l3 where "l3 = (if action = LinkSafeStop \<and> \<not> has_pending_estop_assert l2
      then l2\<lparr>cl_session := session_estop_sent (cl_session l2)\<rparr> else l2)"
  define l4 where "l4 = (if e \<and> tx_is_idle (cl_tx l3) then snd (flush_pending_motor l3) else l3)"
  have g1: "link_good R base c (cancel_unsent_for_stop l1) ms"
    unfolding l1_def by (rule g0)
  have g2: "link_good R base c l2 ms" using link_good_flush_estop(1) [OF g1, of now] fl by simp
  have same: "cl_tx l3 = cl_tx l2" "cl_uart l3 = cl_uart l2" "cl_pending_estop l3 = cl_pending_estop l2"
    by (simp_all add: l3_def)
  have g3: "link_good R base c l3 ms" using g2 same by (simp add: link_good_cong [of l3 l2])
  have pa3: "\<not> has_pending_estop_assert l3" if "e" "tx_is_idle (cl_tx l3)"
    using link_good_flush_estop(2) [OF g1, of now] that same fl by (simp add: tx_is_idle_def has_pending_estop_assert_def)
  have g4: "link_good R base c l4 ms \<and> cl_pending_estop l4 = cl_pending_estop l3"
    using g3 pa3 link_good_flush_motor [OF g3] by (auto simp: l4_def tx_is_idle_def)
  have "queue_phase l action now = (if e \<and> tx_is_idle (cl_tx l4)
      then (case action of Heartbeat sq \<Rightarrow> snd (enqueue l4 (HeartbeatToShrike sq) now) | _ \<Rightarrow> l4) else l4)"
    unfolding queue_phase_def Let_def l1_def [symmetric] fl prod.case l3_def [symmetric] l4_def [symmetric] by (rule refl)
  moreover have "link_good R base c (snd (enqueue l4 (HeartbeatToShrike sq) now)) ms" if "e" "tx_is_idle (cl_tx l4)" for sq
  proof -
    have idle4: "tx_active (cl_tx l4) = None" using that(2) by (simp add: tx_is_idle_def)
    have "tx_is_idle (cl_tx l3)"
    proof (rule ccontr)
      assume "\<not> tx_is_idle (cl_tx l3)"
      then show False using that(2) by (simp add: l4_def)
    qed
    then have "\<not> has_pending_estop_assert l4" using pa3 that(1) g4 by (simp add: has_pending_estop_assert_def)
    then have "link_good R base c ((snd (enqueue l4 (HeartbeatToShrike sq) now))\<lparr>cl_pending_estop := cl_pending_estop l4\<rparr>) ms"
      using g4 by (intro link_good_enqueue [OF _ idle4 _ _ refl]) (simp_all add: msg_motor_pair_def)
    then show ?thesis by (simp add: enqueue_idle [OF idle4])
  qed
  ultimately show ?thesis using g4 by (auto split: link_action.splits)
qed

lemma link_good_queue_phase:
  assumes "link_good R base c l ms"
  shows "link_good R base c (queue_phase l action now) ms"
  by (intro link_good_queue_phase_cancelled link_good_cancel link_good_discard assms)

lemma link_good_tx_drain:
  assumes "link_good R base c l ms"
  shows "\<exists>new. link_good R base c (tx_drain n l) (ms @ new)"
  using assms
proof (induction n l arbitrary: ms rule: tx_drain.induct)
  case (2 n l)
  show ?case
  proof (cases "tx_full (cl_uart l)")
    case False
    show ?thesis
    proof (cases "tx_next_byte (cl_tx l)")
      case (Pair x t)
      show ?thesis
      proof (cases x)
        case None
        then have "t = cl_tx l" using Pair by (auto simp: tx_next_byte_def Let_def split: option.splits)
        then show ?thesis using 2(2) Pair None False by (intro exI [of _ "[]"]) simp
      next
        case (Some b)
        let ?l' = "l\<lparr>cl_tx := t, cl_uart := write_byte (cl_uart l) b\<rparr>"
        have tg: "tx_good (cl_tx l) (u_wire (cl_uart l)) ms" and nb: "tx_next_byte (cl_tx l) = (Some b, t)"
          using 2(2) Pair Some by (simp_all add: link_good_def)
        have "\<exists>new. link_good R base c ?l' (ms @ new)"
        proof (rule tx_good_byte [OF tg nb])
          fix m k at
          assume a: "tx_active (cl_tx l) = Some (frame_for m k at)"
            and r: "tx_active t = Some (frame_for m (Suc k) at) \<and> tx_good t (u_wire (cl_uart l) @ [b]) ms
              \<or> tx_active t = None \<and> tx_good t (u_wire (cl_uart l) @ [b]) (ms @ [m])"
          have "R \<longrightarrow> stop_first base c (Some (frame_for m k at)) (has_pending_estop_assert l) ms"
            using 2(2) a by (simp add: link_good_def)
          note sb = this [THEN mp, THEN stop_first_byte(1)] this [THEN mp, THEN stop_first_byte(2)]
          from r show ?thesis
          proof
            assume "tx_active t = Some (frame_for m (Suc k) at) \<and> tx_good t (u_wire (cl_uart l) @ [b]) ms"
            then show ?thesis using sb(1)
              by (intro exI [of _ "[]"]) (simp add: link_good_def write_byte_def has_pending_estop_assert_def)
          next
            assume "tx_active t = None \<and> tx_good t (u_wire (cl_uart l) @ [b]) (ms @ [m])"
            then show ?thesis using sb(2)
              by (intro exI [of _ "[m]"]) (simp add: link_good_def write_byte_def has_pending_estop_assert_def)
          qed
        qed
        then obtain new where "link_good R base c ?l' (ms @ new)" ..
        from 2(1) [OF False Pair [symmetric] Some this] obtain new2
          where "link_good R base c (tx_drain n ?l') (ms @ new @ new2)" by auto
        then show ?thesis using Pair Some False by auto
      qed
    qed
  qed (use 2 in \<open>auto intro!: exI [of _ "[]"]\<close>)
qed (auto intro!: exI [of _ "[]"])

lemma link_good_session_phase:
  assumes "link_good R base c l ms" "session_phase l out now = (l', out', action)"
  shows "link_good R base c l' ms"
proof -
  obtain a s where st: "session_tick (cl_session l) now = (a, s)" by (cases "session_tick (cl_session l) now")
  let ?l1 = "l\<lparr>cl_session := s\<rparr>"
  let ?l2 = "if cl_link_loss_reported l then ?l1 else ?l1\<lparr>cl_link_loss_reported := True\<rparr>"
  have g: "link_good R base c ?l1 ms" "link_good R base c ?l2 ms"
    using assms(1) by (subst link_good_cong [of _ l]; simp)+
  have "l' = (if a = LinkSafeStop then queue_estop ?l2 True else ?l1)"
    using assms(2) by (auto simp: session_phase_def Let_def st)
  then show ?thesis using g link_good_queue_estop [OF g(2)] by simp
qed

lemma link_good_poll:
  assumes "link_good R base c l ms"
  shows "\<exists>new. link_good R base c (fst (poll_decode l now)) (ms @ new)"
proof -
  obtain l1 out1 where d: "rx_decode (rx_pull RX_PER_POLL l) outcome_default now = (l1, out1)"
    by (cases "rx_decode (rx_pull RX_PER_POLL l) outcome_default now")
  obtain l2 out2 action where s: "session_phase l1 out1 now = (l2, out2, action)" by (cases "session_phase l1 out1 now")
  have "link_good R base c l1 ms"
    using assms rx_decode_frame [OF d] by (subst link_good_cong [of l1 l]) (simp_all add: rx_pull_frame)
  from link_good_session_phase [OF this s] have "link_good R base c l2 ms" .
  from link_good_tx_drain [OF link_good_queue_phase [OF this]] show ?thesis
    by (simp add: poll_decode_def d s)
qed

lemma link_good_request:
  assumes "link_good R base c l ms"
  shows "link_good R base c (snd (request_estop l a now)) ms"
  unfolding request_estop_def
  by (intro link_good_flush_estop(1) link_good_cancel link_good_queue_estop assms)

section \<open>All executions\<close>

text \<open>The receive side between polls: an empty ring and a well-formed decoder.\<close>

definition rx_ok :: "control_link \<Rightarrow> bool" where
  "rx_ok l \<longleftrightarrow> ring_inv (cl_rx l) \<and> ring_capacity (cl_rx l) = 256 \<and> ring_contents (cl_rx l) = []
     \<and> cl_rx_overflows l = 0 \<and> dec_ok (cl_dec l)"

lemma rx_pull_ok:
  assumes "ring_inv (cl_rx l)" "ring_capacity (cl_rx l) = 256" "length (ring_contents (cl_rx l)) + n \<le> 256" "cl_rx_overflows l = 0"
  shows "ring_inv (cl_rx (rx_pull n l)) \<and> ring_capacity (cl_rx (rx_pull n l)) = 256 \<and> cl_rx_overflows (rx_pull n l) = 0
     \<and> cl_dec (rx_pull n l) = cl_dec l"
  using assms
proof (induction n l rule: rx_pull.induct)
  case (2 n l)
  obtain x u where rb: "read_byte (cl_uart l) = (x, u)" by (cases "read_byte (cl_uart l)")
  show ?case
  proof (cases x)
    case None
    then show ?thesis using 2 rb by simp
  next
    case (Some b)
    obtain r where r: "ring_push (cl_rx l) b = (True, r)" "ring_inv r" "ring_capacity r = 256"
        "ring_contents r = ring_contents (cl_rx l) @ [b]"
      using rb.push_accepts [OF 2(2), of b] 2(3,4) by auto
    let ?l' = "l\<lparr>cl_uart := u, cl_rx := r, cl_rx_overflows := (if True then cl_rx_overflows l else cl_rx_overflows l + 1)\<rparr>"
    have "ring_inv (cl_rx (rx_pull n ?l')) \<and> ring_capacity (cl_rx (rx_pull n ?l')) = 256 \<and> cl_rx_overflows (rx_pull n ?l') = 0
        \<and> cl_dec (rx_pull n ?l') = cl_dec ?l'"
      by (rule 2(1) [OF rb [symmetric] Some r(1) [symmetric]]) (use r 2(4,5) in simp_all)
    then show ?thesis using rb Some r(1) by simp
  qed
qed simp

lemma on_byte_dec:
  assumes "on_byte l out now b = (l', out')"
  shows "cl_dec l' = snd (dec_push (cl_dec l) b)" "cl_rx_overflows l' = cl_rx_overflows l"
  using assms by (auto simp: on_byte_def on_frame_def Let_def split: prod.splits option.splits sum.splits msg.splits if_splits)

lemma rx_decode_ok:
  assumes "rx_decode l out now = (l', out')" "ring_inv (cl_rx l)" "ring_capacity (cl_rx l) = 256" "dec_ok (cl_dec l)" "cl_rx_overflows l = 0"
  shows "rx_ok l'"
  using assms
proof (induction l out now rule: rx_decode.induct)
  case (1 l out now)
  show ?case
  proof (cases "ring_contents (cl_rx l)")
    case Nil
    then show ?thesis using 1(2-) rb.pop_empty [OF 1(3) Nil] by (auto simp: rx_decode.simps [of l] rx_ok_def)
  next
    case (Cons b bs)
    obtain r where r: "ring_pop (cl_rx l) = (Some b, r)" "ring_inv r" "ring_capacity r = 256"
      using rb.pop_first [OF 1(3) Cons] 1(4) by auto
    obtain l1 out1 where ob: "on_byte (l\<lparr>cl_rx := r\<rparr>) out now b = (l1, out1)" by (cases "on_byte (l\<lparr>cl_rx := r\<rparr>) out now b")
    have rx1: "cl_rx l1 = r" using on_byte_rx [of "l\<lparr>cl_rx := r\<rparr>" out now b] ob by simp
    have "rx_decode l1 out1 now = (l', out')" using 1(2) r(1) ob by (simp add: rx_decode.simps [of l])
    then show ?thesis
      using on_byte_dec [OF ob] dec_ok_push [OF 1(5), of b] 1(6) r
      by (intro 1(1) [OF r(1) [symmetric] refl ob [symmetric]]) (simp_all add: rx1)
  qed
qed

lemma enqueue_frame: "cl_rx (snd (enqueue l m now)) = cl_rx l" "cl_dec (snd (enqueue l m now)) = cl_dec l"
  "cl_rx_overflows (snd (enqueue l m now)) = cl_rx_overflows l"
  by (simp_all add: enqueue_def case_prod_unfold)

lemma rx_ok_cong:
  assumes "cl_rx l' = cl_rx l" "cl_dec l' = cl_dec l" "cl_rx_overflows l' = cl_rx_overflows l"
  shows "rx_ok l' \<longleftrightarrow> rx_ok l"
  using assms by (simp add: rx_ok_def)

lemma rx_ok_flush_estop: "rx_ok (snd (flush_pending_estop l now)) \<longleftrightarrow> rx_ok l"
  by (rule rx_ok_cong) (auto simp: flush_pending_estop_def Let_def case_prod_unfold enqueue_frame split: option.splits)

lemma rx_ok_flush_motor: "rx_ok (snd (flush_pending_motor l)) \<longleftrightarrow> rx_ok l"
  by (rule rx_ok_cong) (auto simp: flush_pending_motor_def Let_def case_prod_unfold enqueue_frame split: option.splits)

lemma rx_ok_simple:
  "rx_ok (queue_estop l a) \<longleftrightarrow> rx_ok l" "rx_ok (cancel_unsent_for_stop l) \<longleftrightarrow> rx_ok l"
  "rx_ok (l\<lparr>cl_tx := t\<rparr>) \<longleftrightarrow> rx_ok l" "rx_ok (l\<lparr>cl_session := v\<rparr>) \<longleftrightarrow> rx_ok l"
  "rx_ok (l\<lparr>cl_link_loss_reported := q\<rparr>) \<longleftrightarrow> rx_ok l" "rx_ok (l\<lparr>cl_uart := u\<rparr>) \<longleftrightarrow> rx_ok l"
  "rx_ok (snd (enqueue l m now)) \<longleftrightarrow> rx_ok l"
  by (rule rx_ok_cong; simp add: queue_estop_def cancel_unsent_for_stop_def Let_def enqueue_frame)+

lemma rx_ok_tx_drain: "rx_ok (tx_drain n l) \<longleftrightarrow> rx_ok l"
  by (induction n l rule: tx_drain.induct) (auto simp: rx_ok_def split: option.splits prod.splits)

lemma rx_ok_queue_phase: "rx_ok (queue_phase l action now) \<longleftrightarrow> rx_ok l"
  by (simp add: queue_phase_def Let_def case_prod_unfold rx_ok_simple rx_ok_flush_estop rx_ok_flush_motor split: link_action.split)

lemma rx_ok_session_phase: "session_phase l out now = (l', out', action) \<Longrightarrow> rx_ok l' \<longleftrightarrow> rx_ok l"
  by (auto simp: session_phase_def Let_def case_prod_unfold rx_ok_simple split: if_splits)

lemma rx_ok_poll:
  assumes "rx_ok l"
  shows "rx_ok (fst (poll_decode l now))"
proof -
  obtain l1 out1 where d: "rx_decode (rx_pull RX_PER_POLL l) outcome_default now = (l1, out1)"
    by (cases "rx_decode (rx_pull RX_PER_POLL l) outcome_default now")
  obtain l2 out2 action where s: "session_phase l1 out1 now = (l2, out2, action)" by (cases "session_phase l1 out1 now")
  have "rx_ok l1"
    using assms rx_pull_ok [of l RX_PER_POLL] by (intro rx_decode_ok [OF d]) (simp_all add: rx_ok_def RX_PER_POLL_def)
  then have "rx_ok l2" using rx_ok_session_phase [OF s] by simp
  then show ?thesis by (simp add: poll_decode_def d s rx_ok_tx_drain rx_ok_queue_phase)
qed

text \<open>
  The steps of the link: bytes arrive, the transmit FIFO changes, the poller runs, or the actuation
  seam issues a command. (\<open>send\<close>, which queues an arbitrary message, has no caller.)
\<close>

inductive link_step :: "control_link \<Rightarrow> control_link \<Rightarrow> bool" where
  ls_arrive: "link_step l (l\<lparr>cl_uart := (cl_uart l)\<lparr>u_rx := u_rx (cl_uart l) @ ws\<rparr>\<rparr>)"
| ls_room: "link_step l (l\<lparr>cl_uart := (cl_uart l)\<lparr>u_room := n\<rparr>\<rparr>)"
| ls_poll: "link_step l (fst (poll_decode l now))"
| ls_motor: "link_step l (snd (send_motor_pair l left right now))"
| ls_safe: "link_step l (snd (send_safe_motor_pair l now))"
| ls_estop: "link_step l (snd (command_estop l a now))"

lemma link_good_uart: "link_good R base c (l\<lparr>cl_uart := u\<rparr>) ms \<longleftrightarrow> link_good R base c l ms" if "u_wire u = u_wire (cl_uart l)"
  using that by (intro link_good_cong) simp_all

lemma link_step_good:
  assumes "link_step l l'" "link_good R base c l ms"
  shows "\<exists>new. link_good R base c l' (ms @ new)"
  using assms
proof cases
  case (ls_poll now)
  then show ?thesis using link_good_poll [OF assms(2)] by simp
next
  case (ls_motor left right now)
  then show ?thesis using assms(2) link_good_motor_pair [OF assms(2)]
    by (intro exI [of _ "[]"]) (simp add: send_motor_pair_def)
next
  case (ls_safe now)
  then show ?thesis using assms(2) link_good_safe_pair [OF assms(2)]
    by (intro exI [of _ "[]"]) (simp add: send_safe_motor_pair_def)
next
  case (ls_estop a now)
  then show ?thesis using link_good_request [OF assms(2)] by (intro exI [of _ "[]"]) (simp add: command_estop_def)
qed (use assms(2) in \<open>auto simp: link_good_uart intro!: exI [of _ "[]"]\<close>)

lemma link_step_rx_ok:
  assumes "link_step l l'" "rx_ok l"
  shows "rx_ok l'"
  using assms
proof cases
  case (ls_poll now)
  then show ?thesis using rx_ok_poll [OF assms(2)] by simp
qed (use assms(2) in \<open>auto simp: rx_ok_simple send_motor_pair_def set_motor_pair_def send_safe_motor_pair_def
      set_safe_motor_pair_def command_estop_def request_estop_def rx_ok_flush_estop split: if_splits\<close>)

lemma link_steps_good:
  assumes "link_step\<^sup>*\<^sup>* l l'" "link_good R base c l ms"
  shows "\<exists>new. link_good R base c l' (ms @ new)"
  using assms
proof (induction rule: rtranclp_induct)
  case base
  then show ?case by (intro exI [of _ "[]"]) simp
next
  case (step l1 l2)
  from step.IH [OF step.prems] obtain new where "link_good R base c l1 (ms @ new)" ..
  from link_step_good [OF step.hyps(2) this] show ?case by auto
qed

lemma link_steps_rx_ok: "link_step\<^sup>*\<^sup>* l l' \<Longrightarrow> rx_ok l \<Longrightarrow> rx_ok l'"
  by (induction rule: rtranclp_induct) (auto dest: link_step_rx_ok)

definition link_reachable :: "control_link \<Rightarrow> bool" where
  "link_reachable l \<longleftrightarrow> (\<exists>u sid. u_wire u = [] \<and> link_step\<^sup>*\<^sup>* (control_link_new u sid) l)"

lemma link_reachable_inv:
  assumes "link_reachable l"
  shows "rx_ok l" and "\<exists>ms. link_good False [] [] l ms"
proof -
  obtain u sid where u: "u_wire u = []" "link_step\<^sup>*\<^sup>* (control_link_new u sid) l" using assms by (auto simp: link_reachable_def)
  have "rx_ok (control_link_new u sid)"
    by (simp add: rx_ok_def control_link_new_def ring_new_ok RING_BYTES_def dec_ok_new)
  with link_steps_rx_ok [OF u(2)] show "rx_ok l" by blast
  have "link_good False [] [] (control_link_new u sid) []"
    using tx_good_new u(1) by (simp add: link_good_def control_link_new_def)
  with link_steps_good [OF u(2)] show "\<exists>ms. link_good False [] [] l ms" by blast
qed

end
