(* ===== verification/Link_Stop.thy ===== *)
theory Link_Stop
  imports Link_Safety
begin

text \<open>
  The stop command on the control link: it is the next frame after the one in transmission, and it
  reaches the wire within a bounded number of polls as long as the UART accepts a byte per poll;
  the same holds for the stop that the kernel issues by itself when the peer falls silent.
\<close>

section \<open>The stop request\<close>

lemma stop_first_established:
  assumes good: "link_good False [] [] l base" and pa: "has_pending_estop_assert l"
  shows "\<exists>c. length c \<le> 1 \<and> (c \<noteq> [] \<longrightarrow> \<not> tx_is_idle (cl_tx l) \<and> \<not> unsent (tx_active (cl_tx l)))
     \<and> link_good True base c (cancel_unsent_for_stop l) base"
proof -
  let ?l = "cancel_unsent_for_stop l"
  have g: "link_good False [] [] ?l base" by (intro link_good_cancel good)
  have pa': "has_pending_estop_assert ?l"
    using pa by (simp add: has_pending_estop_assert_def cancel_unsent_for_stop_def)
  have act: "tx_active (cl_tx ?l) = (if unsent (tx_active (cl_tx l)) then None else tx_active (cl_tx l))"
    using pa by (simp add: cancel_unsent_for_stop_def tx_cancel_unsent_def)
  show ?thesis
  proof (cases "tx_active (cl_tx ?l)")
    case None
    then show ?thesis using g pa' by (intro exI [of _ "[]"]) (simp add: link_good_def stop_first_def)
  next
    case (Some f)
    obtain m k at where f: "f = frame_for m k at" using g Some by (auto simp: link_good_def tx_good_def wire_inv_def)
    have nu: "\<not> unsent (tx_active (cl_tx l))" "tx_active (cl_tx l) = Some f" using Some act by (auto split: if_splits)
    then have "0 < k" by (simp add: unsent_def f frame_for_def)
    then have "stop_first base [m] (Some f) True base" by (auto simp: stop_first_def f)
    then show ?thesis using g pa' Some nu by (intro exI [of _ "[m]"]) (simp add: link_good_def tx_is_idle_def)
  qed
qed

lemma queue_estop_frame:
  "has_pending_estop_assert (queue_estop l True)" "tx_active (cl_tx (queue_estop l True)) = tx_active (cl_tx l)"
  by (simp_all add: has_pending_estop_assert_def queue_estop_def Let_def tx_clear_motor_def)

lemma command_stop_first:
  assumes good: "link_good False [] [] l base"
  shows "\<exists>c. length c \<le> 1 \<and> (c \<noteq> [] \<longrightarrow> \<not> tx_is_idle (cl_tx l) \<and> \<not> unsent (tx_active (cl_tx l)))
     \<and> link_good True base c (snd (command_estop l True now)) base"
proof -
  obtain c where c: "length c \<le> 1" "c \<noteq> [] \<longrightarrow> \<not> tx_is_idle (cl_tx l) \<and> \<not> unsent (tx_active (cl_tx l))"
    and g: "link_good True base c (cancel_unsent_for_stop (queue_estop l True)) base"
    using stop_first_established [OF link_good_queue_estop [OF good] queue_estop_frame(1)]
    by (auto simp: tx_is_idle_def queue_estop_frame)
  have "link_good True base c (snd (command_estop l True now)) base"
    unfolding command_estop_def request_estop_def by (intro link_good_flush_estop(1) g)
  with c show ?thesis by blast
qed

lemma stop_request_first:
  assumes good: "link_good False [] [] l base" and after: "link_step\<^sup>*\<^sup>* (snd (command_estop l True now)) l'"
  shows "\<exists>c new. link_good False [] [] l' (base @ new) \<and> length c \<le> 1
     \<and> (c \<noteq> [] \<longrightarrow> \<not> tx_is_idle (cl_tx l) \<and> \<not> unsent (tx_active (cl_tx l)))
     \<and> (new \<in> {[], c} \<or> (\<exists>pre rest. pre \<in> {[], c} \<and> new = pre @ Estop True # rest))"
proof -
  obtain c where c: "length c \<le> 1" "c \<noteq> [] \<longrightarrow> \<not> tx_is_idle (cl_tx l) \<and> \<not> unsent (tx_active (cl_tx l))"
    and g: "link_good True base c (snd (command_estop l True now)) base"
    using command_stop_first [OF good] by blast
  from link_steps_good [OF after g] obtain new where ms: "link_good True base c l' (base @ new)" by blast
  then have "link_good False [] [] l' (base @ new)" by (simp add: link_good_def)
  moreover have "new \<in> {[], c} \<or> (\<exists>pre rest. pre \<in> {[], c} \<and> new = pre @ Estop True # rest)"
    using ms by (auto simp: link_good_def stop_first_def)
  ultimately show ?thesis using c by blast
qed

section \<open>Progress\<close>

lemma length_estop_frame: "length (frame_of (Estop a)) = 7"
  by (simp add: frame_of_def)

text \<open>While the stop is outstanding, the wire is shorter than the sent frames plus two.\<close>

lemma outstanding_length:
  assumes good: "link_good True base c l ms" and c: "length c \<le> 1"
    and out: "\<nexists>pre rest. pre \<in> {[], c} \<and> ms = base @ pre @ Estop True # rest"
  shows "length (u_wire (cl_uart l)) < length (concat (map frame_of base)) + 29"
proof -
  let ?t = "cl_tx l" and ?w = "u_wire (cl_uart l)"
  have inv: "wire_inv ?t ?w ms" and st: "stop_first base c (tx_active ?t) (has_pending_estop_assert l) ms"
    using good by (simp_all add: link_good_def tx_good_def)
  have lc: "length (concat (map frame_of c)) \<le> 22"
    using c frame_of_length(2) by (cases c) auto
  have lm: "length (concat (map frame_of ms)) \<le> length (concat (map frame_of base)) + length (concat (map frame_of c))"
    if "ms \<in> {base, base @ c}" using that by auto
  from st out consider
      (none) "tx_active ?t = None" "ms \<in> {base, base @ c}"
    | (part) m k at where "tx_active ?t = Some (frame_for m k at)" "c = [m]" "ms = base"
    | (stop) k at where "tx_active ?t = Some (frame_for (Estop True) k at)" "ms \<in> {base, base @ c}"
    unfolding stop_first_def by auto
  then show ?thesis
  proof cases
    case none
    then show ?thesis using inv lm lc by (auto simp: wire_inv_def)
  next
    case (part m k at)
    then have "?w = concat (map frame_of ms) @ take k (frame_of m)"
      using inv by (auto simp: wire_inv_def frame_for_inj)
    then show ?thesis using part frame_of_length(2) [of m] by auto
  next
    case (stop k at)
    then have "?w = concat (map frame_of ms) @ take k (frame_of (Estop True))" "k < 7"
      using inv by (auto simp: wire_inv_def frame_for_inj length_estop_frame)
    then show ?thesis using lm [OF stop(2)] lc by simp
  qed
qed

lemma flush_estop_busy:
  "\<not> (has_pending_estop_assert (snd (flush_pending_estop l now)) \<and> tx_active (cl_tx (snd (flush_pending_estop l now))) = None)"
proof (cases "cl_pending_estop l")
  case (Some p)
  then show ?thesis
    by (cases "tx_active (cl_tx l)") (simp_all add: flush_pending_estop_def enqueue_idle enqueue_busy)
qed (simp add: flush_pending_estop_def has_pending_estop_assert_def)

lemma queue_phase_busy:
  assumes good: "link_good True base c l ms"
    and out: "\<nexists>pre rest. pre \<in> {[], c} \<and> ms = base @ pre @ Estop True # rest"
  shows "tx_active (cl_tx (queue_phase l action now)) \<noteq> None"
proof -
  define l1 where "l1 = l\<lparr>cl_tx := tx_discard_expired_motor (cl_tx l) now LINK_TIMEOUT_NS\<rparr>"
  obtain e l2 where fl: "flush_pending_estop (cancel_unsent_for_stop l1) now = (e, l2)"
    by (cases "flush_pending_estop (cancel_unsent_for_stop l1) now")
  have "link_good True base c l2 ms"
    using link_good_flush_estop(1) [of True base c "cancel_unsent_for_stop l1" ms now] fl
    by (simp add: l1_def link_good_cancel link_good_discard good)
  then have busy: "tx_active (cl_tx l2) \<noteq> None"
    using out flush_estop_busy [of "cancel_unsent_for_stop l1" now] fl by (auto simp: link_good_def stop_first_def)
  then have "queue_phase l action now = (if action = LinkSafeStop \<and> \<not> has_pending_estop_assert l2
      then l2\<lparr>cl_session := session_estop_sent (cl_session l2)\<rparr> else l2)"
    by (auto simp: queue_phase_def Let_def l1_def [symmetric] fl tx_is_idle_def)
  then show ?thesis using busy by simp
qed

lemma tx_drain_wire: "length (u_wire (cl_uart l)) \<le> length (u_wire (cl_uart (tx_drain n l)))"
proof (induction n l rule: tx_drain.induct)
  case (2 n l)
  then show ?case by (auto simp: write_byte_def split: option.splits prod.splits)
qed simp

lemma tx_drain_progress:
  assumes "tx_active (cl_tx l) \<noteq> None" "\<not> tx_full (cl_uart l)"
  shows "length (u_wire (cl_uart l)) < length (u_wire (cl_uart (tx_drain (Suc n) l)))"
proof -
  obtain b t where "tx_next_byte (cl_tx l) = (Some b, t)" using assms(1) by (auto simp: tx_next_byte_def Let_def)
  then show ?thesis
    using assms(2) tx_drain_wire [of "l\<lparr>cl_tx := t, cl_uart := write_byte (cl_uart l) b\<rparr>" n]
    by (simp add: write_byte_def)
qed

text \<open>One pass of the poller with newly arrived words and the given room in the transmit FIFO.\<close>

fun poll_with :: "control_link \<Rightarrow> u32 list \<times> nat \<times> u64 \<Rightarrow> control_link" where
  "poll_with l (ws, room, now) =
     fst (poll_decode (l\<lparr>cl_uart := (cl_uart l)\<lparr>u_rx := u_rx (cl_uart l) @ ws, u_room := room\<rparr>\<rparr>) now)"

lemma read_byte_room: "u_room (snd (read_byte u)) = u_room u"
  by (auto simp: read_byte_def split: list.splits)

lemma rx_pull_room: "u_room (cl_uart (rx_pull n l)) = u_room (cl_uart l)"
proof (induction n l rule: rx_pull.induct)
  case (2 n l)
  then show ?case using read_byte_room [of "cl_uart l"] by (auto split: prod.splits option.splits)
qed simp

lemma enqueue_uart [simp]: "cl_uart (snd (enqueue l m now)) = cl_uart l"
  by (simp add: enqueue_def case_prod_unfold)

lemma flush_uart [simp]:
  "cl_uart (snd (flush_pending_estop l now)) = cl_uart l" "cl_uart (snd (flush_pending_motor l)) = cl_uart l"
  "cl_uart (cancel_unsent_for_stop l) = cl_uart l"
  by (auto simp: flush_pending_estop_def flush_pending_motor_def cancel_unsent_for_stop_def Let_def case_prod_unfold
      split: option.splits)

lemma queue_phase_uart: "cl_uart (queue_phase l action now) = cl_uart l"
  by (simp add: queue_phase_def Let_def case_prod_unfold split: link_action.split)

lemma session_phase_uart: "session_phase l out now = (l', out', action) \<Longrightarrow> cl_uart l' = cl_uart l"
  by (auto simp: session_phase_def Let_def case_prod_unfold queue_estop_def split: if_splits)

lemma poll_with_progress:
  assumes good: "link_good True base c l ms" and room: "0 < room"
    and out: "\<nexists>pre rest. pre \<in> {[], c} \<and> ms = base @ pre @ Estop True # rest"
  shows "\<exists>ms'. link_good True base c (poll_with l (ws, room, now)) ms'"
    and "length (u_wire (cl_uart l)) < length (u_wire (cl_uart (poll_with l (ws, room, now))))"
proof -
  let ?l0 = "l\<lparr>cl_uart := (cl_uart l)\<lparr>u_rx := u_rx (cl_uart l) @ ws, u_room := room\<rparr>\<rparr>"
  have g0: "link_good True base c ?l0 ms" using good by (simp add: link_good_uart)
  then show "\<exists>ms'. link_good True base c (poll_with l (ws, room, now)) ms'" using link_good_poll [OF g0, of now] by auto
  obtain l1 out1 where d: "rx_decode (rx_pull RX_PER_POLL ?l0) outcome_default now = (l1, out1)"
    by (cases "rx_decode (rx_pull RX_PER_POLL ?l0) outcome_default now")
  obtain l2 out2 action where s: "session_phase l1 out1 now = (l2, out2, action)" by (cases "session_phase l1 out1 now")
  have "link_good True base c l1 ms"
    using g0 rx_decode_frame [OF d] by (subst link_good_cong [of l1 ?l0]) (simp_all add: rx_pull_frame)
  then have "link_good True base c l2 ms" using s by (rule link_good_session_phase)
  from queue_phase_busy [OF this out] have busy: "tx_active (cl_tx (queue_phase l2 action now)) \<noteq> None" .
  have uart: "u_wire (cl_uart l2) = u_wire (cl_uart l)" "u_room (cl_uart l2) = room"
    using session_phase_uart [OF s] rx_decode_frame [OF d] by (simp_all add: rx_pull_frame rx_pull_room)
  have "poll_with l (ws, room, now) = tx_drain TX_PER_POLL (queue_phase l2 action now)"
    by (simp add: poll_decode_def d s)
  then show "length (u_wire (cl_uart l)) < length (u_wire (cl_uart (poll_with l (ws, room, now))))"
    using tx_drain_progress [OF busy, of 63] uart room
    by (simp add: TX_PER_POLL_def queue_phase_uart tx_full_def del: tx_drain.simps)
qed

lemma poll_with_good:
  assumes "link_good R base c l ms"
  shows "\<exists>new. link_good R base c (poll_with l x) (ms @ new)"
proof -
  obtain ws room now where x: "x = (ws, room, now)" by (cases x)
  have "link_good R base c (l\<lparr>cl_uart := (cl_uart l)\<lparr>u_rx := u_rx (cl_uart l) @ ws, u_room := room\<rparr>\<rparr>) ms"
    using assms by (simp add: link_good_uart)
  from link_good_poll [OF this] show ?thesis by (simp add: x)
qed

lemma polls_good:
  assumes "link_good R base c l ms"
  shows "\<exists>new. link_good R base c (foldl poll_with l xs) (ms @ new)"
  using assms
proof (induction xs arbitrary: l ms)
  case Nil
  then show ?case by (intro exI [of _ "[]"]) simp
next
  case (Cons x xs)
  from poll_with_good [OF Cons.prems] obtain new where "link_good R base c (poll_with l x) (ms @ new)" by blast
  from Cons.IH [OF this] show ?case by auto
qed

definition stop_sent :: "msg list \<Rightarrow> msg list \<Rightarrow> msg list \<Rightarrow> bool" where
  "stop_sent base c ms \<longleftrightarrow> (\<exists>pre rest. pre \<in> {[], c} \<and> ms = base @ pre @ Estop True # rest)"

lemma stop_sent_append: "stop_sent base c ms \<Longrightarrow> stop_sent base c (ms @ new)"
  by (auto simp: stop_sent_def)

text \<open>Every poll with room sends a byte, until the stop has been sent.\<close>

lemma polls_progress:
  assumes "link_good True base c l ms" "list_all (\<lambda>(ws, room, now). 0 < room) xs"
  shows "\<exists>new. link_good True base c (foldl poll_with l xs) (ms @ new) \<and>
     (stop_sent base c (ms @ new) \<or> length (u_wire (cl_uart l)) + length xs \<le> length (u_wire (cl_uart (foldl poll_with l xs))))"
  using assms
proof (induction xs arbitrary: l ms)
  case Nil
  then show ?case by (intro exI [of _ "[]"]) simp
next
  case (Cons x xs)
  obtain ws room now where x: "x = (ws, room, now)" "0 < room" using Cons.prems(2) by (cases x) auto
  have xs: "list_all (\<lambda>(ws, room, now). 0 < room) xs" using Cons.prems(2) by simp
  obtain new where new: "link_good True base c (poll_with l x) (ms @ new)" using poll_with_good [OF Cons.prems(1)] by blast
  obtain new2 where new2: "link_good True base c (foldl poll_with (poll_with l x) xs) ((ms @ new) @ new2)"
    and or: "stop_sent base c ((ms @ new) @ new2) \<or>
      length (u_wire (cl_uart (poll_with l x))) + length xs \<le> length (u_wire (cl_uart (foldl poll_with (poll_with l x) xs)))"
    using Cons.IH [OF new xs] by blast
  show ?case
  proof (cases "stop_sent base c ms")
    case True
    then show ?thesis using new2 stop_sent_append [OF True, of "new @ new2"] by (intro exI [of _ "new @ new2"]) simp
  next
    case False
    then have "length (u_wire (cl_uart l)) < length (u_wire (cl_uart (poll_with l x)))"
      using poll_with_progress(2) [OF Cons.prems(1) x(2), of ws now] by (simp add: stop_sent_def x(1))
    then show ?thesis using new2 or by (intro exI [of _ "new @ new2"]) auto
  qed
qed

lemma stop_sent_in_time:
  assumes good: "link_good True base c l base" and c: "length c \<le> 1"
    and xs: "list_all (\<lambda>(ws, room, now). 0 < room) xs" "29 \<le> length xs"
  shows "\<exists>new. link_good False [] [] (foldl poll_with l xs) (base @ new) \<and> stop_sent base c (base @ new)"
proof -
  obtain new where g: "link_good True base c (foldl poll_with l xs) (base @ new)"
    and or: "stop_sent base c (base @ new) \<or> length (u_wire (cl_uart l)) + length xs \<le> length (u_wire (cl_uart (foldl poll_with l xs)))"
    using polls_progress [OF good xs(1)] by blast
  have "length (concat (map frame_of base)) \<le> length (u_wire (cl_uart l))"
    using good by (auto simp: link_good_def tx_good_def wire_inv_def split: option.splits)
  then have "stop_sent base c (base @ new)"
    using or outstanding_length [OF g c] xs(2) unfolding stop_sent_def by fastforce
  then show ?thesis using g by (auto simp: link_good_def)
qed

text \<open>The stop command of the seam is on the wire after 29 polls.\<close>

lemma stop_command_delivered:
  assumes good: "link_good False [] [] l base" and "list_all (\<lambda>(ws, room, now). 0 < room) xs" "29 \<le> length xs"
  shows "\<exists>c new. length c \<le> 1 \<and> link_good False [] [] (foldl poll_with (snd (command_estop l True now)) xs) (base @ new)
     \<and> stop_sent base c (base @ new)"
proof -
  obtain c where c: "length c \<le> 1" and g: "link_good True base c (snd (command_estop l True now)) base"
    using command_stop_first [OF good] by blast
  from stop_sent_in_time [OF g c assms(2,3)] c show ?thesis by blast
qed

section \<open>A silent peer\<close>

text \<open>A poll that finds the peer dead and the stop unsent requests the stop by itself.\<close>

lemma dead_poll_requests_stop:
  assumes good: "link_good False [] [] l base" and rx: "u_rx (cl_uart l) = []" "rx_ok l"
    and dead: "\<not> session_alive (cl_session l) now" "ls_alive_prev (cl_session l) \<or> \<not> ls_estop_done (cl_session l)"
  shows "\<exists>c new. length c \<le> 1 \<and> link_good True base c (fst (poll_decode l now)) (base @ new)"
proof -
  have pull: "rx_pull RX_PER_POLL l = l" using rx(1) by (simp add: RX_PER_POLL_def read_byte_def numeral_eq_Suc)
  have "ring_pop (cl_rx l) = (None, cl_rx l)" using rx(2) by (intro rb.pop_empty) (simp_all add: rx_ok_def)
  then have dec: "rx_decode l outcome_default now = (l, outcome_default)" by (simp add: rx_decode.simps [of l])
  obtain s where st: "session_tick (cl_session l) now = (LinkSafeStop, s)"
    using dead_tick(1) [OF dead] by (cases "session_tick (cl_session l) now") simp
  let ?l1 = "l\<lparr>cl_session := s\<rparr>"
  let ?l2 = "if cl_link_loss_reported l then ?l1 else ?l1\<lparr>cl_link_loss_reported := True\<rparr>"
  have g2: "link_good False [] [] ?l2 base" using good by (subst link_good_cong [of _ l]) simp_all
  let ?l3 = "queue_estop ?l2 True"
  let ?l4 = "?l3\<lparr>cl_tx := tx_discard_expired_motor (cl_tx ?l3) now LINK_TIMEOUT_NS\<rparr>"
  have g4: "link_good False [] [] ?l4 base" by (intro link_good_discard link_good_queue_estop g2)
  have "has_pending_estop_assert ?l4" using queue_estop_frame(1) [of ?l2] by (simp add: has_pending_estop_assert_def)
  then obtain c where c: "length c \<le> 1" and g5: "link_good True base c (cancel_unsent_for_stop ?l4) base"
    using stop_first_established [OF g4] by blast
  have "session_phase l outcome_default now = (?l3, if cl_link_loss_reported l then outcome_default
      else outcome_default\<lparr>po_link_loss := True\<rparr>, LinkSafeStop)"
    using st by (simp add: session_phase_def Let_def)
  then have "fst (poll_decode l now) = tx_drain TX_PER_POLL (queue_phase ?l3 LinkSafeStop now)"
    by (simp add: poll_decode_def pull dec)
  with link_good_tx_drain [OF link_good_queue_phase_cancelled [OF g5]] c show ?thesis by metis
qed

theorem silent_peer_stopped:
  assumes good: "link_good False [] [] l base" and rx: "u_rx (cl_uart l) = []" "rx_ok l"
    and dead: "\<not> session_alive (cl_session l) now" "ls_alive_prev (cl_session l) \<or> \<not> ls_estop_done (cl_session l)"
    and xs: "list_all (\<lambda>(ws, room, now). 0 < room) xs" "29 \<le> length xs"
  shows "\<exists>c new. length c \<le> 1 \<and> link_good False [] [] (foldl poll_with (fst (poll_decode l now)) xs) (base @ new)
     \<and> stop_sent base c (base @ new)"
proof -
  obtain c new where c: "length c \<le> 1" and g: "link_good True base c (fst (poll_decode l now)) (base @ new)"
    using dead_poll_requests_stop [OF good rx dead] by blast
  let ?l = "fst (poll_decode l now)" and ?l' = "foldl poll_with (fst (poll_decode l now)) xs"
  obtain new2 where g2: "link_good True base c ?l' ((base @ new) @ new2)"
    and or: "stop_sent base c ((base @ new) @ new2) \<or> length (u_wire (cl_uart ?l)) + length xs \<le> length (u_wire (cl_uart ?l'))"
    using polls_progress [OF g xs(1)] by blast
  have "length (concat (map frame_of base)) \<le> length (u_wire (cl_uart ?l))"
    using g by (auto simp: link_good_def tx_good_def wire_inv_def split: option.splits)
  then have "stop_sent base c (base @ (new @ new2))"
    using or outstanding_length [OF g2 c] xs(2) unfolding stop_sent_def by fastforce
  then show ?thesis using g2 c by (intro exI [of _ c] exI [of _ "new @ new2"]) (simp add: link_good_def)
qed

end
