(* ===== verification/Rp1_Pwm.thy ===== *)
theory Rp1_Pwm
  imports Rust_Std
begin

text \<open>
  The driver of the RP1 PWM controllers (\<open>rpi5/pwm.rs\<close>). A controller is its register file: the
  word last written at each offset of its aperture, which a read returns. The assertions of the
  driver on the channel number are \<open>None\<close>.
\<close>

unbundle bit_operations_syntax

type_synonym rp1_pwm = "nat \<Rightarrow> u32"

section \<open>Registers\<close>

definition GLOBAL_CTRL :: nat where "GLOBAL_CTRL = 0"
definition CHAN_STRIDE :: nat where "CHAN_STRIDE = 0x10"
definition chan_ctrl :: "u8 \<Rightarrow> nat" where "chan_ctrl ch = 0x14 + unat ch * CHAN_STRIDE"
definition chan_range :: "u8 \<Rightarrow> nat" where "chan_range ch = 0x18 + unat ch * CHAN_STRIDE"
definition chan_duty :: "u8 \<Rightarrow> nat" where "chan_duty ch = 0x20 + unat ch * CHAN_STRIDE"

definition SET_UPDATE :: u32 where "SET_UPDATE = 0x80000000"
definition chan_enable :: "u8 \<Rightarrow> u32" where "chan_enable ch = push_bit (unat ch) 1"

definition NUM_CHANNELS :: u8 where "NUM_CHANNELS = 4"
definition CHAN_CTRL_DEFAULT :: u32 where "CHAN_CTRL_DEFAULT = 0x101"
definition RP1_PWM_CLOCK_HZ :: u32 where "RP1_PWM_CLOCK_HZ = 50000000"

definition pwm_hw :: "u8 \<Rightarrow> u8" where "pwm_hw channel = channel - 1"
definition pwm_valid :: "u8 \<Rightarrow> bool" where "pwm_valid channel \<longleftrightarrow> 1 \<le> channel \<and> channel \<le> NUM_CHANNELS"

section \<open>Operations\<close>

definition pwm_commit :: "rp1_pwm \<Rightarrow> rp1_pwm" where
  "pwm_commit r = r(GLOBAL_CTRL := r GLOBAL_CTRL OR SET_UPDATE)"

definition pwm_init :: "rp1_pwm \<Rightarrow> rp1_pwm" where "pwm_init r = r(GLOBAL_CTRL := SET_UPDATE)"

definition pwm_enable :: "rp1_pwm \<Rightarrow> u8 \<Rightarrow> rp1_pwm option" where
  "pwm_enable r channel =
     (if \<not> pwm_valid channel then None
      else let ch = pwm_hw channel; r1 = r(chan_ctrl ch := CHAN_CTRL_DEFAULT); g = r1 GLOBAL_CTRL
        in Some (r1(GLOBAL_CTRL := g OR chan_enable ch OR SET_UPDATE)))"

definition pwm_disable :: "rp1_pwm \<Rightarrow> u8 \<Rightarrow> rp1_pwm option" where
  "pwm_disable r channel =
     (if \<not> pwm_valid channel then None
      else Some (r(GLOBAL_CTRL := (r GLOBAL_CTRL AND NOT (chan_enable (pwm_hw channel))) OR SET_UPDATE)))"

definition pwm_set_range :: "rp1_pwm \<Rightarrow> u8 \<Rightarrow> u32 \<Rightarrow> rp1_pwm option" where
  "pwm_set_range r channel rng =
     (if \<not> pwm_valid channel then None else Some (pwm_commit (r(chan_range (pwm_hw channel) := rng))))"

definition pwm_set_data :: "rp1_pwm \<Rightarrow> u8 \<Rightarrow> u32 \<Rightarrow> rp1_pwm option" where
  "pwm_set_data r channel data =
     (if \<not> pwm_valid channel then None else Some (pwm_commit (r(chan_duty (pwm_hw channel) := data))))"

definition set_frequency :: "rp1_pwm \<Rightarrow> u8 \<Rightarrow> u32 \<Rightarrow> rp1_pwm option" where
  "set_frequency r channel freq_hz =
     (if freq_hz = 0 then Some r else pwm_set_range r channel (RP1_PWM_CLOCK_HZ div freq_hz))"

definition set_duty_cycle :: "rp1_pwm \<Rightarrow> u8 \<Rightarrow> u32 \<Rightarrow> rp1_pwm option" where
  "set_duty_cycle r channel percent =
     (if \<not> pwm_valid channel then None
      else let ch = pwm_hw channel; rng = r (chan_range ch);
               data = ucast ((ucast rng * ucast (min percent 100) :: u64) div 100)
        in Some (pwm_commit (r(chan_duty ch := data))))"

definition debug_regs :: "rp1_pwm \<Rightarrow> u8 \<Rightarrow> u32 \<times> u32 \<times> u32 \<times> u32" where
  "debug_regs r channel =
     (let ch = pwm_hw channel in (r GLOBAL_CTRL, r (chan_ctrl ch), r (chan_range ch), r (chan_duty ch)))"

section \<open>What the registers hold\<close>

abbreviation duty_reg :: "rp1_pwm \<Rightarrow> u8 \<Rightarrow> u32" where "duty_reg r c \<equiv> r (chan_duty (pwm_hw c))"
abbreviation range_reg :: "rp1_pwm \<Rightarrow> u8 \<Rightarrow> u32" where "range_reg r c \<equiv> r (chan_range (pwm_hw c))"
abbreviation enabled :: "rp1_pwm \<Rightarrow> u8 \<Rightarrow> bool" where "enabled r c \<equiv> bit (r GLOBAL_CTRL) (unat (pwm_hw c))"

lemma stride_apart: "(a + x * 16 = b + y * 16) = (a = b \<and> x = y)" if "a mod 16 \<noteq> b mod 16 \<or> a = b" for a b x y :: nat
proof -
  have "a + x * 16 = b + y * 16 \<Longrightarrow> a mod 16 = b mod 16" by (metis mod_mult_self1)
  then show ?thesis using that by auto
qed

lemma offsets_distinct [simp]:
  "chan_duty a = chan_duty b \<longleftrightarrow> a = b" "chan_range a = chan_range b \<longleftrightarrow> a = b" "chan_ctrl a = chan_ctrl b \<longleftrightarrow> a = b"
  "chan_duty a \<noteq> chan_range b" "chan_range a \<noteq> chan_duty b" "chan_ctrl a \<noteq> chan_duty b" "chan_ctrl a \<noteq> chan_range b"
  "chan_duty a \<noteq> chan_ctrl b" "chan_range a \<noteq> chan_ctrl b"
  "chan_duty a \<noteq> GLOBAL_CTRL" "chan_range a \<noteq> GLOBAL_CTRL" "chan_ctrl a \<noteq> GLOBAL_CTRL"
  "GLOBAL_CTRL \<noteq> chan_duty a" "GLOBAL_CTRL \<noteq> chan_range a" "GLOBAL_CTRL \<noteq> chan_ctrl a"
  by (simp_all add: chan_duty_def chan_range_def chan_ctrl_def GLOBAL_CTRL_def CHAN_STRIDE_def stride_apart word_unat_eq_iff)

lemma pwm_hw_inj [simp]: "pwm_hw a = pwm_hw b \<longleftrightarrow> a = b"
  by (simp add: pwm_hw_def)

lemma pwm_commit_frame [simp]:
  "duty_reg (pwm_commit r) c = duty_reg r c" "range_reg (pwm_commit r) c = range_reg r c"
  by (simp_all add: pwm_commit_def)

text \<open>The percentage is applied to the period without overflow, so the high time never exceeds it.\<close>

lemma duty_of_percent:
  "unat (ucast ((ucast rng * ucast (min p 100) :: u64) div 100) :: u32) = unat (rng :: u32) * min (unat (p :: u32)) 100 div 100"
proof -
  let ?q = "unat rng * min (unat p) 100"
  have r: "unat rng < 4294967296" using unsigned_less [of rng, where 'a = nat] by simp
  have up: "unat (ucast x :: u64) = unat x" for x :: u32
    using unsigned_less [of x, where 'a = nat] by (simp add: unsigned_ucast_eq take_bit_eq_mod)
  have m: "unat (min p 100) = min (unat p) 100" by (simp add: min_def word_le_nat_alt)
  have "?q \<le> unat rng * 100" by (rule mult_left_mono) simp_all
  then have "?q < 429496729600" using r by linarith
  then have q: "?q < 18446744073709551616" "?q div 100 < 4294967296" by linarith+
  have "unat (ucast rng * ucast (min p 100) :: u64) = ?q"
    using q(1) by (simp add: unat_word_ariths up m)
  then have d: "unat ((ucast rng * ucast (min p 100) :: u64) div 100) = ?q div 100" by (simp add: unat_div)
  then show ?thesis using q(2) by (simp add: unsigned_ucast_eq take_bit_eq_mod)
qed

lemma set_duty_cycle_spec:
  assumes "set_duty_cycle r c p = Some r'"
  shows "unat (duty_reg r' c) = unat (range_reg r c) * min (unat p) 100 div 100"
    and "c' \<noteq> c \<Longrightarrow> duty_reg r' c' = duty_reg r c'" and "range_reg r' c' = range_reg r c'"
  using assms duty_of_percent [of "range_reg r c" p]
  by (auto simp: set_duty_cycle_def Let_def pwm_commit_def split: if_splits)

lemma set_duty_zero:
  assumes "set_duty_cycle r c 0 = Some r'"
  shows "duty_reg r' c' = (if c' = c then 0 else duty_reg r c')"
  using assms by (auto simp: set_duty_cycle_def Let_def pwm_commit_def split: if_splits)

lemma set_duty_cycle_total: "pwm_valid c \<Longrightarrow> \<exists>r'. set_duty_cycle r c p = Some r'"
  by (simp add: set_duty_cycle_def Let_def)

lemma enable_disable:
  assumes "pwm_enable r c = Some r1" "pwm_disable r1 c = Some r2"
  shows "enabled r1 c" "\<not> enabled r2 c" "duty_reg r2 c' = duty_reg r c'" "range_reg r2 c' = range_reg r c'"
proof -
  have c: "unat (pwm_hw c) < 4" using assms(1)
    by (auto simp: pwm_enable_def pwm_valid_def NUM_CHANNELS_def pwm_hw_def word_le_nat_alt unat_sub split: if_splits)
  then have n: "\<not> bit SET_UPDATE (unat (pwm_hw c))" by (auto simp: SET_UPDATE_def bit_simps numeral_eq_Suc less_Suc_eq)
  have e: "bit (chan_enable (pwm_hw c)) (unat (pwm_hw c))" using c by (simp add: chan_enable_def bit_simps)
  show "enabled r1 c" using assms(1) e by (auto simp: pwm_enable_def Let_def bit_simps split: if_splits)
  show "\<not> enabled r2 c" using assms(2) e n by (auto simp: pwm_disable_def Let_def bit_simps split: if_splits)
  show "duty_reg r2 c' = duty_reg r c'" "range_reg r2 c' = range_reg r c'"
    using assms by (auto simp: pwm_enable_def pwm_disable_def Let_def split: if_splits)
qed

end
