(* ===== verification/Actuation_Seam.thy ===== *)
theory Actuation_Seam
  imports Motor_Pair Link_Stop Rp1_Pwm
begin

text \<open>
  The actuation seam of the kernel (\<open>kernel/src/actuation.rs\<close>, the e-stop part of
  \<open>control_link.rs::service\<close>, \<open>syscall/pwm.rs\<close>, \<open>syscall/estop.rs\<close>, \<open>watchdog.rs\<close>) in the
  Raspberry Pi 5 configuration: the global monitor, the control link and the hardware outputs, which
  are the registers of the two PWM controllers, the duty last given to \<open>set_duty_cycle\<close> and the
  level last driven on each pin. Operations run
  under \<open>APPLY_LOCK\<close>, so they are atomic steps. \<open>now\<close> is the kernel clock, \<open>lnow\<close> the clock of
  the link.
\<close>

record seam =
  s_monitor :: monitor
  s_link :: "control_link option"
  s_ctl :: "u8 \<Rightarrow> rp1_pwm"
  s_pwm :: "u8 \<Rightarrow> u8 \<Rightarrow> u32"
  s_gpio :: "u8 \<Rightarrow> bool"

section \<open>Operations\<close>

definition is_motor_channel :: "u8 \<Rightarrow> u8 \<Rightarrow> bool" where
  "is_motor_channel chip channel \<longleftrightarrow> motor_side chip channel \<noteq> None"

text \<open>The driver's assertion holds for the channels 1 and 2, so the write never panics.\<close>

definition apply_pwm_value :: "seam \<Rightarrow> u8 \<Rightarrow> u8 \<Rightarrow> u32 \<Rightarrow> seam" where
  "apply_pwm_value s chip channel value =
     (if (channel = 1 \<or> channel = 2) \<and> (chip = 0 \<or> chip = 1)
      then (case set_duty_cycle (s_ctl s chip) channel value of
          None \<Rightarrow> s
        | Some r \<Rightarrow> s\<lparr>s_ctl := (s_ctl s)(chip := r),
                       s_pwm := (s_pwm s)(chip := (s_pwm s chip)(channel := value))\<rparr>)
      else s)"

definition apply_gpio_value :: "seam \<Rightarrow> u8 \<Rightarrow> u32 \<Rightarrow> seam" where
  "apply_gpio_value s pin value = (if pin < 28 then s\<lparr>s_gpio := (s_gpio s)(pin := (value \<noteq> 0))\<rparr> else s)"

definition apply_safe_drive :: "seam \<Rightarrow> safe_drive \<Rightarrow> seam" where
  "apply_safe_drive s d =
     (case ch_kind (sd_channel d) of
        PwmDuty \<Rightarrow> apply_pwm_value s (ch_chip (sd_channel d)) (ch_channel (sd_channel d)) (sd_safe_value d)
      | GpioLevel \<Rightarrow> apply_gpio_value s (ch_channel (sd_channel d)) (sd_safe_value d))"

text \<open>\<open>with_link\<close>: an uninitialised link answers \<open>false\<close>.\<close>

definition with_link :: "seam \<Rightarrow> (control_link \<Rightarrow> bool \<times> control_link) \<Rightarrow> bool \<times> seam" where
  "with_link s f = (case s_link s of None \<Rightarrow> (False, s) | Some l \<Rightarrow> (case f l of (ok, l') \<Rightarrow> (ok, s\<lparr>s_link := Some l'\<rparr>)))"

definition notify_link_estop :: "seam \<Rightarrow> bool \<Rightarrow> u64 \<Rightarrow> seam" where
  "notify_link_estop s assert lnow = snd (with_link s (\<lambda>l. command_estop l assert lnow))"

text \<open>
  \<open>apply_pwm_routed\<close> always applies and keeps the code, so the rollback of the channel state in
  \<open>guard_pwm_value_with\<close> is never taken.
\<close>

definition guard_pwm_value_with :: "seam \<Rightarrow> u8 \<Rightarrow> u8 \<Rightarrow> u32 \<Rightarrow> authority \<Rightarrow> audit_source \<Rightarrow> u64 \<Rightarrow> (i64 \<times> seam) option" where
  "guard_pwm_value_with s chip channel duty a src now =
     (let ch = \<lparr>ch_kind = PwmDuty, ch_chip = chip, ch_channel = channel\<rparr>
      in case decide (s_monitor s) \<lparr>req_ch = ch, req_value = duty\<rparr> a src now of
           None \<Rightarrow> None
         | Some (d, m) \<Rightarrow> (case decision_apply d of (value, code) \<Rightarrow>
             Some (code, apply_pwm_value (s\<lparr>s_monitor := m\<rparr>) chip channel value)))"

definition guard_pwm_with :: "seam \<Rightarrow> u8 \<Rightarrow> u8 \<Rightarrow> u32 \<Rightarrow> authority \<Rightarrow> audit_source \<Rightarrow> u64 \<Rightarrow> (i64 \<times> seam) option" where
  "guard_pwm_with s chip channel duty a src now =
     (if is_motor_channel chip channel then Some (- 1, s) else guard_pwm_value_with s chip channel duty a src now)"

definition guard_motor_with :: "seam \<Rightarrow> i64 \<times> seam" where
  "guard_motor_with s = (- 1, s)"

definition guard_motor_pair_with :: "seam \<Rightarrow> int \<Rightarrow> int \<Rightarrow> authority \<Rightarrow> audit_source \<Rightarrow> u64 \<Rightarrow> u64 \<Rightarrow> (i64 \<times> seam) option" where
  "guard_motor_pair_with s left right a src now lnow =
     (let before = motor_pair (s_monitor s)
      in case decide_motor_pair (s_monitor s) left right a src now of
           None \<Rightarrow> None
         | Some (d, m) \<Rightarrow> (case pair_apply d of (l, r, code) \<Rightarrow>
             let s1 = s\<lparr>s_monitor := m\<rparr> in
             if code \<noteq> 0 then
               (case with_link s1 (\<lambda>k. send_safe_motor_pair k lnow) of (ok, s2) \<Rightarrow> Some (if ok then code else - 1, s2))
             else
               (case with_link s1 (\<lambda>k. send_motor_pair k (of_int l) (of_int r) lnow) of (ok, s2) \<Rightarrow>
                  if ok then Some (code, s2)
                  else Some (- 1, s2\<lparr>s_monitor := restore_motor_pair_state (s_monitor s2) before\<rparr>))))"

definition guard_gpio_with :: "seam \<Rightarrow> u8 \<Rightarrow> u32 \<Rightarrow> authority \<Rightarrow> audit_source \<Rightarrow> u64 \<Rightarrow> (i64 \<times> seam) option" where
  "guard_gpio_with s pin level a src now =
     (let ch = \<lparr>ch_kind = GpioLevel, ch_chip = 0, ch_channel = pin\<rparr>
      in case decide (s_monitor s) \<lparr>req_ch = ch, req_value = level\<rparr> a src now of
           None \<Rightarrow> None
         | Some (d, m) \<Rightarrow> (case decision_apply d of (value, code) \<Rightarrow>
             Some (code, apply_gpio_value (s\<lparr>s_monitor := m\<rparr>) pin value)))"

definition trigger_estop :: "seam \<Rightarrow> audit_source \<Rightarrow> u64 \<Rightarrow> u64 \<Rightarrow> i64 \<times> seam" where
  "trigger_estop s src now lnow =
     (let (drives, m) = estop_trigger (s_monitor s) src now;
          s1 = foldl apply_safe_drive (s\<lparr>s_monitor := m\<rparr>) drives
      in (0, notify_link_estop s1 True lnow))"

definition seam_operator_estop :: "seam \<Rightarrow> estop_action \<Rightarrow> u64 \<Rightarrow> u64 \<Rightarrow> i64 \<times> seam" where
  "seam_operator_estop s action now lnow =
     (let (result, m) = operator_estop (s_monitor s) action now; s1 = s\<lparr>s_monitor := m\<rparr>
      in case result of
           EstopTriggered drives \<Rightarrow> (0, notify_link_estop (foldl apply_safe_drive s1 drives) True lnow)
         | EstopReleased \<Rightarrow> (0, notify_link_estop s1 False lnow)
         | EstopDenied \<Rightarrow> (- 1, s1))"

definition seam_watchdog_estop :: "seam \<Rightarrow> u64 \<Rightarrow> u64 \<Rightarrow> i64 \<times> seam" where
  "seam_watchdog_estop s now lnow =
     (let (drives, m) = watchdog_estop_trigger (s_monitor s) now
      in (0, notify_link_estop (foldl apply_safe_drive (s\<lparr>s_monitor := m\<rparr>) drives) True lnow))"

definition release_estop :: "seam \<Rightarrow> authority \<Rightarrow> audit_source \<Rightarrow> u64 \<Rightarrow> u64 \<Rightarrow> i64 \<times> seam" where
  "release_estop s a src now lnow =
     (let (result, m) = estop_release (s_monitor s) a src now; s1 = s\<lparr>s_monitor := m\<rparr>
      in case result of Released \<Rightarrow> (0, notify_link_estop s1 False lnow) | Denied \<Rightarrow> (- 1, s1))"

text \<open>The poller: one transport pass, then the hardware e-stop outside the link lock.\<close>

definition service :: "seam \<Rightarrow> u64 \<Rightarrow> u64 \<Rightarrow> seam" where
  "service s now lnow =
     (case s_link s of None \<Rightarrow> s
      | Some l \<Rightarrow> (case poll_decode l lnow of (l', out) \<Rightarrow>
          let s1 = s\<lparr>s_link := Some l'\<rparr> in if po_estop out then snd (seam_watchdog_estop s1 now lnow) else s1))"

section \<open>System calls\<close>

definition valid_pwm_id :: "nat \<Rightarrow> bool" where "valid_pwm_id pwm_id \<longleftrightarrow> pwm_id \<le> 1"
definition valid_pwm_channel :: "nat \<Rightarrow> bool" where "valid_pwm_channel channel \<longleftrightarrow> 1 \<le> channel \<and> channel \<le> 2"

definition guard_pwm_zero :: "seam \<Rightarrow> nat \<Rightarrow> nat \<Rightarrow> u64 \<Rightarrow> (i64 \<times> seam) option" where
  "guard_pwm_zero s pwm_id channel now =
     (if \<not> valid_pwm_id pwm_id \<or> \<not> valid_pwm_channel channel then Some (- 1, s)
      else guard_pwm_with s (of_nat pwm_id) (of_nat channel) 0 Operator SrcSyscallPwm now)"

definition motor_setpoint_from_abi :: "u64 \<Rightarrow> int option" where
  "motor_setpoint_from_abi value =
     (if value \<le> 0x7FFFFFFF then Some (uint value)
      else if sint value < 0 then Some (wrap_i32 (sint value)) else None)"

definition sys_pwm_write :: "seam \<Rightarrow> nat \<Rightarrow> nat \<Rightarrow> u64 \<Rightarrow> u64 \<Rightarrow> (i64 \<times> seam) option" where
  "sys_pwm_write s pwm_id channel duty_percent now =
     (if \<not> valid_pwm_id pwm_id \<or> \<not> valid_pwm_channel channel then Some (- 1, s)
      else if is_motor_channel (of_nat pwm_id) (of_nat channel) then
        (case motor_setpoint_from_abi duty_percent of None \<Rightarrow> Some (- 1, s) | Some _ \<Rightarrow> Some (guard_motor_with s))
      else if 0xFFFFFFFF < duty_percent then Some (- 1, s)
      else guard_pwm_with s (of_nat pwm_id) (of_nat channel) (ucast duty_percent) Operator SrcSyscallPwm now)"

text \<open>Both guards read the clock; the frequency is truncated to 32 bits.\<close>

definition sys_pwm_config :: "seam \<Rightarrow> nat \<Rightarrow> u64 \<Rightarrow> u64 \<Rightarrow> u64 \<Rightarrow> (i64 \<times> seam) option" where
  "sys_pwm_config s pwm_id freq_hz now1 now2 =
     (if \<not> valid_pwm_id pwm_id \<or> freq_hz = 0 then Some (- 1, s)
      else case guard_pwm_zero s pwm_id 1 now1 of None \<Rightarrow> None | Some (c1, s1) \<Rightarrow>
        if c1 < 0 then Some (- 1, s1)
        else case guard_pwm_zero s1 pwm_id 2 now2 of None \<Rightarrow> None | Some (c2, s2) \<Rightarrow>
          if c2 < 0 then Some (- 1, s2)
          else case set_frequency (s_ctl s2 (of_nat pwm_id)) 1 (ucast freq_hz) of None \<Rightarrow> None | Some r1 \<Rightarrow>
            case set_frequency r1 2 (ucast freq_hz) of None \<Rightarrow> None | Some r2 \<Rightarrow>
              Some (0, s2\<lparr>s_ctl := (s_ctl s2)(of_nat pwm_id := r2)\<rparr>))"

definition sys_pwm_enable :: "seam \<Rightarrow> nat \<Rightarrow> nat \<Rightarrow> nat \<Rightarrow> u64 \<Rightarrow> (i64 \<times> seam) option" where
  "sys_pwm_enable s pwm_id channel enable now =
     (if \<not> valid_pwm_id pwm_id \<or> \<not> valid_pwm_channel channel then Some (- 1, s)
      else case guard_pwm_zero s pwm_id channel now of None \<Rightarrow> None | Some (prepared, s1) \<Rightarrow>
        if prepared < 0 then Some (- 1, s1)
        else case (if enable \<noteq> 0 then pwm_enable (s_ctl s1 (of_nat pwm_id)) (of_nat channel)
                   else pwm_disable (s_ctl s1 (of_nat pwm_id)) (of_nat channel)) of None \<Rightarrow> None
          | Some r \<Rightarrow> Some (0, s1\<lparr>s_ctl := (s_ctl s1)(of_nat pwm_id := r)\<rparr>))"

definition ESTOP_TRIGGER :: nat where "ESTOP_TRIGGER = 1"
definition ESTOP_RELEASE :: nat where "ESTOP_RELEASE = 2"

definition sys_estop :: "seam \<Rightarrow> nat \<Rightarrow> u64 \<Rightarrow> u64 \<Rightarrow> i64 \<times> seam" where
  "sys_estop s action now lnow =
     (if action = ESTOP_TRIGGER then seam_operator_estop s Trigger now lnow
      else if action = ESTOP_RELEASE then (- 1, s) else (- 1, s))"

end
