(* ===== verification/Seam_Safety.thy ===== *)
theory Seam_Safety
  imports Actuation_Seam
begin

text \<open>
  End-to-end safety of actuation: in every reachable state the outputs stay in the envelope, and
  while the emergency stop is latched every output is at its safe value and the link holds no motion
  that has not begun. Only an operator can release the latch.
\<close>

section \<open>The drive set\<close>

abbreviation pwm_channel :: "u8 \<Rightarrow> u8 \<Rightarrow> channel_id" where
  "pwm_channel chip c \<equiv> \<lparr>ch_kind = PwmDuty, ch_chip = chip, ch_channel = c\<rparr>"

abbreviation gpio_channel :: "u8 \<Rightarrow> channel_id" where
  "gpio_channel pin \<equiv> \<lparr>ch_kind = GpioLevel, ch_chip = 0, ch_channel = pin\<rparr>"

abbreviation drive_of :: "channel_id \<Rightarrow> u32 \<Rightarrow> safe_drive" where
  "drive_of ch v \<equiv> \<lparr>sd_channel = ch, sd_safe_value = v\<rparr>"

lemma fold_push:
  assumes "length s + length xs \<le> 32"
  shows "fold (\<lambda>x s. if P x then drive_push s (c x) (v x) else s) xs s = s @ map (\<lambda>x. drive_of (c x) (v x)) (filter P xs)"
  using assms by (induction xs arbitrary: s) (auto simp: drive_push_def)

lemma fold_nested:
  "fold (\<lambda>x s0. fold (\<lambda>y s. f (x, y) s) ys s0) xs s = fold f (concat (map (\<lambda>x. map (Pair x) ys) xs)) s"
  by (induction xs arbitrary: s) (simp_all add: fold_map comp_def)

definition pwm_slots :: "(nat \<times> nat) list" where
  "pwm_slots = concat (map (\<lambda>x. map (Pair x) [0..<2]) [0..<2])"

lemma pwm_slots: "set pwm_slots = {0..<2} \<times> {0..<2}" "length pwm_slots = 4"
  by (auto simp: pwm_slots_def numeral_2_eq_2)

lemma known_channels_list:
  "known_channels m =
     map (\<lambda>(i, j). drive_of (pwm_channel (of_nat i) (of_nat (j + 1))) (pwm_safe m ! i ! j))
       (filter (\<lambda>(i, j). known_pwm m ! i ! j) pwm_slots)
     @ map (\<lambda>pin. drive_of (gpio_channel (of_nat pin)) (gpio_safe m ! pin)) (filter ((!) (known_gpio m)) [0..<28])"
proof -
  let ?f = "\<lambda>x s. if (\<lambda>(i, j). known_pwm m ! i ! j) x
       then drive_push s (case x of (i, j) \<Rightarrow> pwm_channel (of_nat i) (of_nat (j + 1))) (case x of (i, j) \<Rightarrow> pwm_safe m ! i ! j) else s"
  have "fold (\<lambda>chip s0. fold (\<lambda>channel s. ?f (chip, channel) s) [0..<2] s0) [0..<2] [] = fold ?f pwm_slots []"
    unfolding pwm_slots_def by (rule fold_nested)
  also have "\<dots> = map (\<lambda>x. drive_of (case x of (i, j) \<Rightarrow> pwm_channel (of_nat i) (of_nat (j + 1))) (case x of (i, j) \<Rightarrow> pwm_safe m ! i ! j))
      (filter (\<lambda>(i, j). known_pwm m ! i ! j) pwm_slots)"
    using pwm_slots(2) by (subst fold_push) simp_all
  finally have s1: "fold (\<lambda>chip s0. fold (\<lambda>channel s. ?f (chip, channel) s) [0..<2] s0) [0..<2] [] =
      map (\<lambda>(i, j). drive_of (pwm_channel (of_nat i) (of_nat (j + 1))) (pwm_safe m ! i ! j))
        (filter (\<lambda>(i, j). known_pwm m ! i ! j) pwm_slots)" (is "_ = ?pwm")
    by (simp add: case_prod_unfold)
  have "length ?pwm \<le> 4" using pwm_slots(2) length_filter_le [of "\<lambda>(i, j). known_pwm m ! i ! j" pwm_slots] by simp
  then show ?thesis
    unfolding known_channels_def Let_def PWM_CHANNELS_def PWM_CHIPS_def GPIO_PINS_def s1 [unfolded prod.case]
    by (subst fold_push) simp_all
qed

lemma u8_of_nat: "n < 256 \<Longrightarrow> unat (of_nat n :: u8) = n"
  by (simp add: unat_of_nat)

lemma known_channels_set: "drive_of ch v \<in> set (known_channels m) \<longleftrightarrow> registered m ch = Some v"
proof (cases "ch_kind ch")
  case PwmDuty
  have ch: "ch = pwm_channel (ch_chip ch) (ch_channel ch)" using PwmDuty by (cases ch) simp
  have "drive_of ch v \<in> set (known_channels m) \<longleftrightarrow>
      (\<exists>i < 2. \<exists>j < 2. known_pwm m ! i ! j \<and> ch = pwm_channel (of_nat i) (of_nat (j + 1)) \<and> v = pwm_safe m ! i ! j)"
    using PwmDuty by (auto simp: known_channels_list pwm_slots(1)) blast
  also have "\<dots> \<longleftrightarrow> registered m ch = Some v"
  proof
    assume "\<exists>i < 2. \<exists>j < 2. known_pwm m ! i ! j \<and> ch = pwm_channel (of_nat i) (of_nat (j + 1)) \<and> v = pwm_safe m ! i ! j"
    then obtain i j where h: "i < 2" "j < 2" "known_pwm m ! i ! j" "ch = pwm_channel (of_nat i) (of_nat (j + 1))" "v = pwm_safe m ! i ! j"
      by blast
    have "unat (of_nat i :: u8) = i" by (rule u8_of_nat) (use h in simp)
    moreover have "unat (of_nat (j + 1) :: u8) = j + 1" by (rule u8_of_nat) (use h in simp)
    ultimately have "slot_index ch = Some (True, i, j)" using h(1,2,4) by (simp add: slot_index_def del: of_nat_add of_nat_Suc)
    then show "registered m ch = Some v" using h by (simp add: registered_def)
  next
    assume r: "registered m ch = Some v"
    then obtain i j where si: "slot_index ch = Some (True, i, j)" and k: "known_pwm m ! i ! j" "v = pwm_safe m ! i ! j"
      using PwmDuty by (auto simp: registered_def slot_index_def split: option.splits if_splits)
    have "i = unat (ch_chip ch)" "j + 1 = unat (ch_channel ch)" "i < 2" "j < 2"
      using si PwmDuty by (auto simp: slot_index_def split: if_splits)
    then show "\<exists>i < 2. \<exists>j < 2. known_pwm m ! i ! j \<and> ch = pwm_channel (of_nat i) (of_nat (j + 1)) \<and> v = pwm_safe m ! i ! j"
      using k ch by (intro exI [of _ i] conjI exI [of _ j]) (simp_all del: of_nat_add)
  qed
  finally show ?thesis .
next
  case GpioLevel
  have "drive_of ch v \<in> set (known_channels m) \<longleftrightarrow>
      (\<exists>pin < 28. known_gpio m ! pin \<and> ch = gpio_channel (of_nat pin) \<and> v = gpio_safe m ! pin)"
    using GpioLevel by (auto simp: known_channels_list)
  also have "\<dots> \<longleftrightarrow> registered m ch = Some v"
  proof
    assume "\<exists>pin < 28. known_gpio m ! pin \<and> ch = gpio_channel (of_nat pin) \<and> v = gpio_safe m ! pin"
    then obtain pin where h: "pin < 28" "known_gpio m ! pin" "ch = gpio_channel (of_nat pin)" "v = gpio_safe m ! pin" by blast
    have "unat (of_nat pin :: u8) = pin" using h(1) by (simp add: unat_of_nat)
    then show "registered m ch = Some v" using h by (simp add: registered_def slot_index_def)
  next
    assume "registered m ch = Some v"
    then have "ch_chip ch = 0" "unat (ch_channel ch) < 28" "known_gpio m ! unat (ch_channel ch)" "v = gpio_safe m ! unat (ch_channel ch)"
      using GpioLevel by (auto simp: registered_def slot_index_def split: option.splits if_splits)
    then show "\<exists>pin < 28. known_gpio m ! pin \<and> ch = gpio_channel (of_nat pin) \<and> v = gpio_safe m ! pin"
      using GpioLevel by (intro exI [of _ "unat (ch_channel ch)"]) (cases ch, simp)
  qed
  finally show ?thesis .
qed

section \<open>A quiet link\<close>

text \<open>No motion is waiting: the pending pair is zero and the active frame, if it has not begun, is not a motion.\<close>

definition tx_quiet :: "tx_state \<Rightarrow> bool" where
  "tx_quiet t \<longleftrightarrow> (\<forall>l r at. tx_pending_motor t = Some (l, r, at) \<longrightarrow> l = 0 \<and> r = 0)
     \<and> (\<forall>f. tx_active t = Some f \<and> f_sent f = 0 \<longrightarrow> f_motor_pair f \<in> {None, Some (0, 0)})"

lemma tx_quiet_start: "tx_quiet t \<Longrightarrow> msg_motor_pair m \<in> {None, Some (0, 0)} \<Longrightarrow> tx_quiet (snd (tx_start t m now))"
  by (cases "tx_active t") (auto simp: tx_quiet_def tx_start_active frame_for_def, auto simp: tx_start_def)

lemma tx_quiet_byte: "tx_quiet t \<Longrightarrow> tx_next_byte t = (x, t') \<Longrightarrow> tx_quiet t'"
  by (auto simp: tx_quiet_def tx_next_byte_def Let_def split: option.splits if_splits)

lemma tx_quiet_idle: "tx_quiet t \<Longrightarrow> tx_quiet (t\<lparr>tx_active := None\<rparr>)" "tx_quiet t \<Longrightarrow> tx_quiet (t\<lparr>tx_pending_motor := None\<rparr>)"
  by (simp_all add: tx_quiet_def)

lemma tx_quiet_simple:
  "tx_quiet t \<Longrightarrow> tx_quiet (tx_cancel_unsent t)" "tx_quiet t \<Longrightarrow> tx_quiet (tx_clear_motor t)"
  "tx_quiet t \<Longrightarrow> tx_quiet (tx_prioritize_motor t 0 0 now)" "tx_quiet t \<Longrightarrow> tx_quiet (snd (tx_take_motor t))"
  by (auto simp: tx_quiet_def tx_cancel_unsent_def tx_clear_motor_def tx_prioritize_motor_def Let_def tx_take_motor_def
      split: option.splits)

lemma tx_quiet_taken: "tx_quiet t \<Longrightarrow> fst (tx_take_motor t) = Some (l, r, at) \<Longrightarrow> l = 0 \<and> r = 0"
  by (auto simp: tx_quiet_def tx_take_motor_def split: option.splits if_splits)

lemma tx_quiet_discard: "tx_quiet t \<Longrightarrow> tx_quiet (tx_discard_expired_motor t now timeout)"
  by (auto simp: tx_discard_expired_motor_def Let_def intro: tx_quiet_idle split: option.splits)

lemma quiet_enqueue:
  "tx_quiet (cl_tx l) \<Longrightarrow> msg_motor_pair m \<in> {None, Some (0, 0)} \<Longrightarrow> tx_quiet (cl_tx (snd (enqueue l m now)))"
  by (simp add: enqueue_def case_prod_unfold tx_quiet_start)

lemma quiet_flush_estop: "tx_quiet (cl_tx l) \<Longrightarrow> tx_quiet (cl_tx (snd (flush_pending_estop l now)))"
  by (auto simp: flush_pending_estop_def Let_def case_prod_unfold msg_motor_pair_def intro!: quiet_enqueue split: option.splits)

lemma quiet_flush_motor:
  assumes "tx_quiet (cl_tx l)"
  shows "tx_quiet (cl_tx (snd (flush_pending_motor l)))"
proof (cases "fst (tx_take_motor (cl_tx l))")
  case None
  then show ?thesis using tx_quiet_simple(4) [OF assms] by (simp add: flush_pending_motor_def case_prod_unfold)
next
  case (Some x)
  obtain a b at where x: "x = (a, b, at)" by (cases x)
  have z: "a = 0" "b = 0" using tx_quiet_taken [OF assms] Some x by auto
  let ?l1 = "l\<lparr>cl_tx := snd (tx_take_motor (cl_tx l))\<rparr>"
  have "tx_quiet (cl_tx (snd (enqueue ?l1 (MotorSetpoint (cl_motor_seq l + 1) 0 0) at)))"
    using tx_quiet_simple(4) [OF assms] by (intro quiet_enqueue) (simp_all add: msg_motor_pair_def)
  then show ?thesis using Some x z
    by (auto simp: flush_pending_motor_def case_prod_unfold Let_def tx_replace_motor_def tx_quiet_def)
qed

lemma quiet_queue_estop: "tx_quiet (cl_tx l) \<Longrightarrow> tx_quiet (cl_tx (queue_estop l a))"
  by (simp add: queue_estop_def Let_def tx_quiet_simple)

lemma quiet_cancel: "tx_quiet (cl_tx l) \<Longrightarrow> tx_quiet (cl_tx (cancel_unsent_for_stop l))"
  by (simp add: cancel_unsent_for_stop_def tx_quiet_simple)

lemma quiet_request: "tx_quiet (cl_tx l) \<Longrightarrow> tx_quiet (cl_tx (snd (request_estop l a now)))"
  unfolding request_estop_def by (intro quiet_flush_estop quiet_cancel quiet_queue_estop)

text \<open>A stop command makes the link quiet, whatever was queued.\<close>

lemma stop_makes_quiet: "tx_quiet (cl_tx (snd (request_estop l True now)))"
proof -
  have "tx_quiet (cl_tx (cancel_unsent_for_stop (queue_estop l True)))"
    by (auto simp: tx_quiet_def cancel_unsent_for_stop_def has_pending_estop_assert_def queue_estop_def Let_def
        tx_clear_motor_def tx_cancel_unsent_def unsent_def)
  then show ?thesis unfolding request_estop_def by (rule quiet_flush_estop)
qed

lemma quiet_queue_phase:
  assumes "tx_quiet (cl_tx l)"
  shows "tx_quiet (cl_tx (queue_phase l action now))"
proof -
  define l2 where "l2 = flush_pending_estop (cancel_unsent_for_stop (l\<lparr>cl_tx := tx_discard_expired_motor (cl_tx l) now LINK_TIMEOUT_NS\<rparr>)) now"
  define l3 where "l3 = (if action = LinkSafeStop \<and> \<not> has_pending_estop_assert (snd l2)
      then (snd l2)\<lparr>cl_session := session_estop_sent (cl_session (snd l2))\<rparr> else snd l2)"
  define l4 where "l4 = (if fst l2 \<and> tx_is_idle (cl_tx l3) then snd (flush_pending_motor l3) else l3)"
  have "tx_quiet (cl_tx (snd l2))" unfolding l2_def
    by (intro quiet_flush_estop quiet_cancel) (simp add: tx_quiet_discard assms)
  then have "tx_quiet (cl_tx l3)" by (simp add: l3_def)
  then have q4: "tx_quiet (cl_tx l4)" by (simp add: l4_def quiet_flush_motor)
  have "queue_phase l action now = (if fst l2 \<and> tx_is_idle (cl_tx l4)
      then (case action of Heartbeat sq \<Rightarrow> snd (enqueue l4 (HeartbeatToShrike sq) now) | _ \<Rightarrow> l4) else l4)"
    unfolding queue_phase_def Let_def case_prod_unfold l2_def [symmetric] l3_def [symmetric] l4_def [symmetric] by (rule refl)
  then show ?thesis using q4 by (auto simp: msg_motor_pair_def intro!: quiet_enqueue split: link_action.splits)
qed

lemma quiet_tx_drain: "tx_quiet (cl_tx l) \<Longrightarrow> tx_quiet (cl_tx (tx_drain n l))"
proof (induction n l rule: tx_drain.induct)
  case (2 n l)
  then show ?case using tx_quiet_byte [of "cl_tx l"] by (auto split: option.splits prod.splits)
qed simp

lemma quiet_poll:
  assumes "tx_quiet (cl_tx l)"
  shows "tx_quiet (cl_tx (fst (poll_decode l now)))"
proof -
  obtain l1 out1 where d: "rx_decode (rx_pull RX_PER_POLL l) outcome_default now = (l1, out1)"
    by (cases "rx_decode (rx_pull RX_PER_POLL l) outcome_default now")
  obtain l2 out2 action where s: "session_phase l1 out1 now = (l2, out2, action)" by (cases "session_phase l1 out1 now")
  have "tx_quiet (cl_tx l1)" using assms rx_decode_frame [OF d] by (simp add: rx_pull_frame)
  then have "tx_quiet (cl_tx l2)"
    using s by (auto simp: session_phase_def Let_def case_prod_unfold intro!: quiet_queue_estop split: if_splits)
  then show ?thesis by (simp add: poll_decode_def d s quiet_tx_drain quiet_queue_phase)
qed

section \<open>The invariant of the seam\<close>

definition outputs_ok :: "profile \<Rightarrow> monitor \<Rightarrow> (u8 \<Rightarrow> rp1_pwm) \<Rightarrow> (u8 \<Rightarrow> u8 \<Rightarrow> u32) \<Rightarrow> (u8 \<Rightarrow> bool) \<Rightarrow> bool" where
  "outputs_ok P m ctl pw gp \<longleftrightarrow> (\<forall>chip c. pw chip c \<le> ACT_DUTY_MAX P)
     \<and> (\<forall>chip c. registered m (pwm_channel chip c) = None \<longrightarrow> pw chip c = 0 \<and> duty_reg (ctl chip) c = 0)
     \<and> (\<forall>pin. registered m (gpio_channel pin) = None \<longrightarrow> \<not> gp pin)
     \<and> (latched m \<longrightarrow> (\<forall>chip c. pw chip c = 0 \<and> duty_reg (ctl chip) c = 0) \<and> (\<forall>pin. \<not> gp pin))"

definition link_fine :: "bool \<Rightarrow> control_link option \<Rightarrow> bool" where
  "link_fine latch lo = (case lo of None \<Rightarrow> True
     | Some l \<Rightarrow> rx_ok l \<and> (\<exists>ms. link_good False [] [] l ms) \<and> (latch \<longrightarrow> tx_quiet (cl_tx l)))"

definition seam_ok :: "profile \<Rightarrow> seam \<Rightarrow> bool" where
  "seam_ok P s \<longleftrightarrow> monitor_ok P (s_monitor s) \<and> outputs_ok P (s_monitor s) (s_ctl s) (s_pwm s) (s_gpio s)
     \<and> link_fine (latched (s_monitor s)) (s_link s)"

lemma seam_okD:
  assumes "seam_ok P s"
  shows "monitor_ok P (s_monitor s)" "outputs_ok P (s_monitor s) (s_ctl s) (s_pwm s) (s_gpio s)" "link_fine (latched (s_monitor s)) (s_link s)"
  using assms by (simp_all add: seam_ok_def)

lemma pwm_slot_iff: "slot_index (pwm_channel chip c) \<noteq> None \<longleftrightarrow> (c = 1 \<or> c = 2) \<and> (chip = 0 \<or> chip = 1)"
proof -
  have "1 \<le> unat c \<and> unat c \<le> 2 \<longleftrightarrow> unat c = 1 \<or> unat c = 2" "unat chip < 2 \<longleftrightarrow> unat chip = 0 \<or> unat chip = 1" by auto
  moreover have "unat c = 1 \<longleftrightarrow> c = 1" "unat c = 2 \<longleftrightarrow> c = 2" "unat chip = 0 \<longleftrightarrow> chip = 0" "unat chip = 1 \<longleftrightarrow> chip = 1"
    by (auto simp: word_unat_eq_iff)
  ultimately show ?thesis by (auto simp: slot_index_def)
qed

lemma gpio_slot_iff: "slot_index (gpio_channel pin) \<noteq> None \<longleftrightarrow> pin < 28"
  by (auto simp: slot_index_def word_less_nat_alt)

lemma apply_pwm_cases:
  assumes "slot_index (pwm_channel chip c) \<noteq> None"
  obtains r where "set_duty_cycle (s_ctl s chip) c v = Some r"
    "apply_pwm_value s chip c v = s\<lparr>s_ctl := (s_ctl s)(chip := r), s_pwm := (s_pwm s)(chip := (s_pwm s chip)(c := v))\<rparr>"
proof -
  have "pwm_valid c" using assms pwm_slot_iff [of chip c] by (auto simp: pwm_valid_def NUM_CHANNELS_def)
  then obtain r where "set_duty_cycle (s_ctl s chip) c v = Some r" using set_duty_cycle_total by blast
  then show thesis using assms pwm_slot_iff [of chip c] by (intro that) (auto simp: apply_pwm_value_def)
qed

text \<open>What a single-channel decision means for the seam.\<close>

lemma decide_seam:
  assumes ok: "monitor_ok P m"
  obtains d m' where "decide m req a src now = Some (d, m')" "monitor_ok P m'" "latched m' = latched m"
    and "fst (decision_apply d) \<le> env_max (envelope_from_profile P (ch_kind (req_ch req)))"
    and "latched m \<Longrightarrow> fst (decision_apply d) = 0"
    and "\<And>ch'. registered m' ch' = (if ch' = req_ch req \<and> slot_index (req_ch req) \<noteq> None then Some 0 else registered m ch')"
proof (cases "slot_index (req_ch req)")
  case None
  from decide_unknown(1) [OF ok None] show thesis by (rule that) (simp_all add: monitor_ok_audit [OF ok] None)
next
  case (Some x)
  then have s: "slot_index (req_ch req) \<noteq> None" by simp
  obtain st where st: "get_slot m (req_ch req) = Some st" using get_slot_Some [OF s] by blast
  have en: "mon_envelope_entry m (req_ch req) \<noteq> None" using s slot_index_entry [OF monitor_okD(1) [OF ok]] by simp
  obtain d where spec: "decision_spec P m req a now d"
    and d: "decide m req a src now = Some (d, audit_decision (set_slot (register_channel m (req_ch req) 0) (req_ch req)
           (st\<lparr>cs_last_output := fst (decision_apply d), cs_last_update_ns := now\<rparr>)) req a src now d)"
    and mx: "fst (decision_apply d) \<le> env_max (envelope_from_profile P (ch_kind (req_ch req)))"
    by (rule decide_known [OF ok s st, where a = a and now = now and src = src]) blast
  show thesis
  proof (rule that [OF d _ _ mx])
    show "fst (decision_apply d) = 0" if "latched m" using spec that st en by (auto simp: decision_spec_def Let_def)
  qed (use s mx in \<open>auto intro!: monitor_ok_audit monitor_ok_set_slot monitor_ok_register [OF ok]
         simp: registered_register [OF monitor_okD(1) [OF ok]]\<close>)
qed

lemma guard_pwm_value_ok:
  assumes "seam_ok P s"
  shows "\<exists>code s'. guard_pwm_value_with s chip channel duty a src now = Some (code, s') \<and> seam_ok P s'
     \<and> latched (s_monitor s') = latched (s_monitor s)"
proof (rule decide_seam [OF seam_okD(1) [OF assms], of "\<lparr>req_ch = pwm_channel chip channel, req_value = duty\<rparr>" a src now])
  fix d m'
  let ?v = "fst (decision_apply d)"
  assume d: "decide (s_monitor s) \<lparr>req_ch = pwm_channel chip channel, req_value = duty\<rparr> a src now = Some (d, m')"
    and m': "monitor_ok P m'" "latched m' = latched (s_monitor s)"
    and v: "?v \<le> env_max (envelope_from_profile P (ch_kind (req_ch \<lparr>req_ch = pwm_channel chip channel, req_value = duty\<rparr>)))"
      "latched (s_monitor s) \<Longrightarrow> ?v = 0"
    and r: "\<And>ch'. registered m' ch' = (if ch' = req_ch \<lparr>req_ch = pwm_channel chip channel, req_value = duty\<rparr> \<and>
        slot_index (req_ch \<lparr>req_ch = pwm_channel chip channel, req_value = duty\<rparr>) \<noteq> None then Some 0 else registered (s_monitor s) ch')"
  let ?s' = "apply_pwm_value (s\<lparr>s_monitor := m'\<rparr>) chip channel ?v"
  have out: "outputs_ok P (s_monitor s) (s_ctl s) (s_pwm s) (s_gpio s)" by (rule seam_okD(2) [OF assms])
  have "outputs_ok P m' (s_ctl ?s') (s_pwm ?s') (s_gpio ?s')"
  proof (cases "slot_index (pwm_channel chip channel) \<noteq> None")
    case True
    obtain w where w: "set_duty_cycle (s_ctl s chip) channel ?v = Some w" "?s' = s\<lparr>s_monitor := m', s_ctl := (s_ctl s)(chip := w),
        s_pwm := (s_pwm s)(chip := (s_pwm s chip)(channel := ?v))\<rparr>"
      by (rule apply_pwm_cases [OF True, of "s\<lparr>s_monitor := m'\<rparr>" ?v]) auto
    then show ?thesis using out v r True m'(2) set_duty_cycle_spec(2) [OF w(1)] set_duty_zero [of "s_ctl s chip" channel w]
      unfolding outputs_ok_def by auto
  next
    case False
    then have "?s' = s\<lparr>s_monitor := m'\<rparr>" using pwm_slot_iff [of chip channel] by (auto simp: apply_pwm_value_def)
    then show ?thesis using out r False m'(2) unfolding outputs_ok_def by auto
  qed
  moreover have "s_monitor ?s' = m'" "s_link ?s' = s_link s" by (simp_all add: apply_pwm_value_def split: option.split)
  ultimately have "seam_ok P ?s'" using m' seam_okD(3) [OF assms] by (simp add: seam_ok_def)
  then show ?thesis using d m'(2) \<open>s_monitor ?s' = m'\<close> by (simp add: guard_pwm_value_with_def Let_def case_prod_unfold)
qed

lemma guard_gpio_ok:
  assumes "seam_ok P s"
  shows "\<exists>code s'. guard_gpio_with s pin level a src now = Some (code, s') \<and> seam_ok P s'
     \<and> latched (s_monitor s') = latched (s_monitor s)"
proof (rule decide_seam [OF seam_okD(1) [OF assms], of "\<lparr>req_ch = gpio_channel pin, req_value = level\<rparr>" a src now])
  fix d m'
  let ?v = "fst (decision_apply d)"
  assume d: "decide (s_monitor s) \<lparr>req_ch = gpio_channel pin, req_value = level\<rparr> a src now = Some (d, m')"
    and m': "monitor_ok P m'" "latched m' = latched (s_monitor s)"
    and v: "latched (s_monitor s) \<Longrightarrow> ?v = 0"
    and r: "\<And>ch'. registered m' ch' = (if ch' = req_ch \<lparr>req_ch = gpio_channel pin, req_value = level\<rparr> \<and>
        slot_index (req_ch \<lparr>req_ch = gpio_channel pin, req_value = level\<rparr>) \<noteq> None then Some 0 else registered (s_monitor s) ch')"
  let ?s' = "apply_gpio_value (s\<lparr>s_monitor := m'\<rparr>) pin ?v"
  have out: "outputs_ok P (s_monitor s) (s_ctl s) (s_pwm s) (s_gpio s)" by (rule seam_okD(2) [OF assms])
  have "outputs_ok P m' (s_ctl ?s') (s_pwm ?s') (s_gpio ?s')"
    using out v r m'(2) gpio_slot_iff [of pin] unfolding outputs_ok_def apply_gpio_value_def by auto
  moreover have "s_monitor ?s' = m'" "s_link ?s' = s_link s" by (simp_all add: apply_gpio_value_def)
  ultimately have "seam_ok P ?s'" using m' seam_okD(3) [OF assms] by (simp add: seam_ok_def)
  then show ?thesis using d m'(2) \<open>s_monitor ?s' = m'\<close> by (simp add: guard_gpio_with_def Let_def case_prod_unfold)
qed

section \<open>Every operation keeps the invariant\<close>

text \<open>A transport step keeps the link fine when it keeps a quiet link quiet.\<close>

lemma link_fine_step:
  assumes "link_fine b (Some l)" "link_step l l'" "b' \<Longrightarrow> (b \<and> (tx_quiet (cl_tx l) \<longrightarrow> tx_quiet (cl_tx l'))) \<or> tx_quiet (cl_tx l')"
  shows "link_fine b' (Some l')"
  using assms link_step_good [OF assms(2)] link_step_rx_ok [OF assms(2)] by (fastforce simp: link_fine_def)

lemma with_link_cases:
  obtains (none) "s_link s = None" "with_link s f = (False, s)"
  | (some) l where "s_link s = Some l" "with_link s f = (fst (f l), s\<lparr>s_link := Some (snd (f l))\<rparr>)"
  by (cases "s_link s") (auto simp: with_link_def case_prod_unfold)

lemma notify_stop_frame [simp]:
  "s_monitor (notify_link_estop s b t) = s_monitor s" "s_pwm (notify_link_estop s b t) = s_pwm s"
  "s_ctl (notify_link_estop s b t) = s_ctl s"
  "s_gpio (notify_link_estop s b t) = s_gpio s"
  by (cases rule: with_link_cases [of s "\<lambda>l. command_estop l b t"]; simp add: notify_link_estop_def)+

lemma notify_link_fine:
  assumes "link_fine b (s_link s)" "b' \<Longrightarrow> stop"
  shows "link_fine b' (s_link (notify_link_estop s stop t))"
proof (cases rule: with_link_cases [of s "\<lambda>l. command_estop l stop t"])
  case none
  then show ?thesis by (simp add: notify_link_estop_def link_fine_def)
next
  case (some l)
  have "link_fine b' (Some (snd (command_estop l stop t)))"
    using assms some(1) stop_makes_quiet [of l t] by (intro link_fine_step [OF _ ls_estop]) (auto simp: command_estop_def)
  then show ?thesis using some by (simp add: notify_link_estop_def)
qed

lemma restored_pair_ok:
  "monitor_ok P m \<Longrightarrow> monitor_ok P m' \<Longrightarrow> monitor_ok P (restore_motor_pair_state m' (motor_pair m))"
  unfolding restore_motor_pair_state_def by (rule monitor_ok_motor) (auto dest: monitor_okD(5,6))

lemma outputs_ok_cong:
  "latched m' = latched m \<Longrightarrow> (\<And>ch. registered m' ch = registered m ch) \<Longrightarrow> outputs_ok P m' ctl pw gp \<longleftrightarrow> outputs_ok P m ctl pw gp"
  by (simp add: outputs_ok_def)

lemma registered_motor [simp]: "registered (restore_motor_pair_state m st) ch = registered m ch" "latched (restore_motor_pair_state m st) = latched m"
  by (simp_all add: restore_motor_pair_state_def registered_def split: option.split)

lemma guard_motor_pair_ok:
  assumes ok: "seam_ok P s"
  shows "\<exists>code s'. guard_motor_pair_with s left right a src now lnow = Some (code, s') \<and> seam_ok P s'
     \<and> latched (s_monitor s') = latched (s_monitor s)"
proof -
  obtain d m where d: "decide_motor_pair (s_monitor s) left right a src now = Some (d, m)" "monitor_ok P m"
      "pair_spec P (s_monitor s) left right a now d (motor_pair m)" and lm: "latched m = latched (s_monitor s)"
    and reg: "\<And>ch. registered m ch = registered (s_monitor s) ch"
    using decide_motor_pair_ok [OF seam_okD(1) [OF ok]] by metis
  have out: "outputs_ok P m (s_ctl s) (s_pwm s) (s_gpio s)" using seam_okD(2) [OF ok] outputs_ok_cong [OF lm reg] by simp
  have fine: "link_fine (latched m) (s_link s)" using seam_okD(3) [OF ok] lm by simp
  let ?s1 = "s\<lparr>s_monitor := m\<rparr>"
  obtain l r code where ap: "pair_apply d = (l, r, code)" by (cases "pair_apply d")
  show ?thesis
  proof (cases "code \<noteq> 0")
    case True
    have "seam_ok P (snd (with_link ?s1 (\<lambda>k. send_safe_motor_pair k lnow)))
        \<and> latched (s_monitor (snd (with_link ?s1 (\<lambda>k. send_safe_motor_pair k lnow)))) = latched m"
    proof (cases rule: with_link_cases [of ?s1 "\<lambda>k. send_safe_motor_pair k lnow"])
      case none
      then show ?thesis using d(2) out fine by (simp add: seam_ok_def)
    next
      case (some k)
      have "link_fine (latched m) (Some (snd (send_safe_motor_pair k lnow)))"
        using fine some(1) by (intro link_fine_step [OF _ ls_safe])
          (auto simp: send_safe_motor_pair_def set_safe_motor_pair_def tx_quiet_simple)
      then show ?thesis using some d(2) out by (simp add: seam_ok_def)
    qed
    then show ?thesis using True d(1) ap lm by (simp add: guard_motor_pair_with_def Let_def case_prod_unfold)
  next
    case False
    then have nl: "\<not> latched m" using d(3) ap lm by (auto simp: pair_spec_def pair_refused_def Let_def)
    let ?w = "with_link ?s1 (\<lambda>k. send_motor_pair k (of_int l) (of_int r) lnow)"
    have w: "s_monitor (snd ?w) = m" "seam_ok P (snd ?w)"
    proof -
      show "s_monitor (snd ?w) = m" by (cases rule: with_link_cases [of ?s1 "\<lambda>k. send_motor_pair k (of_int l) (of_int r) lnow"]) simp_all
      show "seam_ok P (snd ?w)"
      proof (cases rule: with_link_cases [of ?s1 "\<lambda>k. send_motor_pair k (of_int l) (of_int r) lnow"])
        case none
        then show ?thesis using d(2) out fine by (simp add: seam_ok_def)
      next
        case (some k)
        have "link_fine (latched m) (Some (snd (send_motor_pair k (of_int l) (of_int r) lnow)))"
          using fine some(1) nl by (intro link_fine_step [OF _ ls_motor]) auto
        then show ?thesis using some d(2) out by (simp add: seam_ok_def)
      qed
    qed
    then have "seam_ok P ((snd ?w)\<lparr>s_monitor := restore_motor_pair_state m (motor_pair (s_monitor s))\<rparr>)"
      using restored_pair_ok [OF seam_okD(1) [OF ok] d(2)]
        outputs_ok_cong [of "restore_motor_pair_state m (motor_pair (s_monitor s))" m P] by (simp add: seam_ok_def)
    then show ?thesis using False d(1) ap lm w by (simp add: guard_motor_pair_with_def Let_def case_prod_unfold)
  qed
qed

subsection \<open>The emergency stop\<close>

lemma apply_safe_drive_frame [simp]:
  "s_monitor (apply_safe_drive s d) = s_monitor s" "s_link (apply_safe_drive s d) = s_link s"
  by (simp_all add: apply_safe_drive_def apply_pwm_value_def apply_gpio_value_def split: actuation_kind.split option.split)

lemma apply_drives_frame [simp]:
  "s_monitor (foldl apply_safe_drive s ds) = s_monitor s" "s_link (foldl apply_safe_drive s ds) = s_link s"
  by (induction ds arbitrary: s) simp_all

text \<open>Driving zero on a set of channels zeroes them and leaves the others.\<close>

lemma apply_drives_pwm:
  assumes "\<And>d. d \<in> set ds \<Longrightarrow> sd_safe_value d = 0"
  shows "drive_of (pwm_channel chip c) 0 \<in> set ds \<and> slot_index (pwm_channel chip c) \<noteq> None
       \<or> s_pwm s chip c = 0 \<and> duty_reg (s_ctl s chip) c = 0 \<Longrightarrow>
     s_pwm (foldl apply_safe_drive s ds) chip c = 0 \<and> duty_reg (s_ctl (foldl apply_safe_drive s ds) chip) c = 0"
  using assms
proof (induction ds arbitrary: s)
  case (Cons d ds)
  obtain k chip' c' where d: "d = drive_of \<lparr>ch_kind = k, ch_chip = chip', ch_channel = c'\<rparr> 0"
    using Cons.prems(2) [of d] by (cases d, cases "sd_channel d") simp
  have "drive_of (pwm_channel chip c) 0 \<in> set ds \<and> slot_index (pwm_channel chip c) \<noteq> None
       \<or> s_pwm (apply_safe_drive s d) chip c = 0 \<and> duty_reg (s_ctl (apply_safe_drive s d) chip) c = 0"
  proof (cases "k = PwmDuty \<and> slot_index (pwm_channel chip' c') \<noteq> None")
    case True
    then obtain r where r: "set_duty_cycle (s_ctl s chip') c' 0 = Some r" and
        a: "apply_pwm_value s chip' c' 0 = s\<lparr>s_ctl := (s_ctl s)(chip' := r), s_pwm := (s_pwm s)(chip' := (s_pwm s chip')(c' := 0))\<rparr>"
      using apply_pwm_cases [of chip' c' s 0] by blast
    show ?thesis using Cons.prems(1) True set_duty_zero [OF r] unfolding d by (auto simp: apply_safe_drive_def a)
  next
    case False
    then have "apply_safe_drive s d = s \<or> (\<exists>g. apply_safe_drive s d = s\<lparr>s_gpio := g\<rparr>)"
      using pwm_slot_iff [of chip' c'] unfolding d by (cases k) (auto simp: apply_safe_drive_def apply_pwm_value_def apply_gpio_value_def)
    then show ?thesis using Cons.prems(1) False unfolding d by auto
  qed
  then show ?case using Cons.IH [of "apply_safe_drive s d"] Cons.prems(2) by simp
qed simp

lemma apply_drives_gpio:
  assumes "\<And>d. d \<in> set ds \<Longrightarrow> sd_safe_value d = 0"
  shows "drive_of (gpio_channel pin) 0 \<in> set ds \<and> pin < 28 \<or> \<not> s_gpio s pin \<Longrightarrow> \<not> s_gpio (foldl apply_safe_drive s ds) pin"
  using assms
proof (induction ds arbitrary: s)
  case (Cons d ds)
  obtain k chip' c' where d: "d = drive_of \<lparr>ch_kind = k, ch_chip = chip', ch_channel = c'\<rparr> 0"
    using Cons.prems(2) [of d] by (cases d, cases "sd_channel d") simp
  have "drive_of (gpio_channel pin) 0 \<in> set ds \<and> pin < 28 \<or> \<not> s_gpio (apply_safe_drive s d) pin"
    using Cons.prems(1) unfolding d
    by (cases k) (auto simp: apply_safe_drive_def apply_pwm_value_def apply_gpio_value_def split: option.splits)
  then show ?case using Cons.IH [of "apply_safe_drive s d"] Cons.prems(2) by simp
qed simp

lemma estop_trigger_frame:
  assumes "estop_trigger m src now = (ds, m')" "monitor_ok P m"
  shows "monitor_ok P m'" "latched m'" "\<And>ch. registered m' ch = registered m ch"
    and "\<And>ch v. drive_of ch v \<in> set ds \<longleftrightarrow> registered m ch = Some v"
proof -
  let ?m1 = "m\<lparr>latched := True, motor_pair := MOTOR_STOPPED\<lparr>mp_last_update_ns := now\<rparr>, latch_epoch := latch_epoch m + 1\<rparr>"
  have reg: "registered (?m1\<lparr>audit := x\<rparr>) ch = registered m ch" "registered ?m1 ch = registered m ch" for x ch
    by (simp_all add: registered_def split: option.split)
  have z: "\<bar>0\<bar> \<le> pair_bound P" using monitor_okD(5) [OF assms(2)] by simp
  have ok: "monitor_ok P (?m1\<lparr>audit := emit (audit m) r\<rparr>)" for r
    using monitor_ok_motor [OF monitor_ok_latch [OF assms(2), where b = True and n = "latch_epoch m + 1" and rec = r],
        of "MOTOR_STOPPED\<lparr>mp_last_update_ns := now\<rparr>"] z by (cases m) (simp add: MOTOR_STOPPED_def)
  have ds: "ds = known_channels ?m1" and m': "\<exists>r. m' = ?m1\<lparr>audit := emit (audit m) r\<rparr>"
    using assms(1) by (auto simp: estop_trigger_def Let_def)
  then show "monitor_ok P m'" "latched m'" "\<And>ch. registered m' ch = registered m ch"
    using ok by (auto simp: reg)
  show "drive_of ch v \<in> set ds \<longleftrightarrow> registered m ch = Some v" for ch v
    unfolding ds by (simp only: known_channels_set reg)
qed

text \<open>The stop zeroes every output: driven channels by the safe drives, the rest were never driven.\<close>

lemma stop_outputs:
  assumes tr: "estop_trigger (s_monitor s) src now = (ds, m')" and ok: "seam_ok P s"
  shows "outputs_ok P m' (s_ctl (foldl apply_safe_drive (s\<lparr>s_monitor := m'\<rparr>) ds))
     (s_pwm (foldl apply_safe_drive (s\<lparr>s_monitor := m'\<rparr>) ds)) (s_gpio (foldl apply_safe_drive (s\<lparr>s_monitor := m'\<rparr>) ds))"
proof -
  let ?s' = "foldl apply_safe_drive (s\<lparr>s_monitor := m'\<rparr>) ds"
  note fr = estop_trigger_frame [OF tr seam_okD(1) [OF ok]]
  have zero: "sd_safe_value d = 0" if "d \<in> set ds" for d
  proof -
    have "drive_of (sd_channel d) (sd_safe_value d) = d" by simp
    then show ?thesis using that fr(4) monitor_okD(4) [OF seam_okD(1) [OF ok]] by metis
  qed
  note out = seam_okD(2) [OF ok, unfolded outputs_ok_def]
  have reg0: "registered (s_monitor s) ch = Some 0 \<or> registered (s_monitor s) ch = None" for ch
    using monitor_okD(4) [OF seam_okD(1) [OF ok], of ch] by (cases "registered (s_monitor s) ch") auto
  have slot: "registered (s_monitor s) ch = Some 0 \<Longrightarrow> slot_index ch \<noteq> None" for ch
    by (cases "slot_index ch") (simp_all add: registered_def)
  have "s_pwm ?s' chip c = 0 \<and> duty_reg (s_ctl ?s' chip) c = 0" for chip c
    using reg0 [of "pwm_channel chip c"] slot [of "pwm_channel chip c"] fr(4) [of "pwm_channel chip c" 0] out
    by (intro apply_drives_pwm zero) auto
  moreover have "\<not> s_gpio ?s' pin" for pin
    using reg0 [of "gpio_channel pin"] slot [of "gpio_channel pin"] fr(4) [of "gpio_channel pin" 0] out gpio_slot_iff [of pin]
    by (intro apply_drives_gpio zero) auto
  ultimately show ?thesis by (simp add: outputs_ok_def)
qed

lemma stop_ok:
  assumes "estop_trigger (s_monitor s) src now = (ds, m')" "seam_ok P s"
  shows "seam_ok P (notify_link_estop (foldl apply_safe_drive (s\<lparr>s_monitor := m'\<rparr>) ds) True lnow)"
    and "latched (s_monitor (notify_link_estop (foldl apply_safe_drive (s\<lparr>s_monitor := m'\<rparr>) ds) True lnow))"
  using stop_outputs [OF assms] estop_trigger_frame [OF assms(1) seam_okD(1) [OF assms(2)]] notify_link_fine [OF _ refl, of "latched (s_monitor s)"]
    seam_okD(3) [OF assms(2)]
  by (auto simp: seam_ok_def intro: notify_link_fine)

lemma trigger_estop_ok:
  assumes "seam_ok P s"
  shows "fst (trigger_estop s src now lnow) = 0 \<and> seam_ok P (snd (trigger_estop s src now lnow))
     \<and> latched (s_monitor (snd (trigger_estop s src now lnow)))"
  using stop_ok [OF _ assms] by (cases "estop_trigger (s_monitor s) src now") (simp add: trigger_estop_def)

lemma watchdog_estop_ok:
  assumes "seam_ok P s"
  shows "fst (seam_watchdog_estop s now lnow) = 0 \<and> seam_ok P (snd (seam_watchdog_estop s now lnow))
     \<and> latched (s_monitor (snd (seam_watchdog_estop s now lnow)))"
  using stop_ok [OF _ assms] by (cases "estop_trigger (s_monitor s) SrcWatchdog now")
    (simp add: seam_watchdog_estop_def watchdog_estop_trigger_def)

lemma released_ok:
  assumes ok: "seam_ok P s" and r: "estop_release (s_monitor s) a src now = (res, m')"
  shows "res = (if a = Operator then Released else Denied)" "latched m' \<longleftrightarrow> a \<noteq> Operator \<and> latched (s_monitor s)"
    and "seam_ok P (s\<lparr>s_monitor := m'\<rparr>)"
proof -
  let ?b = "a \<noteq> Operator \<and> latched (s_monitor s)"
  obtain x where m': "m' = (s_monitor s)\<lparr>latched := ?b, audit := emit (audit (s_monitor s)) x\<rparr>"
    using r by (auto simp: estop_release_def Let_def split: if_splits)
  have "(s_monitor s)\<lparr>latched := ?b, latch_epoch := latch_epoch (s_monitor s), audit := emit (audit (s_monitor s)) x\<rparr> = m'"
    unfolding m' by simp
  then have mo: "monitor_ok P m'" using monitor_ok_latch [OF seam_okD(1) [OF ok]] by metis
  show "res = (if a = Operator then Released else Denied)" using r by (auto simp: estop_release_def Let_def split: if_splits)
  show "latched m' \<longleftrightarrow> a \<noteq> Operator \<and> latched (s_monitor s)" unfolding m' by simp
  have "registered m' ch = registered (s_monitor s) ch" for ch unfolding m' by (simp add: registered_def split: option.split)
  then have "outputs_ok P m' (s_ctl s) (s_pwm s) (s_gpio s)"
    using seam_okD(2) [OF ok] unfolding outputs_ok_def m' by simp
  moreover have "link_fine (latched m') (s_link s)"
    using seam_okD(3) [OF ok] unfolding m' by (auto simp: link_fine_def split: option.splits)
  ultimately show "seam_ok P (s\<lparr>s_monitor := m'\<rparr>)" using mo by (simp add: seam_ok_def)
qed

lemma notify_release_ok: "seam_ok P s \<Longrightarrow> \<not> latched (s_monitor s) \<Longrightarrow> seam_ok P (notify_link_estop s False lnow)"
  using notify_link_fine [of "latched (s_monitor s)" s False False lnow] by (simp add: seam_ok_def)

lemma release_estop_ok:
  assumes ok: "seam_ok P s"
  shows "seam_ok P (snd (release_estop s a src now lnow))"
    and "latched (s_monitor (snd (release_estop s a src now lnow))) \<longleftrightarrow> a \<noteq> Operator \<and> latched (s_monitor s)"
proof -
  obtain res m' where r: "estop_release (s_monitor s) a src now = (res, m')" by (cases "estop_release (s_monitor s) a src now")
  note R = released_ok [OF ok r]
  show "seam_ok P (snd (release_estop s a src now lnow))"
    using r R notify_release_ok [OF R(3)] by (auto simp: release_estop_def)
  show "latched (s_monitor (snd (release_estop s a src now lnow))) \<longleftrightarrow> a \<noteq> Operator \<and> latched (s_monitor s)"
    using r R by (auto simp: release_estop_def)
qed

lemma operator_estop_ok:
  assumes ok: "seam_ok P s"
  shows "seam_ok P (snd (seam_operator_estop s action now lnow))"
    and "latched (s_monitor (snd (seam_operator_estop s action now lnow))) \<longleftrightarrow> action = Trigger"
proof -
  obtain ds m where t: "estop_trigger (s_monitor s) SrcOperator now = (ds, m)" by (cases "estop_trigger (s_monitor s) SrcOperator now")
  obtain res m' where r: "estop_release (s_monitor s) Operator SrcOperator now = (res, m')"
    by (cases "estop_release (s_monitor s) Operator SrcOperator now")
  note R = released_ok [OF ok r] and S = stop_ok [OF t ok, of lnow]
  show "seam_ok P (snd (seam_operator_estop s action now lnow))"
    using t r R S notify_release_ok [OF R(3)] by (cases action) (auto simp: seam_operator_estop_def operator_estop_def)
  show "latched (s_monitor (snd (seam_operator_estop s action now lnow))) \<longleftrightarrow> action = Trigger"
    using t r R S by (cases action) (auto simp: seam_operator_estop_def operator_estop_def)
qed

lemma service_ok:
  assumes ok: "seam_ok P s"
  shows "seam_ok P (service s now lnow)"
    and "latched (s_monitor s) \<Longrightarrow> latched (s_monitor (service s now lnow))"
    and "s_link s = Some l \<Longrightarrow> po_estop (snd (poll_decode l lnow)) \<Longrightarrow> latched (s_monitor (service s now lnow))"
proof -
  have k: "seam_ok P (s\<lparr>s_link := Some (fst (poll_decode k lnow))\<rparr>)" if "s_link s = Some k" for k
    using ok that link_fine_step [OF _ ls_poll, of "latched (s_monitor s)" k "latched (s_monitor s)" lnow] quiet_poll [of k lnow]
    by (simp add: seam_ok_def)
  show "seam_ok P (service s now lnow)"
    using ok k watchdog_estop_ok [OF k] by (auto simp: service_def case_prod_unfold Let_def split: option.splits)
  show "latched (s_monitor s) \<Longrightarrow> latched (s_monitor (service s now lnow))"
    using watchdog_estop_ok [OF k] by (auto simp: service_def case_prod_unfold Let_def split: option.splits)
  show "s_link s = Some l \<Longrightarrow> po_estop (snd (poll_decode l lnow)) \<Longrightarrow> latched (s_monitor (service s now lnow))"
    using watchdog_estop_ok [OF k] by (auto simp: service_def case_prod_unfold Let_def split: option.splits)
qed

subsection \<open>The system calls\<close>

lemma seam_ok_ctl:
  assumes "seam_ok P s" "\<And>c. duty_reg r c = duty_reg (s_ctl s chip) c"
  shows "seam_ok P (s\<lparr>s_ctl := (s_ctl s)(chip := r)\<rparr>)"
  using assms by (simp add: seam_ok_def outputs_ok_def)

text \<open>Every system call returns, keeps the invariant and leaves the latch alone.\<close>

definition guarded :: "profile \<Rightarrow> seam \<Rightarrow> (i64 \<times> seam) option \<Rightarrow> bool" where
  "guarded P s res \<longleftrightarrow> (\<exists>code s'. res = Some (code, s') \<and> seam_ok P s' \<and> latched (s_monitor s') = latched (s_monitor s))"

lemma guarded_refused: "seam_ok P s \<Longrightarrow> guarded P s (Some (code, s))"
  by (simp add: guarded_def)

lemma guarded_pwm: "seam_ok P s \<Longrightarrow> guarded P s (guard_pwm_with s chip c duty a src now)"
  using guard_pwm_value_ok by (simp add: guarded_def guard_pwm_with_def)

lemma guarded_zero: "seam_ok P s \<Longrightarrow> guarded P s (guard_pwm_zero s i c now)"
  by (simp add: guard_pwm_zero_def guarded_pwm guarded_refused)

lemma guarded_write: "seam_ok P s \<Longrightarrow> guarded P s (sys_pwm_write s i c duty now)"
  by (auto simp: sys_pwm_write_def guard_motor_with_def intro!: guarded_pwm guarded_refused split: option.split)

lemma set_frequency_frame:
  assumes "pwm_valid c"
  shows "\<exists>r'. set_frequency r c f = Some r' \<and> (\<forall>c'. duty_reg r' c' = duty_reg r c')"
  using assms by (simp add: set_frequency_def pwm_set_range_def pwm_commit_def)

lemma pwm_valid_12: "pwm_valid 1" "pwm_valid 2"
  by (simp_all add: pwm_valid_def NUM_CHANNELS_def)

lemma guarded_config:
  assumes ok: "seam_ok P s"
  shows "guarded P s (sys_pwm_config s i f now1 now2)"
proof (cases "valid_pwm_id i \<and> f \<noteq> 0")
  case True
  obtain c1 s1 where g1: "guard_pwm_zero s i 1 now1 = Some (c1, s1)" "seam_ok P s1" "latched (s_monitor s1) = latched (s_monitor s)"
    using guarded_zero [OF ok] unfolding guarded_def by blast
  obtain c2 s2 where g2: "guard_pwm_zero s1 i 2 now2 = Some (c2, s2)" "seam_ok P s2" "latched (s_monitor s2) = latched (s_monitor s1)"
    using guarded_zero [OF g1(2)] unfolding guarded_def by blast
  obtain r1 where r1: "set_frequency (s_ctl s2 (of_nat i)) 1 (ucast f) = Some r1" "\<And>c. duty_reg r1 c = duty_reg (s_ctl s2 (of_nat i)) c"
    using set_frequency_frame [OF pwm_valid_12(1)] by blast
  obtain r2 where r2: "set_frequency r1 2 (ucast f) = Some r2" "\<And>c. duty_reg r2 c = duty_reg r1 c"
    using set_frequency_frame [OF pwm_valid_12(2)] by blast
  have "seam_ok P (s2\<lparr>s_ctl := (s_ctl s2)(of_nat i := r2)\<rparr>)" by (rule seam_ok_ctl [OF g2(2)]) (simp add: r1 r2)
  then show ?thesis using True g1 g2 r1(1) r2(1) by (simp add: sys_pwm_config_def guarded_def)
next
  case False
  then show ?thesis using guarded_refused [OF ok] by (auto simp: sys_pwm_config_def)
qed

lemma guarded_enable:
  assumes ok: "seam_ok P s"
  shows "guarded P s (sys_pwm_enable s i c e now)"
proof (cases "valid_pwm_id i \<and> valid_pwm_channel c")
  case True
  then have "c = 1 \<or> c = 2" by (auto simp: valid_pwm_channel_def)
  then have v: "pwm_valid (of_nat c)" using pwm_valid_12 by auto
  obtain c1 s1 where g1: "guard_pwm_zero s i c now = Some (c1, s1)" "seam_ok P s1" "latched (s_monitor s1) = latched (s_monitor s)"
    using guarded_zero [OF ok] unfolding guarded_def by blast
  obtain r where r: "(if e \<noteq> 0 then pwm_enable (s_ctl s1 (of_nat i)) (of_nat c) else pwm_disable (s_ctl s1 (of_nat i)) (of_nat c)) = Some r"
    "\<And>c'. duty_reg r c' = duty_reg (s_ctl s1 (of_nat i)) c'"
    using v by (cases "e = 0") (auto simp: pwm_enable_def pwm_disable_def Let_def)
  have "seam_ok P (s1\<lparr>s_ctl := (s_ctl s1)(of_nat i := r)\<rparr>)" by (rule seam_ok_ctl [OF g1(2)]) (simp add: r)
  then show ?thesis using True g1 r(1) by (simp add: sys_pwm_enable_def guarded_def)
next
  case False
  then show ?thesis using guarded_refused [OF ok] by (auto simp: sys_pwm_enable_def)
qed

section \<open>Reachable states of the seam\<close>

text \<open>
  The boot state: a fresh monitor, outputs low, duty registers at their reset value, and either no
  link or a fresh one. Every step is labelled with whether it is a release by an operator.
\<close>

definition seam_init :: "profile \<Rightarrow> seam \<Rightarrow> bool" where
  "seam_init P s \<longleftrightarrow> s_monitor s = monitor_new P \<and> (\<forall>chip c. s_pwm s chip c = 0 \<and> duty_reg (s_ctl s chip) c = 0)
     \<and> (\<forall>pin. \<not> s_gpio s pin) \<and> (\<forall>l. s_link s = Some l \<longrightarrow> link_reachable l)"

inductive seam_step :: "profile \<Rightarrow> seam \<Rightarrow> bool \<Rightarrow> seam \<Rightarrow> bool" for P where
  ss_cache: "seam_step P s False (s\<lparr>s_monitor := init_envelope_cache (s_monitor s) (cache_from_profile P)\<rparr>)"
| ss_pwm: "guard_pwm_with s chip c duty a src now = Some (code, s') \<Longrightarrow> seam_step P s False s'"
| ss_gpio: "guard_gpio_with s pin level a src now = Some (code, s') \<Longrightarrow> seam_step P s False s'"
| ss_motor: "guard_motor_pair_with s left right a src now lnow = Some (code, s') \<Longrightarrow> seam_step P s False s'"
| ss_write: "sys_pwm_write s i c duty now = Some (code, s') \<Longrightarrow> seam_step P s False s'"
| ss_config: "sys_pwm_config s i f now now2 = Some (code, s') \<Longrightarrow> seam_step P s False s'"
| ss_enable: "sys_pwm_enable s i c e now = Some (code, s') \<Longrightarrow> seam_step P s False s'"
| ss_trigger: "seam_step P s False (snd (trigger_estop s src now lnow))"
| ss_watchdog: "seam_step P s False (snd (seam_watchdog_estop s now lnow))"
| ss_sys_estop: "seam_step P s False (snd (sys_estop s action now lnow))"
| ss_operator: "seam_step P s (action = Release) (snd (seam_operator_estop s action now lnow))"
| ss_release: "seam_step P s (a = Operator) (snd (release_estop s a src now lnow))"
| ss_service: "seam_step P s False (service s now lnow)"
| ss_arrive: "s_link s = Some l \<Longrightarrow> seam_step P s False (s\<lparr>s_link := Some (l\<lparr>cl_uart := (cl_uart l)\<lparr>u_rx := u_rx (cl_uart l) @ ws\<rparr>\<rparr>)\<rparr>)"
| ss_room: "s_link s = Some l \<Longrightarrow> seam_step P s False (s\<lparr>s_link := Some (l\<lparr>cl_uart := (cl_uart l)\<lparr>u_room := n\<rparr>\<rparr>)\<rparr>)"

definition seam_reachable :: "profile \<Rightarrow> seam \<Rightarrow> bool" where
  "seam_reachable P s \<longleftrightarrow> (\<exists>s0. seam_init P s0 \<and> (\<lambda>a b. \<exists>rel. seam_step P a rel b)\<^sup>*\<^sup>* s0 s)"

lemma seam_ok_init:
  assumes "seam_init P s"
  shows "seam_ok P s"
proof -
  have "link_fine False (s_link s)"
    using assms link_reachable_inv by (auto simp: seam_init_def link_fine_def split: option.split)
  then show ?thesis using assms monitor_ok_new [of P]
    by (auto simp: seam_init_def seam_ok_def outputs_ok_def monitor_new_def Let_def)
qed

lemma seam_ok_cache:
  assumes ok: "seam_ok P s"
  shows "seam_ok P (s\<lparr>s_monitor := init_envelope_cache (s_monitor s) (cache_from_profile P)\<rparr>)"
proof -
  let ?m = "init_envelope_cache (s_monitor s) (cache_from_profile P)"
  have new: "mon_envelope_cache (monitor_new P) = cache_from_profile P" by (simp add: monitor_new_def)
  have reg: "registered ?m ch = registered (s_monitor s) ch" for ch
    by (simp add: init_envelope_cache_def registered_def split: option.split)
  have "get_slot ?m ch = get_slot (s_monitor s) ch" for ch
    by (simp add: init_envelope_cache_def get_slot_def split: option.split)
  then have "monitor_ok P ?m"
    using seam_okD(1) [OF ok] monitor_ok_new [of P] unfolding monitor_ok_def monitor_shape_def new reg
    by (simp add: init_envelope_cache_def)
  moreover note reg
  moreover have "latched ?m = latched (s_monitor s)" by (simp add: init_envelope_cache_def)
  ultimately show ?thesis using ok by (simp add: seam_ok_def outputs_ok_def)
qed

lemma seam_ok_uart:
  assumes "seam_ok P s" "s_link s = Some l" "link_step l (l\<lparr>cl_uart := u\<rparr>)"
  shows "seam_ok P (s\<lparr>s_link := Some (l\<lparr>cl_uart := u\<rparr>)\<rparr>)"
  using assms link_fine_step [OF _ assms(3), of "latched (s_monitor s)" "latched (s_monitor s)"] by (simp add: seam_ok_def)

lemma seam_step_ok:
  assumes "seam_step P s rel s'" "seam_ok P s"
  shows "seam_ok P s' \<and> (latched (s_monitor s) \<and> \<not> rel \<longrightarrow> latched (s_monitor s'))"
  using assms
proof cases
  case ss_cache
  then show ?thesis using seam_ok_cache [OF assms(2)] by (simp add: init_envelope_cache_def)
next
  case (ss_gpio pin level a src now code)
  then show ?thesis using guard_gpio_ok [OF assms(2), of pin level a src now] by auto
next
  case (ss_motor left right a src now lnow code)
  then show ?thesis using guard_motor_pair_ok [OF assms(2), of left right a src now lnow] by auto
next
  case (ss_sys_estop action now lnow)
  then show ?thesis using assms(2) operator_estop_ok [OF assms(2), of Trigger now lnow] by (simp add: sys_estop_def)
next
  case (ss_operator action now lnow)
  then show ?thesis using operator_estop_ok [OF assms(2), of action now lnow] by (cases action) auto
next
  case (ss_release a src now lnow)
  then show ?thesis using release_estop_ok [OF assms(2), of a src now lnow] by auto
next
  case (ss_arrive l ws)
  then show ?thesis using seam_ok_uart [OF assms(2) _ ls_arrive] by simp
next
  case (ss_room l n)
  then show ?thesis using seam_ok_uart [OF assms(2) _ ls_room] by simp
next
  case (ss_pwm chip c duty a src now code)
  then show ?thesis using guarded_pwm [OF assms(2), of chip c duty a src now] by (simp add: guarded_def)
next
  case (ss_write i c duty now code)
  then show ?thesis using guarded_write [OF assms(2), of i c duty now] by (simp add: guarded_def)
next
  case (ss_config i f now now2 code)
  then show ?thesis using guarded_config [OF assms(2), of i f now now2] by (simp add: guarded_def)
next
  case (ss_enable i c e now code)
  then show ?thesis using guarded_enable [OF assms(2), of i c e now] by (simp add: guarded_def)
qed (use trigger_estop_ok [OF assms(2)] watchdog_estop_ok [OF assms(2)] service_ok(1,2) [OF assms(2)] in simp_all)

lemma seam_reachable_ok: "seam_reachable P s \<Longrightarrow> seam_ok P s"
  unfolding seam_reachable_def
proof (elim exE conjE)
  fix s0
  assume i: "seam_init P s0" and st: "(\<lambda>a b. \<exists>rel. seam_step P a rel b)\<^sup>*\<^sup>* s0 s"
  from st show "seam_ok P s"
    by (induction rule: rtranclp_induct) (use seam_ok_init [OF i] in \<open>auto dest: seam_step_ok\<close>)
qed

end
