(* ===== verification/Firmware.thy ===== *)
theory Firmware
  imports Link_Stop
begin

text \<open>
  The motor-controller firmware (\<open>firmware/shrike/control/src\<close>): the L298N motor driver
  (\<open>motor.rs\<close>) and the control loop (\<open>control.rs\<close>). The traits at the edge of the loop are the
  inputs of an iteration: the clock sample, the stop line, the bytes that arrived and the echo, if
  one is ready. HAL writes are infallible on the RP2040, as the driver notes. The lemmas lift the
  authority argument of the watchdog to the pins of the motors and compose it with the Pi's end of
  the link.
\<close>

section \<open>Motor driver\<close>

record l298n =
  ena_max :: u16
  ena_duty :: u16
  in1 :: bool
  in2 :: bool

text \<open>The bounds of the clamp in \<open>split_duty\<close> are ordered, so it always returns.\<close>

definition motor_drive :: "l298n \<Rightarrow> i16 \<Rightarrow> l298n" where
  "motor_drive m duty =
     (case split_duty (sint duty) (ena_max m) of
        None \<Rightarrow> m
      | Some (dir, mag) \<Rightarrow>
          (case dir of Forward \<Rightarrow> m\<lparr>in1 := True, in2 := False\<rparr>
           | Reverse \<Rightarrow> m\<lparr>in1 := False, in2 := True\<rparr>
           | Coast \<Rightarrow> m\<lparr>in1 := False, in2 := False\<rparr>)\<lparr>ena_duty := mag\<rparr>)"

definition motor_coast :: "l298n \<Rightarrow> l298n" where "motor_coast m = motor_drive m 0"
definition l298n_new :: "l298n \<Rightarrow> l298n" where "l298n_new pins = motor_coast pins"

section \<open>Control loop\<close>

definition RX_BYTES_PER_ITERATION :: nat where "RX_BYTES_PER_ITERATION = 64"

record fw_config =
  link_timeout_us :: u64
  ping_period_us :: u64
  peer_heartbeat_period_us :: u64

record run_summary =
  iterations :: u32
  motor_drive_calls :: u32
  motor_coast_calls :: u32
  bytes_written :: u32
  estop_asserts :: u32

record fw_input =
  fi_now :: u64
  fi_estop :: bool
  fi_bytes :: "u8 list"
  fi_echo :: "u16 option"

record firmware =
  fw_dec :: decoder
  fw_wd :: watchdog
  fw_last_ping :: u64
  fw_last_peer_heartbeat :: u64
  fw_peer_heartbeat_seq :: u16
  fw_summary :: run_summary
  fw_left :: l298n
  fw_right :: l298n
  fw_rx :: "u8 list"
  fw_tx :: "u8 list"
  fw_triggers :: nat

definition firmware_new :: "fw_config \<Rightarrow> l298n \<Rightarrow> l298n \<Rightarrow> firmware" where
  "firmware_new cfg l r =
     \<lparr>fw_dec = decoder_new, fw_wd = watchdog_new (link_timeout_us cfg), fw_last_ping = 0, fw_last_peer_heartbeat = 0,
      fw_peer_heartbeat_seq = 0,
      fw_summary = \<lparr>iterations = 0, motor_drive_calls = 0, motor_coast_calls = 0, bytes_written = 0, estop_asserts = 0\<rparr>,
      fw_left = l, fw_right = r, fw_rx = [], fw_tx = [], fw_triggers = 0\<rparr>"

text \<open>Step 2: at most \<open>n\<close> reads, stopping at the first that finds nothing.\<close>

primrec fw_drain :: "nat \<Rightarrow> u64 \<Rightarrow> firmware \<Rightarrow> firmware" where
  "fw_drain 0 now s = s"
| "fw_drain (Suc n) now s =
     (case fw_rx s of
        [] \<Rightarrow> s
      | b # bs \<Rightarrow> (case dec_push (fw_dec s) b of (r, d) \<Rightarrow>
          let s1 = s\<lparr>fw_rx := bs, fw_dec := d\<rparr>;
              s2 = (case r of Some (Inr m) \<Rightarrow> s1\<lparr>fw_wd := snd (wd_on_msg (fw_wd s1) m now)\<rparr> | _ \<Rightarrow> s1)
          in fw_drain n now s2))"

definition fw_actuate :: "wd_output \<Rightarrow> firmware \<Rightarrow> firmware" where
  "fw_actuate out s =
     (let sm = fw_summary s in
      case out of
        Drive l r \<Rightarrow> s\<lparr>fw_left := motor_drive (fw_left s) l, fw_right := motor_drive (fw_right s) r,
                        fw_summary := sm\<lparr>motor_drive_calls := motor_drive_calls sm + 2\<rparr>\<rparr>
      | SafeStop \<Rightarrow> s\<lparr>fw_left := motor_coast (fw_left s), fw_right := motor_coast (fw_right s),
                       fw_summary := sm\<lparr>motor_coast_calls := motor_coast_calls sm + 2\<rparr>\<rparr>)"

definition fw_send :: "msg \<Rightarrow> firmware \<Rightarrow> firmware" where
  "fw_send m s =
     (case encode m (replicate MAX_FRAME 0) of
        Inl _ \<Rightarrow> s
      | Inr (buf, n) \<Rightarrow> let sm = fw_summary s in
          s\<lparr>fw_tx := fw_tx s @ take n buf, fw_summary := sm\<lparr>bytes_written := bytes_written sm + of_nat n\<rparr>\<rparr>)"

definition fw_report :: "fw_config \<Rightarrow> fw_input \<Rightarrow> firmware \<Rightarrow> firmware" where
  "fw_report cfg i s =
     (let now = fi_now i;
          s1 = (if now - fw_last_ping s \<ge> ping_period_us cfg
                then s\<lparr>fw_triggers := fw_triggers s + 1, fw_last_ping := now\<rparr> else s);
          s2 = (case fi_echo i of None \<Rightarrow> s1 | Some echo \<Rightarrow> fw_send (Sensor echo (fi_estop i) 0) s1)
      in if peer_heartbeat_period_us cfg > 0 \<and> now - fw_last_peer_heartbeat s2 \<ge> peer_heartbeat_period_us cfg
         then fw_send (HeartbeatToPi (fw_peer_heartbeat_seq s2))
                (s2\<lparr>fw_peer_heartbeat_seq := fw_peer_heartbeat_seq s2 + 1, fw_last_peer_heartbeat := now\<rparr>)
         else s2)"

text \<open>One turn of the loop. The bytes that arrive are behind those not read yet.\<close>

definition fw_iteration :: "fw_config \<Rightarrow> firmware \<Rightarrow> fw_input \<Rightarrow> firmware" where
  "fw_iteration cfg s i =
     (let sm = fw_summary s;
          sm1 = sm\<lparr>iterations := iterations sm + 1, estop_asserts := estop_asserts sm + (if fi_estop i then 1 else 0)\<rparr>;
          s1 = s\<lparr>fw_summary := sm1, fw_wd := wd_set_hardware_estop (fw_wd s) (fi_estop i), fw_rx := fw_rx s @ fi_bytes i\<rparr>;
          s2 = fw_drain RX_BYTES_PER_ITERATION (fi_now i) s1;
          out = (if fi_estop i then SafeStop else wd_output_at (fw_wd s2) (fi_now i))
      in fw_report cfg i (fw_actuate out s2))"

text \<open>\<open>run\<close>: without a limit the loop does not end, which is the value \<open>None\<close>.\<close>

partial_function (option) fw_loop ::
  "fw_config \<Rightarrow> u32 option \<Rightarrow> (nat \<Rightarrow> fw_input) \<Rightarrow> nat \<Rightarrow> firmware \<Rightarrow> firmware option" where
  "fw_loop cfg limit env k s =
     (let s1 = fw_iteration cfg s (env k) in
      if (case limit of None \<Rightarrow> False | Some n \<Rightarrow> n \<le> iterations (fw_summary s1)) then Some s1
      else fw_loop cfg limit env (Suc k) s1)"

definition fw_run :: "fw_config \<Rightarrow> u32 option \<Rightarrow> l298n \<Rightarrow> l298n \<Rightarrow> (nat \<Rightarrow> fw_input) \<Rightarrow> run_summary option" where
  "fw_run cfg max_iterations l r env =
     map_option fw_summary (fw_loop cfg max_iterations env 0 (firmware_new cfg (l298n_new l) (l298n_new r)))"

section \<open>Motor pins\<close>

definition neutral :: "l298n \<Rightarrow> bool" where
  "neutral m \<longleftrightarrow> ena_duty m = 0 \<and> \<not> in1 m \<and> \<not> in2 m"

lemma split_duty_total: "\<exists>dir mag. split_duty d m = Some (dir, mag)"
  by (auto simp: split_duty_def clamp_def Let_def)

lemma coast_neutral [simp]: "neutral (motor_coast m)"
  by (simp add: neutral_def motor_coast_def motor_drive_def split_duty_def clamp_def)

text \<open>The pins are never both high, so a bridge leg is never shorted, and the PWM stays within its period.\<close>

definition pins_safe :: "l298n \<Rightarrow> bool" where
  "pins_safe m \<longleftrightarrow> \<not> (in1 m \<and> in2 m) \<and> ena_duty m \<le> ena_max m"

lemma motor_drive_safe: "pins_safe (motor_drive m duty)"
proof -
  obtain dir mag where s: "split_duty (sint duty) (ena_max m) = Some (dir, mag)" using split_duty_total by blast
  have "mag \<le> ena_max m"
  proof (cases "dir = Coast")
    case True
    then show ?thesis using s by (auto simp: split_duty_def Let_def split: option.splits if_splits)
  next
    case False
    have "\<exists>c. clamp (sint duty) (- DUTY_FULL_SCALE) DUTY_FULL_SCALE = Some c \<and> \<bar>c\<bar> \<le> 1000"
      by (simp add: clamp_def abs_le_iff)
    then obtain c where cl: "clamp (sint duty) (- DUTY_FULL_SCALE) DUTY_FULL_SCALE = Some c" and c1: "\<bar>c\<bar> \<le> 1000" by blast
    then have c2: "mag = ucast (of_int \<bar>c\<bar> * (ucast (ena_max m) :: u32) div 1000)"
      using s False by (auto simp: split_duty_def cl Let_def split: if_splits)
    note c = c1 c2
    define k where "k = nat \<bar>c\<bar>"
    have k: "k \<le> 1000" "(of_int \<bar>c\<bar> :: u32) = of_nat k" using c(1) by (simp_all add: k_def)
    have e: "unat (ena_max m) < 65536" using unsigned_less [of "ena_max m", where 'a = nat] by simp
    have up: "unat (ucast (ena_max m) :: u32) = unat (ena_max m)" using e by (simp add: unsigned_ucast_eq take_bit_eq_mod)
    have ku: "unat (of_nat k :: u32) = k" using k(1) by (simp add: unsigned_of_nat take_bit_eq_mod)
    have le: "k * unat (ena_max m) \<le> 1000 * unat (ena_max m)" using k(1) by (intro mult_right_mono) auto
    then have "k * unat (ena_max m) < 4294967296" using e by linarith
    then have "unat (of_nat k * (ucast (ena_max m) :: u32)) = k * unat (ena_max m)"
      by (simp add: unat_word_ariths up ku)
    then have d: "unat (of_nat k * (ucast (ena_max m) :: u32) div 1000) = k * unat (ena_max m) div 1000" by (simp add: unat_div)
    have "k * unat (ena_max m) div 1000 \<le> unat (ena_max m)" using le by (metis div_le_mono nonzero_mult_div_cancel_left zero_neq_numeral)
    then show ?thesis using d e unfolding c(2) k(2) by (simp add: word_le_nat_alt unsigned_ucast_eq take_bit_eq_mod)
  qed
  then show ?thesis using s by (cases dir) (simp_all add: motor_drive_def pins_safe_def)
qed

lemma l298n_new_neutral: "neutral (l298n_new p)"
  by (simp add: l298n_new_def)

section \<open>What the loop does to the watchdog and the motors\<close>

definition msgs_of :: "(link_error + msg) list \<Rightarrow> msg list" where
  "msgs_of rs = concat (map (\<lambda>r. case r of Inr m \<Rightarrow> [m] | Inl _ \<Rightarrow> []) rs)"

lemma msgs_of_simps [simp]:
  "msgs_of [] = []" "msgs_of (Inr m # rs) = m # msgs_of rs" "msgs_of (Inl e # rs) = msgs_of rs"
  "msgs_of (rs @ rs') = msgs_of rs @ msgs_of rs'" "msgs_of (map Inr ms) = ms"
  by (induction ms) (simp_all add: msgs_of_def)

lemma fw_drain_spec:
  "fw_drain n now s = s\<lparr>fw_rx := drop n (fw_rx s), fw_dec := snd (drain (fw_dec s) (take n (fw_rx s))),
     fw_wd := foldl wd_step (fw_wd s) (map (\<lambda>m. WdMsg m now) (msgs_of (fst (drain (fw_dec s) (take n (fw_rx s))))))\<rparr>"
proof (induction n arbitrary: s)
  case (Suc n)
  show ?case
  proof (cases "fw_rx s")
    case (Cons b bs)
    obtain r d where p: "dec_push (fw_dec s) b = (r, d)" by (cases "dec_push (fw_dec s) b")
    obtain rs d2 where q: "drain d (take n bs) = (rs, d2)" by (cases "drain d (take n bs)")
    show ?thesis using Cons p q
      by (cases r; cases "the r") (auto simp: Suc.IH)
  qed simp
qed simp

text \<open>The watchdog events of one iteration, and of a run, and the bytes it consumes.\<close>

definition iter_bytes :: "firmware \<Rightarrow> fw_input \<Rightarrow> u8 list" where
  "iter_bytes s i = take RX_BYTES_PER_ITERATION (fw_rx s @ fi_bytes i)"

definition iter_events :: "firmware \<Rightarrow> fw_input \<Rightarrow> wd_event list" where
  "iter_events s i = WdHardware (fi_estop i) # map (\<lambda>m. WdMsg m (fi_now i)) (msgs_of (fst (drain (fw_dec s) (iter_bytes s i))))"

abbreviation fw_exec :: "fw_config \<Rightarrow> firmware \<Rightarrow> fw_input list \<Rightarrow> firmware" where
  "fw_exec cfg \<equiv> foldl (fw_iteration cfg)"

primrec fw_events :: "fw_config \<Rightarrow> firmware \<Rightarrow> fw_input list \<Rightarrow> wd_event list" where
  "fw_events cfg s [] = []"
| "fw_events cfg s (i # is) = iter_events s i @ fw_events cfg (fw_iteration cfg s i) is"

primrec fw_consumed :: "fw_config \<Rightarrow> firmware \<Rightarrow> fw_input list \<Rightarrow> u8 list" where
  "fw_consumed cfg s [] = []"
| "fw_consumed cfg s (i # is) = iter_bytes s i @ fw_consumed cfg (fw_iteration cfg s i) is"

lemma fw_send_frame [simp]:
  "fw_wd (fw_send m s) = fw_wd s" "fw_dec (fw_send m s) = fw_dec s" "fw_rx (fw_send m s) = fw_rx s"
  "fw_left (fw_send m s) = fw_left s" "fw_right (fw_send m s) = fw_right s"
  "iterations (fw_summary (fw_send m s)) = iterations (fw_summary s)"
  by (simp_all add: fw_send_def Let_def split: sum.split prod.split)

lemma fw_report_frame [simp]:
  "fw_wd (fw_report cfg i s) = fw_wd s" "fw_dec (fw_report cfg i s) = fw_dec s" "fw_rx (fw_report cfg i s) = fw_rx s"
  "fw_left (fw_report cfg i s) = fw_left s" "fw_right (fw_report cfg i s) = fw_right s"
  "iterations (fw_summary (fw_report cfg i s)) = iterations (fw_summary s)"
  by (simp_all add: fw_report_def Let_def split: option.split)

lemma fw_actuate_frame [simp]:
  "fw_wd (fw_actuate out s) = fw_wd s" "fw_dec (fw_actuate out s) = fw_dec s" "fw_rx (fw_actuate out s) = fw_rx s"
  "iterations (fw_summary (fw_actuate out s)) = iterations (fw_summary s)"
  by (simp_all add: fw_actuate_def Let_def split: wd_output.split)

lemma fw_iteration_link:
  "fw_wd (fw_iteration cfg s i) = foldl wd_step (fw_wd s) (iter_events s i)"
  "fw_dec (fw_iteration cfg s i) = snd (drain (fw_dec s) (iter_bytes s i))"
  "iter_bytes s i @ fw_rx (fw_iteration cfg s i) = fw_rx s @ fi_bytes i"
  "iterations (fw_summary (fw_iteration cfg s i)) = iterations (fw_summary s) + 1"
  by (simp_all add: fw_iteration_def Let_def fw_drain_spec iter_events_def iter_bytes_def del: take_append drop_append)

lemma fw_iteration_motors:
  "fw_left (fw_iteration cfg s i) = (case (if fi_estop i then SafeStop else wd_output_at (fw_wd (fw_iteration cfg s i)) (fi_now i)) of
      Drive l r \<Rightarrow> motor_drive (fw_left s) l | SafeStop \<Rightarrow> motor_coast (fw_left s))"
  "fw_right (fw_iteration cfg s i) = (case (if fi_estop i then SafeStop else wd_output_at (fw_wd (fw_iteration cfg s i)) (fi_now i)) of
      Drive l r \<Rightarrow> motor_drive (fw_right s) r | SafeStop \<Rightarrow> motor_coast (fw_right s))"
  by (simp_all add: fw_iteration_def Let_def fw_drain_spec fw_actuate_def split: wd_output.split)

lemma fw_exec_wd: "fw_wd (fw_exec cfg s is) = foldl wd_step (fw_wd s) (fw_events cfg s is)"
  by (induction "is" arbitrary: s) (simp_all add: fw_iteration_link)

lemma fw_exec_dec: "fw_dec (fw_exec cfg s is) = snd (drain (fw_dec s) (fw_consumed cfg s is))"
  by (induction "is" arbitrary: s) (simp_all add: fw_iteration_link drain_append case_prod_unfold Let_def)

lemma fw_exec_rx: "fw_consumed cfg s is @ fw_rx (fw_exec cfg s is) = fw_rx s @ concat (map fi_bytes is)"
proof (induction "is" arbitrary: s)
  case (Cons i "is")
  then show ?case using fw_iteration_link(3) [of s i cfg] by simp
qed simp

primrec event_msg :: "wd_event \<Rightarrow> msg list" where
  "event_msg (WdMsg m t) = [m]"
| "event_msg (WdHardware b) = []"

text \<open>The messages the watchdog sees are those the decoder finds in the consumed bytes.\<close>

lemma fw_events_msgs:
  "concat (map event_msg (fw_events cfg s is)) = msgs_of (fst (drain (fw_dec s) (fw_consumed cfg s is)))"
proof (induction "is" arbitrary: s)
  case (Cons i "is")
  have "concat (map event_msg (iter_events s i)) = msgs_of (fst (drain (fw_dec s) (iter_bytes s i)))"
    by (simp add: iter_events_def comp_def)
  then show ?case using Cons [of "fw_iteration cfg s i"]
    by (simp add: fw_iteration_link drain_append case_prod_unfold Let_def)
qed simp

section \<open>Authority\<close>

lemma motors_need_authority:
  assumes s: "s = fw_exec cfg (firmware_new cfg l0 r0) (is @ [i])"
    and d: "\<not> (neutral (fw_left s) \<and> neutral (fw_right s))"
  shows "\<not> fi_estop i \<and> (\<exists>l r d. drive_authority (link_timeout_us cfg) (fw_events cfg (firmware_new cfg l0 r0) (is @ [i])) l r d
      \<and> fi_now i < d \<and> fw_left s = motor_drive (fw_left (fw_exec cfg (firmware_new cfg l0 r0) is)) l
      \<and> fw_right s = motor_drive (fw_right (fw_exec cfg (firmware_new cfg l0 r0) is)) r)"
proof -
  let ?s0 = "firmware_new cfg l0 r0" and ?p = "fw_exec cfg (firmware_new cfg l0 r0) is"
  have si: "s = fw_iteration cfg ?p i" using s by simp
  have w: "fw_wd s = wd_run (link_timeout_us cfg) (fw_events cfg ?s0 (is @ [i]))"
    unfolding s fw_exec_wd wd_run_def by (simp add: firmware_new_def)
  note m = fw_iteration_motors [of cfg ?p i, folded si]
  obtain l r where o: "\<not> fi_estop i" "wd_output_at (fw_wd s) (fi_now i) = Drive l r"
    using d m by (cases "fi_estop i"; cases "wd_output_at (fw_wd s) (fi_now i)") auto
  then show ?thesis using m drive_only_with_authority [of "link_timeout_us cfg" "fw_events cfg ?s0 (is @ [i])" "fi_now i" l r] w
    by fastforce
qed

text \<open>A decoded stop keeps the motors neutral until a release is decoded.\<close>

lemma latched_after_stop:
  assumes "concat (map event_msg evs) = ms1 @ Estop True # ms2" "Estop False \<notin> set ms2"
  shows "wd_estop_latched (foldl wd_step w evs)"
  using assms
proof (induction evs arbitrary: ms2 rule: rev_induct)
  case (snoc e evs)
  show ?case
  proof (cases "ms2 = [] \<and> event_msg e \<noteq> []")
    case True
    then obtain t where "e = WdMsg (Estop True) t" using snoc.prems by (cases e) auto
    then show ?thesis by (simp add: wd_on_msg_def Let_def)
  next
    case False
    have "\<exists>ms. concat (map event_msg evs) = ms1 @ Estop True # ms \<and> ms2 = ms @ event_msg e"
    proof (cases e)
      case (WdMsg m t)
      then have "ms2 \<noteq> []" using False by simp
      then obtain ms x where "ms2 = ms @ [x]" by (cases ms2 rule: rev_cases) auto
      then show ?thesis using snoc.prems WdMsg by auto
    qed (use snoc.prems in simp)
    then obtain ms where ms: "concat (map event_msg evs) = ms1 @ Estop True # ms" "ms2 = ms @ event_msg e" by blast
    then have "wd_estop_latched (foldl wd_step w evs)" "\<forall>t. e \<noteq> WdMsg (Estop False) t" using snoc.IH snoc.prems(2) by auto
    then show ?thesis using latched_step by auto
  qed
qed simp

lemma stop_keeps_neutral:
  assumes "msgs_of (fst (drain (fw_dec s) (fw_consumed cfg s (is @ [i])))) = ms1 @ Estop True # ms2" "Estop False \<notin> set ms2"
  shows "neutral (fw_left (fw_exec cfg s (is @ [i]))) \<and> neutral (fw_right (fw_exec cfg s (is @ [i])))"
proof -
  let ?p = "fw_exec cfg s is"
  have "wd_estop_latched (fw_wd (fw_exec cfg s (is @ [i])))"
    unfolding fw_exec_wd using assms fw_events_msgs [of cfg s "is @ [i]"] by (intro latched_after_stop) simp_all
  then have "wd_output_at (fw_wd (fw_iteration cfg ?p i)) (fi_now i) = SafeStop" by (simp add: wd_output_at_def)
  then show ?thesis using fw_iteration_motors [of cfg ?p i] by simp
qed

text \<open>Every received byte is consumed: 64 per iteration.\<close>

lemma fw_rx_progress:
  "\<forall>i \<in> set is. fi_bytes i = [] \<Longrightarrow> fw_rx (fw_exec cfg s is) = drop (64 * length is) (fw_rx s)"
proof (induction "is" arbitrary: s)
  case (Cons i "is")
  have "fw_rx (fw_iteration cfg s i) = drop 64 (fw_rx s)"
    using Cons.prems by (simp add: fw_iteration_def Let_def fw_drain_spec RX_BYTES_PER_ITERATION_def)
  then show ?case using Cons by (simp add: add.commute)
qed simp

text \<open>The bounded run ends after its iterations, at least one.\<close>

lemma fw_loop_bounded:
  assumes "unat n = unat (iterations (fw_summary s)) + Suc k"
  shows "fw_loop cfg (Some n) env j s = Some (fw_exec cfg s (map env [j..<j + Suc k]))"
  using assms
proof (induction k arbitrary: s j)
  case 0
  have "iterations (fw_summary (fw_iteration cfg s (env j))) = n"
    using 0 unsigned_less [of n, where 'a = nat] by (simp add: fw_iteration_link word_unat_eq_iff unat_word_ariths)
  then show ?case by (subst fw_loop.simps) (simp add: Let_def)
next
  case (Suc k)
  let ?s1 = "fw_iteration cfg s (env j)"
  have it: "unat (iterations (fw_summary ?s1)) = unat (iterations (fw_summary s)) + 1"
    using Suc.prems unsigned_less [of n, where 'a = nat] by (simp add: fw_iteration_link unat_word_ariths)
  then have "\<not> n \<le> iterations (fw_summary ?s1)" using Suc.prems by (simp add: word_le_nat_alt)
  then have "fw_loop cfg (Some n) env j s = fw_loop cfg (Some n) env (Suc j) ?s1"
    by (subst fw_loop.simps) (simp add: Let_def)
  also have "\<dots> = Some (fw_exec cfg ?s1 (map env [Suc j..<Suc j + Suc k]))"
    using Suc.prems it by (intro Suc.IH) simp
  also have "\<dots> = Some (fw_exec cfg s (map env [j..<j + Suc (Suc k)]))"
    by (subst (2) upt_conv_Cons) (simp_all del: upt_Suc)
  finally show ?case .
qed

lemma fw_run_terminates:
  "fw_run cfg (Some n) l r env =
     Some (fw_summary (fw_exec cfg (firmware_new cfg (l298n_new l) (l298n_new r)) (map env [0..<max 1 (unat n)])))"
proof (cases "unat n")
  case 0
  then have "n = 0" by (simp add: unsigned_eq_0_iff)
  then show ?thesis by (simp add: fw_run_def fw_loop.simps Let_def)
next
  case (Suc k)
  then have "fw_loop cfg (Some n) env 0 (firmware_new cfg (l298n_new l) (l298n_new r))
     = Some (fw_exec cfg (firmware_new cfg (l298n_new l) (l298n_new r)) (map env [0..<0 + Suc k]))"
    by (intro fw_loop_bounded) (simp add: firmware_new_def)
  then show ?thesis using Suc by (simp add: fw_run_def del: upt_Suc)
qed

section \<open>From the Pi to the motors\<close>

lemma drain_new: "\<exists>d'. drain decoder_new (concat (map frame_of ms)) = (map Inr ms, d')"
proof -
  have "d_state decoder_new = DIdle" by (simp add: decoder_new_def)
  then show ?thesis using drain_frames [OF _ dec_ok_new] by blast
qed

text \<open>
  A stop commanded on the Pi is on the wire after 29 polls, behind the frames that were complete when it
  was commanded and at most one more. When the firmware has consumed the wire up to and including that
  frame, its motors are neutral until a release is decoded.
\<close>

lemma stop_reaches_motors:
  assumes "link_reachable l" "list_all (\<lambda>(ws, room, now). 0 < room) polls" "29 \<le> length polls"
  shows "\<exists>sent m k pre x. k < length (frame_of m) \<and> u_wire (cl_uart l) = concat (map frame_of sent) @ take k (frame_of m)
    \<and> length pre \<le> 1
    \<and> u_wire (cl_uart (foldl poll_with (snd (command_estop l True now)) polls)) = concat (map frame_of (sent @ pre @ [Estop True])) @ x
    \<and> (\<forall>cfg l0 r0 is i d. fw_consumed cfg (firmware_new cfg l0 r0) (is @ [i]) = concat (map frame_of (sent @ pre @ [Estop True])) @ d
         \<and> Estop False \<notin> set (msgs_of (fst (drain (snd (drain decoder_new (concat (map frame_of (sent @ pre @ [Estop True]))))) d))) \<longrightarrow>
           neutral (fw_left (fw_exec cfg (firmware_new cfg l0 r0) (is @ [i]))) \<and>
           neutral (fw_right (fw_exec cfg (firmware_new cfg l0 r0) (is @ [i]))))"
proof -
  obtain base where good: "link_good False [] [] l base" using link_reachable_inv [OF assms(1)] by blast
  have pos: "0 < length (frame_of m)" for m using frame_of_length(1) [of m] by linarith
  have w0: "\<exists>m k. k < length (frame_of m) \<and> u_wire (cl_uart l) = concat (map frame_of base) @ take k (frame_of m)"
    using good pos by (fastforce simp: link_good_def tx_good_def wire_inv_def split: option.splits)
  let ?l' = "foldl poll_with (snd (command_estop l True now)) polls"
  obtain c new where c: "length c \<le> 1" and g: "link_good False [] [] ?l' (base @ new)" and st: "stop_sent base c (base @ new)"
    using stop_command_delivered [OF good assms(2,3)] by blast
  then obtain pre rest where pr: "pre \<in> {[], c}" "base @ new = base @ pre @ Estop True # rest" unfolding stop_sent_def by blast
  then have ms: "base @ new = (base @ pre) @ Estop True # rest" and pre: "length pre \<le> 1" using c by auto
  let ?w = "concat (map frame_of (base @ pre @ [Estop True]))"
  have "\<exists>tail. u_wire (cl_uart ?l') = concat (map frame_of (base @ new)) @ tail"
    using g by (auto simp: link_good_def tx_good_def wire_inv_def split: option.splits)
  then have "\<exists>x. u_wire (cl_uart ?l') = ?w @ x" unfolding ms by auto
  moreover have "neutral (fw_left (fw_exec cfg (firmware_new cfg l0 r0) (is @ [i]))) \<and>
        neutral (fw_right (fw_exec cfg (firmware_new cfg l0 r0) (is @ [i])))"
    if "fw_consumed cfg (firmware_new cfg l0 r0) (is @ [i]) = ?w @ d"
      "Estop False \<notin> set (msgs_of (fst (drain (snd (drain decoder_new ?w)) d)))" for cfg l0 r0 "is" i d
  proof -
    obtain d' where d': "drain decoder_new ?w = (map Inr (base @ pre @ [Estop True]), d')" using drain_new by blast
    have "msgs_of (fst (drain (fw_dec (firmware_new cfg l0 r0)) (?w @ d))) = (base @ pre) @ Estop True # msgs_of (fst (drain d' d))"
      using d' by (simp add: firmware_new_def drain_append case_prod_unfold Let_def del: map_append concat_append)
    then show ?thesis using that d' by (intro stop_keeps_neutral) (simp_all only: snd_conv)
  qed
  ultimately show ?thesis using w0 pre by blast
qed

end
