(* ===== verification/Fpga.thy ===== *)
theory Fpga
  imports Shrike_Codec
begin

text \<open>
  The FPGA lifecycle of the motor-controller firmware (\<open>firmware/shrike/control/src/fpga.rs\<close>): the
  fail-closed path from configuration to runtime commands, over the \<open>FpgaPlatform\<close> trait. The trait
  is a record of the platform's operations, and its contract is a locale. The platform of the board
  (\<open>firmware/shrike/rp2040/src/main.rs\<close>), which refuses every configuration step, is its instance.
\<close>

section \<open>The platform trait\<close>

record ('p, 'e) fpga_ops =
  op_force_safe :: "'p \<Rightarrow> 'p"
  op_now_us :: "'p \<Rightarrow> u64 \<times> 'p"
  op_bitstream_sha256 :: "'p \<Rightarrow> u32 \<Rightarrow> u32 \<Rightarrow> ('e + u8 list) \<times> 'p"
  op_begin_configuration :: "'p \<Rightarrow> ('e + unit) \<times> 'p"
  op_stream_bitstream :: "'p \<Rightarrow> u32 \<Rightarrow> u32 \<Rightarrow> ('e + unit) \<times> 'p"
  op_ready_status :: "'p \<Rightarrow> ('e + u8) \<times> 'p"
  op_handoff_to_runtime :: "'p \<Rightarrow> ('e + unit) \<times> 'p"
  op_runtime_transfer :: "'p \<Rightarrow> u8 list \<Rightarrow> ('e + u8) \<times> 'p"
  op_read_runtime_status :: "'p \<Rightarrow> ('e + (u8 \<times> u8)) \<times> 'p"

datatype 'e lifecycle_error =
  InvalidManifest | InvalidReadyBound | InvalidCommand | HashMismatch | ReadyTimeout | BadStatus | NotReady | Platform 'e

section \<open>Lifecycle\<close>

definition FPGA_STORAGE_START :: u32 where "FPGA_STORAGE_START = 0x10200000"
definition FPGA_STORAGE_END :: u32 where "FPGA_STORAGE_END = 0x10400000"
definition STATUS_READY :: u8 where "STATUS_READY = 0x80"
definition STATUS_COMMAND_VALID :: u8 where "STATUS_COMMAND_VALID = 0x40"

record bitstream_manifest =
  bm_offset :: u32
  bm_length :: u32
  bm_sha256 :: "u8 list"

definition manifest_valid :: "bitstream_manifest \<Rightarrow> bool" where
  "manifest_valid m \<longleftrightarrow> bm_offset m = FPGA_STORAGE_START \<and> bm_length m \<noteq> 0
     \<and> (case checked_add (bm_offset m) (bm_length m) of None \<Rightarrow> False | Some e \<Rightarrow> e \<le> FPGA_STORAGE_END)
     \<and> bm_sha256 m \<noteq> replicate 32 0"

record 'p lifecycle =
  lc_platform :: 'p
  lc_ready :: bool

definition lifecycle_new :: "('p, 'e) fpga_ops \<Rightarrow> 'p \<Rightarrow> 'p lifecycle" where
  "lifecycle_new F p = \<lparr>lc_platform = op_force_safe F p, lc_ready = False\<rparr>"

definition lifecycle_abort :: "('p, 'e) fpga_ops \<Rightarrow> 'p \<Rightarrow> 'e lifecycle_error \<Rightarrow> ('e lifecycle_error + 'a) \<times> 'p lifecycle" where
  "lifecycle_abort F p e = (Inl e, \<lparr>lc_platform = op_force_safe F p, lc_ready = False\<rparr>)"

definition fail_safe :: "('p, 'e) fpga_ops \<Rightarrow> 'p lifecycle \<Rightarrow> 'p lifecycle" where
  "fail_safe F c = \<lparr>lc_platform = op_force_safe F (lc_platform c), lc_ready = False\<rparr>"

text \<open>The loop that waits for READY; not returning is \<open>None\<close>.\<close>

partial_function (option) await_ready ::
  "('p, 'e) fpga_ops \<Rightarrow> u64 \<Rightarrow> 'p \<Rightarrow> (('e lifecycle_error + unit) \<times> 'p lifecycle) option" where
  "await_ready F deadline p =
     (case op_now_us F p of (t, p1) \<Rightarrow>
        if t \<ge> deadline then Some (lifecycle_abort F p1 ReadyTimeout)
        else (case op_ready_status F p1 of
            (Inl e, p2) \<Rightarrow> Some (lifecycle_abort F p2 (Platform e))
          | (Inr status, p2) \<Rightarrow>
              if status = 0 then await_ready F deadline p2
              else if status \<noteq> STATUS_READY then Some (lifecycle_abort F p2 BadStatus)
              else (case op_handoff_to_runtime F p2 of
                  (Inl e, p3) \<Rightarrow> Some (lifecycle_abort F p3 (Platform e))
                | (Inr _, p3) \<Rightarrow> Some (Inr (), \<lparr>lc_platform = p3, lc_ready = True\<rparr>))))"

definition configure ::
  "('p, 'e) fpga_ops \<Rightarrow> 'p lifecycle \<Rightarrow> bitstream_manifest \<Rightarrow> u64 \<Rightarrow> (('e lifecycle_error + unit) \<times> 'p lifecycle) option" where
  "configure F c m ready_timeout_us =
     (let p0 = op_force_safe F (lc_platform c); c0 = \<lparr>lc_platform = p0, lc_ready = False\<rparr>
      in if \<not> manifest_valid m then Some (Inl InvalidManifest, c0)
         else if ready_timeout_us = 0 then Some (Inl InvalidReadyBound, c0)
         else case op_bitstream_sha256 F p0 (bm_offset m) (bm_length m) of
           (Inl e, p1) \<Rightarrow> Some (lifecycle_abort F p1 (Platform e))
         | (Inr hash, p1) \<Rightarrow>
             if hash \<noteq> bm_sha256 m then Some (lifecycle_abort F p1 HashMismatch)
             else (case op_begin_configuration F p1 of
               (Inl e, p2) \<Rightarrow> Some (lifecycle_abort F p2 (Platform e))
             | (Inr _, p2) \<Rightarrow>
                 (case op_stream_bitstream F p2 (bm_offset m) (bm_length m) of
                   (Inl e, p3) \<Rightarrow> Some (lifecycle_abort F p3 (Platform e))
                 | (Inr _, p3) \<Rightarrow>
                     (case op_now_us F p3 of (t, p4) \<Rightarrow> await_ready F (saturating_add t ready_timeout_us) p4))))"

definition runtime_frame :: "u8 \<Rightarrow> i16 \<Rightarrow> i16 \<Rightarrow> u8 \<Rightarrow> u8 list" where
  "runtime_frame sq left right flags =
     (let body = [0x01, 0x01, 0x06, sq] @ le16 left @ le16 right @ [flags]
      in 0x7e # body @ le16 (crc16 body))"

definition runtime_command ::
  "('p, 'e) fpga_ops \<Rightarrow> 'p lifecycle \<Rightarrow> u8 \<Rightarrow> i16 \<Rightarrow> i16 \<Rightarrow> u8 \<Rightarrow> ('e lifecycle_error + unit) \<times> 'p lifecycle" where
  "runtime_command F c sq left right flags =
     (if \<not> lc_ready c then lifecycle_abort F (lc_platform c) NotReady
      else if \<not> (- 800 \<le> sint left \<and> sint left \<le> 800) \<or> \<not> (- 800 \<le> sint right \<and> sint right \<le> 800) \<or> flags \<noteq> 0
        then lifecycle_abort F (lc_platform c) InvalidCommand
      else case op_runtime_transfer F (lc_platform c) (runtime_frame sq left right flags) of
        (Inl e, p1) \<Rightarrow> lifecycle_abort F p1 (Platform e)
      | (Inr _, p1) \<Rightarrow>
          (case op_read_runtime_status F p1 of
             (Inl e, p2) \<Rightarrow> lifecycle_abort F p2 (Platform e)
           | (Inr (status, accepted_sequence), p2) \<Rightarrow>
               if status \<noteq> STATUS_READY OR STATUS_COMMAND_VALID \<or> accepted_sequence \<noteq> sq
               then lifecycle_abort F p2 BadStatus
               else (Inr (), c\<lparr>lc_platform := p2\<rparr>)))"

section \<open>Contract of the platform\<close>

text \<open>\<open>force_safe\<close> makes the outputs safe. Everything the lifecycle promises follows from that alone.\<close>

locale fpga_platform =
  fixes F :: "('p, 'e) fpga_ops" and safe :: "'p \<Rightarrow> bool"
  assumes force_safe: "safe (op_force_safe F p)"
begin

definition closed :: "'p lifecycle \<Rightarrow> bool" where
  "closed c \<longleftrightarrow> lc_ready c \<or> safe (lc_platform c)"

lemma new_closed: "closed (lifecycle_new F p)"
  by (simp add: closed_def lifecycle_new_def force_safe)

lemma abort_safe: "lifecycle_abort F p e = (r, c) \<Longrightarrow> r = Inl e \<and> \<not> lc_ready c \<and> safe (lc_platform c)"
  by (auto simp: lifecycle_abort_def force_safe)

lemma await_closed:
  assumes "await_ready G deadline p = Some y"
  shows "G = F \<longrightarrow> isl (fst y) \<longrightarrow> \<not> lc_ready (snd y) \<and> safe (lc_platform (snd y))"
proof (rule await_ready.raw_induct [where P = "\<lambda>G _ _ y. G = F \<longrightarrow> isl (fst y) \<longrightarrow> \<not> lc_ready (snd y) \<and> safe (lc_platform (snd y))",
      OF _ assms], goal_cases)
  case (1 await G deadline p y)
  then show ?case by (auto simp: force_safe lifecycle_abort_def split: prod.splits sum.splits if_splits)
qed

lemma await_safe: "await_ready F deadline p = Some (Inl e, c) \<Longrightarrow> \<not> lc_ready c \<and> safe (lc_platform c)"
  using await_closed by fastforce

lemma configure_error_safe:
  "configure F c m timeout = Some (Inl e, c') \<Longrightarrow> \<not> lc_ready c' \<and> safe (lc_platform c')"
  using await_safe
  by (auto simp: configure_def Let_def force_safe lifecycle_abort_def split: if_splits prod.splits sum.splits)

lemma command_error_safe:
  "runtime_command F c sq l r flags = (Inl e, c') \<Longrightarrow> \<not> lc_ready c' \<and> safe (lc_platform c')"
  by (auto simp: runtime_command_def force_safe lifecycle_abort_def split: if_splits prod.splits sum.splits)

end

text \<open>Success means what it should: the stored image was hashed, and the command accepted was in range.\<close>

lemma configure_ok:
  assumes "configure F c m timeout = Some (Inr x, c')"
  shows "manifest_valid m \<and> timeout \<noteq> 0
    \<and> fst (op_bitstream_sha256 F (op_force_safe F (lc_platform c)) (bm_offset m) (bm_length m)) = Inr (bm_sha256 m)"
  using assms by (auto simp: configure_def Let_def lifecycle_abort_def split: if_splits prod.splits sum.splits)

lemma runtime_command_ok:
  assumes "runtime_command F c sq left right flags = (Inr x, c')"
  shows "lc_ready c \<and> lc_ready c' \<and> \<bar>sint left\<bar> \<le> 800 \<and> \<bar>sint right\<bar> \<le> 800 \<and> flags = 0"
  using assms by (auto simp: runtime_command_def lifecycle_abort_def split: if_splits prod.splits sum.splits)

text \<open>The wait for READY ends when the clock advances.\<close>

lemma await_ready_returns:
  assumes tick: "\<And>p t p'. op_now_us F p = (t, p') \<Longrightarrow> unat t = \<tau> p' \<and> (\<tau> p < \<tau> p' \<or> \<tau> p' = 2 ^ 64 - 1)"
    and keep: "\<And>p x p'. op_ready_status F p = (x, p') \<Longrightarrow> \<tau> p \<le> \<tau> p'"
  shows "\<exists>r. await_ready F deadline p = Some r"
proof (induction "2 ^ 64 - \<tau> p" arbitrary: p rule: less_induct)
  case less
  obtain t p1 where t: "op_now_us F p = (t, p1)" by (cases "op_now_us F p")
  show ?case
  proof (cases "t \<ge> deadline")
    case True
    then show ?thesis by (simp add: await_ready.simps t)
  next
    case False
    obtain st p2 where s: "op_ready_status F p1 = (st, p2)" by (cases "op_ready_status F p1")
    show ?thesis
    proof (cases "st = Inr 0")
      case True
      have "unat t < unat deadline" using False by (simp add: word_less_nat_alt not_le)
      moreover have "unat deadline < 2 ^ 64" using unsigned_less [of deadline, where 'a = nat] by simp
      ultimately have "\<tau> p1 < 2 ^ 64 - 1" "\<tau> p < \<tau> p1" using tick [OF t] by auto
      then have "2 ^ 64 - \<tau> p2 < 2 ^ 64 - \<tau> p" using keep [OF s] by simp
      from less [OF this] show ?thesis using False t s True by (simp add: await_ready.simps [of F deadline p])
    next
      case ne: False
      then show ?thesis using False t s
        by (cases st) (auto simp: await_ready.simps [of F deadline p] split: prod.splits sum.splits)
    qed
  qed
qed

text \<open>A command frame is a frame of the link's checksum.\<close>

lemma runtime_frame_length: "length (runtime_frame sq left right flags) = 12"
  by (simp add: runtime_frame_def Let_def le16_def)

section \<open>The board\<close>

record r04 =
  r04_pwr :: bool
  r04_en :: bool
  r04_cs :: bool
  r04_left :: u16
  r04_right :: u16
  r04_timer :: "nat \<Rightarrow> u64"
  r04_reads :: nat

datatype configuration_unavailable = MissingValidatedArtifact

definition r04_force_safe :: "r04 \<Rightarrow> r04" where
  "r04_force_safe p = p\<lparr>r04_left := 0, r04_right := 0, r04_en := False, r04_pwr := False, r04_cs := True\<rparr>"

text \<open>The timer is an input: the sample each read gives.\<close>

definition r04_now_us :: "r04 \<Rightarrow> u64 \<times> r04" where
  "r04_now_us p = (r04_timer p (r04_reads p), p\<lparr>r04_reads := r04_reads p + 1\<rparr>)"

definition r04_ops :: "(r04, configuration_unavailable) fpga_ops" where
  "r04_ops = \<lparr>op_force_safe = r04_force_safe, op_now_us = r04_now_us,
     op_bitstream_sha256 = (\<lambda>p _ _. (Inl MissingValidatedArtifact, p)),
     op_begin_configuration = (\<lambda>p. (Inl MissingValidatedArtifact, p)),
     op_stream_bitstream = (\<lambda>p _ _. (Inl MissingValidatedArtifact, p)),
     op_ready_status = (\<lambda>p. (Inl MissingValidatedArtifact, p)),
     op_handoff_to_runtime = (\<lambda>p. (Inl MissingValidatedArtifact, p)),
     op_runtime_transfer = (\<lambda>p _. (Inl MissingValidatedArtifact, p)),
     op_read_runtime_status = (\<lambda>p. (Inl MissingValidatedArtifact, p))\<rparr>"

definition r04_main :: "r04 \<Rightarrow> r04 lifecycle" where
  "r04_main p = fail_safe r04_ops (lifecycle_new r04_ops p)"

definition r04_safe :: "r04 \<Rightarrow> bool" where
  "r04_safe p \<longleftrightarrow> r04_left p = 0 \<and> r04_right p = 0 \<and> \<not> r04_en p \<and> \<not> r04_pwr p \<and> r04_cs p"

interpretation board: fpga_platform r04_ops r04_safe
  by unfold_locales (simp add: r04_ops_def r04_force_safe_def r04_safe_def)

text \<open>On this board no configuration succeeds, and the outputs stay safe throughout.\<close>

lemma r04_never_configures:
  "\<exists>e c'. configure r04_ops c m timeout = Some (Inl e, c') \<and> \<not> lc_ready c' \<and> r04_safe (lc_platform c')"
proof -
  have "\<exists>e c'. configure r04_ops c m timeout = Some (Inl e, c')"
    by (simp add: configure_def Let_def r04_ops_def lifecycle_abort_def)
  then show ?thesis using board.configure_error_safe by blast
qed

end
