(* ===== verification/Motion_Examples.thy ===== *)
theory Motion_Examples
  imports Seam_Safety Firmware Fpga
begin

text \<open>Concrete states of the motion path, on which the properties of the root theory are evaluated.\<close>

definition idle_uart :: pl011 where "idle_uart = \<lparr>u_rx = [], u_room = 16, u_wire = []\<rparr>"

definition fresh_link :: control_link where "fresh_link = control_link_new idle_uart 0"

lemma fresh_link_reachable: "link_reachable fresh_link"
  unfolding link_reachable_def fresh_link_def by (intro exI [of _ idle_uart] exI [of _ 0]) (simp add: idle_uart_def)

definition boot_seam :: seam where
  "boot_seam = \<lparr>s_monitor = monitor_new EmbeddedProfile, s_link = Some fresh_link, s_ctl = (\<lambda>_ _. 0),
     s_pwm = (\<lambda>_ _. 0), s_gpio = (\<lambda>_. False)\<rparr>"

lemma boot_seam_init: "seam_init EmbeddedProfile boot_seam"
  by (simp add: seam_init_def boot_seam_def fresh_link_reachable)

lemma reachable_boot: "seam_reachable EmbeddedProfile boot_seam"
  using boot_seam_init by (auto simp: seam_reachable_def)

lemma reachable_step: "seam_reachable P s \<Longrightarrow> seam_step P s rel s' \<Longrightarrow> seam_reachable P s'"
  unfolding seam_reachable_def
proof (elim exE conjE)
  fix s0
  assume "seam_step P s rel s'" "seam_init P s0" "(\<lambda>a b. \<exists>rel. seam_step P a rel b)\<^sup>*\<^sup>* s0 s"
  then show "\<exists>s0. seam_init P s0 \<and> (\<lambda>a b. \<exists>rel. seam_step P a rel b)\<^sup>*\<^sup>* s0 s'"
    by (intro exI [of _ s0] conjI rtranclp.rtrancl_into_rtrancl [of _ s0 s s']) auto
qed

section \<open>A frequency change inside the rate window\<close>

text \<open>
  An unlatched seam whose local channels on controller 1 stand at \<open>st c\<close>: the frame in which the
  calls of the scenario are followed.
\<close>

definition local_pwm :: "seam \<Rightarrow> (u8 \<Rightarrow> channel_state) \<Rightarrow> bool" where
  "local_pwm s st \<longleftrightarrow> seam_reachable EmbeddedProfile s \<and> \<not> latched (s_monitor s)
     \<and> mon_envelope_cache (s_monitor s) = cache_from_profile EmbeddedProfile
     \<and> (\<forall>c \<in> {1, 2}. get_slot (s_monitor s) (pwm_channel 1 c) = Some (st c) \<and> \<not> cs_safe_hold (st c))"

lemma local_pwm_boot: "local_pwm boot_seam (\<lambda>_. CHANNEL_DEFAULT)"
proof -
  have "get_slot (monitor_new EmbeddedProfile) (pwm_channel 1 c) = Some CHANNEL_DEFAULT" if "c \<in> {1, 2}" for c
    using that by (auto simp: get_slot_def slot_index_def monitor_new_def)
  then show ?thesis using reachable_boot
    by (auto simp: local_pwm_def boot_seam_def CHANNEL_DEFAULT_def monitor_new_def)
qed

lemma local_pwmD:
  assumes "local_pwm s st" "c \<in> {1, 2}"
  shows "get_slot (s_monitor s) (pwm_channel 1 c) = Some (st c)" "\<not> cs_safe_hold (st c)"
  using assms unfolding local_pwm_def by blast+

lemma local_entry:
  assumes "mon_envelope_cache m = cache_from_profile EmbeddedProfile" "c \<in> {1, 2}"
  shows "\<exists>e. mon_envelope_entry m (pwm_channel 1 c) = Some e \<and> required_authority e = Learned"
  using assms by (auto simp: mon_envelope_entry_def cache_get_def envelope_channel_index_def slot_index_def
      cache_from_profile_def Let_def from_envelope_def required_authority_def nth_append
      from_envelope_code_def)

lemma local_guard:
  assumes s: "local_pwm s st" and c: "c \<in> {1, 2}"
  shows "\<exists>v r s'. guard_pwm_with s 1 c duty Operator SrcSyscallPwm now = Some (0, s')
     \<and> local_pwm s' (st(c := (st c)\<lparr>cs_last_output := v, cs_last_update_ns := now\<rparr>))
     \<and> set_duty_cycle (s_ctl s 1) c v = Some r \<and> s_ctl s' = (s_ctl s)(1 := r)
     \<and> (saturating_sub now (cs_last_update_ns (st c)) < 1000000 \<longrightarrow> \<bar>uint v - uint (cs_last_output (st c))\<bar> \<le> 20)
     \<and> (duty \<le> 90 \<and> 1000000 \<le> saturating_sub now (cs_last_update_ns (st c)) \<longrightarrow> v = duty)"
proof -
  let ?req = "\<lparr>req_ch = pwm_channel 1 c, req_value = duty\<rparr>" and ?m = "s_monitor s"
  have ok: "monitor_ok EmbeddedProfile ?m" using s seam_reachable_ok seam_okD(1) by (auto simp: local_pwm_def)
  have slot: "slot_index (req_ch ?req) \<noteq> None" using c pwm_slot_iff [of 1 c] by auto
  have st: "get_slot ?m (req_ch ?req) = Some (st c)" using local_pwmD [OF s c] by simp
  obtain e where e: "mon_envelope_entry ?m (pwm_channel 1 c) = Some e" "required_authority e = Learned"
    using local_entry s c by (auto simp: local_pwm_def)
  obtain d where spec: "decision_spec EmbeddedProfile ?m ?req Operator now d"
    and d: "decide ?m ?req Operator SrcSyscallPwm now = Some (d, audit_decision (set_slot (register_channel ?m (req_ch ?req) 0) (req_ch ?req)
           ((st c)\<lparr>cs_last_output := fst (decision_apply d), cs_last_update_ns := now\<rparr>)) ?req Operator SrcSyscallPwm now d)"
    by (rule decide_known [OF ok slot st, where a = Operator and now = now and src = SrcSyscallPwm]) blast
  let ?v = "fst (decision_apply d)"
  have hold: "\<not> Operator < required_authority e" "\<not> latched ?m" "\<not> cs_safe_hold (st c)"
    using s local_pwmD [OF s c] e(2) by (auto simp: local_pwm_def less_authority_def)
  have P: "envelope_from_profile EmbeddedProfile PwmDuty = \<lparr>env_min = 0, env_max = 90, env_max_step = 20, env_window_ns = 1000000\<rparr>"
    by (simp add: EmbeddedProfile_def)
  have v: "d \<in> {Allow ?v, Clamp ?v}"
    "saturating_sub now (cs_last_update_ns (st c)) < 1000000 \<longrightarrow> \<bar>uint ?v - uint (cs_last_output (st c))\<bar> \<le> 20"
    "duty \<le> 90 \<and> 1000000 \<le> saturating_sub now (cs_last_update_ns (st c)) \<longrightarrow> ?v = duty"
    using spec e(1) st hold by (auto simp: decision_spec_def Let_def P simp del: envelope_from_profile.simps split: if_splits)
  let ?m' = "audit_decision (set_slot (register_channel ?m (pwm_channel 1 c) 0) (pwm_channel 1 c)
           ((st c)\<lparr>cs_last_output := ?v, cs_last_update_ns := now\<rparr>)) ?req Operator SrcSyscallPwm now d"
  obtain r where r: "set_duty_cycle (s_ctl s 1) c ?v = Some r"
    "apply_pwm_value (s\<lparr>s_monitor := ?m'\<rparr>) 1 c ?v = s\<lparr>s_monitor := ?m', s_ctl := (s_ctl s)(1 := r), s_pwm := (s_pwm s)(1 := (s_pwm s 1)(c := ?v))\<rparr>"
    using apply_pwm_cases [of 1 c "s\<lparr>s_monitor := ?m'\<rparr>" ?v] slot by auto
  let ?s' = "s\<lparr>s_monitor := ?m', s_ctl := (s_ctl s)(1 := r), s_pwm := (s_pwm s)(1 := (s_pwm s 1)(c := ?v))\<rparr>"
  have code: "snd (decision_apply d) = 0" using v(1) by (cases d) auto
  have g: "guard_pwm_with s 1 c duty Operator SrcSyscallPwm now = Some (0, ?s')"
    using d r(2) code c by (simp add: guard_pwm_with_def is_motor_channel_def motor_side_def guard_pwm_value_with_def Let_def case_prod_unfold)
  have reach: "seam_reachable EmbeddedProfile ?s'" using s g reachable_step [OF _ ss_pwm] unfolding local_pwm_def by blast
  have shape: "monitor_shape (register_channel ?m (pwm_channel 1 c) 0)" using monitor_okD(1) [OF monitor_ok_register [OF ok]] .
  have slots: "get_slot ?m' (pwm_channel 1 c') = Some ((st(c := (st c)\<lparr>cs_last_output := ?v, cs_last_update_ns := now\<rparr>)) c')"
    if "c' \<in> {1, 2}" for c'
    using local_pwmD [OF s that] slot by (simp add: get_set_slot [OF shape])
  have "local_pwm ?s' (st(c := (st c)\<lparr>cs_last_output := ?v, cs_last_update_ns := now\<rparr>))"
    using reach s slots hold(3) unfolding local_pwm_def by simp
  then show ?thesis using g r(1) v(2,3) by (intro exI [of _ ?v] exI [of _ r] exI [of _ ?s']) auto
qed

lemma set_duty_enabled: "set_duty_cycle r c v = Some r' \<Longrightarrow> enabled r c' \<Longrightarrow> enabled r' c'"
  by (auto simp: set_duty_cycle_def Let_def pwm_commit_def bit_simps split: if_splits)

lemma frequency_regs:
  assumes "set_frequency r c f = Some r'" "f \<noteq> 0"
  shows "range_reg r' c = 50000000 div f" "c' \<noteq> c \<Longrightarrow> range_reg r' c' = range_reg r c'" "duty_reg r' c' = duty_reg r c'"
    "enabled r c' \<Longrightarrow> enabled r' c'"
  using assms by (auto simp: set_frequency_def pwm_set_range_def pwm_commit_def RP1_PWM_CLOCK_HZ_def bit_simps split: if_splits)

lemma local_pwm_regs:
  "local_pwm s st \<Longrightarrow> seam_reachable EmbeddedProfile (s\<lparr>s_ctl := x\<rparr>) \<Longrightarrow> local_pwm (s\<lparr>s_ctl := x\<rparr>) st"
  by (simp add: local_pwm_def)

lemma guard_zero_1:
  "guard_pwm_zero s (Suc 0) (Suc 0) now = guard_pwm_with s 1 1 0 Operator SrcSyscallPwm now"
  "guard_pwm_zero s (Suc 0) 2 now = guard_pwm_with s 1 2 0 Operator SrcSyscallPwm now"
  by (auto simp: guard_pwm_zero_def valid_pwm_id_def valid_pwm_channel_def)

lemma local_config:
  assumes s: "local_pwm s st" and f: "(ucast f :: u32) \<noteq> 0"
  shows "\<exists>(v :: u32) s' st'. sys_pwm_config s 1 f now now = Some (0, s') \<and> local_pwm s' st'
     \<and> cs_last_update_ns (st' 1) = now \<and> (enabled (s_ctl s 1) 1 \<longrightarrow> enabled (s_ctl s' 1) 1)
     \<and> range_reg (s_ctl s' 1) 1 = 50000000 div ucast f
     \<and> unat (duty_reg (s_ctl s' 1) 1) = unat (range_reg (s_ctl s 1) 1) * min (unat v) 100 div 100
     \<and> (saturating_sub now (cs_last_update_ns (st 1)) < 1000000 \<longrightarrow> \<bar>uint v - uint (cs_last_output (st 1))\<bar> \<le> 20)"
proof -
  have f0: "f \<noteq> 0" using f by auto
  obtain v1 r1 s1 where g1: "guard_pwm_with s 1 1 0 Operator SrcSyscallPwm now = Some (0, s1)"
      "local_pwm s1 (st(1 := (st 1)\<lparr>cs_last_output := v1, cs_last_update_ns := now\<rparr>))"
      "set_duty_cycle (s_ctl s 1) 1 v1 = Some r1" "s_ctl s1 = (s_ctl s)(1 := r1)"
    and w: "saturating_sub now (cs_last_update_ns (st 1)) < 1000000 \<longrightarrow> \<bar>uint v1 - uint (cs_last_output (st 1))\<bar> \<le> 20"
    using local_guard [OF s, of 1 0 now] by auto
  obtain v2 r2 s2 st2 where g2: "guard_pwm_with s1 1 2 0 Operator SrcSyscallPwm now = Some (0, s2)" "local_pwm s2 st2"
      "st2 1 = (st 1)\<lparr>cs_last_output := v1, cs_last_update_ns := now\<rparr>"
      "set_duty_cycle r1 2 v2 = Some r2" "s_ctl s2 = (s_ctl s1)(1 := r2)"
    using local_guard [OF g1(2), of 2 0 now] g1(4) by auto
  obtain r3 r4 where r: "set_frequency r2 1 (ucast f) = Some r3" "set_frequency r3 2 (ucast f) = Some r4"
    using set_frequency_frame pwm_valid_12 by metis
  let ?s' = "s2\<lparr>s_ctl := (s_ctl s2)(1 := r4)\<rparr>"
  have run: "sys_pwm_config s 1 f now now = Some (0, ?s')"
    using f0 g1 g2 r by (simp add: sys_pwm_config_def valid_pwm_id_def guard_zero_1)
  then have "seam_reachable EmbeddedProfile ?s'" using s reachable_step [OF _ ss_config] unfolding local_pwm_def by blast
  then have "local_pwm ?s' st2" by (rule local_pwm_regs [OF g2(2)])
  moreover have "range_reg r4 1 = 50000000 div ucast f" using frequency_regs [OF r(1) f] frequency_regs [OF r(2) f] by simp
  moreover have "duty_reg r4 1 = duty_reg r1 1"
    using frequency_regs(3) [OF r(1) f] frequency_regs(3) [OF r(2) f] set_duty_cycle_spec(2) [OF g2(4), of 1] by simp
  moreover have "enabled (s_ctl s 1) 1 \<longrightarrow> enabled r4 1"
    using frequency_regs(4) [OF r(1) f] frequency_regs(4) [OF r(2) f] set_duty_enabled [OF g1(3)] set_duty_enabled [OF g2(4)] by blast
  ultimately show ?thesis using run w g2(3) set_duty_cycle_spec(1) [OF g1(3)]
    by (intro exI [of _ v1] exI [of _ ?s'] exI [of _ st2]) simp
qed

text \<open>Configure 1 kHz, enable, write 90 per cent, and one nanosecond later configure 10 kHz.\<close>

lemma duty_above_period:
  "\<exists>s. seam_reachable EmbeddedProfile s \<and> enabled (s_ctl s 1) 1 \<and> range_reg (s_ctl s 1) 1 < duty_reg (s_ctl s 1) 1"
proof -
  obtain s1 st1 where s1: "local_pwm s1 st1" "range_reg (s_ctl s1 1) 1 = 50000"
    using local_config [OF local_pwm_boot, of 1000 2000000] by auto
  obtain v r2 s2 st2 where g2: "guard_pwm_with s1 1 1 0 Operator SrcSyscallPwm 4000000 = Some (0, s2)" "local_pwm s2 st2"
      "cs_last_update_ns (st2 1) = 4000000" "set_duty_cycle (s_ctl s1 1) 1 v = Some r2" "s_ctl s2 = (s_ctl s1)(1 := r2)"
    using local_guard [OF s1(1), of 1 0 4000000] by auto
  obtain r3 where r3: "pwm_enable r2 1 = Some r3" "enabled r3 1" "range_reg r3 1 = 50000"
    using set_duty_cycle_spec(3) [OF g2(4), of 1] s1(2) pwm_valid_12(1)
    by (auto simp: pwm_enable_def Let_def chan_enable_def pwm_hw_def bit_simps)
  let ?s3 = "s2\<lparr>s_ctl := (s_ctl s2)(1 := r3)\<rparr>"
  have "sys_pwm_enable s1 1 1 1 4000000 = Some (0, ?s3)"
    using g2 r3(1) by (simp add: sys_pwm_enable_def valid_pwm_id_def valid_pwm_channel_def guard_zero_1)
  then have "seam_reachable EmbeddedProfile ?s3" using s1(1) reachable_step [OF _ ss_enable] unfolding local_pwm_def by blast
  then have s3: "local_pwm ?s3 st2" by (rule local_pwm_regs [OF g2(2)])
  obtain r4 s4 st4 where s4: "local_pwm s4 st4" "cs_last_update_ns (st4 1) = 6000000" "cs_last_output (st4 1) = 90"
      "set_duty_cycle r3 1 90 = Some r4" "s_ctl s4 = (s_ctl ?s3)(1 := r4)"
    using local_guard [OF s3, of 1 90 6000000] g2(3) by (auto simp: saturating_sub_def)
  have r4: "range_reg (s_ctl s4 1) 1 = 50000" "enabled (s_ctl s4 1) 1"
    using set_duty_cycle_spec(3) [OF s4(4), of 1] set_duty_enabled [OF s4(4)] r3 s4(5) by simp_all
  obtain v5 :: u32 and s5 st5 where s5: "local_pwm s5 st5" "enabled (s_ctl s5 1) 1" "range_reg (s_ctl s5 1) 1 = 5000"
      "unat (duty_reg (s_ctl s5 1) 1) = 50000 * min (unat v5) 100 div 100" "\<bar>uint v5 - 90\<bar> \<le> 20"
    using local_config [OF s4(1), of 10000 6000001] r4 s4(2,3) by (auto simp: saturating_sub_def)
  have "70 \<le> unat v5" using s5(5) unfolding uint_nat by linarith
  then have "(5000 :: nat) < 50000 * min (unat v5) 100 div 100" by linarith
  then have "range_reg (s_ctl s5 1) 1 < duty_reg (s_ctl s5 1) 1" using s5(3,4) by (simp add: word_less_nat_alt)
  then show ?thesis using s5 unfolding local_pwm_def by blast
qed

section \<open>A first motor command\<close>

lemma fresh_not_refused: "\<not> pair_refused (monitor_new EmbeddedProfile) Operator"
  by (auto simp: pair_refused_def monitor_new_def held_def snapshot_channel_state_def get_slot_def slot_index_def LEFT_CH_def RIGHT_CH_def CHANNEL_DEFAULT_def
      mon_envelope_entry_def cache_get_def envelope_channel_index_def cache_from_profile_def Let_def from_envelope_def
      required_authority_def from_envelope_code_def nth_append less_authority_def split: if_splits)

lemma fresh_command:
  "\<exists>d m'. motor_run (monitor_new EmbeddedProfile) [(500, - 500, Operator, SrcMission, 5)] = Some ([d], m') \<and> moves d"
proof -
  obtain d m' where d: "decide_motor_pair (monitor_new EmbeddedProfile) 500 (- 500) Operator SrcMission 5 = Some (d, m')"
    "pair_spec EmbeddedProfile (monitor_new EmbeddedProfile) 500 (- 500) Operator 5 d (motor_pair m')"
    using decide_motor_pair_ok [OF monitor_ok_new] by metis
  then have "moves d" using fresh_not_refused by (auto simp: pair_spec_def moves_def Let_def)
  then show ?thesis using d(1) by simp
qed

end
