(* ===== verification/Map_Types.thy ===== *)
theory Map_Types
  imports Profile Rust_Std Interpreter "HOL-Library.Monad_Syntax"
begin

text \<open>
  The vocabulary of the BPF maps (\<open>maps/mod.rs\<close>): map types, definitions and errors, and the byte
  buffers the implementations are built on. A slice or an index out of range panics, which is \<open>None\<close>;
  an operation of a map is therefore an \<open>option\<close>, and that it never panics is part of what is shown of
  it. The trait \<open>BpfMap\<close>, as far as the keyed maps implement it, is the locale \<open>keyed_map\<close>.
\<close>

section \<open>Bytes\<close>

type_synonym bytes = "u8 list"

text \<open>\<open>u32::from_ne_bytes\<close> and \<open>u64::from_ne_bytes\<close> on the little-endian targets, and their inverses.\<close>

definition u32_from_bytes :: "bytes \<Rightarrow> u32" where
  "u32_from_bytes bs = ucast (le_value bs)"

definition u32_to_bytes :: "u32 \<Rightarrow> bytes" where
  "u32_to_bytes v = le_bytes 4 (ucast v)"

lemma u32_from_to_bytes [simp]: "u32_from_bytes (u32_to_bytes v) = v"
  by (simp add: u32_from_bytes_def u32_to_bytes_def le_value_le_bytes)
     (simp add: bit_eq_iff bit_ucast_iff bit_take_bit_iff)

lemma length_u32_to_bytes [simp]: "length (u32_to_bytes v) = 4"
  by (simp add: u32_to_bytes_def)

lemma u32_to_from_bytes:
  assumes "length bs = 4"
  shows "u32_to_bytes (u32_from_bytes bs) = bs"
proof (rule nth_equalityI)
  fix i assume "i < length (u32_to_bytes (u32_from_bytes bs))"
  then have i: "i < 4" by simp
  show "u32_to_bytes (u32_from_bytes bs) ! i = bs ! i"
  proof (rule bit_word_eqI)
    fix n assume n: "n < LENGTH(8)"
    then have "(8 * i + n) div 8 = i" "(8 * i + n) mod 8 = n" "8 * i + n < 32" using i by auto
    then show "bit (u32_to_bytes (u32_from_bytes bs) ! i) n \<longleftrightarrow> bit (bs ! i) n"
      using i n assms
      by (simp add: u32_to_bytes_def u32_from_bytes_def le_bytes_def bit_ucast_iff bit_drop_bit_eq bit_le_value
          add.commute)
  qed
qed (simp add: assms)

lemma u32_from_bytes_inj: "length a = 4 \<Longrightarrow> length b = 4 \<Longrightarrow> u32_from_bytes a = u32_from_bytes b \<Longrightarrow> a = b"
  by (metis u32_to_from_bytes)

section \<open>Types, definitions and errors\<close>

text \<open>The three LRU and trie variants exist in the cloud build only.\<close>

datatype map_type = MtUnspec | MtHash | MtArray | MtProgArray | MtPerfEventArray | MtPerCpuHash
  | MtPerCpuArray | MtStackTrace | MtCgroupArray | MtLruHash | MtLruPerCpuHash | MtLpmTrie
  | MtRingBuf | MtTimeSeries

record map_def =
  map_type_of :: map_type
  def_key_size :: u32
  def_value_size :: u32
  def_max_entries :: u32
  def_flags :: u32

definition map_def_new :: "map_type \<Rightarrow> u32 \<Rightarrow> u32 \<Rightarrow> u32 \<Rightarrow> map_def" where
  "map_def_new t k v n = \<lparr>map_type_of = t, def_key_size = k, def_value_size = v, def_max_entries = n, def_flags = 0\<rparr>"

definition checked_total_size :: "map_def \<Rightarrow> nat option" where
  "checked_total_size d = do {
     entry_size \<leftarrow> checked_add_usize (unat (def_key_size d)) (unat (def_value_size d));
     checked_mul_usize entry_size (unat (def_max_entries d)) }"

datatype map_error = KeyNotFound | KeyExists | MapFull | InvalidKey | InvalidValue | MapOutOfMemory
  | InvalidMapType | NotSupported | ResizeNotAllowed

text \<open>
  The heap is the only outside party: \<open>try_reserve_exact\<close> may refuse a reservation. A test of the
  allocator is the predicate \<open>reserve\<close> on the number of bytes.
\<close>

type_synonym reservation = "nat \<Rightarrow> map_error + unit"

definition try_reserve_exact :: "(nat \<Rightarrow> bool) \<Rightarrow> reservation" where
  "try_reserve_exact heap n = (if heap n then Inr () else Inl MapOutOfMemory)"

text \<open>The check of the memory budget, which is compiled in the embedded profile only.\<close>

definition budget_check :: "profile \<Rightarrow> nat option \<Rightarrow> map_error + unit" where
  "budget_check P sz =
     (if \<not> embedded_feature P then Inr ()
      else res_bind (ok_or sz MapOutOfMemory) (\<lambda>total_size.
        if MEMORY_BUDGET P > 0 \<and> total_size > MEMORY_BUDGET P then Inl MapOutOfMemory else Inr ()))"

lemma u32_product_fits: "checked_mul_usize (unat (a :: u32)) (unat (b :: u32)) = Some (unat a * unat b)"
proof -
  have "unat a < 2 ^ 32" "unat b < 2 ^ 32"
    using unsigned_less [of a, where 'a = nat] unsigned_less [of b, where 'a = nat] by simp_all
  then have "unat a * unat b < 2 ^ 32 * 2 ^ 32" by (intro mult_strict_mono) simp_all
  then show ?thesis by (simp add: checked_mul_usize_def usize_MAX_def)
qed

section \<open>The keyed maps\<close>

text \<open>
  What a client of \<open>MapHandle\<close> relies on. \<open>contents\<close> is the finite map a state stands for. A refused
  update returns an error and leaves the map as it was, so a state is returned with success only.
\<close>

type_synonym map_write = "bytes \<times> bytes \<times> u64"

locale keyed_map =
  fixes inv :: "'s \<Rightarrow> bool"
    and contents :: "'s \<Rightarrow> bytes \<rightharpoonup> bytes"
    and lookup :: "'s \<Rightarrow> bytes \<Rightarrow> bytes option option"
    and update :: "'s \<Rightarrow> bytes \<Rightarrow> bytes \<Rightarrow> u64 \<Rightarrow> (map_error + 's) option"
  assumes lookup_contents: "inv s \<Longrightarrow> lookup s k = Some (contents s k)"
    and update_returns: "inv s \<Longrightarrow> \<exists>r. update s k v fl = Some r"
    and update_contents: "inv s \<Longrightarrow> update s k v fl = Some (Inr s') \<Longrightarrow> inv s' \<and> contents s' = (contents s)(k \<mapsto> v)"
begin

text \<open>A sequence of writes, each of which may be refused.\<close>

primrec writes :: "'s \<Rightarrow> map_write list \<Rightarrow> 's option" where
  "writes s [] = Some s"
| "writes s (w # ws) = (case update s (fst w) (fst (snd w)) (snd (snd w)) of
     None \<Rightarrow> None | Some (Inl e) \<Rightarrow> writes s ws | Some (Inr s') \<Rightarrow> writes s' ws)"

lemma writes_return:
  "inv s \<Longrightarrow> \<exists>s'. writes s ws = Some s' \<and> inv s' \<and> (\<forall>k. k \<notin> fst ` set ws \<longrightarrow> contents s' k = contents s k)"
proof (induction ws arbitrary: s)
  case (Cons w ws)
  obtain k v fl where w: "w = (k, v, fl)" by (cases w)
  obtain r where r: "update s k v fl = Some r" using update_returns [OF Cons.prems] by blast
  show ?case
  proof (cases r)
    case (Inl e)
    then show ?thesis using Cons.IH [OF Cons.prems] r w by auto
  next
    case (Inr s1)
    then have "inv s1" "contents s1 = (contents s)(k \<mapsto> v)" using update_contents [OF Cons.prems] r by auto
    then show ?thesis using Cons.IH [of s1] r w Inr by fastforce
  qed
qed simp

text \<open>What was written is read back, whatever happens to the other keys in between.\<close>

lemma read_last_write:
  assumes "inv s" "update s k v fl = Some (Inr s1)" "k \<notin> fst ` set ws"
  shows "\<exists>s'. writes s1 ws = Some s' \<and> inv s' \<and> lookup s' k = Some (Some v)"
proof -
  have s1: "inv s1" "contents s1 k = Some v" using update_contents [OF assms(1,2)] by auto
  then obtain s' where "writes s1 ws = Some s'" "inv s'" "contents s' k = Some v"
    using writes_return [OF s1(1), of ws] assms(3) by auto
  then show ?thesis by (simp add: lookup_contents)
qed

end

end
