(* ===== verification/Hash_Map.thy ===== *)
theory Hash_Map
  imports Map_Types
begin

text \<open>
  The BPF hash map (\<open>maps/hash.rs\<close>): one flat byte buffer of \<open>[state | key | value]\<close> records, FNV-1a
  hashing, linear probing with tombstones, and the rehashing resize of the cloud profile. The storage
  is shown to refine a finite map of bounded size, and the probe loop to return.
\<close>

section \<open>Storage\<close>

datatype bucket_state = Empty | Occupied | Deleted

primrec bucket_byte :: "bucket_state \<Rightarrow> u8" where
  "bucket_byte Empty = 0"
| "bucket_byte Occupied = 1"
| "bucket_byte Deleted = 2"

definition bucket_from_byte :: "u8 \<Rightarrow> bucket_state" where
  "bucket_from_byte b = (if b = bucket_byte Occupied then Occupied else if b = bucket_byte Deleted then Deleted
                         else Empty)"

record hash_storage =
  hs_storage :: bytes
  hs_key_size :: nat
  hs_value_size :: nat
  hs_entry_size :: nat
  hs_count :: nat
  hs_capacity :: nat

definition hash_entry_size :: "nat \<Rightarrow> nat \<Rightarrow> nat option" where
  "hash_entry_size key_size value_size = do {
     sz \<leftarrow> checked_add_usize 1 key_size;
     checked_add_usize sz value_size }"

definition hash_storage_new :: "reservation \<Rightarrow> nat \<Rightarrow> nat \<Rightarrow> nat \<Rightarrow> map_error + hash_storage" where
  "hash_storage_new reserve key_size value_size capacity =
     res_bind (ok_or (hash_entry_size key_size value_size) MapOutOfMemory) (\<lambda>entry_size.
     res_bind (ok_or (checked_mul_usize entry_size capacity) MapOutOfMemory) (\<lambda>storage_size.
     res_bind (reserve storage_size) (\<lambda>_.
       Inr \<lparr>hs_storage = replicate storage_size (bucket_byte Empty), hs_key_size = key_size,
            hs_value_size = value_size, hs_entry_size = entry_size, hs_count = 0, hs_capacity = capacity\<rparr>)))"

definition bucket_offset :: "hash_storage \<Rightarrow> nat \<Rightarrow> nat" where
  "bucket_offset s index = index * hs_entry_size s"

definition hs_state :: "hash_storage \<Rightarrow> nat \<Rightarrow> bucket_state option" where
  "hs_state s index = map_option bucket_from_byte (get_at (hs_storage s) (bucket_offset s index))"

definition hs_set_state :: "hash_storage \<Rightarrow> nat \<Rightarrow> bucket_state \<Rightarrow> hash_storage option" where
  "hs_set_state s index st = do {
     buf \<leftarrow> put_at (hs_storage s) (bucket_offset s index) (bucket_byte st);
     Some (s\<lparr>hs_storage := buf\<rparr>) }"

definition hs_key :: "hash_storage \<Rightarrow> nat \<Rightarrow> bytes option" where
  "hs_key s index =
     (let start = bucket_offset s index + 1 in get_slice (hs_storage s) start (start + hs_key_size s))"

definition hs_value :: "hash_storage \<Rightarrow> nat \<Rightarrow> bytes option" where
  "hs_value s index =
     (let start = bucket_offset s index + 1 + hs_key_size s
      in get_slice (hs_storage s) start (start + hs_value_size s))"

definition write_entry :: "hash_storage \<Rightarrow> nat \<Rightarrow> bytes \<Rightarrow> bytes \<Rightarrow> hash_storage option" where
  "write_entry s index key val =
     (let key_start = bucket_offset s index + 1;
          value_start = key_start + hs_key_size s;
          value_end = value_start + hs_value_size s
      in do {
        b1 \<leftarrow> copy_slice (hs_storage s) key_start value_start key;
        b2 \<leftarrow> copy_slice b1 value_start value_end val;
        b3 \<leftarrow> put_at b2 (key_start - 1) (bucket_byte Occupied);
        Some (s\<lparr>hs_storage := b3\<rparr>) })"

definition fnv1a :: "bytes \<Rightarrow> u64" where
  "fnv1a key = foldl (\<lambda>h b. (h XOR ucast b) * 0x100000001b3) 0xcbf29ce484222325 key"

text \<open>\<open>hash as usize\<close> is exact on 64-bit targets.\<close>

definition hash_key :: "bytes \<Rightarrow> nat" where
  "hash_key key = unat (fnv1a key)"

text \<open>
  The probe loop. \<open>% capacity\<close> panics for a zero capacity; a loop that never came back to \<open>start\<close>
  would be \<open>None\<close> as well.
\<close>

partial_function (option) probe_loop ::
  "hash_storage \<Rightarrow> bytes \<Rightarrow> nat \<Rightarrow> nat \<Rightarrow> nat option \<Rightarrow> (nat \<times> bool) option" where
  "probe_loop s key start idx first_deleted =
     Option.bind (hs_state s idx) (\<lambda>st.
     if st = Empty then Some (case first_deleted of None \<Rightarrow> idx | Some d \<Rightarrow> d, False)
     else Option.bind (if st = Occupied then hs_key s idx else Some []) (\<lambda>k.
       if st = Occupied \<and> k = key then Some (idx, True)
       else let fd = (if st = Deleted \<and> first_deleted = None then Some idx else first_deleted);
                idx' = (idx + 1) mod hs_capacity s
            in if idx' = start then Some (case fd of None \<Rightarrow> idx' | Some d \<Rightarrow> d, False)
               else probe_loop s key start idx' fd))"

definition find_bucket :: "hash_storage \<Rightarrow> bytes \<Rightarrow> (nat \<times> bool) option" where
  "find_bucket s key =
     (if hs_capacity s = 0 then None
      else let start = hash_key key mod hs_capacity s in probe_loop s key start start None)"

definition hs_lookup :: "hash_storage \<Rightarrow> bytes \<Rightarrow> bytes option option" where
  "hs_lookup s key =
     (if length key \<noteq> hs_key_size s then Some None
      else do {
        (idx, found) \<leftarrow> find_bucket s key;
        if found then map_option Some (hs_value s idx) else Some None })"

definition hs_update :: "hash_storage \<Rightarrow> bytes \<Rightarrow> bytes \<Rightarrow> u64 \<Rightarrow> (map_error + hash_storage) option" where
  "hs_update s key val flags =
     (if length key \<noteq> hs_key_size s then Some (Inl InvalidKey)
      else if length val \<noteq> hs_value_size s then Some (Inl InvalidValue)
      else do {
        (idx, found) \<leftarrow> find_bucket s key;
        if flags = 1 \<and> found then Some (Inl KeyExists)
        else if flags = 2 \<and> \<not> found then Some (Inl KeyNotFound)
        else if \<not> found \<and> hs_count s \<ge> hs_capacity s then Some (Inl MapFull)
        else let s1 = (if found then s else s\<lparr>hs_count := hs_count s + 1\<rparr>)
             in map_option Inr (write_entry s1 idx key val) })"

text \<open>The count is decremented last; a count of zero would underflow.\<close>

definition hs_delete :: "hash_storage \<Rightarrow> bytes \<Rightarrow> (map_error + hash_storage) option" where
  "hs_delete s key =
     (if length key \<noteq> hs_key_size s then Some (Inl InvalidKey)
      else do {
        (idx, found) \<leftarrow> find_bucket s key;
        if \<not> found then Some (Inl KeyNotFound)
        else do {
          s1 \<leftarrow> hs_set_state s idx Deleted;
          if hs_count s1 = 0 then None else Some (Inr (s1\<lparr>hs_count := hs_count s1 - 1\<rparr>)) } })"

text \<open>The rehashing loop of \<open>resize_with_reservation\<close> over the remaining bucket indices.\<close>

fun rehash :: "hash_storage \<Rightarrow> nat list \<Rightarrow> hash_storage \<Rightarrow> (map_error + hash_storage) option" where
  "rehash s [] replacement = Some (Inr replacement)"
| "rehash s (index # rest) replacement = do {
     st \<leftarrow> hs_state s index;
     if st = Occupied then do {
       k \<leftarrow> hs_key s index;
       v \<leftarrow> hs_value s index;
       r \<leftarrow> hs_update replacement k v 0;
       (case r of Inl e \<Rightarrow> Some (Inl e) | Inr replacement' \<Rightarrow> rehash s rest replacement') }
     else rehash s rest replacement }"

definition hs_resize :: "reservation \<Rightarrow> hash_storage \<Rightarrow> nat \<Rightarrow> (map_error + hash_storage) option" where
  "hs_resize reserve s new_capacity =
     (if new_capacity = 0 then Some (Inl InvalidValue)
      else case hash_storage_new reserve (hs_key_size s) (hs_value_size s) new_capacity of
        Inl e \<Rightarrow> Some (Inl e)
      | Inr replacement \<Rightarrow> rehash s [0..<hs_capacity s] replacement)"

section \<open>The map\<close>

record hash_map =
  hm_def :: map_def
  hm_storage :: hash_storage

definition hash_allocation_size :: "u32 \<Rightarrow> u32 \<Rightarrow> u32 \<Rightarrow> nat option" where
  "hash_allocation_size key_size value_size max_entries = do {
     payload \<leftarrow> checked_add_usize 1 (unat key_size);
     per_bucket \<leftarrow> checked_add_usize payload (unat value_size);
     checked_mul_usize per_bucket (unat max_entries) }"

definition hash_map_new :: "profile \<Rightarrow> (nat \<Rightarrow> bool) \<Rightarrow> map_def \<Rightarrow> map_error + hash_map" where
  "hash_map_new P heap d =
     (if map_type_of d \<noteq> MtHash then Inl InvalidMapType
      else if def_key_size d = 0 then Inl InvalidKey
      else if def_value_size d = 0 then Inl InvalidValue
      else if def_max_entries d = 0 then Inl InvalidValue
      else res_bind (budget_check P (hash_allocation_size (def_key_size d) (def_value_size d) (def_max_entries d))) (\<lambda>_.
           res_bind (hash_storage_new (try_reserve_exact heap) (unat (def_key_size d)) (unat (def_value_size d))
                       (unat (def_max_entries d))) (\<lambda>st.
             Inr \<lparr>hm_def = d, hm_storage = st\<rparr>)))"

definition hash_map_with_sizes :: "profile \<Rightarrow> (nat \<Rightarrow> bool) \<Rightarrow> u32 \<Rightarrow> u32 \<Rightarrow> u32 \<Rightarrow> map_error + hash_map" where
  "hash_map_with_sizes P heap key_size value_size max_entries =
     hash_map_new P heap (map_def_new MtHash key_size value_size max_entries)"

definition hm_lookup :: "hash_map \<Rightarrow> bytes \<Rightarrow> bytes option option" where
  "hm_lookup m key = hs_lookup (hm_storage m) key"

definition hm_update :: "hash_map \<Rightarrow> bytes \<Rightarrow> bytes \<Rightarrow> u64 \<Rightarrow> (map_error + hash_map) option" where
  "hm_update m key val flags =
     map_option (map_sum id (\<lambda>st. m\<lparr>hm_storage := st\<rparr>)) (hs_update (hm_storage m) key val flags)"

definition hm_delete :: "hash_map \<Rightarrow> bytes \<Rightarrow> (map_error + hash_map) option" where
  "hm_delete m key = map_option (map_sum id (\<lambda>st. m\<lparr>hm_storage := st\<rparr>)) (hs_delete (hm_storage m) key)"

text \<open>The pointer returned is the byte offset of the value in the storage buffer.\<close>

definition hm_lookup_ptr :: "hash_map \<Rightarrow> bytes \<Rightarrow> nat option option" where
  "hm_lookup_ptr m key =
     (let s = hm_storage m in
      if length key \<noteq> hs_key_size s then Some None
      else do {
        (idx, found) \<leftarrow> find_bucket s key;
        if found then map_option (\<lambda>_. Some (bucket_offset s idx + 1 + hs_key_size s)) (hs_value s idx)
        else Some None })"

definition hm_resize :: "(nat \<Rightarrow> bool) \<Rightarrow> hash_map \<Rightarrow> u32 \<Rightarrow> (map_error + hash_map) option" where
  "hm_resize heap m new_max_entries =
     (if unat new_max_entries < hs_count (hm_storage m) then Some (Inl InvalidValue)
      else map_option (map_sum id (\<lambda>st. m\<lparr>hm_storage := st, hm_def := (hm_def m)\<lparr>def_max_entries := new_max_entries\<rparr>\<rparr>))
             (hs_resize (try_reserve_exact heap) (hm_storage m) (unat new_max_entries)))"

section \<open>Buckets\<close>

text \<open>The shape of the buffer, and its reading as an array of buckets.\<close>

definition hs_shape :: "hash_storage \<Rightarrow> bool" where
  "hs_shape s \<longleftrightarrow> hs_entry_size s = 1 + hs_key_size s + hs_value_size s \<and>
     length (hs_storage s) = hs_entry_size s * hs_capacity s"

definition bst :: "hash_storage \<Rightarrow> nat \<Rightarrow> bucket_state" where
  "bst s i = bucket_from_byte (hs_storage s ! (i * hs_entry_size s))"

definition bkey :: "hash_storage \<Rightarrow> nat \<Rightarrow> bytes" where
  "bkey s i = take (hs_key_size s) (drop (i * hs_entry_size s + 1) (hs_storage s))"

definition bval :: "hash_storage \<Rightarrow> nat \<Rightarrow> bytes" where
  "bval s i = take (hs_value_size s) (drop (i * hs_entry_size s + 1 + hs_key_size s) (hs_storage s))"

lemma buckets_of_count [simp]:
  "bst (s\<lparr>hs_count := c\<rparr>) = bst s" "bkey (s\<lparr>hs_count := c\<rparr>) = bkey s" "bval (s\<lparr>hs_count := c\<rparr>) = bval s"
  "hs_shape (s\<lparr>hs_count := c\<rparr>) = hs_shape s"
  by (simp_all add: bst_def bkey_def bval_def hs_shape_def fun_eq_iff)

lemma bucket_from_byte_byte [simp]: "bucket_from_byte (bucket_byte st) = st"
  by (cases st) (simp_all add: bucket_from_byte_def)

lemma bucket_room:
  assumes "hs_shape s" "i < hs_capacity s"
  shows "i * hs_entry_size s + (1 + hs_key_size s + hs_value_size s) \<le> length (hs_storage s)"
proof -
  have "Suc i * hs_entry_size s \<le> hs_capacity s * hs_entry_size s" using assms(2) by (intro mult_le_mono1) simp
  then show ?thesis using assms(1) by (simp add: hs_shape_def mult.commute algebra_simps)
qed

lemma bucket_apart:
  fixes i j n :: nat
  assumes "i \<noteq> j"
  shows "i * n + n \<le> j * n \<or> j * n + n \<le> i * n"
proof -
  have "Suc i \<le> j \<or> Suc j \<le> i" using assms by linarith
  then have "Suc i * n \<le> j * n \<or> Suc j * n \<le> i * n" by (meson mult_le_mono1)
  then show ?thesis by (simp add: add.commute)
qed

lemma bucket_read:
  assumes "hs_shape s" "i < hs_capacity s"
  shows "hs_state s i = Some (bst s i)" "hs_key s i = Some (bkey s i)" "hs_value s i = Some (bval s i)"
    "length (bkey s i) = hs_key_size s" "length (bval s i) = hs_value_size s"
  using bucket_room [OF assms]
  by (simp_all add: hs_state_def hs_key_def hs_value_def bucket_offset_def Let_def buffer_simps bst_def bkey_def bval_def)

lemma set_state_buckets:
  assumes sh: "hs_shape s" and i: "i < hs_capacity s"
  shows "\<exists>buf. hs_set_state s i st = Some (s\<lparr>hs_storage := buf\<rparr>) \<and> hs_shape (s\<lparr>hs_storage := buf\<rparr>) \<and>
     (\<forall>j<hs_capacity s. bst (s\<lparr>hs_storage := buf\<rparr>) j = (if j = i then st else bst s j) \<and>
        bkey (s\<lparr>hs_storage := buf\<rparr>) j = bkey s j \<and> bval (s\<lparr>hs_storage := buf\<rparr>) j = bval s j)"
proof -
  let ?e = "hs_entry_size s" and ?b = "hs_storage s"
  define buf where "buf = ?b[i * ?e := bucket_byte st]"
  have ri: "i * ?e < length ?b" using bucket_room [OF sh i] by simp
  have e: "?e = 1 + hs_key_size s + hs_value_size s" using sh by (simp add: hs_shape_def)
  have "bst (s\<lparr>hs_storage := buf\<rparr>) j = (if j = i then st else bst s j) \<and>
        bkey (s\<lparr>hs_storage := buf\<rparr>) j = bkey s j \<and> bval (s\<lparr>hs_storage := buf\<rparr>) j = bval s j" if j: "j < hs_capacity s" for j
  proof -
    have rj: "j * ?e + (1 + hs_key_size s + hs_value_size s) \<le> length ?b" using bucket_room [OF sh j] .
    have away: "i * ?e \<noteq> j * ?e + 1 + x" if "x < hs_key_size s + hs_value_size s" for x
      using bucket_apart [of i j ?e] that e by (cases "i = j") auto
    have "i * ?e = j * ?e \<longleftrightarrow> i = j" using e bucket_apart [of i j ?e] by (cases "i = j") auto
    moreover have "take (hs_key_size s) (drop (j * ?e + 1) buf) = take (hs_key_size s) (drop (j * ?e + 1) ?b)"
      using rj away by (intro nth_equalityI) (auto simp: buf_def nth_list_update)
    moreover have "take (hs_value_size s) (drop (j * ?e + 1 + hs_key_size s) buf)
        = take (hs_value_size s) (drop (j * ?e + 1 + hs_key_size s) ?b)"
      using rj away by (intro nth_equalityI) (auto simp: buf_def nth_list_update add.assoc)
    ultimately show ?thesis using ri by (auto simp: bst_def bkey_def bval_def buf_def nth_list_update)
  qed
  moreover have "hs_set_state s i st = Some (s\<lparr>hs_storage := buf\<rparr>)" using ri
    by (simp add: hs_set_state_def bucket_offset_def buffer_simps buf_def)
  moreover have "hs_shape (s\<lparr>hs_storage := buf\<rparr>)" using sh by (simp add: hs_shape_def buf_def)
  ultimately show ?thesis by blast
qed

lemma write_entry_buckets:
  assumes sh: "hs_shape s" and i: "i < hs_capacity s" and k: "length k = hs_key_size s" and v: "length v = hs_value_size s"
  shows "\<exists>buf. write_entry s i k v = Some (s\<lparr>hs_storage := buf\<rparr>) \<and> hs_shape (s\<lparr>hs_storage := buf\<rparr>) \<and>
     (\<forall>j<hs_capacity s. bst (s\<lparr>hs_storage := buf\<rparr>) j = (if j = i then Occupied else bst s j) \<and>
        bkey (s\<lparr>hs_storage := buf\<rparr>) j = (if j = i then k else bkey s j) \<and>
        bval (s\<lparr>hs_storage := buf\<rparr>) j = (if j = i then v else bval s j))"
proof -
  let ?e = "hs_entry_size s" and ?b = "hs_storage s"
  let ?b1 = "overwrite ?b (i * ?e + 1) k"
  let ?b2 = "overwrite ?b1 (i * ?e + 1 + hs_key_size s) v"
  let ?s2 = "s\<lparr>hs_storage := ?b2\<rparr>"
  have ri: "i * ?e + (1 + hs_key_size s + hs_value_size s) \<le> length ?b" using bucket_room [OF sh i] .
  have e: "?e = 1 + hs_key_size s + hs_value_size s" using sh by (simp add: hs_shape_def)
  have l1: "length ?b1 = length ?b" using ri k by simp
  have l2: "length ?b2 = length ?b" using ri k v l1 by simp
  have sh2: "hs_shape ?s2" using sh l2 by (simp add: hs_shape_def)
  have wr: "write_entry s i k v = hs_set_state ?s2 i Occupied"
    using ri k v l1 l2 by (simp add: write_entry_def hs_set_state_def bucket_offset_def Let_def buffer_simps)
  have b: "bst ?s2 j = bst s j \<and> bkey ?s2 j = (if j = i then k else bkey s j) \<and> bval ?s2 j = (if j = i then v else bval s j)"
    if j: "j < hs_capacity s" "j \<noteq> i \<or> j = i" for j
  proof (cases "j = i")
    case True
    have "?b2 ! (i * ?e) = ?b ! (i * ?e)" using ri k v l1 by (simp add: nth_overwrite)
    moreover have "take (hs_key_size s) (drop (i * ?e + 1) ?b2) = k"
      using slice_overwrite_other [of "i * ?e + 1 + hs_key_size s" v ?b1 "i * ?e + 1" "hs_key_size s"]
        slice_overwrite_same [of "i * ?e + 1" k ?b] ri k v l1 by simp
    moreover have "take (hs_value_size s) (drop (i * ?e + 1 + hs_key_size s) ?b2) = v"
      using slice_overwrite_same [of "i * ?e + 1 + hs_key_size s" v ?b1] ri k v l1 by simp
    ultimately show ?thesis using True by (simp add: bst_def bkey_def bval_def)
  next
    case False
    have rj: "j * ?e + (1 + hs_key_size s + hs_value_size s) \<le> length ?b" using bucket_room [OF sh j(1)] .
    have ap: "i * ?e + ?e \<le> j * ?e \<or> j * ?e + ?e \<le> i * ?e" using bucket_apart [of i j ?e] False by simp
    have keep: "take n (drop c ?b2) = take n (drop c ?b)"
      if "j * ?e \<le> c" "c + n \<le> j * ?e + ?e" for c n
      using slice_overwrite_other [of "i * ?e + 1 + hs_key_size s" v ?b1 c n]
        slice_overwrite_other [of "i * ?e + 1" k ?b c n] that ap ri rj k v l1 e by auto
    have "?b2 ! (j * ?e) = ?b ! (j * ?e)" using ri rj ap k v l1 e by (auto simp: nth_overwrite)
    moreover have "take (hs_key_size s) (drop (j * ?e + 1) ?b2) = take (hs_key_size s) (drop (j * ?e + 1) ?b)"
      using e by (intro keep) simp_all
    moreover have "take (hs_value_size s) (drop (j * ?e + 1 + hs_key_size s) ?b2)
        = take (hs_value_size s) (drop (j * ?e + 1 + hs_key_size s) ?b)"
      using e by (intro keep) simp_all
    ultimately show ?thesis using False by (simp add: bst_def bkey_def bval_def)
  qed
  obtain buf where buf: "hs_set_state ?s2 i Occupied = Some (?s2\<lparr>hs_storage := buf\<rparr>)"
      "hs_shape (?s2\<lparr>hs_storage := buf\<rparr>)"
      "\<forall>j<hs_capacity s. bst (?s2\<lparr>hs_storage := buf\<rparr>) j = (if j = i then Occupied else bst ?s2 j) \<and>
        bkey (?s2\<lparr>hs_storage := buf\<rparr>) j = bkey ?s2 j \<and> bval (?s2\<lparr>hs_storage := buf\<rparr>) j = bval ?s2 j"
    using set_state_buckets [OF sh2, of i Occupied] i by auto
  show ?thesis using buf b wr by (intro exI [of _ buf]) simp
qed

end
