(* ===== verification/Hash_Refinement.thy ===== *)
theory Hash_Refinement
  imports Hash_Map
begin

text \<open>
  The correctness of the hash map. The invariant says that the occupied buckets hold distinct keys, that
  each is reached from its hash without crossing an empty bucket, and that the count is their number.
  Every operation keeps it, and on states that satisfy it the code behaves as a finite map of bounded
  size; in particular no operation panics and the probe loop returns.
\<close>

section \<open>Probing\<close>

definition probe :: "hash_storage \<Rightarrow> bytes \<Rightarrow> nat \<Rightarrow> nat" where
  "probe s k j = (hash_key k + j) mod hs_capacity s"

lemma probe_less: "0 < hs_capacity s \<Longrightarrow> probe s k j < hs_capacity s"
  by (simp add: probe_def)

lemma probe_step: "(probe s k j + 1) mod hs_capacity s = probe s k (Suc j)"
  by (simp add: probe_def mod_simps)

lemma probe_wrap: "probe s k (hs_capacity s) = probe s k 0"
  by (simp add: probe_def)

lemma probe_inj:
  assumes "i < hs_capacity s" "j < hs_capacity s" "probe s k i = probe s k j"
  shows "i = j"
proof (rule linorder_cases [of i j])
  assume "i < j"
  then show ?thesis using mod_window_inj [of "hash_key k + i" "hs_capacity s" "hash_key k + j"] assms
    by (simp add: probe_def less_imp_diff_less)
next
  assume "j < i"
  then show ?thesis using mod_window_inj [of "hash_key k + j" "hs_capacity s" "hash_key k + i"] assms
    by (simp add: probe_def less_imp_diff_less)
qed simp

lemma probe_image:
  assumes "0 < hs_capacity s"
  shows "probe s k ` {..<hs_capacity s} = {..<hs_capacity s}"
proof (rule card_subset_eq)
  have "inj_on (probe s k) {..<hs_capacity s}" by (rule inj_onI) (auto intro: probe_inj)
  then show "card (probe s k ` {..<hs_capacity s}) = card {..<hs_capacity s}" by (rule card_image)
qed (use assms probe_less in auto)

lemma probe_onto: "i < hs_capacity s \<Longrightarrow> \<exists>j<hs_capacity s. probe s k j = i"
  using probe_image [of s k] by (metis gr_zeroI imageE lessThan_iff not_less_zero)

abbreviation occupied :: "hash_storage \<Rightarrow> nat set" where
  "occupied s \<equiv> {i. i < hs_capacity s \<and> bst s i = Occupied}"

text \<open>
  What the loop finds: the bucket of the key; or, if the first \<open>n\<close> probes do not have the key and the
  search ended there, an insertion point that is reached without crossing an empty bucket, unless every
  bucket is occupied.
\<close>

definition key_at :: "hash_storage \<Rightarrow> bytes \<Rightarrow> nat \<Rightarrow> bool" where
  "key_at s k i \<longleftrightarrow> bst s i = Occupied \<and> bkey s i = k"

definition insertion_point :: "hash_storage \<Rightarrow> bytes \<Rightarrow> nat \<Rightarrow> bool" where
  "insertion_point s k i \<longleftrightarrow> (\<exists>d<hs_capacity s. probe s k d = i \<and> bst s i \<noteq> Occupied \<and> (\<forall>j<d. bst s (probe s k j) \<noteq> Empty))"

definition absent_after :: "hash_storage \<Rightarrow> bytes \<Rightarrow> nat \<Rightarrow> bool" where
  "absent_after s k n \<longleftrightarrow> n \<le> hs_capacity s \<and> (n < hs_capacity s \<longrightarrow> bst s (probe s k n) = Empty) \<and>
     (\<forall>j<n. \<not> key_at s k (probe s k j))"

definition probe_result :: "hash_storage \<Rightarrow> bytes \<Rightarrow> nat \<times> bool \<Rightarrow> bool" where
  "probe_result s k r \<longleftrightarrow>
     (if snd r then fst r < hs_capacity s \<and> key_at s k (fst r)
      else (\<exists>n. absent_after s k n) \<and> (insertion_point s k (fst r) \<or> occupied s = {..<hs_capacity s}))"

definition scanned :: "hash_storage \<Rightarrow> bytes \<Rightarrow> nat \<Rightarrow> nat option \<Rightarrow> bool" where
  "scanned s k j fd \<longleftrightarrow> (\<forall>i<j. bst s (probe s k i) \<noteq> Empty \<and> \<not> key_at s k (probe s k i)) \<and>
     (case fd of None \<Rightarrow> \<forall>i<j. bst s (probe s k i) = Occupied
      | Some d \<Rightarrow> \<exists>i<j. probe s k i = d \<and> bst s d = Deleted)"

lemma scanned_insertion:
  assumes "scanned s k j (Some d)" "j \<le> hs_capacity s"
  shows "insertion_point s k d"
proof -
  obtain i where i: "i < j" "probe s k i = d" "bst s d = Deleted" using assms(1) by (auto simp: scanned_def)
  moreover from this have "\<forall>l<i. bst s (probe s k l) \<noteq> Empty" using assms(1) by (simp add: scanned_def)
  ultimately show ?thesis unfolding insertion_point_def using assms(2) by (intro exI [of _ i]) simp
qed

lemma scanned_all:
  assumes "scanned s k (hs_capacity s) fd" "0 < hs_capacity s"
  shows "probe_result s k (case fd of None \<Rightarrow> i | Some d \<Rightarrow> d, False)"
proof (cases fd)
  case None
  then have occ: "\<forall>j<hs_capacity s. bst s (probe s k j) = Occupied" using assms(1) by (simp add: scanned_def)
  then have "occupied s = {..<hs_capacity s}" using probe_onto [of _ s k] by fastforce
  moreover have "absent_after s k (hs_capacity s)" using assms(1) by (simp add: scanned_def absent_after_def)
  ultimately show ?thesis using None by (auto simp: probe_result_def)
next
  case (Some d)
  have "absent_after s k (hs_capacity s)" using assms(1) by (simp add: scanned_def absent_after_def)
  then show ?thesis using scanned_insertion [of s k "hs_capacity s" d] assms(1) Some by (auto simp: probe_result_def)
qed

lemma scanned_next:
  assumes sc: "scanned s k j fd" and ne: "bst s (probe s k j) \<noteq> Empty" "\<not> key_at s k (probe s k j)"
  shows "scanned s k (Suc j) (if bst s (probe s k j) = Deleted \<and> fd = None then Some (probe s k j) else fd)"
proof -
  have "\<forall>i<Suc j. bst s (probe s k i) \<noteq> Empty \<and> \<not> key_at s k (probe s k i)"
    using sc ne by (simp add: scanned_def less_Suc_eq all_conj_distrib)
  moreover have "bst s (probe s k j) = Occupied" if "bst s (probe s k j) \<noteq> Deleted"
    using that ne(1) by (cases "bst s (probe s k j)") simp_all
  ultimately show ?thesis
    using sc by (cases fd) (auto simp: scanned_def less_Suc_eq)
qed

lemma scanned_stop:
  assumes "scanned s k j fd" "bst s (probe s k j) = Empty" "j < hs_capacity s"
  shows "probe_result s k (case fd of None \<Rightarrow> probe s k j | Some d \<Rightarrow> d, False)"
proof -
  have "absent_after s k j" using assms by (simp add: scanned_def absent_after_def)
  moreover have "insertion_point s k (case fd of None \<Rightarrow> probe s k j | Some d \<Rightarrow> d)"
  proof (cases fd)
    case None
    then show ?thesis using assms by (auto simp: insertion_point_def scanned_def)
  next
    case (Some d)
    then show ?thesis using scanned_insertion [of s k j d] assms by simp
  qed
  ultimately show ?thesis by (auto simp: probe_result_def)
qed

lemma probe_loop_unfold:
  assumes "hs_shape s" "idx < hs_capacity s"
  shows "probe_loop s k start idx fd =
     (if bst s idx = Empty then Some (case fd of None \<Rightarrow> idx | Some d \<Rightarrow> d, False)
      else if key_at s k idx then Some (idx, True)
      else let fd' = (if bst s idx = Deleted \<and> fd = None then Some idx else fd);
               idx' = (idx + 1) mod hs_capacity s
           in if idx' = start then Some (case fd' of None \<Rightarrow> idx' | Some d \<Rightarrow> d, False)
              else probe_loop s k start idx' fd')"
  by (subst probe_loop.simps) (simp add: bucket_read [OF assms] key_at_def)

lemma probe_loop_returns:
  assumes sh: "hs_shape s" and "scanned s k j fd" "j < hs_capacity s"
  shows "\<exists>r. probe_loop s k (probe s k 0) (probe s k j) fd = Some r \<and> probe_result s k r"
  using assms(2-)
proof (induction "hs_capacity s - j" arbitrary: j fd)
  case (Suc n)
  let ?i = "probe s k j"
  define fd' where "fd' = (if bst s ?i = Deleted \<and> fd = None then Some ?i else fd)"
  have i: "?i < hs_capacity s" using Suc.prems by (intro probe_less) simp
  note unf = probe_loop_unfold [OF sh i, of k "probe s k 0" fd, folded fd'_def, unfolded probe_step Let_def]
  consider "bst s ?i = Empty" | "bst s ?i \<noteq> Empty" "key_at s k ?i" | "bst s ?i \<noteq> Empty" "\<not> key_at s k ?i" by blast
  then show ?case
  proof cases
    case 1
    then show ?thesis using scanned_stop [OF Suc.prems(1) 1 Suc.prems(2)] unf by simp
  next
    case 2
    then show ?thesis using unf i by (simp add: probe_result_def)
  next
    case 3
    then have nx: "scanned s k (Suc j) fd'" using scanned_next [OF Suc.prems(1)] by (simp add: fd'_def)
    show ?thesis
    proof (cases "Suc j = hs_capacity s")
      case True
      then have "probe s k (Suc j) = probe s k 0" using probe_wrap [of s k] by simp
      moreover have "probe_result s k (case fd' of None \<Rightarrow> probe s k (Suc j) | Some d \<Rightarrow> d, False)"
        using scanned_all [of s k fd' "probe s k (Suc j)"] nx True Suc.prems by simp
      ultimately show ?thesis using unf 3 by simp
    next
      case False
      then have "Suc j < hs_capacity s" using Suc.prems by simp
      moreover from this have "probe s k (Suc j) \<noteq> probe s k 0" using probe_inj [of "Suc j" s 0 k] by auto
      moreover have "n = hs_capacity s - Suc j" using Suc.hyps(2) by simp
      ultimately show ?thesis using Suc.hyps(1) [OF _ nx] unf 3 by simp
    qed
  qed
qed simp

lemma find_bucket_returns:
  assumes "hs_shape s" "0 < hs_capacity s"
  shows "\<exists>r. find_bucket s k = Some r \<and> probe_result s k r"
  using probe_loop_returns [OF assms(1), of k 0 None] assms(2)
  by (simp add: find_bucket_def Let_def probe_def scanned_def)

section \<open>The invariant\<close>

definition reached :: "hash_storage \<Rightarrow> nat \<Rightarrow> bool" where
  "reached s i \<longleftrightarrow> (\<exists>d<hs_capacity s. probe s (bkey s i) d = i \<and> (\<forall>j<d. bst s (probe s (bkey s i) j) \<noteq> Empty))"

definition hash_inv :: "hash_storage \<Rightarrow> bool" where
  "hash_inv s \<longleftrightarrow> hs_shape s \<and> 0 < hs_capacity s \<and> hs_count s = card (occupied s) \<and>
     inj_on (bkey s) (occupied s) \<and> (\<forall>i\<in>occupied s. reached s i)"

text \<open>The finite map a state stands for.\<close>

definition hash_contents :: "hash_storage \<Rightarrow> bytes \<rightharpoonup> bytes" where
  "hash_contents s = map_of (map (\<lambda>i. (bkey s i, bval s i)) (filter (\<lambda>i. bst s i = Occupied) [0..<hs_capacity s]))"

lemma hash_contents_Some:
  assumes "hash_inv s" "i < hs_capacity s" "key_at s k i"
  shows "hash_contents s k = Some (bval s i)"
proof -
  let ?l = "filter (\<lambda>i. bst s i = Occupied) [0..<hs_capacity s]"
  have set: "set ?l = occupied s" by auto
  have "distinct (map (bkey s) ?l)" using assms(1) by (simp add: distinct_map set hash_inv_def)
  then have "distinct (map fst (map (\<lambda>i. (bkey s i, bval s i)) ?l))" by (simp add: comp_def)
  moreover have "(k, bval s i) \<in> set (map (\<lambda>i. (bkey s i, bval s i)) ?l)" using assms(2,3) by (force simp: key_at_def)
  ultimately show ?thesis unfolding hash_contents_def by (rule map_of_is_SomeI)
qed

lemma dom_hash_contents: "dom (hash_contents s) = bkey s ` occupied s"
  by (auto simp: hash_contents_def dom_map_of_conv_image_fst image_image)

lemma hash_contents_None: "hash_contents s k = None \<longleftrightarrow> (\<forall>i<hs_capacity s. \<not> key_at s k i)"
proof -
  have "k \<in> dom (hash_contents s) \<longleftrightarrow> k \<in> bkey s ` occupied s" by (simp only: dom_hash_contents)
  then show ?thesis unfolding domIff key_at_def image_iff by blast
qed

lemma card_contents: "hash_inv s \<Longrightarrow> card (dom (hash_contents s)) = hs_count s"
  by (simp add: dom_hash_contents card_image hash_inv_def)

lemma hash_contents_eqI:
  assumes "hash_inv s" "\<And>k i. i < hs_capacity s \<Longrightarrow> key_at s k i \<Longrightarrow> m k = Some (bval s i)"
    "\<And>k. \<forall>i<hs_capacity s. \<not> key_at s k i \<Longrightarrow> m k = None"
  shows "hash_contents s = m"
proof
  fix k
  show "hash_contents s k = m k"
  proof (cases "\<exists>i<hs_capacity s. key_at s k i")
    case True
    then show ?thesis using hash_contents_Some [OF assms(1)] assms(2) by force
  next
    case False
    then show ?thesis using hash_contents_None [of s k] assms(3) by auto
  qed
qed

text \<open>A key that a search does not meet is not in the map.\<close>

lemma absent_not_present:
  assumes "hash_inv s" "absent_after s k n" "i < hs_capacity s"
  shows "\<not> key_at s k i"
proof
  assume k: "key_at s k i"
  then have "reached s i" using assms(1,3) by (auto simp: hash_inv_def key_at_def)
  then obtain d where d: "d < hs_capacity s" "probe s k d = i" "\<forall>j<d. bst s (probe s k j) \<noteq> Empty"
    using k by (auto simp: reached_def key_at_def)
  show False
  proof (cases n d rule: linorder_cases)
    case less
    then show False using d assms(2) by (auto simp: absent_after_def)
  next
    case equal
    then show False using d assms(2) k by (auto simp: absent_after_def key_at_def)
  next
    case greater
    then show False using d assms(2) k by (auto simp: absent_after_def)
  qed
qed

lemma find_bucket_cases:
  assumes "hash_inv s"
  obtains (found) i where "find_bucket s k = Some (i, True)" "i < hs_capacity s" "key_at s k i"
      "hash_contents s k = Some (bval s i)"
  | (absent) i where "find_bucket s k = Some (i, False)" "hash_contents s k = None"
      "hs_count s < hs_capacity s \<Longrightarrow> insertion_point s k i"
proof -
  have sh: "hs_shape s" "0 < hs_capacity s" using assms by (simp_all add: hash_inv_def)
  then obtain i b where r: "find_bucket s k = Some (i, b)" "probe_result s k (i, b)"
    using find_bucket_returns [OF sh, of k] by (metis surj_pair)
  show thesis
  proof (cases b)
    case True
    then show thesis using found [of i] r hash_contents_Some [OF assms, of i k] by (simp add: probe_result_def)
  next
    case False
    then obtain n where "absent_after s k n" and ip: "insertion_point s k i \<or> occupied s = {..<hs_capacity s}"
      using r(2) by (auto simp: probe_result_def)
    then have "hash_contents s k = None" using absent_not_present [OF assms] hash_contents_None by blast
    moreover have "insertion_point s k i" if "hs_count s < hs_capacity s"
    proof -
      have "hs_count s = card (occupied s)" using assms by (simp add: hash_inv_def)
      then have "occupied s \<noteq> {..<hs_capacity s}" using that by (metis card_lessThan less_irrefl)
      then show ?thesis using ip by blast
    qed
    ultimately show thesis using absent [of i] r(1) False by simp
  qed
qed

section \<open>Writing and deleting one bucket\<close>

definition bucket_written :: "hash_storage \<Rightarrow> hash_storage \<Rightarrow> nat \<Rightarrow> bucket_state \<Rightarrow> bytes \<Rightarrow> bytes \<Rightarrow> bool" where
  "bucket_written s t i st k v \<longleftrightarrow> hs_shape t \<and> hs_capacity t = hs_capacity s \<and>
     (\<forall>j<hs_capacity s. bst t j = (if j = i then st else bst s j) \<and> bkey t j = (if j = i then k else bkey s j) \<and>
        bval t j = (if j = i then v else bval s j))"

lemma probe_cong: "hs_capacity t = hs_capacity s \<Longrightarrow> probe t = probe s"
  by (simp add: probe_def fun_eq_iff)

lemma occupied_finite [simp]: "finite (occupied s)"
  by simp

lemma reached_mono:
  assumes "reached s j" "hs_capacity t = hs_capacity s" "0 < hs_capacity s" "bkey t j = bkey s j"
    "\<And>i. i < hs_capacity s \<Longrightarrow> bst s i \<noteq> Empty \<Longrightarrow> bst t i \<noteq> Empty"
  shows "reached t j"
  using assms(1) assms(5) [OF probe_less [OF assms(3)]]
  by (auto simp: reached_def assms(2,4) probe_cong [OF assms(2)])

lemma written_occupied:
  assumes "bucket_written s t i Occupied k v" "i < hs_capacity s"
  shows "occupied t = insert i (occupied s)"
proof (rule set_eqI)
  fix j
  show "j \<in> occupied t \<longleftrightarrow> j \<in> insert i (occupied s)"
    using assms by (cases "j < hs_capacity s"; cases "j = i") (simp_all add: bucket_written_def)
qed

lemma insertion_inv:
  assumes inv: "hash_inv s" and w: "bucket_written s t i Occupied k v" and ip: "insertion_point s k i"
    and new: "hash_contents s k = None" and cnt: "hs_count t = hs_count s + 1"
  shows "hash_inv t \<and> hash_contents t = (hash_contents s)(k \<mapsto> v)"
proof -
  have i: "i < hs_capacity s" "i \<notin> occupied s" using ip inv by (auto simp: insertion_point_def hash_inv_def probe_less)
  have cap: "hs_capacity t = hs_capacity s" using w by (simp add: bucket_written_def)
  have occ: "occupied t = insert i (occupied s)" using written_occupied [OF w i(1)] .
  have pos: "0 < hs_capacity s" using inv by (simp add: hash_inv_def)
  have b: "bst t j = (if j = i then Occupied else bst s j)" "bkey t j = (if j = i then k else bkey s j)"
      "bval t j = (if j = i then v else bval s j)" if "j < hs_capacity s" for j
    using w that by (simp_all add: bucket_written_def)
  have absent: "\<not> key_at s k j" if "j < hs_capacity s" for j using new hash_contents_None that by blast
  have "reached t j" if "j \<in> occupied t" for j
  proof (cases "j = i")
    case True
    obtain d where d: "d < hs_capacity s" "probe s k d = i" "\<forall>j<d. bst s (probe s k j) \<noteq> Empty"
      using ip by (auto simp: insertion_point_def)
    then have "bst t (probe s k l) \<noteq> Empty" if "l < d" for l
      using that probe_less [OF pos] by (simp add: b)
    with d show ?thesis using True b(2) [OF i(1)] by (auto simp: reached_def cap probe_cong [OF cap])
  next
    case False
    then have "j \<in> occupied s" using that occ by blast
    then show ?thesis using inv False b(1,2) reached_mono [of s j t] cap pos by (simp add: hash_inv_def)
  qed
  moreover have "inj_on (bkey t) (occupied t)"
  proof -
    have "inj_on (bkey s) (occupied s)" using inv by (simp add: hash_inv_def)
    then have "inj_on (bkey t) (occupied s)" using b(2) i(2) by (auto simp: inj_on_def)
    moreover have "bkey t i \<notin> bkey t ` (occupied s - {i})"
      using b(2) i absent by (auto simp: key_at_def split: if_splits)
    ultimately show ?thesis unfolding occ by (simp add: inj_on_insert)
  qed
  moreover have "hs_count t = card (occupied t)" using inv i(2) by (simp add: occ cnt hash_inv_def)
  ultimately have invt: "hash_inv t" using w pos by (simp add: hash_inv_def bucket_written_def)
  moreover have "hash_contents t = (hash_contents s)(k \<mapsto> v)"
  proof (rule hash_contents_eqI [OF invt])
    fix k' j assume j: "j < hs_capacity t" "key_at t k' j"
    show "((hash_contents s)(k \<mapsto> v)) k' = Some (bval t j)"
    proof (cases "j = i")
      case False
      then have "key_at s k' j" using j b cap by (simp add: key_at_def)
      then show ?thesis using False j hash_contents_Some [OF inv, of j k'] absent [of j] cap b by (auto simp: key_at_def)
    qed (use j b cap in \<open>auto simp: key_at_def\<close>)
  next
    fix k' assume n: "\<forall>j<hs_capacity t. \<not> key_at t k' j"
    then have "k' \<noteq> k" using i(1) b cap by (auto simp: key_at_def)
    moreover have "\<not> key_at s k' j" if "j < hs_capacity s" for j
      using n [rule_format, of j] b [OF that] cap i(2) that by (auto simp: key_at_def split: if_splits)
    ultimately show "((hash_contents s)(k \<mapsto> v)) k' = None" using hash_contents_None by auto
  qed
  ultimately show ?thesis by blast
qed

lemma overwrite_inv:
  assumes inv: "hash_inv s" and w: "bucket_written s t i Occupied k v" and i: "i < hs_capacity s"
    and at: "key_at s k i" and cnt: "hs_count t = hs_count s"
  shows "hash_inv t \<and> hash_contents t = (hash_contents s)(k \<mapsto> v)"
proof -
  have cap: "hs_capacity t = hs_capacity s" using w by (simp add: bucket_written_def)
  have b: "bst t j = bst s j" "bkey t j = bkey s j" "bval t j = (if j = i then v else bval s j)"
    if "j < hs_capacity s" for j using w at that by (auto simp: bucket_written_def key_at_def)
  have pos: "0 < hs_capacity s" using inv by (simp add: hash_inv_def)
  have occ: "occupied t = occupied s" using b cap by auto
  have ka: "key_at t k' j \<longleftrightarrow> key_at s k' j" if "j < hs_capacity s" for k' j using b that by (simp add: key_at_def)
  have injs: "inj_on (bkey s) (occupied s)" using inv by (simp add: hash_inv_def)
  then have "inj_on (bkey t) (occupied t)" using b by (auto simp: occ inj_on_def)
  moreover have "reached t j" if "j \<in> occupied s" for j
    using that inv b reached_mono [of s j t] cap pos by (simp add: hash_inv_def)
  ultimately have invt: "hash_inv t" using inv w pos cnt occ by (simp add: hash_inv_def bucket_written_def)
  moreover have "hash_contents t = (hash_contents s)(k \<mapsto> v)"
  proof (rule hash_contents_eqI [OF invt])
    fix k' j assume j: "j < hs_capacity t" "key_at t k' j"
    have uniq: "j = i" if "k' = k"
      using inj_onD [OF injs, of j i] that j at i cap ka [of j k'] by (simp add: key_at_def)
    show "((hash_contents s)(k \<mapsto> v)) k' = Some (bval t j)"
    proof (cases "k' = k")
      case True
      then show ?thesis using uniq b(3) [OF i] by simp
    next
      case False
      then have "j \<noteq> i" using j at ka cap by (auto simp: key_at_def)
      then show ?thesis using False j hash_contents_Some [OF inv, of j k'] ka cap b(3) by simp
    qed
  next
    fix k' assume n: "\<forall>j<hs_capacity t. \<not> key_at t k' j"
    then have "k' \<noteq> k" using i at ka cap by auto
    moreover have "\<forall>j<hs_capacity s. \<not> key_at s k' j" using n ka cap by simp
    ultimately show "((hash_contents s)(k \<mapsto> v)) k' = None" using hash_contents_None by auto
  qed
  ultimately show ?thesis by blast
qed

lemma deletion_inv:
  assumes inv: "hash_inv s" and w: "bucket_written s t i Deleted (bkey s i) (bval s i)" and i: "i < hs_capacity s"
    and at: "key_at s k i" and cnt: "hs_count t = hs_count s - 1"
  shows "hash_inv t \<and> hash_contents t = (hash_contents s)(k := None)"
proof -
  have cap: "hs_capacity t = hs_capacity s" using w by (simp add: bucket_written_def)
  have b: "bst t j = (if j = i then Deleted else bst s j)" "bkey t j = bkey s j" "bval t j = bval s j"
    if "j < hs_capacity s" for j using w that by (auto simp: bucket_written_def)
  have pos: "0 < hs_capacity s" using inv by (simp add: hash_inv_def)
  have io: "i \<in> occupied s" using at i by (simp add: key_at_def)
  have occ: "occupied t = occupied s - {i}" using b cap by (auto split: if_splits)
  have ka: "key_at t k' j \<longleftrightarrow> j \<noteq> i \<and> key_at s k' j" if "j < hs_capacity s" for k' j
    using b that by (simp add: key_at_def)
  have injs: "inj_on (bkey s) (occupied s)" using inv by (simp add: hash_inv_def)
  then have "inj_on (bkey t) (occupied t)" unfolding occ using b(2) by (auto simp: inj_on_def)
  moreover have "reached t j" if "j \<in> occupied t" for j
  proof -
    have j: "j \<in> occupied s" using that occ by blast
    then have "reached s j" using inv by (simp add: hash_inv_def)
    then show ?thesis using j b(1,2) cap pos by (intro reached_mono [of s j t]) simp_all
  qed
  moreover have "hs_count t = card (occupied t)" using inv io by (simp add: occ cnt hash_inv_def card_Diff_singleton)
  ultimately have invt: "hash_inv t" using w pos by (simp add: hash_inv_def bucket_written_def)
  moreover have "hash_contents t = (hash_contents s)(k := None)"
  proof (rule hash_contents_eqI [OF invt])
    fix k' j assume j: "j < hs_capacity t" "key_at t k' j"
    then have ks: "key_at s k' j" "j \<noteq> i" "j < hs_capacity s" using ka cap by auto
    then have "k' \<noteq> k" using inj_onD [OF injs, of j i] at io by (auto simp: key_at_def)
    then show "((hash_contents s)(k := None)) k' = Some (bval t j)"
      using hash_contents_Some [OF inv ks(3,1)] b(3) ks(3) by simp
  next
    fix k' assume n: "\<forall>j<hs_capacity t. \<not> key_at t k' j"
    show "((hash_contents s)(k := None)) k' = None"
    proof (cases "k' = k")
      case False
      then have "\<forall>j<hs_capacity s. \<not> key_at s k' j" using n ka cap at by (auto simp: key_at_def)
      then show ?thesis using hash_contents_None by auto
    qed simp
  qed
  ultimately show ?thesis by blast
qed

section \<open>The operations\<close>

text \<open>A finite map with keys and values of fixed sizes and at most \<open>cap\<close> entries.\<close>

definition map_update_spec ::
  "nat \<Rightarrow> nat \<Rightarrow> nat \<Rightarrow> (bytes \<rightharpoonup> bytes) \<Rightarrow> bytes \<Rightarrow> bytes \<Rightarrow> u64 \<Rightarrow> map_error + (bytes \<rightharpoonup> bytes)" where
  "map_update_spec ks vs cap m k v fl =
     (if length k \<noteq> ks then Inl InvalidKey
      else if length v \<noteq> vs then Inl InvalidValue
      else if fl = 1 \<and> k \<in> dom m then Inl KeyExists
      else if fl = 2 \<and> k \<notin> dom m then Inl KeyNotFound
      else if k \<notin> dom m \<and> cap \<le> card (dom m) then Inl MapFull
      else Inr (m(k \<mapsto> v)))"

definition map_delete_spec :: "nat \<Rightarrow> (bytes \<rightharpoonup> bytes) \<Rightarrow> bytes \<Rightarrow> map_error + (bytes \<rightharpoonup> bytes)" where
  "map_delete_spec ks m k =
     (if length k \<noteq> ks then Inl InvalidKey else if k \<notin> dom m then Inl KeyNotFound else Inr (m(k := None)))"

abbreviation same_sizes :: "hash_storage \<Rightarrow> hash_storage \<Rightarrow> bool" where
  "same_sizes s t \<equiv> hs_key_size t = hs_key_size s \<and> hs_value_size t = hs_value_size s \<and> hs_capacity t = hs_capacity s"

lemma contents_key_length:
  assumes "hash_inv s" "hash_contents s k = Some v"
  shows "length k = hs_key_size s" "length v = hs_value_size s"
proof -
  obtain i where i: "i < hs_capacity s" "key_at s k i" using assms(2) hash_contents_None [of s k] by auto
  moreover have "hs_shape s" using assms(1) by (simp add: hash_inv_def)
  ultimately show "length k = hs_key_size s" "length v = hs_value_size s"
    using bucket_read(4,5) [of s i] hash_contents_Some [OF assms(1) i] assms(2) by (auto simp: key_at_def)
qed

lemma hs_lookup_contents:
  assumes "hash_inv s"
  shows "hs_lookup s k = Some (hash_contents s k)"
proof (cases "length k = hs_key_size s")
  case True
  have sh: "hs_shape s" using assms by (simp add: hash_inv_def)
  from assms show ?thesis
  proof (cases rule: find_bucket_cases [of s k])
    case (found i)
    then show ?thesis using True bucket_read(3) [OF sh, of i] by (simp add: hs_lookup_def)
  next
    case (absent i)
    then show ?thesis using True by (simp add: hs_lookup_def)
  qed
next
  case False
  then show ?thesis using contents_key_length(1) [OF assms, of k] by (cases "hash_contents s k") (simp_all add: hs_lookup_def)
qed

lemma write_entry_written:
  assumes "hs_shape s" "i < hs_capacity s" "length k = hs_key_size s" "length v = hs_value_size s"
  obtains t where "write_entry s i k v = Some t" "bucket_written s t i Occupied k v" "same_sizes s t" "hs_count t = hs_count s"
  using write_entry_buckets [OF assms] by (auto simp: bucket_written_def)

lemma set_state_written:
  assumes "hs_shape s" "i < hs_capacity s"
  obtains t where "hs_set_state s i st = Some t" "bucket_written s t i st (bkey s i) (bval s i)" "same_sizes s t"
    "hs_count t = hs_count s"
  using set_state_buckets [OF assms, of st] by (auto simp: bucket_written_def)

lemma hs_update_refines:
  assumes inv: "hash_inv s"
  shows "\<exists>r. hs_update s k v fl = Some r \<and>
     map_sum id hash_contents r = map_update_spec (hs_key_size s) (hs_value_size s) (hs_capacity s) (hash_contents s) k v fl \<and>
     (\<forall>t. r = Inr t \<longrightarrow> hash_inv t \<and> same_sizes s t)"
proof (cases "length k = hs_key_size s \<and> length v = hs_value_size s")
  case True
  then have kv: "length k = hs_key_size s" "length v = hs_value_size s" by simp_all
  have sh: "hs_shape s" using inv by (simp add: hash_inv_def)
  from inv show ?thesis
  proof (cases rule: find_bucket_cases [of s k])
    case (found i)
    show ?thesis
    proof (cases "fl = 1")
      case False
      obtain t where t: "write_entry s i k v = Some t" "bucket_written s t i Occupied k v" "same_sizes s t" "hs_count t = hs_count s"
        using write_entry_written [OF sh found(2) kv] .
      have "hash_inv t \<and> hash_contents t = (hash_contents s)(k \<mapsto> v)"
        using overwrite_inv [OF inv t(2) found(2,3)] t(4) by simp
      then show ?thesis using found t kv False by (simp add: hs_update_def map_update_spec_def domIff)
    qed (use found kv in \<open>simp add: hs_update_def map_update_spec_def domIff\<close>)
  next
    case (absent i)
    show ?thesis
    proof (cases "fl = 2 \<or> hs_capacity s \<le> hs_count s")
      case True
      then show ?thesis using absent kv card_contents [OF inv] by (auto simp: hs_update_def map_update_spec_def domIff)
    next
      case False
      let ?s1 = "s\<lparr>hs_count := hs_count s + 1\<rparr>"
      have ip: "insertion_point s k i" using absent False by simp
      then have i: "i < hs_capacity s" by (auto simp: insertion_point_def probe_def)
      have sh1: "hs_shape ?s1" using sh by simp
      obtain t where t: "write_entry ?s1 i k v = Some t" "bucket_written ?s1 t i Occupied k v" "same_sizes ?s1 t"
          "hs_count t = hs_count ?s1"
        using write_entry_written [OF sh1, of i k v] i kv by auto
      have "bucket_written s t i Occupied k v" using t(2) by (simp add: bucket_written_def)
      then have "hash_inv t \<and> hash_contents t = (hash_contents s)(k \<mapsto> v)"
        using insertion_inv [OF inv _ ip absent(2)] t(4) by simp
      then show ?thesis using absent t kv False card_contents [OF inv]
        by (simp add: hs_update_def map_update_spec_def domIff)
    qed
  qed
qed (auto simp: hs_update_def map_update_spec_def)

lemma hs_delete_refines:
  assumes inv: "hash_inv s"
  shows "\<exists>r. hs_delete s k = Some r \<and>
     map_sum id hash_contents r = map_delete_spec (hs_key_size s) (hash_contents s) k \<and>
     (\<forall>t. r = Inr t \<longrightarrow> hash_inv t \<and> same_sizes s t)"
proof (cases "length k = hs_key_size s")
  case True
  have sh: "hs_shape s" using inv by (simp add: hash_inv_def)
  from inv show ?thesis
  proof (cases rule: find_bucket_cases [of s k])
    case (found i)
    obtain t where t: "hs_set_state s i Deleted = Some t" "bucket_written s t i Deleted (bkey s i) (bval s i)"
        "same_sizes s t" "hs_count t = hs_count s"
      using set_state_written [OF sh found(2)] .
    let ?t = "t\<lparr>hs_count := hs_count t - 1\<rparr>"
    have "bucket_written s ?t i Deleted (bkey s i) (bval s i)"
      using t(2) by (simp add: bucket_written_def)
    then have "hash_inv ?t \<and> hash_contents ?t = (hash_contents s)(k := None)"
      using deletion_inv [OF inv _ found(2,3)] t(4) by simp
    moreover have "i \<in> occupied s" using found by (simp add: key_at_def)
    then have "hs_count s \<noteq> 0" using inv by (auto simp: hash_inv_def card_eq_0_iff)
    ultimately show ?thesis using found t True by (simp add: hs_delete_def map_delete_spec_def domIff)
  next
    case (absent i)
    then show ?thesis using True by (simp add: hs_delete_def map_delete_spec_def domIff)
  qed
qed (simp add: hs_delete_def map_delete_spec_def)

section \<open>Creation and resizing\<close>

lemma hash_storage_new_inv:
  assumes "hash_storage_new reserve ks vs cap = Inr s" "0 < cap"
  shows "hash_inv s \<and> hash_contents s = Map.empty \<and> hs_key_size s = ks \<and> hs_value_size s = vs \<and> hs_capacity s = cap"
proof -
  have s: "s = \<lparr>hs_storage = replicate ((1 + ks + vs) * cap) (bucket_byte Empty), hs_key_size = ks, hs_value_size = vs,
      hs_entry_size = 1 + ks + vs, hs_count = 0, hs_capacity = cap\<rparr>"
    using assms(1) by (auto simp: hash_storage_new_def hash_entry_size_def checked_add_usize_def checked_mul_usize_def
        res_Inr_iffs split: if_splits)
  have sh: "hs_shape s" by (simp add: s hs_shape_def)
  have st: "bst s i = Empty" if "i < cap" for i
  proof -
    have "i * hs_entry_size s < length (hs_storage s)" using bucket_room [OF sh, of i] that by (simp add: s)
    then show ?thesis by (simp add: s bst_def bucket_from_byte_def)
  qed
  then have "occupied s = {}" by (auto simp: s)
  moreover have "hs_count s = 0" "0 < hs_capacity s" using assms(2) by (simp_all add: s)
  ultimately have "hash_inv s" using sh by (auto simp: hash_inv_def inj_on_def)
  moreover have "hash_contents s = Map.empty" using st hash_contents_None [of s] by (auto simp: fun_eq_iff key_at_def s)
  ultimately show ?thesis by (simp add: s)
qed

lemma rehash_refines:
  assumes inv: "hash_inv s" and "hash_inv t" "distinct is" "set is \<subseteq> {..<hs_capacity s}"
    "hs_key_size t = hs_key_size s" "hs_value_size t = hs_value_size s"
    "\<forall>i\<in>set is \<inter> occupied s. hash_contents t (bkey s i) = None"
    "hs_count t + length (filter (\<lambda>i. bst s i = Occupied) is) \<le> hs_capacity t"
  shows "\<exists>t'. rehash s is t = Some (Inr t') \<and> hash_inv t' \<and> same_sizes t t' \<and>
     hash_contents t' = hash_contents t ++ map_of (map (\<lambda>i. (bkey s i, bval s i)) (filter (\<lambda>i. bst s i = Occupied) is))"
  using assms(2-)
proof (induction "is" arbitrary: t)
  case (Cons i "is")
  have sh: "hs_shape s" and i: "i < hs_capacity s" using inv Cons.prems by (auto simp: hash_inv_def)
  note rd = bucket_read [OF sh i]
  show ?case
  proof (cases "bst s i = Occupied")
    case True
    let ?rest = "map_of (map (\<lambda>i. (bkey s i, bval s i)) (filter (\<lambda>i. bst s i = Occupied) is))"
    have room: "hs_count t < hs_capacity t" and fresh: "hash_contents t (bkey s i) = None"
      using Cons.prems True i by auto
    obtain r where r: "hs_update t (bkey s i) (bval s i) 0 = Some r"
        "map_sum id hash_contents r = map_update_spec (hs_key_size t) (hs_value_size t) (hs_capacity t) (hash_contents t) (bkey s i) (bval s i) 0"
        "\<forall>t1. r = Inr t1 \<longrightarrow> hash_inv t1 \<and> same_sizes t t1"
      using hs_update_refines [OF Cons.prems(1), of "bkey s i" "bval s i" 0] by blast
    have "map_sum id hash_contents r = Inr ((hash_contents t)(bkey s i \<mapsto> bval s i))"
      using r(2) rd(4,5) Cons.prems room fresh card_contents [OF Cons.prems(1)]
      by (simp add: map_update_spec_def domIff)
    then obtain t1 where t1: "r = Inr t1" "hash_contents t1 = (hash_contents t)(bkey s i \<mapsto> bval s i)"
      by (cases r) auto
    then have t1i: "hash_inv t1" "same_sizes t t1" using r(3) by auto
    have other: "bkey s j \<noteq> bkey s i" if "j \<in> set is \<inter> occupied s" for j
    proof
      assume "bkey s j = bkey s i"
      moreover have "inj_on (bkey s) (occupied s)" using inv by (simp add: hash_inv_def)
      ultimately have "j = i" using that True i by (auto dest: inj_onD)
      then show False using that Cons.prems(2) by simp
    qed
    have "hs_count t1 = hs_count t + 1"
    proof -
      have "finite (dom (hash_contents t))" by (simp add: dom_hash_contents)
      then have "card (dom (hash_contents t1)) = card (dom (hash_contents t)) + 1"
        using fresh by (simp add: t1(2) domIff)
      then show ?thesis using card_contents [OF t1i(1)] card_contents [OF Cons.prems(1)] by simp
    qed
    moreover have "\<forall>j\<in>set is \<inter> occupied s. hash_contents t1 (bkey s j) = None"
      using Cons.prems(6) other t1(2) by auto
    ultimately obtain t' where t': "rehash s is t1 = Some (Inr t')" "hash_inv t'" "same_sizes t1 t'"
        "hash_contents t' = hash_contents t1 ++ ?rest"
      using Cons.IH [OF t1i(1)] Cons.prems t1i(2) True by auto
    have "?rest (bkey s i) = None"
      using other Cons.prems(3) by (force simp: map_of_eq_None_iff)
    then have eq: "hash_contents t1 ++ ?rest = hash_contents t ++ map_of (map (\<lambda>i. (bkey s i, bval s i)) (filter (\<lambda>i. bst s i = Occupied) (i # is)))"
      using True t1(2) by (auto simp: fun_eq_iff map_add_def split: option.splits)
    have "rehash s (i # is) t = Some (Inr t')" using t'(1) t1(1) r(1) True by (simp add: rd)
    moreover have "same_sizes t t'" using t'(3) t1i(2) by simp
    ultimately show ?thesis using t'(2,4) eq by (intro exI [of _ t']) (simp only: conj_absorb simp_thms)
  next
    case False
    then show ?thesis using Cons.IH [of t] Cons.prems by (simp add: rd)
  qed
qed simp

lemma occupied_length:
  "hash_inv s \<Longrightarrow> length (filter (\<lambda>i. bst s i = Occupied) [0..<hs_capacity s]) = hs_count s"
  by (simp add: distinct_length_filter Int_def conj_commute hash_inv_def)

lemma hs_resize_contents:
  assumes inv: "hash_inv s" and res: "hs_resize reserve s n = Some r" and n: "hs_count s \<le> n"
  shows "(\<exists>t. r = Inr t \<and> hash_inv t \<and> hash_contents t = hash_contents s \<and> hs_capacity t = n \<and>
       hs_key_size t = hs_key_size s \<and> hs_value_size t = hs_value_size s) \<or> r = Inl InvalidValue \<and> n = 0 \<or>
     (\<exists>e. r = Inl e \<and> hash_storage_new reserve (hs_key_size s) (hs_value_size s) n = Inl e)"
proof (cases "n = 0")
  case False
  show ?thesis
  proof (cases "hash_storage_new reserve (hs_key_size s) (hs_value_size s) n")
    case (Inr t0)
    then have t0: "hash_inv t0" "hash_contents t0 = Map.empty" "hs_key_size t0 = hs_key_size s"
        "hs_value_size t0 = hs_value_size s" "hs_capacity t0 = n"
      using hash_storage_new_inv [OF Inr] False by auto
    have "hs_count t0 = 0" using card_contents [OF t0(1)] t0(2) by simp
    moreover note occupied_length [OF inv]
    ultimately obtain t' where "rehash s [0..<hs_capacity s] t0 = Some (Inr t')" "hash_inv t'" "same_sizes t0 t'"
        "hash_contents t' = Map.empty ++ map_of (map (\<lambda>i. (bkey s i, bval s i)) (filter (\<lambda>i. bst s i = Occupied) [0..<hs_capacity s]))"
      using rehash_refines [OF inv t0(1), of "[0..<hs_capacity s]"] t0 n by (auto simp: lessThan_atLeast0)
    then show ?thesis using res Inr False t0 by (auto simp: hs_resize_def hash_contents_def [of s])
  next
    case (Inl e)
    then have "r = Inl e" using res False by (simp add: hs_resize_def)
    then show ?thesis using Inl by simp
  qed
qed (use res in \<open>simp add: hs_resize_def\<close>)

section \<open>The map\<close>

definition hash_map_inv :: "hash_map \<Rightarrow> bool" where
  "hash_map_inv m \<longleftrightarrow> hash_inv (hm_storage m) \<and> hs_key_size (hm_storage m) = unat (def_key_size (hm_def m)) \<and>
     hs_value_size (hm_storage m) = unat (def_value_size (hm_def m)) \<and>
     hs_capacity (hm_storage m) = unat (def_max_entries (hm_def m))"

definition hash_map_contents :: "hash_map \<Rightarrow> bytes \<rightharpoonup> bytes" where
  "hash_map_contents m = hash_contents (hm_storage m)"

lemma hash_map_new_inv:
  assumes "hash_map_new P heap d = Inr m"
  shows "hash_map_inv m \<and> hash_map_contents m = Map.empty \<and> hm_def m = d"
proof -
  obtain st where st: "hash_storage_new (try_reserve_exact heap) (unat (def_key_size d)) (unat (def_value_size d))
        (unat (def_max_entries d)) = Inr st" "m = \<lparr>hm_def = d, hm_storage = st\<rparr>" and "def_max_entries d \<noteq> 0"
    using assms by (auto simp: hash_map_new_def res_Inr_iffs split: if_splits)
  moreover from this have "0 < unat (def_max_entries d)" by (simp add: unat_gt_0)
  ultimately show ?thesis using hash_storage_new_inv [OF st(1)] by (simp add: hash_map_inv_def hash_map_contents_def)
qed

text \<open>In the embedded profile a map that is created fits the memory budget.\<close>

lemma hash_map_new_budget:
  assumes "hash_map_new P heap d = Inr m" "embedded_feature P" "0 < MEMORY_BUDGET P"
  shows "length (hs_storage (hm_storage m)) \<le> MEMORY_BUDGET P"
  using assms
  by (auto simp: hash_map_new_def res_Inr_iffs budget_check_def hash_allocation_size_def hash_storage_new_def
      hash_entry_size_def checked_add_usize_def checked_mul_usize_def split: if_splits)

lemma hash_map_update_refines:
  assumes "hash_map_inv m"
  shows "\<exists>r. hm_update m k v fl = Some r \<and>
     map_sum id hash_map_contents r = map_update_spec (unat (def_key_size (hm_def m))) (unat (def_value_size (hm_def m)))
        (unat (def_max_entries (hm_def m))) (hash_map_contents m) k v fl \<and>
     (\<forall>t. r = Inr t \<longrightarrow> hash_map_inv t \<and> hm_def t = hm_def m)"
proof -
  obtain r where r: "hs_update (hm_storage m) k v fl = Some r"
     "map_sum id hash_contents r = map_update_spec (hs_key_size (hm_storage m)) (hs_value_size (hm_storage m))
        (hs_capacity (hm_storage m)) (hash_contents (hm_storage m)) k v fl"
     "\<forall>t. r = Inr t \<longrightarrow> hash_inv t \<and> same_sizes (hm_storage m) t"
    using hs_update_refines [of "hm_storage m" k v fl] assms by (auto simp: hash_map_inv_def)
  show ?thesis using r assms
    by (cases r) (simp_all add: hm_update_def hash_map_inv_def hash_map_contents_def)
qed

lemma hash_map_delete_refines:
  assumes "hash_map_inv m"
  shows "\<exists>r. hm_delete m k = Some r \<and>
     map_sum id hash_map_contents r = map_delete_spec (unat (def_key_size (hm_def m))) (hash_map_contents m) k \<and>
     (\<forall>t. r = Inr t \<longrightarrow> hash_map_inv t \<and> hm_def t = hm_def m)"
proof -
  obtain r where r: "hs_delete (hm_storage m) k = Some r"
     "map_sum id hash_contents r = map_delete_spec (hs_key_size (hm_storage m)) (hash_contents (hm_storage m)) k"
     "\<forall>t. r = Inr t \<longrightarrow> hash_inv t \<and> same_sizes (hm_storage m) t"
    using hs_delete_refines [of "hm_storage m" k] assms by (auto simp: hash_map_inv_def)
  show ?thesis using r assms
    by (cases r) (simp_all add: hm_delete_def hash_map_inv_def hash_map_contents_def)
qed

lemma hash_map_lookup_contents: "hash_map_inv m \<Longrightarrow> hm_lookup m k = Some (hash_map_contents m k)"
  by (simp add: hm_lookup_def hash_map_contents_def hash_map_inv_def hs_lookup_contents)

text \<open>A pointer into the map is the address of the value, and the whole value lies in the buffer.\<close>

lemma hash_map_lookup_ptr:
  assumes inv: "hash_map_inv m"
  shows "\<exists>p. hm_lookup_ptr m k = Some p \<and> (p = None \<longleftrightarrow> hash_map_contents m k = None) \<and>
     (\<forall>a. p = Some a \<longrightarrow> a + unat (def_value_size (hm_def m)) \<le> length (hs_storage (hm_storage m)) \<and>
        hash_map_contents m k = Some (take (unat (def_value_size (hm_def m))) (drop a (hs_storage (hm_storage m)))))"
proof -
  let ?s = "hm_storage m"
  have hi: "hash_inv ?s" using inv by (simp add: hash_map_inv_def)
  then have sh: "hs_shape ?s" by (simp add: hash_inv_def)
  show ?thesis
  proof (cases "length k = hs_key_size ?s")
    case True
    from hi show ?thesis
    proof (cases rule: find_bucket_cases [of ?s k])
      case (found i)
      then show ?thesis using True bucket_read(3) [OF sh, of i] bucket_room [OF sh, of i] inv
        by (auto simp: hm_lookup_ptr_def Let_def hash_map_contents_def bucket_offset_def bval_def hash_map_inv_def)
    next
      case (absent i)
      then show ?thesis using True by (simp add: hm_lookup_ptr_def Let_def hash_map_contents_def)
    qed
  next
    case False
    then show ?thesis using contents_key_length(1) [OF hi, of k]
      by (cases "hash_contents ?s k") (simp_all add: hm_lookup_ptr_def Let_def hash_map_contents_def)
  qed
qed

text \<open>Resizing keeps the contents, or it is refused and the old map stays in place.\<close>

lemma hs_resize_returns:
  assumes inv: "hash_inv s" and n: "hs_count s \<le> n"
  shows "\<exists>r. hs_resize reserve s n = Some r"
proof (cases "n = 0")
  case False
  show ?thesis
  proof (cases "hash_storage_new reserve (hs_key_size s) (hs_value_size s) n")
    case (Inr t0)
    then have "hash_inv t0" "hash_contents t0 = Map.empty" "hs_key_size t0 = hs_key_size s"
        "hs_value_size t0 = hs_value_size s" "hs_capacity t0 = n"
      using hash_storage_new_inv [OF Inr] False by auto
    then show ?thesis using rehash_refines [OF inv, of t0 "[0..<hs_capacity s]"] Inr False n
        card_contents [of t0] card_contents [OF inv]
      by (auto simp: hs_resize_def lessThan_atLeast0 occupied_length inv)
  qed (use False in \<open>simp add: hs_resize_def\<close>)
qed (simp add: hs_resize_def)

lemma hash_map_resize_refines:
  assumes inv: "hash_map_inv m"
  shows "\<exists>r. hm_resize heap m n = Some r \<and>
     (\<forall>t. r = Inr t \<longrightarrow> hash_map_inv t \<and> hash_map_contents t = hash_map_contents m \<and>
        hm_def t = (hm_def m)\<lparr>def_max_entries := n\<rparr>) \<and>
     (unat n < card (dom (hash_map_contents m)) \<longrightarrow> r = Inl InvalidValue)"
proof -
  have hi: "hash_inv (hm_storage m)" using inv by (simp add: hash_map_inv_def)
  note cc = card_contents [OF hi]
  show ?thesis
  proof (cases "unat n < hs_count (hm_storage m)")
    case True
    then show ?thesis by (simp add: hm_resize_def)
  next
    case False
    then obtain r where r: "hs_resize (try_reserve_exact heap) (hm_storage m) (unat n) = Some r"
      using hs_resize_returns [OF hi, of "unat n"] by auto
    from hs_resize_contents [OF hi r] False show ?thesis using inv r cc
      by (auto simp: hm_resize_def hash_map_inv_def hash_map_contents_def)
  qed
qed

interpretation hash: keyed_map hash_map_inv hash_map_contents hm_lookup hm_update
proof
  fix m m' :: hash_map and k v fl
  assume m: "hash_map_inv m"
  show "hm_lookup m k = Some (hash_map_contents m k)" using m by (rule hash_map_lookup_contents)
  show "\<exists>r. hm_update m k v fl = Some r" using hash_map_update_refines [OF m] by blast
  assume "hm_update m k v fl = Some (Inr m')"
  then show "hash_map_inv m' \<and> hash_map_contents m' = (hash_map_contents m)(k \<mapsto> v)"
    using hash_map_update_refines [OF m, of k v fl] by (auto simp: map_update_spec_def split: if_splits)
qed

text \<open>The whole interface: a sequence of operations gets the answers of a finite map of bounded size.\<close>

datatype hash_op = HashLookup bytes | HashUpdate bytes bytes u64 | HashDelete bytes

datatype hash_answer = HashValue "bytes option" | HashDone "map_error + unit"

primrec hash_run :: "hash_map \<Rightarrow> hash_op list \<Rightarrow> hash_answer list option" where
  "hash_run m [] = Some []"
| "hash_run m (x # xs) = (case x of
     HashLookup k \<Rightarrow> Option.bind (hm_lookup m k) (\<lambda>r. map_option ((#) (HashValue r)) (hash_run m xs))
   | HashUpdate k v fl \<Rightarrow> Option.bind (hm_update m k v fl) (\<lambda>r. map_option ((#) (HashDone (map_sum id (\<lambda>_. ()) r)))
       (hash_run (case r of Inl _ \<Rightarrow> m | Inr m' \<Rightarrow> m') xs))
   | HashDelete k \<Rightarrow> Option.bind (hm_delete m k) (\<lambda>r. map_option ((#) (HashDone (map_sum id (\<lambda>_. ()) r)))
       (hash_run (case r of Inl _ \<Rightarrow> m | Inr m' \<Rightarrow> m') xs)))"

primrec finite_map_run :: "map_def \<Rightarrow> (bytes \<rightharpoonup> bytes) \<Rightarrow> hash_op list \<Rightarrow> hash_answer list" where
  "finite_map_run d m [] = []"
| "finite_map_run d m (x # xs) = (case x of
     HashLookup k \<Rightarrow> HashValue (m k) # finite_map_run d m xs
   | HashUpdate k v fl \<Rightarrow>
       (case map_update_spec (unat (def_key_size d)) (unat (def_value_size d)) (unat (def_max_entries d)) m k v fl of
          Inl e \<Rightarrow> HashDone (Inl e) # finite_map_run d m xs
        | Inr m' \<Rightarrow> HashDone (Inr ()) # finite_map_run d m' xs)
   | HashDelete k \<Rightarrow>
       (case map_delete_spec (unat (def_key_size d)) m k of
          Inl e \<Rightarrow> HashDone (Inl e) # finite_map_run d m xs
        | Inr m' \<Rightarrow> HashDone (Inr ()) # finite_map_run d m' xs))"

lemma hash_run_refines:
  "hash_map_inv m \<Longrightarrow> hash_run m xs = Some (finite_map_run (hm_def m) (hash_map_contents m) xs)"
proof (induction xs arbitrary: m)
  case (Cons x xs)
  show ?case
  proof (cases x)
    case (HashLookup k)
    then show ?thesis using Cons hash_map_lookup_contents [OF Cons.prems, of k] by simp
  next
    case (HashUpdate k v fl)
    obtain r where r: "hm_update m k v fl = Some r"
      "map_sum id hash_map_contents r = map_update_spec (unat (def_key_size (hm_def m))) (unat (def_value_size (hm_def m)))
        (unat (def_max_entries (hm_def m))) (hash_map_contents m) k v fl"
      "\<forall>t. r = Inr t \<longrightarrow> hash_map_inv t \<and> hm_def t = hm_def m" using hash_map_update_refines [OF Cons.prems] by blast
    show ?thesis
    proof (cases r)
      case (Inl e)
      then show ?thesis using r(1) Cons by (simp add: HashUpdate r(2) [symmetric])
    next
      case (Inr t)
      then show ?thesis using r(1,3) Cons.IH [of t] by (simp add: HashUpdate r(2) [symmetric])
    qed
  next
    case (HashDelete k)
    obtain r where r: "hm_delete m k = Some r"
      "map_sum id hash_map_contents r = map_delete_spec (unat (def_key_size (hm_def m))) (hash_map_contents m) k"
      "\<forall>t. r = Inr t \<longrightarrow> hash_map_inv t \<and> hm_def t = hm_def m" using hash_map_delete_refines [OF Cons.prems] by blast
    show ?thesis
    proof (cases r)
      case (Inl e)
      then show ?thesis using r(1) Cons by (simp add: HashDelete r(2) [symmetric])
    next
      case (Inr t)
      then show ?thesis using r(1,3) Cons.IH [of t] by (simp add: HashDelete r(2) [symmetric])
    qed
  qed
qed simp

end
