(* ===== verification/Array_Map.thy ===== *)
theory Array_Map
  imports Map_Types
begin

text \<open>
  The BPF array map (\<open>maps/array.rs\<close>): a flat buffer of equally sized values, addressed by a four-byte
  index. It is a keyed map on the indices below \<open>max_entries\<close>, all of which are present from the start;
  a growing resize adds zeroed values and a shrinking one cuts the tail off.
\<close>

section \<open>Storage\<close>

record array_storage =
  as_buffer :: bytes
  as_value_size :: nat
  as_max_entries :: nat

definition array_storage_new :: "reservation \<Rightarrow> nat \<Rightarrow> nat \<Rightarrow> map_error + array_storage" where
  "array_storage_new reserve value_size max_entries =
     res_bind (ok_or (checked_mul_usize value_size max_entries) MapOutOfMemory) (\<lambda>len.
     res_bind (reserve len) (\<lambda>_.
       Inr \<lparr>as_buffer = vec_resize [] len 0, as_value_size = value_size, as_max_entries = max_entries\<rparr>))"

definition as_get :: "array_storage \<Rightarrow> nat \<Rightarrow> bytes option option" where
  "as_get s index =
     (if index \<ge> as_max_entries s then Some None
      else let start = index * as_value_size s
           in map_option Some (get_slice (as_buffer s) start (start + as_value_size s)))"

definition as_set :: "array_storage \<Rightarrow> nat \<Rightarrow> bytes \<Rightarrow> (bool \<times> array_storage) option" where
  "as_set s index val =
     (if index \<ge> as_max_entries s \<or> length val \<noteq> as_value_size s then Some (False, s)
      else let start = index * as_value_size s
           in map_option (\<lambda>buf. (True, s\<lparr>as_buffer := buf\<rparr>))
                (copy_slice (as_buffer s) start (start + as_value_size s) val))"

definition as_resize :: "reservation \<Rightarrow> array_storage \<Rightarrow> nat \<Rightarrow> map_error + array_storage" where
  "as_resize reserve s new_max_entries =
     res_bind (ok_or (checked_mul_usize (as_value_size s) new_max_entries) MapOutOfMemory) (\<lambda>new_size.
     res_bind (if new_size > length (as_buffer s) then reserve (new_size - length (as_buffer s)) else Inr ()) (\<lambda>_.
       Inr (s\<lparr>as_buffer := vec_resize (as_buffer s) new_size 0, as_max_entries := new_max_entries\<rparr>)))"

section \<open>The map\<close>

record array_map =
  am_def :: map_def
  am_data :: array_storage

definition array_allocation_size :: "u32 \<Rightarrow> u32 \<Rightarrow> nat option" where
  "array_allocation_size value_size max_entries = checked_mul_usize (unat value_size) (unat max_entries)"

definition array_map_new :: "profile \<Rightarrow> (nat \<Rightarrow> bool) \<Rightarrow> map_def \<Rightarrow> map_error + array_map" where
  "array_map_new P heap d =
     (if map_type_of d \<noteq> MtArray then Inl InvalidMapType
      else if def_key_size d \<noteq> 4 then Inl InvalidKey
      else if def_value_size d = 0 then Inl InvalidValue
      else if def_max_entries d = 0 then Inl InvalidValue
      else res_bind (budget_check P (array_allocation_size (def_value_size d) (def_max_entries d))) (\<lambda>_.
           res_bind (array_storage_new (try_reserve_exact heap) (unat (def_value_size d)) (unat (def_max_entries d))) (\<lambda>st.
             Inr \<lparr>am_def = d, am_data = st\<rparr>)))"

definition array_map_with_entries :: "profile \<Rightarrow> (nat \<Rightarrow> bool) \<Rightarrow> u32 \<Rightarrow> u32 \<Rightarrow> map_error + array_map" where
  "array_map_with_entries P heap value_size max_entries =
     array_map_new P heap (map_def_new MtArray 4 value_size max_entries)"

definition array_parse_key :: "bytes \<Rightarrow> u32 option" where
  "array_parse_key key = (if length key \<noteq> 4 then None else Some (u32_from_bytes key))"

definition am_lookup :: "array_map \<Rightarrow> bytes \<Rightarrow> bytes option option" where
  "am_lookup m key =
     (case array_parse_key key of None \<Rightarrow> Some None | Some index \<Rightarrow> as_get (am_data m) (unat index))"

definition am_update :: "array_map \<Rightarrow> bytes \<Rightarrow> bytes \<Rightarrow> u64 \<Rightarrow> (map_error + array_map) option" where
  "am_update m key val flags =
     (case array_parse_key key of
        None \<Rightarrow> Some (Inl InvalidKey)
      | Some index \<Rightarrow>
          if length val \<noteq> unat (def_value_size (am_def m)) then Some (Inl InvalidValue)
          else map_option (\<lambda>(ok, st). if ok then Inr (m\<lparr>am_data := st\<rparr>) else Inl InvalidKey)
                 (as_set (am_data m) (unat index) val))"

definition am_delete :: "array_map \<Rightarrow> bytes \<Rightarrow> map_error + array_map" where
  "am_delete m key = Inl NotSupported"

definition am_lookup_ptr :: "array_map \<Rightarrow> bytes \<Rightarrow> nat option option" where
  "am_lookup_ptr m key =
     (case array_parse_key key of
        None \<Rightarrow> Some None
      | Some index \<Rightarrow> map_option (map_option (\<lambda>_. unat index * as_value_size (am_data m))) (as_get (am_data m) (unat index)))"

definition am_resize :: "(nat \<Rightarrow> bool) \<Rightarrow> array_map \<Rightarrow> u32 \<Rightarrow> map_error + array_map" where
  "am_resize heap m new_max_entries =
     res_bind (as_resize (try_reserve_exact heap) (am_data m) (unat new_max_entries)) (\<lambda>st.
       Inr (m\<lparr>am_data := st, am_def := (am_def m)\<lparr>def_max_entries := new_max_entries\<rparr>\<rparr>))"

section \<open>Correctness\<close>

definition array_map_inv :: "array_map \<Rightarrow> bool" where
  "array_map_inv m \<longleftrightarrow> length (as_buffer (am_data m)) = as_value_size (am_data m) * as_max_entries (am_data m) \<and>
     as_value_size (am_data m) = unat (def_value_size (am_def m)) \<and>
     as_max_entries (am_data m) = unat (def_max_entries (am_def m))"

definition array_value :: "array_map \<Rightarrow> nat \<Rightarrow> bytes" where
  "array_value m i = take (as_value_size (am_data m)) (drop (i * as_value_size (am_data m)) (as_buffer (am_data m)))"

definition array_map_contents :: "array_map \<Rightarrow> bytes \<rightharpoonup> bytes" where
  "array_map_contents m key =
     (case array_parse_key key of
        None \<Rightarrow> None
      | Some index \<Rightarrow> if unat index < as_max_entries (am_data m) then Some (array_value m (unat index)) else None)"

lemma array_room:
  assumes "array_map_inv m" "i < as_max_entries (am_data m)"
  shows "i * as_value_size (am_data m) + as_value_size (am_data m) \<le> length (as_buffer (am_data m))"
proof -
  have "Suc i * as_value_size (am_data m) \<le> as_max_entries (am_data m) * as_value_size (am_data m)"
    using assms(2) by (intro mult_le_mono1) simp
  then show ?thesis using assms(1) by (simp add: array_map_inv_def mult.commute add.commute)
qed

lemma as_get_value:
  assumes "array_map_inv m"
  shows "as_get (am_data m) i = Some (if i < as_max_entries (am_data m) then Some (array_value m i) else None)"
  using array_room [OF assms, of i] by (simp add: as_get_def Let_def buffer_simps array_value_def)

lemma array_map_lookup_contents: "array_map_inv m \<Longrightarrow> am_lookup m k = Some (array_map_contents m k)"
  by (simp add: am_lookup_def array_map_contents_def as_get_value split: option.split)

lemma array_map_new_inv:
  assumes "array_map_new P heap d = Inr m"
  shows "array_map_inv m \<and> am_def m = d \<and> (\<forall>i<unat (def_max_entries d). array_value m i = replicate (unat (def_value_size d)) 0)"
proof -
  have m: "m = \<lparr>am_def = d, am_data = \<lparr>as_buffer = replicate (unat (def_value_size d) * unat (def_max_entries d)) 0,
       as_value_size = unat (def_value_size d), as_max_entries = unat (def_max_entries d)\<rparr>\<rparr>"
    using assms by (auto simp: array_map_new_def array_storage_new_def u32_product_fits res_Inr_iffs vec_resize_def split: if_splits)
  then have inv: "array_map_inv m" by (simp add: array_map_inv_def)
  have "array_value m i = replicate (unat (def_value_size d)) 0" if "i < unat (def_max_entries d)" for i
    using array_room [OF inv, of i] that by (simp add: m array_value_def min_def)
  then show ?thesis using inv by (simp add: m)
qed

lemma array_map_update_refines:
  assumes inv: "array_map_inv m"
  shows "\<exists>r. am_update m k v fl = Some r \<and>
     (if array_parse_key k = None then r = Inl InvalidKey
      else if length v \<noteq> unat (def_value_size (am_def m)) then r = Inl InvalidValue
      else if array_map_contents m k = None then r = Inl InvalidKey
      else \<exists>t. r = Inr t \<and> array_map_inv t \<and> am_def t = am_def m \<and> array_map_contents t = (array_map_contents m)(k \<mapsto> v))"
proof (cases "\<exists>index. array_parse_key k = Some index \<and> length v = unat (def_value_size (am_def m)) \<and>
    unat index < as_max_entries (am_data m)")
  case True
  then obtain index where ix: "array_parse_key k = Some index" "length v = unat (def_value_size (am_def m))"
      "unat index < as_max_entries (am_data m)" by blast
  let ?n = "as_value_size (am_data m)"
  let ?t = "m\<lparr>am_data := (am_data m)\<lparr>as_buffer := overwrite (as_buffer (am_data m)) (unat index * ?n) v\<rparr>\<rparr>"
  have v: "length v = ?n" using ix inv by (simp add: array_map_inv_def)
  note room = array_room [OF inv ix(3)]
  have up: "am_update m k v fl = Some (Inr ?t)"
    using ix v room by (simp add: am_update_def as_set_def Let_def buffer_simps)
  have invt: "array_map_inv ?t" using inv v room by (simp add: array_map_inv_def)
  have val: "array_value ?t i = (if i = unat index then v else array_value m i)" if "i < as_max_entries (am_data m)" for i
  proof (cases "i = unat index")
    case True
    then show ?thesis using slice_overwrite_same [of "unat index * ?n" v "as_buffer (am_data m)"] v room
      by (simp add: array_value_def)
  next
    case False
    then have "Suc i \<le> unat index \<or> Suc (unat index) \<le> i" by linarith
    then have "Suc i * ?n \<le> unat index * ?n \<or> Suc (unat index) * ?n \<le> i * ?n" by (meson mult_le_mono1)
    then have "i * ?n + ?n \<le> unat index * ?n \<or> unat index * ?n + ?n \<le> i * ?n" by (simp add: add.commute)
    then show ?thesis using slice_overwrite_other [of "unat index * ?n" v "as_buffer (am_data m)" "i * ?n" ?n]
        array_room [OF inv that] False v room by (simp add: array_value_def)
  qed
  have "array_map_contents ?t = (array_map_contents m)(k \<mapsto> v)"
  proof
    fix k'
    show "array_map_contents ?t k' = ((array_map_contents m)(k \<mapsto> v)) k'"
    proof (cases "array_parse_key k'")
      case None
      then show ?thesis using ix(1) by (auto simp: array_map_contents_def)
    next
      case (Some index')
      show ?thesis
      proof (cases "k' = k")
        case True
        then show ?thesis using ix(1,3) val [OF ix(3)] by (simp add: array_map_contents_def)
      next
        case False
        then have "unat index' \<noteq> unat index"
          using ix(1) Some u32_from_bytes_inj [of k' k]
          by (auto simp: array_parse_key_def word_unat_eq_iff [symmetric] split: if_splits)
        then have "array_value ?t (unat index') = array_value m (unat index')" if "unat index' < as_max_entries (am_data m)"
          using val [OF that] by (simp only: if_False)
        then show ?thesis using Some False by (simp add: array_map_contents_def)
      qed
    qed
  qed
  then show ?thesis using up invt ix by (simp add: array_map_contents_def)
next
  case False
  then show ?thesis
    using inv by (cases "array_parse_key k") (auto simp: am_update_def as_set_def array_map_contents_def array_map_inv_def)
qed

text \<open>A value pointer is the address of a whole value.\<close>

lemma array_map_lookup_ptr:
  assumes "array_map_inv m"
  shows "\<exists>p. am_lookup_ptr m k = Some p \<and> (p = None \<longleftrightarrow> array_map_contents m k = None) \<and>
     (\<forall>a. p = Some a \<longrightarrow> a + unat (def_value_size (am_def m)) \<le> length (as_buffer (am_data m)) \<and>
        array_map_contents m k = Some (take (unat (def_value_size (am_def m))) (drop a (as_buffer (am_data m)))))"
proof (cases "array_parse_key k")
  case (Some index)
  have "as_value_size (am_data m) = unat (def_value_size (am_def m))" using assms by (simp add: array_map_inv_def)
  then show ?thesis using Some array_room [OF assms, of "unat index"]
    by (auto simp: am_lookup_ptr_def as_get_value [OF assms] array_map_contents_def array_value_def)
qed (simp add: am_lookup_ptr_def array_map_contents_def)

text \<open>A resize that succeeds keeps every value whose index is still in range, and zeroes the new ones.\<close>

lemma array_map_resize_contents:
  assumes inv: "array_map_inv m" and r: "am_resize heap m n = Inr t"
  shows "array_map_inv t \<and> am_def t = (am_def m)\<lparr>def_max_entries := n\<rparr> \<and>
     (\<forall>i<unat n. array_value t i =
        (if i < unat (def_max_entries (am_def m)) then array_value m i else replicate (unat (def_value_size (am_def m))) 0))"
proof -
  let ?n = "as_value_size (am_data m)" and ?b = "as_buffer (am_data m)"
  have t: "t = m\<lparr>am_data := (am_data m)\<lparr>as_buffer := vec_resize ?b (?n * unat n) 0, as_max_entries := unat n\<rparr>,
       am_def := (am_def m)\<lparr>def_max_entries := n\<rparr>\<rparr>"
    using r by (auto simp: am_resize_def as_resize_def checked_mul_usize_def res_Inr_iffs split: if_splits)
  then have invt: "array_map_inv t" using inv by (simp add: array_map_inv_def)
  have vs: "?n = unat (def_value_size (am_def m))" "length ?b = ?n * unat (def_max_entries (am_def m))"
    using inv by (simp_all add: array_map_inv_def)
  have "array_value t i = (if i < unat (def_max_entries (am_def m)) then array_value m i else replicate ?n 0)"
    if i: "i < unat n" for i
  proof -
    have rt: "i * ?n + ?n \<le> ?n * unat n" using array_room [OF invt, of i] i by (simp add: t)
    show ?thesis
    proof (cases "i < unat (def_max_entries (am_def m))")
      case True
      then have "i * ?n + ?n \<le> length ?b" using array_room [OF inv, of i] inv by (simp add: array_map_inv_def)
      then show ?thesis using True rt by (simp add: t array_value_def slice_vec_resize)
    next
      case False
      then have "length ?b \<le> i * ?n" using vs(2) by (simp add: mult.commute)
      then show ?thesis using False rt by (simp add: t array_value_def slice_vec_resize)
    qed
  qed
  then show ?thesis using invt vs(1) by (simp add: t)
qed

interpretation array: keyed_map array_map_inv array_map_contents am_lookup am_update
proof
  fix m m' :: array_map and k v fl
  assume m: "array_map_inv m"
  show "am_lookup m k = Some (array_map_contents m k)" using m by (rule array_map_lookup_contents)
  show "\<exists>r. am_update m k v fl = Some r" using array_map_update_refines [OF m] by blast
  assume "am_update m k v fl = Some (Inr m')"
  then show "array_map_inv m' \<and> array_map_contents m' = (array_map_contents m)(k \<mapsto> v)"
    using array_map_update_refines [OF m, of k v fl] by (auto split: if_splits)
qed

end
