(* ===== verification/Timeseries_Map.thy ===== *)
theory Timeseries_Map
  imports Map_Types
begin

text \<open>
  The BPF time-series map (\<open>maps/timeseries.rs\<close>): a circular buffer of timestamped values that
  overwrites the oldest entry when it is full. It is shown to refine the list of the newest entries,
  oldest first. The average over a window, which is computed in floating point, is not modelled.
\<close>

section \<open>Storage\<close>

record ts_storage =
  ts_buffer :: bytes
  ts_entry_size :: nat
  ts_value_size :: nat
  ts_capacity :: nat
  ts_count :: nat
  ts_head_idx :: nat

type_synonym ts_entry = "u64 \<times> bytes"

definition TS_HEADER :: nat where "TS_HEADER = 8"

definition ts_to_bytes :: "u64 \<Rightarrow> bytes" where
  "ts_to_bytes timestamp_ns = le_bytes 8 timestamp_ns"

definition ts_from_bytes :: "bytes \<Rightarrow> u64 option" where
  "ts_from_bytes bs = (if length bs < 8 then None else Some (le_value (take 8 bs)))"

definition ts_storage_new :: "reservation \<Rightarrow> nat \<Rightarrow> nat \<Rightarrow> map_error + ts_storage" where
  "ts_storage_new reserve value_size capacity =
     res_bind (ok_or (checked_add_usize TS_HEADER value_size) MapOutOfMemory) (\<lambda>entry_size.
     res_bind (ok_or (checked_mul_usize entry_size capacity) MapOutOfMemory) (\<lambda>len.
     res_bind (reserve len) (\<lambda>_.
       Inr \<lparr>ts_buffer = vec_resize [] len 0, ts_entry_size = entry_size, ts_value_size = value_size,
            ts_capacity = capacity, ts_count = 0, ts_head_idx = 0\<rparr>)))"

text \<open>Writing the header and the value of the entry at a physical index.\<close>

definition ts_write_entry :: "bytes \<Rightarrow> nat \<Rightarrow> nat \<Rightarrow> ts_entry \<Rightarrow> bytes option" where
  "ts_write_entry buffer offset value_size entry = do {
     b1 \<leftarrow> copy_slice buffer offset (offset + TS_HEADER) (ts_to_bytes (fst entry));
     copy_slice b1 (offset + TS_HEADER) (offset + TS_HEADER + value_size) (snd entry) }"

text \<open>A full buffer moves the head; \<open>% capacity\<close> panics for a capacity of zero.\<close>

definition ts_push :: "ts_storage \<Rightarrow> u64 \<Rightarrow> bytes \<Rightarrow> (bool \<times> ts_storage) option" where
  "ts_push s timestamp_ns val =
     (if length val \<noteq> ts_value_size s then Some (False, s)
      else if \<not> ts_count s < ts_capacity s \<and> ts_capacity s = 0 then None
      else let (write_idx, s1) =
                 (if ts_count s < ts_capacity s then (ts_count s, s)
                  else (ts_head_idx s, s\<lparr>ts_head_idx := (ts_head_idx s + 1) mod ts_capacity s\<rparr>));
               offset = write_idx * ts_entry_size s
           in do {
             buf \<leftarrow> ts_write_entry (ts_buffer s1) offset (ts_value_size s) (timestamp_ns, val);
             Some (True, s1\<lparr>ts_buffer := buf,
                            ts_count := (if ts_count s < ts_capacity s then ts_count s + 1 else ts_count s)\<rparr>) })"

definition ts_get :: "ts_storage \<Rightarrow> nat \<Rightarrow> ts_entry option option" where
  "ts_get s logical_idx =
     (if logical_idx \<ge> ts_count s then Some None
      else if ts_capacity s = 0 then None
      else let physical_idx = (ts_head_idx s + logical_idx) mod ts_capacity s;
               offset = physical_idx * ts_entry_size s
           in do {
             rest \<leftarrow> get_slice (ts_buffer s) offset (length (ts_buffer s));
             (case ts_from_bytes rest of
                None \<Rightarrow> Some None
              | Some ts \<Rightarrow> do {
                  val \<leftarrow> get_slice (ts_buffer s) (offset + TS_HEADER) (offset + TS_HEADER + ts_value_size s);
                  Some (Some (ts, val)) }) })"

text \<open>The loops of \<open>get_last_n\<close> and \<open>get_in_window\<close> over the logical indices that remain.\<close>

fun ts_collect :: "ts_storage \<Rightarrow> (ts_entry \<Rightarrow> bool) \<Rightarrow> nat list \<Rightarrow> ts_entry list \<Rightarrow> ts_entry list option" where
  "ts_collect s keep [] result = Some result"
| "ts_collect s keep (i # rest) result = do {
     e \<leftarrow> ts_get s i;
     ts_collect s keep rest (case e of None \<Rightarrow> result | Some x \<Rightarrow> if keep x then result @ [x] else result) }"

definition ts_get_last_n :: "ts_storage \<Rightarrow> nat \<Rightarrow> ts_entry list option" where
  "ts_get_last_n s n =
     ts_collect s (\<lambda>_. True) (map (\<lambda>i. ts_count s - 1 - i) [0..<min n (ts_count s)]) []"

definition ts_get_in_window :: "ts_storage \<Rightarrow> u64 \<Rightarrow> u64 \<Rightarrow> ts_entry list option" where
  "ts_get_in_window s start_ns end_ns =
     ts_collect s (\<lambda>(ts, _). ts \<ge> start_ns \<and> ts \<le> end_ns) [0..<ts_count s] []"

definition ts_newest :: "ts_storage \<Rightarrow> ts_entry option option" where
  "ts_newest s = (if ts_count s = 0 then Some None else ts_get s (ts_count s - 1))"

definition ts_oldest :: "ts_storage \<Rightarrow> ts_entry option option" where
  "ts_oldest s = (if ts_count s = 0 then Some None else ts_get s 0)"

definition ts_clear :: "ts_storage \<Rightarrow> ts_storage" where
  "ts_clear s = s\<lparr>ts_count := 0, ts_head_idx := 0\<rparr>"

text \<open>The copying loop of \<open>resize_with_reservation\<close>.\<close>

fun ts_copy :: "ts_storage \<Rightarrow> nat list \<Rightarrow> bytes \<Rightarrow> bytes option" where
  "ts_copy s [] new_buffer = Some new_buffer"
| "ts_copy s (i # rest) new_buffer = do {
     e \<leftarrow> ts_get s i;
     (case e of
        None \<Rightarrow> ts_copy s rest new_buffer
      | Some x \<Rightarrow> do {
          b \<leftarrow> ts_write_entry new_buffer (i * ts_entry_size s) (ts_value_size s) x;
          ts_copy s rest b }) }"

definition ts_resize :: "reservation \<Rightarrow> ts_storage \<Rightarrow> nat \<Rightarrow> (map_error + ts_storage) option" where
  "ts_resize reserve s new_capacity =
     (if new_capacity = 0 then Some (Inl InvalidValue)
      else if new_capacity = ts_capacity s then Some (Inr s)
      else case checked_mul_usize (ts_entry_size s) new_capacity of
        None \<Rightarrow> Some (Inl MapOutOfMemory)
      | Some new_len \<Rightarrow>
          (case reserve new_len of
             Inl e \<Rightarrow> Some (Inl e)
           | Inr _ \<Rightarrow>
               let copy_count = min (ts_count s) new_capacity
               in do {
                 buf \<leftarrow> ts_copy s [0..<copy_count] (vec_resize [] new_len 0);
                 Some (Inr (s\<lparr>ts_buffer := buf, ts_capacity := new_capacity, ts_count := copy_count, ts_head_idx := 0\<rparr>)) }))"

section \<open>The map\<close>

record timeseries_map =
  tm_def :: map_def
  tm_storage :: ts_storage

definition ts_MAX_ENTRIES :: "profile \<Rightarrow> nat" where
  "ts_MAX_ENTRIES P = (if embedded_feature P then 4 * 1024 else 1024 * 1024)"

definition ts_allocation_size :: "u32 \<Rightarrow> u32 \<Rightarrow> nat option" where
  "ts_allocation_size value_size max_entries = do {
     entry_size \<leftarrow> checked_add_usize TS_HEADER (unat value_size);
     checked_mul_usize entry_size (unat max_entries) }"

definition timeseries_map_new :: "profile \<Rightarrow> (nat \<Rightarrow> bool) \<Rightarrow> u32 \<Rightarrow> u32 \<Rightarrow> map_error + timeseries_map" where
  "timeseries_map_new P heap value_size max_entries =
     (if value_size = 0 then Inl InvalidValue
      else if max_entries = 0 then Inl InvalidValue
      else if unat max_entries > ts_MAX_ENTRIES P then Inl MapOutOfMemory
      else res_bind (budget_check P (ts_allocation_size value_size max_entries)) (\<lambda>_.
           res_bind (ts_storage_new (try_reserve_exact heap) (unat value_size) (unat max_entries)) (\<lambda>st.
             Inr \<lparr>tm_def = \<lparr>map_type_of = MtTimeSeries, def_key_size = 8, def_value_size = value_size,
                            def_max_entries = max_entries, def_flags = 0\<rparr>, tm_storage = st\<rparr>)))"

definition tm_push :: "timeseries_map \<Rightarrow> u64 \<Rightarrow> bytes \<Rightarrow> (map_error + timeseries_map) option" where
  "tm_push m timestamp_ns val = do {
     (ok, st) \<leftarrow> ts_push (tm_storage m) timestamp_ns val;
     Some (if ok then Inr (m\<lparr>tm_storage := st\<rparr>) else Inl InvalidValue) }"

text \<open>The statistics of the last entries; the first eight bytes of a value are read as an \<open>i64\<close>.\<close>

record ts_stats =
  st_count :: nat
  st_min_timestamp_ns :: u64
  st_max_timestamp_ns :: u64
  st_min_value :: i64
  st_max_value :: i64
  st_sum :: i64

definition sat_i64 :: "int \<Rightarrow> i64" where
  "sat_i64 x = max i64_MIN (min i64_MAX x)"

definition ts_stats_step :: "ts_stats \<Rightarrow> ts_entry \<Rightarrow> ts_stats" where
  "ts_stats_step a e =
     (let a1 = a\<lparr>st_min_timestamp_ns := min (st_min_timestamp_ns a) (fst e),
                 st_max_timestamp_ns := max (st_max_timestamp_ns a) (fst e)\<rparr>
      in if length (snd e) \<ge> 8
         then let val = sint (le_value (take 8 (snd e)))
              in a1\<lparr>st_min_value := min (st_min_value a) val, st_max_value := max (st_max_value a) val,
                    st_sum := sat_i64 (st_sum a + val)\<rparr>
         else a1)"

definition tm_stats_last_n :: "timeseries_map \<Rightarrow> nat \<Rightarrow> ts_stats option option" where
  "tm_stats_last_n m n = do {
     entries \<leftarrow> ts_get_last_n (tm_storage m) n;
     Some (if entries = [] then None
           else Some (foldl ts_stats_step
             \<lparr>st_count = length entries, st_min_timestamp_ns = u64_MAX, st_max_timestamp_ns = 0,
              st_min_value = i64_MAX, st_max_value = i64_MIN, st_sum = 0\<rparr> entries)) }"

definition ts_time_span_ns :: "ts_stats \<Rightarrow> u64" where
  "ts_time_span_ns st = saturating_sub (st_max_timestamp_ns st) (st_min_timestamp_ns st)"

definition tm_lookup :: "timeseries_map \<Rightarrow> bytes \<Rightarrow> bytes option option" where
  "tm_lookup m key =
     (if length key \<ge> 4 then
        let n = unat (u32_from_bytes (take 4 key))
        in do {
          entries \<leftarrow> ts_get_last_n (tm_storage m) (max n 1);
          Some (case entries of [] \<Rightarrow> None | (ts, val) # _ \<Rightarrow> Some (le_bytes 8 ts @ val)) }
      else Some None)"

definition tm_update :: "timeseries_map \<Rightarrow> bytes \<Rightarrow> bytes \<Rightarrow> u64 \<Rightarrow> (map_error + timeseries_map) option" where
  "tm_update m key val flags =
     tm_push m (if length key \<ge> 8 then le_value (take 8 key) else 0) val"

definition tm_delete :: "timeseries_map \<Rightarrow> bytes \<Rightarrow> map_error + timeseries_map" where
  "tm_delete m key = Inl NotSupported"

definition tm_resize :: "profile \<Rightarrow> (nat \<Rightarrow> bool) \<Rightarrow> timeseries_map \<Rightarrow> u32 \<Rightarrow> (map_error + timeseries_map) option" where
  "tm_resize P heap m new_max_entries =
     (if unat new_max_entries > ts_MAX_ENTRIES P then Some (Inl MapOutOfMemory)
      else map_option (map_sum id (\<lambda>st. m\<lparr>tm_storage := st, tm_def := (tm_def m)\<lparr>def_max_entries := new_max_entries\<rparr>\<rparr>))
             (ts_resize (try_reserve_exact heap) (tm_storage m) (unat new_max_entries)))"

section \<open>The list of entries\<close>

definition ts_shape :: "ts_storage \<Rightarrow> bool" where
  "ts_shape s \<longleftrightarrow> ts_entry_size s = 8 + ts_value_size s \<and> length (ts_buffer s) = ts_entry_size s * ts_capacity s \<and>
     0 < ts_capacity s \<and> ts_count s \<le> ts_capacity s \<and> ts_head_idx s < ts_capacity s \<and>
     (ts_count s < ts_capacity s \<longrightarrow> ts_head_idx s = 0)"

definition ts_slot :: "nat \<Rightarrow> bytes \<Rightarrow> nat \<Rightarrow> ts_entry" where
  "ts_slot vs buf i = (le_value (take 8 (drop (i * (8 + vs)) buf)), take vs (drop (i * (8 + vs) + 8) buf))"

definition ts_log :: "ts_storage \<Rightarrow> ts_entry list" where
  "ts_log s = map (\<lambda>i. ts_slot (ts_value_size s) (ts_buffer s) ((ts_head_idx s + i) mod ts_capacity s)) [0..<ts_count s]"

lemma length_ts_log [simp]: "length (ts_log s) = ts_count s"
  by (simp add: ts_log_def)

lemma ts_slot_room: "(i::nat) < n \<Longrightarrow> i * (8 + vs) + 8 + vs \<le> (8 + vs) * n"
proof -
  assume "i < n"
  then have "Suc i * (8 + vs) \<le> n * (8 + vs)" by (intro mult_le_mono1) simp
  then show ?thesis by (simp add: mult.commute)
qed

lemma ts_write_entry_slot:
  assumes "i < n" "length buf = (8 + vs) * n" "length v = vs"
  shows "\<exists>buf'. ts_write_entry buf (i * (8 + vs)) vs (ts, v) = Some buf' \<and> length buf' = length buf \<and>
     (\<forall>j<n. ts_slot vs buf' j = (if j = i then (ts, v) else ts_slot vs buf j))"
proof -
  let ?o = "i * (8 + vs)"
  let ?b1 = "overwrite buf ?o (le_bytes 8 ts)"
  let ?b2 = "overwrite ?b1 (?o + 8) v"
  have room: "?o + 8 + vs \<le> length buf" using ts_slot_room [OF assms(1)] assms(2) by simp
  have l1: "length ?b1 = length buf" using room by simp
  have l2: "length ?b2 = length buf" using room l1 assms(3) by simp
  have w: "ts_write_entry buf ?o vs (ts, v) = Some ?b2"
    using room l1 assms(3) by (simp add: ts_write_entry_def ts_to_bytes_def TS_HEADER_def buffer_simps)
  have "ts_slot vs ?b2 j = (if j = i then (ts, v) else ts_slot vs buf j)" if j: "j < n" for j
  proof (cases "j = i")
    case True
    have "take 8 (drop ?o ?b2) = le_bytes 8 ts"
      using slice_overwrite_other [of "?o + 8" v ?b1 ?o 8] slice_overwrite_same [of ?o "le_bytes 8 ts" buf] room l1 assms(3)
      by simp
    moreover have "take vs (drop (?o + 8) ?b2) = v"
      using slice_overwrite_same [of "?o + 8" v ?b1] room l1 assms(3) by simp
    ultimately show ?thesis using True by (simp add: ts_slot_def le_value_le_bytes take_bit_word_eq_self)
  next
    case False
    let ?p = "j * (8 + vs)"
    have rj: "?p + 8 + vs \<le> length buf" using ts_slot_room [OF j] assms(2) by simp
    have "Suc i \<le> j \<or> Suc j \<le> i" using False by linarith
    then have "Suc i * (8 + vs) \<le> ?p \<or> Suc j * (8 + vs) \<le> ?o" by (meson mult_le_mono1)
    then have apart: "?o + (8 + vs) \<le> ?p \<or> ?p + (8 + vs) \<le> ?o" by (simp only: mult_Suc add.commute)
    have "take k (drop c ?b2) = take k (drop c buf)" if "?p \<le> c" "c + k \<le> ?p + (8 + vs)" for c k
    proof -
      have "take k (drop c ?b2) = take k (drop c ?b1)"
        using that apart room rj l1 assms(3) by (intro slice_overwrite_other) linarith+
      also have "\<dots> = take k (drop c buf)" using that apart room rj le_bytes_length [of 8 ts]
        by (intro slice_overwrite_other) linarith+
      finally show ?thesis .
    qed
    then show ?thesis using False by (simp add: ts_slot_def)
  qed
  then show ?thesis using w l2 by blast
qed

lemma ts_get_log:
  assumes "ts_shape s"
  shows "ts_get s i = Some (if i < ts_count s then Some (ts_log s ! i) else None)"
proof (cases "i < ts_count s")
  case True
  let ?p = "(ts_head_idx s + i) mod ts_capacity s"
  have "?p < ts_capacity s" using assms by (simp add: ts_shape_def)
  then have room: "?p * (8 + ts_value_size s) + 8 + ts_value_size s \<le> length (ts_buffer s)"
    using ts_slot_room [of ?p "ts_capacity s" "ts_value_size s"] assms by (simp add: ts_shape_def)
  have e: "ts_entry_size s = 8 + ts_value_size s" "ts_capacity s \<noteq> 0" using assms by (auto simp: ts_shape_def)
  show ?thesis using True room e(2)
    by (simp add: ts_get_def Let_def e(1) buffer_simps ts_from_bytes_def ts_log_def ts_slot_def TS_HEADER_def)
qed (simp add: ts_get_def)

lemma ts_collect_log:
  assumes "ts_shape s" "\<forall>i\<in>set is. i < ts_count s"
  shows "ts_collect s keep is acc = Some (acc @ filter keep (map ((!) (ts_log s)) is))"
  using assms(2) by (induction "is" arbitrary: acc) (simp_all add: ts_get_log [OF assms(1)])

text \<open>The queries read the list.\<close>

lemma ts_last_n_log:
  assumes "ts_shape s"
  shows "ts_get_last_n s n = Some (take n (rev (ts_log s)))"
proof -
  have "map ((!) (ts_log s)) (map (\<lambda>i. ts_count s - 1 - i) [0..<min n (ts_count s)]) = take n (rev (ts_log s))"
    by (rule nth_equalityI) (simp_all add: rev_nth)
  then show ?thesis using ts_collect_log [OF assms] by (simp add: ts_get_last_n_def)
qed

lemma ts_window_log:
  assumes "ts_shape s"
  shows "ts_get_in_window s lo hi = Some (filter (\<lambda>(ts, _). lo \<le> ts \<and> ts \<le> hi) (ts_log s))"
proof -
  have "map ((!) (ts_log s)) [0..<ts_count s] = ts_log s" using map_nth [of "ts_log s"] by simp
  then show ?thesis using ts_collect_log [OF assms, of "[0..<ts_count s]"] by (simp add: ts_get_in_window_def)
qed

lemma ts_ends_log:
  assumes "ts_shape s"
  shows "ts_newest s = Some (if ts_log s = [] then None else Some (last (ts_log s)))"
    "ts_oldest s = Some (if ts_log s = [] then None else Some (hd (ts_log s)))"
proof -
  have e: "ts_log s = [] \<longleftrightarrow> ts_count s = 0" using length_ts_log [of s] by (metis length_0_conv)
  show "ts_newest s = Some (if ts_log s = [] then None else Some (last (ts_log s)))"
    using e by (simp add: ts_newest_def ts_get_log [OF assms] last_conv_nth)
  show "ts_oldest s = Some (if ts_log s = [] then None else Some (hd (ts_log s)))"
    using e by (simp add: ts_oldest_def ts_get_log [OF assms] hd_conv_nth)
qed

text \<open>A push appends, and drops the oldest entry of a full buffer.\<close>

lemma ts_push_log:
  assumes sh: "ts_shape s" and v: "length v = ts_value_size s"
  shows "\<exists>t. ts_push s ts v = Some (True, t) \<and> ts_shape t \<and> ts_capacity t = ts_capacity s \<and>
     ts_value_size t = ts_value_size s \<and>
     ts_log t = drop (ts_count s + 1 - ts_capacity s) (ts_log s @ [(ts, v)])"
proof (cases "ts_count s < ts_capacity s")
  case True
  let ?vs = "ts_value_size s"
  have e: "ts_entry_size s = 8 + ?vs" and lb: "length (ts_buffer s) = (8 + ?vs) * ts_capacity s" and h: "ts_head_idx s = 0"
    using sh True by (auto simp: ts_shape_def)
  obtain buf where buf: "ts_write_entry (ts_buffer s) (ts_count s * (8 + ?vs)) ?vs (ts, v) = Some buf"
      "length buf = length (ts_buffer s)"
      "\<forall>j<ts_capacity s. ts_slot ?vs buf j = (if j = ts_count s then (ts, v) else ts_slot ?vs (ts_buffer s) j)"
    using ts_write_entry_slot [OF True lb v] by blast
  let ?t = "s\<lparr>ts_buffer := buf, ts_count := ts_count s + 1\<rparr>"
  have "ts_push s ts v = Some (True, ?t)" using buf(1) True v by (simp add: ts_push_def e)
  moreover have "ts_shape ?t" using sh True buf(2) h by (simp add: ts_shape_def)
  moreover have "ts_log ?t = ts_log s @ [(ts, v)]"
    using True buf(3) h by (auto simp: ts_log_def)
  ultimately show ?thesis using True by simp
next
  case False
  let ?vs = "ts_value_size s" and ?n = "ts_capacity s" and ?h = "ts_head_idx s"
  have e: "ts_entry_size s = 8 + ?vs" and lb: "length (ts_buffer s) = (8 + ?vs) * ?n" and h: "?h < ?n" and n: "0 < ?n"
    and c: "ts_count s = ?n"
    using sh False by (auto simp: ts_shape_def)
  obtain buf where buf: "ts_write_entry (ts_buffer s) (?h * (8 + ?vs)) ?vs (ts, v) = Some buf"
      "length buf = length (ts_buffer s)"
      "\<forall>j<?n. ts_slot ?vs buf j = (if j = ?h then (ts, v) else ts_slot ?vs (ts_buffer s) j)"
    using ts_write_entry_slot [OF h lb v] by blast
  let ?t = "s\<lparr>ts_head_idx := (?h + 1) mod ?n, ts_buffer := buf, ts_count := ts_count s\<rparr>"
  have "ts_push s ts v = Some (True, ?t)" using buf(1) False v n by (simp add: ts_push_def e)
  moreover have "ts_shape ?t" using sh False buf(2) n by (simp add: ts_shape_def)
  moreover have "ts_log ?t = drop 1 (ts_log s @ [(ts, v)])"
  proof (rule nth_equalityI)
    fix i assume "i < length (ts_log ?t)"
    then have i: "i < ?n" by (simp add: c)
    have p: "((?h + 1) mod ?n + i) mod ?n = (?h + Suc i) mod ?n" by (simp add: mod_simps)
    have l: "ts_log ?t ! i = ts_slot ?vs buf ((?h + Suc i) mod ?n)" using i p by (simp add: ts_log_def c)
    have d: "drop 1 (ts_log s @ [(ts, v)]) ! i = (ts_log s @ [(ts, v)]) ! Suc i" using i c by (subst nth_drop) simp_all
    show "ts_log ?t ! i = drop 1 (ts_log s @ [(ts, v)]) ! i"
    proof (cases "Suc i = ?n")
      case True
      then have "(?h + Suc i) mod ?n = ?h" using h by simp
      then show ?thesis unfolding d l using buf(3) h True c by (simp add: nth_append)
    next
      case False
      then have "Suc i < ?n" using i by simp
      moreover from this have "(?h + Suc i) mod ?n \<noteq> ?h"
        using mod_window_inj [of ?h ?n "?h + Suc i"] h by auto
      ultimately show ?thesis unfolding d l using buf(3) n c by (simp add: nth_append ts_log_def)
    qed
  qed (simp add: c)
  ultimately show ?thesis using c by simp
qed

lemma ts_push_bad_size: "length v \<noteq> ts_value_size s \<Longrightarrow> ts_push s ts v = Some (False, s)"
  by (simp add: ts_push_def)

lemma ts_new_log:
  assumes "ts_storage_new reserve vs cap = Inr s" "0 < cap"
  shows "ts_shape s \<and> ts_log s = [] \<and> ts_capacity s = cap \<and> ts_value_size s = vs"
  using assms by (auto simp: ts_storage_new_def checked_add_usize_def checked_mul_usize_def TS_HEADER_def res_Inr_iffs
      ts_shape_def ts_log_def split: if_splits)

lemma ts_clear_log: "ts_shape s \<Longrightarrow> ts_shape (ts_clear s) \<and> ts_log (ts_clear s) = []"
  by (simp add: ts_shape_def ts_clear_def ts_log_def)

text \<open>
  After any sequence of well-sized pushes into a new map the buffer holds the newest entries, oldest
  first.
\<close>

primrec ts_pushes :: "ts_storage \<Rightarrow> ts_entry list \<Rightarrow> ts_storage option" where
  "ts_pushes s [] = Some s"
| "ts_pushes s (e # es) = Option.bind (ts_push s (fst e) (snd e)) (\<lambda>(ok, t). ts_pushes t es)"

lemma ts_pushes_log:
  assumes "ts_shape s" "\<forall>e\<in>set es. length (snd e) = ts_value_size s"
  shows "\<exists>t. ts_pushes s es = Some t \<and> ts_shape t \<and> ts_capacity t = ts_capacity s \<and>
     ts_log t = drop (ts_count s + length es - ts_capacity s) (ts_log s @ es)"
  using assms
proof (induction es arbitrary: s)
  case (Cons e es)
  obtain t where t: "ts_push s (fst e) (snd e) = Some (True, t)" "ts_shape t" "ts_capacity t = ts_capacity s"
      "ts_value_size t = ts_value_size s" "ts_log t = drop (ts_count s + 1 - ts_capacity s) (ts_log s @ [e])"
    using ts_push_log [OF Cons.prems(1), of "snd e" "fst e"] Cons.prems(2) by auto
  have "ts_count s \<le> ts_capacity s" "0 < ts_capacity s" using Cons.prems(1) by (simp_all add: ts_shape_def)
  then have ct: "ts_count t = ts_count s + 1 - (ts_count s + 1 - ts_capacity s)"
    using arg_cong [OF t(5), of length] by simp
  obtain u where u: "ts_pushes t es = Some u" "ts_shape u" "ts_capacity u = ts_capacity s"
      "ts_log u = drop (ts_count t + length es - ts_capacity s) (ts_log t @ es)"
    using Cons.IH [OF t(2)] Cons.prems(2) t(3,4) by auto
  have "ts_log u = drop (ts_count s + length (e # es) - ts_capacity s) (ts_log s @ e # es)"
    using \<open>ts_count s \<le> ts_capacity s\<close> \<open>0 < ts_capacity s\<close> u(4) t(5) ct
    by (cases "ts_count s = ts_capacity s") simp_all
  then show ?case using t(1) u by simp
qed (use ts_shape_def in auto)

section \<open>Resizing\<close>

lemma ts_copy_log:
  assumes sh: "ts_shape s" and "k \<le> m" "m \<le> ts_count s" "m \<le> n" "length buf = (8 + ts_value_size s) * n"
    "\<forall>j<k. ts_slot (ts_value_size s) buf j = ts_log s ! j"
  shows "\<exists>buf'. ts_copy s [k..<m] buf = Some buf' \<and> length buf' = length buf \<and>
     (\<forall>j<m. ts_slot (ts_value_size s) buf' j = ts_log s ! j)"
  using assms(2-)
proof (induction "m - k" arbitrary: k buf)
  case 0
  then show ?case by simp
next
  case (Suc d)
  let ?vs = "ts_value_size s"
  have k: "k < m" and upt: "[k..<m] = k # [Suc k..<m]" using Suc.hyps(2) by (simp_all add: upt_conv_Cons)
  have dk: "d = m - Suc k" using Suc.hyps(2) by simp
  have kc: "k < ts_count s" "k < n" using k Suc.prems by simp_all
  have e: "ts_entry_size s = 8 + ?vs" and b: "length (ts_buffer s) = (8 + ?vs) * ts_capacity s" "0 < ts_capacity s"
    using sh by (auto simp: ts_shape_def)
  obtain ts v where x: "ts_log s ! k = (ts, v)" by (cases "ts_log s ! k")
  have "length (snd (ts_log s ! k)) = ?vs"
    using ts_slot_room [of "(ts_head_idx s + k) mod ts_capacity s" "ts_capacity s" ?vs] b kc(1)
    by (simp add: ts_log_def ts_slot_def)
  then have v: "length v = ?vs" by (simp add: x)
  obtain buf1 where b1: "ts_write_entry buf (k * (8 + ?vs)) ?vs (ts, v) = Some buf1" "length buf1 = length buf"
      "\<forall>j<n. ts_slot ?vs buf1 j = (if j = k then (ts, v) else ts_slot ?vs buf j)"
    using ts_write_entry_slot [OF kc(2) Suc.prems(4) v] by blast
  have "\<forall>j<Suc k. ts_slot ?vs buf1 j = ts_log s ! j"
    using b1(3) Suc.prems(5) x kc(2) by (auto simp: less_Suc_eq)
  then obtain buf2 where "ts_copy s [Suc k..<m] buf1 = Some buf2" "length buf2 = length buf1"
      "\<forall>j<m. ts_slot ?vs buf2 j = ts_log s ! j"
    using Suc.hyps(1) [of "Suc k" buf1] dk Suc.prems k b1(2) by auto
  then show ?case using b1 kc(1) x by (simp add: upt ts_get_log [OF sh] e)
qed

text \<open>
  A resize keeps the oldest entries that fit; when the new capacity is smaller than the number of
  entries it is the newest ones that are lost.
\<close>

lemma ts_resize_log:
  assumes sh: "ts_shape s" and r: "ts_resize reserve s n = Some (Inr t)"
  shows "ts_shape t \<and> ts_capacity t = n \<and> ts_log t = take n (ts_log s)"
proof (cases "n = ts_capacity s")
  case True
  then show ?thesis using assms by (auto simp: ts_resize_def ts_shape_def split: if_splits)
next
  case False
  let ?vs = "ts_value_size s"
  have e: "ts_entry_size s = 8 + ?vs" using sh by (auto simp: ts_shape_def)
  have n: "0 < n" using r by (auto simp: ts_resize_def split: if_splits)
  obtain buf where buf: "ts_copy s [0..<min (ts_count s) n] (vec_resize [] ((8 + ?vs) * n) 0) = Some buf"
      "t = s\<lparr>ts_buffer := buf, ts_capacity := n, ts_count := min (ts_count s) n, ts_head_idx := 0\<rparr>"
    using r False n by (auto simp: ts_resize_def e checked_mul_usize_def Let_def split: if_splits sum.splits option.splits bind_splits)
  obtain buf' where "ts_copy s [0..<min (ts_count s) n] (vec_resize [] ((8 + ?vs) * n) 0) = Some buf'"
      "length buf' = (8 + ?vs) * n" "\<forall>j<min (ts_count s) n. ts_slot ?vs buf' j = ts_log s ! j"
    using ts_copy_log [OF sh, of 0 "min (ts_count s) n" n "vec_resize [] ((8 + ?vs) * n) 0"] by auto
  then have b: "length buf = (8 + ?vs) * n" "\<forall>j<min (ts_count s) n. ts_slot ?vs buf j = ts_log s ! j"
    using buf(1) by auto
  have "ts_log t = take n (ts_log s)"
    using b(2) by (intro nth_equalityI) (auto simp: buf(2) ts_log_def)
  moreover have "ts_shape t" using b(1) n e by (simp add: buf(2) ts_shape_def)
  ultimately show ?thesis by (simp add: buf(2))
qed

end
