(* ===== verification/Ringbuf_Map.thy ===== *)
theory Ringbuf_Map
  imports Map_Types
begin

text \<open>
  The BPF ring buffer (\<open>maps/ringbuf.rs\<close>): events with an eight-byte header in a circular byte buffer
  whose head and tail are free-running \<open>u64\<close> counters. Between \<open>output\<close> and \<open>poll\<close> the buffer is a FIFO
  queue of byte strings of bounded total size; it may wrap at any byte, also inside a header. The
  atomics are plain cells: the operations are taken one at a time.
\<close>

section \<open>Events and control\<close>

record event_header =
  eh_length :: u32
  eh_flags :: u32

definition EVENT_SIZE :: nat where "EVENT_SIZE = 8"
definition FLAG_BUSY :: u32 where "FLAG_BUSY = 0x80000000"
definition FLAG_DISCARD :: u32 where "FLAG_DISCARD = 0x40000000"

definition event_header_new :: "u32 \<Rightarrow> event_header" where
  "event_header_new len = \<lparr>eh_length = len, eh_flags = 0\<rparr>"

definition header_as_bytes :: "event_header \<Rightarrow> bytes" where
  "header_as_bytes h = u32_to_bytes (eh_length h) @ u32_to_bytes (eh_flags h)"

definition header_from_bytes :: "bytes \<Rightarrow> event_header option" where
  "header_from_bytes bs =
     (if length bs < 8 then None
      else Some \<lparr>eh_length = u32_from_bytes (take 4 bs), eh_flags = u32_from_bytes (take 4 (drop 4 bs))\<rparr>)"

definition is_busy :: "event_header \<Rightarrow> bool" where
  "is_busy h \<longleftrightarrow> eh_flags h AND FLAG_BUSY \<noteq> 0"

definition is_discarded :: "event_header \<Rightarrow> bool" where
  "is_discarded h \<longleftrightarrow> eh_flags h AND FLAG_DISCARD \<noteq> 0"

text \<open>\<open>(n + 7) & !7\<close>.\<close>

definition align8 :: "nat \<Rightarrow> nat" where
  "align8 n = (n + 7) div 8 * 8"

definition event_total_size :: "event_header \<Rightarrow> nat" where
  "event_total_size h = align8 (EVENT_SIZE + unat (eh_length h))"

record ring_control =
  rc_head :: u64
  rc_tail :: u64
  rc_capacity :: nat
  rc_mask :: nat

definition ring_control_new :: "nat \<Rightarrow> ring_control" where
  "ring_control_new capacity = \<lparr>rc_head = 0, rc_tail = 0, rc_capacity = capacity, rc_mask = capacity - 1\<rparr>"

definition rc_used_space :: "ring_control \<Rightarrow> nat" where
  "rc_used_space c = unat (rc_head c - rc_tail c)"

text \<open>The subtraction overflows, \<open>None\<close>, when the tail has overtaken the head.\<close>

definition rc_available_space :: "ring_control \<Rightarrow> nat option" where
  "rc_available_space c = (if rc_used_space c \<le> rc_capacity c then Some (rc_capacity c - rc_used_space c) else None)"

definition rc_wrap :: "ring_control \<Rightarrow> u64 \<Rightarrow> nat" where
  "rc_wrap c pos = unat pos AND rc_mask c"

section \<open>The map\<close>

record ringbuf_map =
  rb_def :: map_def
  rb_control :: ring_control
  rb_data :: bytes
  rb_dropped_events :: u64

definition is_power_of_two :: "nat \<Rightarrow> bool" where
  "is_power_of_two n \<longleftrightarrow> (\<exists>k\<le>n. n = 2 ^ k)"

definition rb_MAX_BUFFER_SIZE :: "profile \<Rightarrow> nat" where
  "rb_MAX_BUFFER_SIZE P = (if embedded_feature P then 64 * 1024 else 256 * 1024 * 1024)"

definition ringbuf_map_new :: "profile \<Rightarrow> (nat \<Rightarrow> bool) \<Rightarrow> nat \<Rightarrow> map_error + ringbuf_map" where
  "ringbuf_map_new P heap sz =
     (if \<not> is_power_of_two sz then Inl InvalidValue
      else if sz = 0 then Inl InvalidValue
      else if sz > rb_MAX_BUFFER_SIZE P then Inl MapOutOfMemory
      else res_bind (budget_check P (Some sz)) (\<lambda>_.
           res_bind (try_reserve_exact heap sz) (\<lambda>_.
             Inr \<lparr>rb_def = \<lparr>map_type_of = MtRingBuf, def_key_size = 0, def_value_size = 0,
                            def_max_entries = of_nat sz, def_flags = 0\<rparr>,
                  rb_control = ring_control_new sz, rb_data = vec_resize [] sz 0, rb_dropped_events = 0\<rparr>)))"

definition ringbuf_with_default_size :: "profile \<Rightarrow> (nat \<Rightarrow> bool) \<Rightarrow> map_error + ringbuf_map" where
  "ringbuf_with_default_size P heap =
     ringbuf_map_new P heap (if embedded_feature P then 4 * 1024 else 64 * 1024)"

record ringbuf_reservation =
  rr_offset :: nat
  rr_data_size :: nat
  rr_total_size :: nat

text \<open>Both profiles drop the new event when there is no room.\<close>

definition rb_reserve :: "ringbuf_map \<Rightarrow> nat \<Rightarrow> (ringbuf_reservation option \<times> ringbuf_map) option" where
  "rb_reserve m sz =
     (case Option.bind (checked_add_usize EVENT_SIZE sz) (\<lambda>total_size. checked_add_usize total_size 7) of
        None \<Rightarrow> Some (None, m)
      | Some padded \<Rightarrow>
          let aligned_size = padded div 8 * 8; c = rb_control m
          in Option.bind (rc_available_space c) (\<lambda>available.
               if available < aligned_size
               then Some (None, m\<lparr>rb_dropped_events := rb_dropped_events m + 1\<rparr>)
               else Some (Some \<lparr>rr_offset = rc_wrap c (rc_head c), rr_data_size = sz, rr_total_size = aligned_size\<rparr>,
                          m\<lparr>rb_control := c\<lparr>rc_head := rc_head c + of_nat aligned_size\<rparr>\<rparr>)))"

definition write_wrapped :: "nat \<Rightarrow> bytes \<Rightarrow> nat \<Rightarrow> bytes \<Rightarrow> bytes option" where
  "write_wrapped capacity buffer offset data =
     (let first_part = capacity - offset
      in if first_part \<ge> length data then copy_slice buffer offset (offset + length data) data
         else do {
           b1 \<leftarrow> copy_slice buffer offset (length buffer) (take first_part data);
           copy_slice b1 0 (length data - first_part) (drop first_part data) })"

definition read_wrapped :: "nat \<Rightarrow> bytes \<Rightarrow> nat \<Rightarrow> nat \<Rightarrow> bytes option" where
  "read_wrapped capacity buffer offset n =
     (let first_part = capacity - offset
      in if first_part \<ge> n then get_slice buffer offset (offset + n)
         else do {
           a \<leftarrow> get_slice buffer offset (length buffer);
           if length a \<noteq> first_part then None
           else do {
             b \<leftarrow> get_slice buffer 0 (n - first_part);
             Some (a @ b) } })"

definition rb_submit :: "ringbuf_map \<Rightarrow> ringbuf_reservation \<Rightarrow> bytes \<Rightarrow> (map_error + ringbuf_map) option" where
  "rb_submit m reservation data =
     (if length data > rr_data_size reservation then Some (Inl InvalidValue)
      else let c = rb_control m;
               header_bytes = header_as_bytes (event_header_new (of_nat (length data)));
               data_offset = (rr_offset reservation + EVENT_SIZE) AND rc_mask c
           in do {
             b1 \<leftarrow> write_wrapped (rc_capacity c) (rb_data m) (rr_offset reservation) header_bytes;
             b2 \<leftarrow> write_wrapped (rc_capacity c) b1 data_offset data;
             Some (Inr (m\<lparr>rb_data := b2\<rparr>)) })"

definition rb_output :: "ringbuf_map \<Rightarrow> bytes \<Rightarrow> u64 \<Rightarrow> ((map_error + unit) \<times> ringbuf_map) option" where
  "rb_output m data flags = do {
     (r, m1) \<leftarrow> rb_reserve m (length data);
     (case r of
        None \<Rightarrow> Some (Inl MapFull, m1)
      | Some reservation \<Rightarrow> map_option (\<lambda>x. case x of Inl e \<Rightarrow> (Inl e, m1) | Inr m2 \<Rightarrow> (Inr (), m2))
                               (rb_submit m1 reservation data)) }"

partial_function (option) rb_poll :: "ringbuf_map \<Rightarrow> (bytes option \<times> ringbuf_map) option" where
  "rb_poll m =
     (let c = rb_control m; offset = rc_wrap c (rc_tail c)
      in if rc_used_space c < EVENT_SIZE then Some (None, m)
         else Option.bind (read_wrapped (rc_capacity c) (rb_data m) offset 8) (\<lambda>header_bytes.
           case header_from_bytes header_bytes of
             None \<Rightarrow> Some (None, m)
           | Some header \<Rightarrow>
               let m1 = m\<lparr>rb_control := c\<lparr>rc_tail := rc_tail c + of_nat (event_total_size header)\<rparr>\<rparr>
               in if is_busy header then Some (None, m)
                  else if is_discarded header then rb_poll m1
                  else Option.bind (read_wrapped (rc_capacity c) (rb_data m) ((offset + EVENT_SIZE) AND rc_mask c)
                                     (unat (eh_length header))) (\<lambda>data. Some (Some data, m1))))"

definition rb_used_bytes :: "ringbuf_map \<Rightarrow> nat" where
  "rb_used_bytes m = rc_used_space (rb_control m)"

definition rb_is_empty :: "ringbuf_map \<Rightarrow> bool" where
  "rb_is_empty m \<longleftrightarrow> rc_used_space (rb_control m) = 0"

definition rb_lookup :: "ringbuf_map \<Rightarrow> bytes \<Rightarrow> (bytes option \<times> ringbuf_map) option" where
  "rb_lookup m key = rb_poll m"

definition rb_update :: "ringbuf_map \<Rightarrow> bytes \<Rightarrow> bytes \<Rightarrow> u64 \<Rightarrow> ((map_error + unit) \<times> ringbuf_map) option" where
  "rb_update m key val flags = rb_output m val flags"

definition rb_delete :: "ringbuf_map \<Rightarrow> bytes \<Rightarrow> map_error + unit" where
  "rb_delete m key = Inl NotSupported"

definition rb_resize :: "profile \<Rightarrow> (nat \<Rightarrow> bool) \<Rightarrow> ringbuf_map \<Rightarrow> u32 \<Rightarrow> map_error + ringbuf_map" where
  "rb_resize P heap m new_max_entries =
     (let new_size = unat new_max_entries
      in if \<not> is_power_of_two new_size then Inl InvalidValue
         else if new_size > rb_MAX_BUFFER_SIZE P then Inl MapOutOfMemory
         else res_bind (if new_size > length (rb_data m) then try_reserve_exact heap (new_size - length (rb_data m)) else Inr ()) (\<lambda>_.
           Inr (m\<lparr>rb_data := vec_resize (rb_data m) new_size 0, rb_control := ring_control_new new_size,
                  rb_def := (rb_def m)\<lparr>def_max_entries := new_max_entries\<rparr>\<rparr>)))"

section \<open>Circular reading and writing\<close>

definition cyc :: "'a list \<Rightarrow> nat \<Rightarrow> 'a" where
  "cyc buf i = buf ! (i mod length buf)"

lemma cyc_mod: "cyc buf (i mod length buf + j) = cyc buf (i + j)"
  by (simp add: cyc_def mod_simps)

lemma read_wrapped_cyc:
  assumes "off < cap" "n \<le> cap" "length buf = cap"
  shows "read_wrapped cap buf off n = Some (map (\<lambda>j. cyc buf (off + j)) [0..<n])"
proof (cases "n \<le> cap - off")
  case True
  then have "take n (drop off buf) = map (\<lambda>j. cyc buf (off + j)) [0..<n]"
    using assms by (intro nth_equalityI) (auto simp: cyc_def)
  then show ?thesis using True assms by (simp add: read_wrapped_def Let_def buffer_simps)
next
  case False
  have wrap: "(off + j) mod cap = off + j - cap" if "cap - off \<le> j" "j < n" for j
    using that assms by (subst mod_if) auto
  have "drop off buf @ take (n - (cap - off)) buf = map (\<lambda>j. cyc buf (off + j)) [0..<n]"
  proof (rule nth_equalityI)
    fix j assume "j < length (drop off buf @ take (n - (cap - off)) buf)"
    then have "j < n" using assms False by auto
    then show "(drop off buf @ take (n - (cap - off)) buf) ! j = map (\<lambda>j. cyc buf (off + j)) [0..<n] ! j"
      using assms wrap [of j] by (auto simp: cyc_def nth_append add.commute [of j off])
  qed (use assms False in auto)
  then show ?thesis using False assms by (simp add: read_wrapped_def Let_def buffer_simps)
qed

lemma write_wrapped_cyc:
  assumes "off < cap" "length data \<le> cap" "length buf = cap"
  shows "\<exists>buf'. write_wrapped cap buf off data = Some buf' \<and> length buf' = cap \<and>
     (\<forall>j<cap. cyc buf' (off + j) = (if j < length data then data ! j else cyc buf (off + j)))"
proof (cases "length data \<le> cap - off")
  case True
  have "cyc (overwrite buf off data) (off + j) = (if j < length data then data ! j else cyc buf (off + j))"
    if j: "j < cap" for j
  proof (cases "off + j < cap")
    case True
    then show ?thesis using assms \<open>length data \<le> cap - off\<close> by (simp add: cyc_def nth_overwrite)
  next
    case False
    then have m: "(off + j) mod cap = off + j - cap" using j assms by (subst mod_if) auto
    have "off + j - cap < off" "\<not> j < length data" using False j assms(1) \<open>length data \<le> cap - off\<close> by linarith+
    then show ?thesis using assms m \<open>length data \<le> cap - off\<close> by (simp add: cyc_def nth_overwrite)
  qed
  then show ?thesis using True assms by (simp add: write_wrapped_def Let_def buffer_simps)
next
  case False
  let ?f = "cap - off"
  let ?b1 = "overwrite buf off (take ?f data)"
  let ?b2 = "overwrite ?b1 0 (drop ?f data)"
  have l1: "length ?b1 = cap" using assms False by simp
  have l2: "length ?b2 = cap" using assms False l1 by simp
  have "cyc ?b2 (off + j) = (if j < length data then data ! j else cyc buf (off + j))" if j: "j < cap" for j
  proof (cases "off + j < cap")
    case True
    then show ?thesis using assms False l1 l2 by (auto simp: cyc_def nth_overwrite)
  next
    case wr: False
    then have m: "(off + j) mod cap = off + j - cap" using j assms by (subst mod_if) auto
    then show ?thesis using assms False wr j l1 l2 by (auto simp: cyc_def nth_overwrite)
  qed
  then show ?thesis using False assms l1 l2 by (simp add: write_wrapped_def Let_def buffer_simps)
qed

lemma cyc_turn: "cyc buf (i + length buf) = cyc buf i"
  by (simp add: cyc_def)

text \<open>The same for a position that runs freely, and for a header followed by its data.\<close>

lemma read_at:
  assumes "0 < cap" "n \<le> cap" "length buf = cap"
  shows "read_wrapped cap buf (p mod cap) n = Some (map (\<lambda>j. cyc buf (p + j)) [0..<n])"
  using read_wrapped_cyc [of "p mod cap" cap n buf] assms cyc_mod [of buf p] by simp

lemma write_at:
  assumes "0 < cap" "length data \<le> cap" "length buf = cap"
  shows "\<exists>buf'. write_wrapped cap buf (p mod cap) data = Some buf' \<and> length buf' = cap \<and>
     (\<forall>j<cap. cyc buf' (p + j) = (if j < length data then data ! j else cyc buf (p + j)))"
proof -
  obtain buf' where b: "write_wrapped cap buf (p mod cap) data = Some buf'" "length buf' = cap"
     "\<forall>j<cap. cyc buf' (p mod cap + j) = (if j < length data then data ! j else cyc buf (p mod cap + j))"
    using write_wrapped_cyc [of "p mod cap" cap data buf] assms by auto
  then show ?thesis using cyc_mod [of buf p] cyc_mod [of buf' p] assms(3) by auto
qed

lemma write_two:
  assumes "0 < cap" "length hdr + length data \<le> cap" "length buf = cap"
  shows "\<exists>b1 b2. write_wrapped cap buf (p mod cap) hdr = Some b1 \<and>
     write_wrapped cap b1 ((p + length hdr) mod cap) data = Some b2 \<and> length b2 = cap \<and>
     (\<forall>j<cap. cyc b2 (p + j) = (if j < length hdr + length data then (hdr @ data) ! j else cyc buf (p + j)))"
proof -
  obtain b1 where b1: "write_wrapped cap buf (p mod cap) hdr = Some b1" "length b1 = cap"
     "\<forall>j<cap. cyc b1 (p + j) = (if j < length hdr then hdr ! j else cyc buf (p + j))"
    using write_at [of cap hdr buf p] assms by auto
  obtain b2 where b2: "write_wrapped cap b1 ((p + length hdr) mod cap) data = Some b2" "length b2 = cap"
     "\<forall>j<cap. cyc b2 (p + length hdr + j) = (if j < length data then data ! j else cyc b1 (p + length hdr + j))"
    using write_at [of cap data b1 "p + length hdr"] assms b1(2) by auto
  have "cyc b2 (p + j) = (if j < length hdr + length data then (hdr @ data) ! j else cyc buf (p + j))" if j: "j < cap" for j
  proof (cases "j < length hdr")
    case True
    let ?i = "cap - length hdr + j"
    have "p + length hdr + ?i = p + j + cap" "?i < cap" "\<not> ?i < length data" using True assms(2) by auto
    then have "cyc b2 (p + j) = cyc b1 (p + j)"
      using b2(3) [rule_format, of ?i] cyc_turn [of b2 "p + j"] cyc_turn [of b1 "p + j"] b1(2) b2(2)
      by (simp add: ac_simps)
    then show ?thesis using b1(3) True j by (simp add: nth_append)
  next
    case False
    then have "p + length hdr + (j - length hdr) = p + j" "j - length hdr < cap" using j by auto
    then show ?thesis using b2(3) [rule_format, of "j - length hdr"] b1(3) False j by (auto simp: nth_append)
  qed
  then show ?thesis using b1(1) b2(1,2) by blast
qed

section \<open>The queue\<close>

abbreviation event_size :: "bytes \<Rightarrow> nat" where
  "event_size d \<equiv> align8 (EVENT_SIZE + length d)"

abbreviation event_head :: "bytes \<Rightarrow> bytes" where
  "event_head d \<equiv> header_as_bytes (event_header_new (of_nat (length d)))"

definition queue_bytes :: "bytes list \<Rightarrow> nat" where
  "queue_bytes q = sum_list (map event_size q)"

text \<open>The events of \<open>q\<close> lie one after the other in the bytes \<open>f\<close> from position \<open>p\<close> on; padding is free.\<close>

primrec layout :: "(nat \<Rightarrow> u8) \<Rightarrow> nat \<Rightarrow> bytes list \<Rightarrow> bool" where
  "layout f p [] \<longleftrightarrow> True"
| "layout f p (d # q) \<longleftrightarrow> map (\<lambda>j. f (p + j)) [0..<EVENT_SIZE + length d] = event_head d @ d \<and> layout f (p + event_size d) q"

definition ring_byte :: "ringbuf_map \<Rightarrow> nat \<Rightarrow> u8" where
  "ring_byte m j = cyc (rb_data m) (unat (rc_tail (rb_control m)) + j)"

definition ring_queue :: "ringbuf_map \<Rightarrow> bytes list \<Rightarrow> bool" where
  "ring_queue m q \<longleftrightarrow>
     (\<exists>k\<le>28. rc_capacity (rb_control m) = 2 ^ k) \<and> rc_mask (rb_control m) = rc_capacity (rb_control m) - 1 \<and>
     length (rb_data m) = rc_capacity (rb_control m) \<and> rc_used_space (rb_control m) = queue_bytes q \<and>
     queue_bytes q \<le> rc_capacity (rb_control m) \<and> layout (ring_byte m) 0 q"

lemma length_header [simp]: "length (header_as_bytes h) = EVENT_SIZE"
  by (simp add: header_as_bytes_def EVENT_SIZE_def)

lemma header_roundtrip: "header_from_bytes (header_as_bytes h) = Some h"
  by (simp add: header_from_bytes_def header_as_bytes_def)

lemma align8_ge: "n \<le> align8 n"
  unfolding align8_def by presburger

lemma queue_bytes_simps [simp]:
  "queue_bytes [] = 0" "queue_bytes (d # q) = event_size d + queue_bytes q" "queue_bytes (q @ r) = queue_bytes q + queue_bytes r"
  by (simp_all add: queue_bytes_def)

lemma layout_cong:
  assumes "\<And>j. j < queue_bytes q \<Longrightarrow> f (p + j) = g (p' + j)"
  shows "layout f p q \<longleftrightarrow> layout g p' q"
  using assms
proof (induction q arbitrary: p p')
  case (Cons d q)
  have "EVENT_SIZE + length d \<le> event_size d" by (rule align8_ge)
  then have "map (\<lambda>j. f (p + j)) [0..<EVENT_SIZE + length d] = map (\<lambda>j. g (p' + j)) [0..<EVENT_SIZE + length d]"
    using Cons.prems by (intro map_cong) simp_all
  moreover have "layout f (p + event_size d) q \<longleftrightarrow> layout g (p' + event_size d) q"
    using Cons.prems [of "event_size d + _"] by (intro Cons.IH) (simp add: add.assoc)
  ultimately show ?case by (simp only: layout.simps)
qed simp

lemma layout_append: "layout f p (q @ r) \<longleftrightarrow> layout f p q \<and> layout f (p + queue_bytes q) r"
  by (induction q arbitrary: p) (simp_all add: add.assoc)

lemma and_mask_mod: "(x::nat) AND (2 ^ k - Suc 0) = x mod 2 ^ k"
  by (simp add: take_bit_eq_mod [symmetric] take_bit_eq_mask mask_eq_exp_minus_1)

lemma unat_of_small: "n < 2 ^ 64 \<Longrightarrow> unat (of_nat n :: u64) = n"
  by (simp add: unat_of_nat)

lemma counter_mod:
  assumes "k \<le> 64"
  shows "unat (t + of_nat n :: u64) mod 2 ^ k = (unat t + n) mod 2 ^ k"
proof -
  have "(2::nat) ^ k dvd 2 ^ 64" using assms by (rule le_imp_power_dvd)
  then show ?thesis by (simp add: unat_word_ariths unat_of_nat mod_simps mod_mod_cancel)
qed

lemma ring_capacity:
  assumes "ring_queue m q"
  obtains k where "k \<le> 28" "rc_capacity (rb_control m) = 2 ^ k" "rc_mask (rb_control m) = 2 ^ k - 1" "(2::nat) ^ k \<le> 2 ^ 28"
proof -
  obtain k where k: "k \<le> 28" "rc_capacity (rb_control m) = 2 ^ k" using assms by (auto simp: ring_queue_def)
  moreover have "rc_mask (rb_control m) = 2 ^ k - 1" using assms k by (simp add: ring_queue_def)
  moreover have "(2::nat) ^ k \<le> 2 ^ 28" using k(1) by (intro power_increasing) simp_all
  ultimately show thesis using that by blast
qed

lemma rb_reserve_space:
  assumes rq: "ring_queue m q" and sz: "sz \<le> 2 ^ 63"
  shows "rb_reserve m sz =
     (if queue_bytes q + align8 (EVENT_SIZE + sz) \<le> rc_capacity (rb_control m)
      then Some (Some \<lparr>rr_offset = rc_wrap (rb_control m) (rc_head (rb_control m)), rr_data_size = sz,
                       rr_total_size = align8 (EVENT_SIZE + sz)\<rparr>,
                 m\<lparr>rb_control := (rb_control m)\<lparr>rc_head := rc_head (rb_control m) + of_nat (align8 (EVENT_SIZE + sz))\<rparr>\<rparr>)
      else Some (None, m\<lparr>rb_dropped_events := rb_dropped_events m + 1\<rparr>))"
proof -
  have "checked_add_usize EVENT_SIZE sz = Some (EVENT_SIZE + sz)" "checked_add_usize (EVENT_SIZE + sz) 7 = Some (EVENT_SIZE + sz + 7)"
    using sz by (simp_all add: checked_add_usize_def EVENT_SIZE_def usize_MAX_def)
  moreover have "rc_available_space (rb_control m) = Some (rc_capacity (rb_control m) - queue_bytes q)"
    "queue_bytes q \<le> rc_capacity (rb_control m)"
    using rq by (simp_all add: rc_available_space_def ring_queue_def)
  ultimately show ?thesis by (auto simp: rb_reserve_def Let_def align8_def)
qed

lemma head_position:
  assumes "ring_queue m q"
  shows "rc_head (rb_control m) = rc_tail (rb_control m) + of_nat (queue_bytes q)"
proof -
  have "unat (rc_head (rb_control m) - rc_tail (rb_control m)) = queue_bytes q"
    using assms by (simp add: ring_queue_def rc_used_space_def)
  moreover have "rc_head (rb_control m) = rc_tail (rb_control m) + of_nat (unat (rc_head (rb_control m) - rc_tail (rb_control m)))"
    by simp
  ultimately show ?thesis by simp
qed

text \<open>An event is appended when it fits, and dropped and counted when it does not.\<close>

lemma rb_output_queue:
  assumes rq: "ring_queue m q" and len: "length d \<le> 2 ^ 63"
  shows "\<exists>r m'. rb_output m d fl = Some (r, m') \<and>
     (if queue_bytes q + event_size d \<le> rc_capacity (rb_control m)
      then r = Inr () \<and> ring_queue m' (q @ [d]) \<and> rb_dropped_events m' = rb_dropped_events m
      else r = Inl MapFull \<and> ring_queue m' q \<and> rb_dropped_events m' = rb_dropped_events m + 1) \<and>
     rc_capacity (rb_control m') = rc_capacity (rb_control m)"
proof (cases "queue_bytes q + event_size d \<le> rc_capacity (rb_control m)")
  case False
  moreover have "ring_byte (m\<lparr>rb_dropped_events := n\<rparr>) = ring_byte m" for n by (simp add: ring_byte_def fun_eq_iff)
  ultimately show ?thesis using rq by (simp add: rb_output_def rb_reserve_space [OF rq len] ring_queue_def)
next
  case fits: True
  obtain k where k: "k \<le> 28" "rc_capacity (rb_control m) = 2 ^ k" "rc_mask (rb_control m) = 2 ^ k - 1" "(2::nat) ^ k \<le> 2 ^ 28"
    using ring_capacity [OF rq] by blast
  let ?c = "rb_control m" and ?buf = "rb_data m" and ?u = "queue_bytes q"
  let ?T = "unat (rc_tail ?c)" and ?cap = "(2::nat) ^ k"
  let ?h = "event_head d"
  have lb: "length ?buf = ?cap" and lay: "layout (ring_byte m) 0 q" using rq k by (simp_all add: ring_queue_def)
  have sz: "EVENT_SIZE + length d \<le> event_size d" by (rule align8_ge)
  have off: "rc_wrap ?c (rc_head ?c) = (?T + ?u) mod ?cap"
    using k counter_mod [of k "rc_tail ?c" ?u] by (simp add: rc_wrap_def and_mask_mod head_position [OF rq])
  have room: "length ?h + length d \<le> ?cap" using fits sz k(2) by simp
  obtain b1 b2 where w: "write_wrapped ?cap ?buf ((?T + ?u) mod ?cap) ?h = Some b1"
     "write_wrapped ?cap b1 ((?T + ?u + EVENT_SIZE) mod ?cap) d = Some b2" "length b2 = ?cap"
     "\<forall>j<?cap. cyc b2 (?T + ?u + j) = (if j < EVENT_SIZE + length d then (?h @ d) ! j else cyc ?buf (?T + ?u + j))"
    using write_two [of ?cap ?h d ?buf "?T + ?u"] room lb by auto
  define m' where "m' = m\<lparr>rb_control := ?c\<lparr>rc_head := rc_head ?c + of_nat (event_size d)\<rparr>, rb_data := b2\<rparr>"
  have mo: "((?T + ?u) mod ?cap + EVENT_SIZE) mod ?cap = (?T + ?u + EVENT_SIZE) mod ?cap" by (simp add: mod_simps)
  have out: "rb_output m d fl = Some (Inr (), m')"
    using w(1,2) fits k mo
    by (simp add: rb_output_def rb_reserve_space [OF rq len] rb_submit_def Let_def off and_mask_mod m'_def)
  have used: "rc_used_space (rb_control m') = ?u + event_size d"
  proof -
    have "?u + event_size d < 2 ^ 64" using fits k(2,4) by simp
    then have "unat (of_nat ?u + of_nat (event_size d) :: u64) = ?u + event_size d"
      using unat_of_small [of "?u + event_size d"] by (simp only: of_nat_add)
    then show ?thesis by (simp add: rc_used_space_def m'_def head_position [OF rq])
  qed
  have old: "ring_byte m' j = ring_byte m j" if j: "j < ?u" for j
  proof -
    let ?i = "?cap - ?u + j"
    have "?T + ?u + ?i = ?T + j + ?cap" "?i < ?cap" "\<not> ?i < EVENT_SIZE + length d" using j fits sz k(2) by auto
    then have "cyc b2 (?T + j + ?cap) = cyc ?buf (?T + j + ?cap)" using w(4) by metis
    then show ?thesis using cyc_turn [of b2 "?T + j"] cyc_turn [of ?buf "?T + j"] lb w(3)
      by (simp add: ring_byte_def m'_def)
  qed
  have "map (\<lambda>j. ring_byte m' (?u + j)) [0..<EVENT_SIZE + length d] = ?h @ d"
    using w(4) room by (intro nth_equalityI) (simp_all add: ring_byte_def m'_def add.assoc)
  moreover have "layout (ring_byte m') 0 q" using lay old layout_cong [of q "ring_byte m'" 0 "ring_byte m" 0] by simp
  ultimately have "layout (ring_byte m') 0 (q @ [d])" by (simp add: layout_append)
  then have "ring_queue m' (q @ [d])"
    using used fits k w(3) rq by (simp add: ring_queue_def m'_def)
  then show ?thesis using out fits by (simp add: m'_def)
qed

text \<open>Polling takes the oldest event.\<close>

lemma rb_poll_queue:
  assumes rq: "ring_queue m q"
  shows "case q of [] \<Rightarrow> rb_poll m = Some (None, m)
     | d # q' \<Rightarrow> \<exists>m'. rb_poll m = Some (Some d, m') \<and> ring_queue m' q' \<and> rb_dropped_events m' = rb_dropped_events m \<and>
         rc_capacity (rb_control m') = rc_capacity (rb_control m)"
proof (cases q)
  case Nil
  then have "rc_used_space (rb_control m) = 0" using rq by (simp add: ring_queue_def)
  then show ?thesis using Nil by (simp add: rb_poll.simps [of m] Let_def EVENT_SIZE_def)
next
  case (Cons d q')
  obtain k where k: "k \<le> 28" "rc_capacity (rb_control m) = 2 ^ k" "rc_mask (rb_control m) = 2 ^ k - 1" "(2::nat) ^ k \<le> 2 ^ 28"
    using ring_capacity [OF rq] by blast
  let ?c = "rb_control m" and ?buf = "rb_data m"
  let ?T = "unat (rc_tail ?c)" and ?cap = "(2::nat) ^ k"
  let ?h = "event_head d"
  have lb: "length ?buf = ?cap" and u: "rc_used_space ?c = event_size d + queue_bytes q'"
    and cap: "event_size d + queue_bytes q' \<le> ?cap"
    and hd: "map (\<lambda>j. cyc ?buf (?T + j)) [0..<EVENT_SIZE + length d] = ?h @ d"
    and lay: "layout (ring_byte m) (event_size d) q'"
    using rq k(2) Cons by (simp_all add: ring_queue_def ring_byte_def)
  have sz: "EVENT_SIZE + length d \<le> event_size d" by (rule align8_ge)
  have "map (\<lambda>j. cyc ?buf (?T + j)) [0..<EVENT_SIZE] = take EVENT_SIZE (map (\<lambda>j. cyc ?buf (?T + j)) [0..<EVENT_SIZE + length d])"
    by (simp add: take_map)
  then have h: "map (\<lambda>j. cyc ?buf (?T + j)) [0..<EVENT_SIZE] = ?h" using hd by simp
  have "map (\<lambda>j. cyc ?buf (?T + EVENT_SIZE + j)) [0..<length d] = drop EVENT_SIZE (map (\<lambda>j. cyc ?buf (?T + j)) [0..<EVENT_SIZE + length d])"
    by (intro nth_equalityI) (simp_all add: add.assoc)
  then have dt: "map (\<lambda>j. cyc ?buf (?T + EVENT_SIZE + j)) [0..<length d] = d" using hd by simp
  have r1: "read_wrapped ?cap ?buf (?T mod ?cap) 8 = Some ?h"
    using read_at [of ?cap 8 ?buf ?T] lb cap sz h by (simp add: EVENT_SIZE_def)
  have r2: "read_wrapped ?cap ?buf ((?T mod ?cap + EVENT_SIZE) mod ?cap) (length d) = Some d"
    using read_at [of ?cap "length d" ?buf "?T + EVENT_SIZE"] lb cap sz dt by (simp add: mod_simps)
  have "length d < 2 ^ 32" using sz cap k(4) by simp
  then have ld: "unat (of_nat (length d) :: u32) = length d" by (simp add: unat_of_nat)
  let ?m' = "m\<lparr>rb_control := ?c\<lparr>rc_tail := rc_tail ?c + of_nat (event_size d)\<rparr>\<rparr>"
  have poll: "rb_poll m = Some (Some d, ?m')"
    using r1 r2 u sz k(2,3) ld
    by (simp add: rb_poll.simps [of m] Let_def header_roundtrip rc_wrap_def and_mask_mod is_busy_def is_discarded_def
        event_header_new_def event_total_size_def)
  have used: "rc_used_space (rb_control ?m') = queue_bytes q'"
  proof -
    have "queue_bytes q' < 2 ^ 64" using cap k(4) by simp
    then have "unat (of_nat (queue_bytes q') :: u64) = queue_bytes q'" by (rule unat_of_small)
    then show ?thesis using head_position [OF rq] Cons by (simp add: rc_used_space_def)
  qed
  have "ring_byte ?m' j = ring_byte m (event_size d + j)" for j
    using counter_mod [of k "rc_tail ?c" "event_size d"] k(1) lb
    by (simp add: ring_byte_def cyc_def) (metis add.assoc mod_add_left_eq)
  then have "layout (ring_byte ?m') 0 q'" using lay layout_cong [of q' "ring_byte ?m'" 0 "ring_byte m" "event_size d"] by simp
  then have "ring_queue ?m' q'" using used cap k rq by (simp add: ring_queue_def)
  then show ?thesis using poll Cons by simp
qed

lemma ringbuf_new_queue:
  assumes "ringbuf_map_new P heap sz = Inr m"
  shows "ring_queue m [] \<and> rc_capacity (rb_control m) = sz \<and> rb_dropped_events m = 0"
proof -
  obtain k where k: "sz = 2 ^ k" and sz: "sz \<le> 2 ^ 28" "sz \<noteq> 0"
    and m: "rb_control m = ring_control_new sz" "rb_data m = vec_resize [] sz 0" "rb_dropped_events m = 0"
    using assms by (auto simp: ringbuf_map_new_def is_power_of_two_def rb_MAX_BUFFER_SIZE_def res_Inr_iffs split: if_splits)
  have "k \<le> 28" using sz(1) unfolding k by (rule power_le_imp_le_exp [rotated]) simp
  then show ?thesis using k m by (auto simp: ring_queue_def ring_control_new_def rc_used_space_def)
qed

lemma ringbuf_resize_queue:
  assumes "rb_resize P heap m n = Inr m'"
  shows "ring_queue m' [] \<and> rc_capacity (rb_control m') = unat n"
proof -
  obtain k where k: "unat n = 2 ^ k" and sz: "unat n \<le> 2 ^ 28"
    and m: "rb_control m' = ring_control_new (unat n)" "length (rb_data m') = unat n"
    using assms by (auto simp: rb_resize_def Let_def is_power_of_two_def rb_MAX_BUFFER_SIZE_def res_Inr_iffs split: if_splits)
  have "k \<le> 28" using sz unfolding k by (rule power_le_imp_le_exp [rotated]) simp
  then show ?thesis using k m by (auto simp: ring_queue_def ring_control_new_def rc_used_space_def)
qed

section \<open>Sequences of operations\<close>

datatype ring_op = RingOutput bytes | RingPoll

datatype ring_answer = RingOutputAnswer "map_error + unit" | RingPollAnswer "bytes option"

primrec rb_run :: "ringbuf_map \<Rightarrow> ring_op list \<Rightarrow> ring_answer list option" where
  "rb_run m [] = Some []"
| "rb_run m (x # xs) = (case x of
     RingOutput d \<Rightarrow> Option.bind (rb_output m d 0) (\<lambda>(r, m'). map_option ((#) (RingOutputAnswer r)) (rb_run m' xs))
   | RingPoll \<Rightarrow> Option.bind (rb_poll m) (\<lambda>(r, m'). map_option ((#) (RingPollAnswer r)) (rb_run m' xs)))"

text \<open>The specification: a queue that takes an event if the events in it leave room for it.\<close>

primrec fifo_run :: "nat \<Rightarrow> bytes list \<Rightarrow> ring_op list \<Rightarrow> ring_answer list" where
  "fifo_run cap q [] = []"
| "fifo_run cap q (x # xs) = (case x of
     RingOutput d \<Rightarrow>
       if queue_bytes q + event_size d \<le> cap then RingOutputAnswer (Inr ()) # fifo_run cap (q @ [d]) xs
       else RingOutputAnswer (Inl MapFull) # fifo_run cap q xs
   | RingPoll \<Rightarrow>
       (case q of [] \<Rightarrow> RingPollAnswer None # fifo_run cap [] xs
        | d # q' \<Rightarrow> RingPollAnswer (Some d) # fifo_run cap q' xs))"

lemma rb_run_fifo:
  assumes "ring_queue m q" "\<forall>d. RingOutput d \<in> set xs \<longrightarrow> length d \<le> 2 ^ 63"
  shows "rb_run m xs = Some (fifo_run (rc_capacity (rb_control m)) q xs)"
  using assms
proof (induction xs arbitrary: m q)
  case (Cons x xs)
  show ?case
  proof (cases x)
    case (RingOutput d)
    then have "length d \<le> 2 ^ 63" using Cons.prems(2) by simp
    then obtain r m' where o: "rb_output m d 0 = Some (r, m')" "rc_capacity (rb_control m') = rc_capacity (rb_control m)"
       "if queue_bytes q + event_size d \<le> rc_capacity (rb_control m)
        then r = Inr () \<and> ring_queue m' (q @ [d]) else r = Inl MapFull \<and> ring_queue m' q"
      using rb_output_queue [OF Cons.prems(1), of d 0] by (auto split: if_splits)
    then show ?thesis using RingOutput Cons.IH [of m'] Cons.prems(2) by (auto split: if_splits)
  next
    case RingPoll
    then show ?thesis using rb_poll_queue [OF Cons.prems(1)] Cons.IH Cons.prems by (cases q) auto
  qed
qed simp

end
