(* ===== verification/Map_Examples.thy ===== *)
theory Map_Examples
  imports Hash_Refinement Array_Map Timeseries_Map Ringbuf_Map
begin

text \<open>
  Concrete maps: a small ring buffer whose reservation is polled before it is submitted, step by step,
  and the maps on which the general theorems are instantiated.
\<close>

section \<open>A reservation that is polled too early\<close>

definition ring16 :: "u64 \<Rightarrow> u64 \<Rightarrow> bytes \<Rightarrow> ringbuf_map" where
  "ring16 h t data = \<lparr>rb_def = \<lparr>map_type_of = MtRingBuf, def_key_size = 0, def_value_size = 0, def_max_entries = 16, def_flags = 0\<rparr>,
     rb_control = \<lparr>rc_head = h, rc_tail = t, rc_capacity = 16, rc_mask = 15\<rparr>, rb_data = data, rb_dropped_events = 0\<rparr>"

lemma power_16: "is_power_of_two 16" unfolding is_power_of_two_def by (intro exI [of _ 4]) simp

lemma zeros_16: "replicate 16 (0::u8) = [0,0,0,0,0,0,0,0,0,0,0,0,0,0,0,0]" by (simp add: numeral_eq_Suc)

lemmas ring_eval = rc_used_space_def EVENT_SIZE_def rc_wrap_def read_wrapped_def get_slice_def ring16_def
    header_from_bytes_def u32_from_bytes_def le_value_def is_busy_def is_discarded_def event_total_size_def align8_def and_mask_mod [of _ 4, simplified]


lemma ring16_new: "ringbuf_map_new EmbeddedProfile (\<lambda>_. True) 16 = Inr (ring16 0 0 [0,0,0,0,0,0,0,0,0,0,0,0,0,0,0,0])"
  by (simp add: ringbuf_map_new_def budget_check_def EmbeddedProfile_def rb_MAX_BUFFER_SIZE_def power_16 try_reserve_exact_def
   ring_control_new_def ring16_def vec_resize_def zeros_16)

lemma ring16_reserve:
  "rb_reserve (ring16 0 0 d) 1 = Some (Some \<lparr>rr_offset = 0, rr_data_size = 1, rr_total_size = 16\<rparr>, ring16 16 0 d)"
  by (simp add: rb_reserve_def rc_available_space_def rc_used_space_def checked_add_usize_def usize_MAX_def EVENT_SIZE_def
      rc_wrap_def ring16_def)

lemma ring16_early_poll: "rb_poll (ring16 16 0 [0,0,0,0,0,0,0,0,0,0,0,0,0,0,0,0]) = Some (Some [], ring16 16 8 [0,0,0,0,0,0,0,0,0,0,0,0,0,0,0,0])"
  by (subst rb_poll.simps) (simp add: ring_eval)

lemma ring16_late_submit: "rb_submit (ring16 16 8 [0,0,0,0,0,0,0,0,0,0,0,0,0,0,0,0]) \<lparr>rr_offset = 0, rr_data_size = 1, rr_total_size = 16\<rparr> [5] =
   Some (Inr (ring16 16 8 [1,0,0,0,0,0,0,0,5,0,0,0,0,0,0,0]))"
  by (simp add: rb_submit_def ring16_def write_wrapped_def copy_slice_def overwrite_def EVENT_SIZE_def header_as_bytes_def event_header_new_def
     u32_to_bytes_def le_bytes_def upt_rec drop_bit_eq_div and_mask_mod [of _ 4, simplified])

lemma ring16_garbage: "rb_poll (ring16 16 8 [1,0,0,0,0,0,0,0,5,0,0,0,0,0,0,0]) = Some (Some [1,0,0,0,0], ring16 16 24 [1,0,0,0,0,0,0,0,5,0,0,0,0,0,0,0])"
  by (subst rb_poll.simps) (simp add: ring_eval)

lemma ring16_stuck: "rb_reserve (ring16 16 24 d) 0 = None"
  by (simp add: rb_reserve_def rc_available_space_def rc_used_space_def ring16_def checked_add_usize_def EVENT_SIZE_def usize_MAX_def)

section \<open>A small hash map\<close>

definition small_map_def :: map_def where
  "small_map_def = \<lparr>map_type_of = MtHash, def_key_size = 1, def_value_size = 2, def_max_entries = 2, def_flags = 0\<rparr>"

lemma small_map_created: "\<exists>m. hash_map_new EmbeddedProfile (\<lambda>_. True) small_map_def = Inr m"
  by (simp add: hash_map_new_def small_map_def_def hash_storage_new_def budget_check_def EmbeddedProfile_def try_reserve_exact_def hash_allocation_size_def checked_mul_usize_def checked_add_usize_def usize_MAX_def hash_entry_size_def)

end
