(* ===== verification/Frame_Allocator.thy ===== *)
theory Frame_Allocator
  imports Rust_Std
begin

text \<open>
  The physical memory manager (\<open>kernel_physical_memory\<close>): frames of three sizes, memory regions with
  one state per 4 KiB frame, and an allocator that searches first-fit from a cached position. The
  fault-injection checkpoints are compiled out of the kernel and not modelled; on \<open>x86_64\<close> the address
  types come from another crate, so it is the crate's own types that are modelled.
\<close>

section \<open>Frames\<close>

datatype page_size = Size4KiB | Size2MiB | Size1GiB

primrec page_SIZE :: "page_size \<Rightarrow> u64" where
  "page_SIZE Size4KiB = 4096"
| "page_SIZE Size2MiB = 2 * 1024 * 1024"
| "page_SIZE Size1GiB = 1024 * 1024 * 1024"

text \<open>A \<open>PhysFrame<S>\<close> is its start address.\<close>

definition containing_address :: "page_size \<Rightarrow> u64 \<Rightarrow> u64" where
  "containing_address S addr = addr AND NOT (page_SIZE S - 1)"

definition from_start_address :: "page_size \<Rightarrow> u64 \<Rightarrow> (u64 \<times> u64) + u64" where
  "from_start_address S addr =
     (if addr AND (page_SIZE S - 1) \<noteq> 0 then Inl (addr, page_SIZE S) else Inr addr)"

definition is_aligned :: "u64 \<Rightarrow> u64 \<Rightarrow> bool" where
  "is_aligned addr align \<longleftrightarrow> addr mod align = 0"

definition align_down :: "u64 \<Rightarrow> u64 \<Rightarrow> u64" where
  "align_down addr align = addr AND NOT (align - 1)"

definition frame_number :: "page_size \<Rightarrow> u64 \<Rightarrow> u64" where
  "frame_number S frame = frame div page_SIZE S"

record frame_range =
  fr_start :: u64
  fr_end :: u64

text \<open>\<open>Iterator::next\<close> of an inclusive range.\<close>

definition frame_range_next :: "page_size \<Rightarrow> frame_range \<Rightarrow> (u64 \<times> frame_range) option" where
  "frame_range_next S r =
     (if fr_start r > fr_end r then None
      else Some (fr_start r, r\<lparr>fr_start := containing_address S (fr_start r + page_SIZE S)\<rparr>))"

section \<open>Regions\<close>

datatype frame_state = Unusable | Allocated | Free

definition is_usable :: "frame_state \<Rightarrow> bool" where
  "is_usable st \<longleftrightarrow> st \<noteq> Unusable"

record memory_region =
  mr_base_addr :: u64
  mr_frames :: "frame_state list"

definition memory_region_new :: "u64 \<Rightarrow> nat \<Rightarrow> frame_state \<Rightarrow> memory_region" where
  "memory_region_new base num_frames initial = \<lparr>mr_base_addr = base, mr_frames = replicate num_frames initial\<rparr>"

definition frame_index :: "memory_region \<Rightarrow> u64 \<Rightarrow> nat option" where
  "frame_index r addr =
     (if addr < mr_base_addr r then None
      else let offset = addr - mr_base_addr r;
               index = unat (offset div page_SIZE Size4KiB)
           in if index < length (mr_frames r) then Some index else None)"

definition frame_address :: "memory_region \<Rightarrow> nat \<Rightarrow> u64 option" where
  "frame_address r index =
     (if index < length (mr_frames r) then Some (mr_base_addr r + of_nat index * page_SIZE Size4KiB) else None)"

section \<open>The manager\<close>

record region_frame_index =
  rfi_region :: nat
  rfi_frame :: nat

record pmm =
  pmm_regions :: "memory_region list"
  pmm_first_free :: "region_frame_index option"

text \<open>The loops over \<open>regions.iter().enumerate()\<close>, from a first index on.\<close>

fun find_frame_location :: "nat \<Rightarrow> memory_region list \<Rightarrow> u64 \<Rightarrow> region_frame_index option" where
  "find_frame_location k [] addr = None"
| "find_frame_location k (r # rs) addr =
     (case frame_index r addr of
        Some i \<Rightarrow> Some \<lparr>rfi_region = k, rfi_frame = i\<rparr>
      | None \<Rightarrow> find_frame_location (Suc k) rs addr)"

fun find_first_free_from :: "nat \<Rightarrow> memory_region list \<Rightarrow> region_frame_index option" where
  "find_first_free_from k [] = None"
| "find_first_free_from k (r # rs) =
     (case position (\<lambda>s. s = Free) (mr_frames r) of
        Some i \<Rightarrow> Some \<lparr>rfi_region = k, rfi_frame = i\<rparr>
      | None \<Rightarrow> find_first_free_from (Suc k) rs)"

definition find_first_free :: "memory_region list \<Rightarrow> region_frame_index option" where
  "find_first_free rs = find_first_free_from 0 rs"

definition pmm_new :: "memory_region list \<Rightarrow> pmm" where
  "pmm_new rs = \<lparr>pmm_regions = rs, pmm_first_free = find_first_free rs\<rparr>"

definition update_first_free :: "pmm \<Rightarrow> nat \<Rightarrow> nat \<Rightarrow> pmm" where
  "update_first_free m start_region start_index =
     (let here = (if start_region < length (pmm_regions m) \<and> start_index < length (mr_frames (pmm_regions m ! start_region))
                  then position (\<lambda>s. s = Free) (drop start_index (mr_frames (pmm_regions m ! start_region)))
                  else None)
      in case here of
           Some idx \<Rightarrow> m\<lparr>pmm_first_free := Some \<lparr>rfi_region = start_region, rfi_frame = start_index + idx\<rparr>\<rparr>
         | None \<Rightarrow> m\<lparr>pmm_first_free := find_first_free_from (start_region + 1) (drop (start_region + 1) (pmm_regions m))\<rparr>)"

definition small_frames_per_frame :: "page_size \<Rightarrow> nat" where
  "small_frames_per_frame S = unat (page_SIZE S div page_SIZE Size4KiB)"

lemma small_frames_simps [simp]:
  "small_frames_per_frame Size4KiB = 1" "small_frames_per_frame Size2MiB = 512" "small_frames_per_frame Size1GiB = 262144"
  by (simp_all add: small_frames_per_frame_def)

lemma small_frames_positive [simp]: "0 < small_frames_per_frame S"
  by (cases S) simp_all

text \<open>The \<open>while\<close> loop that looks for contiguous free frames in one region.\<close>

function search_run :: "page_size \<Rightarrow> nat \<Rightarrow> frame_state list \<Rightarrow> nat \<Rightarrow> nat option" where
  "search_run S small_frame_count frames current_start =
     (if current_start + small_frame_count \<le> length frames
      then if \<forall>s\<in>set (take small_frame_count (drop current_start frames)). s = Free then Some current_start
           else search_run S small_frame_count frames (current_start + small_frames_per_frame S)
      else None)"
  by pat_completeness auto
termination
proof (relation "measure (\<lambda>(S, n, frames, c). Suc (length frames) - c)")
  fix S n frames c
  assume le: "c + n \<le> length frames"
  obtain k where "small_frames_per_frame S = Suc k" using small_frames_positive [of S] gr0_implies_Suc by blast
  with le show "((S, n, frames, c + small_frames_per_frame S), (S, n, frames, c)) \<in> measure (\<lambda>(S, n, frames, c). Suc (length frames) - c)"
    by simp
qed simp

declare search_run.simps [simp del]

definition aligned_search_start :: "page_size \<Rightarrow> u64 \<Rightarrow> nat \<Rightarrow> nat" where
  "aligned_search_start S start_addr search_start =
     (let alignment = page_SIZE S; misalignment = start_addr mod alignment
      in if misalignment = 0 then search_start
         else let bytes_to_add = alignment - misalignment
              in search_start + unat (bytes_to_add div page_SIZE Size4KiB))"

text \<open>
  The loop over the regions; it ends with the region and the first frame of the run. A region whose
  search start is out of bounds is skipped.
\<close>

fun search_regions :: "page_size \<Rightarrow> nat \<Rightarrow> memory_region list \<Rightarrow> region_frame_index \<Rightarrow> nat list \<Rightarrow> (nat \<times> nat) option" where
  "search_regions S n regions ff [] = None"
| "search_regions S n regions ff (region_idx # rest) =
     (let search_start = (if region_idx = rfi_region ff then rfi_frame ff else 0);
          region = regions ! region_idx
      in case frame_address region search_start of
           None \<Rightarrow> search_regions S n regions ff rest
         | Some start_addr \<Rightarrow>
             (case search_run S (n * small_frames_per_frame S) (mr_frames region)
                     (aligned_search_start S start_addr search_start) of
                Some current_start \<Rightarrow> Some (region_idx, current_start)
              | None \<Rightarrow> search_regions S n regions ff rest))"

definition mark_allocated :: "memory_region \<Rightarrow> nat \<Rightarrow> nat \<Rightarrow> memory_region" where
  "mark_allocated r start count =
     r\<lparr>mr_frames := overwrite (mr_frames r) start (replicate count Allocated)\<rparr>"

text \<open>
  The product for the number of small frames may overflow, \<open>n - 1\<close> underflows for \<open>n = 0\<close>, and the \<open>expect\<close>
  on an unaligned start address panics; these are \<open>None\<close>. The other sums of the search add indices of
  frames, below \<open>2 ^ 52\<close>, to this number and are exact for requests of up to \<open>2 ^ 63\<close> small frames.
\<close>

definition allocate_frames :: "page_size \<Rightarrow> pmm \<Rightarrow> nat \<Rightarrow> (frame_range option \<times> pmm) option" where
  "allocate_frames S m n =
     (if usize_MAX < n * small_frames_per_frame S then None else case pmm_first_free m of
        None \<Rightarrow> Some (None, m)
      | Some ff \<Rightarrow>
          (case search_regions S n (pmm_regions m) ff [rfi_region ff..<length (pmm_regions m)] of
             None \<Rightarrow> Some (None, m)
           | Some (region_idx, frame_start_idx) \<Rightarrow>
               if n = 0 then None
               else
                 let per = small_frames_per_frame S; small_frame_count = n * per;
                     frame_end_idx = frame_start_idx + small_frame_count - 1;
                     region = pmm_regions m ! region_idx;
                     m1 = m\<lparr>pmm_regions := (pmm_regions m)[region_idx := mark_allocated region frame_start_idx small_frame_count]\<rparr>;
                     m2 = (if region_idx = rfi_region ff \<and> frame_start_idx \<le> rfi_frame ff
                           then update_first_free m1 region_idx (frame_end_idx + 1) else m1)
                 in case (frame_address region frame_start_idx, frame_address region (frame_start_idx + (n - 1) * per)) of
                      (Some start_addr, Some end_addr) \<Rightarrow>
                        (case (from_start_address S start_addr, from_start_address S end_addr) of
                           (Inr s, Inr e) \<Rightarrow> Some (Some \<lparr>fr_start = s, fr_end = e\<rparr>, m2)
                         | _ \<Rightarrow> None)
                    | _ \<Rightarrow> None))"

definition allocate_frame :: "page_size \<Rightarrow> pmm \<Rightarrow> (u64 option \<times> pmm) option" where
  "allocate_frame S m = map_option (\<lambda>(r, m'). (map_option fr_start r, m')) (allocate_frames S m 1)"

definition deallocate_4kib :: "pmm \<Rightarrow> u64 \<Rightarrow> u64 option \<times> pmm" where
  "deallocate_4kib m frame =
     (case find_frame_location 0 (pmm_regions m) frame of
        None \<Rightarrow> (None, m)
      | Some loc \<Rightarrow>
          let region = pmm_regions m ! rfi_region loc
          in if mr_frames region ! rfi_frame loc = Allocated
             then let m1 = m\<lparr>pmm_regions := (pmm_regions m)[rfi_region loc :=
                               region\<lparr>mr_frames := (mr_frames region)[rfi_frame loc := Free]\<rparr>]\<rparr>;
                      is_before_first_free = (case pmm_first_free m of
                          Some ff \<Rightarrow> rfi_region loc < rfi_region ff \<or>
                            (rfi_region loc = rfi_region ff \<and> rfi_frame loc < rfi_frame ff)
                        | None \<Rightarrow> True)
                  in (Some frame, if is_before_first_free then m1\<lparr>pmm_first_free := Some loc\<rparr> else m1)
             else (None, m))"

text \<open>
  The large frames are freed piece by piece; the first piece that is not allocated ends the loop with
  \<open>None\<close> and leaves the earlier ones free.
\<close>

fun deallocate_pieces :: "(pmm \<Rightarrow> u64 \<Rightarrow> u64 option \<times> pmm) \<Rightarrow> page_size \<Rightarrow> pmm \<Rightarrow> u64 \<Rightarrow> nat list \<Rightarrow> u64 option \<times> pmm" where
  "deallocate_pieces dealloc piece m frame [] = (Some frame, m)"
| "deallocate_pieces dealloc piece m frame (i # rest) =
     (case dealloc m (containing_address piece (frame + of_nat i * page_SIZE piece)) of
        (None, m') \<Rightarrow> (None, m')
      | (Some _, m') \<Rightarrow> deallocate_pieces dealloc piece m' frame rest)"

definition deallocate_2mib :: "pmm \<Rightarrow> u64 \<Rightarrow> u64 option \<times> pmm" where
  "deallocate_2mib m frame = deallocate_pieces deallocate_4kib Size4KiB m frame [0..<512]"

definition deallocate_1gib :: "pmm \<Rightarrow> u64 \<Rightarrow> u64 option \<times> pmm" where
  "deallocate_1gib m frame = deallocate_pieces deallocate_2mib Size2MiB m frame [0..<512]"

primrec deallocate_frame :: "page_size \<Rightarrow> pmm \<Rightarrow> u64 \<Rightarrow> u64 option \<times> pmm" where
  "deallocate_frame Size4KiB m frame = deallocate_4kib m frame"
| "deallocate_frame Size2MiB m frame = deallocate_2mib m frame"
| "deallocate_frame Size1GiB m frame = deallocate_1gib m frame"

text \<open>The default method \<open>deallocate_frames\<close> walks the range with its iterator.\<close>

partial_function (option) deallocate_frames_loop ::
  "page_size \<Rightarrow> pmm \<Rightarrow> frame_range \<Rightarrow> frame_range option \<Rightarrow> (frame_range option \<times> pmm) option" where
  "deallocate_frames_loop S m frames res =
     (case frame_range_next S frames of
        None \<Rightarrow> Some (res, m)
      | Some (frame, frames') \<Rightarrow>
          (case deallocate_frame S m frame of
             (None, m') \<Rightarrow> Some (None, m')
           | (Some frame', m') \<Rightarrow>
               deallocate_frames_loop S m' frames'
                 (Some \<lparr>fr_start = (case res of None \<Rightarrow> frame' | Some r \<Rightarrow> fr_start r), fr_end = frame'\<rparr>)))"

definition deallocate_frames :: "page_size \<Rightarrow> pmm \<Rightarrow> frame_range \<Rightarrow> (frame_range option \<times> pmm) option" where
  "deallocate_frames S m frames = deallocate_frames_loop S m frames None"

section \<open>The cached position\<close>

text \<open>
  \<open>frame_at\<close> is the state of one frame, and \<open>first_free_at\<close> says that a position is the first free frame
  in the order of the regions.
\<close>

definition frame_in :: "memory_region list \<Rightarrow> nat \<Rightarrow> nat \<Rightarrow> bool" where
  "frame_in rs r i \<longleftrightarrow> r < length rs \<and> i < length (mr_frames (rs ! r))"

definition free_at :: "memory_region list \<Rightarrow> nat \<Rightarrow> nat \<Rightarrow> bool" where
  "free_at rs r i \<longleftrightarrow> frame_in rs r i \<and> mr_frames (rs ! r) ! i = Free"

definition before :: "nat \<Rightarrow> nat \<Rightarrow> nat \<Rightarrow> nat \<Rightarrow> bool" where
  "before r i r' i' \<longleftrightarrow> r < r' \<or> r = r' \<and> i < i'"

definition first_free_at :: "memory_region list \<Rightarrow> region_frame_index option \<Rightarrow> bool" where
  "first_free_at rs p \<longleftrightarrow> (case p of
     None \<Rightarrow> \<forall>r i. \<not> free_at rs r i
   | Some x \<Rightarrow> free_at rs (rfi_region x) (rfi_frame x) \<and> (\<forall>r i. before r i (rfi_region x) (rfi_frame x) \<longrightarrow> \<not> free_at rs r i))"

lemma find_first_free_from_spec:
  "case find_first_free_from k rs of
     None \<Rightarrow> \<forall>r i. \<not> free_at rs r i
   | Some x \<Rightarrow> k \<le> rfi_region x \<and> free_at rs (rfi_region x - k) (rfi_frame x) \<and>
       (\<forall>r i. before r i (rfi_region x - k) (rfi_frame x) \<longrightarrow> \<not> free_at rs r i)"
proof (induction rs arbitrary: k)
  case Nil
  then show ?case by (simp add: free_at_def frame_in_def)
next
  case (Cons r rs)
  have shift: "free_at (r # rs) (Suc j) i = free_at rs j i" for j i by (simp add: free_at_def frame_in_def)
  show ?case
  proof (cases "position (\<lambda>s. s = Free) (mr_frames r)")
    case None
    then have none: "\<not> free_at (r # rs) 0 i" for i by (auto simp: position_None free_at_def frame_in_def)
    then have step: "free_at (r # rs) j i \<longleftrightarrow> (\<exists>j'. j = Suc j' \<and> free_at rs j' i)" for j i
      using shift by (cases j) auto
    show ?thesis
    proof (cases "find_first_free_from (Suc k) rs")
      case None
      then show ?thesis using Cons.IH [of "Suc k"] \<open>position _ _ = None\<close> by (simp add: step)
    next
      case (Some x)
      then have x: "Suc k \<le> rfi_region x" "free_at rs (rfi_region x - Suc k) (rfi_frame x)"
          "\<forall>r i. before r i (rfi_region x - Suc k) (rfi_frame x) \<longrightarrow> \<not> free_at rs r i"
        using Cons.IH [of "Suc k"] by simp_all
      then have eq: "rfi_region x - k = Suc (rfi_region x - Suc k)" by simp
      have "\<not> free_at (r # rs) j i" if "before j i (rfi_region x - k) (rfi_frame x)" for j i
        using that x(3) unfolding step eq by (auto simp: before_def)
      then show ?thesis using x \<open>position _ _ = None\<close> Some by (simp add: eq shift)
    qed
  next
    case (Some i)
    then show ?thesis using position_Some [OF Some]
      by (auto simp: free_at_def frame_in_def before_def)
  qed
qed

lemma find_first_free_spec: "first_free_at rs (find_first_free rs)"
  using find_first_free_from_spec [of rs 0] by (simp add: find_first_free_def first_free_at_def split: option.splits)

lemma update_first_free_spec:
  assumes "\<And>r i. before r i R I \<Longrightarrow> \<not> free_at (pmm_regions m) r i" "R < length (pmm_regions m)"
  shows "first_free_at (pmm_regions m) (pmm_first_free (update_first_free m R I))"
    "pmm_regions (update_first_free m R I) = pmm_regions m"
proof -
  let ?rs = "pmm_regions m"
  let ?here = "if R < length ?rs \<and> I < length (mr_frames (?rs ! R)) then position (\<lambda>s. s = Free) (drop I (mr_frames (?rs ! R))) else None"
  show "pmm_regions (update_first_free m R I) = ?rs" by (simp add: update_first_free_def Let_def split: option.split)
  show "first_free_at ?rs (pmm_first_free (update_first_free m R I))"
  proof (cases ?here)
    case (Some idx)
    then have i: "I < length (mr_frames (?rs ! R))" "position (\<lambda>s. s = Free) (drop I (mr_frames (?rs ! R))) = Some idx"
      by (auto split: if_splits)
    note p = position_Some [OF i(2)]
    have "free_at ?rs R (I + idx)" using p i(1) assms(2) by (auto simp: free_at_def frame_in_def)
    moreover have "\<not> free_at ?rs r j" if b: "before r j R (I + idx)" for r j
    proof (cases "r = R \<and> I \<le> j")
      case True
      then have "j - I < idx" "mr_frames (?rs ! R) ! j = drop I (mr_frames (?rs ! R)) ! (j - I)"
        using b i(1) by (auto simp: before_def)
      then show ?thesis using p True by (auto simp: free_at_def)
    next
      case False
      then have "before r j R I" using b by (auto simp: before_def)
      then show ?thesis by (rule assms(1))
    qed
    ultimately show ?thesis using Some by (simp add: update_first_free_def Let_def first_free_at_def)
  next
    case None
    have rest: "\<not> free_at ?rs R j" for j
    proof (cases "I \<le> j")
      case True
      show ?thesis
      proof
        assume f: "free_at ?rs R j"
        then have "I < length (mr_frames (?rs ! R))" using True by (simp add: free_at_def frame_in_def)
        then have "\<forall>s\<in>set (drop I (mr_frames (?rs ! R))). s \<noteq> Free" using None assms(2) by (simp add: position_None)
        moreover have "mr_frames (?rs ! R) ! j \<in> set (drop I (mr_frames (?rs ! R)))"
          using f True by (auto simp: free_at_def frame_in_def in_set_conv_nth intro!: exI [of _ "j - I"])
        ultimately show False using f by (auto simp: free_at_def)
      qed
    next
      case False
      then show ?thesis by (intro assms(1)) (simp add: before_def)
    qed
    have lower: "\<not> free_at ?rs r j" if "r \<le> R" for r j
      using that rest [of j] assms(1) [of r j] by (cases "r = R") (auto simp: before_def)
    have sh: "free_at (drop (R + 1) ?rs) r j \<longleftrightarrow> free_at ?rs (R + 1 + r) j" for r j
      by (auto simp: free_at_def frame_in_def add.commute)
    have ff: "pmm_first_free (update_first_free m R I) = find_first_free_from (R + 1) (drop (R + 1) ?rs)"
      using None by (simp add: update_first_free_def Let_def)
    show ?thesis
    proof (cases "find_first_free_from (R + 1) (drop (R + 1) ?rs)")
      case None
      have "\<not> free_at ?rs r j" for r j
      proof (cases "r \<le> R")
        case False
        then have "r = R + 1 + (r - (R + 1))" by simp
        then show ?thesis using find_first_free_from_spec [of "drop (R + 1) ?rs" "R + 1"] None sh by (metis option.simps(4))
      qed (rule lower)
      then show ?thesis using None ff by (simp add: first_free_at_def)
    next
      case (Some x)
      then have x: "R + 1 \<le> rfi_region x" "free_at (drop (R + 1) ?rs) (rfi_region x - (R + 1)) (rfi_frame x)"
         "\<forall>r i. before r i (rfi_region x - (R + 1)) (rfi_frame x) \<longrightarrow> \<not> free_at (drop (R + 1) ?rs) r i"
        using find_first_free_from_spec [of "drop (R + 1) ?rs" "R + 1"] by simp_all
      have "\<not> free_at ?rs r j" if b: "before r j (rfi_region x) (rfi_frame x)" for r j
      proof (cases "r \<le> R")
        case False
        then have "before (r - (R + 1)) j (rfi_region x - (R + 1)) (rfi_frame x)" "r = R + 1 + (r - (R + 1))"
          using b x(1) by (auto simp: before_def)
        then show ?thesis using x(3) sh by metis
      qed (rule lower)
      moreover have "free_at ?rs (rfi_region x) (rfi_frame x)" using x(1,2) sh by simp
      ultimately show ?thesis using Some ff by (simp add: first_free_at_def)
    qed
  qed
qed

section \<open>The invariant\<close>

text \<open>
  Regions are page aligned, lie below the end of the address space and do not overlap; the cached
  position is the first free frame.
\<close>

definition region_wf :: "memory_region \<Rightarrow> bool" where
  "region_wf r \<longleftrightarrow> unat (mr_base_addr r) mod 4096 = 0 \<and> unat (mr_base_addr r) + 4096 * length (mr_frames r) < 2 ^ 64"

definition frame_no :: "memory_region list \<Rightarrow> nat \<Rightarrow> nat \<Rightarrow> nat" where
  "frame_no rs r i = unat (mr_base_addr (rs ! r)) div 4096 + i"

definition regions_wf :: "memory_region list \<Rightarrow> bool" where
  "regions_wf rs \<longleftrightarrow> (\<forall>r\<in>set rs. region_wf r) \<and>
     (\<forall>r i r' i'. frame_in rs r i \<longrightarrow> frame_in rs r' i' \<longrightarrow> frame_no rs r i = frame_no rs r' i' \<longrightarrow> r = r')"

definition pmm_inv :: "pmm \<Rightarrow> bool" where
  "pmm_inv m \<longleftrightarrow> regions_wf (pmm_regions m) \<and> first_free_at (pmm_regions m) (pmm_first_free m)"

lemma frame_in_less: "frame_in rs r i \<Longrightarrow> region_wf (rs ! r) \<Longrightarrow> frame_no rs r i * 4096 < 2 ^ 64"
  by (auto simp: frame_in_def region_wf_def frame_no_def)

lemma unat_frame_address:
  assumes "region_wf r" "i < length (mr_frames r)"
  shows "frame_address r i = Some (mr_base_addr r + of_nat i * 4096)"
    "unat (mr_base_addr r + of_nat i * 4096) = (unat (mr_base_addr r) div 4096 + i) * 4096"
proof -
  have lt: "unat (mr_base_addr r) + 4096 * i < 2 ^ 64" "4096 * i < 2 ^ 64" using assms by (simp_all add: region_wf_def)
  then have "unat (of_nat i * 4096 :: u64) = i * 4096" by (simp add: unat_word_ariths unat_of_nat)
  then have "unat (mr_base_addr r + of_nat i * 4096) = unat (mr_base_addr r) + i * 4096"
    using lt(1) by (simp add: unat_word_ariths)
  moreover have "unat (mr_base_addr r) = unat (mr_base_addr r) div 4096 * 4096"
    using assms(1) by (simp add: region_wf_def mod_0_imp_dvd)
  ultimately show "unat (mr_base_addr r + of_nat i * 4096) = (unat (mr_base_addr r) div 4096 + i) * 4096"
    by (simp add: distrib_right)
  show "frame_address r i = Some (mr_base_addr r + of_nat i * 4096)" using assms(2) by (simp add: frame_address_def)
qed

lemma unat_page_SIZE: "unat (page_SIZE S) = small_frames_per_frame S * 4096"
  by (cases S) simp_all

lemma aligned_and: "addr AND (page_SIZE S - 1) = 0 \<longleftrightarrow> unat addr mod (small_frames_per_frame S * 4096) = 0"
proof -
  have m: "addr AND (2 ^ k - 1) = 0 \<longleftrightarrow> unat addr mod 2 ^ k = 0" if "k < 64" for k
  proof -
    have "addr AND (2 ^ k - 1) = take_bit k addr" by (simp add: take_bit_eq_mask mask_eq_exp_minus_1)
    moreover have "unat (take_bit k addr) = unat addr mod 2 ^ k" unfolding unsigned_take_bit_eq by (simp add: take_bit_eq_mod)
    ultimately show ?thesis by (metis unat_eq_0)
  qed
  show ?thesis using m [of 12] m [of 21] m [of 30] by (cases S) simp_all
qed

text \<open>The first index from \<open>s\<close> on whose frame is aligned to the page size.\<close>

lemma aligned_search_start_eq:
  assumes "unat start_addr = (b + s) * 4096"
  shows "aligned_search_start S start_addr s = s + (small_frames_per_frame S - (b + s) mod small_frames_per_frame S) mod small_frames_per_frame S"
proof -
  let ?p = "small_frames_per_frame S" and ?q = "(b + s) mod small_frames_per_frame S"
  have mis: "unat (start_addr mod page_SIZE S) = ?q * 4096"
    using assms by (simp add: unat_mod unat_page_SIZE mult_mod_left)
  show ?thesis
  proof (cases "?q = 0")
    case True
    then have "start_addr mod page_SIZE S = 0" using mis by (metis mult_0 unat_eq_0)
    then show ?thesis using True by (simp add: aligned_search_start_def)
  next
    case False
    then have ne: "start_addr mod page_SIZE S \<noteq> 0" using mis by (metis mult_is_0 unat_0 zero_neq_numeral)
    have lt: "?q < ?p" by simp
    have "start_addr mod page_SIZE S \<le> page_SIZE S"
      using mis lt by (simp add: word_le_nat_alt unat_page_SIZE)
    then have "unat (page_SIZE S - start_addr mod page_SIZE S) = (?p - ?q) * 4096"
      by (simp add: unat_sub unat_page_SIZE mis diff_mult_distrib)
    then have "unat ((page_SIZE S - start_addr mod page_SIZE S) div 4096) = ?p - ?q" by (simp add: unat_div)
    then show ?thesis using ne False lt by (simp add: aligned_search_start_def Let_def)
  qed
qed

section \<open>Searching\<close>

definition run_free :: "memory_region list \<Rightarrow> nat \<Rightarrow> nat \<Rightarrow> nat \<Rightarrow> bool" where
  "run_free rs r c n \<longleftrightarrow> r < length rs \<and> c + n \<le> length (mr_frames (rs ! r)) \<and> (\<forall>i<n. free_at rs r (c + i))"

definition aligned_at :: "page_size \<Rightarrow> memory_region list \<Rightarrow> nat \<Rightarrow> nat \<Rightarrow> bool" where
  "aligned_at S rs r c \<longleftrightarrow> frame_no rs r c mod small_frames_per_frame S = 0"

lemma run_free_iff:
  assumes "r < length rs"
  shows "c + n \<le> length (mr_frames (rs ! r)) \<and> (\<forall>s\<in>set (take n (drop c (mr_frames (rs ! r)))). s = Free) \<longleftrightarrow> run_free rs r c n"
proof (cases "c + n \<le> length (mr_frames (rs ! r))")
  case True
  then have "(\<forall>s\<in>set (take n (drop c (mr_frames (rs ! r)))). s = Free) \<longleftrightarrow> (\<forall>i<n. mr_frames (rs ! r) ! (c + i) = Free)"
    by (simp add: all_set_conv_all_nth)
  then show ?thesis using True assms by (simp add: run_free_def free_at_def frame_in_def)
qed (simp add: run_free_def)

lemma search_run_spec:
  assumes "r < length rs"
  shows "case search_run S n (mr_frames (rs ! r)) c0 of
     Some c \<Rightarrow> run_free rs r c n \<and> (\<exists>k. c = c0 + k * small_frames_per_frame S)
   | None \<Rightarrow> \<forall>k. \<not> run_free rs r (c0 + k * small_frames_per_frame S) n"
proof (induction "Suc (length (mr_frames (rs ! r))) - c0" arbitrary: c0 rule: less_induct)
  case less
  let ?fr = "mr_frames (rs ! r)" and ?p = "small_frames_per_frame S"
  show ?case
  proof (cases "c0 + n \<le> length ?fr")
    case True
    show ?thesis
    proof (cases "run_free rs r c0 n")
      case True
      then show ?thesis using run_free_iff [OF assms, of c0 n]
        by (subst search_run.simps) (auto intro: exI [of _ 0])
    next
      case False
      then have st: "search_run S n ?fr c0 = search_run S n ?fr (c0 + ?p)"
        using run_free_iff [OF assms, of c0 n] True by (subst search_run.simps) auto
      have IH: "case search_run S n ?fr (c0 + ?p) of
          Some c \<Rightarrow> run_free rs r c n \<and> (\<exists>k. c = c0 + ?p + k * ?p)
        | None \<Rightarrow> \<forall>k. \<not> run_free rs r (c0 + ?p + k * ?p) n"
        using less [of "c0 + ?p"] True small_frames_positive [of S] by linarith
      show ?thesis
      proof (cases "search_run S n ?fr (c0 + ?p)")
        case None
        then have "\<not> run_free rs r (c0 + k * ?p) n" for k
          using IH False by (cases k) (auto simp: add.assoc)
        then show ?thesis using None st by simp
      next
        case (Some c)
        then obtain k where "run_free rs r c n" "c = c0 + ?p + k * ?p" using IH by auto
        then show ?thesis using Some st by (auto intro: exI [of _ "Suc k"])
      qed
    qed
  next
    case False
    then have "\<not> run_free rs r (c0 + k * ?p) n" for k by (auto simp: run_free_def)
    then show ?thesis using False by (subst search_run.simps) simp
  qed
qed

text \<open>The aligned indices from \<open>s\<close> on are the ones that the search visits.\<close>

lemma aligned_positions:
  fixes b s p :: nat
  assumes "0 < p" "s0 = s + (p - (b + s) mod p) mod p"
  shows "(b + (s0 + k * p)) mod p = 0" and "s \<le> c \<Longrightarrow> (b + c) mod p = 0 \<Longrightarrow> \<exists>k. c = s0 + k * p"
proof -
  let ?q = "(b + s) mod p"
  have q: "?q < p" using assms(1) by simp
  have z: "(b + s0) mod p = 0"
  proof -
    have "(b + s + (p - ?q) mod p) mod p = (?q + (p - ?q)) mod p" by (simp add: mod_simps)
    also have "\<dots> = 0" using q by simp
    finally show ?thesis by (simp add: assms(2) add.assoc)
  qed
  then show "(b + (s0 + k * p)) mod p = 0" by (simp add: add.assoc [symmetric])
  assume c: "s \<le> c" "(b + c) mod p = 0"
  have "s0 \<le> c"
  proof (rule ccontr)
    assume n: "\<not> s0 \<le> c"
    then have "b + s0 - (b + c) = s0 - c" "s0 - c < p" "0 < s0 - c"
      using c(1) assms(2) mod_less_divisor [OF assms(1), of "p - ?q"] by linarith+
    moreover have "p dvd b + s0 - (b + c)" using z c(2) by (intro dvd_diff_nat) auto
    ultimately show False by (metis nat_dvd_not_less)
  qed
  moreover have "p dvd (b + c) - (b + s0)" using z c(2) by (intro dvd_diff_nat) auto
  then have "p dvd c - s0" by simp
  ultimately show "\<exists>k. c = s0 + k * p" by (metis dvdE le_add_diff_inverse mult.commute)
qed

lemma search_regions_spec:
  assumes wf: "regions_wf rs" and sub: "set idxs \<subseteq> {..<length rs}" and n: "0 < n"
  shows "case search_regions S n rs ff idxs of
     Some (r, c) \<Rightarrow> r \<in> set idxs \<and> run_free rs r c (n * small_frames_per_frame S) \<and> aligned_at S rs r c \<and> (r = rfi_region ff \<longrightarrow> rfi_frame ff \<le> c)
   | None \<Rightarrow> \<forall>r\<in>set idxs. \<forall>c. run_free rs r c (n * small_frames_per_frame S) \<longrightarrow> aligned_at S rs r c \<longrightarrow> r = rfi_region ff \<and> c < rfi_frame ff"
  using sub
proof (induction idxs)
  case (Cons r idxs)
  let ?p = "small_frames_per_frame S"
  let ?s = "if r = rfi_region ff then rfi_frame ff else 0"
  have r: "r < length rs" and wr: "region_wf (rs ! r)" using Cons.prems wf by (auto simp: regions_wf_def)
  have IH: "case search_regions S n rs ff idxs of
     Some (r, c) \<Rightarrow> r \<in> set idxs \<and> run_free rs r c (n * ?p) \<and> aligned_at S rs r c \<and> (r = rfi_region ff \<longrightarrow> rfi_frame ff \<le> c)
   | None \<Rightarrow> \<forall>r\<in>set idxs. \<forall>c. run_free rs r c (n * ?p) \<longrightarrow> aligned_at S rs r c \<longrightarrow> r = rfi_region ff \<and> c < rfi_frame ff"
    using Cons by simp
  show ?case
  proof (cases "?s < length (mr_frames (rs ! r))")
    case False
    have "r = rfi_region ff \<and> c < rfi_frame ff" if "run_free rs r c (n * ?p)" for c
    proof -
      have "0 < n * ?p" using n by simp
      then have "c < length (mr_frames (rs ! r))" using that unfolding run_free_def by linarith
      then show ?thesis using False by (auto split: if_splits)
    qed
    then show ?thesis using False IH by (auto simp: frame_address_def Let_def split: option.splits)
  next
    case True
    let ?a = "mr_base_addr (rs ! r) + of_nat ?s * 4096" and ?b = "unat (mr_base_addr (rs ! r)) div 4096"
    let ?start = "aligned_search_start S ?a ?s"
    note fa = unat_frame_address [OF wr True]
    have s0: "?start = ?s + (?p - (?b + ?s) mod ?p) mod ?p" using aligned_search_start_eq [OF fa(2)] .
    note pos = aligned_positions [OF small_frames_positive s0]
    have srch: "search_regions S n rs ff (r # idxs) = (case search_run S (n * ?p) (mr_frames (rs ! r)) ?start of
        Some c \<Rightarrow> Some (r, c) | None \<Rightarrow> search_regions S n rs ff idxs)"
      using fa(1) by (simp add: Let_def)
    show ?thesis
    proof (cases "search_run S (n * ?p) (mr_frames (rs ! r)) ?start")
      case (Some c)
      then obtain k where "run_free rs r c (n * ?p)" "c = ?start + k * ?p" using search_run_spec [OF r, of ?start S "n * ?p"] by auto
      moreover from this have "aligned_at S rs r c" using pos(1) [of k] by (simp add: aligned_at_def frame_no_def)
      moreover have "?s \<le> c" using \<open>c = ?start + k * ?p\<close> s0 by linarith
      ultimately show ?thesis using Some srch by auto
    next
      case None
      then have nr: "\<forall>k. \<not> run_free rs r (?start + k * ?p) (n * ?p)" using search_run_spec [OF r, of ?start S "n * ?p"] by simp
      have "r = rfi_region ff \<and> c < rfi_frame ff" if c: "run_free rs r c (n * ?p)" "aligned_at S rs r c" for c
      proof (rule ccontr)
        assume "\<not> (r = rfi_region ff \<and> c < rfi_frame ff)"
        then have "?s \<le> c" by auto
        moreover have "(?b + c) mod ?p = 0" using c(2) by (simp add: aligned_at_def frame_no_def)
        ultimately have "\<exists>k. c = ?start + k * ?p" by (rule pos(2))
        then obtain k where "c = ?start + k * ?p" ..
        then show False using nr c(1) by simp
      qed
      then show ?thesis using None srch IH by (auto split: option.splits)
    qed
  qed
qed simp

section \<open>Allocation\<close>

lemma mark_allocated_frames:
  assumes "run_free rs r c n" "rs' = rs[r := mark_allocated (rs ! r) c n]"
  shows "length rs' = length rs" "frame_in rs' r' i = frame_in rs r' i" "frame_no rs' r' i = frame_no rs r' i"
    "free_at rs' r' i \<longleftrightarrow> free_at rs r' i \<and> \<not> (r' = r \<and> c \<le> i \<and> i < c + n)"
    "regions_wf rs \<Longrightarrow> regions_wf rs'"
proof -
  let ?m = "mark_allocated (rs ! r) c n"
  have r: "r < length rs" "c + n \<le> length (mr_frames (rs ! r))" using assms(1) by (simp_all add: run_free_def)
  have len: "length (mr_frames ?m) = length (mr_frames (rs ! r))" "mr_base_addr ?m = mr_base_addr (rs ! r)"
    using r(2) by (simp_all add: mark_allocated_def)
  show l: "length rs' = length rs" by (simp add: assms(2))
  show fi: "frame_in rs' r' i = frame_in rs r' i" for r' i
    using r len by (cases "r' = r") (simp_all add: assms(2) frame_in_def)
  show fn: "frame_no rs' r' i = frame_no rs r' i" for r' i
    using r len by (cases "r' = r") (simp_all add: assms(2) frame_no_def)
  show "free_at rs' r' i \<longleftrightarrow> free_at rs r' i \<and> \<not> (r' = r \<and> c \<le> i \<and> i < c + n)"
  proof (cases "r' = r")
    case True
    show ?thesis
    proof (cases "i < length (mr_frames (rs ! r))")
      case True
      then show ?thesis using \<open>r' = r\<close> r len fi [of r i]
        by (auto simp: free_at_def assms(2) mark_allocated_def nth_overwrite frame_in_def)
    qed (use \<open>r' = r\<close> fi [of r i] in \<open>auto simp: free_at_def frame_in_def\<close>)
  next
    case False
    then show ?thesis using fi [of r' i] by (simp add: free_at_def assms(2))
  qed
  assume wf: "regions_wf rs"
  have "region_wf x" if "x \<in> set rs'" for x
  proof -
    have "region_wf ?m" using wf r len by (simp add: regions_wf_def region_wf_def)
    then show ?thesis using that wf set_update_subset_insert [of rs r ?m] by (auto simp: assms(2) regions_wf_def)
  qed
  then show "regions_wf rs'" using wf fi fn by (simp add: regions_wf_def)
qed

text \<open>
  An allocation hands out an aligned run of frames that were free and marks exactly these; it fails
  only when no region has such a run, and then nothing changes. It never panics for \<open>n > 0\<close>.
\<close>

lemma allocate_frames_spec:
  assumes inv: "pmm_inv m" and n: "0 < n" and fits: "n * small_frames_per_frame S \<le> usize_MAX"
  shows "\<exists>res m'. allocate_frames S m n = Some (res, m') \<and> pmm_inv m' \<and>
     (case res of
        None \<Rightarrow> m' = m \<and> (\<forall>r c. \<not> (run_free (pmm_regions m) r c (n * small_frames_per_frame S) \<and> aligned_at S (pmm_regions m) r c))
      | Some rng \<Rightarrow> \<exists>r c. run_free (pmm_regions m) r c (n * small_frames_per_frame S) \<and> aligned_at S (pmm_regions m) r c \<and>
          unat (fr_start rng) = frame_no (pmm_regions m) r c * 4096 \<and>
          unat (fr_end rng) = frame_no (pmm_regions m) r (c + (n - 1) * small_frames_per_frame S) * 4096 \<and>
          pmm_regions m' = (pmm_regions m)[r := mark_allocated (pmm_regions m ! r) c (n * small_frames_per_frame S)])"
proof -
  let ?rs = "pmm_regions m" and ?p = "small_frames_per_frame S"
  have wf: "regions_wf ?rs" and ff: "first_free_at ?rs (pmm_first_free m)" using inv by (simp_all add: pmm_inv_def)
  have np: "0 < n * ?p" using n by simp
  show ?thesis
  proof (cases "pmm_first_free m")
    case None
    then have "\<not> run_free ?rs r c (n * ?p)" for r c
      using ff np unfolding first_free_at_def run_free_def by (metis option.case(1))
    then show ?thesis using None inv fits by (simp add: allocate_frames_def)
  next
    case (Some x)
    have x: "free_at ?rs (rfi_region x) (rfi_frame x)" "\<And>r i. before r i (rfi_region x) (rfi_frame x) \<Longrightarrow> \<not> free_at ?rs r i"
      using ff Some by (simp_all add: first_free_at_def)
    have late: "\<not> before r c (rfi_region x) (rfi_frame x)" if "run_free ?rs r c (n * ?p)" for r c
      using that x(2) [of r c] np unfolding run_free_def by (metis add_0_right)
    let ?idx = "[rfi_region x..<length ?rs]"
    have "set ?idx \<subseteq> {..<length ?rs}" by auto
    note sr = search_regions_spec [OF wf this n, of S x]
    show ?thesis
    proof (cases "search_regions S n ?rs x ?idx")
      case None
      have "\<not> (run_free ?rs r c (n * ?p) \<and> aligned_at S ?rs r c)" for r c
      proof
        assume a: "run_free ?rs r c (n * ?p) \<and> aligned_at S ?rs r c"
        then have nb: "\<not> before r c (rfi_region x) (rfi_frame x)" using late by blast
        then have "r \<in> set ?idx" using a by (auto simp: before_def run_free_def)
        then have "r = rfi_region x \<and> c < rfi_frame x" using sr None a by auto
        then show False using nb by (simp add: before_def)
      qed
      then show ?thesis using None Some inv fits by (simp add: allocate_frames_def)
    next
      case found: (Some rc)
      obtain r c where rc: "rc = (r, c)" by (cases rc)
      then have f: "r \<in> set ?idx" "run_free ?rs r c (n * ?p)" "aligned_at S ?rs r c" "r = rfi_region x \<longrightarrow> rfi_frame x \<le> c"
        using sr found by auto
      have rl: "r < length ?rs" "c + n * ?p \<le> length (mr_frames (?rs ! r))" and wr: "region_wf (?rs ! r)"
        using f(2) wf by (auto simp: run_free_def regions_wf_def)
      let ?e = "c + (n - 1) * ?p"
      have "(n - 1) * ?p < n * ?p" using n by simp
      then have cl: "c < length (mr_frames (?rs ! r))" "?e < length (mr_frames (?rs ! r))" using rl(2) by linarith+
      note fc = unat_frame_address [OF wr cl(1)] and fe = unat_frame_address [OF wr cl(2)]
      have al: "from_start_address S (mr_base_addr (?rs ! r) + of_nat i * 4096) = Inr (mr_base_addr (?rs ! r) + of_nat i * 4096)"
        if "unat (mr_base_addr (?rs ! r) + of_nat i * 4096) = (unat (mr_base_addr (?rs ! r)) div 4096 + i) * 4096"
          "(unat (mr_base_addr (?rs ! r)) div 4096 + i) mod ?p = 0" for i
      proof -
        have "(unat (mr_base_addr (?rs ! r)) div 4096 + i) * 4096 mod (?p * 4096) = 0"
          using that(2) by (simp only: mult_mod_left [symmetric] mult_zero_left)
        then show ?thesis unfolding from_start_address_def
          using aligned_and [of "mr_base_addr (?rs ! r) + of_nat i * 4096" S] that(1) by (simp only: if_False not_True_eq_False simp_thms)
      qed
      have ac: "(unat (mr_base_addr (?rs ! r)) div 4096 + c) mod ?p = 0" using f(3) by (simp add: aligned_at_def frame_no_def)
      then have ae: "(unat (mr_base_addr (?rs ! r)) div 4096 + ?e) mod ?p = 0" by (simp add: add.assoc [symmetric])
      let ?rs' = "?rs[r := mark_allocated (?rs ! r) c (n * ?p)]"
      let ?m1 = "m\<lparr>pmm_regions := ?rs'\<rparr>"
      let ?m2 = "if r = rfi_region x \<and> c \<le> rfi_frame x then update_first_free ?m1 r (c + n * ?p - 1 + 1) else ?m1"
      let ?rng = "\<lparr>fr_start = mr_base_addr (?rs ! r) + of_nat c * 4096, fr_end = mr_base_addr (?rs ! r) + of_nat ?e * 4096\<rparr>"
      have out: "allocate_frames S m n = Some (Some ?rng, ?m2)"
        unfolding allocate_frames_def if_not_P [OF fits [unfolded not_less [symmetric]]] Some option.case found rc prod.case Let_def
        using n fc(1) fe(1) al [OF fc(2) ac] al [OF fe(2) ae] by simp
      note mk = mark_allocated_frames [OF f(2) refl]
      have regs: "pmm_regions ?m2 = ?rs'"
        using update_first_free_spec(2) [of r "c + n * ?p - 1 + 1" ?m1] by (simp add: update_first_free_def Let_def split: option.split)
      have "first_free_at ?rs' (pmm_first_free ?m2)"
      proof (cases "r = rfi_region x \<and> c \<le> rfi_frame x")
        case True
        then have c: "c = rfi_frame x" "r = rfi_region x" using f(4) by auto
        have "\<not> free_at ?rs' r' i" if "before r' i r (c + n * ?p - 1 + 1)" for r' i
          unfolding mk(4) using that x(2) [of r' i] np c by (auto simp: before_def intro: leI)
        then show ?thesis using update_first_free_spec(1) [of r "c + n * ?p - 1 + 1" ?m1] True rl(1) by simp
      next
        case False
        then have "free_at ?rs' (rfi_region x) (rfi_frame x)" using x(1) by (auto simp: mk(4))
        moreover have "\<not> free_at ?rs' r' i" if "before r' i (rfi_region x) (rfi_frame x)" for r' i
          using x(2) [OF that] by (simp add: mk(4))
        ultimately show ?thesis unfolding if_not_P [OF False] using Some by (simp add: first_free_at_def)
      qed
      then have "pmm_inv ?m2" using mk(5) [OF wf] unfolding pmm_inv_def regs by simp
      moreover have "unat (fr_start ?rng) = frame_no ?rs r c * 4096" "unat (fr_end ?rng) = frame_no ?rs r ?e * 4096"
        using fc(2) fe(2) by (simp_all add: frame_no_def)
      ultimately show ?thesis using out regs f(2,3) by (intro exI [of _ "Some ?rng"] exI [of _ ?m2]) auto
    qed
  qed
qed

end
