(* ===== verification/Frame_Ownership.thy ===== *)
theory Frame_Ownership
  imports Frame_Allocator
begin

text \<open>
  What the frame allocator promises to its clients. The frames of a manager are numbered by their
  address; the free and the allocated ones are two disjoint sets, and an operation moves frames between
  them. A client that releases only what it holds never shares a frame with another client.
\<close>

section \<open>Sets of frames\<close>

definition frames_in :: "frame_state \<Rightarrow> pmm \<Rightarrow> nat set" where
  "frames_in st m = {frame_no (pmm_regions m) r i |r i. frame_in (pmm_regions m) r i \<and> mr_frames (pmm_regions m ! r) ! i = st}"

definition range_frames :: "page_size \<Rightarrow> frame_range \<Rightarrow> nat set" where
  "range_frames S rng = {unat (fr_start rng) div 4096..<unat (fr_end rng) div 4096 + small_frames_per_frame S}"

lemma frame_no_inj:
  assumes "regions_wf rs" "frame_in rs r i" "frame_in rs r' i'" "frame_no rs r i = frame_no rs r' i'"
  shows "r = r' \<and> i = i'"
  using assms unfolding regions_wf_def by (metis add_left_cancel frame_no_def)

lemma frames_in_iff:
  assumes "regions_wf (pmm_regions m)" "frame_in (pmm_regions m) r i"
  shows "frame_no (pmm_regions m) r i \<in> frames_in st m \<longleftrightarrow> mr_frames (pmm_regions m ! r) ! i = st"
  using assms frame_no_inj [OF assms(1,2)] by (auto simp: frames_in_def)

lemma frames_in_disjoint:
  assumes "pmm_inv m" "st \<noteq> st'"
  shows "frames_in st m \<inter> frames_in st' m = {}"
proof -
  have "x \<notin> frames_in st' m" if x_in: "x \<in> frames_in st m" for x
  proof -
    obtain r i where x: "x = frame_no (pmm_regions m) r i" "frame_in (pmm_regions m) r i" "mr_frames (pmm_regions m ! r) ! i = st"
      using x_in by (auto simp: frames_in_def)
    then show ?thesis using frames_in_iff [OF _ x(2), of st'] assms by (simp add: pmm_inv_def)
  qed
  then show ?thesis by blast
qed

lemma mark_allocated_nth:
  assumes "run_free rs r c n" "frame_in rs r' i"
  shows "mr_frames (rs[r := mark_allocated (rs ! r) c n] ! r') ! i =
     (if r' = r \<and> c \<le> i \<and> i < c + n then Allocated else mr_frames (rs ! r') ! i)"
  using assms by (auto simp: run_free_def frame_in_def mark_allocated_def nth_overwrite nth_list_update)

definition request_ok :: "page_size \<Rightarrow> nat \<Rightarrow> bool" where
  "request_ok S n \<longleftrightarrow> 0 < n \<and> n * small_frames_per_frame S \<le> 2 ^ 63"

lemma request_okD: "request_ok S n \<Longrightarrow> 0 < n" "request_ok S n \<Longrightarrow> n * small_frames_per_frame S \<le> usize_MAX"
  by (simp_all add: request_ok_def usize_MAX_def)

text \<open>How the two sets change when the states of the frames selected by \<open>ch\<close> become \<open>st\<close>.\<close>

lemma frames_in_changed:
  assumes fi: "\<And>r i. frame_in (pmm_regions m') r i = frame_in (pmm_regions m) r i"
    and fn: "\<And>r i. frame_no (pmm_regions m') r i = frame_no (pmm_regions m) r i"
    and nth: "\<And>r i. frame_in (pmm_regions m) r i \<Longrightarrow>
       mr_frames (pmm_regions m' ! r) ! i = (if frame_no (pmm_regions m) r i \<in> N then st else mr_frames (pmm_regions m ! r) ! i)"
    and sub: "\<And>x. x \<in> N \<Longrightarrow> \<exists>r i. frame_in (pmm_regions m) r i \<and> x = frame_no (pmm_regions m) r i"
  shows "frames_in st' m' = (if st' = st then frames_in st' m \<union> N else frames_in st' m - N)"
proof (rule set_eqI)
  fix x
  have "(frame_in (pmm_regions m') r i \<and> mr_frames (pmm_regions m' ! r) ! i = st') \<longleftrightarrow> (frame_in (pmm_regions m) r i \<and>
      (if frame_no (pmm_regions m) r i \<in> N then st = st' else mr_frames (pmm_regions m ! r) ! i = st'))" for r i
    using fi [of r i] nth [of r i] by auto
  then have "x \<in> frames_in st' m' \<longleftrightarrow> (\<exists>r i. x = frame_no (pmm_regions m) r i \<and> frame_in (pmm_regions m) r i \<and>
      (if x \<in> N then st = st' else mr_frames (pmm_regions m ! r) ! i = st'))"
    unfolding frames_in_def by (auto simp: fn)
  then show "x \<in> frames_in st' m' \<longleftrightarrow> x \<in> (if st' = st then frames_in st' m \<union> N else frames_in st' m - N)"
    using sub [of x] by (auto simp: frames_in_def)
qed

lemma allocate_frames_sets:
  assumes inv: "pmm_inv m" and ok: "request_ok S n" and al: "allocate_frames S m n = Some (Some rng, m')"
  shows "pmm_inv m' \<and> range_frames S rng \<subseteq> frames_in Free m \<and> card (range_frames S rng) = n * small_frames_per_frame S \<and>
     frames_in Free m' = frames_in Free m - range_frames S rng \<and>
     frames_in Allocated m' = frames_in Allocated m \<union> range_frames S rng"
proof -
  let ?rs = "pmm_regions m" and ?p = "small_frames_per_frame S"
  have wf: "regions_wf ?rs" using inv by (simp add: pmm_inv_def)
  note n = request_okD(1) [OF ok]
  obtain r c where rf: "run_free ?rs r c (n * ?p)" and st: "unat (fr_start rng) = frame_no ?rs r c * 4096"
    and en: "unat (fr_end rng) = frame_no ?rs r (c + (n - 1) * ?p) * 4096"
    and regs: "pmm_regions m' = ?rs[r := mark_allocated (?rs ! r) c (n * ?p)]" and inv': "pmm_inv m'"
    using allocate_frames_spec [OF inv request_okD [OF ok]] al by auto
  note mk = mark_allocated_frames [OF rf regs]
  have "(n - 1) * ?p + ?p = n * ?p" using n by (cases n) simp_all
  then have rng: "range_frames S rng = {frame_no ?rs r c..<frame_no ?rs r c + n * ?p}"
    unfolding range_frames_def st en by (simp add: frame_no_def add.assoc)
  then have el: "x \<in> range_frames S rng \<longleftrightarrow> (\<exists>i. c \<le> i \<and> i < c + n * ?p \<and> x = frame_no ?rs r i)" for x
    by (auto simp: frame_no_def intro!: exI [of _ "x - unat (mr_base_addr (?rs ! r)) div 4096"])
  have inr: "frame_in ?rs r i" if "c \<le> i" "i < c + n * ?p" for i using rf that by (simp add: run_free_def frame_in_def)
  have within: "frame_no ?rs r' i \<in> range_frames S rng \<longleftrightarrow> r' = r \<and> c \<le> i \<and> i < c + n * ?p" if "frame_in ?rs r' i" for r' i
    using el frame_no_inj [OF wf that inr] inr by blast
  have nth: "mr_frames (pmm_regions m' ! r') ! i = (if frame_no ?rs r' i \<in> range_frames S rng then Allocated else mr_frames (?rs ! r') ! i)"
    if "frame_in ?rs r' i" for r' i unfolding regs within [OF that] using mark_allocated_nth [OF rf that] .
  have fr: "mr_frames (?rs ! r) ! i = Free" if "c \<le> i" "i < c + n * ?p" for i
    using rf that unfolding run_free_def free_at_def by (metis add_less_cancel_left le_Suc_ex)
  have sub: "range_frames S rng \<subseteq> frames_in Free m"
    using el fr inr by (fastforce simp: frames_in_def)
  have "\<exists>r i. frame_in ?rs r i \<and> x = frame_no ?rs r i" if "x \<in> range_frames S rng" for x using that el inr by blast
  note ch = frames_in_changed [OF mk(2,3) nth this]
  show ?thesis using ch [of Free] ch [of Allocated] inv' sub rng by simp
qed

section \<open>Releasing\<close>

lemma frame_index_iff:
  assumes "region_wf r" "unat f mod 4096 = 0"
  shows "frame_index r f = Some i \<longleftrightarrow> i < length (mr_frames r) \<and> unat f div 4096 = unat (mr_base_addr r) div 4096 + i"
proof -
  let ?b = "unat (mr_base_addr r)"
  have b: "?b mod 4096 = 0" using assms(1) by (simp add: region_wf_def)
  show ?thesis
  proof (cases "f < mr_base_addr r")
    case True
    then have "unat f < ?b" by (simp add: word_less_nat_alt)
    then have "unat f div 4096 < ?b div 4096" using b assms(2) by (auto elim!: dvdE simp: mod_eq_0_iff_dvd)
    then show ?thesis using True by (simp add: frame_index_def)
  next
    case False
    then have le: "?b \<le> unat f" by (simp add: word_le_nat_alt not_less)
    then have "unat ((f - mr_base_addr r) div 4096) = (unat f - ?b) div 4096"
      using False by (simp add: unat_div unat_sub not_less)
    also have "\<dots> = unat f div 4096 - ?b div 4096" using b assms(2) le by (auto elim!: dvdE simp: mod_eq_0_iff_dvd)
    finally have "unat ((f - mr_base_addr r) div 4096) = unat f div 4096 - ?b div 4096" .
    moreover have "?b div 4096 \<le> unat f div 4096" using le by (rule div_le_mono)
    ultimately show ?thesis using False by (auto simp: frame_index_def Let_def)
  qed
qed

lemma find_frame_location_spec:
  assumes "\<forall>r\<in>set rs. region_wf r" "unat f mod 4096 = 0"
  shows "case find_frame_location k rs f of
     Some x \<Rightarrow> k \<le> rfi_region x \<and> frame_in rs (rfi_region x - k) (rfi_frame x) \<and> frame_no rs (rfi_region x - k) (rfi_frame x) = unat f div 4096
   | None \<Rightarrow> \<forall>r i. frame_in rs r i \<longrightarrow> frame_no rs r i \<noteq> unat f div 4096"
  using assms(1)
proof (induction rs arbitrary: k)
  case Nil
  then show ?case by (simp add: frame_in_def)
next
  case (Cons r rs)
  have wr: "region_wf r" using Cons.prems by simp
  have sh: "frame_in (r # rs) (Suc j) i = frame_in rs j i" "frame_no (r # rs) (Suc j) i = frame_no rs j i" for j i
    by (simp_all add: frame_in_def frame_no_def)
  show ?case
  proof (cases "frame_index r f")
    case None
    then have z: "\<not> (frame_in (r # rs) 0 i \<and> frame_no (r # rs) 0 i = unat f div 4096)" for i
      using frame_index_iff [OF wr assms(2), of i] by (auto simp: frame_in_def frame_no_def)
    show ?thesis
    proof (cases "find_frame_location (Suc k) rs f")
      case None
      have "frame_in (r # rs) j i \<longrightarrow> frame_no (r # rs) j i \<noteq> unat f div 4096" for j i
        using Cons.IH [of "Suc k"] Cons.prems None z sh by (cases j) auto
      then show ?thesis using None \<open>frame_index r f = None\<close> by simp
    next
      case (Some x)
      then have "Suc k \<le> rfi_region x" "frame_in rs (rfi_region x - Suc k) (rfi_frame x)"
          "frame_no rs (rfi_region x - Suc k) (rfi_frame x) = unat f div 4096"
        using Cons.IH [of "Suc k"] Cons.prems by simp_all
      moreover from this have "rfi_region x - k = Suc (rfi_region x - Suc k)" by simp
      ultimately show ?thesis using Some \<open>frame_index r f = None\<close> sh by simp
    qed
  next
    case (Some i)
    then show ?thesis using frame_index_iff [OF wr assms(2), of i] by (simp add: frame_in_def frame_no_def)
  qed
qed

lemma deallocate_4kib_sets:
  assumes inv: "pmm_inv m" and al: "unat f mod 4096 = 0"
  shows "if unat f div 4096 \<in> frames_in Allocated m
     then \<exists>m'. deallocate_4kib m f = (Some f, m') \<and> pmm_inv m' \<and>
       frames_in Allocated m' = frames_in Allocated m - {unat f div 4096} \<and>
       frames_in Free m' = insert (unat f div 4096) (frames_in Free m)
     else deallocate_4kib m f = (None, m)"
proof -
  let ?rs = "pmm_regions m" and ?N = "unat f div 4096"
  have wf: "regions_wf ?rs" and ff: "first_free_at ?rs (pmm_first_free m)" using inv by (simp_all add: pmm_inv_def)
  note loc = find_frame_location_spec [OF _ al, of ?rs 0]
  show ?thesis
  proof (cases "find_frame_location 0 ?rs f")
    case None
    then have "?N \<notin> frames_in Allocated m" using loc wf by (force simp: frames_in_def regions_wf_def)
    then show ?thesis using None by (simp add: deallocate_4kib_def)
  next
    case (Some x)
    let ?r = "rfi_region x" and ?i = "rfi_frame x"
    have x: "frame_in ?rs ?r ?i" "frame_no ?rs ?r ?i = ?N" using loc Some wf by (auto simp: regions_wf_def)
    have st: "?N \<in> frames_in st m \<longleftrightarrow> mr_frames (?rs ! ?r) ! ?i = st" for st using frames_in_iff [OF wf x(1), of st] x(2) by simp
    show ?thesis
    proof (cases "mr_frames (?rs ! ?r) ! ?i = Allocated")
      case False
      then show ?thesis using Some st by (simp add: deallocate_4kib_def Let_def)
    next
      case True
      let ?rs' = "?rs[?r := (?rs ! ?r)\<lparr>mr_frames := (mr_frames (?rs ! ?r))[?i := Free]\<rparr>]"
      have r: "?r < length ?rs" "?i < length (mr_frames (?rs ! ?r))" using x(1) by (simp_all add: frame_in_def)
      have fi: "frame_in ?rs' r i = frame_in ?rs r i" for r i using r by (cases "r = ?r") (simp_all add: frame_in_def)
      have fn: "frame_no ?rs' r i = frame_no ?rs r i" for r i using r by (cases "r = ?r") (simp_all add: frame_no_def)
      have nth: "mr_frames (?rs' ! r) ! i = (if r = ?r \<and> i = ?i then Free else mr_frames (?rs ! r) ! i)" if "frame_in ?rs r i" for r i
        using r that by (auto simp: frame_in_def nth_list_update)
      have fa: "free_at ?rs' r i \<longleftrightarrow> r = ?r \<and> i = ?i \<or> free_at ?rs r i" for r i
        using nth [of r i] x(1) by (auto simp: free_at_def fi split: if_splits)
      have wf': "regions_wf ?rs'"
      proof -
        have "region_wf ((?rs ! ?r)\<lparr>mr_frames := (mr_frames (?rs ! ?r))[?i := Free]\<rparr>)"
          using wf r by (simp add: regions_wf_def region_wf_def)
        then have "\<forall>y\<in>set ?rs'. region_wf y" using wf set_update_subset_insert [of ?rs ?r] by (fastforce simp: regions_wf_def)
        then show ?thesis using wf fi fn by (simp add: regions_wf_def)
      qed
      let ?b = "case pmm_first_free m of Some ff \<Rightarrow> ?r < rfi_region ff \<or> (?r = rfi_region ff \<and> ?i < rfi_frame ff) | None \<Rightarrow> True"
      let ?m1 = "m\<lparr>pmm_regions := ?rs'\<rparr>"
      let ?m' = "if ?b then ?m1\<lparr>pmm_first_free := Some x\<rparr> else ?m1"
      have out: "deallocate_4kib m f = (Some f, ?m')" using Some True by (simp add: deallocate_4kib_def Let_def)
      have "first_free_at ?rs' (pmm_first_free ?m')"
        using ff fa by (cases "pmm_first_free m") (auto simp: first_free_at_def before_def)
      moreover have "pmm_regions ?m' = ?rs'" by simp
      moreover from calculation have "pmm_inv ?m'" using wf' by (simp only: pmm_inv_def)
      ultimately obtain m' where m': "deallocate_4kib m f = (Some f, m')" "pmm_inv m'" and regs: "pmm_regions m' = ?rs'"
        using out by blast
      have "mr_frames (pmm_regions m' ! r) ! i = (if frame_no ?rs r i \<in> {?N} then Free else mr_frames (?rs ! r) ! i)"
        if "frame_in ?rs r i" for r i
      proof -
        have "r = ?r \<and> i = ?i \<longleftrightarrow> frame_no ?rs r i = ?N" 
          using frame_no_inj [OF wf that x(1)] unfolding x(2) [symmetric] by blast
        then show ?thesis unfolding regs nth [OF that] by simp
      qed
      moreover have "\<exists>r i. frame_in ?rs r i \<and> y = frame_no ?rs r i" if "y \<in> {?N}" for y
        using that x(1) unfolding x(2) [symmetric] by blast
      ultimately have "frames_in st' m' = (if st' = Free then frames_in st' m \<union> {?N} else frames_in st' m - {?N})" for st'
        using frames_in_changed [of m' m "{?N}" Free st'] unfolding regs fi fn by blast
      then have "frames_in Allocated m' = frames_in Allocated m - {?N}" "frames_in Free m' = insert ?N (frames_in Free m)" by auto
      then show ?thesis using st True m' by simp
    qed
  qed
qed

section \<open>The contract\<close>

text \<open>
  \<open>acquire\<close> may refuse; it never hands out a frame that is in use. \<open>release\<close> gives a frame back.
\<close>

locale frame_pool =
  fixes inv :: "'s \<Rightarrow> bool"
    and avail :: "'s \<Rightarrow> nat set"
    and in_use :: "'s \<Rightarrow> nat set"
    and acquire :: "'s \<Rightarrow> 'r \<Rightarrow> (nat set option \<times> 's) option"
    and valid :: "'r \<Rightarrow> bool"
    and release :: "'s \<Rightarrow> nat \<Rightarrow> 's"
  assumes apart: "inv s \<Longrightarrow> avail s \<inter> in_use s = {}"
    and acquire_returns: "inv s \<Longrightarrow> valid r \<Longrightarrow> \<exists>x s'. acquire s r = Some (x, s') \<and> inv s' \<and>
      (case x of None \<Rightarrow> s' = s | Some A \<Rightarrow> A \<subseteq> avail s \<and> in_use s' = in_use s \<union> A)"
    and release_frame: "inv s \<Longrightarrow> N \<in> in_use s \<Longrightarrow> inv (release s N) \<and> in_use (release s N) = in_use s - {N}"
begin

text \<open>
  What is in use is what was reserved at the start together with the holdings of the clients, and these
  parts are disjoint: no frame has two holders and none is lost.
\<close>

definition exclusive :: "nat set \<Rightarrow> 's \<Rightarrow> ('c \<Rightarrow> nat set) \<Rightarrow> bool" where
  "exclusive R s held \<longleftrightarrow> inv s \<and> in_use s = R \<union> (\<Union>c. held c) \<and> (\<forall>c. held c \<inter> R = {}) \<and>
     (\<forall>c d. c \<noteq> d \<longrightarrow> held c \<inter> held d = {})"

lemma exclusive_start: "inv s \<Longrightarrow> exclusive (in_use s) s (\<lambda>_. {})"
  by (simp add: exclusive_def)

lemma exclusive_acquire:
  assumes ex: "exclusive R s held" and v: "valid r"
  shows "\<exists>x s'. acquire s r = Some (x, s') \<and>
     exclusive R s' (case x of None \<Rightarrow> held | Some A \<Rightarrow> held(c := held c \<union> A))"
proof -
  have inv: "inv s" and use: "in_use s = R \<union> (\<Union>c. held c)" and R: "\<And>c. held c \<inter> R = {}"
    and dis: "\<And>c d. c \<noteq> d \<Longrightarrow> held c \<inter> held d = {}" using ex by (auto simp: exclusive_def)
  obtain x s' where x: "acquire s r = Some (x, s')" "inv s'"
      "case x of None \<Rightarrow> s' = s | Some A \<Rightarrow> A \<subseteq> avail s \<and> in_use s' = in_use s \<union> A"
    using acquire_returns [OF inv v] by blast
  have "exclusive R s' (case x of None \<Rightarrow> held | Some A \<Rightarrow> held(c := held c \<union> A))"
  proof (cases x)
    case (Some A)
    then have A: "A \<subseteq> avail s" "in_use s' = in_use s \<union> A" using x(3) by auto
    then have newR: "A \<inter> R = {}" and new: "A \<inter> held d = {}" for d using use apart [OF inv] by blast+
    let ?held = "held(c := held c \<union> A)"
    have "?held d \<inter> R = {}" "e \<noteq> d \<Longrightarrow> ?held e \<inter> ?held d = {}" for d e
      using newR new [of d] new [of e] R [of d] R [of c] dis [of e d] by auto
    moreover have "in_use s' = R \<union> (\<Union>c. ?held c)" using A use by (auto split: if_splits)
    ultimately show ?thesis using Some x(2) by (simp add: exclusive_def)
  qed (use x ex in simp)
  then show ?thesis using x(1) by blast
qed

lemma exclusive_release:
  assumes ex: "exclusive R s held" and N: "N \<in> held c"
  shows "exclusive R (release s N) (held(c := held c - {N}))"
proof -
  have inv: "inv s" and use: "in_use s = R \<union> (\<Union>c. held c)" and R: "\<And>c. held c \<inter> R = {}"
    and dis: "\<And>c d. c \<noteq> d \<Longrightarrow> held c \<inter> held d = {}" using ex by (auto simp: exclusive_def)
  have "N \<in> in_use s" using use N by blast
  then have r: "inv (release s N)" "in_use (release s N) = in_use s - {N}" using release_frame inv by auto
  let ?held = "held(c := held c - {N})"
  have other: "N \<notin> held d" if "d \<noteq> c" for d using dis [OF that] N by blast
  have "in_use (release s N) = R \<union> (\<Union>c. ?held c)"
    unfolding r(2) use using other R [of c] N by auto (metis fun_upd_apply)+
  moreover have "?held d \<inter> R = {}" "e \<noteq> d \<Longrightarrow> ?held e \<inter> ?held d = {}" for d e
    using R [of d] dis [of e d] by auto
  ultimately show ?thesis using r(1) by (simp add: exclusive_def)
qed

end

text \<open>Releasing a 4 KiB frame by its number, and the requests of the manager.\<close>

definition release_frame_no :: "pmm \<Rightarrow> nat \<Rightarrow> pmm" where
  "release_frame_no m N = snd (deallocate_frame Size4KiB m (of_nat (N * 4096)))"

definition acquire_frames :: "pmm \<Rightarrow> page_size \<times> nat \<Rightarrow> (nat set option \<times> pmm) option" where
  "acquire_frames m req = map_option (\<lambda>(x, m'). (map_option (range_frames (fst req)) x, m')) (allocate_frames (fst req) m (snd req))"

interpretation pool: frame_pool pmm_inv "frames_in Free" "frames_in Allocated" acquire_frames "\<lambda>req. request_ok (fst req) (snd req)" release_frame_no
proof
  fix m :: pmm and req :: "page_size \<times> nat" and N
  assume inv: "pmm_inv m"
  show "frames_in Free m \<inter> frames_in Allocated m = {}" using frames_in_disjoint [OF inv] by simp
  show "\<exists>x m'. acquire_frames m req = Some (x, m') \<and> pmm_inv m' \<and>
      (case x of None \<Rightarrow> m' = m | Some A \<Rightarrow> A \<subseteq> frames_in Free m \<and> frames_in Allocated m' = frames_in Allocated m \<union> A)" if ok: "request_ok (fst req) (snd req)"
  proof -
    obtain res m' where al: "allocate_frames (fst req) m (snd req) = Some (res, m')" "pmm_inv m'" "res = None \<longrightarrow> m' = m"
      using allocate_frames_spec [OF inv request_okD [OF ok]] by (auto split: option.splits)
    show ?thesis
    proof (cases res)
      case (Some rng)
      then show ?thesis using allocate_frames_sets [OF inv ok, of rng m'] al by (simp add: acquire_frames_def)
    qed (use al in \<open>simp add: acquire_frames_def\<close>)
  qed
  assume N: "N \<in> frames_in Allocated m"
  have "N * 4096 < 2 ^ 64" using N inv frame_in_less by (auto simp: frames_in_def pmm_inv_def regions_wf_def frame_in_def)
  then have "unat (of_nat (N * 4096) :: u64) = N * 4096" by (simp only: unat_of_nat mod_less) simp
  then show "pmm_inv (release_frame_no m N) \<and> frames_in Allocated (release_frame_no m N) = frames_in Allocated m - {N}"
    using deallocate_4kib_sets [OF inv, of "of_nat (N * 4096)"] N by (auto simp: release_frame_no_def)
qed

section \<open>Clients\<close>

text \<open>
  Clients take frames of any size and give back frames they hold; a request that is refused changes
  nothing, and giving back a frame that is not held is not attempted.
\<close>

datatype frame_op = TakeFrames nat page_size nat | GiveFrame nat nat

fun run_frame_ops :: "pmm \<Rightarrow> (nat \<Rightarrow> nat set) \<Rightarrow> frame_op list \<Rightarrow> (pmm \<times> (nat \<Rightarrow> nat set)) option" where
  "run_frame_ops m held [] = Some (m, held)"
| "run_frame_ops m held (TakeFrames c S n # xs) =
     (case allocate_frames S m n of
        None \<Rightarrow> None
      | Some (None, m') \<Rightarrow> run_frame_ops m' held xs
      | Some (Some rng, m') \<Rightarrow> run_frame_ops m' (held(c := held c \<union> range_frames S rng)) xs)"
| "run_frame_ops m held (GiveFrame c N # xs) =
     (if N \<in> held c then run_frame_ops (release_frame_no m N) (held(c := held c - {N})) xs
      else run_frame_ops m held xs)"

lemma run_frame_ops_exclusive:
  assumes "pool.exclusive R m held" "\<forall>c S n. TakeFrames c S n \<in> set xs \<longrightarrow> request_ok S n"
  shows "\<exists>m' held'. run_frame_ops m held xs = Some (m', held') \<and> pool.exclusive R m' held'"
  using assms
proof (induction xs arbitrary: m held)
  case (Cons x xs)
  show ?case
  proof (cases x)
    case (TakeFrames c S n)
    then have "request_ok (fst (S, n)) (snd (S, n))" using Cons.prems(2) by auto
    from pool.exclusive_acquire [OF Cons.prems(1) this, of c] obtain y m' where
      "acquire_frames m (S, n) = Some (y, m')" "pool.exclusive R m' (case y of None \<Rightarrow> held | Some A \<Rightarrow> held(c := held c \<union> A))"
      by blast
    then show ?thesis using Cons.IH Cons.prems(2) TakeFrames
      by (auto simp: acquire_frames_def split: option.splits)
  next
    case (GiveFrame c N)
    then show ?thesis using Cons.IH Cons.prems pool.exclusive_release [OF Cons.prems(1), of N c] by auto
  qed
qed auto

lemma pmm_new_inv: "regions_wf rs \<Longrightarrow> pmm_inv (pmm_new rs)"
  by (simp add: pmm_inv_def pmm_new_def find_first_free_spec)

text \<open>Two regions, the lower one reserved, and two clients.\<close>

definition sample_regions :: "memory_region list" where
  "sample_regions = [memory_region_new 4096 2 Allocated, memory_region_new 65536 3 Free]"

lemma sample_regions_wf: "regions_wf sample_regions"
proof -
  have at: "r = 0 \<and> frame_no sample_regions r i < 16 \<or> r = 1 \<and> 16 \<le> frame_no sample_regions r i" if "frame_in sample_regions r i" for r i
    using that by (auto simp: frame_in_def frame_no_def sample_regions_def memory_region_new_def less_Suc_eq)
  have "r = r'" if "frame_in sample_regions r i" "frame_in sample_regions r' i'"
      "frame_no sample_regions r i = frame_no sample_regions r' i'" for r i r' i'
    using at [OF that(1)] at [OF that(2)] that(3) by auto
  moreover have "\<forall>r\<in>set sample_regions. region_wf r" by (simp add: region_wf_def sample_regions_def memory_region_new_def)
  ultimately show ?thesis unfolding regions_wf_def by blast
qed

definition sample_frame_ops :: "frame_op list" where
  "sample_frame_ops = [TakeFrames 1 Size4KiB 2, TakeFrames 2 Size4KiB 1, GiveFrame 1 16, TakeFrames 2 Size2MiB 1]"

end
