(* ===== verification/Bpf_Handles.thy ===== *)
theory Bpf_Handles
  imports Interpreter Rust_Std
begin

text \<open>
  Handles of BPF objects (\<open>kernel/src/bpf/handles.rs\<close>): a handle is a slot index with the generation of
  the slot, and a slot that is used again gets the next generation. The lemmas show that a handle is
  given out once: a handle whose object is gone never names another object.
\<close>

unbundle bit_operations_syntax

section \<open>Encoding\<close>

definition SLOT_BITS :: nat where "SLOT_BITS = 10"
definition SLOT_MASK :: u32 where "SLOT_MASK = push_bit SLOT_BITS 1 - 1"
definition MAX_GENERATION :: u32 where "MAX_GENERATION = drop_bit SLOT_BITS 0x7FFFFFFF"

definition handle_slot :: "u32 \<Rightarrow> nat" where
  "handle_slot handle = unat (handle AND SLOT_MASK)"

definition handle_generation :: "u32 \<Rightarrow> u32" where
  "handle_generation handle = drop_bit SLOT_BITS handle"

definition can_reuse :: "u32 \<Rightarrow> bool" where
  "can_reuse generation \<longleftrightarrow> generation < MAX_GENERATION"

definition encode_handle :: "nat \<Rightarrow> u32 \<Rightarrow> u32" where
  "encode_handle slot generation = push_bit SLOT_BITS generation OR of_nat slot"

definition decode_handle :: "u32 list \<Rightarrow> u32 \<Rightarrow> nat option" where
  "decode_handle generations handle =
     (let slot = handle_slot handle
      in if slot < length generations \<and> generations ! slot = handle_generation handle then Some slot else None)"

section \<open>The table\<close>

text \<open>
  The slots and their generations are two vectors of the same length. \<open>find_reusable\<close> is the search of
  \<open>insert_with_reservations\<close>; an index out of range panics, which is \<open>None\<close>.
\<close>

type_synonym 'a slot_table = "'a option list \<times> u32 list"

fun find_reusable :: "nat \<Rightarrow> 'a option list \<Rightarrow> u32 list \<Rightarrow> nat option option" where
  "find_reusable i [] generations = Some None"
| "find_reusable i (Some _ # es) generations = find_reusable (Suc i) es generations"
| "find_reusable i (None # es) generations =
     (if i < length generations
      then if can_reuse (generations ! i) then Some (Some i) else find_reusable (Suc i) es generations
      else None)"

definition insert_with_reservations ::
  "bool \<Rightarrow> bool \<Rightarrow> 'a slot_table \<Rightarrow> nat \<Rightarrow> 'a \<Rightarrow> ((bpf_error + u32) \<times> 'a slot_table) option" where
  "insert_with_reservations reserve_slot reserve_generation t max_slots x =
     (let (slots, generations) = t
      in case find_reusable 0 slots generations of
           None \<Rightarrow> None
         | Some (Some slot) \<Rightarrow>
             let generation = generations ! slot + 1
             in Some (Inr (encode_handle slot generation), slots[slot := Some x], generations[slot := generation])
         | Some None \<Rightarrow>
             if length slots \<ge> max_slots \<or> length slots > unat SLOT_MASK then Some (Inl BpfResourceLimit, t)
             else if \<not> reserve_slot \<or> \<not> reserve_generation then Some (Inl BpfOutOfMemory, t)
             else Some (Inr (encode_handle (length slots) 0), slots @ [Some x], generations @ [0]))"

text \<open>\<open>program_slot\<close>, \<open>program_entry\<close>, \<open>map_slot\<close> and \<open>map_entry\<close> of the manager have this form.\<close>

definition entry_slot :: "'a slot_table \<Rightarrow> u32 \<Rightarrow> nat option" where
  "entry_slot t handle =
     (case decode_handle (snd t) handle of
        None \<Rightarrow> None
      | Some slot \<Rightarrow> (if slot < length (fst t) \<and> fst t ! slot \<noteq> None then Some slot else None))"

definition entry_at :: "'a slot_table \<Rightarrow> u32 \<Rightarrow> 'a option" where
  "entry_at t handle = (case entry_slot t handle of None \<Rightarrow> None | Some slot \<Rightarrow> fst t ! slot)"

text \<open>Clearing a slot and changing its entry.\<close>

definition clear_entry :: "'a slot_table \<Rightarrow> nat \<Rightarrow> 'a slot_table" where
  "clear_entry t slot = ((fst t)[slot := None], snd t)"

section \<open>Slots and generations\<close>

lemma handle_consts [simp]: "SLOT_MASK = 1023" "MAX_GENERATION = 0x1FFFFF" "SLOT_BITS = 10"
  by (simp_all add: SLOT_MASK_def MAX_GENERATION_def SLOT_BITS_def)

lemma handle_slot_mod: "handle_slot h = unat h mod 1024"
proof -
  have "h AND 1023 = take_bit 10 h" by (simp add: take_bit_eq_mask mask_eq_exp_minus_1)
  then show ?thesis by (simp add: handle_slot_def take_bit_eq_mod unat_mod)
qed

lemma handle_slot_less [simp]: "handle_slot h < 1024"
  by (simp add: handle_slot_mod)

lemma handle_generation_div: "unat (handle_generation h) = unat h div 1024"
  by (simp add: handle_generation_def drop_bit_eq_div unat_div)

lemma unat_encode:
  assumes "s < 1024" "g \<le> 0x1FFFFF"
  shows "unat (encode_handle s g) = unat g * 1024 + s"
proof -
  have g: "unat g \<le> 2097151" using assms(2) by (simp add: word_le_nat_alt)
  have "take_bit 10 (of_nat s :: u32) = of_nat s"
    using assms(1) by (simp add: take_bit_of_nat take_bit_nat_eq_self)
  then have "bit (of_nat s :: u32) n \<Longrightarrow> n < 10" for n by (metis bit_take_bit_iff)
  then have "push_bit 10 g AND (of_nat s :: u32) = 0"
    by (intro bit_word_eqI) (fastforce simp: bit_and_iff bit_push_bit_iff)
  then have "encode_handle s g = push_bit 10 g + of_nat s"
    by (simp add: encode_handle_def disjunctive_add_eq_or)
  also have "\<dots> = of_nat (unat g * 1024 + s)" by (simp add: push_bit_eq_mult)
  finally have "unat (encode_handle s g) = (unat g * 1024 + s) mod 2 ^ 32" by (simp only: unat_of_nat) simp
  then show ?thesis using g assms(1) by simp
qed

lemma encode_handle_parts:
  assumes "s < 1024" "g \<le> 0x1FFFFF"
  shows "handle_slot (encode_handle s g) = s" "handle_generation (encode_handle s g) = g"
    "encode_handle s g < 0x80000000"
proof -
  note u = unat_encode [OF assms]
  show "handle_slot (encode_handle s g) = s" using assms(1) by (simp add: handle_slot_mod u)
  show "handle_generation (encode_handle s g) = g"
    using assms(1) by (simp add: word_unat_eq_iff handle_generation_div u)
  have "unat g \<le> 2097151" using assms(2) by (simp add: word_le_nat_alt)
  then show "encode_handle s g < 0x80000000" using assms(1) by (simp add: word_less_nat_alt u)
qed

lemma handle_eqI:
  assumes "handle_slot h = handle_slot h'" "handle_generation h = handle_generation h'"
  shows "h = h'"
proof -
  have "unat h div 1024 = unat h' div 1024" using assms(2) handle_generation_div by metis
  then have "unat h = unat h'" using assms(1) unfolding handle_slot_mod by (metis div_mult_mod_eq)
  then show ?thesis by (simp add: word_unat_eq_iff)
qed

section \<open>What a table keeps\<close>

definition slot_table_ok :: "'a slot_table \<Rightarrow> bool" where
  "slot_table_ok t \<longleftrightarrow> length (fst t) = length (snd t) \<and> length (fst t) \<le> 1024 \<and> (\<forall>g\<in>set (snd t). g \<le> 0x1FFFFF)"

text \<open>The handles that have been given out so far.\<close>

definition issued :: "'a slot_table \<Rightarrow> u32 set" where
  "issued t = {h. handle_slot h < length (snd t) \<and> handle_generation h \<le> snd t ! handle_slot h}"

lemma find_reusable_spec:
  assumes "length slots + i = length gens"
  shows "\<exists>r. find_reusable i slots gens = Some r \<and>
     (case r of None \<Rightarrow> \<forall>j<length slots. slots ! j = None \<longrightarrow> \<not> can_reuse (gens ! (i + j))
      | Some k \<Rightarrow> i \<le> k \<and> k - i < length slots \<and> slots ! (k - i) = None \<and> can_reuse (gens ! k))"
  using assms
proof (induction i slots gens rule: find_reusable.induct)
  case (2 i x es gens)
  then obtain r where r: "find_reusable (Suc i) es gens = Some r"
     "case r of None \<Rightarrow> \<forall>j<length es. es ! j = None \<longrightarrow> \<not> can_reuse (gens ! (Suc i + j))
      | Some k \<Rightarrow> Suc i \<le> k \<and> k - Suc i < length es \<and> es ! (k - Suc i) = None \<and> can_reuse (gens ! k)" by auto
  show ?case
  proof (cases r)
    case None
    then have "(Some x # es) ! j = None \<longrightarrow> \<not> can_reuse (gens ! (i + j))" if "j < length (Some x # es)" for j
      using r(2) that by (cases j) auto
    then show ?thesis using r(1) None by auto
  next
    case (Some k)
    then have "k - i = Suc (k - Suc i)" using r(2) by auto
    then show ?thesis using r Some by auto
  qed
next
  case (3 i es gens)
  show ?case
  proof (cases "can_reuse (gens ! i)")
    case True
    then show ?thesis using 3 by auto
  next
    case False
    then obtain r where r: "find_reusable (Suc i) es gens = Some r"
       "case r of None \<Rightarrow> \<forall>j<length es. es ! j = None \<longrightarrow> \<not> can_reuse (gens ! (Suc i + j))
        | Some k \<Rightarrow> Suc i \<le> k \<and> k - Suc i < length es \<and> es ! (k - Suc i) = None \<and> can_reuse (gens ! k)" using 3 by auto
    show ?thesis
    proof (cases r)
      case None
      then have "(None # es) ! j = None \<longrightarrow> \<not> can_reuse (gens ! (i + j))" if "j < length (None # es)" for j
        using r(2) that False by (cases j) auto
      then show ?thesis using r(1) None False 3 by auto
    next
      case (Some k)
      then have "k - i = Suc (k - Suc i)" using r(2) by auto
      then show ?thesis using r Some False 3 by auto
    qed
  qed
qed simp

lemma entry_at_conv:
  assumes "slot_table_ok t"
  shows "entry_at t h = (if handle_slot h < length (fst t) \<and> snd t ! handle_slot h = handle_generation h
     then fst t ! handle_slot h else None)"
  using assms by (auto simp: entry_at_def entry_slot_def decode_handle_def slot_table_ok_def Let_def)

lemma entry_slot_Some:
  assumes "slot_table_ok t"
  shows "entry_slot t h = Some s \<longleftrightarrow> s = handle_slot h \<and> entry_at t h \<noteq> None"
  using assms by (auto simp: entry_at_def entry_slot_def decode_handle_def slot_table_ok_def Let_def split: if_splits)

lemma entry_at_issued: "slot_table_ok t \<Longrightarrow> entry_at t h \<noteq> None \<Longrightarrow> h \<in> issued t"
  by (auto simp: entry_at_conv issued_def slot_table_ok_def split: if_splits)

lemma entry_at_encode:
  assumes "slot_table_ok t" "s < length (fst t)"
  shows "entry_at t (encode_handle s (snd t ! s)) = fst t ! s"
proof -
  have "s < 1024" "snd t ! s \<le> 0x1FFFFF" using assms by (auto simp: slot_table_ok_def)
  then show ?thesis using encode_handle_parts [of s "snd t ! s"] assms by (simp add: entry_at_conv)
qed

lemma encode_of_live:
  assumes "slot_table_ok t" "entry_at t h \<noteq> None"
  shows "h = encode_handle (handle_slot h) (snd t ! handle_slot h)"
proof (rule handle_eqI)
  have h: "handle_slot h < length (fst t)" "snd t ! handle_slot h = handle_generation h"
    using assms by (auto simp: entry_at_conv split: if_splits)
  then have "snd t ! handle_slot h \<le> 0x1FFFFF" using assms(1) nth_mem [of "handle_slot h" "snd t"] by (simp add: slot_table_ok_def)
  note e = encode_handle_parts [OF handle_slot_less this]
  show "handle_slot h = handle_slot (encode_handle (handle_slot h) (snd t ! handle_slot h))" using e(1) by simp
  show "handle_generation h = handle_generation (encode_handle (handle_slot h) (snd t ! handle_slot h))" using e(2) h(2) by simp
qed

lemma insert_handle:
  assumes ok: "slot_table_ok t"
  shows "\<exists>r t'. insert_with_reservations rs rg t max_slots x = Some (r, t') \<and> slot_table_ok t' \<and>
     (case r of Inl _ \<Rightarrow> t' = t
      | Inr h \<Rightarrow> h \<notin> issued t \<and> issued t' = insert h (issued t) \<and> entry_at t' = (entry_at t)(h \<mapsto> x) \<and> h < 0x80000000 \<and>
          length (fst t) \<le> length (fst t') \<and> fst t' ! handle_slot h = Some x \<and> handle_slot h < length (fst t') \<and>
          (\<forall>s<length (fst t). s \<noteq> handle_slot h \<longrightarrow> fst t' ! s = fst t ! s \<and> snd t' ! s = snd t ! s) \<and>
          (handle_slot h < length (fst t) \<longrightarrow> fst t ! handle_slot h = None) \<and> length (fst t') \<le> max (length (fst t)) max_slots \<and>
          length (fst t') \<le> Suc (length (fst t)) \<and> (length (fst t) < length (fst t') \<longrightarrow> handle_slot h = length (fst t)))"
proof -
  obtain slots gens where t: "t = (slots, gens)" by (cases t)
  have len: "length slots = length gens" "length slots \<le> 1024" and gb: "\<And>g. g \<in> set gens \<Longrightarrow> g \<le> 0x1FFFFF"
    using ok by (auto simp: t slot_table_ok_def)
  obtain r where r: "find_reusable 0 slots gens = Some r"
     "case r of None \<Rightarrow> \<forall>j<length slots. slots ! j = None \<longrightarrow> \<not> can_reuse (gens ! j)
      | Some k \<Rightarrow> 0 \<le> k \<and> k < length slots \<and> slots ! k = None \<and> can_reuse (gens ! k)"
    using find_reusable_spec [of slots 0 gens] len(1) unfolding add_0 diff_zero add_0_right by auto
  show ?thesis
  proof (cases r)
    case (Some k)
    let ?g = "gens ! k + 1" and ?h = "encode_handle k (gens ! k + 1)"
    have k: "k < length slots" "slots ! k = None" "gens ! k < 0x1FFFFF" "k < 1024" using r(2) Some len by (auto simp: can_reuse_def)
    have g: "gens ! k < ?g" "?g \<le> 0x1FFFFF" using k(3) by (auto simp: word_less_nat_alt word_le_nat_alt unat_word_ariths)
    have gs: "a \<le> gens ! k + 1 \<longleftrightarrow> a \<le> gens ! k \<or> a = ?g" for a
      using k(3) by (auto simp: word_less_nat_alt word_le_nat_alt unat_word_ariths word_unat_eq_iff)
    note e = encode_handle_parts [OF k(4) g(2)]
    have out: "insert_with_reservations rs rg t max_slots x = Some (Inr ?h, slots[k := Some x], gens[k := ?g])"
      using r(1) Some by (simp add: insert_with_reservations_def t Let_def)
    have ok': "slot_table_ok (slots[k := Some x], gens[k := ?g])"
      using len g(2) gb set_update_subset_insert [of gens k ?g] by (auto simp: slot_table_ok_def)
    have "\<not> ?g \<le> gens ! k" using g(1) by (metis leD)
    then have new: "?h \<notin> issued t" using e by (simp add: issued_def t)
    have iss: "issued (slots[k := Some x], gens[k := ?g]) = insert ?h (issued t)"
    proof (rule set_eqI)
      fix h
      have "h = ?h \<longleftrightarrow> handle_slot h = k \<and> handle_generation h = ?g" using e handle_eqI by metis
      then show "h \<in> issued (slots[k := Some x], gens[k := ?g]) \<longleftrightarrow> h \<in> insert ?h (issued t)"
        using k(1) len gs by (auto simp: issued_def t nth_list_update)
    qed
    have at: "entry_at (slots[k := Some x], gens[k := ?g]) = (entry_at t)(?h \<mapsto> x)"
    proof (rule ext)
      fix h
      have "h = ?h \<longleftrightarrow> handle_slot h = k \<and> handle_generation h = ?g" using e handle_eqI by metis
      then show "entry_at (slots[k := Some x], gens[k := ?g]) h = ((entry_at t)(?h \<mapsto> x)) h"
        unfolding fun_upd_apply entry_at_conv [OF ok'] entry_at_conv [OF ok] using k(1,2) len by (auto simp: t nth_list_update)
    qed
    show ?thesis using out ok' new iss at e k by (auto simp: t)
  next
    case None
    show ?thesis
    proof (cases "length slots \<ge> max_slots \<or> length slots > unat SLOT_MASK \<or> \<not> rs \<or> \<not> rg")
      case True
      then have "\<exists>e. insert_with_reservations rs rg t max_slots x = Some (Inl e, t)"
        using r(1) None by (auto simp: insert_with_reservations_def t Let_def)
      then show ?thesis using ok by fastforce
    next
      case False
      let ?k = "length slots" and ?h = "encode_handle (length slots) 0"
      have k: "?k < 1024" using False by simp
      note e = encode_handle_parts [OF k, of 0, simplified]
      have out: "insert_with_reservations rs rg t max_slots x = Some (Inr ?h, slots @ [Some x], gens @ [0])"
        using r(1) None False by (simp add: insert_with_reservations_def t Let_def)
      have ok': "slot_table_ok (slots @ [Some x], gens @ [0])" using len k gb by (auto simp: slot_table_ok_def)
      have hs: "h = ?h \<longleftrightarrow> handle_slot h = ?k \<and> handle_generation h = 0" for h using e handle_eqI by metis
      have new: "?h \<notin> issued t" using e len by (simp add: issued_def t)
      have iss: "issued (slots @ [Some x], gens @ [0]) = insert ?h (issued t)"
      proof (rule set_eqI)
        fix h
        show "h \<in> issued (slots @ [Some x], gens @ [0]) \<longleftrightarrow> h \<in> insert ?h (issued t)"
          unfolding insert_iff hs [of h] using len by (auto simp: issued_def t nth_append less_Suc_eq)
      qed
      have at: "entry_at (slots @ [Some x], gens @ [0]) = (entry_at t)(?h \<mapsto> x)"
      proof (rule ext)
        fix h
        show "entry_at (slots @ [Some x], gens @ [0]) h = ((entry_at t)(?h \<mapsto> x)) h"
          unfolding fun_upd_apply entry_at_conv [OF ok'] entry_at_conv [OF ok] using hs [of h] len
          by (auto simp: t nth_append less_Suc_eq)
      qed
      show ?thesis using out ok' new iss at e False by (auto simp: t nth_append len)
    qed
  qed
qed

lemma clear_entry:
  assumes ok: "slot_table_ok t" and h: "entry_at t h \<noteq> None"
  shows "slot_table_ok (clear_entry t (handle_slot h)) \<and> issued (clear_entry t (handle_slot h)) = issued t \<and>
     entry_at (clear_entry t (handle_slot h)) = (entry_at t)(h := None)"
proof -
  have ok': "slot_table_ok (clear_entry t (handle_slot h))" using ok by (simp add: slot_table_ok_def clear_entry_def)
  have hh: "handle_slot h < length (fst t)" "snd t ! handle_slot h = handle_generation h"
    using h by (auto simp: entry_at_conv [OF ok] split: if_splits)
  have "entry_at (clear_entry t (handle_slot h)) k = ((entry_at t)(h := None)) k" for k
    unfolding entry_at_conv [OF ok'] fun_upd_apply entry_at_conv [OF ok] using hh handle_eqI [of k h]
    by (auto simp: clear_entry_def nth_list_update)
  then show ?thesis using ok' by (auto simp: issued_def clear_entry_def)
qed

section \<open>The contract of a handle table\<close>

text \<open>
  A table gives out a fresh handle for each entry, and a handle names its entry until the entry is
  dropped. The clients are the two object tables of the manager.
\<close>

datatype 'v table_step = AddEntry 'v | DropEntry u32

locale handle_table =
  fixes ok :: "'t \<Rightarrow> bool"
    and given :: "'t \<Rightarrow> u32 set"
    and entry :: "'t \<Rightarrow> u32 \<Rightarrow> 'v option"
    and add_entry :: "'t \<Rightarrow> 'v \<Rightarrow> (u32 \<times> 't) option"
    and drop_entry :: "'t \<Rightarrow> u32 \<Rightarrow> 't"
  assumes entry_given: "ok t \<Longrightarrow> entry t h \<noteq> None \<Longrightarrow> h \<in> given t"
    and add_fresh: "ok t \<Longrightarrow> add_entry t v = Some (h, t') \<Longrightarrow>
      ok t' \<and> h \<notin> given t \<and> given t' = insert h (given t) \<and> entry t' = (entry t)(h \<mapsto> v)"
    and drop_only: "ok t \<Longrightarrow> ok (drop_entry t h) \<and> given (drop_entry t h) = given t \<and> entry (drop_entry t h) = (entry t)(h := None)"
begin

text \<open>A run of a table, with the handles it returns.\<close>

fun steps :: "'t \<Rightarrow> 'v table_step list \<Rightarrow> u32 list \<times> 't" where
  "steps t [] = ([], t)"
| "steps t (AddEntry v # xs) = (case add_entry t v of None \<Rightarrow> steps t xs | Some (h, t') \<Rightarrow> (let (hs, t'') = steps t' xs in (h # hs, t'')))"
| "steps t (DropEntry h # xs) = steps (drop_entry t h) xs"

lemma stale_forever:
  assumes "ok t" "h \<in> given t" "entry t h = None"
  shows "entry (snd (steps t xs)) h = None \<and> h \<notin> set (fst (steps t xs))"
  using assms
proof (induction xs arbitrary: t)
  case (Cons x xs)
  show ?case
  proof (cases x)
    case (AddEntry v)
    show ?thesis
    proof (cases "add_entry t v")
      case (Some p)
      obtain k t' where p: "p = (k, t')" by (cases p)
      then have t': "ok t'" "k \<notin> given t" "given t' = insert k (given t)" "entry t' = (entry t)(k \<mapsto> v)"
        using add_fresh [OF Cons.prems(1)] Some by auto
      then have "h \<noteq> k" using Cons.prems(2) by auto
      then have "entry (snd (steps t' xs)) h = None \<and> h \<notin> set (fst (steps t' xs))"
        using Cons.IH [OF t'(1)] Cons.prems(2,3) t' by simp
      then show ?thesis using \<open>h \<noteq> k\<close> by (simp add: AddEntry Some p split_beta)
    qed (use Cons in \<open>simp add: AddEntry\<close>)
  next
    case (DropEntry k)
    then show ?thesis using Cons drop_only [OF Cons.prems(1), of k] by simp
  qed
qed simp

text \<open>No handle is given out twice.\<close>

lemma handles_distinct: "ok t \<Longrightarrow> distinct (fst (steps t xs)) \<and> set (fst (steps t xs)) \<inter> given t = {}"
proof (induction xs arbitrary: t)
  case (Cons x xs)
  show ?case
  proof (cases x)
    case (AddEntry v)
    show ?thesis
    proof (cases "add_entry t v")
      case (Some p)
      obtain k t' where p: "p = (k, t')" by (cases p)
      then have t': "ok t'" "k \<notin> given t" "given t' = insert k (given t)" using add_fresh [OF Cons.prems] Some by auto
      then show ?thesis using Cons.IH [OF t'(1)] by (auto simp: AddEntry Some p split: prod.split)
    qed (use Cons in \<open>simp add: AddEntry\<close>)
  next
    case (DropEntry k)
    then show ?thesis using Cons.IH [of "drop_entry t k"] drop_only [OF Cons.prems, of k] by simp
  qed
qed simp

end

text \<open>The table of the manager with both reservations granted, as in a run that does not lack memory.\<close>

definition add_slot :: "nat \<Rightarrow> 'a slot_table \<Rightarrow> 'a \<Rightarrow> (u32 \<times> 'a slot_table) option" where
  "add_slot max_slots t x =
     (case insert_with_reservations True True t max_slots x of Some (Inr h, t') \<Rightarrow> Some (h, t') | _ \<Rightarrow> None)"

definition drop_slot :: "'a slot_table \<Rightarrow> u32 \<Rightarrow> 'a slot_table" where
  "drop_slot t h = (case entry_slot t h of None \<Rightarrow> t | Some slot \<Rightarrow> clear_entry t slot)"

lemma drop_slot_entry:
  assumes "slot_table_ok t"
  shows "slot_table_ok (drop_slot t h) \<and> issued (drop_slot t h) = issued t \<and> entry_at (drop_slot t h) = (entry_at t)(h := None)"
proof (cases "entry_at t h = None")
  case True
  then have "drop_slot t h = t" using entry_slot_Some [OF assms, of h] by (auto simp: drop_slot_def split: option.split)
  then show ?thesis using True assms by (simp add: fun_upd_idem)
next
  case False
  then have "entry_slot t h = Some (handle_slot h)" using entry_slot_Some [OF assms, of h] by blast
  then have "drop_slot t h = clear_entry t (handle_slot h)" by (simp add: drop_slot_def)
  then show ?thesis using clear_entry [OF assms False] by simp
qed

interpretation slots: handle_table slot_table_ok issued entry_at "add_slot max_slots" drop_slot for max_slots
proof
  fix t t' :: "'a slot_table" and h and x :: 'a
  assume ok: "slot_table_ok t"
  show "entry_at t h \<noteq> None \<Longrightarrow> h \<in> issued t" by (rule entry_at_issued [OF ok])
  show "slot_table_ok (drop_slot t h) \<and> issued (drop_slot t h) = issued t \<and> entry_at (drop_slot t h) = (entry_at t)(h := None)"
    by (rule drop_slot_entry [OF ok])
  assume "add_slot max_slots t x = Some (h, t')"
  then show "slot_table_ok t' \<and> h \<notin> issued t \<and> issued t' = insert h (issued t) \<and> entry_at t' = (entry_at t)(h \<mapsto> x)"
    using insert_handle [OF ok, of True True max_slots x] by (auto simp: add_slot_def split: option.splits sum.splits)
qed

end
