(* ===== verification/Bpf_Authorization.thy ===== *)
theory Bpf_Authorization
  imports Helpers Interpreter
begin

text \<open>
  Access rights to maps (\<open>kernel/src/bpf/authorization.rs\<close>): the two access bits, the authorisation of a
  load, the grants of a map and its pins. The lemmas give the access of every owner after a grant and
  after a revocation.
\<close>

unbundle bit_operations_syntax

section \<open>Access bits\<close>

type_synonym map_access = u8

definition ACCESS_NONE :: map_access where "ACCESS_NONE = 0"
definition ACCESS_READ :: map_access where "ACCESS_READ = 1"
definition ACCESS_WRITE :: map_access where "ACCESS_WRITE = 2"
definition ACCESS_READ_WRITE :: map_access where "ACCESS_READ_WRITE = ACCESS_READ OR ACCESS_WRITE"

definition access_contains :: "map_access \<Rightarrow> map_access \<Rightarrow> bool" where
  "access_contains a required \<longleftrightarrow> a AND required = required"

definition access_intersect :: "map_access \<Rightarrow> map_access \<Rightarrow> map_access" where
  "access_intersect a b = a AND b"

definition access_union :: "map_access \<Rightarrow> map_access \<Rightarrow> map_access" where
  "access_union a b = a OR b"

record load_authorization =
  la_caller :: load_caller
  la_allow_actuation :: bool
  la_map_access :: map_access

definition kernel_authorization :: load_authorization where
  "kernel_authorization = \<lparr>la_caller = Trusted, la_allow_actuation = True, la_map_access = ACCESS_READ_WRITE\<rparr>"

section \<open>Grants\<close>

definition MAX_MAP_GRANTS :: nat where "MAX_MAP_GRANTS = 64"

record map_grant =
  mg_owner :: u64
  mg_access :: map_access

type_synonym map_grants = "map_grant list"

definition grants_access_for :: "map_grants \<Rightarrow> u64 \<Rightarrow> map_access option" where
  "grants_access_for entries owner = map_option mg_access (List.find (\<lambda>g. mg_owner g = owner) entries)"

text \<open>The first grant of the owner is widened in place.\<close>

fun widen_grant :: "map_grants \<Rightarrow> u64 \<Rightarrow> map_access \<Rightarrow> map_grants" where
  "widen_grant [] owner access = []"
| "widen_grant (g # gs) owner access =
     (if mg_owner g = owner then g\<lparr>mg_access := access_union (mg_access g) access\<rparr> # gs
      else g # widen_grant gs owner access)"

definition grant_access :: "bool \<Rightarrow> map_grants \<Rightarrow> u64 \<Rightarrow> map_access \<Rightarrow> bpf_error + map_grants" where
  "grant_access reserve entries owner access =
     (if \<exists>g\<in>set entries. mg_owner g = owner then Inr (widen_grant entries owner access)
      else if length entries \<ge> MAX_MAP_GRANTS then Inl BpfResourceLimit
      else if \<not> reserve then Inl BpfOutOfMemory
      else Inr (entries @ [\<lparr>mg_owner = owner, mg_access = access\<rparr>]))"

definition revoke_owner :: "map_grants \<Rightarrow> u64 \<Rightarrow> map_grants" where
  "revoke_owner entries owner = filter (\<lambda>g. mg_owner g \<noteq> owner) entries"

section \<open>Pins\<close>

record pinned_map =
  pin_path :: string
  pin_map_id :: u32
  pin_owner :: u64
  pin_offered :: map_access

definition append_pinned_map :: "bool \<Rightarrow> pinned_map list \<Rightarrow> pinned_map \<Rightarrow> bpf_error + pinned_map list" where
  "append_pinned_map reserve pins pin = (if reserve then Inr (pins @ [pin]) else Inl BpfOutOfMemory)"

section \<open>What an owner may do\<close>

lemma contains_refl [simp]: "access_contains a a" by (simp add: access_contains_def)

lemma contains_trans: "access_contains a b \<Longrightarrow> access_contains b c \<Longrightarrow> access_contains a c"
  unfolding access_contains_def by (metis and.assoc and.commute)

lemma contains_union_iff: "access_contains (access_union a b) (ACCESS_READ) \<longleftrightarrow> access_contains a ACCESS_READ \<or> access_contains b ACCESS_READ"
  "access_contains (access_union a b) ACCESS_WRITE \<longleftrightarrow> access_contains a ACCESS_WRITE \<or> access_contains b ACCESS_WRITE"
proof -
  have bit: "access_contains c (2 ^ n) \<longleftrightarrow> bit c n" if "n < 8" for c :: u8 and n
  proof -
    have "c AND 2 ^ n = (if bit c n then 2 ^ n else 0)"
      by (rule bit_word_eqI) (auto simp: bit_and_iff bit_exp_iff)
    moreover have "(2 ^ n :: u8) \<noteq> 0" using that by simp
    ultimately show ?thesis by (simp add: access_contains_def)
  qed
  show "access_contains (access_union a b) ACCESS_READ \<longleftrightarrow> access_contains a ACCESS_READ \<or> access_contains b ACCESS_READ"
    using bit [of 0] by (simp add: ACCESS_READ_def access_union_def bit_or_iff)
  show "access_contains (access_union a b) ACCESS_WRITE \<longleftrightarrow> access_contains a ACCESS_WRITE \<or> access_contains b ACCESS_WRITE"
    using bit [of 1] by (simp add: ACCESS_WRITE_def access_union_def bit_or_iff)
qed

lemma widen_grant_access:
  "grants_access_for (widen_grant gs owner access) o' =
     (if o' = owner then map_option (\<lambda>a. access_union a access) (grants_access_for gs owner) else grants_access_for gs o')"
  by (induction gs owner access rule: widen_grant.induct) (auto simp: grants_access_for_def)

lemma grants_None: "grants_access_for gs owner = None \<longleftrightarrow> (\<forall>g\<in>set gs. mg_owner g \<noteq> owner)"
  by (auto simp: grants_access_for_def find_None_iff)

lemma find_append: "List.find P (xs @ ys) = (case List.find P xs of None \<Rightarrow> List.find P ys | Some x \<Rightarrow> Some x)"
  by (induction xs) auto

text \<open>A grant changes the access of its owner only, and adds exactly what was asked for.\<close>

lemma grant_access_spec:
  assumes "grant_access reserve gs owner access = Inr gs'"
  shows "grants_access_for gs' o' =
     (if o' = owner then Some (case grants_access_for gs owner of None \<Rightarrow> access | Some a \<Rightarrow> access_union a access)
      else grants_access_for gs o')"
proof (cases "\<exists>g\<in>set gs. mg_owner g = owner")
  case True
  then have "gs' = widen_grant gs owner access" using assms by (simp add: grant_access_def)
  moreover obtain a where "grants_access_for gs owner = Some a" using True grants_None [of gs owner] by auto
  ultimately show ?thesis by (simp add: widen_grant_access)
next
  case False
  then have "gs' = gs @ [\<lparr>mg_owner = owner, mg_access = access\<rparr>]" using assms by (auto simp: grant_access_def split: if_splits)
  moreover have "grants_access_for gs owner = None" using False grants_None by blast
  ultimately show ?thesis by (auto simp: grants_access_for_def find_append split: option.split)
qed

lemma revoke_owner_access: "grants_access_for (revoke_owner gs owner) o' = (if o' = owner then None else grants_access_for gs o')"
  by (induction gs) (auto simp: revoke_owner_def grants_access_for_def)

end
