(* ===== verification/Gpio_Routes.thy ===== *)
theory Gpio_Routes
  imports Rust_Std
begin

text \<open>
  Routes of GPIO edges to programs (\<open>attach/gpio.rs\<close>, \<open>attach/route.rs\<close>). An edge selects the routes of its
  chip and pin whose own edge matches; the number of routes an edge selects is bounded by the guard of
  the insertion.
\<close>

unbundle bit_operations_syntax

datatype gpio_edge = Rising | Falling | Both

definition edge_from_flags :: "u32 \<Rightarrow> gpio_edge" where
  "edge_from_flags flags = (let f = flags AND 3 in if f = 1 then Rising else if f = 2 then Falling else Both)"

type_synonym gpio_routes = "u8 \<times> u8 \<rightharpoonup> (gpio_edge \<times> u32) list"

definition edge_matches :: "gpio_edge \<Rightarrow> gpio_edge \<Rightarrow> bool" where
  "edge_matches attached fired \<longleftrightarrow> attached = fired \<or> attached = Both \<or> fired = Both"

definition route_insert :: "gpio_routes \<Rightarrow> u8 \<Rightarrow> u8 \<Rightarrow> gpio_edge \<Rightarrow> u32 \<Rightarrow> gpio_routes" where
  "route_insert routes chip pin edge prog_id =
     (let list = (case routes (chip, pin) of None \<Rightarrow> [] | Some l \<Rightarrow> l)
      in routes((chip, pin) \<mapsto> (if (edge, prog_id) \<in> set list then list else list @ [(edge, prog_id)])))"

definition route_contains :: "gpio_routes \<Rightarrow> u8 \<Rightarrow> u8 \<Rightarrow> gpio_edge \<Rightarrow> u32 \<Rightarrow> bool" where
  "route_contains routes chip pin edge prog_id =
     (case routes (chip, pin) of None \<Rightarrow> False | Some list \<Rightarrow> (edge, prog_id) \<in> set list)"

definition matching_count :: "gpio_routes \<Rightarrow> u8 \<Rightarrow> u8 \<Rightarrow> gpio_edge \<Rightarrow> nat" where
  "matching_count routes chip pin fired =
     (case routes (chip, pin) of None \<Rightarrow> 0 | Some list \<Rightarrow> length (filter (\<lambda>(edge, _). edge_matches edge fired) list))"

definition can_insert_with_limit :: "gpio_routes \<Rightarrow> u8 \<Rightarrow> u8 \<Rightarrow> gpio_edge \<Rightarrow> u32 \<Rightarrow> nat \<Rightarrow> bool" where
  "can_insert_with_limit routes chip pin edge prog_id limit \<longleftrightarrow>
     route_contains routes chip pin edge prog_id \<or>
     list_all (\<lambda>fired. matching_count routes chip pin fired < limit) (filter (edge_matches edge) [Rising, Falling, Both])"

definition programs_for :: "gpio_routes \<Rightarrow> u8 \<Rightarrow> u8 \<Rightarrow> gpio_edge \<Rightarrow> u32 list" where
  "programs_for routes chip pin fired =
     (case routes (chip, pin) of None \<Rightarrow> [] | Some list \<Rightarrow> map snd (filter (\<lambda>(edge, _). edge_matches edge fired) list))"

definition route_remove :: "gpio_routes \<Rightarrow> u32 \<Rightarrow> gpio_routes" where
  "route_remove routes prog_id =
     (\<lambda>k. case routes k of
        None \<Rightarrow> None
      | Some list \<Rightarrow> (let l = filter (\<lambda>(_, id). id \<noteq> prog_id) list in if l = [] then None else Some l))"

section \<open>Selection and fan-out\<close>

lemma programs_for_length: "length (programs_for routes chip pin fired) = matching_count routes chip pin fired"
  by (simp add: programs_for_def matching_count_def split: option.split)

abbreviation route_list :: "gpio_routes \<Rightarrow> u8 \<Rightarrow> u8 \<Rightarrow> (gpio_edge \<times> u32) list" where
  "route_list routes chip pin \<equiv> (case routes (chip, pin) of None \<Rightarrow> [] | Some l \<Rightarrow> l)"

lemma programs_for_list: "programs_for routes chip pin fired = map snd (filter (\<lambda>(edge, _). edge_matches edge fired) (route_list routes chip pin))"
  by (simp add: programs_for_def split: option.split)

lemma route_contains_list: "route_contains routes chip pin edge p \<longleftrightarrow> (edge, p) \<in> set (route_list routes chip pin)"
  by (simp add: route_contains_def split: option.split)

lemma programs_for_iff:
  "p \<in> set (programs_for routes chip pin fired) \<longleftrightarrow> (\<exists>edge. route_contains routes chip pin edge p \<and> edge_matches edge fired)"
proof -
  have "p \<in> snd ` {x \<in> set l. case x of (edge, _) \<Rightarrow> edge_matches edge fired} \<longleftrightarrow> (\<exists>edge. (edge, p) \<in> set l \<and> edge_matches edge fired)" for l
    by force
  then show ?thesis unfolding programs_for_list route_contains_list set_map set_filter .
qed

lemma route_list_remove: "route_list (route_remove routes p) c n = filter (\<lambda>(_, id). id \<noteq> p) (route_list routes c n)"
  by (cases "routes (c, n)") (simp_all add: route_remove_def Let_def)

lemma route_list_insert:
  "route_list (route_insert routes chip pin edge p) c n =
     (if c = chip \<and> n = pin \<and> \<not> route_contains routes chip pin edge p then route_list routes c n @ [(edge, p)] else route_list routes c n)"
  by (cases "routes (chip, pin)") (simp_all add: route_insert_def route_contains_def Let_def)

lemma route_contains_insert:
  "route_contains (route_insert routes chip pin edge p) c n e q \<longleftrightarrow>
     route_contains routes c n e q \<or> (c = chip \<and> n = pin \<and> e = edge \<and> q = p)"
  unfolding route_contains_list [of "route_insert routes chip pin edge p"] route_list_insert
  by (cases "c = chip \<and> n = pin") (auto simp: route_contains_list)

lemma route_contains_remove: "route_contains (route_remove routes p) c n e q \<longleftrightarrow> route_contains routes c n e q \<and> q \<noteq> p"
  unfolding route_contains_list route_list_remove by auto

lemma filter_edges_remove:
  "map snd (filter (\<lambda>(edge, _). edge_matches edge fired) (filter (\<lambda>(_, id). id \<noteq> p) list)) =
     filter (\<lambda>q. q \<noteq> p) (map snd (filter (\<lambda>(edge, _). edge_matches edge fired) list))"
  by (induction list) auto

lemma programs_for_remove: "programs_for (route_remove routes p) c n fired = filter (\<lambda>q. q \<noteq> p) (programs_for routes c n fired)"
  unfolding programs_for_list route_list_remove by (rule filter_edges_remove)

lemma matching_count_remove: "matching_count (route_remove routes p) c n fired \<le> matching_count routes c n fired"
  unfolding programs_for_length [symmetric] programs_for_remove by (rule length_filter_le)

text \<open>A guarded insertion keeps the fan-out of every edge within the limit.\<close>

lemma route_insert_limit:
  assumes "can_insert_with_limit routes chip pin edge p limit" "matching_count routes c n fired \<le> limit"
  shows "matching_count (route_insert routes chip pin edge p) c n fired \<le> limit"
proof (cases "c = chip \<and> n = pin \<and> \<not> route_contains routes chip pin edge p")
  case True
  then have "length (programs_for (route_insert routes chip pin edge p) c n fired) =
      length (programs_for routes c n fired) + (if edge_matches edge fired then 1 else 0)"
    unfolding programs_for_list route_list_insert by (simp only: if_P filter_append) simp
  moreover have "edge_matches edge fired \<Longrightarrow> matching_count routes c n fired < limit"
    using assms(1) True by (cases fired) (auto simp: can_insert_with_limit_def split: if_splits)
  ultimately show ?thesis using assms(2) unfolding programs_for_length by auto
next
  case False
  then have "programs_for (route_insert routes chip pin edge p) c n fired = programs_for routes c n fired"
    unfolding programs_for_list route_list_insert by (simp only: if_False)
  then show ?thesis using assms(2) unfolding programs_for_length [symmetric] by simp
qed

end
