(* ===== verification/Bpf_Manager.thy ===== *)
theory Bpf_Manager
  imports Verifier Admission Actuation Bpf_Handles Bpf_Authorization Gpio_Routes
    Hash_Map Array_Map Timeseries_Map Ringbuf_Map
begin

text \<open>
  The BPF manager (\<open>kernel/src/bpf/mod.rs\<close>, \<open>limits.rs\<close>): the tables of programs and maps with their owners
  and quotas, loading through the verifier, attachment through admission, GPIO routes, pins, and the
  snapshot of hooks that dispatch reads. All operations run under the manager lock.

  An \<open>Arc<MapRuntime>\<close> or \<open>Arc<ProgramRuntime>\<close> is named by the slot and the generation of its table entry:
  an entry leaves a table only when its reference count is one, so a reference that is still held names
  the entry that is still there. The reference count of a map is computed from the programs that refer to
  it; of a program, from the published snapshot and from references in flight, which are an argument.
  \<open>None\<close> is a panic. Signature checks and the ELF loader are arguments of the functions that call them.
\<close>

section \<open>Limits\<close>

record bpf_limits =
  max_live_programs :: nat
  max_program_slots :: nat
  max_program_bytes :: nat
  max_single_program_bytes :: nat
  max_owner_programs :: nat
  max_owner_program_bytes :: nat
  max_elf_bytes :: nat
  max_live_maps :: nat
  max_map_slots :: nat
  max_map_bytes :: nat
  max_single_map_bytes :: nat
  max_owner_maps :: nat
  max_owner_map_bytes :: nat
  max_pinned_maps :: nat
  max_key_size :: u32
  max_value_size :: u32
  lim_max_entries :: u32

definition limits_for_profile :: "profile \<Rightarrow> bpf_limits" where
  "limits_for_profile P =
     (if embedded_feature P then
        \<lparr>max_live_programs = 32, max_program_slots = 128, max_program_bytes = 2 * 1024 * 1024,
         max_single_program_bytes = 800 * 1024, max_owner_programs = 8, max_owner_program_bytes = 512 * 1024,
         max_elf_bytes = 1024 * 1024, max_live_maps = 16, max_map_slots = 64, max_map_bytes = 64 * 1024,
         max_single_map_bytes = 64 * 1024, max_owner_maps = 4, max_owner_map_bytes = 32 * 1024,
         max_pinned_maps = 32, max_key_size = 256, max_value_size = 4 * 1024, lim_max_entries = 4 * 1024\<rparr>
      else
        \<lparr>max_live_programs = 128, max_program_slots = 1024, max_program_bytes = 16 * 1024 * 1024,
         max_single_program_bytes = 1024 * 1024, max_owner_programs = 32, max_owner_program_bytes = 4 * 1024 * 1024,
         max_elf_bytes = 1024 * 1024, max_live_maps = 64, max_map_slots = 512, max_map_bytes = 64 * 1024 * 1024,
         max_single_map_bytes = 16 * 1024 * 1024, max_owner_maps = 16, max_owner_map_bytes = 16 * 1024 * 1024,
         max_pinned_maps = 128, max_key_size = 512, max_value_size = 64 * 1024, lim_max_entries = 1024 * 1024\<rparr>)"

section \<open>Maps behind one interface\<close>

text \<open>The kernel-owned envelope map: an array of entries that programs can read.\<close>

record envelope_map =
  em_def :: map_def
  em_layout :: envelope_cache

definition envelope_map_init :: "profile \<Rightarrow> envelope_map" where
  "envelope_map_init P = \<lparr>em_def = map_def_new MtArray 4 24 (of_nat MAX_KNOWN_CHANNELS), em_layout = cache_from_profile P\<rparr>"

definition envelope_index_from_key :: "bytes \<Rightarrow> nat option" where
  "envelope_index_from_key key =
     (if length key \<noteq> 4 then None
      else let idx = unat (u32_from_bytes key) in if idx < MAX_KNOWN_CHANNELS then Some idx else None)"

definition envelope_entry_bytes :: "envelope_entry \<Rightarrow> bytes" where
  "envelope_entry_bytes e = u32_to_bytes (ee_min e) @ u32_to_bytes (ee_max e) @ u32_to_bytes (ee_max_step e) @
     u32_to_bytes (ee_reserved e) @ le_bytes 8 (ee_window_ns e)"

definition envelope_lookup :: "envelope_map \<Rightarrow> bytes \<Rightarrow> bytes option" where
  "envelope_lookup em key =
     (case envelope_index_from_key key of
        None \<Rightarrow> None
      | Some idx \<Rightarrow>
          (if idx < length (ec_entries (em_layout em)) then Some (envelope_entry_bytes (ec_entries (em_layout em) ! idx)) else None))"

text \<open>\<open>Box<dyn BpfMap>\<close>: the five implementations.\<close>

datatype map_obj = HashObj hash_map | ArrayObj array_map | RingObj ringbuf_map | SeriesObj timeseries_map
  | EnvelopeObj envelope_map

primrec obj_def :: "map_obj \<Rightarrow> map_def" where
  "obj_def (HashObj m) = hm_def m"
| "obj_def (ArrayObj m) = am_def m"
| "obj_def (RingObj m) = rb_def m"
| "obj_def (SeriesObj m) = tm_def m"
| "obj_def (EnvelopeObj m) = em_def m"

primrec obj_lookup :: "map_obj \<Rightarrow> bytes \<Rightarrow> (bytes option \<times> map_obj) option" where
  "obj_lookup (HashObj m) key = map_option (\<lambda>r. (r, HashObj m)) (hm_lookup m key)"
| "obj_lookup (ArrayObj m) key = map_option (\<lambda>r. (r, ArrayObj m)) (am_lookup m key)"
| "obj_lookup (RingObj m) key = map_option (\<lambda>(r, m'). (r, RingObj m')) (rb_lookup m key)"
| "obj_lookup (SeriesObj m) key = map_option (\<lambda>r. (r, SeriesObj m)) (tm_lookup m key)"
| "obj_lookup (EnvelopeObj m) key = Some (envelope_lookup m key, EnvelopeObj m)"

definition lift_update :: "('m \<Rightarrow> map_obj) \<Rightarrow> 'm \<Rightarrow> map_error + 'm \<Rightarrow> (map_error + unit) \<times> map_obj" where
  "lift_update c m r = (case r of Inl e \<Rightarrow> (Inl e, c m) | Inr m' \<Rightarrow> (Inr (), c m'))"

primrec obj_update :: "map_obj \<Rightarrow> bytes \<Rightarrow> bytes \<Rightarrow> u64 \<Rightarrow> ((map_error + unit) \<times> map_obj) option" where
  "obj_update (HashObj m) key val flags = map_option (lift_update HashObj m) (hm_update m key val flags)"
| "obj_update (ArrayObj m) key val flags = map_option (lift_update ArrayObj m) (am_update m key val flags)"
| "obj_update (RingObj m) key val flags = map_option (\<lambda>(r, m'). (r, RingObj m')) (rb_update m key val flags)"
| "obj_update (SeriesObj m) key val flags = map_option (lift_update SeriesObj m) (tm_update m key val flags)"
| "obj_update (EnvelopeObj m) key val flags = Some (Inl NotSupported, EnvelopeObj m)"

primrec obj_delete :: "map_obj \<Rightarrow> bytes \<Rightarrow> ((map_error + unit) \<times> map_obj) option" where
  "obj_delete (HashObj m) key = map_option (lift_update HashObj m) (hm_delete m key)"
| "obj_delete (ArrayObj m) key = Some (lift_update ArrayObj m (am_delete m key))"
| "obj_delete (RingObj m) key = Some (rb_delete m key, RingObj m)"
| "obj_delete (SeriesObj m) key = Some (lift_update SeriesObj m (tm_delete m key))"
| "obj_delete (EnvelopeObj m) key = Some (Inl NotSupported, EnvelopeObj m)"

section \<open>The state\<close>

text \<open>
  A \<open>MapEntry\<close> with the fields of its \<open>MapRuntime\<close> (the map and the lease flag), and a program with its
  view of the maps, one place per slot of the map table.
\<close>

record map_entry =
  me_map :: map_obj
  me_leased :: bool
  me_perm :: map_perm
  me_charged_bytes :: nat
  me_owner :: u64
  me_grants :: map_grants

record program_map =
  pmr_generation :: u32
  pmr_perm :: map_perm

record program_entry =
  pe_program :: verified_program
  pe_maps :: "program_map option list"
  pe_wcet_cycles :: u64
  pe_charged_bytes :: nat
  pe_owner :: u64
  pe_authorization :: load_authorization

text \<open>A \<open>HookSnapshot\<close>: the programs of each hook and of each GPIO pin and edge.\<close>

record hook_snapshot =
  snap_generic :: "u32 list list"
  snap_gpio :: "u32 list list"

record manager =
  bm_programs :: "program_entry option list"
  bm_program_generations :: "u32 list"
  bm_attachments :: attachment_table
  bm_maps :: "map_entry option list"
  bm_map_generations :: "u32 list"
  bm_pinned_maps :: "pinned_map list"
  bm_allow_unsigned :: bool
  bm_admission :: ledger
  bm_gpio_routes :: gpio_routes
  bm_limits :: bpf_limits
  bm_live_programs :: nat
  bm_program_bytes :: nat
  bm_live_maps :: nat
  bm_map_bytes :: nat
  bm_snapshot :: "hook_snapshot option"

abbreviation program_table :: "manager \<Rightarrow> program_entry slot_table" where
  "program_table m \<equiv> (bm_programs m, bm_program_generations m)"

abbreviation map_table :: "manager \<Rightarrow> map_entry slot_table" where
  "map_table m \<equiv> (bm_maps m, bm_map_generations m)"

text \<open>
  What the environment decides: whether a reservation of memory succeeds, and which programs are still
  referenced by an execution or a retired snapshot.
\<close>

datatype reserve_site = ResSlots | ResGenerations | ResGrants | ResPins | ResProgramMaps | ResSnapshot | ResAttachment

record kernel_env =
  ke_heap :: "nat \<Rightarrow> bool"
  ke_reserve :: "reserve_site \<Rightarrow> bool"
  ke_in_flight :: "u32 \<Rightarrow> bool"

definition PINNED_MAP_OWNER :: u64 where "PINNED_MAP_OWNER = u64_MAX"
definition RESERVED_MAP_COUNT :: nat where "RESERVED_MAP_COUNT = 1"
definition GPIO_IRQ_FANOUT_LIMIT :: nat where "GPIO_IRQ_FANOUT_LIMIT = 8"
definition HOOK_FANOUT_LIMIT :: nat where "HOOK_FANOUT_LIMIT = 16"
definition BPF_PIN_PATH_MAX :: nat where "BPF_PIN_PATH_MAX = 256"
definition BPF_GPIO_PIN_COUNT :: nat where "BPF_GPIO_PIN_COUNT = 28"
definition GENERIC_HOOK_SLOTS :: nat where "GENERIC_HOOK_SLOTS = 8"
definition GPIO_EDGE_SLOTS :: nat where "GPIO_EDGE_SLOTS = 3"
definition BPF_INSN_SIZE :: nat where "BPF_INSN_SIZE = 8"

definition ATTACH_TYPE_TIMER :: u32 where "ATTACH_TYPE_TIMER = 1"
definition ATTACH_TYPE_GPIO :: u32 where "ATTACH_TYPE_GPIO = 2"
definition ATTACH_TYPE_PWM :: u32 where "ATTACH_TYPE_PWM = 3"
definition ATTACH_TYPE_IIO :: u32 where "ATTACH_TYPE_IIO = 4"
definition ATTACH_TYPE_SYS_ENTER :: u32 where "ATTACH_TYPE_SYS_ENTER = 5"
definition ATTACH_TYPE_SYS_EXIT :: u32 where "ATTACH_TYPE_SYS_EXIT = 6"
definition ATTACH_TYPE_SCHED_SWITCH :: u32 where "ATTACH_TYPE_SCHED_SWITCH = 7"

lemmas attach_type_defs = ATTACH_TYPE_TIMER_def ATTACH_TYPE_GPIO_def ATTACH_TYPE_PWM_def ATTACH_TYPE_IIO_def
  ATTACH_TYPE_SYS_ENTER_def ATTACH_TYPE_SYS_EXIT_def ATTACH_TYPE_SCHED_SWITCH_def

text \<open>\<open>size_of\<close> of the context structures of the hooks, all \<open>repr(C)\<close>.\<close>

definition attach_ctx_data_size :: "u32 \<Rightarrow> u32" where
  "attach_ctx_data_size attach_type =
     (if attach_type = ATTACH_TYPE_GPIO then 24 else if attach_type = ATTACH_TYPE_PWM then 32
      else if attach_type = ATTACH_TYPE_IIO then 32 else if attach_type = ATTACH_TYPE_SYS_ENTER then 56
      else if attach_type = ATTACH_TYPE_SYS_EXIT then 16 else if attach_type = ATTACH_TYPE_SCHED_SWITCH then 40 else 0)"

definition VERIFY_CTX_DATA_SIZE_MAX :: u32 where "VERIFY_CTX_DATA_SIZE_MAX = max 56 (max 40 (max 32 (max 32 24)))"
definition VERIFY_MAP_VALUE_SIZE :: u32 where "VERIFY_MAP_VALUE_SIZE = 256"

definition is_supported_attach_type :: "u32 \<Rightarrow> bool" where
  "is_supported_attach_type t \<longleftrightarrow> t \<in> {ATTACH_TYPE_TIMER, ATTACH_TYPE_GPIO, ATTACH_TYPE_IIO, ATTACH_TYPE_SYS_ENTER,
     ATTACH_TYPE_SYS_EXIT, ATTACH_TYPE_SCHED_SWITCH}"

definition is_latency_sensitive_attach_type :: "u32 \<Rightarrow> bool" where
  "is_latency_sensitive_attach_type t \<longleftrightarrow> t \<in> {ATTACH_TYPE_TIMER, ATTACH_TYPE_GPIO, ATTACH_TYPE_SCHED_SWITCH}"

definition hook_frequency_hz :: "profile \<Rightarrow> u32 \<Rightarrow> u64" where
  "hook_frequency_hz P attach_type =
     (if RT_PERIOD_NS P = 0 \<or> RT_PERIOD_NS P = u64_MAX then 0 else 1000000000 div RT_PERIOD_NS P)"

section \<open>Access to maps\<close>

definition entry_access_for :: "map_entry \<Rightarrow> u64 \<Rightarrow> map_access option" where
  "entry_access_for e owner = (if me_owner e = owner then Some ACCESS_READ_WRITE else grants_access_for (me_grants e) owner)"

definition program_entry_at :: "manager \<Rightarrow> u32 \<Rightarrow> program_entry option" where
  "program_entry_at m h = entry_at (program_table m) h"

definition map_slot :: "manager \<Rightarrow> u32 \<Rightarrow> nat option" where
  "map_slot m h = entry_slot (map_table m) h"

definition map_entry_at :: "manager \<Rightarrow> u32 \<Rightarrow> map_entry option" where
  "map_entry_at m h = entry_at (map_table m) h"

definition ensure_map_writable :: "manager \<Rightarrow> u32 \<Rightarrow> bpf_error + unit" where
  "ensure_map_writable m map_id =
     (case map_entry_at m map_id of
        None \<Rightarrow> Inl BpfNotLoaded
      | Some e \<Rightarrow> (case me_perm e of MapUnavailable \<Rightarrow> Inl BpfPermissionDenied | MapReadOnly \<Rightarrow> Inl BpfReadOnlyMap | _ \<Rightarrow> Inr ()))"

definition ensure_map_owner :: "manager \<Rightarrow> u64 \<Rightarrow> u32 \<Rightarrow> bpf_error + unit" where
  "ensure_map_owner m owner map_id =
     (case map_entry_at m map_id of
        None \<Rightarrow> Inl BpfNotLoaded
      | Some e \<Rightarrow> if me_owner e = owner then Inr () else Inl BpfPermissionDenied)"

definition ensure_map_access :: "manager \<Rightarrow> u64 \<Rightarrow> u32 \<Rightarrow> map_access \<Rightarrow> bpf_error + unit" where
  "ensure_map_access m owner map_id required =
     (case map_entry_at m map_id of
        None \<Rightarrow> Inl BpfNotLoaded
      | Some e \<Rightarrow>
          (case (if me_charged_bytes e = 0 then Some ACCESS_READ_WRITE else entry_access_for e owner) of
             None \<Rightarrow> Inl BpfPermissionDenied
           | Some access \<Rightarrow> if access_contains access required then Inr () else Inl BpfPermissionDenied))"

definition ensure_program_owner :: "manager \<Rightarrow> u64 \<Rightarrow> u32 \<Rightarrow> bpf_error + unit" where
  "ensure_program_owner m owner prog_id =
     (case program_entry_at m prog_id of
        None \<Rightarrow> Inl BpfNotLoaded
      | Some e \<Rightarrow> if pe_owner e = owner then Inr () else Inl BpfPermissionDenied)"

text \<open>The view of the maps for an owner: value sizes and permissions per slot, and the generations.\<close>

definition view_with :: "map_entry \<Rightarrow> map_access \<Rightarrow> u32 \<times> map_perm" where
  "view_with e access =
     (if access_contains access ACCESS_READ \<and> access_contains access ACCESS_WRITE then (def_value_size (obj_def (me_map e)), me_perm e)
      else if access_contains access ACCESS_READ then (def_value_size (obj_def (me_map e)), MapReadOnly)
      else if access_contains access ACCESS_WRITE \<and> me_perm e = MapReadWrite then (def_value_size (obj_def (me_map e)), MapWriteOnly)
      else (0, MapUnavailable))"

definition entry_view :: "u64 \<Rightarrow> map_access \<Rightarrow> map_entry option \<Rightarrow> u32 \<times> map_perm" where
  "entry_view owner authorized slot =
     (case slot of
        None \<Rightarrow> (0, MapUnavailable)
      | Some e \<Rightarrow>
          if me_charged_bytes e = 0 then view_with e (access_intersect ACCESS_READ_WRITE authorized)
          else (case entry_access_for e owner of
                  None \<Rightarrow> (0, MapUnavailable)
                | Some access \<Rightarrow> view_with e (access_intersect access authorized)))"

definition map_metadata_for_owner :: "manager \<Rightarrow> u64 \<Rightarrow> map_access \<Rightarrow> u32 list \<times> map_perm list \<times> u32 list" where
  "map_metadata_for_owner m owner authorized =
     (let views = map (entry_view owner authorized) (bm_maps m)
      in (map fst views, map snd views, bm_map_generations m))"

text \<open>\<open>program_maps_for_owner\<close>: the loop over the handles the program refers to.\<close>

fun link_program_maps ::
  "manager \<Rightarrow> map_perm list \<Rightarrow> u32 list \<Rightarrow> program_map option list \<Rightarrow> bpf_error + program_map option list" where
  "link_program_maps m perms [] maps = Inr maps"
| "link_program_maps m perms (h # hs) maps =
     (case map_slot m h of
        None \<Rightarrow> Inl BpfNotLoaded
      | Some slot \<Rightarrow>
          if perms ! slot = MapUnavailable then Inl BpfPermissionDenied
          else link_program_maps m perms hs
                 (maps[slot := Some \<lparr>pmr_generation = bm_map_generations m ! slot, pmr_perm = perms ! slot\<rparr>]))"

definition program_maps_for_owner ::
  "kernel_env \<Rightarrow> manager \<Rightarrow> u64 \<Rightarrow> map_access \<Rightarrow> u32 list \<Rightarrow> bpf_error + program_map option list" where
  "program_maps_for_owner env m owner authorized handles =
     (let (_, perms, _) = map_metadata_for_owner m owner authorized
      in if \<not> ke_reserve env ResProgramMaps then Inl BpfOutOfMemory
         else link_program_maps m perms handles (replicate (length (bm_maps m)) None))"

end
