(* ===== verification/Manager_Ops.thy ===== *)
theory Manager_Ops
  imports Bpf_Manager
begin

text \<open>
  The operations of the BPF manager (\<open>kernel/src/bpf/mod.rs\<close>). Each takes the manager and returns the
  answer and the manager it leaves behind; \<open>None\<close> is a panic. Tracing to the log is left out.
\<close>

type_synonym 'a answer = "((bpf_error + 'a) \<times> manager) option"

abbreviation refuse :: "bpf_error \<Rightarrow> manager \<Rightarrow> 'a answer" where
  "refuse e m \<equiv> Some (Inl e, m)"

section \<open>Hook snapshots\<close>

definition hook_list_push :: "nat \<Rightarrow> u32 list \<Rightarrow> u32 \<Rightarrow> bpf_error + u32 list" where
  "hook_list_push n programs p = (if length programs < n then Inr (programs @ [p]) else Inl BpfResourceLimit)"

definition gpio_index :: "u8 \<Rightarrow> u8 \<Rightarrow> u32 \<Rightarrow> nat option" where
  "gpio_index chip pin edge_flags =
     (if chip \<noteq> 0 \<or> unat pin \<ge> BPF_GPIO_PIN_COUNT \<or> \<not> (1 \<le> edge_flags \<and> edge_flags \<le> 3) then None
      else Some (unat pin * GPIO_EDGE_SLOTS + unat edge_flags - 1))"

text \<open>The loop over the programs of one hook; the \<open>expect\<close> of a failed push panics.\<close>

fun push_loaded :: "nat \<Rightarrow> manager \<Rightarrow> u32 list \<Rightarrow> u32 list \<Rightarrow> u32 list option" where
  "push_loaded n m [] programs = Some programs"
| "push_loaded n m (p # ps) programs =
     (if program_entry_at m p = None then push_loaded n m ps programs
      else case hook_list_push n programs p of Inl _ \<Rightarrow> None | Inr programs' \<Rightarrow> push_loaded n m ps programs')"

definition attached_to :: "manager \<Rightarrow> u32 \<Rightarrow> u32 list" where
  "attached_to m attach_type = (case bm_attachments m attach_type of None \<Rightarrow> [] | Some ps \<Rightarrow> ps)"

definition gpio_slots :: "(nat \<times> u32) list" where
  "gpio_slots = List.product [0..<BPF_GPIO_PIN_COUNT] [1, 2, 3]"

text \<open>
  Building the snapshot of \<open>publish_hook_snapshot\<close>: an attachment to a type without a slot panics, and so
  does a hook with more programs than its list holds.
\<close>

definition hook_snapshot_of :: "manager \<Rightarrow> hook_snapshot option" where
  "hook_snapshot_of m =
     (if \<exists>t. unat t \<ge> GENERIC_HOOK_SLOTS \<and> bm_attachments m t \<noteq> None then None
      else do {
        generic \<leftarrow> those (map (\<lambda>i. push_loaded HOOK_FANOUT_LIMIT m (attached_to m (of_nat i)) []) [0..<GENERIC_HOOK_SLOTS]);
        gpio \<leftarrow> those (map (\<lambda>(pin, edge_flags). push_loaded GPIO_IRQ_FANOUT_LIMIT m
                     (programs_for (bm_gpio_routes m) 0 (of_nat pin) (edge_from_flags edge_flags)) []) gpio_slots);
        Some \<lparr>snap_generic = generic, snap_gpio = gpio\<rparr> })"

definition publish_hook_snapshot :: "manager \<Rightarrow> manager option" where
  "publish_hook_snapshot m = map_option (\<lambda>s. m\<lparr>bm_snapshot := Some s\<rparr>) (hook_snapshot_of m)"

definition snapshot_programs :: "manager \<Rightarrow> u32 list" where
  "snapshot_programs m =
     (case bm_snapshot m of None \<Rightarrow> [] | Some s \<Rightarrow> concat (snap_generic s) @ concat (snap_gpio s))"

text \<open>Dispatch: the programs that a hook or a GPIO edge runs, and the loop that runs them.\<close>

definition hook_programs :: "manager \<Rightarrow> u32 \<Rightarrow> u32 list" where
  "hook_programs m attach_type =
     (case bm_snapshot m of
        None \<Rightarrow> []
      | Some s \<Rightarrow> if unat attach_type < length (snap_generic s) then snap_generic s ! unat attach_type else [])"

definition gpio_programs :: "manager \<Rightarrow> u8 \<Rightarrow> u8 \<Rightarrow> gpio_edge \<Rightarrow> u32 list" where
  "gpio_programs m chip pin fired =
     (let edge_flags = (case fired of Rising \<Rightarrow> 1 | Falling \<Rightarrow> 2 | Both \<Rightarrow> 3)
      in case bm_snapshot m of
           None \<Rightarrow> []
         | Some s \<Rightarrow>
             (case gpio_index chip pin edge_flags of
                None \<Rightarrow> []
              | Some i \<Rightarrow> if i < length (snap_gpio s) then snap_gpio s ! i else []))"

fun run_snapshot :: "(u32 \<Rightarrow> 's \<Rightarrow> (bpf_error + u64) \<times> 's) \<Rightarrow> u32 list \<Rightarrow> nat \<Rightarrow> 's \<Rightarrow> (bpf_error + nat) \<times> 's" where
  "run_snapshot execute [] count k = (Inr count, k)"
| "run_snapshot execute (p # ps) count k =
     (case execute p k of
        (Inl e, k') \<Rightarrow> (Inl e, k')
      | (Inr _, k') \<Rightarrow> run_snapshot execute ps (count + 1) k')"

section \<open>References\<close>

text \<open>\<open>Arc::strong_count(..) != 1\<close> for a program and for a map.\<close>

definition program_shared :: "kernel_env \<Rightarrow> manager \<Rightarrow> u32 \<Rightarrow> bool" where
  "program_shared env m h \<longleftrightarrow> h \<in> set (snapshot_programs m) \<or> ke_in_flight env h"

definition refers_to :: "program_entry \<Rightarrow> nat \<Rightarrow> u32 \<Rightarrow> bool" where
  "refers_to p slot generation \<longleftrightarrow>
     slot < length (pe_maps p) \<and> (case pe_maps p ! slot of None \<Rightarrow> False | Some r \<Rightarrow> pmr_generation r = generation)"

definition map_shared :: "manager \<Rightarrow> nat \<Rightarrow> bool" where
  "map_shared m slot \<longleftrightarrow> (\<exists>p\<in>set (bm_programs m). case p of None \<Rightarrow> False | Some e \<Rightarrow> refers_to e slot (bm_map_generations m ! slot))"

definition map_pinned :: "manager \<Rightarrow> u32 \<Rightarrow> bool" where
  "map_pinned m map_id \<longleftrightarrow> (\<exists>pin\<in>set (bm_pinned_maps m). pin_map_id pin = map_id)"

text \<open>Taking a map or a program out of its table returns its charge.\<close>

definition take_map :: "manager \<Rightarrow> nat \<Rightarrow> manager" where
  "take_map m slot =
     (case bm_maps m ! slot of
        None \<Rightarrow> m
      | Some e \<Rightarrow> m\<lparr>bm_maps := (bm_maps m)[slot := None], bm_live_maps := bm_live_maps m - 1,
                    bm_map_bytes := bm_map_bytes m - me_charged_bytes e\<rparr>)"

definition take_program :: "manager \<Rightarrow> nat \<Rightarrow> manager" where
  "take_program m slot =
     (case bm_programs m ! slot of
        None \<Rightarrow> m
      | Some e \<Rightarrow> m\<lparr>bm_programs := (bm_programs m)[slot := None], bm_live_programs := bm_live_programs m - 1,
                    bm_program_bytes := bm_program_bytes m - pe_charged_bytes e\<rparr>)"

text \<open>\<open>reclaim_unpinned_orphan_maps_if_quiescent\<close>, one slot after the other.\<close>

definition reclaim_orphan :: "manager \<Rightarrow> nat \<Rightarrow> manager" where
  "reclaim_orphan m slot =
     (case bm_maps m ! slot of
        None \<Rightarrow> m
      | Some e \<Rightarrow>
          if me_owner e \<noteq> PINNED_MAP_OWNER \<or> me_charged_bytes e = 0 then m
          else if map_pinned m (encode_handle slot (bm_map_generations m ! slot)) \<or> map_shared m slot then m
          else take_map m slot)"

definition reclaim_orphans :: "manager \<Rightarrow> manager" where
  "reclaim_orphans m = foldl reclaim_orphan m [0..<length (bm_maps m)]"

section \<open>Construction\<close>

definition register_reserved_map :: "manager \<Rightarrow> map_obj \<Rightarrow> map_perm \<Rightarrow> u32 \<times> manager" where
  "register_reserved_map m obj perm =
     (let slot = length (bm_maps m)
      in (encode_handle slot 0,
          m\<lparr>bm_maps := bm_maps m @ [Some \<lparr>me_map = obj, me_leased = False, me_perm = perm, me_charged_bytes = 0, me_owner = 0, me_grants = []\<rparr>],
            bm_map_generations := bm_map_generations m @ [0]\<rparr>))"

definition manager_new :: "profile \<Rightarrow> bpf_limits \<Rightarrow> bool \<Rightarrow> monitor \<Rightarrow> manager \<times> monitor" where
  "manager_new P limits allow_unsigned mon =
     (let m = \<lparr>bm_programs = [], bm_program_generations = [], bm_attachments = Map.empty, bm_maps = [], bm_map_generations = [],
               bm_pinned_maps = [], bm_allow_unsigned = allow_unsigned,
               bm_admission = ledger_new (UTILIZATION_BUDGET_NS_PER_S P) (CYCLE_UNIT_NS P), bm_gpio_routes = Map.empty,
               bm_limits = limits, bm_live_programs = 0, bm_program_bytes = 0, bm_live_maps = 0, bm_map_bytes = 0, bm_snapshot = None\<rparr>;
          envelope = envelope_map_init P
      in (snd (register_reserved_map m (EnvelopeObj envelope) MapReadOnly), init_envelope_cache mon (em_layout envelope)))"

section \<open>Loading\<close>

text \<open>The \<open>try_fold\<close> over the objects of an owner: their number and their bytes.\<close>

definition usage_step :: "(nat \<times> nat) option \<Rightarrow> nat \<Rightarrow> (nat \<times> nat) option" where
  "usage_step acc charge =
     do { (objects, bytes) \<leftarrow> acc; o' \<leftarrow> checked_add_usize objects 1; b' \<leftarrow> checked_add_usize bytes charge; Some (o', b') }"

definition owner_usage :: "nat list \<Rightarrow> (nat \<times> nat) option" where
  "owner_usage charges = foldl usage_step (Some (0, 0)) charges"

definition has_slot :: "'a slot_table \<Rightarrow> nat \<Rightarrow> bool" where
  "has_slot t max_slots \<longleftrightarrow>
     length (fst t) < max_slots \<or> (case find_reusable 0 (fst t) (snd t) of Some (Some _) \<Rightarrow> True | _ \<Rightarrow> False)"

definition program_charges :: "manager \<Rightarrow> u64 \<Rightarrow> nat list" where
  "program_charges m owner = map pe_charged_bytes (filter (\<lambda>e. pe_owner e = owner) (List.map_filter id (bm_programs m)))"

definition map_charges :: "manager \<Rightarrow> u64 \<Rightarrow> nat list" where
  "map_charges m owner =
     map me_charged_bytes (filter (\<lambda>e. me_owner e = owner \<and> me_charged_bytes e \<noteq> 0) (List.map_filter id (bm_maps m)))"

definition ensure_program_quota :: "manager \<Rightarrow> u64 \<Rightarrow> nat \<Rightarrow> bpf_error + unit" where
  "ensure_program_quota m owner charge =
     (let lim = bm_limits m
      in if bm_live_programs m \<ge> max_live_programs lim \<or> \<not> has_slot (program_table m) (max_program_slots lim) \<or>
            charge > max_single_program_bytes lim
         then Inl BpfResourceLimit
         else case checked_add_usize (bm_program_bytes m) charge of
                None \<Rightarrow> Inl BpfResourceLimit
              | Some new_total \<Rightarrow>
                  if new_total > max_program_bytes lim then Inl BpfResourceLimit
                  else (case owner_usage (program_charges m owner) of
                          None \<Rightarrow> Inl BpfResourceLimit
                        | Some (owner_objects, owner_bytes) \<Rightarrow>
                            if owner_objects \<ge> max_owner_programs lim then Inl BpfResourceLimit
                            else (case checked_add_usize owner_bytes charge of
                                    None \<Rightarrow> Inl BpfResourceLimit
                                  | Some b \<Rightarrow> if b > max_owner_program_bytes lim then Inl BpfResourceLimit else Inr ())))"

definition register_program ::
  "kernel_env \<Rightarrow> manager \<Rightarrow> verified_program \<Rightarrow> u64 \<Rightarrow> u32 list \<Rightarrow> nat \<Rightarrow> u64 \<Rightarrow> load_authorization \<Rightarrow> u32 answer" where
  "register_program env m program wcet handles charge owner auth =
     (case ensure_program_quota m owner charge of
        Inl e \<Rightarrow> refuse e m
      | Inr _ \<Rightarrow>
          (case program_maps_for_owner env m owner (la_map_access auth) handles of
             Inl e \<Rightarrow> refuse e m
           | Inr maps \<Rightarrow>
               (case insert_with_reservations (ke_reserve env ResSlots) (ke_reserve env ResGenerations) (program_table m)
                       (max_program_slots (bm_limits m))
                       \<lparr>pe_program = program, pe_maps = maps, pe_wcet_cycles = wcet, pe_charged_bytes = charge, pe_owner = owner,
                        pe_authorization = auth\<rparr> of
                  None \<Rightarrow> None
                | Some (Inl e, _) \<Rightarrow> refuse e m
                | Some (Inr handle, programs, generations) \<Rightarrow>
                    let m1 = m\<lparr>bm_programs := programs, bm_program_generations := generations\<rparr>
                    in case checked_add_usize (bm_live_programs m1) 1 of
                         None \<Rightarrow> refuse BpfResourceLimit m1
                       | Some live \<Rightarrow>
                           let m2 = m1\<lparr>bm_live_programs := live\<rparr>
                           in case checked_add_usize (bm_program_bytes m2) charge of
                                None \<Rightarrow> refuse BpfResourceLimit m2
                              | Some bytes \<Rightarrow> Some (Inr handle, m2\<lparr>bm_program_bytes := bytes\<rparr>))))"

definition verify_config_with_ctx_data ::
  "u32 list \<Rightarrow> map_perm list \<Rightarrow> u32 list \<Rightarrow> u32 \<Rightarrow> load_authorization \<Rightarrow> verify_config" where
  "verify_config_with_ctx_data sizes perms generations data_size auth =
     \<lparr>ctx_size = of_nat context_struct_size, ctx_data_size = data_size, map_value_size = VERIFY_MAP_VALUE_SIZE,
      map_value_sizes = sizes, map_perms = perms, map_generations = generations, map_handle_slot_bits = of_nat SLOT_BITS,
      caller = la_caller auth, allow_actuation = la_allow_actuation auth, forbid_logging_helpers = False\<rparr>"

definition manager_config :: "manager \<Rightarrow> u64 \<Rightarrow> load_authorization \<Rightarrow> u32 \<Rightarrow> verify_config" where
  "manager_config m owner auth data_size =
     (let (sizes, perms, generations) = map_metadata_for_owner m owner (la_map_access auth)
      in verify_config_with_ctx_data sizes perms generations data_size auth)"

definition load_verified_raw_program ::
  "profile \<Rightarrow> kernel_env \<Rightarrow> manager \<Rightarrow> u64 \<Rightarrow> bpf_insn list \<Rightarrow> load_authorization \<Rightarrow> u32 answer" where
  "load_verified_raw_program P env m owner insns auth =
     (case checked_mul_usize (length insns) BPF_INSN_SIZE of
        None \<Rightarrow> refuse BpfResourceLimit m
      | Some charge \<Rightarrow>
          (case ensure_program_quota m owner charge of
             Inl e \<Rightarrow> refuse e m
           | Inr _ \<Rightarrow>
               (case verify_with_stats P insns (manager_config m owner auth VERIFY_CTX_DATA_SIZE_MAX) of
                  Inl _ \<Rightarrow> refuse BpfVerificationFailed m
                | Inr (prog, stats) \<Rightarrow>
                    register_program env m prog (stat_wcet_cycles stats) (referenced_map_handles stats) charge owner auth)))"

definition load_raw_program_authorized ::
  "profile \<Rightarrow> kernel_env \<Rightarrow> manager \<Rightarrow> u64 \<Rightarrow> bpf_insn list \<Rightarrow> load_authorization \<Rightarrow> u32 answer" where
  "load_raw_program_authorized P env m owner insns auth =
     (if \<not> bm_allow_unsigned m then refuse BpfSignatureRejected m
      else load_verified_raw_program P env m owner insns auth)"

definition load_kernel_builtin_program :: "profile \<Rightarrow> kernel_env \<Rightarrow> manager \<Rightarrow> bpf_insn list \<Rightarrow> u32 answer" where
  "load_kernel_builtin_program P env m insns = load_verified_raw_program P env m 0 insns kernel_authorization"

text \<open>
  Loading an ELF image: \<open>authenticate\<close> is the signature check, which unwraps the image if it accepts it, and
  \<open>elf_load\<close> is the loader, which returns the instructions of the programs of the object.
\<close>

definition load_program_authorized ::
  "(bytes \<Rightarrow> bool \<Rightarrow> bytes option) \<Rightarrow> (bytes \<Rightarrow> bpf_insn list list option) \<Rightarrow>
   profile \<Rightarrow> kernel_env \<Rightarrow> manager \<Rightarrow> u64 \<Rightarrow> bytes \<Rightarrow> load_authorization \<Rightarrow> u32 answer" where
  "load_program_authorized authenticate elf_load P env m owner elf auth =
     (if length elf > max_elf_bytes (bm_limits m) then refuse BpfResourceLimit m
      else case ensure_program_quota m owner 0 of
             Inl e \<Rightarrow> refuse e m
           | Inr _ \<Rightarrow>
               (case authenticate elf (bm_allow_unsigned m) of
                  None \<Rightarrow> refuse BpfSignatureRejected m
                | Some inner \<Rightarrow>
                    (case elf_load inner of
                       None \<Rightarrow> refuse BpfNotLoaded m
                     | Some [] \<Rightarrow> refuse BpfNotLoaded m
                     | Some (insns # _) \<Rightarrow>
                         (case checked_mul_usize (length insns) BPF_INSN_SIZE of
                            None \<Rightarrow> refuse BpfResourceLimit m
                          | Some charge \<Rightarrow>
                              (case ensure_program_quota m owner charge of
                                 Inl e \<Rightarrow> refuse e m
                               | Inr _ \<Rightarrow>
                                   (case verify_with_stats P insns (manager_config m owner auth VERIFY_CTX_DATA_SIZE_MAX) of
                                      Inl _ \<Rightarrow> refuse BpfVerificationFailed m
                                    | Inr (prog, stats) \<Rightarrow>
                                        register_program env m prog (stat_wcet_cycles stats) (referenced_map_handles stats)
                                          charge owner auth))))))"

section \<open>Attaching\<close>

definition validate_attach_for :: "profile \<Rightarrow> manager \<Rightarrow> u64 \<Rightarrow> u32 \<Rightarrow> u32 \<Rightarrow> bpf_error + bool" where
  "validate_attach_for P m owner attach_type prog_id =
     (if \<not> is_supported_attach_type attach_type then Inl BpfInvalidInstruction
      else case program_entry_at m prog_id of
             None \<Rightarrow> Inl BpfNotLoaded
           | Some e \<Rightarrow>
               let cfg = (manager_config m owner (pe_authorization e) (attach_ctx_data_size attach_type))
                           \<lparr>forbid_logging_helpers := is_latency_sensitive_attach_type attach_type\<rparr>
               in case verify_with_stats P (vp_insns (pe_program e)) cfg of
                    Inl _ \<Rightarrow> Inl BpfVerificationFailed
                  | Inr _ \<Rightarrow>
                      let already_attached = prog_id \<in> set (attached_to m attach_type)
                      in if \<not> already_attached \<and> length (attached_to m attach_type) \<ge> HOOK_FANOUT_LIMIT then Inl BpfResourceLimit
                         else Inr already_attached)"

definition commit_attach :: "profile \<Rightarrow> kernel_env \<Rightarrow> manager \<Rightarrow> u32 \<Rightarrow> u32 \<Rightarrow> (bpf_error + unit) \<times> manager" where
  "commit_attach P env m attach_type prog_id =
     (case program_entry_at m prog_id of
        None \<Rightarrow> (Inl BpfNotLoaded, m)
      | Some e \<Rightarrow>
          (case commit_attachment (\<lambda>_. ke_reserve env ResAttachment) (bm_attachments m) (bm_admission m) attach_type prog_id
                  (pe_wcet_cycles e) (hook_frequency_hz P attach_type) of
             (r, t, l) \<Rightarrow>
               (case r of
                  Inr _ \<Rightarrow> Inr ()
                | Inl (CommitAdmission _) \<Rightarrow> Inl BpfAdmissionRejected
                | Inl CommitReservation \<Rightarrow> Inl BpfOutOfMemory,
                m\<lparr>bm_attachments := t, bm_admission := l\<rparr>)))"

text \<open>Publishing after a change that succeeded.\<close>

definition published :: "'a \<Rightarrow> manager \<Rightarrow> 'a answer" where
  "published x m = map_option (\<lambda>m'. (Inr x, m')) (publish_hook_snapshot m)"

definition attach_for :: "profile \<Rightarrow> kernel_env \<Rightarrow> manager \<Rightarrow> u64 \<Rightarrow> u32 \<Rightarrow> u32 \<Rightarrow> unit answer" where
  "attach_for P env m owner attach_type prog_id =
     (case ensure_program_owner m owner prog_id of
        Inl e \<Rightarrow> refuse e m
      | Inr _ \<Rightarrow>
          (case validate_attach_for P m owner attach_type prog_id of
             Inl e \<Rightarrow> refuse e m
           | Inr True \<Rightarrow> Some (Inr (), m)
           | Inr False \<Rightarrow>
               if \<not> ke_reserve env ResSnapshot then refuse BpfOutOfMemory m
               else (case commit_attach P env m attach_type prog_id of
                       (Inl e, m') \<Rightarrow> refuse e m'
                     | (Inr _, m') \<Rightarrow> published () m')))"

definition detach :: "kernel_env \<Rightarrow> manager \<Rightarrow> u32 \<Rightarrow> u32 \<Rightarrow> unit answer" where
  "detach env m attach_type prog_id =
     (if \<not> ke_reserve env ResSnapshot then refuse BpfOutOfMemory m
      else case bm_attachments m attach_type of
             None \<Rightarrow> refuse BpfNotLoaded m
           | Some list \<Rightarrow>
               if prog_id \<in> set list then
                 published () (m\<lparr>bm_attachments := (bm_attachments m)(attach_type \<mapsto> remove1 prog_id list),
                                 bm_admission := release (bm_admission m) attach_type prog_id,
                                 bm_gpio_routes := route_remove (bm_gpio_routes m) prog_id\<rparr>)
               else refuse BpfNotLoaded m)"

definition detach_for :: "kernel_env \<Rightarrow> manager \<Rightarrow> u64 \<Rightarrow> u32 \<Rightarrow> u32 \<Rightarrow> unit answer" where
  "detach_for env m owner attach_type prog_id =
     (case ensure_program_owner m owner prog_id of
        Inl e \<Rightarrow> refuse e m
      | Inr _ \<Rightarrow> detach env m attach_type prog_id)"

definition can_register_gpio_route :: "manager \<Rightarrow> u8 \<Rightarrow> u8 \<Rightarrow> gpio_edge \<Rightarrow> u32 \<Rightarrow> bool" where
  "can_register_gpio_route m chip pin edge prog_id =
     can_insert_with_limit (bm_gpio_routes m) chip pin edge prog_id GPIO_IRQ_FANOUT_LIMIT"

definition attach_gpio_route_for ::
  "profile \<Rightarrow> kernel_env \<Rightarrow> manager \<Rightarrow> u64 \<Rightarrow> u8 \<Rightarrow> u8 \<Rightarrow> gpio_edge \<Rightarrow> u32 \<Rightarrow> unit answer" where
  "attach_gpio_route_for P env m owner chip pin edge prog_id =
     (if \<not> can_register_gpio_route m chip pin edge prog_id then refuse BpfGpioFanoutExceeded m
      else case ensure_program_owner m owner prog_id of
             Inl e \<Rightarrow> refuse e m
           | Inr _ \<Rightarrow>
               (case validate_attach_for P m owner ATTACH_TYPE_GPIO prog_id of
                  Inl e \<Rightarrow> refuse e m
                | Inr already_attached \<Rightarrow>
                    if \<not> ke_reserve env ResSnapshot then refuse BpfOutOfMemory m
                    else (case (if already_attached then (Inr (), m) else commit_attach P env m ATTACH_TYPE_GPIO prog_id) of
                            (Inl e, m') \<Rightarrow> refuse e m'
                          | (Inr _, m') \<Rightarrow>
                              published () (m'\<lparr>bm_gpio_routes := route_insert (bm_gpio_routes m') chip pin edge prog_id\<rparr>))))"

definition unload_program_for :: "kernel_env \<Rightarrow> manager \<Rightarrow> u64 \<Rightarrow> u32 \<Rightarrow> unit answer" where
  "unload_program_for env m owner prog_id =
     (case ensure_program_owner m owner prog_id of
        Inl e \<Rightarrow> refuse e m
      | Inr _ \<Rightarrow>
          if \<exists>t. prog_id \<in> set (attached_to m t) then refuse BpfObjectBusy m
          else if program_shared env m prog_id then refuse BpfObjectBusy m
          else let m1 = take_program m (handle_slot prog_id);
                   m2 = m1\<lparr>bm_gpio_routes := route_remove (bm_gpio_routes m1) prog_id\<rparr>
               in Some (Inr (), reclaim_orphans m2))"

section \<open>Maps\<close>

definition BPF_MAP_TYPE_HASH :: u32 where "BPF_MAP_TYPE_HASH = 1"
definition BPF_MAP_TYPE_ARRAY :: u32 where "BPF_MAP_TYPE_ARRAY = 2"
definition BPF_MAP_TYPE_RINGBUF :: u32 where "BPF_MAP_TYPE_RINGBUF = 27"
definition BPF_MAP_TYPE_TIMESERIES :: u32 where "BPF_MAP_TYPE_TIMESERIES = 100"

lemmas map_type_defs = BPF_MAP_TYPE_HASH_def BPF_MAP_TYPE_ARRAY_def BPF_MAP_TYPE_RINGBUF_def BPF_MAP_TYPE_TIMESERIES_def

text \<open>The bytes a map of the given shape occupies; the outer error is an invalid shape.\<close>

definition map_shape_charge :: "u32 \<Rightarrow> u32 \<Rightarrow> u32 \<Rightarrow> u32 \<Rightarrow> bpf_error + nat option" where
  "map_shape_charge map_type key_size val_size max_entries =
     (if map_type = BPF_MAP_TYPE_HASH \<and> key_size \<noteq> 0 \<and> val_size \<noteq> 0 then Inr (hash_allocation_size key_size val_size max_entries)
      else if map_type = BPF_MAP_TYPE_ARRAY \<and> key_size = 4 \<and> val_size \<noteq> 0 then Inr (array_allocation_size val_size max_entries)
      else if map_type = BPF_MAP_TYPE_RINGBUF \<and> key_size = 0 \<and> val_size = 0 \<and> is_power_of_two (unat max_entries) then Inr (Some (unat max_entries))
      else if map_type = BPF_MAP_TYPE_TIMESERIES \<and> key_size = 8 \<and> val_size \<noteq> 0 then Inr (ts_allocation_size val_size max_entries)
      else Inl BpfInvalidInstruction)"

definition map_allocation_charge :: "manager \<Rightarrow> u64 \<Rightarrow> u32 \<Rightarrow> u32 \<Rightarrow> u32 \<Rightarrow> u32 \<Rightarrow> bpf_error + nat" where
  "map_allocation_charge m owner map_type key_size val_size max_entries =
     (let lim = bm_limits m
      in if max_entries = 0 \<or> key_size > max_key_size lim \<or> val_size > max_value_size lim \<or> max_entries > lim_max_entries lim
         then Inl BpfResourceLimit
         else case map_shape_charge map_type key_size val_size max_entries of
                Inl e \<Rightarrow> Inl e
              | Inr None \<Rightarrow> Inl BpfResourceLimit
              | Inr (Some charge) \<Rightarrow>
                  if bm_live_maps m \<ge> max_live_maps lim \<or> \<not> has_slot (map_table m) (max_map_slots lim) \<or> charge > max_single_map_bytes lim
                  then Inl BpfResourceLimit
                  else (case checked_add_usize (bm_map_bytes m) charge of
                          None \<Rightarrow> Inl BpfResourceLimit
                        | Some new_total \<Rightarrow>
                            if new_total > max_map_bytes lim then Inl BpfResourceLimit
                            else (case owner_usage (map_charges m owner) of
                                    None \<Rightarrow> Inl BpfResourceLimit
                                  | Some (owner_objects, owner_bytes) \<Rightarrow>
                                      if owner_objects \<ge> max_owner_maps lim then Inl BpfResourceLimit
                                      else (case checked_add_usize owner_bytes charge of
                                              None \<Rightarrow> Inl BpfResourceLimit
                                            | Some b \<Rightarrow> if b > max_owner_map_bytes lim then Inl BpfResourceLimit else Inr charge))))"

definition register_user_map :: "kernel_env \<Rightarrow> manager \<Rightarrow> map_obj \<Rightarrow> nat \<Rightarrow> u64 \<Rightarrow> u32 answer" where
  "register_user_map env m obj charge owner =
     (case insert_with_reservations (ke_reserve env ResSlots) (ke_reserve env ResGenerations) (map_table m)
             (max_map_slots (bm_limits m))
             \<lparr>me_map = obj, me_leased = False, me_perm = MapReadWrite, me_charged_bytes = charge, me_owner = owner, me_grants = []\<rparr> of
        None \<Rightarrow> None
      | Some (Inl e, _) \<Rightarrow> refuse e m
      | Some (Inr handle, maps, generations) \<Rightarrow>
          let m1 = m\<lparr>bm_maps := maps, bm_map_generations := generations\<rparr>
          in case checked_add_usize (bm_live_maps m1) 1 of
               None \<Rightarrow> refuse BpfResourceLimit m1
             | Some live \<Rightarrow>
                 let m2 = m1\<lparr>bm_live_maps := live\<rparr>
                 in case checked_add_usize (bm_map_bytes m2) charge of
                      None \<Rightarrow> refuse BpfResourceLimit m2
                    | Some bytes \<Rightarrow> Some (Inr handle, m2\<lparr>bm_map_bytes := bytes\<rparr>))"

definition new_map :: "profile \<Rightarrow> kernel_env \<Rightarrow> u32 \<Rightarrow> u32 \<Rightarrow> u32 \<Rightarrow> u32 \<Rightarrow> bpf_error + map_obj" where
  "new_map P env map_type key_size val_size max_entries =
     (if map_type = BPF_MAP_TYPE_HASH then
        map_sum (\<lambda>_. BpfOutOfMemory) HashObj (hash_map_with_sizes P (ke_heap env) key_size val_size max_entries)
      else if map_type = BPF_MAP_TYPE_ARRAY then
        map_sum (\<lambda>_. BpfOutOfMemory) ArrayObj (array_map_with_entries P (ke_heap env) val_size max_entries)
      else if map_type = BPF_MAP_TYPE_RINGBUF then
        map_sum (\<lambda>_. BpfOutOfMemory) RingObj (ringbuf_map_new P (ke_heap env) (unat max_entries))
      else if map_type = BPF_MAP_TYPE_TIMESERIES then
        map_sum (\<lambda>_. BpfOutOfMemory) SeriesObj (timeseries_map_new P (ke_heap env) val_size max_entries)
      else Inl BpfInvalidInstruction)"

definition create_map_for :: "profile \<Rightarrow> kernel_env \<Rightarrow> manager \<Rightarrow> u64 \<Rightarrow> u32 \<Rightarrow> u32 \<Rightarrow> u32 \<Rightarrow> u32 \<Rightarrow> u32 answer" where
  "create_map_for P env m owner map_type key_size val_size max_entries =
     (case map_allocation_charge m owner map_type key_size val_size max_entries of
        Inl e \<Rightarrow> refuse e m
      | Inr charge \<Rightarrow>
          (case new_map P env map_type key_size val_size max_entries of
             Inl e \<Rightarrow> refuse e m
           | Inr obj \<Rightarrow> register_user_map env m obj charge owner))"

text \<open>
  An access takes the lease of the map for the time of the call, so the entry is left with the lease free
  and the map as the operation leaves it.
\<close>

definition set_map :: "manager \<Rightarrow> u32 \<Rightarrow> map_entry \<Rightarrow> map_obj \<Rightarrow> manager" where
  "set_map m map_id e obj = m\<lparr>bm_maps := (bm_maps m)[handle_slot map_id := Some (e\<lparr>me_map := obj, me_leased := False\<rparr>)]\<rparr>"

definition map_lookup_for :: "manager \<Rightarrow> u64 \<Rightarrow> u32 \<Rightarrow> bytes \<Rightarrow> bytes option answer" where
  "map_lookup_for m owner map_id key =
     (case ensure_map_access m owner map_id ACCESS_READ of
        Inl e \<Rightarrow> refuse e m
      | Inr _ \<Rightarrow>
          (case map_entry_at m map_id of
             None \<Rightarrow> refuse BpfNotLoaded m
           | Some e \<Rightarrow>
               if me_leased e then refuse BpfObjectBusy m
               else map_option (\<lambda>(r, obj). (Inr r, set_map m map_id e obj)) (obj_lookup (me_map e) key)))"

definition ringbuf_poll_for :: "manager \<Rightarrow> u64 \<Rightarrow> u32 \<Rightarrow> bytes option answer" where
  "ringbuf_poll_for m owner map_id = map_lookup_for m owner map_id []"

definition map_update :: "manager \<Rightarrow> u32 \<Rightarrow> bytes \<Rightarrow> bytes \<Rightarrow> u64 \<Rightarrow> unit answer" where
  "map_update m map_id key val flags =
     (case ensure_map_writable m map_id of
        Inl e \<Rightarrow> refuse e m
      | Inr _ \<Rightarrow>
          (case map_entry_at m map_id of
             None \<Rightarrow> refuse BpfNotLoaded m
           | Some e \<Rightarrow>
               if me_leased e then refuse BpfObjectBusy m
               else map_option (\<lambda>(r, obj). (map_sum (\<lambda>_. BpfOutOfMemory) id r, set_map m map_id e obj)) (obj_update (me_map e) key val flags)))"

definition map_update_for :: "manager \<Rightarrow> u64 \<Rightarrow> u32 \<Rightarrow> bytes \<Rightarrow> bytes \<Rightarrow> u64 \<Rightarrow> unit answer" where
  "map_update_for m owner map_id key val flags =
     (case ensure_map_access m owner map_id ACCESS_WRITE of
        Inl e \<Rightarrow> refuse e m
      | Inr _ \<Rightarrow> map_update m map_id key val flags)"

definition ringbuf_output :: "manager \<Rightarrow> u32 \<Rightarrow> bytes \<Rightarrow> u64 \<Rightarrow> unit answer" where
  "ringbuf_output m map_id data flags = map_update m map_id [] data flags"

definition map_delete_for :: "manager \<Rightarrow> u64 \<Rightarrow> u32 \<Rightarrow> bytes \<Rightarrow> unit answer" where
  "map_delete_for m owner map_id key =
     (case ensure_map_access m owner map_id ACCESS_WRITE of
        Inl e \<Rightarrow> refuse e m
      | Inr _ \<Rightarrow>
          (case ensure_map_writable m map_id of
             Inl e \<Rightarrow> refuse e m
           | Inr _ \<Rightarrow>
               (case map_entry_at m map_id of
                  None \<Rightarrow> refuse BpfNotLoaded m
                | Some e \<Rightarrow>
                    if me_leased e then refuse BpfObjectBusy m
                    else map_option (\<lambda>(r, obj). (map_sum (\<lambda>_. BpfNotLoaded) id r, set_map m map_id e obj)) (obj_delete (me_map e) key))))"

definition get_map_def_for_access :: "manager \<Rightarrow> u64 \<Rightarrow> u32 \<Rightarrow> map_access \<Rightarrow> bpf_error + map_def" where
  "get_map_def_for_access m owner map_id required =
     (case ensure_map_access m owner map_id required of
        Inl e \<Rightarrow> Inl e
      | Inr _ \<Rightarrow> (case map_entry_at m map_id of None \<Rightarrow> Inl BpfNotLoaded | Some e \<Rightarrow> Inr (obj_def (me_map e))))"

definition destroy_map_for :: "manager \<Rightarrow> u64 \<Rightarrow> u32 \<Rightarrow> unit answer" where
  "destroy_map_for m owner map_id =
     (case map_slot m map_id of
        None \<Rightarrow> refuse BpfNotLoaded m
      | Some slot \<Rightarrow>
          if slot < RESERVED_MAP_COUNT then refuse BpfReadOnlyMap m
          else (case ensure_map_owner m owner map_id of
                  Inl e \<Rightarrow> refuse e m
                | Inr _ \<Rightarrow>
                    if map_pinned m map_id \<or> map_shared m slot then refuse BpfObjectBusy m
                    else Some (Inr (), take_map m slot)))"

section \<open>Pins\<close>

definition pin_map_with_access_for :: "kernel_env \<Rightarrow> manager \<Rightarrow> u64 \<Rightarrow> string \<Rightarrow> u32 \<Rightarrow> map_access \<Rightarrow> unit answer" where
  "pin_map_with_access_for env m owner path map_id offered =
     (if path = [] \<or> length path \<ge> BPF_PIN_PATH_MAX then refuse BpfResourceLimit m
      else if \<not> access_contains offered ACCESS_READ \<and> \<not> access_contains offered ACCESS_WRITE then refuse BpfPermissionDenied m
      else case ensure_map_owner m owner map_id of
             Inl e \<Rightarrow> refuse e m
           | Inr _ \<Rightarrow>
               (case List.find (\<lambda>pin. pin_path pin = path) (bm_pinned_maps m) of
                  Some existing \<Rightarrow>
                    if pin_map_id existing = map_id \<and> pin_owner existing = owner \<and> pin_offered existing = offered then Some (Inr (), m)
                    else refuse BpfObjectBusy m
                | None \<Rightarrow>
                    if length (bm_pinned_maps m) \<ge> max_pinned_maps (bm_limits m) then refuse BpfResourceLimit m
                    else (case append_pinned_map (ke_reserve env ResPins) (bm_pinned_maps m)
                                 \<lparr>pin_path = path, pin_map_id = map_id, pin_owner = owner, pin_offered = offered\<rparr> of
                            Inl e \<Rightarrow> refuse e m
                          | Inr pins \<Rightarrow> Some (Inr (), m\<lparr>bm_pinned_maps := pins\<rparr>))))"

definition get_pinned_map_for :: "kernel_env \<Rightarrow> manager \<Rightarrow> u64 \<Rightarrow> string \<Rightarrow> map_access \<Rightarrow> u32 answer" where
  "get_pinned_map_for env m owner path requested =
     (case List.find (\<lambda>pin. pin_path pin = path) (bm_pinned_maps m) of
        None \<Rightarrow> refuse BpfNotLoaded m
      | Some pin \<Rightarrow>
          if \<not> access_contains (pin_offered pin) requested then refuse BpfPermissionDenied m
          else (case map_entry_at m (pin_map_id pin) of
                  None \<Rightarrow> refuse BpfNotLoaded m
                | Some e \<Rightarrow>
                    if me_owner e = owner then Some (Inr (pin_map_id pin), m)
                    else (case grant_access (ke_reserve env ResGrants) (me_grants e) owner requested of
                            Inl err \<Rightarrow> refuse err m
                          | Inr grants \<Rightarrow>
                              Some (Inr (pin_map_id pin),
                                m\<lparr>bm_maps := (bm_maps m)[handle_slot (pin_map_id pin) := Some (e\<lparr>me_grants := grants\<rparr>)]\<rparr>))))"

definition unpin_map_for :: "manager \<Rightarrow> u64 \<Rightarrow> string \<Rightarrow> bool \<Rightarrow> unit answer" where
  "unpin_map_for m owner path allow_orphan_cleanup =
     (case position (\<lambda>pin. pin_path pin = path) (bm_pinned_maps m) of
        None \<Rightarrow> refuse BpfNotLoaded m
      | Some index \<Rightarrow>
          let pin = bm_pinned_maps m ! index
          in if pin_owner pin \<noteq> owner \<and> (pin_owner pin \<noteq> PINNED_MAP_OWNER \<or> \<not> allow_orphan_cleanup) then refuse BpfPermissionDenied m
             else
               let rest = take index (bm_pinned_maps m) @ drop (Suc index) (bm_pinned_maps m);
                   last_pin = (\<forall>p\<in>set rest. pin_map_id p \<noteq> pin_map_id pin);
                   orphaned = (case map_entry_at m (pin_map_id pin) of None \<Rightarrow> False | Some e \<Rightarrow> me_owner e = PINNED_MAP_OWNER);
                   m1 = m\<lparr>bm_pinned_maps := rest\<rparr>
               in Some (Inr (), if last_pin \<and> orphaned then reclaim_orphans m1 else m1))"

section \<open>Reclaiming an owner\<close>

definition owned_program :: "manager \<Rightarrow> u64 \<Rightarrow> u32 \<Rightarrow> bool" where
  "owned_program m owner prog_id = (case program_entry_at m prog_id of None \<Rightarrow> False | Some e \<Rightarrow> pe_owner e = owner)"

text \<open>The first loop detaches the programs of the owner, releasing their admission one by one.\<close>

definition detach_owner :: "manager \<Rightarrow> u64 \<Rightarrow> manager" where
  "detach_owner m owner =
     m\<lparr>bm_attachments := (\<lambda>t. case bm_attachments m t of
          None \<Rightarrow> None
        | Some ps \<Rightarrow> (let l = filter (\<lambda>p. \<not> owned_program m owner p) ps in if l = [] then None else Some l)),
       bm_admission := foldl (\<lambda>l (t, p). release l t p) (bm_admission m)
          [(of_nat i, p). i \<leftarrow> [0..<GENERIC_HOOK_SLOTS], p \<leftarrow> attached_to m (of_nat i), owned_program m owner p]\<rparr>"

definition unroute_owner :: "manager \<Rightarrow> u64 \<Rightarrow> manager" where
  "unroute_owner m owner =
     m\<lparr>bm_gpio_routes := foldl route_remove (bm_gpio_routes m)
         [encode_handle i (bm_program_generations m ! i). i \<leftarrow> [0..<length (bm_programs m)],
            case bm_programs m ! i of None \<Rightarrow> False | Some e \<Rightarrow> pe_owner e = owner]\<rparr>"

definition revoke_grants :: "manager \<Rightarrow> u64 \<Rightarrow> manager" where
  "revoke_grants m owner =
     m\<lparr>bm_maps := map (map_option (\<lambda>e. e\<lparr>me_grants := revoke_owner (me_grants e) owner\<rparr>)) (bm_maps m),
       bm_pinned_maps := map (\<lambda>pin. if pin_owner pin = owner then pin\<lparr>pin_owner := PINNED_MAP_OWNER\<rparr> else pin) (bm_pinned_maps m)\<rparr>"

definition reclaim_program :: "kernel_env \<Rightarrow> u64 \<Rightarrow> manager \<Rightarrow> nat \<Rightarrow> manager" where
  "reclaim_program env owner m slot =
     (case bm_programs m ! slot of
        None \<Rightarrow> m
      | Some e \<Rightarrow>
          if pe_owner e \<noteq> owner \<or> program_shared env m (encode_handle slot (bm_program_generations m ! slot)) then m
          else take_program m slot)"

definition reclaim_map :: "u64 \<Rightarrow> manager \<Rightarrow> nat \<Rightarrow> manager" where
  "reclaim_map owner m slot =
     (case bm_maps m ! slot of
        None \<Rightarrow> m
      | Some e \<Rightarrow>
          if me_owner e \<noteq> owner \<or> me_charged_bytes e = 0 then m
          else if map_pinned m (encode_handle slot (bm_map_generations m ! slot)) \<or> map_shared m slot then
            m\<lparr>bm_maps := (bm_maps m)[slot := Some (e\<lparr>me_owner := PINNED_MAP_OWNER\<rparr>)]\<rparr>
          else take_map m slot)"

definition reclaim_owner :: "kernel_env \<Rightarrow> manager \<Rightarrow> u64 \<Rightarrow> (bool \<times> manager) option" where
  "reclaim_owner env m owner =
     (if \<not> ke_reserve env ResSnapshot then Some (False, m)
      else case publish_hook_snapshot (unroute_owner (detach_owner m owner) owner) of
             None \<Rightarrow> None
           | Some m1 \<Rightarrow>
               let m2 = revoke_grants m1 owner;
                   m3 = foldl (reclaim_program env owner) m2 [0..<length (bm_programs m2)]
               in if \<exists>p\<in>set (bm_programs m3). case p of None \<Rightarrow> False | Some e \<Rightarrow> pe_owner e = owner
                  then Some (False, m3)
                  else Some (True, reclaim_orphans (foldl (reclaim_map owner) m3 [0..<length (bm_maps m3)])))"

section \<open>Executions\<close>

text \<open>
  While a program runs, the maps it uses are leased to it. \<open>ProgramRuntime::map\<close> finds a map in the view of
  the program, and \<open>BpfExecution::map\<close> leases it once; the leases end with the execution.
\<close>

definition MAX_EXECUTION_MAP_LEASES :: nat where "MAX_EXECUTION_MAP_LEASES = 128"

record execution =
  ex_program :: program_entry
  ex_leased :: "nat list"

definition execution_new :: "program_entry \<Rightarrow> execution" where
  "execution_new p = \<lparr>ex_program = p, ex_leased = []\<rparr>"

primrec perm_access :: "map_perm \<Rightarrow> map_access" where
  "perm_access MapReadWrite = ACCESS_READ_WRITE"
| "perm_access MapReadOnly = ACCESS_READ"
| "perm_access MapWriteOnly = ACCESS_WRITE"
| "perm_access MapUnavailable = ACCESS_NONE"

definition runtime_map :: "program_entry \<Rightarrow> u32 \<Rightarrow> map_access \<Rightarrow> nat option" where
  "runtime_map p handle required =
     (let slot = handle_slot handle
      in if slot < length (pe_maps p)
         then (case pe_maps p ! slot of
                 None \<Rightarrow> None
               | Some r \<Rightarrow>
                   if pmr_generation r \<noteq> handle_generation handle then None
                   else if access_contains (perm_access (pmr_perm r)) required then Some slot else None)
         else None)"

definition set_lease :: "bool \<Rightarrow> manager \<Rightarrow> nat \<Rightarrow> manager" where
  "set_lease b m slot =
     (case bm_maps m ! slot of None \<Rightarrow> m | Some e \<Rightarrow> m\<lparr>bm_maps := (bm_maps m)[slot := Some (e\<lparr>me_leased := b\<rparr>)]\<rparr>)"

definition execution_map :: "manager \<Rightarrow> execution \<Rightarrow> u32 \<Rightarrow> map_access \<Rightarrow> nat option \<times> execution \<times> manager" where
  "execution_map m ex handle required =
     (case runtime_map (ex_program ex) handle required of
        None \<Rightarrow> (None, ex, m)
      | Some slot \<Rightarrow>
          if slot \<in> set (ex_leased ex) then (Some slot, ex, m)
          else if length (ex_leased ex) = MAX_EXECUTION_MAP_LEASES then (None, ex, m)
          else (case bm_maps m ! slot of
                  None \<Rightarrow> (None, ex, m)
                | Some e \<Rightarrow>
                    if me_leased e then (None, ex, m)
                    else (Some slot, ex\<lparr>ex_leased := ex_leased ex @ [slot]\<rparr>, set_lease True m slot)))"

definition execution_drop :: "manager \<Rightarrow> execution \<Rightarrow> manager" where
  "execution_drop m ex = foldl (set_lease False) m (ex_leased ex)"

end
