(* ===== verification/Manager_Invariant.thy ===== *)
theory Manager_Invariant
  imports Manager_Ops Hash_Refinement
begin

text \<open>
  What every operation of the BPF manager keeps: the tables are well formed, the counters are the sums over
  the tables and within the limits, a program refers only to maps that are there, pins and attachments name
  objects that are there, and the published snapshot is the one of the attachments. The lemmas here are
  about the few ways in which the state changes; the operations are put together in \<open>Manager_Preserve\<close> and \<open>Manager_Safety\<close>.
\<close>

section \<open>Map objects\<close>

primrec obj_inv :: "map_obj \<Rightarrow> bool" where
  "obj_inv (HashObj m) = hash_map_inv m"
| "obj_inv (ArrayObj m) = array_map_inv m"
| "obj_inv (RingObj m) = (\<exists>q. ring_queue m q)"
| "obj_inv (SeriesObj m) = ts_shape (tm_storage m)"
| "obj_inv (EnvelopeObj m) = True"

lemma map_sum_Inr: "map_sum f g x = Inr y \<longleftrightarrow> (\<exists>z. x = Inr z \<and> y = g z)"
  by (cases x) auto

lemma new_map_inv:
  assumes "new_map P env ty ks vs n = Inr obj"
  shows "obj_inv obj"
proof -
  have hash: "hash_map_inv m" if "hash_map_with_sizes P heap ks vs n = Inr m" for heap m
    using that hash_map_new_inv by (auto simp: hash_map_with_sizes_def)
  have arr: "array_map_inv m" if "array_map_with_entries P heap vs n = Inr m" for heap m
    using that array_map_new_inv by (auto simp: array_map_with_entries_def)
  have ring: "\<exists>q. ring_queue m q" if "ringbuf_map_new P heap (unat n) = Inr m" for heap m
    using ringbuf_new_queue [OF that] by blast
  have series: "ts_shape (tm_storage m)" if new: "timeseries_map_new P heap vs n = Inr m" for heap m
  proof -
    have "n \<noteq> 0" "ts_storage_new (try_reserve_exact heap) (unat vs) (unat n) = Inr (tm_storage m)"
      using new by (auto simp: timeseries_map_new_def res_Inr_iffs split: if_splits)
    then show ?thesis using ts_new_log by (simp add: unat_gt_0)
  qed
  show ?thesis using assms hash arr ring series
    by (auto simp: new_map_def map_sum_Inr split: if_splits)
qed

lemma obj_lookup_total:
  assumes "obj_inv obj"
  shows "\<exists>r obj'. obj_lookup obj k = Some (r, obj') \<and> obj_inv obj'"
proof (cases obj)
  case (HashObj m)
  then show ?thesis using assms hash_map_lookup_contents [of m k] by simp
next
  case (ArrayObj m)
  then show ?thesis using assms array_map_lookup_contents [of m k] by simp
next
  case (RingObj m)
  then obtain q where q: "ring_queue m q" using assms by auto
  show ?thesis using rb_poll_queue [OF q] q by (cases q) (auto simp: RingObj rb_lookup_def)
next
  case (SeriesObj m)
  then show ?thesis using assms by (simp add: tm_lookup_def ts_last_n_log Let_def)
next
  case (EnvelopeObj m)
  then show ?thesis by simp
qed

lemma obj_update_total:
  assumes "obj_inv obj" "length v \<le> 2 ^ 63"
  shows "\<exists>r obj'. obj_update obj k v fl = Some (r, obj') \<and> obj_inv obj'"
proof (cases obj)
  case (HashObj m)
  then obtain r where "hm_update m k v fl = Some r" "\<forall>t. r = Inr t \<longrightarrow> hash_map_inv t"
    using assms(1) hash_map_update_refines [of m k v fl] by auto
  then show ?thesis using assms HashObj by (cases r) (auto simp: lift_update_def)
next
  case (ArrayObj m)
  then obtain r where "am_update m k v fl = Some r" "\<forall>t. r = Inr t \<longrightarrow> array_map_inv t"
    using assms(1) array_map_update_refines [of m k v fl] by (auto split: if_splits)
  then show ?thesis using assms ArrayObj by (cases r) (auto simp: lift_update_def)
next
  case (RingObj m)
  then obtain q where "ring_queue m q" using assms by auto
  from rb_output_queue [OF this assms(2), of fl] obtain r m' q' where "rb_output m v fl = Some (r, m')" "ring_queue m' q'"
    by (auto split: if_splits)
  then show ?thesis by (auto simp: RingObj rb_update_def)
next
  case (SeriesObj m)
  then have sh: "ts_shape (tm_storage m)" using assms by simp
  show ?thesis
  proof (cases "length v = ts_value_size (tm_storage m)")
    case True
    show ?thesis using ts_push_log [OF sh True, of "if length k \<ge> 8 then le_value (take 8 k) else 0"]
      by (auto simp: SeriesObj tm_update_def tm_push_def lift_update_def)
  next
    case False
    then show ?thesis using sh by (simp add: SeriesObj tm_update_def tm_push_def ts_push_bad_size lift_update_def)
  qed
next
  case (EnvelopeObj m)
  then show ?thesis by simp
qed

lemma obj_delete_total:
  assumes "obj_inv obj"
  shows "\<exists>r obj'. obj_delete obj k = Some (r, obj') \<and> obj_inv obj'"
proof (cases obj)
  case (HashObj m)
  then obtain r where "hm_delete m k = Some r" "\<forall>t. r = Inr t \<longrightarrow> hash_map_inv t"
    using assms(1) hash_map_delete_refines [of m k] by auto
  then show ?thesis using assms HashObj by (cases r) (auto simp: lift_update_def)
qed (use assms in \<open>auto simp: lift_update_def am_delete_def rb_delete_def tm_delete_def\<close>)

section \<open>Sums over a table\<close>

definition tally :: "('a \<Rightarrow> nat) \<Rightarrow> 'a option list \<Rightarrow> nat" where
  "tally f xs = (\<Sum>x\<leftarrow>xs. case x of None \<Rightarrow> 0 | Some e \<Rightarrow> f e)"

lemma tally_simps [simp]: "tally f [] = 0" "tally f (None # xs) = tally f xs" "tally f (Some e # xs) = f e + tally f xs"
  "tally f (xs @ ys) = tally f xs + tally f ys"
  by (simp_all add: tally_def)

lemma tally_update:
  "i < length xs \<Longrightarrow> tally f (xs[i := y]) + (case xs ! i of None \<Rightarrow> 0 | Some e \<Rightarrow> f e) = tally f xs + (case y of None \<Rightarrow> 0 | Some e \<Rightarrow> f e)"
proof (induction xs arbitrary: i)
  case (Cons x xs)
  show ?case
  proof (cases i)
    case 0
    then show ?thesis by (simp add: tally_def)
  next
    case (Suc j)
    then have "tally f (xs[j := y]) + (case xs ! j of None \<Rightarrow> 0 | Some e \<Rightarrow> f e) = tally f xs + (case y of None \<Rightarrow> 0 | Some e \<Rightarrow> f e)"
      using Cons by simp
    then show ?thesis using Suc by (simp add: tally_def)
  qed
qed simp

lemma tally_le: "(\<And>e. Some e \<in> set xs \<Longrightarrow> f e \<le> g e) \<Longrightarrow> tally f xs \<le> tally g xs"
proof (induction xs)
  case (Cons x xs)
  then have "tally f xs \<le> tally g xs" by simp
  then show ?case using Cons.prems [of "the x"] by (cases x) (auto intro: add_mono)
qed simp

lemma tally_map: "(\<And>e. f (g e) = f e) \<Longrightarrow> tally f (map (map_option g) xs) = tally f xs"
  by (induction xs) (auto simp: tally_def split: option.split)

lemma tally_filter:
  "tally (\<lambda>e. if P e then 1 else 0) xs = length (filter P (List.map_filter id xs))"
  "tally (\<lambda>e. if P e then f e else 0) xs = sum_list (map f (filter P (List.map_filter id xs)))"
  by (induction xs) (auto simp: tally_def map_filter_simps split: option.split)

lemma owner_usage_sums:
  assumes "owner_usage cs = Some (n, b)"
  shows "n = length cs \<and> b = sum_list cs"
proof -
  have step: "foldl usage_step (Some (n0, b0)) cs = Some (n, b) \<Longrightarrow> n = n0 + length cs \<and> b = b0 + sum_list cs" for n0 b0
  proof (induction cs arbitrary: n0 b0)
    case (Cons c cs)
    have none: "foldl usage_step None cs = None" by (induction cs) (simp_all add: usage_step_def)
    have "usage_step (Some (n0, b0)) c = (if Suc n0 \<le> usize_MAX \<and> b0 + c \<le> usize_MAX then Some (Suc n0, b0 + c) else None)"
      by (simp add: usage_step_def checked_add_usize_def)
    then show ?case using Cons.IH [of "Suc n0" "b0 + c"] Cons.prems none by (auto split: if_splits)
  qed simp
  show ?thesis using step [of 0 0] assms by (simp add: owner_usage_def)
qed

text \<open>The table after an insertion.\<close>

lemma insert_shape:
  assumes "insert_with_reservations rs rg t max_slots x = Some (Inr h, t')"
  shows "(\<exists>s<length (fst t). fst t ! s = None \<and> fst t' = (fst t)[s := Some x]) \<or> fst t' = fst t @ [Some x]"
proof -
  obtain slots gens where t: "t = (slots, gens)" by (cases t)
  have free: "i \<le> s \<and> s - i < length es \<and> es ! (s - i) = None" if "find_reusable i es g = Some (Some s)" for i s and es :: "'a option list" and g
    using that
  proof (induction i es g rule: find_reusable.induct)
    case (2 i u es g)
    then show ?case by (auto simp: Suc_diff_Suc nth_Cons')
  next
    case (3 i es g)
    then show ?case by (auto simp: nth_Cons' split: if_splits)
  qed simp
  show ?thesis using assms free [of 0 slots gens]
    by (auto simp: insert_with_reservations_def t Let_def split: option.splits if_splits)
qed

lemma insert_tally:
  assumes "insert_with_reservations rs rg t max_slots x = Some (Inr h, t')"
  shows "tally f (fst t') = tally f (fst t) + f x"
  using insert_shape [OF assms]
proof (elim disjE exE conjE)
  fix s assume "s < length (fst t)" "fst t ! s = None" "fst t' = (fst t)[s := Some x]"
  then show ?thesis using tally_update [of s "fst t" f "Some x"] by simp
qed simp

section \<open>The invariant\<close>

definition map_entry_ok :: "profile \<Rightarrow> nat \<Rightarrow> map_entry \<Rightarrow> bool" where
  "map_entry_ok P slot e \<longleftrightarrow> obj_inv (me_map e) \<and>
     (if slot = 0 then me_charged_bytes e = 0 \<and> me_perm e = MapReadOnly \<and> me_owner e = 0 \<and> me_map e = EnvelopeObj (envelope_map_init P)
      else 0 < me_charged_bytes e \<and> me_perm e = MapReadWrite)"

definition tables_inv :: "profile \<Rightarrow> manager \<Rightarrow> bool" where
  "tables_inv P m \<longleftrightarrow> slot_table_ok (program_table m) \<and> slot_table_ok (map_table m) \<and>
     bm_maps m \<noteq> [] \<and> bm_maps m ! 0 \<noteq> None \<and> bm_map_generations m ! 0 = 0 \<and>
     (\<forall>slot e. slot < length (bm_maps m) \<longrightarrow> bm_maps m ! slot = Some e \<longrightarrow> map_entry_ok P slot e)"

definition usage_inv :: "manager \<Rightarrow> bool" where
  "usage_inv m \<longleftrightarrow>
     bm_live_programs m = tally (\<lambda>_. 1) (bm_programs m) \<and> bm_program_bytes m = tally pe_charged_bytes (bm_programs m) \<and>
     bm_live_maps m = tally (\<lambda>e. if me_charged_bytes e \<noteq> 0 then 1 else 0) (bm_maps m) \<and>
     bm_map_bytes m = tally me_charged_bytes (bm_maps m)"

definition owner_programs :: "manager \<Rightarrow> u64 \<Rightarrow> nat" where
  "owner_programs m owner = tally (\<lambda>e. if pe_owner e = owner then 1 else 0) (bm_programs m)"

definition owner_program_bytes :: "manager \<Rightarrow> u64 \<Rightarrow> nat" where
  "owner_program_bytes m owner = tally (\<lambda>e. if pe_owner e = owner then pe_charged_bytes e else 0) (bm_programs m)"

definition owner_maps :: "manager \<Rightarrow> u64 \<Rightarrow> nat" where
  "owner_maps m owner = tally (\<lambda>e. if me_owner e = owner \<and> me_charged_bytes e \<noteq> 0 then 1 else 0) (bm_maps m)"

definition owner_map_bytes :: "manager \<Rightarrow> u64 \<Rightarrow> nat" where
  "owner_map_bytes m owner = tally (\<lambda>e. if me_owner e = owner \<and> me_charged_bytes e \<noteq> 0 then me_charged_bytes e else 0) (bm_maps m)"

definition quota_inv :: "manager \<Rightarrow> bool" where
  "quota_inv m \<longleftrightarrow>
     bm_live_programs m \<le> max_live_programs (bm_limits m) \<and> bm_program_bytes m \<le> max_program_bytes (bm_limits m) \<and>
     bm_live_maps m \<le> max_live_maps (bm_limits m) \<and> bm_map_bytes m \<le> max_map_bytes (bm_limits m) \<and>
     length (bm_pinned_maps m) \<le> max_pinned_maps (bm_limits m) \<and>
     (\<forall>owner. owner_programs m owner \<le> max_owner_programs (bm_limits m) \<and>
        owner_program_bytes m owner \<le> max_owner_program_bytes (bm_limits m)) \<and>
     (\<forall>owner. owner \<noteq> PINNED_MAP_OWNER \<longrightarrow> owner_maps m owner \<le> max_owner_maps (bm_limits m) \<and>
        owner_map_bytes m owner \<le> max_owner_map_bytes (bm_limits m))"

text \<open>A program refers to maps that are there.\<close>

definition refs_inv :: "manager \<Rightarrow> bool" where
  "refs_inv m \<longleftrightarrow> (\<forall>p slot r. Some p \<in> set (bm_programs m) \<longrightarrow> slot < length (pe_maps p) \<longrightarrow> pe_maps p ! slot = Some r \<longrightarrow>
     slot < length (bm_maps m) \<and> bm_maps m ! slot \<noteq> None \<and> bm_map_generations m ! slot = pmr_generation r)"

definition pins_inv :: "manager \<Rightarrow> bool" where
  "pins_inv m \<longleftrightarrow> (\<forall>pin\<in>set (bm_pinned_maps m). map_entry_at m (pin_map_id pin) \<noteq> None) \<and> distinct (map pin_path (bm_pinned_maps m))"

definition attach_inv :: "manager \<Rightarrow> bool" where
  "attach_inv m \<longleftrightarrow> (\<forall>t ps. bm_attachments m t = Some ps \<longrightarrow> is_supported_attach_type t \<and> distinct ps \<and>
     length ps \<le> HOOK_FANOUT_LIMIT \<and> (\<forall>p\<in>set ps. program_entry_at m p \<noteq> None))"

definition routes_inv :: "manager \<Rightarrow> bool" where
  "routes_inv m \<longleftrightarrow> (\<forall>c n f. matching_count (bm_gpio_routes m) c n f \<le> GPIO_IRQ_FANOUT_LIMIT) \<and>
     (\<forall>c n e p. route_contains (bm_gpio_routes m) c n e p \<longrightarrow> p \<in> set (attached_to m ATTACH_TYPE_GPIO))"

text \<open>The snapshot that belongs to a table of attachments and a table of routes.\<close>

definition snapshot_view :: "attachment_table \<Rightarrow> gpio_routes \<Rightarrow> hook_snapshot" where
  "snapshot_view t routes =
     \<lparr>snap_generic = map (\<lambda>i. case t (of_nat i) of None \<Rightarrow> [] | Some ps \<Rightarrow> ps) [0..<GENERIC_HOOK_SLOTS],
      snap_gpio = map (\<lambda>(pin, edge_flags). programs_for routes 0 (of_nat pin) (edge_from_flags edge_flags)) gpio_slots\<rparr>"

definition snap_inv :: "manager \<Rightarrow> bool" where
  "snap_inv m \<longleftrightarrow> (case bm_snapshot m of
     None \<Rightarrow> (\<forall>t. attached_to m t = [])
   | Some s \<Rightarrow> s = snapshot_view (bm_attachments m) (bm_gpio_routes m))"

definition ledger_inv :: "profile \<Rightarrow> manager \<Rightarrow> bool" where
  "ledger_inv P m \<longleftrightarrow> budget_ns_per_s (bm_admission m) = UTILIZATION_BUDGET_NS_PER_S P \<and>
     (UTILIZATION_BUDGET_NS_PER_S P < u64_MAX \<longrightarrow> ledger_wf (bm_admission m) \<and> in_sync (bm_attachments m) (bm_admission m))"

definition manager_inv :: "profile \<Rightarrow> manager \<Rightarrow> bool" where
  "manager_inv P m \<longleftrightarrow> tables_inv P m \<and> usage_inv m \<and> quota_inv m \<and> refs_inv m \<and> pins_inv m \<and> attach_inv m \<and>
     routes_inv m \<and> snap_inv m \<and> ledger_inv P m"

lemmas owner_defs = owner_programs_def owner_program_bytes_def owner_maps_def owner_map_bytes_def

text \<open>Which fields the parts of the invariant about hooks read.\<close>

definition hooks_inv :: "profile \<Rightarrow> manager \<Rightarrow> bool" where
  "hooks_inv P m \<longleftrightarrow> attach_inv m \<and> routes_inv m \<and> snap_inv m \<and> ledger_inv P m"

lemma attached_frame: "bm_attachments m' = bm_attachments m \<Longrightarrow> attached_to m' = attached_to m"
  by (simp add: attached_to_def fun_eq_iff)

lemma hooks_frame:
  assumes "bm_attachments m' = bm_attachments m" "bm_gpio_routes m' = bm_gpio_routes m" "bm_snapshot m' = bm_snapshot m"
    "bm_admission m' = bm_admission m" "bm_programs m' = bm_programs m" "bm_program_generations m' = bm_program_generations m"
  shows "hooks_inv P m' = hooks_inv P m"
  unfolding hooks_inv_def attach_inv_def routes_inv_def snap_inv_def ledger_inv_def program_entry_at_def attached_frame [OF assms(1)] assms ..

lemma manager_inv_hooks:
  "manager_inv P m \<longleftrightarrow> tables_inv P m \<and> usage_inv m \<and> quota_inv m \<and> refs_inv m \<and> pins_inv m \<and> hooks_inv P m"
  by (simp add: manager_inv_def hooks_inv_def)

section \<open>Publishing\<close>

lemma supported_slot: "is_supported_attach_type t \<Longrightarrow> unat t < GENERIC_HOOK_SLOTS"
  by (auto simp: is_supported_attach_type_def attach_type_defs GENERIC_HOOK_SLOTS_def)

lemma push_loaded_all:
  "\<forall>p\<in>set ps. program_entry_at m p \<noteq> None \<Longrightarrow> length acc + length ps \<le> n \<Longrightarrow> push_loaded n m ps acc = Some (acc @ ps)"
  by (induction ps arbitrary: acc) (auto simp: hook_list_push_def)

lemma those_map_Some: "(\<And>x. x \<in> set xs \<Longrightarrow> f x = Some (g x)) \<Longrightarrow> those (map f xs) = Some (map g xs)"
  by (induction xs) auto

lemma attached_loaded: "attach_inv m \<Longrightarrow> p \<in> set (attached_to m t) \<Longrightarrow> program_entry_at m p \<noteq> None"
  by (cases "bm_attachments m t") (auto simp: attach_inv_def attached_to_def)

lemma attach_inv_keep:
  assumes "attach_inv m" "bm_attachments m' = bm_attachments m" "\<And>p t. p \<in> set (attached_to m t) \<Longrightarrow> program_entry_at m' p \<noteq> None"
  shows "attach_inv m'"
  unfolding attach_inv_def assms(2)
proof (intro allI impI conjI ballI)
  fix t ps p
  assume t: "bm_attachments m t = Some ps"
  then show "is_supported_attach_type t" "distinct ps" "length ps \<le> HOOK_FANOUT_LIMIT" using assms(1) by (auto simp: attach_inv_def)
  assume "p \<in> set ps"
  then show "program_entry_at m' p \<noteq> None" using assms(3) [of p t] t by (simp add: attached_to_def)
qed

lemma hooks_keep:
  assumes "hooks_inv P m" "bm_attachments m' = bm_attachments m" "bm_gpio_routes m' = bm_gpio_routes m" "bm_snapshot m' = bm_snapshot m"
    "bm_admission m' = bm_admission m" "\<And>p t. p \<in> set (attached_to m t) \<Longrightarrow> program_entry_at m' p \<noteq> None"
  shows "hooks_inv P m'"
proof -
  have "attach_inv m'" using attach_inv_keep [OF _ assms(2,6)] assms(1) by (simp add: hooks_inv_def)
  then show ?thesis using assms(1)
    unfolding hooks_inv_def routes_inv_def snap_inv_def ledger_inv_def attached_frame [OF assms(2)] assms(2-5) by blast
qed

lemma hook_snapshot_exact:
  assumes "attach_inv m" "routes_inv m"
  shows "hook_snapshot_of m = Some (snapshot_view (bm_attachments m) (bm_gpio_routes m))"
proof -
  have no: "\<not> (\<exists>t. unat t \<ge> GENERIC_HOOK_SLOTS \<and> bm_attachments m t \<noteq> None)"
    using assms(1) supported_slot by (fastforce simp: attach_inv_def)
  have len: "length (attached_to m t) \<le> HOOK_FANOUT_LIMIT" for t
    using assms(1) by (auto simp: attach_inv_def attached_to_def split: option.splits)
  have "push_loaded HOOK_FANOUT_LIMIT m (attached_to m t) [] = Some (attached_to m t)" for t
    using push_loaded_all [of "attached_to m t" m "[]" HOOK_FANOUT_LIMIT] attached_loaded [OF assms(1)] len [of t] by auto
  then have g: "those (map (\<lambda>i. push_loaded HOOK_FANOUT_LIMIT m (attached_to m (of_nat i)) []) [0..<GENERIC_HOOK_SLOTS]) =
      Some (map (\<lambda>i. attached_to m (of_nat i)) [0..<GENERIC_HOOK_SLOTS])"
    by (intro those_map_Some) simp
  have "push_loaded GPIO_IRQ_FANOUT_LIMIT m (programs_for (bm_gpio_routes m) c n f) [] = Some (programs_for (bm_gpio_routes m) c n f)" for c n f
  proof -
    have "\<forall>p\<in>set (programs_for (bm_gpio_routes m) c n f). program_entry_at m p \<noteq> None"
      using assms(2) attached_loaded [OF assms(1)] programs_for_iff unfolding routes_inv_def by metis
    moreover have "length (programs_for (bm_gpio_routes m) c n f) \<le> GPIO_IRQ_FANOUT_LIMIT"
      using assms(2) by (simp add: programs_for_length routes_inv_def)
    ultimately show ?thesis using push_loaded_all [of _ m "[]"] by simp
  qed
  then have r: "those (map (\<lambda>(pin, edge_flags). push_loaded GPIO_IRQ_FANOUT_LIMIT m
        (programs_for (bm_gpio_routes m) 0 (of_nat pin) (edge_from_flags edge_flags)) []) gpio_slots) =
      Some (map (\<lambda>(pin, edge_flags). programs_for (bm_gpio_routes m) 0 (of_nat pin) (edge_from_flags edge_flags)) gpio_slots)"
    by (intro those_map_Some) (auto split: prod.split)
  show ?thesis using no g r by (simp add: hook_snapshot_of_def snapshot_view_def attached_to_def)
qed

lemma publish_inv:
  assumes "tables_inv P m" "usage_inv m" "quota_inv m" "refs_inv m" "pins_inv m" "attach_inv m" "routes_inv m" "ledger_inv P m"
  shows "\<exists>m'. publish_hook_snapshot m = Some m' \<and> manager_inv P m' \<and>
     m' = m\<lparr>bm_snapshot := Some (snapshot_view (bm_attachments m) (bm_gpio_routes m))\<rparr>"
proof -
  let ?m = "m\<lparr>bm_snapshot := Some (snapshot_view (bm_attachments m) (bm_gpio_routes m))\<rparr>"
  have "publish_hook_snapshot m = Some ?m" using hook_snapshot_exact [OF assms(6,7)] by (simp add: publish_hook_snapshot_def)
  moreover have "manager_inv P ?m"
    using assms by (simp add: manager_inv_def tables_inv_def usage_inv_def quota_inv_def refs_inv_def pins_inv_def attach_inv_def
        routes_inv_def snap_inv_def ledger_inv_def owner_defs map_entry_at_def program_entry_at_def attached_to_def)
  ultimately show ?thesis by blast
qed

section \<open>Changes of map entries in place\<close>

text \<open>Entries keep their charge, and their owner unless they are handed over to the pins.\<close>

definition same_entry :: "map_entry \<Rightarrow> map_entry \<Rightarrow> bool" where
  "same_entry e e' \<longleftrightarrow> me_charged_bytes e' = me_charged_bytes e \<and> (me_owner e' = me_owner e \<or> me_owner e' = PINNED_MAP_OWNER)"

definition tweaked :: "profile \<Rightarrow> manager \<Rightarrow> map_entry option list \<Rightarrow> bool" where
  "tweaked P m xs \<longleftrightarrow> list_all2 (rel_option same_entry) (bm_maps m) xs \<and>
     (\<forall>slot e. slot < length xs \<longrightarrow> xs ! slot = Some e \<longrightarrow> map_entry_ok P slot e)"

lemma tally_rel:
  assumes "list_all2 (rel_option R) xs ys" "\<And>e e'. R e e' \<Longrightarrow> f e' \<le> f e"
  shows "tally f ys \<le> tally f xs"
  using assms(1)
proof (induction rule: list_all2_induct)
  case (Cons x xs y ys)
  then show ?case using assms(2) by (cases x; cases y) (auto intro!: add_mono)
qed simp

lemma tally_rel_eq:
  assumes "list_all2 (rel_option R) xs ys" "\<And>e e'. R e e' \<Longrightarrow> f e' = f e"
  shows "tally f ys = tally f xs"
  using assms(1) by (induction rule: list_all2_induct) (auto simp: tally_def assms(2) elim!: option.rel_cases)

lemma tweaked_entry:
  assumes "tweaked P m xs"
  shows "length xs = length (bm_maps m)" "slot < length (bm_maps m) \<Longrightarrow> xs ! slot = None \<longleftrightarrow> bm_maps m ! slot = None"
  using assms by (auto simp: tweaked_def list_all2_lengthD list_all2_nthD dest: list_all2_lengthD list_all2_nthD elim!: option.rel_cases)

lemma tweak_inv:
  assumes inv: "manager_inv P m" and tw: "tweaked P m xs"
  shows "manager_inv P (m\<lparr>bm_maps := xs\<rparr>)"
proof -
  note len = tweaked_entry(1) [OF tw] and none = tweaked_entry(2) [OF tw]
  have rel: "list_all2 (rel_option same_entry) (bm_maps m) xs" using tw by (simp add: tweaked_def)
  have tabs: "tables_inv P m" and us: "usage_inv m" and qu: "quota_inv m" and re: "refs_inv m" and pi: "pins_inv m"
    using inv by (simp_all add: manager_inv_def)
  have okm: "slot_table_ok (map_table m)" and okx: "slot_table_ok (xs, bm_map_generations m)"
    using tabs len by (simp_all add: tables_inv_def slot_table_ok_def)
  have "tables_inv P (m\<lparr>bm_maps := xs\<rparr>)"
    using tabs tw len none [of 0] okx by (auto simp: tables_inv_def tweaked_def)
  moreover have "usage_inv (m\<lparr>bm_maps := xs\<rparr>)"
    using us tally_rel_eq [OF rel, of me_charged_bytes] tally_rel_eq [OF rel, of "\<lambda>e. if me_charged_bytes e \<noteq> 0 then 1 else 0"]
    by (simp add: usage_inv_def same_entry_def)
  moreover have "quota_inv (m\<lparr>bm_maps := xs\<rparr>)"
  proof -
    have "owner_maps (m\<lparr>bm_maps := xs\<rparr>) owner \<le> owner_maps m owner"
        "owner_map_bytes (m\<lparr>bm_maps := xs\<rparr>) owner \<le> owner_map_bytes m owner" if "owner \<noteq> PINNED_MAP_OWNER" for owner
      using that by (auto simp: owner_defs same_entry_def intro!: tally_rel [OF rel])
    then show ?thesis using qu by (force simp: quota_inv_def owner_programs_def owner_program_bytes_def intro: order_trans)
  qed
  moreover have "refs_inv (m\<lparr>bm_maps := xs\<rparr>)" using re none len by (simp add: refs_inv_def)
  moreover have "pins_inv (m\<lparr>bm_maps := xs\<rparr>)"
  proof -
    have "entry_at (xs, bm_map_generations m) h = None \<longleftrightarrow> entry_at (map_table m) h = None" for h
      using len none by (simp add: entry_at_conv [OF okx] entry_at_conv [OF okm])
    then show ?thesis using pi by (simp add: pins_inv_def map_entry_at_def)
  qed
  moreover have "hooks_inv P (m\<lparr>bm_maps := xs\<rparr>)" using inv hooks_frame [of "m\<lparr>bm_maps := xs\<rparr>" m P] by (simp add: manager_inv_hooks)
  ultimately show ?thesis by (simp add: manager_inv_hooks)
qed

lemma tweak_one:
  assumes inv: "manager_inv P m" and at: "slot < length (bm_maps m)" "bm_maps m ! slot = Some e"
    and e': "same_entry e e'" "map_entry_ok P slot e'"
  shows "tweaked P m ((bm_maps m)[slot := Some e'])"
proof -
  have "list_all2 (rel_option same_entry) (bm_maps m) ((bm_maps m)[slot := Some e'])"
    using at e'(1) by (auto simp: list_all2_conv_all_nth nth_list_update same_entry_def intro: option.rel_refl)
  moreover have "map_entry_ok P s x" if "s < length (bm_maps m)" "(bm_maps m)[slot := Some e'] ! s = Some x" for s x
    using that at e'(2) inv by (auto simp: manager_inv_def tables_inv_def nth_list_update split: if_splits)
  ultimately show ?thesis by (simp add: tweaked_def)
qed

lemma same_entry_refl [simp]: "same_entry e e" by (simp add: same_entry_def)

section \<open>Removing a map\<close>

lemma take_map_inv:
  assumes inv: "manager_inv P m" and at: "slot < length (bm_maps m)" "bm_maps m ! slot = Some e" "slot \<noteq> 0"
    and free: "\<not> map_pinned m (encode_handle slot (bm_map_generations m ! slot))" "\<not> map_shared m slot"
  shows "manager_inv P (take_map m slot)"
proof -
  let ?m = "m\<lparr>bm_maps := (bm_maps m)[slot := None], bm_live_maps := bm_live_maps m - 1, bm_map_bytes := bm_map_bytes m - me_charged_bytes e\<rparr>"
  have tm: "take_map m slot = ?m" using at by (simp add: take_map_def)
  have tabs: "tables_inv P m" and us: "usage_inv m" and qu: "quota_inv m" and re: "refs_inv m" and pi: "pins_inv m"
    using inv by (simp_all add: manager_inv_def)
  have eok: "map_entry_ok P slot e" using tabs at by (simp add: tables_inv_def)
  then have ch: "0 < me_charged_bytes e" using at(3) by (simp add: map_entry_ok_def)
  have okm: "slot_table_ok (map_table m)" using tabs by (simp add: tables_inv_def)
  then have okx: "slot_table_ok ((bm_maps m)[slot := None], bm_map_generations m)" by (simp add: slot_table_ok_def)
  have t: "tally f ((bm_maps m)[slot := None]) + f e = tally f (bm_maps m)" for f
    using tally_update [OF at(1), of f None] at(2) by simp
  have "map_entry_ok P s x" if "s < length (bm_maps m)" "(bm_maps m)[slot := None] ! s = Some x" for s x
    using that tabs by (cases "s = slot") (auto simp: tables_inv_def)
  then have "tables_inv P ?m" using tabs okx at(3) by (simp add: tables_inv_def)
  moreover have "usage_inv ?m"
    using us ch t [of me_charged_bytes, symmetric] t [of "\<lambda>e. if me_charged_bytes e \<noteq> 0 then 1 else 0", symmetric]
    by (simp add: usage_inv_def)
  moreover have "quota_inv ?m"
  proof -
    have le: "tally f ((bm_maps m)[slot := None]) \<le> tally f (bm_maps m)" for f using t [of f] by simp
    show ?thesis using qu by (force simp: quota_inv_def owner_defs intro: order_trans [OF le])
  qed
  moreover have "refs_inv ?m"
  proof -
    have "s \<noteq> slot" if "Some p \<in> set (bm_programs m)" "s < length (pe_maps p)" "pe_maps p ! s = Some r" for p s r
    proof
      assume "s = slot"
      then have "refers_to p slot (bm_map_generations m ! slot)" using that re by (auto simp: refers_to_def refs_inv_def)
      then show False using free(2) that(1) by (auto simp: map_shared_def split: option.splits)
    qed
    then have "(bm_maps m)[slot := None] ! s = bm_maps m ! s" if "Some p \<in> set (bm_programs m)" "s < length (pe_maps p)" "pe_maps p ! s = Some r" for p s r
      using that by (metis nth_list_update_neq)
    then show ?thesis using re by (simp add: refs_inv_def)
  qed
  moreover have "pins_inv ?m"
  proof -
    have "entry_at ((bm_maps m)[slot := None], bm_map_generations m) (pin_map_id pin) \<noteq> None" if pin: "pin \<in> set (bm_pinned_maps m)" for pin
    proof -
      have live: "entry_at (map_table m) (pin_map_id pin) \<noteq> None" using pi pin by (simp add: pins_inv_def map_entry_at_def)
      have "handle_slot (pin_map_id pin) \<noteq> slot"
      proof
        assume "handle_slot (pin_map_id pin) = slot"
        then have "pin_map_id pin = encode_handle slot (bm_map_generations m ! slot)" using encode_of_live [OF okm live] by simp
        then show False using free(1) pin by (auto simp: map_pinned_def)
      qed
      then show ?thesis using live unfolding entry_at_conv [OF okx] entry_at_conv [OF okm] by (auto split: if_splits)
    qed
    then show ?thesis using pi by (simp add: pins_inv_def map_entry_at_def)
  qed
  moreover have "hooks_inv P ?m" using inv hooks_frame [of ?m m P] by (simp add: manager_inv_hooks)
  ultimately show ?thesis unfolding tm by (simp add: manager_inv_hooks)
qed

section \<open>Programs\<close>

text \<open>Removing a program that no hook runs.\<close>

lemma take_program_inv:
  assumes inv: "manager_inv P m" and at: "slot < length (bm_programs m)" "bm_programs m ! slot = Some e"
    and free: "\<And>t. encode_handle slot (bm_program_generations m ! slot) \<notin> set (attached_to m t)"
  shows "manager_inv P (take_program m slot)"
proof -
  let ?m = "m\<lparr>bm_programs := (bm_programs m)[slot := None], bm_live_programs := bm_live_programs m - 1,
     bm_program_bytes := bm_program_bytes m - pe_charged_bytes e\<rparr>"
  have tm: "take_program m slot = ?m" using at by (simp add: take_program_def)
  have tabs: "tables_inv P m" and us: "usage_inv m" and qu: "quota_inv m" and re: "refs_inv m" and pi: "pins_inv m" and ho: "hooks_inv P m"
    using inv by (simp_all add: manager_inv_hooks)
  have okp: "slot_table_ok (program_table m)" using tabs by (simp add: tables_inv_def)
  then have okx: "slot_table_ok ((bm_programs m)[slot := None], bm_program_generations m)" by (simp add: slot_table_ok_def)
  have t: "tally f ((bm_programs m)[slot := None]) + f e = tally f (bm_programs m)" for f
    using tally_update [OF at(1), of f None] at(2) by simp
  have "tables_inv P ?m" using tabs okx by (simp add: tables_inv_def)
  moreover have "usage_inv ?m"
    using us t [of pe_charged_bytes, symmetric] t [of "\<lambda>_. 1", symmetric] by (simp add: usage_inv_def)
  moreover have "quota_inv ?m"
  proof -
    have le: "tally f ((bm_programs m)[slot := None]) \<le> tally f (bm_programs m)" for f using t [of f] by simp
    show ?thesis using qu by (force simp: quota_inv_def owner_defs intro: order_trans [OF le])
  qed
  moreover have "refs_inv ?m" using re set_update_subset_insert [of "bm_programs m" slot None] by (auto simp: refs_inv_def)
  moreover have "pins_inv ?m" using pi by (simp add: pins_inv_def map_entry_at_def)
  moreover have "hooks_inv P ?m"
  proof -
    have "entry_at ((bm_programs m)[slot := None], bm_program_generations m) p \<noteq> None" if p: "p \<in> set (attached_to m t)" for p t
    proof -
      have live: "entry_at (program_table m) p \<noteq> None" using attached_loaded [OF _ p] ho by (simp add: hooks_inv_def program_entry_at_def)
      have "handle_slot p \<noteq> slot"
      proof
        assume "handle_slot p = slot"
        then have "p = encode_handle slot (bm_program_generations m ! slot)" using encode_of_live [OF okp live] by simp
        then show False using free p by blast
      qed
      then show ?thesis using live unfolding entry_at_conv [OF okx] entry_at_conv [OF okp] by (auto split: if_splits)
    qed
    then show ?thesis using hooks_keep [OF ho, of ?m] by (simp add: program_entry_at_def)
  qed
  ultimately show ?thesis unfolding tm by (simp add: manager_inv_hooks)
qed

text \<open>What the quota check allows.\<close>

lemma program_quota:
  assumes "ensure_program_quota m owner charge = Inr u"
  shows "bm_live_programs m < max_live_programs (bm_limits m) \<and> bm_program_bytes m + charge \<le> max_program_bytes (bm_limits m) \<and>
     bm_program_bytes m + charge \<le> usize_MAX \<and>
     owner_programs m owner < max_owner_programs (bm_limits m) \<and> owner_program_bytes m owner + charge \<le> max_owner_program_bytes (bm_limits m)"
proof -
  obtain n b where u: "owner_usage (program_charges m owner) = Some (n, b)" "n < max_owner_programs (bm_limits m)"
      "b + charge \<le> max_owner_program_bytes (bm_limits m)"
    and r: "bm_live_programs m < max_live_programs (bm_limits m)" "bm_program_bytes m + charge \<le> max_program_bytes (bm_limits m)"
      "bm_program_bytes m + charge \<le> usize_MAX"
    using assms by (auto simp: ensure_program_quota_def checked_add_usize_def Let_def split: if_splits option.splits)
  have "n = owner_programs m owner" "b = owner_program_bytes m owner"
    using owner_usage_sums [OF u(1)]
    by (simp_all add: owner_programs_def owner_program_bytes_def program_charges_def tally_filter)
  then show ?thesis using u r by simp
qed

lemma map_quota:
  assumes "map_allocation_charge m owner ty ks vs n = Inr charge"
  shows "bm_live_maps m < max_live_maps (bm_limits m) \<and> bm_map_bytes m + charge \<le> max_map_bytes (bm_limits m) \<and>
     bm_map_bytes m + charge \<le> usize_MAX \<and>
     owner_maps m owner < max_owner_maps (bm_limits m) \<and> owner_map_bytes m owner + charge \<le> max_owner_map_bytes (bm_limits m) \<and> 0 < charge"
proof -
  obtain k b where u: "owner_usage (map_charges m owner) = Some (k, b)" "k < max_owner_maps (bm_limits m)"
      "b + charge \<le> max_owner_map_bytes (bm_limits m)"
    and r: "bm_live_maps m < max_live_maps (bm_limits m)" "bm_map_bytes m + charge \<le> max_map_bytes (bm_limits m)"
      "bm_map_bytes m + charge \<le> usize_MAX"
    and sh: "map_shape_charge ty ks vs n = Inr (Some charge)" "n \<noteq> 0"
    using assms by (auto simp: map_allocation_charge_def checked_add_usize_def Let_def split: if_splits option.splits sum.splits)
  have "k = owner_maps m owner" "b = owner_map_bytes m owner"
    using owner_usage_sums [OF u(1)]
    by (simp_all add: owner_maps_def owner_map_bytes_def map_charges_def tally_filter)
  moreover have "0 < charge"
    using sh by (auto simp: map_shape_charge_def hash_allocation_size_def array_allocation_size_def ts_allocation_size_def TS_HEADER_def
        checked_add_usize_def checked_mul_usize_def unat_gt_0 bind_eq_Some_conv split: if_splits)
  ultimately show ?thesis using u r by simp
qed

text \<open>The view of the maps that a program gets names maps that are there.\<close>

lemma link_program_maps_live:
  assumes "link_program_maps m perms hs maps = Inr maps'" "slot_table_ok (map_table m)" "length maps = length (bm_maps m)"
    and "\<And>slot r. slot < length maps \<Longrightarrow> maps ! slot = Some r \<Longrightarrow> bm_maps m ! slot \<noteq> None \<and> bm_map_generations m ! slot = pmr_generation r"
  shows "length maps' = length (bm_maps m) \<and>
     (\<forall>slot r. slot < length maps' \<longrightarrow> maps' ! slot = Some r \<longrightarrow> bm_maps m ! slot \<noteq> None \<and> bm_map_generations m ! slot = pmr_generation r)"
  using assms(1,3,4)
proof (induction hs arbitrary: maps)
  case (Cons h hs)
  let ?r = "\<lambda>slot. \<lparr>pmr_generation = bm_map_generations m ! slot, pmr_perm = perms ! slot\<rparr>"
  obtain slot where slot: "map_slot m h = Some slot" and l: "link_program_maps m perms hs (maps[slot := Some (?r slot)]) = Inr maps'"
    using Cons.prems(1) by (auto split: option.splits if_splits)
  have live: "bm_maps m ! slot \<noteq> None" using slot by (auto simp: map_slot_def entry_slot_def split: option.splits if_splits)
  show ?case
  proof (rule Cons.IH [OF l])
    fix s r
    assume "s < length (maps[slot := Some (?r slot)])" "maps[slot := Some (?r slot)] ! s = Some r"
    then show "bm_maps m ! s \<noteq> None \<and> bm_map_generations m ! s = pmr_generation r"
      using Cons.prems(3) [of s r] live by (cases "s = slot") auto
  qed (use Cons.prems(2) in simp)
qed simp

end
