(* ===== verification/Manager_Preserve.thy ===== *)
theory Manager_Preserve
  imports Manager_Invariant
begin

text \<open>
  Every operation of the BPF manager keeps the invariant and panics on no state that has it. Handles that
  were given out are never given out again, and no operation but the creation of a map and the opening of
  a pin gives an owner access to a map.
\<close>

section \<open>What an operation may change\<close>

definition entry_grants :: "map_entry \<Rightarrow> u64 \<Rightarrow> map_access \<Rightarrow> bool" where
  "entry_grants e owner a \<longleftrightarrow> (case entry_access_for e owner of None \<Rightarrow> False | Some access \<Rightarrow> access_contains access a)"

definition may_access :: "manager \<Rightarrow> u64 \<Rightarrow> u32 \<Rightarrow> map_access \<Rightarrow> bool" where
  "may_access m owner h a \<longleftrightarrow> (\<exists>e. map_entry_at m h = Some e \<and> me_charged_bytes e \<noteq> 0 \<and> entry_grants e owner a)"

text \<open>Handles given out stay given out, and one whose object is gone stays dead.\<close>

definition handles_kept :: "'a slot_table \<Rightarrow> 'a slot_table \<Rightarrow> bool" where
  "handles_kept t t' \<longleftrightarrow> issued t \<subseteq> issued t' \<and> (\<forall>h\<in>issued t. entry_at t h = None \<longrightarrow> entry_at t' h = None)"

definition handles_mono :: "manager \<Rightarrow> manager \<Rightarrow> bool" where
  "handles_mono m m' \<longleftrightarrow> handles_kept (program_table m) (program_table m') \<and> handles_kept (map_table m) (map_table m')"

definition access_mono :: "manager \<Rightarrow> manager \<Rightarrow> bool" where
  "access_mono m m' \<longleftrightarrow> (\<forall>owner h. \<forall>a\<in>{ACCESS_READ, ACCESS_WRITE}.
     owner \<noteq> PINNED_MAP_OWNER \<longrightarrow> may_access m' owner h a \<longrightarrow> may_access m owner h a)"

lemma handles_kept_refl [simp]: "handles_kept t t" by (simp add: handles_kept_def)

lemma handles_kept_trans: "handles_kept t u \<Longrightarrow> handles_kept u v \<Longrightarrow> handles_kept t v"
  unfolding handles_kept_def by blast

lemma handles_mono_trans: "handles_mono m n \<Longrightarrow> handles_mono n k \<Longrightarrow> handles_mono m k"
  unfolding handles_mono_def by (elim conjE) (intro conjI; erule handles_kept_trans; assumption)

lemma access_mono_trans: "access_mono m n \<Longrightarrow> access_mono n k \<Longrightarrow> access_mono m k"
  unfolding access_mono_def by blast

definition follows_from :: "profile \<Rightarrow> manager \<Rightarrow> manager \<Rightarrow> bool" where
  "follows_from P m m' \<longleftrightarrow> manager_inv P m' \<and> handles_mono m m' \<and> access_mono m m'"

lemma follows_refl: "manager_inv P m \<Longrightarrow> follows_from P m m"
  by (simp add: follows_from_def handles_mono_def access_mono_def)

lemma follows_trans: "follows_from P m n \<Longrightarrow> follows_from P n k \<Longrightarrow> follows_from P m k"
  unfolding follows_from_def using handles_mono_trans access_mono_trans by blast

lemma follows_foldl:
  assumes "manager_inv P m" "\<And>n x. x \<in> set xs \<Longrightarrow> manager_inv P n \<Longrightarrow> J n \<Longrightarrow> follows_from P n (f n x) \<and> J (f n x)" "J m"
  shows "follows_from P m (foldl f m xs) \<and> J (foldl f m xs)"
  using assms
proof (induction xs arbitrary: m)
  case Nil
  then show ?case by (simp add: follows_refl)
next
  case (Cons x xs)
  have s: "follows_from P m (f m x)" "J (f m x)" using Cons.prems(2) [of x m] Cons.prems(1,3) by auto
  then have "manager_inv P (f m x)" by (simp add: follows_from_def)
  then have "follows_from P (f m x) (foldl f (f m x) xs) \<and> J (foldl f (f m x) xs)"
  proof (rule Cons.IH)
    fix n y
    assume "y \<in> set xs" "manager_inv P n" "J n"
    then show "follows_from P n (f n y) \<and> J (f n y)" by (intro Cons.prems(2)) simp_all
  qed (rule s(2))
  then show ?case using follows_trans [OF s(1)] by auto
qed

text \<open>Changes that leave the tables alone.\<close>

lemma tables_frame:
  assumes "program_table m' = program_table m" "map_table m' = map_table m"
  shows "handles_mono m m'" "access_mono m m'"
  using assms by (simp_all add: handles_mono_def access_mono_def may_access_def map_entry_at_def)

lemma follows_frame:
  assumes "manager_inv P m'" "program_table m' = program_table m" "map_table m' = map_table m"
  shows "follows_from P m m'"
  using assms(1) tables_frame [OF assms(2,3)] by (simp add: follows_from_def)

lemma handles_kept_clear:
  assumes "slot_table_ok (xs, gens)"
  shows "handles_kept (xs, gens) (xs[slot := None], gens)"
proof -
  have ok: "slot_table_ok (xs[slot := None], gens)" using assms by (simp add: slot_table_ok_def)
  have "xs ! s = None \<Longrightarrow> xs[slot := None] ! s = None" if "s < length xs" for s
    using that by (cases "s = slot") auto
  then show ?thesis unfolding handles_kept_def entry_at_conv [OF ok] entry_at_conv [OF assms] by (auto simp: issued_def)
qed

lemma take_map_follows:
  assumes inv: "manager_inv P m" and at: "slot < length (bm_maps m)" "bm_maps m ! slot = Some e" "slot \<noteq> 0"
    and free: "\<not> map_pinned m (encode_handle slot (bm_map_generations m ! slot))" "\<not> map_shared m slot"
  shows "follows_from P m (take_map m slot)"
proof -
  have ok: "slot_table_ok (map_table m)" using inv by (simp add: manager_inv_def tables_inv_def)
  then have ok': "slot_table_ok ((bm_maps m)[slot := None], bm_map_generations m)" by (simp add: slot_table_ok_def)
  have "handles_mono m (take_map m slot)"
    using handles_kept_clear [OF ok] at(2) by (simp add: handles_mono_def take_map_def)
  moreover have "map_entry_at (take_map m slot) h = Some x \<Longrightarrow> map_entry_at m h = Some x" for h x
    using at by (simp add: take_map_def map_entry_at_def entry_at_conv [OF ok] entry_at_conv [OF ok'] nth_list_update split: if_splits)
  then have "access_mono m (take_map m slot)" unfolding access_mono_def may_access_def by blast
  ultimately show ?thesis using take_map_inv [OF assms] by (simp add: follows_from_def)
qed

lemma take_program_follows:
  assumes inv: "manager_inv P m" and at: "slot < length (bm_programs m)" "bm_programs m ! slot = Some e"
    and free: "\<And>t. encode_handle slot (bm_program_generations m ! slot) \<notin> set (attached_to m t)"
  shows "follows_from P m (take_program m slot)"
proof -
  have ok: "slot_table_ok (program_table m)" using inv by (simp add: manager_inv_def tables_inv_def)
  have "handles_mono m (take_program m slot)"
    using handles_kept_clear [OF ok] at(2) by (simp add: handles_mono_def take_program_def)
  moreover have "access_mono m (take_program m slot)"
    using at by (simp add: take_program_def access_mono_def may_access_def map_entry_at_def)
  ultimately show ?thesis using take_program_inv [OF assms] by (simp add: follows_from_def)
qed

definition no_wider :: "map_entry \<Rightarrow> map_entry \<Rightarrow> bool" where
  "no_wider e e' \<longleftrightarrow> (\<forall>owner. \<forall>a\<in>{ACCESS_READ, ACCESS_WRITE}.
     owner \<noteq> PINNED_MAP_OWNER \<longrightarrow> entry_grants e' owner a \<longrightarrow> entry_grants e owner a)"

lemma no_wider_refl [simp]: "no_wider e e" by (simp add: no_wider_def)

lemma tweak_follows:
  assumes inv: "manager_inv P m" and tw: "tweaked P m xs"
    and acc: "list_all2 (rel_option no_wider) (bm_maps m) xs"
  shows "follows_from P m (m\<lparr>bm_maps := xs\<rparr>)" (is "follows_from P m ?m")
proof -
  note len = tweaked_entry(1) [OF tw] and none = tweaked_entry(2) [OF tw]
  have ok: "slot_table_ok (map_table m)" using inv by (simp add: manager_inv_def tables_inv_def)
  then have ok': "slot_table_ok (xs, bm_map_generations m)" using len by (simp add: slot_table_ok_def)
  have "handles_kept (map_table m) (xs, bm_map_generations m)"
    unfolding handles_kept_def entry_at_conv [OF ok] entry_at_conv [OF ok'] using len none by (auto simp: issued_def)
  then have "handles_mono m ?m" by (simp add: handles_mono_def)
  moreover have "access_mono m ?m"
    unfolding access_mono_def
  proof (intro allI ballI impI)
    fix owner h a
    assume a: "a \<in> {ACCESS_READ, ACCESS_WRITE}" and o: "owner \<noteq> PINNED_MAP_OWNER" and may: "may_access ?m owner h a"
    obtain e' where e': "entry_at (xs, bm_map_generations m) h = Some e'" "me_charged_bytes e' \<noteq> 0" "entry_grants e' owner a"
      using may by (auto simp: may_access_def map_entry_at_def)
    let ?s = "handle_slot h"
    have s: "?s < length xs" "xs ! ?s = Some e'" "bm_map_generations m ! ?s = handle_generation h"
      using e'(1) unfolding entry_at_conv [OF ok'] by (auto split: if_splits)
    then obtain e where e: "bm_maps m ! ?s = Some e" using none [of ?s] len by auto
    have "rel_option same_entry (bm_maps m ! ?s) (xs ! ?s)" using tw s(1) len by (auto simp: tweaked_def list_all2_conv_all_nth)
    then have "me_charged_bytes e \<noteq> 0" using e s(2) e'(2) by (simp add: same_entry_def)
    moreover have "rel_option no_wider (bm_maps m ! ?s) (xs ! ?s)" using acc s(1) len by (simp add: list_all2_conv_all_nth)
    then have "entry_grants e owner a" using e s(2) e'(3) o a by (auto simp: no_wider_def)
    moreover have "map_entry_at m h = Some e" using s e len unfolding map_entry_at_def entry_at_conv [OF ok] by simp
    ultimately show "may_access m owner h a" unfolding may_access_def by blast
  qed
  ultimately show ?thesis using tweak_inv [OF inv tw] by (simp add: follows_from_def)
qed

lemma tweak_one_follows:
  assumes inv: "manager_inv P m" and at: "slot < length (bm_maps m)" "bm_maps m ! slot = Some e"
    and e': "same_entry e e'" "map_entry_ok P slot e'" and acc: "no_wider e e'"
  shows "follows_from P m (m\<lparr>bm_maps := (bm_maps m)[slot := Some e']\<rparr>)"
proof (rule tweak_follows [OF inv tweak_one [OF inv at e']])
  have "rel_option no_wider (bm_maps m ! i) ((bm_maps m)[slot := Some e'] ! i)" if "i < length (bm_maps m)" for i
    using that at acc by (cases "i = slot") (auto intro: option.rel_refl)
  then show "list_all2 (rel_option no_wider) (bm_maps m) ((bm_maps m)[slot := Some e'])"
    by (simp add: list_all2_conv_all_nth)
qed

section \<open>Loading\<close>

lemma tally_bounded: "(\<And>e. f e \<le> 1) \<Longrightarrow> tally f xs \<le> length xs"
proof (induction xs)
  case (Cons x xs)
  then have "tally f xs \<le> length xs" by simp
  then show ?case using Cons.prems [of "the x"] by (cases x) auto
qed simp

lemma live_bounded:
  assumes "manager_inv P m"
  shows "bm_live_programs m < usize_MAX" "bm_live_maps m < usize_MAX"
proof -
  have len: "length (bm_programs m) \<le> 1024" "length (bm_maps m) \<le> 1024"
    using assms by (simp_all add: manager_inv_def tables_inv_def slot_table_ok_def)
  have "tally (\<lambda>_. 1) (bm_programs m) \<le> 1024" by (rule order_trans [OF tally_bounded len(1)]) simp
  moreover have "tally (\<lambda>e. if me_charged_bytes e \<noteq> 0 then 1 else 0) (bm_maps m) \<le> 1024"
    by (rule order_trans [OF tally_bounded len(2)]) simp
  ultimately show "bm_live_programs m < usize_MAX" "bm_live_maps m < usize_MAX"
    using assms by (simp_all add: manager_inv_def usage_inv_def usize_MAX_def)
qed

lemma insert_kept:
  assumes "slot_table_ok t" "insert_with_reservations rs rg t max_slots x = Some (Inr h, t')"
  shows "slot_table_ok t'" "handles_kept t t'" "entry_at t' = (entry_at t)(h \<mapsto> x)" "h \<notin> issued t" "entry_at t h = None"
    "set (fst t') \<subseteq> insert (Some x) (set (fst t))"
proof -
  note i = insert_handle [OF assms(1), of rs rg max_slots x, unfolded assms(2)]
  show "slot_table_ok t'" and e: "entry_at t' = (entry_at t)(h \<mapsto> x)" and n: "h \<notin> issued t" using i by auto
  show "entry_at t h = None" using entry_at_issued [OF assms(1), of h] n by blast
  show "handles_kept t t'" unfolding handles_kept_def e using i n by auto
  show "set (fst t') \<subseteq> insert (Some x) (set (fst t))"
    using insert_shape [OF assms(2)] by (auto dest!: set_update_subset_insert [THEN subsetD])
qed

lemma insert_program_follows:
  assumes inv: "manager_inv P m" and quota: "ensure_program_quota m owner charge = Inr u"
    and maps: "program_maps_for_owner env m owner acc hs = Inr (pe_maps p)"
    and ins: "insert_with_reservations rs rg (program_table m) n p = Some (Inr h, xs, gens)"
    and p: "pe_charged_bytes p = charge" "pe_owner p = owner"
  shows "follows_from P m (m\<lparr>bm_programs := xs, bm_program_generations := gens, bm_live_programs := bm_live_programs m + 1,
     bm_program_bytes := bm_program_bytes m + charge\<rparr>)" (is "follows_from P m ?m")
proof -
  have tabs: "tables_inv P m" and us: "usage_inv m" and qu: "quota_inv m" and re: "refs_inv m" and pi: "pins_inv m" and ho: "hooks_inv P m"
    using inv by (simp_all add: manager_inv_hooks)
  have ok: "slot_table_ok (program_table m)" and okm: "slot_table_ok (map_table m)" using tabs by (simp_all add: tables_inv_def)
  note k = insert_kept [OF ok ins] and t = insert_tally [OF ins, simplified] and q = program_quota [OF quota]
  have "tables_inv P ?m" using tabs k(1) by (simp add: tables_inv_def)
  moreover have "usage_inv ?m" using us t p by (simp add: usage_inv_def)
  moreover have "quota_inv ?m"
  proof -
    have "owner_programs ?m o' \<le> max_owner_programs (bm_limits m) \<and> owner_program_bytes ?m o' \<le> max_owner_program_bytes (bm_limits m)" for o'
      using q qu p by (cases "o' = owner") (auto simp: owner_programs_def owner_program_bytes_def quota_inv_def t)
    then show ?thesis using qu q by (simp add: quota_inv_def owner_maps_def owner_map_bytes_def)
  qed
  moreover have "refs_inv ?m"
  proof -
    have l: "link_program_maps m (fst (snd (map_metadata_for_owner m owner acc))) hs (replicate (length (bm_maps m)) None) = Inr (pe_maps p)"
      using maps by (auto simp: program_maps_for_owner_def split: prod.splits if_splits)
    have "length (pe_maps p) = length (bm_maps m) \<and> (\<forall>slot r. slot < length (pe_maps p) \<longrightarrow> pe_maps p ! slot = Some r \<longrightarrow>
        bm_maps m ! slot \<noteq> None \<and> bm_map_generations m ! slot = pmr_generation r)"
      by (rule link_program_maps_live [OF l okm]) simp_all
    then show ?thesis using k(6) re by (auto simp: refs_inv_def)
  qed
  moreover have "pins_inv ?m" using pi by (simp add: pins_inv_def map_entry_at_def)
  moreover have "hooks_inv P ?m"
  proof (rule hooks_keep [OF ho])
    fix q t
    assume "q \<in> set (attached_to m t)"
    then have "program_entry_at m q \<noteq> None" using attached_loaded ho unfolding hooks_inv_def by blast
    then show "program_entry_at ?m q \<noteq> None" using k(3) by (simp add: program_entry_at_def)
  qed simp_all
  ultimately have "manager_inv P ?m" by (simp add: manager_inv_hooks)
  moreover have "handles_mono m ?m" using k(2) by (simp add: handles_mono_def)
  moreover have "access_mono m ?m" by (simp add: access_mono_def may_access_def map_entry_at_def)
  ultimately show ?thesis by (simp add: follows_from_def)
qed

text \<open>An answer that is not a panic and leaves a state that follows_from.\<close>

definition safe_answer :: "profile \<Rightarrow> manager \<Rightarrow> 'a answer \<Rightarrow> bool" where
  "safe_answer P m ans \<longleftrightarrow> (\<exists>r m'. ans = Some (r, m') \<and> follows_from P m m')"

lemma safe_Some [simp]: "safe_answer P m (Some (r, m')) \<longleftrightarrow> follows_from P m m'"
  by (auto simp: safe_answer_def)

lemma register_program_safe:
  assumes inv: "manager_inv P m"
  shows "safe_answer P m (register_program env m program wcet hs charge owner auth)"
proof (cases "ensure_program_quota m owner charge")
  case (Inl e)
  then show ?thesis using inv by (simp add: register_program_def follows_refl)
next
  case q: (Inr u)
  show ?thesis
  proof (cases "program_maps_for_owner env m owner (la_map_access auth) hs")
    case (Inl e)
    then show ?thesis using q inv by (simp add: register_program_def follows_refl)
  next
    case (Inr maps)
    define p where "p = \<lparr>pe_program = program, pe_maps = maps, pe_wcet_cycles = wcet, pe_charged_bytes = charge, pe_owner = owner, pe_authorization = auth\<rparr>"
    have "slot_table_ok (program_table m)" using inv by (simp add: manager_inv_def tables_inv_def)
    from insert_handle [OF this, of "ke_reserve env ResSlots" "ke_reserve env ResGenerations" "max_program_slots (bm_limits m)" p]
    obtain r xs gens where ins: "insert_with_reservations (ke_reserve env ResSlots) (ke_reserve env ResGenerations) (program_table m)
        (max_program_slots (bm_limits m)) p = Some (r, xs, gens)" by auto
    show ?thesis
    proof (cases r)
      case (Inl e)
      then show ?thesis using q Inr ins inv by (simp add: register_program_def follows_refl p_def [symmetric])
    next
      case h: (Inr h)
      have "checked_add_usize (bm_live_programs m) 1 = Some (bm_live_programs m + 1)" "checked_add_usize (bm_program_bytes m) charge = Some (bm_program_bytes m + charge)"
        using live_bounded(1) [OF inv] program_quota [OF q] by (simp_all add: checked_add_usize_def)
      moreover have "follows_from P m (m\<lparr>bm_programs := xs, bm_program_generations := gens, bm_live_programs := bm_live_programs m + 1,
          bm_program_bytes := bm_program_bytes m + charge\<rparr>)"
        by (rule insert_program_follows [OF inv q _ ins [unfolded h]]) (use Inr in \<open>simp_all add: p_def\<close>)
      ultimately show ?thesis using q Inr ins h by (simp add: register_program_def p_def [symmetric])
    qed
  qed
qed

lemma load_verified_safe:
  assumes "manager_inv P m"
  shows "safe_answer P m (load_verified_raw_program Q env m owner insns auth)"
  using register_program_safe [OF assms] follows_refl [OF assms]
  by (simp add: load_verified_raw_program_def split: option.split sum.split)

lemma load_raw_safe: "manager_inv P m \<Longrightarrow> safe_answer P m (load_raw_program_authorized Q env m owner insns auth)"
  by (simp add: load_raw_program_authorized_def load_verified_safe follows_refl)

lemma load_elf_safe:
  assumes "manager_inv P m"
  shows "safe_answer P m (load_program_authorized authenticate elf_load Q env m owner elf auth)"
  using register_program_safe [OF assms] follows_refl [OF assms]
  by (simp add: load_program_authorized_def split: option.split sum.split list.split)

section \<open>Creating maps\<close>

lemma insert_map_inv:
  assumes inv: "manager_inv P m" and quota: "map_allocation_charge m owner ty ks vs cap = Inr charge"
    and ins: "insert_with_reservations rs rg (map_table m) n e = Some (Inr h, xs, gens)"
    and e: "me_charged_bytes e = charge" "me_owner e = owner" "obj_inv (me_map e)" "me_perm e = MapReadWrite"
  shows "manager_inv P (m\<lparr>bm_maps := xs, bm_map_generations := gens, bm_live_maps := bm_live_maps m + 1,
     bm_map_bytes := bm_map_bytes m + charge\<rparr>)" (is "manager_inv P ?m")
proof -
  have tabs: "tables_inv P m" and us: "usage_inv m" and qu: "quota_inv m" and re: "refs_inv m" and pi: "pins_inv m" and ho: "hooks_inv P m"
    using inv by (simp_all add: manager_inv_hooks)
  have ok: "slot_table_ok (map_table m)" using tabs by (simp_all add: tables_inv_def)
  note k = insert_kept [OF ok ins] and t = insert_tally [OF ins, simplified] and q = map_quota [OF quota]
  have i: "length (bm_maps m) \<le> length xs" "handle_slot h < length xs" "xs ! handle_slot h = Some e"
      "\<forall>s<length (bm_maps m). s \<noteq> handle_slot h \<longrightarrow> xs ! s = bm_maps m ! s \<and> gens ! s = bm_map_generations m ! s"
      "handle_slot h < length (bm_maps m) \<longrightarrow> bm_maps m ! handle_slot h = None"
      "length xs \<le> Suc (length (bm_maps m))" "length (bm_maps m) < length xs \<longrightarrow> handle_slot h = length (bm_maps m)"
    using insert_handle [OF ok, of rs rg n e, unfolded ins] by auto
  have h0: "handle_slot h \<noteq> 0"
  proof
    assume "handle_slot h = 0"
    then show False using i(5) tabs by (auto simp: tables_inv_def)
  qed
  have "map_entry_ok P s x" if "s < length xs" "xs ! s = Some x" for s x
  proof (cases "s = handle_slot h")
    case True
    then show ?thesis using that i(3) e q h0 by (simp add: map_entry_ok_def)
  next
    case False
    then have "s < length (bm_maps m)" using i(6,7) that(1) by linarith
    then show ?thesis using i(4) False that tabs by (simp add: tables_inv_def)
  qed
  then have "tables_inv P ?m" using tabs k(1) i h0 by (auto simp: tables_inv_def)
  moreover have "usage_inv ?m" using us t e q by (simp add: usage_inv_def)
  moreover have "quota_inv ?m"
  proof -
    have "owner_maps ?m o' \<le> max_owner_maps (bm_limits m) \<and> owner_map_bytes ?m o' \<le> max_owner_map_bytes (bm_limits m)" if "o' \<noteq> PINNED_MAP_OWNER" for o'
      using q qu e that by (cases "o' = owner") (auto simp: owner_maps_def owner_map_bytes_def quota_inv_def t)
    then show ?thesis using qu q by (simp add: quota_inv_def owner_programs_def owner_program_bytes_def)
  qed
  moreover have "refs_inv ?m"
    unfolding refs_inv_def
  proof (intro allI impI)
    fix p slot r
    assume "Some p \<in> set (bm_programs ?m)" "slot < length (pe_maps p)" "pe_maps p ! slot = Some r"
    then have "slot < length (bm_maps m)" "bm_maps m ! slot \<noteq> None" "bm_map_generations m ! slot = pmr_generation r"
      using re by (auto simp: refs_inv_def)
    then show "slot < length (bm_maps ?m) \<and> bm_maps ?m ! slot \<noteq> None \<and> bm_map_generations ?m ! slot = pmr_generation r"
      using i by auto
  qed
  moreover have "pins_inv ?m" using pi k(3) by (auto simp: pins_inv_def map_entry_at_def)
  moreover have "hooks_inv P ?m" using ho hooks_frame [of ?m m P] by simp
  ultimately show ?thesis by (simp add: manager_inv_hooks)
qed

text \<open>A new map gives access to its creator and to nobody else.\<close>

definition created :: "u64 \<Rightarrow> u32 \<Rightarrow> manager \<Rightarrow> manager \<Rightarrow> bool" where
  "created owner h m m' \<longleftrightarrow> h \<notin> issued (map_table m) \<and>
     (\<forall>o' h' a. may_access m' o' h' a \<longrightarrow> may_access m o' h' a \<or> o' = owner \<and> h' = h)"

lemma insert_map_created:
  assumes ok: "slot_table_ok (map_table m)"
    and ins: "insert_with_reservations rs rg (map_table m) n e = Some (Inr h, xs, gens)"
    and e: "me_owner e = owner" "me_grants e = []"
    and m': "bm_maps m' = xs" "bm_map_generations m' = gens" "program_table m' = program_table m"
  shows "handles_mono m m' \<and> created owner h m m'"
proof -
  note k = insert_kept [OF ok ins]
  have at: "map_entry_at m' = (map_entry_at m)(h \<mapsto> e)" using k(3) m' by (simp add: map_entry_at_def fun_eq_iff)
  have "entry_grants e o' a \<Longrightarrow> o' = owner" for o' a
    using e by (auto simp: entry_grants_def entry_access_for_def grants_access_for_def split: if_splits)
  then have "may_access m' o' h' a \<longrightarrow> may_access m o' h' a \<or> o' = owner \<and> h' = h" for o' h' a
    unfolding may_access_def at by (cases "h' = h") auto
  then show ?thesis using k(2,4) m' by (simp add: handles_mono_def created_def)
qed

lemma create_map_answer:
  assumes inv: "manager_inv P m"
  shows "\<exists>r m'. create_map_for Q env m owner ty ks vs cap = Some (r, m') \<and> manager_inv P m' \<and> handles_mono m m' \<and>
     (case r of Inl _ \<Rightarrow> m' = m | Inr h \<Rightarrow> created owner h m m')"
proof (cases "map_allocation_charge m owner ty ks vs cap")
  case (Inl e)
  then show ?thesis using inv follows_refl [OF inv] by (simp add: create_map_for_def follows_from_def)
next
  case q: (Inr charge)
  show ?thesis
  proof (cases "new_map Q env ty ks vs cap")
    case (Inl e)
    then show ?thesis using q inv follows_refl [OF inv] by (simp add: create_map_for_def follows_from_def)
  next
    case (Inr obj)
    define e where "e = \<lparr>me_map = obj, me_leased = False, me_perm = MapReadWrite, me_charged_bytes = charge, me_owner = owner, me_grants = []\<rparr>"
    have ok: "slot_table_ok (map_table m)" using inv by (simp add: manager_inv_def tables_inv_def)
    from insert_handle [OF this, of "ke_reserve env ResSlots" "ke_reserve env ResGenerations" "max_map_slots (bm_limits m)" e]
    obtain r xs gens where ins: "insert_with_reservations (ke_reserve env ResSlots) (ke_reserve env ResGenerations) (map_table m)
        (max_map_slots (bm_limits m)) e = Some (r, xs, gens)" by auto
    show ?thesis
    proof (cases r)
      case (Inl err)
      then show ?thesis using q Inr ins inv follows_refl [OF inv]
        by (simp add: create_map_for_def register_user_map_def e_def [symmetric] follows_from_def)
    next
      case h: (Inr h)
      let ?m = "m\<lparr>bm_maps := xs, bm_map_generations := gens, bm_live_maps := bm_live_maps m + 1, bm_map_bytes := bm_map_bytes m + charge\<rparr>"
      have "checked_add_usize (bm_live_maps m) 1 = Some (bm_live_maps m + 1)" "checked_add_usize (bm_map_bytes m) charge = Some (bm_map_bytes m + charge)"
        using live_bounded(2) [OF inv] map_quota [OF q] by (simp_all add: checked_add_usize_def)
      then have "create_map_for Q env m owner ty ks vs cap = Some (Inr h, ?m)"
        using q Inr ins h by (simp add: create_map_for_def register_user_map_def e_def [symmetric])
      moreover have "manager_inv P ?m"
        by (rule insert_map_inv [OF inv q ins [unfolded h]]) (use new_map_inv [OF Inr] in \<open>simp_all add: e_def\<close>)
      moreover have "handles_mono m ?m \<and> created owner h m ?m"
        by (rule insert_map_created [OF ok ins [unfolded h]]) (simp_all add: e_def)
      ultimately show ?thesis by simp
    qed
  qed
qed

section \<open>Attaching and detaching\<close>

abbreviation with_hooks :: "manager \<Rightarrow> attachment_table \<Rightarrow> ledger \<Rightarrow> gpio_routes \<Rightarrow> manager" where
  "with_hooks m t l r \<equiv> m\<lparr>bm_attachments := t, bm_admission := l, bm_gpio_routes := r\<rparr>"

lemma core_frame:
  assumes "manager_inv P m"
  shows "tables_inv P (with_hooks m t l r)" "usage_inv (with_hooks m t l r)" "quota_inv (with_hooks m t l r)"
    "refs_inv (with_hooks m t l r)" "pins_inv (with_hooks m t l r)"
  using assms by (simp_all add: manager_inv_def tables_inv_def usage_inv_def quota_inv_def refs_inv_def pins_inv_def owner_defs map_entry_at_def)

lemma publish_hooks:
  assumes "manager_inv P m" "attach_inv (with_hooks m t l r)" "routes_inv (with_hooks m t l r)" "ledger_inv P (with_hooks m t l r)"
  shows "\<exists>m'. publish_hook_snapshot (with_hooks m t l r) = Some m' \<and> follows_from P m m' \<and>
     m' = (with_hooks m t l r)\<lparr>bm_snapshot := Some (snapshot_view t r)\<rparr>"
proof -
  obtain m' where m': "publish_hook_snapshot (with_hooks m t l r) = Some m'" "manager_inv P m'"
      "m' = (with_hooks m t l r)\<lparr>bm_snapshot := Some (snapshot_view t r)\<rparr>"
    using publish_inv [OF core_frame [OF assms(1)] assms(2-4)] by auto
  moreover have "follows_from P m m'" by (rule follows_frame [OF m'(2)]) (simp_all add: m'(3))
  ultimately show ?thesis by blast
qed

lemma published_safe:
  assumes "manager_inv P m" "attach_inv (with_hooks m t l r)" "routes_inv (with_hooks m t l r)" "ledger_inv P (with_hooks m t l r)"
  shows "safe_answer P m (published x (with_hooks m t l r))"
  using publish_hooks [OF assms] by (auto simp: published_def)

lemma hook_parts:
  assumes "manager_inv P m"
  shows "attach_inv m" "routes_inv m" "snap_inv m" "ledger_inv P m"
  using assms by (simp_all add: manager_inv_def)

lemma hooks_frame_parts:
  assumes "bm_attachments m' = bm_attachments m" "bm_gpio_routes m' = bm_gpio_routes m" "bm_snapshot m' = bm_snapshot m"
    "bm_programs m' = bm_programs m" "bm_program_generations m' = bm_program_generations m"
  shows "attach_inv m' = attach_inv m" "routes_inv m' = routes_inv m" "snap_inv m' = snap_inv m"
  unfolding attach_inv_def routes_inv_def snap_inv_def program_entry_at_def attached_frame [OF assms(1)] assms by (rule refl)+

lemma attach_inv_with:
  assumes "attach_inv m" "\<And>h ps. t h = Some ps \<Longrightarrow> is_supported_attach_type h \<and> distinct ps \<and> length ps \<le> HOOK_FANOUT_LIMIT \<and>
     (\<forall>p\<in>set ps. program_entry_at m p \<noteq> None)"
  shows "attach_inv (with_hooks m t l r)"
  using assms(2) by (simp add: attach_inv_def program_entry_at_def)

lemma admission_budget:
  "admit l hook prog wcet freq = Inr l' \<Longrightarrow> budget_ns_per_s l' = budget_ns_per_s l"
  "budget_ns_per_s (release l hook prog) = budget_ns_per_s l"
  by (auto simp: admit_def release_def Let_def split: if_splits option.splits)

lemma commit_attachment_effect:
  assumes "commit_attachment reserve t l hook prog wcet freq = (res, t', l')"
  shows "budget_ns_per_s l' = budget_ns_per_s l"
    "res = Inl e \<Longrightarrow> t' = t"
    "res = Inr u \<Longrightarrow> \<not> table_contains t hook prog \<Longrightarrow> t' = t(hook \<mapsto> (case t hook of None \<Rightarrow> [] | Some ps \<Rightarrow> ps) @ [prog])"
  using assms by (auto simp: commit_attachment_def try_insert_with_def admission_budget split: if_splits sum.splits option.splits)

lemma commit_ledger:
  assumes "ledger_inv P m" "commit_attachment reserve (bm_attachments m) (bm_admission m) hook prog wcet freq = (res, t', l')"
  shows "ledger_inv P (with_hooks m t' l' r)"
  using assms(1) commit_attachment_effect(1) [OF assms(2)]
    commit_attachment_sync [OF _ _ _ assms(2)] by (auto simp: ledger_inv_def sum_fits_def)

lemma table_contains_attached: "table_contains (bm_attachments m) hook p \<longleftrightarrow> p \<in> set (attached_to m hook)"
  by (simp add: table_contains_def attached_to_def split: option.split)

lemma validate_attach:
  assumes "validate_attach_for P m owner hook p = Inr already"
  shows "is_supported_attach_type hook \<and> program_entry_at m p \<noteq> None \<and> (already \<longleftrightarrow> p \<in> set (attached_to m hook)) \<and>
     (\<not> already \<longrightarrow> length (attached_to m hook) < HOOK_FANOUT_LIMIT)"
  using assms by (auto simp: validate_attach_for_def Let_def split: if_splits option.splits sum.splits)

text \<open>A commit either leaves the attachments alone or adds the program at the end of its hook.\<close>

lemma commit_attach_effect:
  assumes inv: "manager_inv P m" and hook: "is_supported_attach_type hook" "program_entry_at m p \<noteq> None" "p \<notin> set (attached_to m hook)"
      "length (attached_to m hook) < HOOK_FANOUT_LIMIT"
    and c: "commit_attach Q env m hook p = (res, m')"
  shows "case res of Inl _ \<Rightarrow> follows_from P m m'
     | Inr _ \<Rightarrow> \<exists>l. m' = with_hooks m ((bm_attachments m)(hook \<mapsto> attached_to m hook @ [p])) l (bm_gpio_routes m) \<and>
         attach_inv m' \<and> (\<forall>r. ledger_inv P (m'\<lparr>bm_gpio_routes := r\<rparr>))"
proof -
  obtain e where e: "program_entry_at m p = Some e" using hook(2) by auto
  obtain cr t l where cr: "commit_attachment (\<lambda>_. ke_reserve env ResAttachment) (bm_attachments m) (bm_admission m) hook p
      (pe_wcet_cycles e) (hook_frequency_hz Q hook) = (cr, t, l)" by (metis prod_cases3)
  note parts = hook_parts [OF inv] and led = commit_ledger [OF hook_parts(4) [OF inv] cr]
  have m': "m' = with_hooks m t l (bm_gpio_routes m)" using c e cr by (auto simp: commit_attach_def)
  show ?thesis
  proof (cases cr)
    case (Inl err)
    then have t: "t = bm_attachments m" using commit_attachment_effect(2) [OF cr] by simp
    have "hooks_inv P m'"
      using parts led [of "bm_gpio_routes m"] hooks_frame_parts [of m' m] unfolding m' t by (simp add: hooks_inv_def)
    then have "manager_inv P m'" using core_frame [OF inv, where t = t and l = l and r = "bm_gpio_routes m"] by (simp add: manager_inv_hooks m')
    then have "follows_from P m m'" by (rule follows_frame) (simp_all add: m')
    moreover have "\<exists>x. res = Inl x" using c e cr Inl by (cases err) (auto simp: commit_attach_def)
    ultimately show ?thesis by auto
  next
    case (Inr u)
    have t: "t = (bm_attachments m)(hook \<mapsto> attached_to m hook @ [p])"
      using commit_attachment_effect(3) [OF cr Inr] hook(3) by (simp add: table_contains_attached) (simp add: attached_to_def)
    have "attach_inv m'"
      unfolding m'
    proof (rule attach_inv_with [OF parts(1)])
      fix h ps
      assume "t h = Some ps"
      then show "is_supported_attach_type h \<and> distinct ps \<and> length ps \<le> HOOK_FANOUT_LIMIT \<and> (\<forall>q\<in>set ps. program_entry_at m q \<noteq> None)"
        using parts(1) hook attached_loaded [OF parts(1), of _ hook]
        by (cases "h = hook") (auto simp: t attach_inv_def attached_to_def split: option.splits)
    qed
    moreover have "res = Inr ()" using c e cr Inr by (auto simp: commit_attach_def)
    ultimately show ?thesis using led by (auto simp: m' t)
  qed
qed

lemma routes_inv_attach:
  assumes "routes_inv m" "set (attached_to m ATTACH_TYPE_GPIO) \<subseteq> set (attached_to m' ATTACH_TYPE_GPIO)" "bm_gpio_routes m' = bm_gpio_routes m"
  shows "routes_inv m'"
  using assms unfolding routes_inv_def by auto

lemma attach_for_safe:
  assumes inv: "manager_inv P m"
  shows "safe_answer P m (attach_for Q env m owner hook p)"
proof (cases "validate_attach_for Q m owner hook p")
  case (Inl e)
  then show ?thesis using follows_refl [OF inv] by (simp add: attach_for_def split: sum.split)
next
  case (Inr already)
  note v = validate_attach [OF Inr]
  obtain res m' where c: "commit_attach Q env m hook p = (res, m')" by (cases "commit_attach Q env m hook p")
  have "safe_answer P m (case (res, m') of (Inl e, m') \<Rightarrow> refuse e m' | (Inr _, m') \<Rightarrow> published () m')" if new: "\<not> already"
  proof (cases res)
    case (Inl e)
    then show ?thesis using commit_attach_effect [OF inv _ _ _ _ c] v new by simp
  next
    case (Inr u)
    let ?t = "(bm_attachments m)(hook \<mapsto> attached_to m hook @ [p])"
    obtain l where m': "m' = with_hooks m ?t l (bm_gpio_routes m)" "attach_inv m'" "\<forall>r. ledger_inv P (m'\<lparr>bm_gpio_routes := r\<rparr>)"
      using commit_attach_effect [OF inv _ _ _ _ c] v new Inr by auto
    have "routes_inv m'"
      by (rule routes_inv_attach [OF hook_parts(2) [OF inv]]) (auto simp: m'(1) attached_to_def)
    moreover have "ledger_inv P m'" using m'(3) [rule_format, of "bm_gpio_routes m'"] by simp
    ultimately show ?thesis using published_safe [OF inv, where t = ?t and l = l and r = "bm_gpio_routes m"] m'(1,2) Inr by simp
  qed
  then show ?thesis using follows_refl [OF inv] Inr c by (simp add: attach_for_def split: sum.split bool.split)
qed

lemma attach_gpio_safe:
  assumes inv: "manager_inv P m"
  shows "safe_answer P m (attach_gpio_route_for Q env m owner chip pin edge p)"
proof (cases "can_register_gpio_route m chip pin edge p \<and> (\<exists>a. validate_attach_for Q m owner ATTACH_TYPE_GPIO p = Inr a)")
  case False
  then show ?thesis using follows_refl [OF inv] by (auto simp: attach_gpio_route_for_def split: sum.split)
next
  case True
  then obtain already where can: "can_insert_with_limit (bm_gpio_routes m) chip pin edge p GPIO_IRQ_FANOUT_LIMIT"
    and val: "validate_attach_for Q m owner ATTACH_TYPE_GPIO p = Inr already" by (auto simp: can_register_gpio_route_def)
  note v = validate_attach [OF val] and parts = hook_parts [OF inv]
  let ?r = "route_insert (bm_gpio_routes m) chip pin edge p"
  have routes: "routes_inv (with_hooks m t l ?r)" if "set (attached_to m ATTACH_TYPE_GPIO) \<union> {p} \<subseteq> set (attached_to (with_hooks m t l ?r) ATTACH_TYPE_GPIO)" for t l
    using that parts(2) route_insert_limit [OF can] unfolding routes_inv_def by (auto simp: route_contains_insert)
  obtain res m' where c: "(if already then (Inr (), m) else commit_attach Q env m ATTACH_TYPE_GPIO p) = (res, m')" by (metis surj_pair)
  have "safe_answer P m (case (res, m') of (Inl e, m') \<Rightarrow> refuse e m'
      | (Inr _, m') \<Rightarrow> published () (m'\<lparr>bm_gpio_routes := route_insert (bm_gpio_routes m') chip pin edge p\<rparr>))"
  proof (cases already)
    case True
    let ?n = "with_hooks m (bm_attachments m) (bm_admission m) ?r"
    have "routes_inv ?n" by (rule routes) (use v True in \<open>auto simp: attached_to_def\<close>)
    moreover have "attach_inv ?n" "ledger_inv P ?n" using parts by (simp_all add: attach_inv_def ledger_inv_def program_entry_at_def)
    ultimately show ?thesis using published_safe [OF inv, where t = "bm_attachments m" and l = "bm_admission m" and r = ?r] True c by auto
  next
    case new: False
    then have c': "commit_attach Q env m ATTACH_TYPE_GPIO p = (res, m')" using c by simp
    show ?thesis
    proof (cases res)
      case (Inl e)
      then show ?thesis using commit_attach_effect [OF inv _ _ _ _ c'] v new by simp
    next
      case (Inr u)
      let ?t = "(bm_attachments m)(ATTACH_TYPE_GPIO \<mapsto> attached_to m ATTACH_TYPE_GPIO @ [p])"
      obtain l where m': "m' = with_hooks m ?t l (bm_gpio_routes m)" "attach_inv m'" "\<forall>r. ledger_inv P (m'\<lparr>bm_gpio_routes := r\<rparr>)"
        using commit_attach_effect [OF inv _ _ _ _ c'] v new Inr by auto
      let ?n = "with_hooks m ?t l ?r"
      have n: "m'\<lparr>bm_gpio_routes := ?r\<rparr> = ?n" by (simp add: m'(1))
      have "routes_inv ?n" by (rule routes) (auto simp: attached_to_def)
      moreover have "attach_inv ?n" using m'(2) unfolding m'(1) by (simp add: attach_inv_def program_entry_at_def)
      moreover have "ledger_inv P ?n" using m'(3) n by metis
      ultimately show ?thesis using published_safe [OF inv, where t = ?t and l = l and r = ?r] Inr n m'(1) by simp
    qed
  qed
  then show ?thesis using follows_refl [OF inv] can val c
    by (auto simp: attach_gpio_route_for_def can_register_gpio_route_def split: sum.split)
qed

lemma release_contains: "ledger_contains (release l hook p) h q \<longleftrightarrow> ledger_contains l h q \<and> (h, q) \<noteq> (hook, p)"
  by (auto simp: release_def ledger_contains_def split: option.splits)

lemma detach_safe:
  assumes inv: "manager_inv P m"
  shows "safe_answer P m (detach env m hook p)"
proof (cases "ke_reserve env ResSnapshot \<and> p \<in> set (attached_to m hook)")
  case False
  then show ?thesis using follows_refl [OF inv] by (auto simp: detach_def attached_to_def split: option.split)
next
  case True
  note parts = hook_parts [OF inv]
  obtain ps where ps: "bm_attachments m hook = Some ps" "p \<in> set ps" "attached_to m hook = ps"
    using True by (cases "bm_attachments m hook") (auto simp: attached_to_def)
  have hp: "is_supported_attach_type hook" "distinct ps" "length ps \<le> HOOK_FANOUT_LIMIT" "\<forall>q\<in>set ps. program_entry_at m q \<noteq> None"
    using parts(1) ps(1) unfolding attach_inv_def by blast+
  let ?t = "(bm_attachments m)(hook \<mapsto> remove1 p ps)"
  let ?l = "release (bm_admission m) hook p"
  let ?r = "route_remove (bm_gpio_routes m) p"
  let ?n = "with_hooks m ?t ?l ?r"
  have "attach_inv ?n"
  proof (rule attach_inv_with [OF parts(1)])
    fix h qs
    assume h: "?t h = Some qs"
    show "is_supported_attach_type h \<and> distinct qs \<and> length qs \<le> HOOK_FANOUT_LIMIT \<and> (\<forall>q\<in>set qs. program_entry_at m q \<noteq> None)"
    proof (cases "h = hook")
      case True
      then show ?thesis using hp h ps(2) by (auto simp: length_remove1 dest: notin_set_remove1)
    next
      case False
      then show ?thesis using h parts(1) by (simp add: attach_inv_def)
    qed
  qed
  moreover have "routes_inv ?n"
  proof -
    have "q \<in> set (attached_to ?n ATTACH_TYPE_GPIO)" if "q \<in> set (attached_to m ATTACH_TYPE_GPIO)" "q \<noteq> p" for q
      using that ps(1) by (cases "hook = ATTACH_TYPE_GPIO") (simp_all add: attached_to_def)
    then show ?thesis using parts(2)
      unfolding routes_inv_def by (auto simp: route_contains_remove intro: order_trans [OF matching_count_remove])
  qed
  moreover have "ledger_inv P ?n"
  proof -
    have "table_contains ?t h q \<longleftrightarrow> table_contains (bm_attachments m) h q \<and> (h, q) \<noteq> (hook, p)" for h q
      using ps hp(2) by (auto simp: table_contains_def)
    then show ?thesis using parts(4) release_wf [of "bm_admission m" hook p]
      by (simp add: ledger_inv_def in_sync_def release_contains admission_budget)
  qed
  ultimately have "safe_answer P m (published () ?n)" by (rule published_safe [OF inv])
  then show ?thesis using True ps by (simp add: detach_def)
qed

lemma detach_for_safe: "manager_inv P m \<Longrightarrow> safe_answer P m (detach_for env m owner hook p)"
  using detach_safe [of P m env hook p] follows_refl [of P m] by (simp add: detach_for_def split: sum.split)

section \<open>Removing objects\<close>

lemma slot_entry_ok: "manager_inv P m \<Longrightarrow> slot < length (bm_maps m) \<Longrightarrow> bm_maps m ! slot = Some e \<Longrightarrow> map_entry_ok P slot e"
  by (simp add: manager_inv_def tables_inv_def)

lemma reclaim_orphan_follows:
  assumes inv: "manager_inv P m" and slot: "slot < length (bm_maps m)"
  shows "follows_from P m (reclaim_orphan m slot) \<and> length (bm_maps (reclaim_orphan m slot)) = length (bm_maps m)"
proof (cases "bm_maps m ! slot")
  case None
  then show ?thesis using follows_refl [OF inv] by (simp add: reclaim_orphan_def)
next
  case (Some e)
  have "me_charged_bytes e \<noteq> 0 \<Longrightarrow> slot \<noteq> 0"
    using slot_entry_ok [OF inv slot Some] by (auto simp: map_entry_ok_def split: if_splits)
  then show ?thesis using take_map_follows [OF inv slot Some] follows_refl [OF inv] Some
    by (auto simp: reclaim_orphan_def take_map_def)
qed

lemma reclaim_orphans_follows: "manager_inv P m \<Longrightarrow> follows_from P m (reclaim_orphans m)"
  using follows_foldl [of P m "[0..<length (bm_maps m)]" "\<lambda>n. length (bm_maps n) = length (bm_maps m)" reclaim_orphan]
    reclaim_orphan_follows [of P] by (auto simp: reclaim_orphans_def)

text \<open>Removing the routes of a program that is not attached changes nothing that dispatch sees.\<close>

lemma unroute_follows:
  assumes inv: "manager_inv P m" and p: "p \<notin> set (attached_to m ATTACH_TYPE_GPIO)"
  shows "follows_from P m (m\<lparr>bm_gpio_routes := route_remove (bm_gpio_routes m) p\<rparr>)" (is "follows_from P m ?m")
proof -
  note parts = hook_parts [OF inv]
  have none: "\<not> route_contains (bm_gpio_routes m) c n e p" for c n e using parts(2) p unfolding routes_inv_def by blast
  have "filter (\<lambda>q. q \<noteq> p) (programs_for (bm_gpio_routes m) c n f) = programs_for (bm_gpio_routes m) c n f" for c n f
    by (rule filter_True) (use none programs_for_iff in blast)
  then have pf: "programs_for (route_remove (bm_gpio_routes m) p) c n f = programs_for (bm_gpio_routes m) c n f" for c n f
    by (simp add: programs_for_remove)
  have at: "attached_to ?m = attached_to m" by (rule attached_frame) simp
  have "routes_inv ?m" using parts(2) unfolding routes_inv_def at
    by (auto simp: route_contains_remove programs_for_length [symmetric] pf)
  moreover have "snap_inv ?m" using parts(3) unfolding snap_inv_def at by (simp add: snapshot_view_def pf split: option.splits)
  moreover have "attach_inv ?m" "ledger_inv P ?m" using parts by (simp_all add: attach_inv_def ledger_inv_def program_entry_at_def)
  moreover have "tables_inv P ?m" "usage_inv ?m" "quota_inv ?m" "refs_inv ?m" "pins_inv ?m"
    using core_frame [OF inv, where t = "bm_attachments m" and l = "bm_admission m" and r = "route_remove (bm_gpio_routes m) p"] by simp_all
  ultimately have "manager_inv P ?m" by (simp add: manager_inv_def)
  then show ?thesis by (rule follows_frame) simp_all
qed

lemma program_owner_entry:
  assumes "ensure_program_owner m owner p = Inr u"
  shows "\<exists>e. program_entry_at m p = Some e \<and> pe_owner e = owner"
  using assms by (auto simp: ensure_program_owner_def split: option.splits if_splits)

lemma live_program_slot:
  assumes "manager_inv P m" "program_entry_at m p = Some e"
  shows "handle_slot p < length (bm_programs m)" "bm_programs m ! handle_slot p = Some e"
    "encode_handle (handle_slot p) (bm_program_generations m ! handle_slot p) = p"
proof -
  have ok: "slot_table_ok (program_table m)" using assms(1) by (simp add: manager_inv_def tables_inv_def)
  show "handle_slot p < length (bm_programs m)" "bm_programs m ! handle_slot p = Some e"
    using assms(2) unfolding program_entry_at_def entry_at_conv [OF ok] by (auto split: if_splits)
  show "encode_handle (handle_slot p) (bm_program_generations m ! handle_slot p) = p"
    using encode_of_live [OF ok, of p] assms(2) by (simp add: program_entry_at_def)
qed

lemma live_map_slot:
  assumes "manager_inv P m" "map_entry_at m h = Some e"
  shows "handle_slot h < length (bm_maps m)" "bm_maps m ! handle_slot h = Some e"
    "encode_handle (handle_slot h) (bm_map_generations m ! handle_slot h) = h" "map_entry_ok P (handle_slot h) e"
proof -
  have ok: "slot_table_ok (map_table m)" using assms(1) by (simp add: manager_inv_def tables_inv_def)
  show at: "handle_slot h < length (bm_maps m)" "bm_maps m ! handle_slot h = Some e"
    using assms(2) unfolding map_entry_at_def entry_at_conv [OF ok] by (auto split: if_splits)
  show "encode_handle (handle_slot h) (bm_map_generations m ! handle_slot h) = h"
    using encode_of_live [OF ok, of h] assms(2) by (simp add: map_entry_at_def)
  show "map_entry_ok P (handle_slot h) e" by (rule slot_entry_ok [OF assms(1) at])
qed

lemma unload_safe:
  assumes inv: "manager_inv P m"
  shows "safe_answer P m (unload_program_for env m owner p)"
proof (cases "ensure_program_owner m owner p")
  case (Inl e)
  then show ?thesis using follows_refl [OF inv] by (simp add: unload_program_for_def)
next
  case (Inr u)
  obtain e where e: "program_entry_at m p = Some e" using program_owner_entry [OF Inr] by blast
  note s = live_program_slot [OF inv e]
  show ?thesis
  proof (cases "(\<exists>t. p \<in> set (attached_to m t)) \<or> program_shared env m p")
    case True
    then show ?thesis using follows_refl [OF inv] Inr by (auto simp: unload_program_for_def)
  next
    case False
    let ?m1 = "take_program m (handle_slot p)"
    let ?m2 = "?m1\<lparr>bm_gpio_routes := route_remove (bm_gpio_routes ?m1) p\<rparr>"
    have f1: "follows_from P m ?m1" by (rule take_program_follows [OF inv s(1,2)]) (use False s(3) in auto)
    have "bm_attachments ?m1 = bm_attachments m" using s(2) by (simp add: take_program_def)
    then have "attached_to ?m1 = attached_to m" by (rule attached_frame)
    then have f2: "follows_from P ?m1 ?m2" using unroute_follows [of P ?m1 p] f1 False by (simp add: follows_from_def)
    have "follows_from P ?m2 (reclaim_orphans ?m2)" by (rule reclaim_orphans_follows) (use f2 in \<open>simp add: follows_from_def\<close>)
    then have "follows_from P m (reclaim_orphans ?m2)" using f1 f2 follows_trans by blast
    then show ?thesis using False Inr by (simp add: unload_program_for_def Let_def)
  qed
qed

lemma destroy_map_safe:
  assumes inv: "manager_inv P m"
  shows "safe_answer P m (destroy_map_for m owner h)"
proof (cases "map_slot m h")
  case None
  then show ?thesis using follows_refl [OF inv] by (simp add: destroy_map_for_def)
next
  case (Some slot)
  have ok: "slot_table_ok (map_table m)" using inv by (simp add: manager_inv_def tables_inv_def)
  have sl: "slot = handle_slot h" and "map_entry_at m h \<noteq> None" using Some entry_slot_Some [OF ok] by (auto simp: map_slot_def map_entry_at_def)
  then obtain e where e: "map_entry_at m h = Some e" by auto
  note s = live_map_slot [OF inv e]
  show ?thesis using follows_refl [OF inv] take_map_follows [OF inv s(1,2)] Some s(3) sl
    by (auto simp: destroy_map_for_def RESERVED_MAP_COUNT_def split: sum.split)
qed

end
