(* ===== verification/Manager_Access.thy ===== *)
theory Manager_Access
  imports Manager_Preserve
begin

text \<open>
  Access to maps, pins and the end of an owner: lookups and updates change the map and nothing else, a pin
  opens a map for what it offers, and reclaiming an owner detaches, revokes and removes what it had.
\<close>

section \<open>Access\<close>

lemma set_map_follows:
  assumes inv: "manager_inv P m" and at: "map_entry_at m h = Some e"
    and obj: "obj_inv obj" "handle_slot h = 0 \<Longrightarrow> obj = me_map e"
  shows "follows_from P m (set_map m h e obj)"
proof -
  note s = live_map_slot [OF inv at]
  have ok: "map_entry_ok P (handle_slot h) (e\<lparr>me_map := obj, me_leased := False\<rparr>)" using s(4) obj by (auto simp: map_entry_ok_def)
  show ?thesis unfolding set_map_def
    by (rule tweak_one_follows [OF inv s(1,2) _ ok]) (simp_all add: same_entry_def no_wider_def entry_grants_def entry_access_for_def)
qed

lemma reserved_entry: "map_entry_ok P 0 e \<Longrightarrow> obj_lookup (me_map e) key = Some (r, obj) \<Longrightarrow> obj = me_map e"
  by (simp add: map_entry_ok_def)

lemma map_lookup_safe:
  assumes inv: "manager_inv P m"
  shows "safe_answer P m (map_lookup_for m owner h key)"
proof (cases "map_entry_at m h")
  case None
  then show ?thesis using follows_refl [OF inv] by (simp add: map_lookup_for_def split: sum.split)
next
  case (Some e)
  note ok = live_map_slot(4) [OF inv Some]
  then obtain r obj where r: "obj_lookup (me_map e) key = Some (r, obj)" "obj_inv obj"
    using obj_lookup_total [of "me_map e" key] by (auto simp: map_entry_ok_def)
  have "follows_from P m (set_map m h e obj)"
    by (rule set_map_follows [OF inv Some r(2)]) (use reserved_entry r(1) ok in metis)
  then show ?thesis using follows_refl [OF inv] Some r by (simp add: map_lookup_for_def split: sum.split)
qed

lemma writable_slot:
  assumes "manager_inv P m" "ensure_map_writable m h = Inr u" "map_entry_at m h = Some e"
  shows "handle_slot h \<noteq> 0"
  using live_map_slot(4) [OF assms(1,3)] assms(2,3) by (auto simp: ensure_map_writable_def map_entry_ok_def split: map_perm.splits if_splits)

lemma map_update_safe:
  assumes inv: "manager_inv P m" and len: "length val \<le> 2 ^ 63"
  shows "safe_answer P m (map_update m h key val flags)"
proof (cases "map_entry_at m h")
  case None
  then show ?thesis using follows_refl [OF inv] by (simp add: map_update_def split: sum.split)
next
  case (Some e)
  obtain r obj where r: "obj_update (me_map e) key val flags = Some (r, obj)" "obj_inv obj"
    using obj_update_total [of "me_map e" val key flags] live_map_slot(4) [OF inv Some] len by (auto simp: map_entry_ok_def)
  have "follows_from P m (set_map m h e obj)" if "ensure_map_writable m h = Inr u" for u
    by (rule set_map_follows [OF inv Some r(2)]) (use writable_slot [OF inv that Some] in simp)
  then show ?thesis using follows_refl [OF inv] Some r by (simp add: map_update_def split: sum.split)
qed

lemma map_update_for_safe: "manager_inv P m \<Longrightarrow> length val \<le> 2 ^ 63 \<Longrightarrow> safe_answer P m (map_update_for m owner h key val flags)"
  using map_update_safe [of P m val h key flags] follows_refl [of P m] by (simp add: map_update_for_def split: sum.split)

lemma map_delete_safe:
  assumes inv: "manager_inv P m"
  shows "safe_answer P m (map_delete_for m owner h key)"
proof (cases "map_entry_at m h")
  case None
  then show ?thesis using follows_refl [OF inv] by (simp add: map_delete_for_def split: sum.split)
next
  case (Some e)
  obtain r obj where r: "obj_delete (me_map e) key = Some (r, obj)" "obj_inv obj"
    using obj_delete_total [of "me_map e" key] live_map_slot(4) [OF inv Some] by (auto simp: map_entry_ok_def)
  have "follows_from P m (set_map m h e obj)" if "ensure_map_writable m h = Inr u" for u
    by (rule set_map_follows [OF inv Some r(2)]) (use writable_slot [OF inv that Some] in simp)
  then show ?thesis using follows_refl [OF inv] Some r by (simp add: map_delete_for_def split: sum.split)
qed

text \<open>Executions lease maps and give the leases back.\<close>

lemma set_lease_follows:
  assumes inv: "manager_inv P m" and slot: "slot < length (bm_maps m)"
  shows "follows_from P m (set_lease b m slot) \<and> length (bm_maps (set_lease b m slot)) = length (bm_maps m)"
proof (cases "bm_maps m ! slot")
  case None
  then show ?thesis using follows_refl [OF inv] by (simp add: set_lease_def)
next
  case (Some e)
  have "map_entry_ok P slot (e\<lparr>me_leased := b\<rparr>)" using slot_entry_ok [OF inv slot Some] by (simp add: map_entry_ok_def)
  then have "follows_from P m (m\<lparr>bm_maps := (bm_maps m)[slot := Some (e\<lparr>me_leased := b\<rparr>)]\<rparr>)"
    by (rule tweak_one_follows [OF inv slot Some, rotated]) (simp_all add: same_entry_def no_wider_def entry_grants_def entry_access_for_def)
  then show ?thesis using Some by (simp add: set_lease_def)
qed

section \<open>Pins\<close>

lemma pins_follow:
  assumes inv: "manager_inv P m" and pins: "\<forall>pin\<in>set pins. map_entry_at m (pin_map_id pin) \<noteq> None" "distinct (map pin_path pins)"
      "length pins \<le> max_pinned_maps (bm_limits m)"
  shows "follows_from P m (m\<lparr>bm_pinned_maps := pins\<rparr>)" (is "follows_from P m ?m")
proof -
  have "tables_inv P ?m" "usage_inv ?m" "quota_inv ?m" "refs_inv ?m" "pins_inv ?m"
    using inv pins by (simp_all add: manager_inv_def tables_inv_def usage_inv_def quota_inv_def refs_inv_def pins_inv_def owner_defs map_entry_at_def)
  moreover have "hooks_inv P ?m" using inv hooks_frame [of ?m m P] by (simp add: manager_inv_hooks)
  ultimately have "manager_inv P ?m" by (simp add: manager_inv_hooks)
  then show ?thesis by (rule follows_frame) simp_all
qed

lemma pin_map_safe:
  assumes inv: "manager_inv P m"
  shows "safe_answer P m (pin_map_with_access_for env m owner path h offered)"
proof -
  let ?pin = "\<lparr>pin_path = path, pin_map_id = h, pin_owner = owner, pin_offered = offered\<rparr>"
  have "follows_from P m (m\<lparr>bm_pinned_maps := bm_pinned_maps m @ [?pin]\<rparr>)"
    if "ensure_map_owner m owner h = Inr u" "List.find (\<lambda>pin. pin_path pin = path) (bm_pinned_maps m) = None"
      "length (bm_pinned_maps m) < max_pinned_maps (bm_limits m)" for u
  proof (rule pins_follow [OF inv])
    have live: "map_entry_at m h \<noteq> None" using that(1) by (auto simp: ensure_map_owner_def split: option.splits)
    then show "\<forall>pin\<in>set (bm_pinned_maps m @ [?pin]). map_entry_at m (pin_map_id pin) \<noteq> None"
      using inv by (auto simp: manager_inv_def pins_inv_def)
    show "distinct (map pin_path (bm_pinned_maps m @ [?pin]))"
      using inv that(2) by (auto simp: manager_inv_def pins_inv_def find_None_iff)
  qed (use that(3) in simp)
  then show ?thesis using follows_refl [OF inv]
    by (simp add: pin_map_with_access_for_def append_pinned_map_def split: sum.split option.split)
qed

lemma unpin_map_safe:
  assumes inv: "manager_inv P m"
  shows "safe_answer P m (unpin_map_for m owner path allow)"
proof (cases "position (\<lambda>pin. pin_path pin = path) (bm_pinned_maps m)")
  case None
  then show ?thesis using follows_refl [OF inv] by (simp add: unpin_map_for_def)
next
  case (Some i)
  let ?rest = "take i (bm_pinned_maps m) @ drop (Suc i) (bm_pinned_maps m)"
  have sub: "set ?rest \<subseteq> set (bm_pinned_maps m)" using set_take_subset set_drop_subset by fastforce
  have f: "follows_from P m (m\<lparr>bm_pinned_maps := ?rest\<rparr>)"
  proof (rule pins_follow [OF inv])
    show "\<forall>pin\<in>set ?rest. map_entry_at m (pin_map_id pin) \<noteq> None" using inv sub by (auto simp: manager_inv_def pins_inv_def)
    have d: "distinct (map pin_path (bm_pinned_maps m))" using inv by (simp add: manager_inv_def pins_inv_def)
    have "distinct (take i xs @ drop (Suc i) xs)" if "distinct xs" for xs :: "string list"
      using that set_take_disj_set_drop_if_distinct [of xs i "Suc i"] by simp
    from this [OF d] show "distinct (map pin_path ?rest)" unfolding map_append take_map drop_map .
    show "length ?rest \<le> max_pinned_maps (bm_limits m)" using inv by (auto simp: manager_inv_def quota_inv_def)
  qed
  then have "follows_from P m (reclaim_orphans (m\<lparr>bm_pinned_maps := ?rest\<rparr>))"
    using reclaim_orphans_follows follows_trans unfolding follows_from_def by blast
  then show ?thesis using Some f follows_refl [OF inv] by (auto simp: unpin_map_for_def Let_def)
qed

text \<open>Opening a pin gives the access it was asked for, which the pin offers, to the one who opens it.\<close>

definition opened :: "u64 \<Rightarrow> u32 \<Rightarrow> map_access \<Rightarrow> manager \<Rightarrow> manager \<Rightarrow> bool" where
  "opened owner h requested m m' \<longleftrightarrow> (\<forall>o' h'. \<forall>a\<in>{ACCESS_READ, ACCESS_WRITE}.
     may_access m' o' h' a \<longrightarrow> may_access m o' h' a \<or> o' = owner \<and> h' = h \<and> access_contains requested a)"

lemma get_pinned_answer:
  assumes inv: "manager_inv P m"
  shows "\<exists>r m'. get_pinned_map_for env m owner path requested = Some (r, m') \<and> manager_inv P m' \<and> handles_mono m m' \<and>
     (case r of Inl _ \<Rightarrow> m' = m
      | Inr h \<Rightarrow> opened owner h requested m m' \<and>
          (\<exists>pin\<in>set (bm_pinned_maps m). pin_path pin = path \<and> pin_map_id pin = h \<and> access_contains (pin_offered pin) requested))"
proof (cases "List.find (\<lambda>pin. pin_path pin = path) (bm_pinned_maps m)")
  case None
  then show ?thesis using inv follows_refl [OF inv] by (simp add: get_pinned_map_for_def follows_from_def)
next
  case (Some pin)
  have pin: "pin \<in> set (bm_pinned_maps m)" "pin_path pin = path" using Some by (auto simp: find_Some_iff)
  then obtain e where e: "map_entry_at m (pin_map_id pin) = Some e" using inv by (auto simp: manager_inv_def pins_inv_def)
  note s = live_map_slot [OF inv e]
  let ?g = "\<lambda>gs. m\<lparr>bm_maps := (bm_maps m)[handle_slot (pin_map_id pin) := Some (e\<lparr>me_grants := gs\<rparr>)]\<rparr>"
  have g: "manager_inv P (?g gs) \<and> handles_mono m (?g gs) \<and> opened owner (pin_map_id pin) requested m (?g gs)"
    if gs: "grant_access reserve (me_grants e) owner requested = Inr gs" for reserve gs
  proof -
    have tw: "tweaked P m ((bm_maps m)[handle_slot (pin_map_id pin) := Some (e\<lparr>me_grants := gs\<rparr>)])"
      by (rule tweak_one [OF inv s(1,2)]) (use s(4) in \<open>simp_all add: same_entry_def map_entry_ok_def\<close>)
    have ok: "slot_table_ok (map_table m)" using inv by (simp add: manager_inv_def tables_inv_def)
    then have ok': "slot_table_ok (map_table (?g gs))" by (simp add: slot_table_ok_def)
    have "handles_kept (map_table m) (map_table (?g gs))"
      unfolding handles_kept_def entry_at_conv [OF ok] entry_at_conv [OF ok'] using s(1,2) by (auto simp: issued_def nth_list_update)
    then have "handles_mono m (?g gs)" by (simp add: handles_mono_def)
    moreover have at: "map_entry_at (?g gs) = (map_entry_at m)(pin_map_id pin \<mapsto> e\<lparr>me_grants := gs\<rparr>)"
      unfolding fun_eq_iff map_entry_at_def entry_at_conv [OF ok] entry_at_conv [OF ok']
      using e [unfolded map_entry_at_def entry_at_conv [OF ok]] s(1) handle_eqI by (auto simp: nth_list_update split: if_splits)
    have "entry_grants e o' a \<or> o' = owner \<and> access_contains requested a"
      if "entry_grants (e\<lparr>me_grants := gs\<rparr>) o' a" "a \<in> {ACCESS_READ, ACCESS_WRITE}" for o' a
      using that grant_access_spec [OF gs, of o'] contains_union_iff
      by (auto simp: entry_grants_def entry_access_for_def split: if_splits option.splits)
    then have "opened owner (pin_map_id pin) requested m (?g gs)"
      unfolding opened_def may_access_def at using e by auto
    ultimately show ?thesis using tweak_inv [OF inv tw] by simp
  qed
  have same: "manager_inv P m \<and> handles_mono m m \<and> opened owner (pin_map_id pin) requested m m"
    using inv follows_refl [OF inv] by (simp add: follows_from_def opened_def)
  show ?thesis using Some e g same pin
    by (cases "grant_access (ke_reserve env ResGrants) (me_grants e) owner requested") (auto simp: get_pinned_map_for_def)
qed

end
