(* ===== verification/Manager_Reclaim.thy ===== *)
theory Manager_Reclaim
  imports Manager_Access
begin

text \<open>
  The end of an owner (\<open>reclaim_owner\<close>): its programs are detached and their routes and admission charges
  released, its grants revoked, its programs and maps removed unless something still refers to them.
\<close>

section \<open>Detaching the programs of an owner\<close>

lemma released_contains:
  "ledger_contains (foldl (\<lambda>l (t, p). release l t p) l xs) h q \<longleftrightarrow> ledger_contains l h q \<and> (h, q) \<notin> set xs"
proof (induction xs arbitrary: l)
  case (Cons x xs)
  show ?case using Cons.IH by (cases x) (auto simp: release_contains)
qed simp

lemma released_wf:
  "ledger_wf l \<Longrightarrow> ledger_wf (foldl (\<lambda>l (t, p). release l t p) l xs)"
  "budget_ns_per_s (foldl (\<lambda>l (t, p). release l t p) l xs) = budget_ns_per_s l"
  by (induction xs arbitrary: l) (auto simp: release_wf admission_budget)

lemma routes_removed:
  "route_contains (foldl route_remove r ps) c n e q \<longleftrightarrow> route_contains r c n e q \<and> q \<notin> set ps"
  "matching_count (foldl route_remove r ps) c n f \<le> matching_count r c n f"
proof (induction ps arbitrary: r)
  case (Cons p ps)
  { case 1 then show ?case using Cons.IH(1) [of "route_remove r p"] by (auto simp: route_contains_remove) }
  { case 2 then show ?case using Cons.IH(2) [of "route_remove r p"] matching_count_remove [of r p c n f] by simp }
qed simp_all

lemma detach_owner_attached: "attached_to (detach_owner m owner) t = filter (\<lambda>p. \<not> owned_program m owner p) (attached_to m t)"
  by (cases "bm_attachments m t") (auto simp: attached_to_def detach_owner_def Let_def)

lemma detached_hooks:
  fixes owner :: u64
  assumes inv: "manager_inv P m"
  defines "n \<equiv> unroute_owner (detach_owner m owner) owner"
  shows "attach_inv n" "routes_inv n" "ledger_inv P n"
proof -
  note parts = hook_parts [OF inv]
  let ?own = "owned_program m owner"
  have tab: "program_table n = program_table m" by (simp add: n_def unroute_owner_def detach_owner_def)
  have pe: "program_entry_at n = program_entry_at m" using tab by (simp add: program_entry_at_def fun_eq_iff)
  have at: "attached_to n t = filter (\<lambda>p. \<not> ?own p) (attached_to m t)" for t
  proof -
    have "attached_to n = attached_to (detach_owner m owner)" by (rule attached_frame) (simp add: n_def unroute_owner_def)
    then show ?thesis by (simp add: detach_owner_attached)
  qed
  have bn: "bm_attachments n t = Some qs \<Longrightarrow> \<exists>ps. bm_attachments m t = Some ps \<and> qs = filter (\<lambda>p. \<not> ?own p) ps" for t qs
    by (auto simp: n_def unroute_owner_def detach_owner_def Let_def split: option.splits if_splits)
  show "attach_inv n"
    unfolding attach_inv_def pe
  proof (intro allI impI)
    fix t qs
    assume "bm_attachments n t = Some qs"
    then obtain ps where ps: "bm_attachments m t = Some ps" "qs = filter (\<lambda>p. \<not> ?own p) ps" using bn by blast
    have "is_supported_attach_type t" "distinct ps" "length ps \<le> HOOK_FANOUT_LIMIT" "\<forall>p\<in>set ps. program_entry_at m p \<noteq> None"
      using parts(1) ps(1) unfolding attach_inv_def by blast+
    then show "is_supported_attach_type t \<and> distinct qs \<and> length qs \<le> HOOK_FANOUT_LIMIT \<and> (\<forall>p\<in>set qs. program_entry_at m p \<noteq> None)"
      by (auto simp: ps(2) intro: order_trans [OF length_filter_le])
  qed
  show "routes_inv n"
  proof -
    let ?ps = "[encode_handle i (bm_program_generations m ! i). i \<leftarrow> [0..<length (bm_programs m)],
            case bm_programs m ! i of None \<Rightarrow> False | Some e \<Rightarrow> pe_owner e = owner]"
    have r: "bm_gpio_routes n = foldl route_remove (bm_gpio_routes m) ?ps"
      by (simp add: n_def unroute_owner_def detach_owner_def cong: if_cong option.case_cong)
    have "q \<in> set ?ps" if own: "?own q" for q
    proof -
      obtain e where e: "program_entry_at m q = Some e" "pe_owner e = owner" using own by (auto simp: owned_program_def split: option.splits)
      note s = live_program_slot [OF inv e(1)]
      show ?thesis using s e(2) by (auto intro!: bexI [of _ "handle_slot q"])
    qed
    then have "q \<in> set (attached_to n ATTACH_TYPE_GPIO)" if "route_contains (bm_gpio_routes n) c k e q" for c k e q
      using that parts(2) unfolding r routes_removed(1) at routes_inv_def by auto
    then show ?thesis using parts(2) unfolding routes_inv_def r by (auto intro: order_trans [OF routes_removed(2)])
  qed
  show "ledger_inv P n"
  proof -
    let ?xs = "[(of_nat i, p). i \<leftarrow> [0..<GENERIC_HOOK_SLOTS], p \<leftarrow> attached_to m (of_nat i), ?own p] :: (u32 \<times> u32) list"
    have l: "bm_admission n = foldl (\<lambda>l (t, p). release l t p) (bm_admission m) ?xs" by (simp add: n_def unroute_owner_def detach_owner_def)
    have xs: "(t, q) \<in> set ?xs \<longleftrightarrow> q \<in> set (attached_to m t) \<and> ?own q" for t q
    proof -
      have "is_supported_attach_type t" if "q \<in> set (attached_to m t)"
        using that parts(1) by (cases "bm_attachments m t") (auto simp: attached_to_def attach_inv_def)
      then have "q \<in> set (attached_to m t) \<Longrightarrow> unat t \<in> set [0..<GENERIC_HOOK_SLOTS] \<and> of_nat (unat t) = t" using supported_slot by auto
      then show ?thesis by (force simp: set_concat)
    qed
    have "table_contains (bm_attachments n) t q \<longleftrightarrow> ledger_contains (bm_admission n) t q" if "in_sync (bm_attachments m) (bm_admission m)" for t q
      using that unfolding table_contains_attached at l released_contains xs in_sync_def by auto
    then show ?thesis using parts(4) released_wf [of "bm_admission m" ?xs] unfolding ledger_inv_def l [symmetric] in_sync_def by simp
  qed
qed

lemma revoke_grants_follows:
  assumes inv: "manager_inv P m"
  shows "follows_from P m (revoke_grants m owner)"
proof -
  let ?f = "\<lambda>e. e\<lparr>me_grants := revoke_owner (me_grants e) owner\<rparr>"
  let ?xs = "map (map_option ?f) (bm_maps m)"
  let ?pins = "map (\<lambda>pin. if pin_owner pin = owner then pin\<lparr>pin_owner := PINNED_MAP_OWNER\<rparr> else pin) (bm_pinned_maps m)"
  have nw: "no_wider e (?f e)" for e
    by (auto simp: no_wider_def entry_grants_def entry_access_for_def revoke_owner_access split: if_splits)
  have rel: "list_all2 (rel_option R) (bm_maps m) ?xs" if "\<And>e. R e (?f e)" for R
    using that by (auto simp: list_all2_conv_all_nth option.rel_map intro: option.rel_refl_strong)
  have "tweaked P m ?xs"
    unfolding tweaked_def
  proof (intro conjI allI impI)
    show "list_all2 (rel_option same_entry) (bm_maps m) ?xs" by (rule rel) (simp add: same_entry_def)
    fix slot e
    assume at: "slot < length ?xs" "?xs ! slot = Some e"
    then obtain e0 where "bm_maps m ! slot = Some e0" "e = ?f e0" by auto
    then show "map_entry_ok P slot e" using slot_entry_ok [OF inv, of slot e0] at(1) by (simp add: map_entry_ok_def)
  qed
  then have f: "follows_from P m (m\<lparr>bm_maps := ?xs\<rparr>)" by (rule tweak_follows [OF inv]) (rule rel, rule nw)
  then have i: "manager_inv P (m\<lparr>bm_maps := ?xs\<rparr>)" by (simp add: follows_from_def)
  have "follows_from P (m\<lparr>bm_maps := ?xs\<rparr>) (m\<lparr>bm_maps := ?xs\<rparr>\<lparr>bm_pinned_maps := ?pins\<rparr>)"
  proof (rule pins_follow [OF i])
    have "map pin_path ?pins = map pin_path (bm_pinned_maps m)" by simp
    then show "distinct (map pin_path ?pins)" using inv unfolding manager_inv_def pins_inv_def by metis
    show "\<forall>pin\<in>set ?pins. map_entry_at (m\<lparr>bm_maps := ?xs\<rparr>) (pin_map_id pin) \<noteq> None" using i by (auto simp: manager_inv_def pins_inv_def)
    show "length ?pins \<le> max_pinned_maps (bm_limits (m\<lparr>bm_maps := ?xs\<rparr>))" using inv by (simp add: manager_inv_def quota_inv_def)
  qed
  then show ?thesis using follows_trans [OF f] by (simp add: revoke_grants_def)
qed

section \<open>Removing what the owner had\<close>

lemma reclaim_program_follows:
  assumes inv: "manager_inv P m" and slot: "slot < length (bm_programs m)"
    and free: "\<forall>t. \<forall>p\<in>set (attached_to m t). \<not> owned_program m owner p"
  shows "follows_from P m (reclaim_program env owner m slot) \<and> length (bm_programs (reclaim_program env owner m slot)) = length (bm_programs m) \<and>
     (\<forall>t. \<forall>p\<in>set (attached_to (reclaim_program env owner m slot) t). \<not> owned_program (reclaim_program env owner m slot) owner p)"
proof (cases "\<exists>e. bm_programs m ! slot = Some e \<and> pe_owner e = owner \<and> \<not> program_shared env m (encode_handle slot (bm_program_generations m ! slot))")
  case False
  then have "reclaim_program env owner m slot = m" by (auto simp: reclaim_program_def split: option.split)
  then show ?thesis using follows_refl [OF inv] free by simp
next
  case True
  then obtain e where e: "bm_programs m ! slot = Some e" "pe_owner e = owner" and r: "reclaim_program env owner m slot = take_program m slot"
    by (auto simp: reclaim_program_def)
  have ok: "slot_table_ok (program_table m)" using inv by (simp add: manager_inv_def tables_inv_def)
  then have ok': "slot_table_ok ((bm_programs m)[slot := None], bm_program_generations m)" by (simp add: slot_table_ok_def)
  have "owned_program m owner (encode_handle slot (bm_program_generations m ! slot))"
    using entry_at_encode [OF ok, of slot] slot e by (simp add: owned_program_def program_entry_at_def)
  then have "follows_from P m (take_program m slot)" by (intro take_program_follows [OF inv slot e(1)]) (use free in blast)
  moreover have "owned_program (take_program m slot) owner p \<Longrightarrow> owned_program m owner p" for p
    using e slot unfolding owned_program_def program_entry_at_def take_program_def
    by (auto simp: entry_at_conv [OF ok] entry_at_conv [OF ok'] nth_list_update split: if_splits option.splits)
  moreover have "attached_to (take_program m slot) = attached_to m" by (rule attached_frame) (simp add: take_program_def e)
  ultimately show ?thesis using free unfolding r by (auto simp: take_program_def e)
qed

lemma reclaim_map_follows:
  assumes inv: "manager_inv P m" and slot: "slot < length (bm_maps m)"
  shows "follows_from P m (reclaim_map owner m slot) \<and> length (bm_maps (reclaim_map owner m slot)) = length (bm_maps m)"
proof (cases "\<exists>e. bm_maps m ! slot = Some e \<and> me_owner e = owner \<and> me_charged_bytes e \<noteq> 0")
  case False
  then have "reclaim_map owner m slot = m" by (auto simp: reclaim_map_def split: option.split)
  then show ?thesis using follows_refl [OF inv] by simp
next
  case True
  then obtain e where e: "bm_maps m ! slot = Some e" "me_owner e = owner" "me_charged_bytes e \<noteq> 0" by blast
  note ok = slot_entry_ok [OF inv slot e(1)]
  have s0: "slot \<noteq> 0" using ok e(3) by (auto simp: map_entry_ok_def split: if_splits)
  let ?e = "e\<lparr>me_owner := PINNED_MAP_OWNER\<rparr>"
  have "access_contains ACCESS_READ_WRITE a" if "a \<in> {ACCESS_READ, ACCESS_WRITE}" for a
    using that by (auto simp: access_contains_def ACCESS_READ_WRITE_def ACCESS_READ_def ACCESS_WRITE_def)
  then have "no_wider e ?e" by (auto simp: no_wider_def entry_grants_def entry_access_for_def)
  then have "follows_from P m (m\<lparr>bm_maps := (bm_maps m)[slot := Some ?e]\<rparr>)"
    by (intro tweak_one_follows [OF inv slot e(1)]) (use ok s0 in \<open>simp_all add: same_entry_def map_entry_ok_def\<close>)
  then show ?thesis using e take_map_follows [OF inv slot e(1) s0] by (auto simp: reclaim_map_def take_map_def)
qed

lemma reclaim_owner_follows:
  assumes inv: "manager_inv P m"
  shows "\<exists>b m'. reclaim_owner env m owner = Some (b, m') \<and> follows_from P m m'"
proof (cases "ke_reserve env ResSnapshot")
  case False
  then show ?thesis using follows_refl [OF inv] by (auto simp: reclaim_owner_def)
next
  case True
  let ?n = "unroute_owner (detach_owner m owner) owner"
  have n: "?n = with_hooks m (bm_attachments ?n) (bm_admission ?n) (bm_gpio_routes ?n)"
    by (simp add: unroute_owner_def detach_owner_def)
  note dh = detached_hooks [OF inv, of owner]
  obtain m1 s where p: "publish_hook_snapshot ?n = Some m1" "follows_from P m m1" "m1 = ?n\<lparr>bm_snapshot := Some s\<rparr>"
    using publish_hooks [OF inv, where t = "bm_attachments ?n" and l = "bm_admission ?n" and r = "bm_gpio_routes ?n", folded n] dh by blast
  have "program_table m1 = program_table m" "bm_attachments m1 = bm_attachments ?n"
    by (simp_all add: p(3) unroute_owner_def detach_owner_def)
  note m1 = p(1,2) this
  let ?m2 = "revoke_grants m1 owner"
  let ?J = "\<lambda>k. length (bm_programs k) = length (bm_programs ?m2) \<and> (\<forall>t. \<forall>p\<in>set (attached_to k t). \<not> owned_program k owner p)"
  have f2: "follows_from P m1 ?m2" by (rule revoke_grants_follows) (use m1(2) in \<open>simp add: follows_from_def\<close>)
  have at: "attached_to ?m2 = attached_to (detach_owner m owner)"
    by (rule attached_frame) (simp add: revoke_grants_def m1(4) unroute_owner_def)
  have "owned_program ?m2 = owned_program m"
    using m1(3) by (simp add: fun_eq_iff owned_program_def program_entry_at_def revoke_grants_def)
  then have J: "?J ?m2" using at by (simp add: detach_owner_attached)
  let ?m3 = "foldl (reclaim_program env owner) ?m2 [0..<length (bm_programs ?m2)]"
  have f3: "follows_from P ?m2 ?m3 \<and> ?J ?m3"
  proof (rule follows_foldl)
    show "manager_inv P ?m2" using f2 by (simp add: follows_from_def)
    fix k x
    assume "x \<in> set [0..<length (bm_programs ?m2)]" "manager_inv P k" "?J k"
    then show "follows_from P k (reclaim_program env owner k x) \<and> ?J (reclaim_program env owner k x)"
      using reclaim_program_follows [of P k x owner env] by simp
  qed (rule J)
  have f03: "follows_from P m ?m3" using m1(2) f2 f3 follows_trans by blast
  let ?m4 = "foldl (reclaim_map owner) ?m3 [0..<length (bm_maps ?m3)]"
  have f4: "follows_from P ?m3 ?m4 \<and> length (bm_maps ?m4) = length (bm_maps ?m3)"
  proof (rule follows_foldl)
    show "manager_inv P ?m3" using f3 by (simp add: follows_from_def)
    fix k x
    assume "x \<in> set [0..<length (bm_maps ?m3)]" "manager_inv P k" "length (bm_maps k) = length (bm_maps ?m3)"
    then show "follows_from P k (reclaim_map owner k x) \<and> length (bm_maps (reclaim_map owner k x)) = length (bm_maps ?m3)"
      using reclaim_map_follows [of P k x owner] by simp
  qed simp
  have "follows_from P ?m4 (reclaim_orphans ?m4)" by (rule reclaim_orphans_follows) (use f4 in \<open>simp add: follows_from_def\<close>)
  then have f5: "follows_from P m (reclaim_orphans ?m4)" using f03 f4 follows_trans by blast
  show ?thesis unfolding reclaim_owner_def Let_def m1(1) option.case using True f03 f5 by (simp only: if_False not_True_eq_False simp_thms) auto
qed

end
