(* ===== verification/Manager_Safety.thy ===== *)
theory Manager_Safety
  imports Manager_Reclaim
begin

text \<open>
  Sequences of operations of the BPF manager, from boot: whoever calls which operation with whatever
  arguments, nothing panics, the accounting is exact, dispatch runs what is attached, a handle whose object
  is gone stays dead, and access to a map comes from creating it or from opening a pin.
\<close>

section \<open>Operations\<close>

text \<open>One constructor per entry point, with the owner that calls it and its arguments.\<close>

datatype manager_op =
    OpLoadRaw u64 "bpf_insn list" load_authorization
  | OpLoadBuiltin "bpf_insn list"
  | OpLoadElf "bytes \<Rightarrow> bool \<Rightarrow> bytes option" "bytes \<Rightarrow> bpf_insn list list option" u64 bytes load_authorization
  | OpAttach u64 u32 u32
  | OpAttachGpio u64 u8 u8 gpio_edge u32
  | OpDetach u64 u32 u32
  | OpUnload u64 u32
  | OpCreateMap u64 u32 u32 u32 u32
  | OpDestroyMap u64 u32
  | OpLookup u64 u32 bytes
  | OpUpdate u64 u32 bytes bytes u64
  | OpOutput u32 bytes u64
  | OpDelete u64 u32 bytes
  | OpPin u64 string u32 map_access
  | OpOpenPin u64 string map_access
  | OpUnpin u64 string bool
  | OpReclaim u64
  | OpExecMap execution u32 map_access
  | OpExecDrop execution

abbreviation left_behind :: "'a answer \<Rightarrow> manager option" where
  "left_behind \<equiv> map_option snd"

primrec apply_op :: "profile \<Rightarrow> kernel_env \<Rightarrow> manager \<Rightarrow> manager_op \<Rightarrow> manager option" where
  "apply_op P env m (OpLoadRaw owner insns auth) = left_behind (load_raw_program_authorized P env m owner insns auth)"
| "apply_op P env m (OpLoadBuiltin insns) = left_behind (load_kernel_builtin_program P env m insns)"
| "apply_op P env m (OpLoadElf authenticate elf_load owner elf auth) =
     left_behind (load_program_authorized authenticate elf_load P env m owner elf auth)"
| "apply_op P env m (OpAttach owner hook p) = left_behind (attach_for P env m owner hook p)"
| "apply_op P env m (OpAttachGpio owner chip pin edge p) = left_behind (attach_gpio_route_for P env m owner chip pin edge p)"
| "apply_op P env m (OpDetach owner hook p) = left_behind (detach_for env m owner hook p)"
| "apply_op P env m (OpUnload owner p) = left_behind (unload_program_for env m owner p)"
| "apply_op P env m (OpCreateMap owner ty ks vs n) = left_behind (create_map_for P env m owner ty ks vs n)"
| "apply_op P env m (OpDestroyMap owner h) = left_behind (destroy_map_for m owner h)"
| "apply_op P env m (OpLookup owner h key) = left_behind (map_lookup_for m owner h key)"
| "apply_op P env m (OpUpdate owner h key val flags) = left_behind (map_update_for m owner h key val flags)"
| "apply_op P env m (OpOutput h data flags) = left_behind (ringbuf_output m h data flags)"
| "apply_op P env m (OpDelete owner h key) = left_behind (map_delete_for m owner h key)"
| "apply_op P env m (OpPin owner path h offered) = left_behind (pin_map_with_access_for env m owner path h offered)"
| "apply_op P env m (OpOpenPin owner path requested) = left_behind (get_pinned_map_for env m owner path requested)"
| "apply_op P env m (OpUnpin owner path allow) = left_behind (unpin_map_for m owner path allow)"
| "apply_op P env m (OpReclaim owner) = map_option snd (reclaim_owner env m owner)"
| "apply_op P env m (OpExecMap ex h required) = Some (snd (snd (execution_map m ex h required)))"
| "apply_op P env m (OpExecDrop ex) = Some (execution_drop m ex)"

text \<open>
  What the types of the arguments guarantee: a slice is at most \<open>isize::MAX\<close> bytes long, and an execution
  holds a reference to its program and to the maps it leased.
\<close>

primrec op_allowed :: "manager \<Rightarrow> manager_op \<Rightarrow> bool" where
  "op_allowed m (OpLoadRaw owner insns auth) = True"
| "op_allowed m (OpLoadBuiltin insns) = True"
| "op_allowed m (OpLoadElf authenticate elf_load owner elf auth) = True"
| "op_allowed m (OpAttach owner hook p) = True"
| "op_allowed m (OpAttachGpio owner chip pin edge p) = True"
| "op_allowed m (OpDetach owner hook p) = True"
| "op_allowed m (OpUnload owner p) = True"
| "op_allowed m (OpCreateMap owner ty ks vs n) = True"
| "op_allowed m (OpDestroyMap owner h) = True"
| "op_allowed m (OpLookup owner h key) = True"
| "op_allowed m (OpUpdate owner h key val flags) = (length val < 2 ^ 63)"
| "op_allowed m (OpOutput h data flags) = (length data < 2 ^ 63)"
| "op_allowed m (OpDelete owner h key) = True"
| "op_allowed m (OpPin owner path h offered) = True"
| "op_allowed m (OpOpenPin owner path requested) = True"
| "op_allowed m (OpUnpin owner path allow) = True"
| "op_allowed m (OpReclaim owner) = True"
| "op_allowed m (OpExecMap ex h required) = (Some (ex_program ex) \<in> set (bm_programs m))"
| "op_allowed m (OpExecDrop ex) = (\<forall>slot\<in>set (ex_leased ex). slot < length (bm_maps m))"

inductive manager_step :: "profile \<Rightarrow> manager \<Rightarrow> manager \<Rightarrow> bool" for P where
  step: "op_allowed m op \<Longrightarrow> apply_op P env m op = Some m' \<Longrightarrow> manager_step P m m'"

definition reachable_manager :: "profile \<Rightarrow> manager \<Rightarrow> bool" where
  "reachable_manager P m \<longleftrightarrow> (\<exists>limits allow mon. (manager_step P)\<^sup>*\<^sup>* (fst (manager_new P limits allow mon)) m)"

section \<open>Every operation\<close>

lemma safe_left: "safe_answer P m ans \<Longrightarrow> \<exists>m'. left_behind ans = Some m' \<and> follows_from P m m'"
  by (auto simp: safe_answer_def)

lemma execution_map_follows:
  assumes inv: "manager_inv P m" and p: "Some (ex_program ex) \<in> set (bm_programs m)"
  shows "follows_from P m (snd (snd (execution_map m ex h required)))"
proof -
  have "slot < length (bm_maps m)" if rt: "runtime_map (ex_program ex) h required = Some slot" for slot
  proof -
    obtain r where "slot < length (pe_maps (ex_program ex))" "pe_maps (ex_program ex) ! slot = Some r"
      using rt by (auto simp: runtime_map_def Let_def split: if_splits option.splits)
    then show ?thesis using inv p by (auto simp: manager_inv_def refs_inv_def)
  qed
  then show ?thesis using follows_refl [OF inv] set_lease_follows [OF inv]
    by (auto simp: execution_map_def split: option.split)
qed

lemma execution_drop_follows:
  assumes inv: "manager_inv P m" and l: "\<forall>slot\<in>set (ex_leased ex). slot < length (bm_maps m)"
  shows "follows_from P m (execution_drop m ex)"
proof -
  have "follows_from P m (foldl (set_lease False) m (ex_leased ex)) \<and> length (bm_maps (foldl (set_lease False) m (ex_leased ex))) = length (bm_maps m)"
  proof (rule follows_foldl [OF inv])
    fix n x
    assume "x \<in> set (ex_leased ex)" "manager_inv P n" "length (bm_maps n) = length (bm_maps m)"
    then show "follows_from P n (set_lease False n x) \<and> length (bm_maps (set_lease False n x)) = length (bm_maps m)"
      using set_lease_follows [of P n x False] l by simp
  qed simp
  then show ?thesis by (simp add: execution_drop_def)
qed

text \<open>Who can gain what by an operation.\<close>

fun gains :: "manager \<Rightarrow> manager \<Rightarrow> manager_op \<Rightarrow> bool" where
  "gains m m' (OpCreateMap owner _ _ _ _) \<longleftrightarrow> m' = m \<or> (\<exists>h. created owner h m m')"
| "gains m m' (OpOpenPin owner path requested) \<longleftrightarrow> m' = m \<or>
     (\<exists>pin\<in>set (bm_pinned_maps m). pin_path pin = path \<and> access_contains (pin_offered pin) requested \<and> opened owner (pin_map_id pin) requested m m')"
| "gains m m' _ \<longleftrightarrow> access_mono m m'"

lemma apply_op_inv:
  assumes inv: "manager_inv P m" and ok: "op_allowed m op"
  shows "\<exists>m'. apply_op P env m op = Some m' \<and> manager_inv P m' \<and> handles_mono m m' \<and> gains m m' op"
proof (cases op)
  case (OpCreateMap owner ty ks vs n)
  obtain r m' where r: "create_map_for P env m owner ty ks vs n = Some (r, m')" "manager_inv P m'" "handles_mono m m'"
      "case r of Inl _ \<Rightarrow> m' = m | Inr h \<Rightarrow> created owner h m m'"
    using create_map_answer [OF inv, of P env owner ty ks vs n] by blast
  then have "m' = m \<or> (\<exists>h. created owner h m m')" by (cases r) auto
  then show ?thesis using r OpCreateMap by simp
next
  case (OpOpenPin owner path requested)
  obtain r m' where r: "get_pinned_map_for env m owner path requested = Some (r, m')" "manager_inv P m'" "handles_mono m m'"
      "case r of Inl _ \<Rightarrow> m' = m | Inr h \<Rightarrow> opened owner h requested m m' \<and>
          (\<exists>pin\<in>set (bm_pinned_maps m). pin_path pin = path \<and> pin_map_id pin = h \<and> access_contains (pin_offered pin) requested)"
    using get_pinned_answer [OF inv, of env owner path requested] by blast
  then have "gains m m' op" using OpOpenPin by (cases r) auto
  then show ?thesis using r OpOpenPin by simp
next
  case (OpReclaim owner)
  then show ?thesis using reclaim_owner_follows [OF inv, of env owner] by (auto simp: follows_from_def)
next
  case (OpExecMap ex h required)
  then show ?thesis using execution_map_follows [OF inv] ok by (simp add: follows_from_def)
next
  case (OpExecDrop ex)
  then show ?thesis using execution_drop_follows [OF inv] ok by (simp add: follows_from_def)
next
  case (OpLoadRaw owner insns auth)
  then show ?thesis using safe_left [OF load_raw_safe [OF inv, of P env owner insns auth]] by (simp add: follows_from_def)
next
  case (OpLoadBuiltin insns)
  then show ?thesis using safe_left [OF load_verified_safe [OF inv, of P env 0 insns kernel_authorization]]
    by (simp add: follows_from_def load_kernel_builtin_program_def)
next
  case (OpLoadElf authenticate elf_load owner elf auth)
  then show ?thesis using safe_left [OF load_elf_safe [OF inv, of authenticate elf_load P env owner elf auth]] by (simp add: follows_from_def)
next
  case (OpAttach owner hook p)
  then show ?thesis using safe_left [OF attach_for_safe [OF inv, of P env owner hook p]] by (simp add: follows_from_def)
next
  case (OpAttachGpio owner chip pin edge p)
  then show ?thesis using safe_left [OF attach_gpio_safe [OF inv, of P env owner chip pin edge p]] by (simp add: follows_from_def)
next
  case (OpDetach owner hook p)
  then show ?thesis using safe_left [OF detach_for_safe [OF inv, of env owner hook p]] by (simp add: follows_from_def)
next
  case (OpUnload owner p)
  then show ?thesis using safe_left [OF unload_safe [OF inv, of env owner p]] by (simp add: follows_from_def)
next
  case (OpDestroyMap owner h)
  then show ?thesis using safe_left [OF destroy_map_safe [OF inv, of owner h]] by (simp add: follows_from_def)
next
  case (OpLookup owner h key)
  then show ?thesis using safe_left [OF map_lookup_safe [OF inv, of owner h key]] by (simp add: follows_from_def)
next
  case (OpUpdate owner h key val flags)
  then show ?thesis using safe_left [OF map_update_for_safe [OF inv, of val owner h key flags]] ok by (simp add: follows_from_def)
next
  case (OpOutput h data flags)
  then show ?thesis using safe_left [OF map_update_safe [OF inv, of data h "[]" flags]] ok by (simp add: follows_from_def ringbuf_output_def)
next
  case (OpDelete owner h key)
  then show ?thesis using safe_left [OF map_delete_safe [OF inv, of owner h key]] by (simp add: follows_from_def)
next
  case (OpPin owner path h offered)
  then show ?thesis using safe_left [OF pin_map_safe [OF inv, of env owner path h offered]] by (simp add: follows_from_def)
next
  case (OpUnpin owner path allow)
  then show ?thesis using safe_left [OF unpin_map_safe [OF inv, of owner path allow]] by (simp add: follows_from_def)
qed

section \<open>From boot\<close>

lemma manager_new_inv: "manager_inv P (fst (manager_new P limits allow mon))"
proof -
  let ?m = "fst (manager_new P limits allow mon)"
  have at: "attached_to ?m t = []" for t by (simp add: attached_to_def manager_new_def register_reserved_map_def Let_def)
  have "tables_inv P ?m"
    by (auto simp: manager_new_def register_reserved_map_def tables_inv_def slot_table_ok_def map_entry_ok_def Let_def)
  moreover have "usage_inv ?m" "quota_inv ?m" "refs_inv ?m" "pins_inv ?m" "attach_inv ?m"
    by (simp_all add: manager_new_def register_reserved_map_def usage_inv_def quota_inv_def refs_inv_def pins_inv_def attach_inv_def owner_defs Let_def)
  moreover have "bm_snapshot ?m = None" "bm_gpio_routes ?m = Map.empty" by (simp_all add: manager_new_def register_reserved_map_def Let_def)
  then have "snap_inv ?m" "routes_inv ?m" by (simp_all add: snap_inv_def routes_inv_def at matching_count_def route_contains_def)
  moreover have "ledger_inv P ?m"
    by (simp add: manager_new_def register_reserved_map_def Let_def ledger_inv_def ledger_wf_new in_sync_def table_contains_def ledger_contains_def)
      (simp add: ledger_new_def)
  ultimately show ?thesis by (simp add: manager_inv_def)
qed

lemma manager_step_inv:
  assumes "manager_step P m m'" "manager_inv P m"
  shows "manager_inv P m' \<and> handles_mono m m'"
  using assms
proof cases
  case (step op env)
  then show ?thesis using apply_op_inv [OF assms(2), of op env] by auto
qed

lemma manager_steps_inv:
  assumes "(manager_step P)\<^sup>*\<^sup>* m m'" "manager_inv P m"
  shows "manager_inv P m' \<and> handles_mono m m'"
  using assms
proof (induction rule: rtranclp_induct)
  case base
  then show ?case using follows_refl [of P m] by (simp add: follows_from_def)
next
  case (step n k)
  then show ?case using manager_step_inv [of P n k] handles_mono_trans [of m n k] by simp
qed

lemma reachable_inv: "reachable_manager P m \<Longrightarrow> manager_inv P m"
  using manager_steps_inv [OF _ manager_new_inv] unfolding reachable_manager_def by blast

section \<open>Dispatch\<close>

lemma generic_slot: "snap_generic (snapshot_view (bm_attachments m) r) ! unat t = attached_to m t \<and>
    length (snap_generic (snapshot_view (bm_attachments m) r)) = GENERIC_HOOK_SLOTS" if "unat t < GENERIC_HOOK_SLOTS"
  using that by (simp add: snapshot_view_def attached_to_def)

lemma hook_programs_exact:
  assumes "manager_inv P m"
  shows "hook_programs m t = attached_to m t"
proof (cases "unat t < GENERIC_HOOK_SLOTS")
  case True
  then show ?thesis using hook_parts(3) [OF assms] generic_slot [of t m "bm_gpio_routes m"]
    by (auto simp: hook_programs_def snap_inv_def split: option.splits)
next
  case False
  then have "bm_attachments m t = None" using hook_parts(1) [OF assms] supported_slot [of t]
    by (cases "bm_attachments m t") (auto simp: attach_inv_def)
  then show ?thesis using False hook_parts(3) [OF assms]
    by (auto simp: hook_programs_def snap_inv_def attached_to_def snapshot_view_def split: option.splits)
qed

lemma gpio_slot:
  assumes "n < BPF_GPIO_PIN_COUNT" "k < 3"
  shows "n * GPIO_EDGE_SLOTS + k < length gpio_slots" "gpio_slots ! (n * GPIO_EDGE_SLOTS + k) = (n, of_nat (Suc k))"
proof -
  have d: "(n * 3 + k) div 3 = n" "(n * 3 + k) mod 3 = k" using assms(2) by simp_all
  have "[1, 2, 3 :: u32] ! k = of_nat (Suc k)" using assms(2) by (auto simp: less_Suc_eq numeral_3_eq_3)
  then show "n * GPIO_EDGE_SLOTS + k < length gpio_slots" "gpio_slots ! (n * GPIO_EDGE_SLOTS + k) = (n, of_nat (Suc k))"
    using assms d by (simp_all add: gpio_slots_def GPIO_EDGE_SLOTS_def BPF_GPIO_PIN_COUNT_def product_nth)
qed

lemma gpio_programs_exact:
  assumes inv: "manager_inv P m" and pin: "unat pin < BPF_GPIO_PIN_COUNT"
  shows "gpio_programs m 0 pin fired = programs_for (bm_gpio_routes m) 0 pin fired"
proof (cases "bm_snapshot m")
  case None
  then have "attached_to m ATTACH_TYPE_GPIO = []" using hook_parts(3) [OF inv] by (simp add: snap_inv_def)
  then have "\<not> route_contains (bm_gpio_routes m) 0 pin e p" for e p using hook_parts(2) [OF inv] unfolding routes_inv_def by auto
  then have "p \<notin> set (programs_for (bm_gpio_routes m) 0 pin fired)" for p by (simp add: programs_for_iff)
  then have "set (programs_for (bm_gpio_routes m) 0 pin fired) = {}" by (meson equals0I)
  then show ?thesis using None by (simp add: gpio_programs_def Let_def)
next
  case (Some s)
  then have s: "s = snapshot_view (bm_attachments m) (bm_gpio_routes m)" using hook_parts(3) [OF inv] by (simp add: snap_inv_def)
  have p: "of_nat (unat pin) = pin" by simp
  show ?thesis using gpio_slot [OF pin, of 0] gpio_slot [OF pin, of 1] gpio_slot [OF pin, of 2] pin
    by (cases fired) (simp_all add: gpio_programs_def Some s gpio_index_def snapshot_view_def edge_from_flags_def)
qed

section \<open>Access\<close>

text \<open>Access in the terms of the manager's own check.\<close>

lemma ensure_map_access_iff:
  assumes inv: "manager_inv P m" and a: "a \<in> {ACCESS_READ, ACCESS_WRITE}"
  shows "ensure_map_access m owner h a = Inr () \<longleftrightarrow> may_access m owner h a \<or> h = 0"
proof -
  have rw: "access_contains ACCESS_READ_WRITE a"
    using a by (auto simp: access_contains_def ACCESS_READ_WRITE_def ACCESS_READ_def ACCESS_WRITE_def)
  have tabs: "tables_inv P m" using inv by (simp add: manager_inv_def)
  then have ok: "slot_table_ok (map_table m)" by (simp add: tables_inv_def)
  have z: "handle_slot 0 = 0" "handle_generation 0 = 0" by (simp_all add: handle_slot_def handle_generation_def)
  show ?thesis
  proof (cases "map_entry_at m h")
    case None
    have "map_entry_at m 0 \<noteq> None" using tabs unfolding map_entry_at_def entry_at_conv [OF ok] by (simp add: tables_inv_def z)
    then have "h \<noteq> 0" using None by auto
    then show ?thesis using None by (simp add: ensure_map_access_def may_access_def)
  next
    case (Some e)
    note s = live_map_slot [OF inv Some]
    have "me_charged_bytes e = 0 \<longleftrightarrow> handle_slot h = 0" using s(4) by (simp add: map_entry_ok_def split: if_splits)
    moreover have "handle_slot h = 0 \<longleftrightarrow> h = 0"
    proof
      assume h: "handle_slot h = 0"
      then have "handle_generation h = 0"
        using Some tabs unfolding map_entry_at_def entry_at_conv [OF ok] by (simp add: tables_inv_def split: if_splits)
      then show "h = 0" using h z by (metis handle_eqI)
    qed (simp add: z)
    ultimately show ?thesis using Some rw
      by (auto simp: ensure_map_access_def may_access_def entry_grants_def split: option.splits)
  qed
qed

end
