(* ===== verification/Manager_Examples.thy ===== *)
theory Manager_Examples
  imports Manager_Safety Examples
begin

text \<open>
  Concrete histories of the manager, on which its properties are evaluated: from boot, an owner creates
  an array map, destroys it, and creates another one in the same slot; or the kernel loads a program and
  attaches it to the timer.
\<close>

definition sample_kernel :: kernel_env where
  "sample_kernel = \<lparr>ke_heap = \<lambda>_. True, ke_reserve = \<lambda>_. True, ke_in_flight = \<lambda>_. False\<rparr>"

definition booted :: manager where
  "booted = fst (manager_new EmbeddedProfile (limits_for_profile EmbeddedProfile) False (monitor_new EmbeddedProfile))"

definition sample_array :: array_map where
  "sample_array = \<lparr>am_def = map_def_new MtArray 4 8 4, am_data = \<lparr>as_buffer = vec_resize [] 32 0, as_value_size = 8, as_max_entries = 4\<rparr>\<rparr>"

definition sample_entry :: map_entry where
  "sample_entry = \<lparr>me_map = ArrayObj sample_array, me_leased = False, me_perm = MapReadWrite, me_charged_bytes = 32, me_owner = 7, me_grants = []\<rparr>"

definition with_map :: manager where
  "with_map = booted\<lparr>bm_maps := bm_maps booted @ [Some sample_entry], bm_map_generations := [0, 0], bm_live_maps := 1, bm_map_bytes := 32\<rparr>"

definition without_map :: manager where
  "without_map = booted\<lparr>bm_maps := bm_maps booted @ [None], bm_map_generations := [0, 0]\<rparr>"

definition branch_entry :: program_entry where
  "branch_entry = \<lparr>pe_program = \<lparr>vp_insns = branch_prog, vp_stack_size = 0\<rparr>, pe_maps = [None], pe_wcet_cycles = 98,
     pe_charged_bytes = 32, pe_owner = 0, pe_authorization = kernel_authorization\<rparr>"

definition with_program :: manager where
  "with_program = booted\<lparr>bm_programs := [Some branch_entry], bm_program_generations := [0], bm_live_programs := 1, bm_program_bytes := 32\<rparr>"

definition with_new_map :: manager where
  "with_new_map = with_map\<lparr>bm_map_generations := [0, 1]\<rparr>"

section \<open>Maps\<close>

lemma booted_sel:
  "bm_maps booted = [Some \<lparr>me_map = EnvelopeObj (envelope_map_init EmbeddedProfile), me_leased = False, me_perm = MapReadOnly,
     me_charged_bytes = 0, me_owner = 0, me_grants = []\<rparr>]"
  "bm_map_generations booted = [0]" "bm_live_maps booted = 0" "bm_map_bytes booted = 0" "bm_programs booted = []"
  "bm_program_generations booted = []" "bm_pinned_maps booted = []" "bm_limits booted = limits_for_profile EmbeddedProfile"
  "bm_attachments booted = Map.empty" "bm_live_programs booted = 0" "bm_program_bytes booted = 0" "bm_gpio_routes booted = Map.empty"
  "bm_admission booted = ledger_new (UTILIZATION_BUDGET_NS_PER_S EmbeddedProfile) (CYCLE_UNIT_NS EmbeddedProfile)" "bm_snapshot booted = None"
  by (simp_all add: booted_def manager_new_def register_reserved_map_def Let_def)

lemma handle_eval:
  "encode_handle 1 0 = 1" "handle_slot 1 = 1" "handle_generation 1 = 0" "encode_handle 0 0 = 0" "handle_slot 0 = 0" "handle_generation 0 = 0"
  by (simp_all add: encode_handle_def handle_slot_def handle_generation_def)

lemma create_sample:
  "apply_op EmbeddedProfile sample_kernel booted (OpCreateMap 7 BPF_MAP_TYPE_ARRAY 4 8 4) = Some with_map"
  by (simp add: create_map_for_def map_allocation_charge_def map_shape_charge_def map_type_defs booted_sel limits_for_profile_def
      array_allocation_size_def has_slot_def owner_usage_def map_charges_def map_filter_def new_map_def array_map_with_entries_def
      array_map_new_def map_def_new_def budget_check_def array_storage_new_def try_reserve_exact_def register_user_map_def
      insert_with_reservations_def sample_kernel_def with_map_def sample_entry_def sample_array_def Let_def checked_add_usize_def
      checked_mul_usize_def usize_MAX_def EmbeddedProfile_def)

lemma destroy_sample:
  "apply_op EmbeddedProfile sample_kernel with_map (OpDestroyMap 7 1) = Some without_map"
  by (simp add: destroy_map_for_def map_slot_def entry_slot_def decode_handle_def handle_eval with_map_def without_map_def booted_sel
      RESERVED_MAP_COUNT_def ensure_map_owner_def map_entry_at_def entry_at_def sample_entry_def map_pinned_def map_shared_def take_map_def)

lemma recreate_sample:
  "apply_op EmbeddedProfile sample_kernel without_map (OpCreateMap 7 BPF_MAP_TYPE_ARRAY 4 8 4) = Some with_new_map"
  by (simp add: create_map_for_def map_allocation_charge_def map_shape_charge_def map_type_defs booted_sel limits_for_profile_def
      array_allocation_size_def has_slot_def owner_usage_def map_charges_def map_filter_def new_map_def array_map_with_entries_def
      array_map_new_def map_def_new_def budget_check_def array_storage_new_def try_reserve_exact_def register_user_map_def
      insert_with_reservations_def sample_kernel_def with_map_def without_map_def with_new_map_def sample_entry_def sample_array_def
      Let_def checked_add_usize_def checked_mul_usize_def usize_MAX_def EmbeddedProfile_def can_reuse_def)

section \<open>Reachability\<close>

lemma reachable_manager_step: "reachable_manager P m \<Longrightarrow> op_allowed m op \<Longrightarrow> apply_op P env m op = Some m' \<Longrightarrow> reachable_manager P m'"
  unfolding reachable_manager_def by (meson manager_step.intros rtranclp.rtrancl_into_rtrancl)

lemma booted_reachable: "reachable_manager EmbeddedProfile booted"
  unfolding reachable_manager_def booted_def by blast

lemma sample_steps:
  "(manager_step EmbeddedProfile)\<^sup>*\<^sup>* with_map without_map" "(manager_step EmbeddedProfile)\<^sup>*\<^sup>* without_map with_new_map"
  using manager_step.intros [OF _ destroy_sample] manager_step.intros [OF _ recreate_sample] by auto

lemma sample_lookups:
  "map_entry_at with_map 1 = Some sample_entry" "map_entry_at without_map 1 = None" "map_entry_at booted 1 = None"
  by (simp_all add: map_entry_at_def entry_at_def entry_slot_def decode_handle_def handle_eval with_map_def without_map_def booted_sel)

section \<open>Programs\<close>

lemma branch_config:
  "manager_config booted 0 kernel_authorization n = \<lparr>ctx_size = 56, ctx_data_size = n, map_value_size = 256, map_value_sizes = [24],
    map_perms = [MapReadOnly], map_generations = [0], map_handle_slot_bits = 10, caller = Trusted, allow_actuation = True, forbid_logging_helpers = False\<rparr>"
  by (simp add: manager_config_def map_metadata_for_owner_def booted_sel entry_view_def view_with_def kernel_authorization_def verify_config_with_ctx_data_def
    envelope_map_init_def map_def_new_def context_struct_size_def VERIFY_MAP_VALUE_SIZE_def access_contains_def access_intersect_def
    ACCESS_READ_WRITE_def ACCESS_READ_def ACCESS_WRITE_def)

lemma branch_verified:
  "verify_with_stats EmbeddedProfile branch_prog ((manager_config booted 0 kernel_authorization n)\<lparr>forbid_logging_helpers := b\<rparr>) 
    = Inr (\<lparr>vp_insns = branch_prog, vp_stack_size = 0\<rparr>, \<lparr>states_explored = 4, stat_wcet_cycles = 98, referenced_map_handles = []\<rparr>)"
  by (simp add: branch_prog_def verify_eval call_eval verify_embedded_constraints_def has_loops_def cfg_build_back_edges
      cfg_build_edges check_rt_helpers_def wcet_cycles_def wcet_visit_def insn_cycle_cost_def cost_consts
      refine_scalar_def refine_jeq_def branch_config)

lemma load_sample: "apply_op EmbeddedProfile sample_kernel booted (OpLoadBuiltin branch_prog) = Some with_program"
proof -
  have "manager_config booted 0 kernel_authorization n = (manager_config booted 0 kernel_authorization n)\<lparr>forbid_logging_helpers := False\<rparr>" for n
    by (simp add: branch_config)
  then have v: "verify_with_stats EmbeddedProfile branch_prog (manager_config booted 0 kernel_authorization n)
     = Inr (\<lparr>vp_insns = branch_prog, vp_stack_size = 0\<rparr>, \<lparr>states_explored = 4, stat_wcet_cycles = 98, referenced_map_handles = []\<rparr>)" for n
    using branch_verified [where n = n and b = False] by simp
  have emb: "embedded_feature EmbeddedProfile" by (simp add: EmbeddedProfile_def)
  have "length branch_prog = 4" by (simp add: branch_prog_def)
  then show ?thesis
    by (simp add: load_kernel_builtin_program_def load_verified_raw_program_def v BPF_INSN_SIZE_def checked_mul_usize_def checked_add_usize_def usize_MAX_def
       ensure_program_quota_def booted_sel limits_for_profile_def emb has_slot_def owner_usage_def program_charges_def map_filter_def
       register_program_def program_maps_for_owner_def map_metadata_for_owner_def sample_kernel_def insert_with_reservations_def handle_eval
       with_program_def branch_entry_def Let_def)
qed

lemmas sample_reachable = booted_reachable reachable_manager_step [OF booted_reachable _ load_sample, simplified]
  reachable_manager_step [OF booted_reachable _ create_sample, simplified]

lemmas with_program_inv = reachable_inv [OF sample_reachable(2)]

lemma attach_sample:
  "\<exists>m. apply_op EmbeddedProfile sample_kernel with_program (OpAttach 0 ATTACH_TYPE_TIMER 0) = Some m \<and> attached_to m ATTACH_TYPE_TIMER = [0]"
proof -
  have c: "manager_config with_program 0 kernel_authorization n = manager_config booted 0 kernel_authorization n" for n
    by (simp add: manager_config_def map_metadata_for_owner_def with_program_def)
  have e: "program_entry_at with_program 0 = Some branch_entry"
    by (simp add: program_entry_at_def entry_at_def entry_slot_def decode_handle_def handle_eval with_program_def)
  have v: "validate_attach_for EmbeddedProfile with_program 0 ATTACH_TYPE_TIMER 0 = Inr False"
    by (simp add: validate_attach_for_def e is_supported_attach_type_def Let_def branch_entry_def c branch_verified attached_to_def)
      (simp add: with_program_def booted_sel HOOK_FANOUT_LIMIT_def)
  have parts: "bm_attachments with_program = Map.empty" "ke_reserve sample_kernel ResAttachment"
    by (simp_all add: with_program_def booted_sel sample_kernel_def)
  obtain l where l: "admit (bm_admission with_program) ATTACH_TYPE_TIMER 0 98 (hook_frequency_hz EmbeddedProfile ATTACH_TYPE_TIMER) = Inr l"
    by (simp add: with_program_def booted_sel ledger_new_def admit_def contribution_def hook_frequency_hz_def EmbeddedProfile_def rust_arith)
  have "commit_attach EmbeddedProfile sample_kernel with_program ATTACH_TYPE_TIMER 0
      = (Inr (), with_program\<lparr>bm_attachments := [ATTACH_TYPE_TIMER \<mapsto> [0]], bm_admission := l\<rparr>)"
    using l by (simp add: commit_attach_def e commit_attachment_def try_insert_with_def branch_entry_def parts table_contains_def)
  then have "apply_op EmbeddedProfile sample_kernel with_program (OpAttach 0 ATTACH_TYPE_TIMER 0)
      = left_behind (published () (with_program\<lparr>bm_attachments := [ATTACH_TYPE_TIMER \<mapsto> [0]], bm_admission := l\<rparr>))"
    by (simp add: attach_for_def ensure_program_owner_def e v sample_kernel_def) (simp add: branch_entry_def)
  moreover obtain m where m: "apply_op EmbeddedProfile sample_kernel with_program (OpAttach 0 ATTACH_TYPE_TIMER 0) = Some m"
    using apply_op_inv [of EmbeddedProfile with_program "OpAttach 0 ATTACH_TYPE_TIMER 0" sample_kernel] with_program_inv by auto
  ultimately show ?thesis by (auto simp: published_def publish_hook_snapshot_def attached_to_def)
qed

end
