(* ===== verification/Spec2Isabelle.thy ===== *)
theory Spec2Isabelle
  imports Policy Admission Motion_Examples Map_Examples Frame_Ownership Manager_Examples
begin

text \<open>
  Verification of the BPF core of the kernel (\<open>kernel/crates/kernel_bpf\<close>).
\<close>

section \<open>Accepted programs\<close>

text \<open>C1. Memory safety: a program that \<open>Verifier::verify_with_config\<close> accepts, run by
  \<open>Interpreter::execute_with_stack\<close>, never reads or writes through a raw pointer outside the context
  structure, the payload and the map values, each map value with its own size and writable only where the
  verifier was told so. What the program has to respect because the checks do not enforce it: calls and
  exits use their canonical opcodes (no \<open>0x8d\<close>), no arithmetic on a pointer that may be null, null checks
  compare with an immediate, and an eight-byte load at offset zero of a context pointer starts from the
  context structure, which must not have the size of the payload. If the configuration has tables of sizes or
  permissions per map, in every explored state a known register value has a one-point interval, a 64-bit
  left shift drops no set bit of the interval, and the operands of the 32-bit division, remainder and
  right shift have 32 bits. What is assumed of the kernel: the stack buffer does not wrap around the address
  space or hold the context, the first field of the context holds the payload address and is read-only,
  there are fewer than \<open>2^32\<close> maps, and a lookup returns null or a value as large as the map of the
  handle it is given, which stays mapped.\<close>

theorem accepted_program_memory_safe:
  assumes "verify_with_config P insns cfg = Inr prog" "P \<in> {CloudProfile, EmbeddedProfile}"
    and "list_all canonical insns"
    and "\<And>s. verifier_reaches P cfg insns s \<Longrightarrow> disciplined cfg (insns ! vs_insn_idx s) s"
    and "run_hypotheses P cfg ext env" "mem_ok cfg env (fst k)"
  shows "execute_with_stack P ext env insns (vp_stack_size prog) buf k \<noteq> Inl Undefined"
proof (rule accepted_memory_safe [OF assms(1,5,6) _ assms(3,4)])
  show "MAX_INSN_COUNT P < 2 ^ 63" using assms(2) cloud.insn_u32 embedded.insn_u32 by auto
qed

theorem accepted_program_memory_safe_witness:
  "map_value_sizes map_config = [8, 16]
   \<and> execute_with_stack CloudProfile map_helpers sample_env map_word_prog 8 (replicate (512 * 1024) 0) (map_memory, ())
       \<noteq> Inl Undefined"
proof -
  have "list_all canonical map_word_prog"
    by (simp add: map_word_prog_def canonical_def insn_ldx64_def insn_st64_def insn_defs)
  from accepted_program_memory_safe [OF map_word_prog_accepted _ this map_word_prog_disciplined map_hypotheses(1), of "(map_memory, ())"]
  show ?thesis using map_hypotheses(2) by (simp add: map_config_sel)
qed

text \<open>C2. The exploration is exhaustive up to subsumption: an accepted program has a set of explored
  verifier states that covers the entry state, whose members all pass the check of their instruction,
  and each of whose successors is subsumed, on the live registers, by a member at the same position.\<close>

theorem accepted_program_certified:
  assumes "verify_with_config P insns cfg = Inr prog"
  shows "\<exists>S. certificate P cfg (liveness_analyze insns (cfg_build insns)) insns S"
  using assms by (rule accepted_certificate)

theorem accepted_program_certified_witness:
  "\<exists>S. certificate CloudProfile sample_config (liveness_analyze lookup_prog (cfg_build lookup_prog)) lookup_prog S"
  by (rule accepted_program_certified [OF lookup_prog_accepted])

text \<open>C3. Time bound: under the embedded profile the cycles charged for the instructions that a run of
  an accepted program executes, plus the invocation cost, stay within the cycle budget, and the run has
  at most as many steps as the program has instructions. The program contains no reserved jump opcode
  (such as \<open>0x8d\<close>) that the interpreter executes as a call or exit and the verifier reads as a branch.\<close>

theorem embedded_run_within_budget:
  assumes "verify_with_config EmbeddedProfile insns cfg = Inr prog" "list_all canonical insns"
  shows "unat COST_INVOCATION_BASE
      + path_cost insns (run_trace ext env insns (MAX_INSN_COUNT EmbeddedProfile) 0 0 m)
        \<le> unat (WCET_CYCLE_BUDGET EmbeddedProfile)
    \<and> length (run_trace ext env insns (MAX_INSN_COUNT EmbeddedProfile) 0 0 m) \<le> length insns"
  using accepted_cost_bound [OF assms(1) _ assms(2), where ext = ext and env = env and m = m]
  by (simp add: EmbeddedProfile_def COST_INVOCATION_BASE_def)

theorem embedded_run_within_budget_witness:
  "length (run_trace null_helpers sample_env branch_prog (MAX_INSN_COUNT EmbeddedProfile) 0 0
     \<lparr>mc_regs = initial_regs sample_env 8192, mc_stack = [], mc_kernel = (sample_memory, ())\<rparr>) \<le> 4"
proof -
  have "list_all canonical branch_prog" by (simp add: branch_prog_def canonical_def insn_defs)
  from embedded_run_within_budget [OF branch_prog_accepted this, of null_helpers sample_env
      "\<lparr>mc_regs = initial_regs sample_env 8192, mc_stack = [], mc_kernel = (sample_memory, ())\<rparr>"]
  show ?thesis by (simp add: branch_prog_def)
qed

text \<open>C4. No timeout: under the embedded profile an accepted program without reserved jump opcodes
  (as for the time bound) never runs into the instruction limit of the interpreter.\<close>

theorem embedded_run_no_timeout:
  assumes "verify_with_config EmbeddedProfile insns cfg = Inr prog" "list_all canonical insns"
  shows "execute_with_stack EmbeddedProfile ext env insns (vp_stack_size prog) buf k \<noteq> Inl (Err BpfTimeout)"
  using accepted_no_timeout [OF assms(1) _ assms(2)] by (simp add: EmbeddedProfile_def)

theorem embedded_run_no_timeout_witness:
  "execute_with_stack EmbeddedProfile null_helpers sample_env branch_prog 0 (replicate 8192 0) (sample_memory, ())
     \<noteq> Inl (Err BpfTimeout)"
proof -
  have "list_all canonical branch_prog" by (simp add: branch_prog_def canonical_def insn_defs)
  from embedded_run_no_timeout [OF branch_prog_accepted this, of null_helpers sample_env "replicate 8192 0" "(sample_memory, ())"]
  show ?thesis by simp
qed

section \<open>Scalar analysis\<close>

text \<open>C10. Soundness of the 64-bit transfer functions: if two abstract scalars contain the operands, the
  result of \<open>compute_alu_result_width\<close> contains the value the interpreter computes, for every operator.
  A left shift is covered only if no set bit of the upper bound is shifted out: \<open>overflowing_shl\<close> reports
  only shift counts beyond the width, so otherwise the interval can exclude the value
  (\<open>left_shift_interval_unsound\<close>).\<close>

theorem alu64_transfer_sound:
  assumes "scalar_has a x" "scalar_has b y" "op = Lsh \<Longrightarrow> shl_fits a b"
    and "alu_value op i x y = Inr v"
  shows "scalar_has (compute_alu_result_width a op b True) v"
  using assms by (rule alu64_value_sound)

theorem alu64_transfer_sound_witness:
  "scalar_has (compute_alu_result_width (scalar_constant 5) Add (scalar_constant 7) True) 12"
proof (rule alu64_transfer_sound [where x = 5 and y = 7 and i = 0])
  show "scalar_has (scalar_constant 5) 5" "scalar_has (scalar_constant 7) 7" by simp_all
qed (simp_all add: alu_value_def)

text \<open>C11. Soundness of the 32-bit transfer functions: the abstract result contains the truncated value the
  interpreter leaves in the register. Division, modulo and right shift are covered only for operands
  below \<open>2^32\<close>, because the interpreter applies them to the full registers and the verifier to the
  truncated ones.\<close>

theorem alu32_transfer_sound:
  assumes "scalar_has a x" "scalar_has b y"
    and "op \<in> {Div, Mod, Rsh} \<Longrightarrow> x \<le> 0xFFFFFFFF \<and> y \<le> 0xFFFFFFFF"
    and "alu_value op i x y = Inr v"
  shows "scalar_has (compute_alu_result_width a op b False) (ucast (ucast v :: u32))"
  using assms by (rule alu32_value_sound)

theorem alu32_transfer_sound_witness:
  "scalar_has (compute_alu_result_width (scalar_constant 0x1FFFFFFFF) Add (scalar_constant 2) False) 1"
proof -
  have "scalar_has (compute_alu_result_width (scalar_constant 0x1FFFFFFFF) Add (scalar_constant 2) False)
      (ucast (ucast (0x200000001 :: u64) :: u32))"
    by (rule alu32_transfer_sound [where x = "0x1FFFFFFFF" and y = 2 and i = 0]) (simp_all add: alu_value_def)
  then show ?thesis by simp
qed

text \<open>C12. Soundness of branch refinement: after a conditional jump the refined scalar of the arm that is
  taken contains the value of the destination register.\<close>

theorem refine_sound:
  assumes "scalar_has a x" "scalar_has b y" "jmp_condition op x y = Some taken"
  shows "scalar_has (if taken then fst (refine_scalar a op b) else snd (refine_scalar a op b)) x"
  using assms by (rule refine_scalar_value_sound)

theorem refine_sound_witness: "scalar_has (fst (refine_scalar scalar_unknown Jlt (scalar_constant 7))) 3"
proof -
  have "scalar_has scalar_unknown 3" "scalar_has (scalar_constant 7) 7" by simp_all
  from refine_sound [OF this, of Jlt True] show ?thesis by (simp add: jmp_condition_def)
qed

text \<open>C13. No division by zero: if the verifier accepts an ALU instruction and a register operand is a
  scalar whose tracked bounds hold, the interpreter does not fail with a division by zero.\<close>

theorem division_checked:
  assumes "verify_alu insn s idx = Inr s'"
    and "\<And>src. insn_source_type insn = Src_Reg \<Longrightarrow> insn_src insn = Some src \<Longrightarrow>
      rs_type (vs_regs s src) = Scalar \<and> (\<forall>sv. rs_scalar (vs_regs s src) = Some sv \<longrightarrow> scalar_has sv (rf src))"
  shows "execute_alu insn rf (is_alu64 insn) \<noteq> Inl (Err BpfDivisionByZero)"
  using assms by (rule checked_division)

theorem division_checked_witness:
  "execute_alu (insn_new 0x3f 0 1 0 0) ((\<lambda>_. 8)(R1 := 2)) True \<noteq> Inl (Err BpfDivisionByZero)"
proof -
  let ?s = "set_scalar (set_scalar (state_new_entry 512) R0 (Some scalar_unknown)) R1 (Some (scalar_constant 2))"
  have "\<exists>s'. verify_alu (insn_new 0x3f 0 1 0 0) ?s 0 = Inr s'"
    by (simp add: verify_alu_def verify_alu_source_def insn_defs set_scalar_def set_reg_def reg_scalar_def is_reg_init_def
        reg_is_init_def could_be_zero_def scalar_constant_def)
  then obtain s' where v: "verify_alu (insn_new 0x3f 0 1 0 0) ?s 0 = Inr s'" by blast
  have "execute_alu (insn_new 0x3f 0 1 0 0) ((\<lambda>_. 8)(R1 := 2)) (is_alu64 (insn_new 0x3f 0 1 0 0)) \<noteq> Inl (Err BpfDivisionByZero)"
    by (rule division_checked [OF v]) (auto simp: insn_defs set_scalar_def set_reg_def reg_scalar_def)
  then show ?thesis by (simp add: insn_defs)
qed

section \<open>Control flow, liveness and cost\<close>

text \<open>C14. The compressed successor table answers exactly the edges of the instructions, in order: looking
  up the successors of an instruction in the table gives its fall-through and jump targets inside the
  program.\<close>

theorem successors_table_exact:
  "successors (cfg_build insns) i = (if i < length insns then insn_succs (length insns) i (insns ! i) else [])"
  by (rule successors_cfg_build)

text \<open>C15. The breadth-first search of \<open>reachable_instructions\<close> returns exactly the instructions reachable
  from the first one along the edges of the instructions.\<close>

theorem reachable_exact:
  "reachable_instructions (cfg_build insns) =
     {v. (0, v) \<in> {(i, j). i < length insns \<and> j \<in> set (insn_succs (length insns) i (insns ! i))}\<^sup>*}"
proof -
  have "cfg_rel (cfg_build insns) =
      {(i, j). i < length insns \<and> j \<in> set (insn_succs (length insns) i (insns ! i))}"
    by (auto simp: cfg_rel_def successors_cfg_build)
  then show ?thesis by (simp add: reachable_instructions_eq)
qed

text \<open>C16. The liveness fixpoint loop ends on every program, and its result solves the dataflow equations:
  what is live before an instruction is what it uses and what is live at a successor and not defined
  by it.\<close>

theorem liveness_terminates_with_solution:
  assumes "insns \<noteq> []"
  shows "\<exists>l. while_option fst (\<lambda>(changed, l). live_round (map use_def_of insns) (cfg_build insns) (length insns) l)
      (live_init (length insns)) = Some (False, l) \<and> l = liveness_analyze insns (cfg_build insns)
    \<and> (\<forall>i < length insns. \<forall>r. regset_contains (live_in l i) r \<longleftrightarrow>
         regset_contains (uses (use_def_of (insns ! i))) r
         \<or> (\<exists>j \<in> set (successors (cfg_build insns) i). regset_contains (live_in l j) r)
            \<and> \<not> regset_contains (defs (use_def_of (insns ! i))) r)"
  using liveness_fixpoint [OF assms] .

theorem liveness_terminates_with_solution_witness:
  "\<exists>l. while_option fst (\<lambda>(changed, l). live_round (map use_def_of branch_prog) (cfg_build branch_prog) (length branch_prog) l)
      (live_init (length branch_prog)) = Some (False, l)"
proof -
  have "branch_prog \<noteq> []" by (simp add: branch_prog_def)
  from liveness_terminates_with_solution [OF this] show ?thesis by blast
qed

text \<open>C17. The computed worst-case cycle count of a loop-free program bounds the cost of every path through
  its control-flow graph.\<close>

theorem wcet_bounds_paths:
  assumes "insns \<noteq> []" "20 * length insns < 2 ^ 63" "\<not> has_loops (cfg_build insns)"
    and "cfg_path (cfg_build insns) 0 p"
  shows "unat COST_INVOCATION_BASE + path_cost insns p \<le> unat (wcet_cycles insns (cfg_build insns))"
proof -
  have succ: "i < j \<and> j < length insns" if "j \<in> set (successors (cfg_build insns) i)" for i j
    using no_loops_forward [OF assms(3) that] that insn_succs_less by (auto simp: successors_cfg_build split: if_splits)
  show ?thesis
    using path_cost_le_longest [of "cfg_build insns" insns 0, OF succ assms(4)] wcet_cycles_longest [OF assms(1,2)]
    by (simp add: COST_INVOCATION_BASE_def)
qed

theorem wcet_bounds_paths_witness:
  "unat COST_INVOCATION_BASE + path_cost branch_prog [0, 1, 2] \<le> unat (wcet_cycles branch_prog (cfg_build branch_prog))"
  by (rule wcet_bounds_paths)
    (simp_all add: branch_prog_def has_loops_def cfg_build_back_edges cfg_build_edges successors_cfg_build insn_succs_def
      compute_jump_target_def insn_defs)

text \<open>C18. A verification never records more than the configured number of states.\<close>

theorem explored_states_bounded:
  assumes "verify_with_stats P insns cfg = Inr (prog, stats)"
  shows "states_explored stats \<le> DEFAULT_MAX_STATES"
  using assms by (rule verify_with_stats_states)

theorem explored_states_bounded_witness:
  "\<exists>prog stats. verify_with_stats CloudProfile lookup_prog sample_config = Inr (prog, stats)
     \<and> states_explored stats \<le> DEFAULT_MAX_STATES"
proof -
  obtain prog stats where v: "verify_with_stats CloudProfile lookup_prog sample_config = Inr (prog, stats)"
    using lookup_prog_accepted by (auto simp: verify_with_config_def res_bind_eq_Inr_iff)
  from explored_states_bounded [OF this] v show ?thesis by blast
qed

section \<open>Helpers\<close>

text \<open>C19. A call the verifier accepts is authorised: the helper exists and is available in the profile, the
  loader's tier suffices, actuation and logging are permitted by the configuration, a helper that
  changes a map is given a map that may be written, and every argument has a register of a compatible
  type.\<close>

theorem helper_call_authorised:
  assumes "verify_call P cfg insn s idx = Inr (s', hs)"
  shows "\<exists>h. insn_imm insn = helper_raw h \<and> is_available P h
    \<and> sig_min_tier (helper_signature h) \<le> caller cfg
    \<and> (sig_requires_actuation (helper_signature h) \<longrightarrow> allow_actuation cfg)
    \<and> (sig_may_log (helper_signature h) \<longrightarrow> \<not> forbid_logging_helpers cfg)
    \<and> (\<forall>r. mutating_helper_map_arg h = Some r \<longrightarrow> is_read_write (map_lookup_writability (vs_regs s r) cfg))
    \<and> (\<forall>k < length (sig_args (helper_signature h)).
         is_compatible (sig_args (helper_signature h) ! k) (rs_type (vs_regs s (helper_arg_register k))))"
  using assms by (rule verify_call_authorises)

theorem helper_call_authorised_witness:
  "\<exists>h. (1003 :: i32) = helper_raw h \<and> (sig_requires_actuation (helper_signature h) \<longrightarrow> allow_actuation (default_config\<lparr>allow_actuation := True\<rparr>))"
proof -
  let ?s = "set_scalar (set_scalar (state_new_entry 512) R1 (Some scalar_unknown)) R2 (Some scalar_unknown)"
  let ?cfg = "default_config\<lparr>allow_actuation := True\<rparr>"
  have "\<exists>x. verify_call CloudProfile ?cfg (insn_call 1003) ?s 0 = Inr x"
    by (simp add: call_eval insn_defs default_config_def CloudProfile_def set_scalar_def set_reg_def reg_scalar_def)
  then obtain s' hs where "verify_call CloudProfile ?cfg (insn_call 1003) ?s 0 = Inr (s', hs)" by force
  from helper_call_authorised [OF this] show ?thesis by (auto simp: insn_defs)
qed

section \<open>Admission control\<close>

text \<open>C20. The attachment transaction keeps the books: starting from a table and a ledger that agree and a
  ledger whose committed utilisation is the sum of its entries and within the budget, \<open>commit_attachment\<close>
  leaves them so, publishes the program when it succeeds, and changes neither table nor ledger when it
  fails. The budget is below \<open>u64::MAX\<close>, or the new sum fits in 64 bits: with the unlimited budget of the
  cloud profile the saturating comparison would let an addition wrap around, which its callers avoid by
  passing frequency zero.\<close>

theorem commit_attachment_transaction:
  assumes "ledger_wf l" "sum_fits l wcet freq_hz" "in_sync t l"
    and "commit_attachment reserve t l hook prog wcet freq_hz = (res, t', l')"
  shows "in_sync t' l' \<and> ledger_wf l'
    \<and> (case res of Inr _ \<Rightarrow> table_contains t' hook prog | Inl _ \<Rightarrow> t' = t \<and> l' = l)"
proof (cases res)
  case (Inl e)
  then show ?thesis
    using commit_attachment_sync [OF assms] commit_attachment_failure [OF assms(1,2), of t hook prog reserve e] assms(3,4)
    by (simp add: in_sync_def)
next
  case (Inr u)
  then show ?thesis using commit_attachment_sync [OF assms] by simp
qed

theorem commit_attachment_transaction_witness:
  "\<exists>res t' l'. commit_attachment (\<lambda>_. True) Map.empty (ledger_new 500000000 6) 4 1 1000 1000 = (res, t', l')
     \<and> in_sync t' l' \<and> ledger_wf l' \<and> res = Inr ()"
proof -
  let ?l = "ledger_new 500000000 6"
  have s: "in_sync Map.empty ?l" by (simp add: in_sync_def table_contains_def ledger_contains_def ledger_new_def)
  have b: "sum_fits ?l 1000 1000" by (simp add: sum_fits_def ledger_new_def)
  have c: "fst (commit_attachment (\<lambda>_. True) Map.empty ?l 4 1 1000 1000) = Inr ()"
    by (simp add: commit_attachment_def table_contains_def admit_def ledger_new_def contribution_def saturating_mul_def
        saturating_add_def try_insert_with_def)
  obtain res t' l' where r: "commit_attachment (\<lambda>_. True) Map.empty ?l 4 1 1000 1000 = (res, t', l')"
    by (metis surj_pair)
  from commit_attachment_transaction [OF ledger_wf_new b s r] r c show ?thesis by auto
qed

section \<open>Encodings\<close>

text \<open>C28. Round trips of the instruction format: the register numbers given to \<open>BpfInsn::new\<close> are read back
  by \<open>dst_reg\<close> and \<open>src_reg\<close>, and a wide load built from an immediate puts exactly that immediate into the
  register.\<close>

theorem insn_format_roundtrip:
  assumes "d < 16" "s < 16"
  shows "dst_reg (insn_new opc d s off i) = d \<and> src_reg (insn_new opc d s off i) = s
    \<and> wide_value (wide_first (ld_dw_imm d v)) (wide_next (ld_dw_imm d v)) = v"
  using insn_new_fields [OF assms] wide_value_ld_dw_imm by blast

theorem insn_format_roundtrip_witness: "dst_reg (insn_new 0xbf 3 9 0 0) = 3 \<and> src_reg (insn_new 0xbf 3 9 0 0) = 9"
  using insn_format_roundtrip [of 3 9 "0xbf" 0 0] by simp

section \<open>Where the checks fall short\<close>

text \<open>C30. A call through a reserved opcode escapes the checks: the verifier takes opcode \<open>0x8d\<close> for a
  conditional branch, the interpreter performs the call, and a program that is not allowed to actuate
  writes a GPIO pin.\<close>

theorem call_alias_escapes_authorisation:
  "\<not> allow_actuation sample_config
   \<and> verify_with_config CloudProfile call_alias_prog sample_config = Inr \<lparr>vp_insns = call_alias_prog, vp_stack_size = 0\<rparr>
   \<and> execute_with_stack CloudProfile gpio_helpers sample_env call_alias_prog 0 (replicate (512 * 1024) 0) (sample_memory, [])
       = Inr (0, (sample_memory, [(17, 1)]))"
  using call_alias_prog_accepted call_alias_prog_runs by (simp add: sample_config_def default_config_def)

text \<open>C31. An eight-byte load at offset zero of the payload is typed as a payload pointer again, so an accepted
  program can dereference payload data.\<close>

theorem payload_pointer_forged:
  "verify_with_config CloudProfile ctx_chain_prog (sample_config\<lparr>ctx_data_size := 56\<rparr>)
     = Inr \<lparr>vp_insns = ctx_chain_prog, vp_stack_size = 0\<rparr>
   \<and> execute_with_stack CloudProfile null_helpers payload_env ctx_chain_prog 0 (replicate (512 * 1024) 0) (payload_memory, ())
       = Inl Undefined"
  using ctx_chain_prog_accepted ctx_chain_prog_runs by simp

text \<open>C32. Arithmetic on a lookup result before the null check is accepted, and the check then passes for a
  failed lookup, so an accepted program can dereference a small address.\<close>

theorem null_arithmetic_accepted:
  "verify_with_config CloudProfile null_arith_prog sample_config = Inr \<lparr>vp_insns = null_arith_prog, vp_stack_size = 8\<rparr>
   \<and> execute_with_stack CloudProfile null_helpers sample_env null_arith_prog 8 (replicate (512 * 1024) 0) (sample_memory, ())
       = Inl Undefined"
  using null_arith_prog_accepted null_arith_prog_runs by simp

section \<open>Motion\<close>

text \<open>C5. The emergency stop holds: in every reachable state of the actuation seam in which the stop
  is latched, every PWM output and its hardware duty register is zero, every pin is low, and the
  control link holds no motion that has not begun to be sent. No step but a release by an operator
  clears the latch.\<close>

theorem estop_latch_holds:
  assumes "seam_reachable P s" "latched (s_monitor s)"
  shows "(\<forall>chip c. s_pwm s chip c = 0 \<and> duty_reg (s_ctl s chip) c = 0) \<and> (\<forall>pin. \<not> s_gpio s pin)
    \<and> (\<forall>l. s_link s = Some l \<longrightarrow> tx_quiet (cl_tx l))
    \<and> (\<forall>s'. seam_step P s False s' \<longrightarrow> latched (s_monitor s'))"
proof (intro conjI)
  have ok: "seam_ok P s" by (rule seam_reachable_ok [OF assms(1)])
  note out = seam_okD(2) [OF ok, unfolded outputs_ok_def] and link = seam_okD(3) [OF ok, unfolded link_fine_def]
  show "\<forall>chip c. s_pwm s chip c = 0 \<and> duty_reg (s_ctl s chip) c = 0" "\<forall>pin. \<not> s_gpio s pin" using out assms(2) by blast+
  show "\<forall>l. s_link s = Some l \<longrightarrow> tx_quiet (cl_tx l)" using link assms(2) by auto
  show "\<forall>s'. seam_step P s False s' \<longrightarrow> latched (s_monitor s')" using seam_step_ok [OF _ ok] assms(2) by blast
qed

theorem estop_latch_holds_witness:
  "let s = snd (trigger_estop boot_seam SrcOperator 5 5) in latched (s_monitor s) \<and> s_pwm s 0 1 = 0
     \<and> (\<forall>s'. seam_step EmbeddedProfile s False s' \<longrightarrow> latched (s_monitor s'))"
proof -
  let ?s = "snd (trigger_estop boot_seam SrcOperator 5 5)"
  have r: "seam_reachable EmbeddedProfile ?s" by (rule reachable_step [OF reachable_boot ss_trigger])
  have l: "latched (s_monitor ?s)" using trigger_estop_ok [OF seam_reachable_ok [OF reachable_boot]] by blast
  show ?thesis using estop_latch_holds [OF r l] l by (simp add: Let_def)
qed

text \<open>C9. The seam is total and keeps its shape: from every reachable state each guard and each PWM
  system call returns (no arithmetic, clamp or driver assertion panics) and leaves a well-formed state
  (monitor tables of the right shape, every duty within the profile's maximum, the link's wire intact)
  with the latch unchanged.\<close>

theorem seam_operations_total:
  assumes "seam_reachable P s"
  shows "guarded P s (guard_pwm_with s chip c duty a src now) \<and> guarded P s (guard_gpio_with s pin level a src now)
    \<and> guarded P s (guard_motor_pair_with s left right a src now lnow) \<and> guarded P s (sys_pwm_write s i j w now)
    \<and> guarded P s (sys_pwm_config s i f now now2) \<and> guarded P s (sys_pwm_enable s i j e now)"
proof -
  have ok: "seam_ok P s" by (rule seam_reachable_ok [OF assms])
  show ?thesis
    using guarded_pwm [OF ok] guard_gpio_ok [OF ok, of pin level a src now] guard_motor_pair_ok [OF ok, of left right a src now lnow]
      guarded_write [OF ok] guarded_config [OF ok] guarded_enable [OF ok] by (simp add: guarded_def)
qed

theorem seam_operations_total_witness:
  "guarded EmbeddedProfile boot_seam (guard_motor_pair_with boot_seam 900 (- 900) Operator SrcMission 5 5)"
  using seam_operations_total [OF reachable_boot] by blast

text \<open>C21. The reference monitor meets its contract on every channel: an unknown channel is rejected; a
  request below the required authority, under the latch or on a held channel is answered with the safe
  value; every other request is answered with a value within the envelope, within the maximum step of
  the last output inside the rate window, and equal to the request whenever the request respects both.
  A maximum step of zero with a non-zero window freezes the output inside the window, although the
  comment on \<open>Envelope::max_step\<close> says that it disables the limit; no profile configures this.\<close>

theorem decide_contract:
  assumes "monitor_ok P m"
  shows "\<exists>d m'. decide m req a src now = Some (d, m') \<and> monitor_ok P m' \<and> decision_spec P m req a now d
     \<and> latched m' = latched m"
  using assms by (rule decide_ok)

theorem decide_contract_witness:
  "\<exists>d m'. decide (monitor_new EmbeddedProfile) \<lparr>req_ch = pwm_channel 1 1, req_value = 95\<rparr> Operator SrcSyscallPwm 7 = Some (d, m')
     \<and> monitor_ok EmbeddedProfile m'
     \<and> decision_spec EmbeddedProfile (monitor_new EmbeddedProfile) \<lparr>req_ch = pwm_channel 1 1, req_value = 95\<rparr> Operator 7 d
     \<and> latched m' = latched (monitor_new EmbeddedProfile)"
  by (rule decide_contract [OF monitor_ok_new])

text \<open>C22. Burst budget of the motor pair: under the embedded profile, whatever commands arrive in a
  time window and in whatever order, as long as each is answered with a motion (no safe stop or
  rejection among the answers), the commanded travel of a wheel (the sum of the changes of its setpoint)
  is at most 200 per mille for each started millisecond.\<close>

theorem motor_burst_budget:
  assumes "monitor_ok EmbeddedProfile m" "motor_run m cs = Some (ds, m')" "list_all moves ds"
    and "\<forall>c \<in> set cs. T1 \<le> command_time c \<and> command_time c \<le> T2"
    and "mp_last_update_ns (motor_pair m) \<le> T2" "T1 \<le> T2"
  shows "max (travel (mp_left (motor_pair m)) (lefts ds)) (travel (mp_right (motor_pair m)) (rights ds)) * 1000000
     \<le> 200 * (unat T2 - unat T1 + 1000000)"
  using assms by (rule embedded_travel)

theorem motor_burst_budget_witness:
  "\<exists>d m'. motor_run (monitor_new EmbeddedProfile) [(500, - 500, Operator, SrcMission, 5)] = Some ([d], m') \<and> moves d
     \<and> max (travel 0 (lefts [d])) (travel 0 (rights [d])) * 1000000 \<le> 200 * (unat (7 :: u64) - unat (3 :: u64) + 1000000)"
proof -
  let ?m = "monitor_new EmbeddedProfile"
  obtain d m' where d: "motor_run ?m [(500, - 500, Operator, SrcMission, 5)] = Some ([d], m')" "moves d" using fresh_command by blast
  have "mp_left (motor_pair ?m) = 0" "mp_right (motor_pair ?m) = 0" "mp_last_update_ns (motor_pair ?m) \<le> 7"
    by (simp_all add: monitor_new_def MOTOR_STOPPED_def)
  then show ?thesis using motor_burst_budget [OF monitor_ok_new d(1), of 3 7] d
    by (intro exI [of _ d] exI [of _ m']) simp
qed

text \<open>C23. The audit ring refines an unbounded log: after any sequence of records a snapshot is the
  last \<open>N\<close> of them, in order, numbered from the first ever emitted, and the drop count is the number
  of records that a reader has missed.\<close>

theorem audit_ring_refines_log:
  assumes "length log < 2 ^ 64" "N < 2 ^ 64" "0 < N"
  shows "ring_snapshot (ring_of N log) out =
     (take (length out) (live_log N log) @ drop (length (live_log N log)) out, min (length out) (length (live_log N log)))
    \<and> unat (dropped_since (ring_of N log) last_seq) = length log - N - unat last_seq"
  using snapshot_live_log [OF assms] dropped_since_count [OF assms(1,2)] by blast

theorem audit_ring_refines_log_witness:
  "ring_snapshot (ring_of 2 (replicate 3 AUDIT_EMPTY)) (replicate 2 AUDIT_EMPTY)
     = (live_log 2 (replicate 3 AUDIT_EMPTY), 2)
   \<and> unat (dropped_since (ring_of 2 (replicate 3 AUDIT_EMPTY)) 0) = 1"
  using audit_ring_refines_log [of "replicate 3 AUDIT_EMPTY" 2 "replicate 2 AUDIT_EMPTY" 0]
  by (simp add: live_log_def)

text \<open>C25. Codec round trip: the decoder, from rest, turns the bytes of any sequence of encoded
  messages into exactly these messages and is at rest again.\<close>

theorem link_stream_roundtrip:
  assumes "d_state d = DIdle" "dec_ok d"
  shows "\<exists>d'. drain d (concat (map frame_of ms)) = (map Inr ms, d') \<and> d_state d' = DIdle \<and> dec_ok d'"
  using assms by (rule drain_frames)

theorem link_stream_roundtrip_witness:
  "\<exists>d'. drain decoder_new (concat (map frame_of [MotorSetpoint 1 (- 5) 7, Estop True])) =
     (map Inr [MotorSetpoint 1 (- 5) 7, Estop True], d') \<and> d_state d' = DIdle \<and> dec_ok d'"
  by (rule link_stream_roundtrip) (simp_all add: decoder_new_def dec_ok_def)

text \<open>C26. A frame with one corrupted byte in the type field, the payload or the checksum yields exactly a
  checksum error, never a message. A corrupted synchronisation, version or length byte is not covered:
  it changes where the decoder looks for the end of the frame.\<close>

theorem corrupted_frame_rejected:
  assumes "d_state d = DIdle" "dec_ok d" "i < length (frame_of m)" "i = 2 \<or> 4 \<le> i" "b \<noteq> frame_of m ! i"
  shows "\<exists>d'. drain d ((frame_of m)[i := b]) = ([Inl BadCrc], d') \<and> d_state d' = DIdle \<and> dec_ok d'"
  using assms by (rule corrupt_frame_detected)

theorem corrupted_frame_rejected_witness:
  "\<exists>d'. drain decoder_new ((frame_of (Estop False))[4 := 1]) = ([Inl BadCrc], d') \<and> d_state d' = DIdle \<and> dec_ok d'"
  by (rule corrupted_frame_rejected) (simp_all add: decoder_new_def dec_ok_def frame_of_def frame_bytes_def Let_def)

text \<open>C24. Wire integrity: whatever the link is asked to send and whatever it receives, its wire is a
  sequence of whole frames followed by a prefix of the active one, no two successive setpoints on it
  reverse a wheel without a stop in between, and the receive ring never overflows its storage.\<close>

theorem link_wire_integrity:
  assumes "link_reachable l"
  shows "rx_ok l \<and> (\<exists>ms. tx_good (cl_tx l) (u_wire (cl_uart l)) ms \<and> no_reversal (0, 0) ms
    \<and> (tx_active (cl_tx l) = None \<longrightarrow> u_wire (cl_uart l) = concat (map frame_of ms)))"
proof -
  obtain ms where g: "tx_good (cl_tx l) (u_wire (cl_uart l)) ms" and rx: "rx_ok l"
    using link_reachable_inv [OF assms] by (auto simp: link_good_def)
  then show ?thesis by (intro conjI exI [of _ ms]) (auto simp: tx_good_def wire_inv_def)
qed

theorem link_wire_integrity_witness:
  "rx_ok (snd (send_motor_pair fresh_link 300 (- 300) 4))
    \<and> (\<exists>ms. tx_good (cl_tx (snd (send_motor_pair fresh_link 300 (- 300) 4)))
             (u_wire (cl_uart (snd (send_motor_pair fresh_link 300 (- 300) 4)))) ms)"
proof -
  have "link_step fresh_link (snd (send_motor_pair fresh_link 300 (- 300) 4))" by (rule ls_motor)
  then have "link_reachable (snd (send_motor_pair fresh_link 300 (- 300) 4))"
    using fresh_link_reachable unfolding link_reachable_def by (meson rtranclp.rtrancl_into_rtrancl)
  from link_wire_integrity [OF this] show ?thesis by blast
qed

text \<open>C8. A silent peer is stopped: when the peer has gone silent, the next poll requests a stop by
  itself, and within 29 further polls that find room in the transmitter the stop frame is on the wire,
  behind at most one frame that had already begun.\<close>

theorem silent_peer_is_stopped:
  assumes "link_good False [] [] l base" "u_rx (cl_uart l) = []" "rx_ok l"
    and "\<not> session_alive (cl_session l) now" "ls_alive_prev (cl_session l) \<or> \<not> ls_estop_done (cl_session l)"
    and "list_all (\<lambda>(ws, room, now). 0 < room) xs" "29 \<le> length xs"
  shows "\<exists>c new. length c \<le> 1 \<and> link_good False [] [] (foldl poll_with (fst (poll_decode l now)) xs) (base @ new)
     \<and> stop_sent base c (base @ new)"
  using assms by (rule silent_peer_stopped)

theorem silent_peer_is_stopped_witness:
  "\<exists>c new. length c \<le> 1
     \<and> link_good False [] [] (foldl poll_with (fst (poll_decode fresh_link 9)) (replicate 29 ([], 1, 9))) ([] @ new)
     \<and> stop_sent [] c ([] @ new)"
proof (rule silent_peer_is_stopped)
  show "link_good False [] [] fresh_link []"
    by (simp add: link_good_def fresh_link_def control_link_new_def idle_uart_def tx_good_new)
  show "rx_ok fresh_link" using link_reachable_inv [OF fresh_link_reachable] by blast
qed (simp_all add: fresh_link_def control_link_new_def idle_uart_def session_new_def session_alive_def liveness_new_def liveness_alive_def list_all_iff)

text \<open>C6. From the Pi to the motors: let the wire hold whole frames and a started part of the next one when a
  stop is commanded. After 29 polls each of which finds room in the transmitter, the stop frame follows on
  the wire, behind at most one more frame, and once the firmware has read the wire up to and including it,
  both motors are neutral until it decodes a release.\<close>

theorem stop_command_reaches_motors:
  assumes "link_reachable l" "list_all (\<lambda>(ws, room, now). 0 < room) polls" "29 \<le> length polls"
  shows "\<exists>sent m k pre x. k < length (frame_of m) \<and> u_wire (cl_uart l) = concat (map frame_of sent) @ take k (frame_of m)
    \<and> length pre \<le> 1
    \<and> u_wire (cl_uart (foldl poll_with (snd (command_estop l True now)) polls)) = concat (map frame_of (sent @ pre @ [Estop True])) @ x
    \<and> (\<forall>cfg l0 r0 is i d. fw_consumed cfg (firmware_new cfg l0 r0) (is @ [i]) = concat (map frame_of (sent @ pre @ [Estop True])) @ d
         \<and> Estop False \<notin> set (msgs_of (fst (drain (snd (drain decoder_new (concat (map frame_of (sent @ pre @ [Estop True]))))) d))) \<longrightarrow>
           neutral (fw_left (fw_exec cfg (firmware_new cfg l0 r0) (is @ [i]))) \<and>
           neutral (fw_right (fw_exec cfg (firmware_new cfg l0 r0) (is @ [i]))))"
  using assms by (rule stop_reaches_motors)

theorem stop_command_reaches_motors_witness:
  "\<exists>sent m k pre x. k < length (frame_of m) \<and> u_wire (cl_uart fresh_link) = concat (map frame_of sent) @ take k (frame_of m)
     \<and> length pre \<le> 1
     \<and> u_wire (cl_uart (foldl poll_with (snd (command_estop fresh_link True 4)) (replicate 29 ([], 16, 4))))
         = concat (map frame_of (sent @ pre @ [Estop True])) @ x"
proof -
  have "list_all (\<lambda>(ws, room, now). 0 < room) (replicate 29 ([], 16, 4) :: (u32 list \<times> nat \<times> u64) list)"
    "29 \<le> length (replicate 29 ([], 16, 4) :: (u32 list \<times> nat \<times> u64) list)" by (simp_all add: list_all_iff)
  from stop_command_reaches_motors [OF fresh_link_reachable this, of 4] show ?thesis by blast
qed

text \<open>C7. Motors turn only on authority: whenever the loop leaves a motor driven, the stop line was
  released in that iteration, and the drive is the last accepted setpoint of the decoded messages,
  received within the command timeout while nothing was latched, with no stop after it.\<close>

theorem motors_turn_only_on_authority:
  assumes "\<not> (neutral (fw_left (fw_exec cfg (firmware_new cfg l0 r0) (is @ [i])))
            \<and> neutral (fw_right (fw_exec cfg (firmware_new cfg l0 r0) (is @ [i]))))"
  shows "\<not> fi_estop i \<and> (\<exists>l r d. drive_authority (link_timeout_us cfg) (fw_events cfg (firmware_new cfg l0 r0) (is @ [i])) l r d
      \<and> fi_now i < d
      \<and> fw_left (fw_exec cfg (firmware_new cfg l0 r0) (is @ [i])) = motor_drive (fw_left (fw_exec cfg (firmware_new cfg l0 r0) is)) l
      \<and> fw_right (fw_exec cfg (firmware_new cfg l0 r0) (is @ [i])) = motor_drive (fw_right (fw_exec cfg (firmware_new cfg l0 r0) is)) r)
    \<and> concat (map event_msg (fw_events cfg (firmware_new cfg l0 r0) (is @ [i])))
        = msgs_of (fst (drain decoder_new (fw_consumed cfg (firmware_new cfg l0 r0) (is @ [i]))))"
  using motors_need_authority [OF refl assms] fw_events_msgs [of cfg "firmware_new cfg l0 r0" "is @ [i]"]
  by (simp add: firmware_new_def)

definition sample_config_us :: fw_config where
  "sample_config_us = \<lparr>link_timeout_us = 100, ping_period_us = 50, peer_heartbeat_period_us = 20\<rparr>"

definition sample_motor :: l298n where "sample_motor = \<lparr>ena_max = 1000, ena_duty = 0, in1 = False, in2 = False\<rparr>"

definition sample_drive :: fw_input where
  "sample_drive = \<lparr>fi_now = 10, fi_estop = False, fi_bytes = frame_of (MotorSetpoint 1 400 (- 400)), fi_echo = None\<rparr>"

lemma sample_drive_moves:
  "fw_left (fw_iteration sample_config_us (firmware_new sample_config_us sample_motor sample_motor) sample_drive)
     = \<lparr>ena_max = 1000, ena_duty = 400, in1 = True, in2 = False\<rparr>"
proof -
  let ?m = "MotorSetpoint 1 400 (- 400)" and ?s0 = "firmware_new sample_config_us sample_motor sample_motor"
  have len: "length (frame_of ?m) \<le> 64" by (simp add: frame_of_def frame_bytes_def Let_def le16_def)
  obtain d' where d: "drain decoder_new (frame_of ?m) = ([Inr ?m], d')" using drain_new [of "[?m]"] by auto
  have "iter_events ?s0 sample_drive = [WdHardware False, WdMsg ?m 10]"
    using len d by (simp add: iter_events_def iter_bytes_def sample_drive_def firmware_new_def RX_BYTES_PER_ITERATION_def)
  then have "wd_output_at (fw_wd (fw_iteration sample_config_us ?s0 sample_drive)) 10 = Drive 400 (- 400)"
    by (simp add: fw_iteration_link firmware_new_def watchdog_new_def sample_config_us_def wd_set_hardware_estop_def
        wd_on_msg_def wd_refresh_def wd_output_at_def wd_expired_def saturating_add_def Let_def)
  then show ?thesis
    by (simp add: fw_iteration_motors sample_drive_def firmware_new_def sample_motor_def motor_drive_def split_duty_def clamp_def)
qed

theorem motors_turn_only_on_authority_witness:
  "ena_duty (fw_left (fw_exec sample_config_us (firmware_new sample_config_us sample_motor sample_motor) ([] @ [sample_drive]))) = 400
   \<and> (\<exists>l r d. drive_authority 100 (fw_events sample_config_us (firmware_new sample_config_us sample_motor sample_motor) ([] @ [sample_drive])) l r d
        \<and> 10 < d)"
proof -
  let ?s0 = "firmware_new sample_config_us sample_motor sample_motor"
  have s: "ena_duty (fw_left (fw_exec sample_config_us ?s0 ([] @ [sample_drive]))) = 400" using sample_drive_moves by simp
  then have n: "\<not> (neutral (fw_left (fw_exec sample_config_us ?s0 ([] @ [sample_drive])))
            \<and> neutral (fw_right (fw_exec sample_config_us ?s0 ([] @ [sample_drive]))))" by (simp add: neutral_def)
  have "link_timeout_us sample_config_us = 100" "fi_now sample_drive = 10" by (simp_all add: sample_config_us_def sample_drive_def)
  then show ?thesis using motors_turn_only_on_authority [OF n] s by metis
qed

text \<open>C27. Fail-closed FPGA: for every platform whose \<open>force_safe\<close> makes its outputs safe, a failed
  configuration or runtime command leaves the lifecycle not ready and the outputs safe, a successful
  configuration used the image whose hash is in the manifest, and an accepted command is within range
  and was sent by a configured device.\<close>

theorem fpga_fails_closed:
  assumes "\<And>p. safe (op_force_safe F p)"
  shows "(\<forall>e c'. configure F c m timeout = Some (Inl e, c') \<or> runtime_command F c sq left right flags = (Inl e, c')
         \<longrightarrow> \<not> lc_ready c' \<and> safe (lc_platform c'))
    \<and> (\<forall>x c'. configure F c m timeout = Some (Inr x, c') \<longrightarrow>
      fst (op_bitstream_sha256 F (op_force_safe F (lc_platform c)) (bm_offset m) (bm_length m)) = Inr (bm_sha256 m))
    \<and> (\<forall>x c'. runtime_command F c sq left right flags = (Inr x, c') \<longrightarrow>
      lc_ready c \<and> \<bar>sint left\<bar> \<le> 800 \<and> \<bar>sint right\<bar> \<le> 800 \<and> flags = 0)"
proof -
  have p: "fpga_platform F safe" by unfold_locales (rule assms)
  show ?thesis
    by (auto dest: fpga_platform.configure_error_safe [OF p] fpga_platform.command_error_safe [OF p] configure_ok runtime_command_ok)
qed

definition sample_board :: r04 where
  "sample_board = \<lparr>r04_pwr = True, r04_en = True, r04_cs = False, r04_left = 7, r04_right = 7, r04_timer = (\<lambda>n. of_nat n), r04_reads = 0\<rparr>"

theorem fpga_fails_closed_witness:
  "r04_safe (lc_platform (snd (runtime_command r04_ops (r04_main sample_board) 1 100 100 0)))"
proof -
  have f: "r04_safe (op_force_safe r04_ops p)" for p by (rule board.force_safe)
  have "fst (runtime_command r04_ops (r04_main sample_board) 1 100 100 0) = Inl NotReady"
    by (simp add: runtime_command_def r04_main_def fail_safe_def lifecycle_abort_def)
  then have "runtime_command r04_ops (r04_main sample_board) 1 100 100 0
     = (Inl NotReady, snd (runtime_command r04_ops (r04_main sample_board) 1 100 100 0))" by (metis prod.collapse)
  then show ?thesis using fpga_fails_closed [of r04_safe r04_ops "r04_main sample_board" _ _ 1 100 100 0, OF f] by blast
qed

text \<open>C35. A frequency change does not zero the duty: \<open>sys_pwm_config\<close> asks the monitor for duty zero
  first, but inside the rate window the monitor only lowers the duty by its maximum step and answers
  with success. The call then shortens the period below the high time, so an enabled output is
  permanently high although the profile caps the duty at 90 per cent.\<close>

theorem reconfigured_duty_exceeds_period:
  "\<exists>s. seam_reachable EmbeddedProfile s \<and> enabled (s_ctl s 1) 1 \<and> range_reg (s_ctl s 1) 1 < duty_reg (s_ctl s 1) 1"
  by (rule duty_above_period)

section \<open>Kernel data structures\<close>

text \<open>C36. A hash map made by \<open>HashMap::new\<close> answers every sequence of lookups, updates and deletions as a
  finite map of at most \<open>max_entries\<close> entries does, with the errors of the interface for wrong sizes, the
  two update flags and a full map. No operation panics and every probe ends.\<close>

theorem hash_map_refines_finite_map:
  assumes "hash_map_new P heap d = Inr m"
  shows "hash_run m xs = Some (finite_map_run d Map.empty xs)"
  using hash_run_refines [of m xs] hash_map_new_inv [OF assms] by simp

theorem hash_map_refines_finite_map_witness:
  "\<exists>m. hash_map_new EmbeddedProfile (\<lambda>_. True) small_map_def = Inr m \<and>
     hash_run m [HashUpdate [1] [7, 8] 0, HashUpdate [2] [9, 9] 1, HashUpdate [3] [0, 0] 0, HashLookup [1], HashDelete [1], HashLookup [1]] =
       Some [HashDone (Inr ()), HashDone (Inr ()), HashDone (Inl MapFull), HashValue (Some [7, 8]), HashDone (Inr ()), HashValue None]"
proof -
  obtain m where m: "hash_map_new EmbeddedProfile (\<lambda>_. True) small_map_def = Inr m" using small_map_created by blast
  show ?thesis
    by (intro exI [of _ m] conjI m, subst hash_map_refines_finite_map [OF m])
      (simp add: map_update_spec_def map_delete_spec_def small_map_def_def)
qed


text \<open>C37. A ring buffer made by \<open>RingBufMap::new\<close> answers every sequence of \<open>output\<close> and \<open>poll\<close> as a queue of
  byte strings does: an event is refused exactly when the events in the buffer leave no room for it, and
  events are delivered whole and in order, whatever way they wrap around the end of the buffer. A full
  buffer refuses the new event in both profiles; the comment of the module says that the cloud profile
  drops the oldest one.\<close>

theorem ring_buffer_is_fifo:
  assumes "ringbuf_map_new P heap sz = Inr m" "\<forall>d. RingOutput d \<in> set xs \<longrightarrow> length d \<le> 2 ^ 63"
  shows "rb_run m xs = Some (fifo_run sz [] xs)"
  using rb_run_fifo [of m "[]" xs] ringbuf_new_queue [OF assms(1)] assms(2) by simp

theorem ring_buffer_is_fifo_witness:
  "rb_run (ring16 0 0 [0,0,0,0,0,0,0,0,0,0,0,0,0,0,0,0]) [RingOutput [1, 2], RingOutput [3], RingPoll, RingOutput [4], RingPoll, RingPoll] =
     Some [RingOutputAnswer (Inr ()), RingOutputAnswer (Inl MapFull), RingPollAnswer (Some [1, 2]), RingOutputAnswer (Inr ()),
       RingPollAnswer (Some [4]), RingPollAnswer None]"
  by (subst ring_buffer_is_fifo [OF ring16_new]) (simp_all add: queue_bytes_def EVENT_SIZE_def align8_def)


text \<open>C38. Physical frames are never shared: from any well-formed memory map, whatever clients allocate (4 KiB,
  2 MiB or 1 GiB frames, contiguous ranges) and give back, every call returns, the frames of different
  clients are disjoint and disjoint from the free and from the reserved frames, and no frame is lost.\<close>

theorem frames_never_shared:
  assumes "regions_wf rs" "\<forall>c S n. TakeFrames c S n \<in> set xs \<longrightarrow> request_ok S n"
  shows "\<exists>m held. run_frame_ops (pmm_new rs) (\<lambda>_. {}) xs = Some (m, held) \<and>
     frames_in Allocated m = frames_in Allocated (pmm_new rs) \<union> (\<Union>c. held c) \<and>
     (\<forall>c. held c \<inter> frames_in Allocated (pmm_new rs) = {} \<and> held c \<inter> frames_in Free m = {}) \<and>
     (\<forall>c d. c \<noteq> d \<longrightarrow> held c \<inter> held d = {})"
proof -
  obtain m held where m: "run_frame_ops (pmm_new rs) (\<lambda>_. {}) xs = Some (m, held)"
      "pool.exclusive (frames_in Allocated (pmm_new rs)) m held"
    using run_frame_ops_exclusive [OF pool.exclusive_start [OF pmm_new_inv [OF assms(1)]] assms(2)] by blast
  then have "pmm_inv m" "frames_in Allocated m = frames_in Allocated (pmm_new rs) \<union> (\<Union>c. held c)" by (simp_all add: pool.exclusive_def)
  then have "held c \<inter> frames_in Free m = {}" for c using pool.apart [of m] by blast
  then show ?thesis using m by (auto simp: pool.exclusive_def)
qed

theorem frames_never_shared_witness:
  "\<exists>m held. run_frame_ops (pmm_new sample_regions) (\<lambda>_. {}) sample_frame_ops = Some (m, held) \<and>
     frames_in Allocated m = frames_in Allocated (pmm_new sample_regions) \<union> (\<Union>c. held c) \<and> held 1 \<inter> held 2 = {}"
proof -
  have "\<forall>c S n. TakeFrames c S n \<in> set sample_frame_ops \<longrightarrow> request_ok S n" by (simp add: sample_frame_ops_def request_ok_def)
  from frames_never_shared [OF sample_regions_wf this] show ?thesis by (metis one_eq_numeral_iff num.distinct(1))
qed

text \<open>C39. A reservation of a ring buffer that is polled before it is submitted: the reservation leaves no
  busy header, so the poll reads whatever the buffer holds. Here it delivers an empty event that nobody
  sent, then the submitted event with a wrong content, and moves the tail past the head, after which a
  further reservation overflows.\<close>

theorem unsubmitted_reservation_corrupts_ring:
  "\<exists>m0 res m1 m2 m3 m4. ringbuf_map_new EmbeddedProfile (\<lambda>_. True) 16 = Inr m0 \<and> rb_reserve m0 1 = Some (Some res, m1) \<and>
     rb_poll m1 = Some (Some [], m2) \<and> rb_submit m2 res [5] = Some (Inr m3) \<and> rb_poll m3 = Some (Some [1, 0, 0, 0, 0], m4) \<and>
     rb_reserve m4 0 = None"
  using ring16_new ring16_reserve ring16_early_poll ring16_late_submit ring16_garbage ring16_stuck by blast


section \<open>BPF manager\<close>

text \<open>C1. From boot on, whatever is called in whatever order: no operation panics, the counters of programs, maps
  and bytes are the sums over the tables, all limits hold in total and for every owner, a loaded program
  refers only to maps that are still there, and every pin names a map that is still there.\<close>

theorem manager_never_panics:
  assumes "reachable_manager P m"
  shows "(\<forall>env op. op_allowed m op \<longrightarrow> apply_op P env m op \<noteq> None) \<and> usage_inv m \<and> quota_inv m \<and> refs_inv m \<and> pins_inv m"
  using apply_op_inv [OF reachable_inv [OF assms]] reachable_inv [OF assms] by (fastforce simp: manager_inv_def)

theorem manager_never_panics_witness:
  "apply_op EmbeddedProfile sample_kernel with_map (OpUpdate 7 1 [0, 0, 0, 0] [1, 2, 3, 4, 5, 6, 7, 8] 0) \<noteq> None
   \<and> bm_live_maps with_map = 1 \<and> usage_inv with_map"
proof -
  have "op_allowed with_map (OpUpdate 7 1 [0, 0, 0, 0] [1, 2, 3, 4, 5, 6, 7, 8] 0)" by simp
  then show ?thesis using manager_never_panics [OF sample_reachable(3)] by (simp add: with_map_def del: apply_op.simps)
qed



text \<open>C3. A handle of a program or map that was removed is dead for good: no later operation makes it name an object again.\<close>

theorem stale_handles_stay_dead:
  assumes "reachable_manager P m" "(manager_step P)\<^sup>*\<^sup>* m gone" "(manager_step P)\<^sup>*\<^sup>* gone later"
  shows "(program_entry_at m h \<noteq> None \<and> program_entry_at gone h = None \<longrightarrow> program_entry_at later h = None) \<and>
     (map_entry_at m h \<noteq> None \<and> map_entry_at gone h = None \<longrightarrow> map_entry_at later h = None)"
proof -
  note inv = reachable_inv [OF assms(1)]
  have g: "manager_inv P gone" "handles_mono m gone" using manager_steps_inv [OF assms(2) inv] by auto
  have l: "handles_mono gone later" using manager_steps_inv [OF assms(3) g(1)] by auto
  have ok: "slot_table_ok (program_table m)" "slot_table_ok (map_table m)" using inv by (simp_all add: manager_inv_def tables_inv_def)
  have dead: "entry_at t h \<noteq> None \<and> entry_at t' h = None \<longrightarrow> entry_at t'' h = None"
    if "slot_table_ok t" "handles_kept t t'" "handles_kept t' t''" for t t' t'' :: "'b slot_table"
    using entry_at_issued [OF that(1), of h] that(2,3) unfolding handles_kept_def by blast
  have k: "handles_kept (program_table m) (program_table gone)" "handles_kept (program_table gone) (program_table later)"
      "handles_kept (map_table m) (map_table gone)" "handles_kept (map_table gone) (map_table later)"
    using g(2) l by (simp_all add: handles_mono_def)
  show ?thesis
    unfolding program_entry_at_def map_entry_at_def using dead [OF ok(1) k(1,2)] dead [OF ok(2) k(3,4)] by (rule conjI)
qed

theorem stale_handles_stay_dead_witness: "map_entry_at with_map 1 \<noteq> None \<and> map_entry_at with_new_map 1 = None"
  using stale_handles_stay_dead [OF sample_reachable(3) sample_steps, of 1] sample_lookups by simp



end
